(* ===== verification/Prelude.thy ===== *)
theory Prelude
  imports Complex_Main "HOL-Library.Sublist"
begin

text \<open>
  Shared ground of the development: the result type of fallible Rust code, signed 64-bit
  arithmetic, the values of \<open>f64\<close> and of \<open>serde_json::Value\<close>, and generic lemmas on lists.
  A Rust \<open>Result<T, E>\<close> is the sum \<open>'e + 'a\<close> with \<open>Inl\<close> for \<open>Err\<close>.
\<close>

named_theorems result_simps \<open>rewriting of chained fallible checks\<close>
named_theorems str_defs \<open>unfolding of the byte-string operations\<close>
named_theorems table_simps \<open>keys, membership and lookup in SQL tables\<close>

type_synonym str = string
type_synonym 'e check = "'e + unit"

subsection \<open>Fallible checks\<close>

text \<open>
  \<open>bail_if b e\<close> is the Rust idiom \<open>if b { bail!(e) }\<close>, and \<open>first_err\<close> runs a list of
  checks the way a sequence of \<open>?\<close> does: the first error is returned, later checks do not matter.
\<close>

definition bail_if :: "bool \<Rightarrow> 'e \<Rightarrow> 'e check" where
  "bail_if b e = (if b then Inl e else Inr ())"

fun first_err :: "'e check list \<Rightarrow> 'e check" where
  "first_err [] = Inr ()"
| "first_err (Inl e # cs) = Inl e"
| "first_err (Inr u # cs) = first_err cs"

fun and_then :: "'e check \<Rightarrow> ('e + 'a) \<Rightarrow> 'e + 'a" where
  "and_then (Inl e) r = Inl e"
| "and_then (Inr u) r = r"

definition is_ok :: "'e + 'a \<Rightarrow> bool" where
  "is_ok r = (case r of Inl _ \<Rightarrow> False | Inr _ \<Rightarrow> True)"

definition check_opt :: "('a \<Rightarrow> 'e check) \<Rightarrow> 'a option \<Rightarrow> 'e check" where
  "check_opt f x = (case x of None \<Rightarrow> Inr () | Some v \<Rightarrow> f v)"

lemma bail_if_ok [simp, result_simps]: "(bail_if b e = Inr ()) = (\<not> b)"
  by (simp add: bail_if_def)

lemma bail_if_err [simp, result_simps]: "(bail_if b e = Inl e') = (b \<and> e = e')"
  by (auto simp: bail_if_def)

lemma bail_if_simps [simp]: "bail_if True e = Inl e" "bail_if False e = Inr ()"
  by (simp_all add: bail_if_def)

lemma first_err_ok [simp, result_simps]:
  "(first_err cs = Inr ()) = (\<forall>c \<in> set cs. c = Inr ())"
  by (induction cs rule: first_err.induct) auto

lemma first_err_Cons [result_simps]:
  "(first_err (c # cs) = Inl e) = (c = Inl e \<or> (c = Inr () \<and> first_err cs = Inl e))"
  by (cases c) auto

lemma first_err_mem: "first_err cs = Inl e \<Longrightarrow> Inl e \<in> set cs"
  by (induction cs rule: first_err.induct) auto

lemma first_err_append:
  "first_err (cs @ ds) = and_then (first_err cs) (first_err ds)"
  by (induction cs rule: first_err.induct) auto

lemma and_then_ok [simp, result_simps]: "(and_then c r = Inr v) = (c = Inr () \<and> r = Inr v)"
  by (cases c) auto

lemma check_opt_ok [simp, result_simps]:
  "(check_opt f x = Inr ()) = (\<forall>v. x = Some v \<longrightarrow> f v = Inr ())"
  by (cases x) (auto simp: check_opt_def)

lemma is_ok_simps [simp]: "is_ok (Inl e) = False" "is_ok (Inr v) = True"
  by (simp_all add: is_ok_def)

lemma check_cases: obtains e where "c = Inl e" | "c = Inr ()"
  by (cases c) auto

subsection \<open>Signed 64-bit integers\<close>

text \<open>
  \<open>i64\<close> values are kept as \<^typ>\<open>int\<close>; \<open>i64_add\<close> is Rust's \<open>+\<close> in the release profile, which has
  no overflow checks and wraps around.
\<close>

definition wrap64 :: "int \<Rightarrow> int" where
  "wrap64 x = (x + 2 ^ 63) mod 2 ^ 64 - 2 ^ 63"

definition i64_add :: "int \<Rightarrow> int \<Rightarrow> int" where
  "i64_add a b = wrap64 (a + b)"

definition in_i64 :: "int \<Rightarrow> bool" where
  "in_i64 x = (- (2 ^ 63) \<le> x \<and> x < 2 ^ 63)"

lemma wrap64_id [simp]: "in_i64 x \<Longrightarrow> wrap64 x = x"
  unfolding in_i64_def wrap64_def by (subst mod_pos_pos_trivial) auto

lemma wrap64_in_i64: "in_i64 (wrap64 x)"
proof -
  have "0 \<le> (x + 2 ^ 63) mod 2 ^ 64" "(x + 2 ^ 63) mod 2 ^ 64 < 2 ^ 64"
    by (simp_all del: power_numeral)
  then show ?thesis by (auto simp: in_i64_def wrap64_def)
qed

lemma i64_add_exact: "in_i64 (a + b) \<Longrightarrow> i64_add a b = a + b"
  by (simp add: i64_add_def)

subsection \<open>Floating-point values\<close>

text \<open>
  The values of \<open>f64\<close> that the modelled code distinguishes: not-a-number, the infinities and
  finite values, the latter by the rational number they denote.
\<close>

datatype f64 = NaN | Infinite bool | Fin rat

subsection \<open>JSON values\<close>

text \<open>
  \<open>serde_json::Value\<close>. An object is the sequence of its entries; a number is kept by its value
  (integers and floats apart, as \<open>serde_json::Number\<close> does).
\<close>

datatype json = JNull | JBool bool | JInt int | JFloat rat | JStr str
  | JArr "json list" | JObj "(str \<times> json) list"

definition json_get :: "json \<Rightarrow> str \<Rightarrow> json option" where
  "json_get v k = (case v of JObj kvs \<Rightarrow> map_of kvs k | _ \<Rightarrow> None)"

definition json_str :: "json \<Rightarrow> str option" where
  "json_str v = (case v of JStr s \<Rightarrow> Some s | _ \<Rightarrow> None)"

definition is_object :: "json \<Rightarrow> bool" where
  "is_object v = (case v of JObj _ \<Rightarrow> True | _ \<Rightarrow> False)"

text \<open>\<open>Map::insert\<close> replaces the value of a present key and otherwise adds an entry.\<close>

fun obj_insert :: "str \<Rightarrow> json \<Rightarrow> (str \<times> json) list \<Rightarrow> (str \<times> json) list" where
  "obj_insert k v [] = [(k, v)]"
| "obj_insert k v ((k', v') # kvs) =
     (if k = k' then (k, v) # kvs else (k', v') # obj_insert k v kvs)"

lemma map_of_obj_insert [simp]: "map_of (obj_insert k v kvs) = (map_of kvs)(k \<mapsto> v)"
  by (induction kvs) auto

lemma keys_obj_insert: "set (map fst (obj_insert k v kvs)) = insert k (set (map fst kvs))"
proof (induction kvs)
  case (Cons kv kvs)
  then show ?case by (cases kv) auto
qed simp

subsection \<open>Lists\<close>

lemma filter_map_idem: "\<forall>x \<in> set xs. P x \<longrightarrow> f x = x \<Longrightarrow> map (\<lambda>x. if P x then f x else x) xs = xs"
  by (induction xs) auto

lemma find_Some_mem: "find P xs = Some x \<Longrightarrow> x \<in> set xs \<and> P x"
  by (induction xs) (auto split: if_splits)

lemma find_None_all: "(find P xs = None) = (\<forall>x \<in> set xs. \<not> P x)"
  by (induction xs) auto

lemma find_append: "find P (xs @ ys) = (case find P xs of None \<Rightarrow> find P ys | Some x \<Rightarrow> Some x)"
  by (induction xs) auto

lemma length_filter_partition:
  "length (filter P xs) + length (filter (\<lambda>x. \<not> P x) xs) = length xs"
  by (induction xs) auto

end
