(* ===== verification/Rust_Str.thy ===== *)
theory Rust_Str
  imports Prelude "HOL-Library.List_Lexorder" "HOL-Library.Char_ord"
begin

text \<open>
  The part of Rust's \<open>str\<close> the program uses. A \<open>str\<close> is its UTF-8 byte sequence, so \<open>len()\<close> is
  \<^const>\<open>length\<close> and \<open>chars()\<close> decodes code points. Delimiters and keywords of the program are
  ASCII, whose bytes never occur inside a longer encoding, so searching for them works on bytes.
\<close>

definition byte_of :: "char \<Rightarrow> nat" where
  "byte_of c = of_char c"

text \<open>\<open>str::chars\<close>: the code points of a UTF-8 string (a truncated tail decodes to U+FFFD).\<close>

fun chars :: "str \<Rightarrow> nat list" where
  "chars [] = []"
| "chars (a # s) =
     (let b = byte_of a in
      if b < 128 then b # chars s
      else if b < 224 then
        (case s of c # r \<Rightarrow> ((b - 192) * 64 + (byte_of c - 128)) # chars r | [] \<Rightarrow> [65533])
      else if b < 240 then
        (case s of c # d # r \<Rightarrow>
            ((b - 224) * 4096 + (byte_of c - 128) * 64 + (byte_of d - 128)) # chars r
         | _ \<Rightarrow> [65533])
      else
        (case s of c # d # e # r \<Rightarrow>
            ((b - 240) * 262144 + (byte_of c - 128) * 4096 + (byte_of d - 128) * 64
              + (byte_of e - 128)) # chars r
         | _ \<Rightarrow> [65533]))"

text \<open>\<open>char::is_control\<close>: the general category Cc.\<close>

definition is_control :: "nat \<Rightarrow> bool" where
  "is_control c = (c < 32 \<or> (127 \<le> c \<and> c < 160))"

subsection \<open>Trimming\<close>

text \<open>
  The UTF-8 encodings of the characters with the Unicode property White\_Space, which
  \<open>str::trim\<close> removes at both ends.
\<close>

definition white_space :: "str list" where
  "white_space =
     [[CHR 0x09], [CHR 0x0A], [CHR 0x0B], [CHR 0x0C], [CHR 0x0D], [CHR 0x20],
      [CHR 0xC2, CHR 0x85], [CHR 0xC2, CHR 0xA0], [CHR 0xE1, CHR 0x9A, CHR 0x80]]
     @ map (\<lambda>c. [CHR 0xE2, CHR 0x80, c])
         [CHR 0x80, CHR 0x81, CHR 0x82, CHR 0x83, CHR 0x84, CHR 0x85, CHR 0x86, CHR 0x87,
          CHR 0x88, CHR 0x89, CHR 0x8A, CHR 0xA8, CHR 0xA9, CHR 0xAF]
     @ [[CHR 0xE2, CHR 0x81, CHR 0x9F], [CHR 0xE3, CHR 0x80, CHR 0x80]]"

function strip_codes :: "str list \<Rightarrow> str \<Rightarrow> str" where
  "strip_codes ws s =
     (case find (\<lambda>w. w \<noteq> [] \<and> prefix w s) ws of
        None \<Rightarrow> s
      | Some w \<Rightarrow> strip_codes ws (drop (length w) s))"
  by pat_completeness auto
termination
proof (relation "measure (\<lambda>(ws, s). length s)")
  fix ws s w
  assume "find (\<lambda>w. w \<noteq> [] \<and> prefix w s) ws = Some w"
  then have "w \<noteq> []" "prefix w s" by (auto dest: find_Some_mem)
  then show "((ws, drop (length w) s), (ws, s)) \<in> measure (\<lambda>(ws, s). length s)"
    by (auto simp: prefix_def)
qed auto

declare strip_codes.simps [simp del]

definition trim_start :: "str \<Rightarrow> str" where
  "trim_start s = strip_codes white_space s"

definition trim_end :: "str \<Rightarrow> str" where
  "trim_end s = rev (strip_codes (map rev white_space) (rev s))"

definition trim :: "str \<Rightarrow> str" where
  "trim s = trim_end (trim_start s)"

lemma strip_codes_suffix: "suffix (strip_codes ws s) s"
proof (induction ws s rule: strip_codes.induct)
  case (1 ws s)
  show ?case
  proof (cases "find (\<lambda>w. w \<noteq> [] \<and> prefix w s) ws")
    case None
    then show ?thesis by (subst strip_codes.simps) (auto simp: None)
  next
    case (Some w)
    have "suffix (drop (length w) s) s" by (rule suffix_drop)
    with "1"[OF Some] have "suffix (strip_codes ws (drop (length w) s)) s"
      by (rule suffix_order.trans)
    with Some show ?thesis by (subst strip_codes.simps) simp
  qed
qed

lemma strip_codes_stable: "find (\<lambda>w. w \<noteq> [] \<and> prefix w (strip_codes ws s)) ws = None"
proof (induction ws s rule: strip_codes.induct)
  case (1 ws s)
  show ?case
  proof (cases "find (\<lambda>w. w \<noteq> [] \<and> prefix w s) ws")
    case None
    then have "strip_codes ws s = s" by (subst strip_codes.simps) simp
    with None show ?thesis by simp
  next
    case (Some w)
    then have "strip_codes ws s = strip_codes ws (drop (length w) s)"
      by (subst strip_codes.simps) simp
    with "1"[OF Some] show ?thesis by simp
  qed
qed

lemma strip_codes_idem [simp]: "strip_codes ws (strip_codes ws s) = strip_codes ws s"
  using strip_codes_stable [of ws s] by (subst strip_codes.simps) simp

lemma trim_sublist: "\<exists>p q. s = p @ trim s @ q"
proof -
  obtain p where p: "s = p @ trim_start s"
    using strip_codes_suffix by (auto simp: suffix_def trim_start_def)
  have "suffix (strip_codes (map rev white_space) (rev (trim_start s))) (rev (trim_start s))"
    by (rule strip_codes_suffix)
  then obtain q where "rev (trim_start s) = q @ rev (trim s)"
    by (auto simp: suffix_def trim_def trim_end_def)
  then have "trim_start s = trim s @ rev q"
    by (metis rev_append rev_rev_ident)
  with p show ?thesis by metis
qed

lemma strip_codes_prefix:
  assumes "prefix t (strip_codes ws s)"
  shows "strip_codes ws t = t"
proof -
  have "find (\<lambda>w. w \<noteq> [] \<and> prefix w t) ws = None"
    using strip_codes_stable [of ws s] assms by (auto simp: find_None_all dest: prefix_order.trans)
  then show ?thesis by (subst strip_codes.simps) simp
qed

lemma trim_idem [simp]: "trim (trim s) = trim s"
proof -
  let ?x = "strip_codes white_space s"
  have "suffix (strip_codes (map rev white_space) (rev ?x)) (rev ?x)" by (rule strip_codes_suffix)
  then have "prefix (trim s) ?x" by (simp add: trim_def trim_end_def trim_start_def suffix_to_prefix)
  then have "trim_start (trim s) = trim s" unfolding trim_start_def by (rule strip_codes_prefix)
  then have "trim (trim s) = trim_end (trim s)" by (simp only: trim_def)
  then show ?thesis by (simp add: trim_def trim_end_def)
qed

lemma length_trim_le: "length (trim s) \<le> length s"
proof -
  obtain p q where "s = p @ trim s @ q" using trim_sublist by blast
  then have "length s = length p + length (trim s) + length q" by (metis length_append add.assoc)
  then show ?thesis by simp
qed

lemma set_trim_subset: "set (trim s) \<subseteq> set s"
proof -
  obtain p q where "s = p @ trim s @ q" using trim_sublist by blast
  then have "set s = set p \<union> (set (trim s) \<union> set q)" by (metis set_append)
  then show ?thesis by auto
qed

lemma trim_end_empty [simp]: "trim_end [] = []"
  using strip_codes_suffix [of "map rev white_space" "[]"] by (simp add: trim_end_def)

lemma trim_start_empty [simp]: "trim_start [] = []"
  using strip_codes_suffix [of white_space "[]"] by (simp add: trim_start_def)

lemma trim_empty [simp]: "trim [] = []"
  by (simp add: trim_def)

text \<open>\<open>str::split_whitespace\<close>: the maximal runs without white space, in order.\<close>

function split_ws :: "str \<Rightarrow> str \<Rightarrow> str list" where
  "split_ws acc s =
     (case find (\<lambda>w. w \<noteq> [] \<and> prefix w s) white_space of
        Some w \<Rightarrow> acc # split_ws [] (drop (length w) s)
      | None \<Rightarrow> (case s of [] \<Rightarrow> [acc] | c # r \<Rightarrow> split_ws (acc @ [c]) r))"
  by pat_completeness auto
termination
proof (relation "measure (\<lambda>(acc, s). length s)")
  fix acc s w
  assume "find (\<lambda>w. w \<noteq> [] \<and> prefix w s) white_space = Some w"
  then have "w \<noteq> []" "prefix w s" by (auto dest: find_Some_mem)
  then show "(([], drop (length w) s), (acc, s)) \<in> measure (\<lambda>(acc, s). length s)"
    by (auto simp: prefix_def)
qed auto

declare split_ws.simps [simp del]

definition split_whitespace :: "str \<Rightarrow> str list" where
  "split_whitespace s = filter (\<lambda>w. w \<noteq> []) (split_ws [] s)"

subsection \<open>Splitting and joining\<close>

text \<open>\<open>str::split\<close> with a single ASCII character: the empty string splits into one empty piece.\<close>

fun split_on :: "char \<Rightarrow> str \<Rightarrow> str list" where
  "split_on d [] = [[]]"
| "split_on d (c # s) =
     (if c = d then [] # split_on d s
      else case split_on d s of [] \<Rightarrow> [[c]] | w # ws \<Rightarrow> (c # w) # ws)"

text \<open>\<open>[&str]::join\<close> with a one-character separator.\<close>

fun join :: "char \<Rightarrow> str list \<Rightarrow> str" where
  "join d [] = []"
| "join d [w] = w"
| "join d (w # v # ws) = w @ d # join d (v # ws)"

lemma split_on_not_Nil [simp]: "split_on d s \<noteq> []"
  by (induction s) (auto split: list.splits)

lemma join_split_on [simp]: "join d (split_on d s) = s"
proof (induction s)
  case Nil
  then show ?case by simp
next
  case (Cons c s)
  obtain w ws where sp: "split_on d s = w # ws" by (cases "split_on d s") auto
  with Cons show ?case by (cases ws) auto
qed

lemma split_on_free: "w \<in> set (split_on d s) \<Longrightarrow> d \<notin> set w"
proof (induction s arbitrary: w)
  case Nil
  then show ?case by simp
next
  case (Cons c s)
  then show ?case by (cases "split_on d s") (auto split: if_splits)
qed

lemma split_on_append: "d \<notin> set w \<Longrightarrow> split_on d (w @ d # s) = w # split_on d s"
  by (induction w) auto

lemma split_on_single: "d \<notin> set w \<Longrightarrow> split_on d w = [w]"
  by (induction w) auto

lemma split_on_join:
  "ws \<noteq> [] \<Longrightarrow> \<forall>w \<in> set ws. d \<notin> set w \<Longrightarrow> split_on d (join d ws) = ws"
  by (induction d ws rule: join.induct) (auto simp: split_on_append split_on_single)

lemma join_Cons: "ws \<noteq> [] \<Longrightarrow> join d (w # ws) = w @ d # join d ws"
  by (cases ws) auto

lemma join_append: "ws \<noteq> [] \<Longrightarrow> vs \<noteq> [] \<Longrightarrow> join d (ws @ vs) = join d ws @ d # join d vs"
  by (induction d ws rule: join.induct) (auto simp: join_Cons)

text \<open>\<open>str::rsplit_once\<close>: the parts before and after the last occurrence of the delimiter.\<close>

definition rsplit_once :: "char \<Rightarrow> str \<Rightarrow> (str \<times> str) option" where
  "rsplit_once d s =
     (if d \<in> set s
      then Some (rev (tl (dropWhile (\<lambda>c. c \<noteq> d) (rev s))), rev (takeWhile (\<lambda>c. c \<noteq> d) (rev s)))
      else None)"

lemma rsplit_once_None [simp]: "(rsplit_once d s = None) = (d \<notin> set s)"
  by (simp add: rsplit_once_def)

lemma rsplit_once_Some: "rsplit_once d s = Some (p, q) \<Longrightarrow> s = p @ d # q \<and> d \<notin> set q"
proof -
  assume a: "rsplit_once d s = Some (p, q)"
  then have d: "d \<in> set (rev s)" by (auto simp: rsplit_once_def split: if_splits)
  let ?dw = "dropWhile (\<lambda>c. c \<noteq> d) (rev s)"
  have ne: "?dw \<noteq> []" using d by (auto simp: dropWhile_eq_Nil_conv)
  then have hd: "hd ?dw = d" using hd_dropWhile by blast
  have "rev s = takeWhile (\<lambda>c. c \<noteq> d) (rev s) @ d # tl ?dw"
    using ne hd by (metis list.collapse takeWhile_dropWhile_id)
  with a have "rev s = rev q @ d # rev p" by (auto simp: rsplit_once_def split: if_splits)
  then have "s = p @ d # q" by (metis append.assoc append_Cons append_Nil rev_append rev_rev_ident rev.simps(2))
  moreover have "d \<notin> set q"
    using a by (auto simp: rsplit_once_def split: if_splits dest: set_takeWhileD)
  ultimately show ?thesis ..
qed

text \<open>\<open>str::starts_with\<close> and \<open>str::strip_prefix\<close>.\<close>

definition starts_with :: "str \<Rightarrow> str \<Rightarrow> bool" where
  "starts_with s p = prefix p s"

definition strip_prefix :: "str \<Rightarrow> str \<Rightarrow> str option" where
  "strip_prefix s p = (if prefix p s then Some (drop (length p) s) else None)"

lemma strip_prefix_Some [simp]: "(strip_prefix s p = Some r) = (s = p @ r)"
  by (auto simp: strip_prefix_def prefix_def)

text \<open>\<open>char::is_ascii_alphanumeric\<close>.\<close>

definition is_ascii_alphanumeric :: "nat \<Rightarrow> bool" where
  "is_ascii_alphanumeric c = ((48 \<le> c \<and> c \<le> 57) \<or> (65 \<le> c \<and> c \<le> 90) \<or> (97 \<le> c \<and> c \<le> 122))"

subsection \<open>Decimal numbers and case\<close>

text \<open>\<open>format!("{n}")\<close> of an unsigned integer.\<close>

definition digit_char :: "nat \<Rightarrow> char" where
  "digit_char d = char_of (48 + d)"

fun show_nat :: "nat \<Rightarrow> str" where
  "show_nat n = (if n < 10 then [digit_char n] else show_nat (n div 10) @ [digit_char (n mod 10)])"

declare show_nat.simps [simp del]

definition read_nat :: "str \<Rightarrow> nat" where
  "read_nat s = foldl (\<lambda>acc c. acc * 10 + (byte_of c - 48)) 0 s"

lemma byte_of_digit_char [simp]: "d < 10 \<Longrightarrow> byte_of (digit_char d) = 48 + d"
  by (simp add: byte_of_def digit_char_def)

lemma read_show_nat [simp]: "read_nat (show_nat n) = n"
proof (induction n rule: show_nat.induct)
  case (1 n)
  show ?case
  proof (cases "n < 10")
    case True
    then show ?thesis by (subst show_nat.simps) (simp add: read_nat_def)
  next
    case False
    with "1" have "read_nat (show_nat (n div 10)) = n div 10" by simp
    with False show ?thesis by (subst show_nat.simps) (simp add: read_nat_def)
  qed
qed

lemma show_nat_inj [simp]: "(show_nat m = show_nat n) = (m = n)"
  by (metis read_show_nat)

text \<open>\<open>str::trim_end_matches\<close> with a character, and \<open>str::to_ascii_lowercase\<close>.\<close>

definition trim_end_char :: "char \<Rightarrow> str \<Rightarrow> str" where
  "trim_end_char d s = rev (dropWhile (\<lambda>c. c = d) (rev s))"

definition ascii_lower :: "char \<Rightarrow> char" where
  "ascii_lower c = (if 65 \<le> byte_of c \<and> byte_of c \<le> 90 then char_of (byte_of c + 32) else c)"

definition to_ascii_lowercase :: "str \<Rightarrow> str" where
  "to_ascii_lowercase s = map ascii_lower s"

lemma trim_end_char_idem [simp]: "trim_end_char d (trim_end_char d s) = trim_end_char d s"
  by (simp add: trim_end_char_def dropWhile_idem)

subsection \<open>Byte order\<close>

text \<open>
  \<open>str\<close> compares byte by byte with a proper prefix first, which is the lexicographic order that
  \<open>List_Lexorder\<close> puts on lists over the order of \<open>Char_ord\<close> on bytes; so \<open>s < t\<close> on strings is
  Rust's and SQLite's (BINARY collation) comparison.
\<close>

lemma str_less_Cons: "((a # s :: str) < b # t) = (byte_of a < byte_of b \<or> (a = b \<and> s < t))"
  by (simp add: less_char_def byte_of_def)

end
