(* ===== verification/Sql.thy ===== *)
theory Sql
  imports Rust_Str
begin

text \<open>
  The SQL statements of the store, on tables that are lists of rows in insertion (rowid) order.
  The locales state what a table's primary key promises to the code that queries it: an update
  that keeps the key is invisible to lookups of other rows and keeps keys unique.
\<close>

text \<open>\<open>UPDATE .. SET f WHERE P\<close>, \<open>DELETE .. WHERE P\<close>, the affected-row count, a point query.\<close>

definition sql_update :: "('r \<Rightarrow> bool) \<Rightarrow> ('r \<Rightarrow> 'r) \<Rightarrow> 'r list \<Rightarrow> 'r list" where
  "sql_update P f t = map (\<lambda>r. if P r then f r else r) t"

definition sql_delete :: "('r \<Rightarrow> bool) \<Rightarrow> 'r list \<Rightarrow> 'r list" where
  "sql_delete P t = filter (\<lambda>r. \<not> P r) t"

definition sql_count :: "('r \<Rightarrow> bool) \<Rightarrow> 'r list \<Rightarrow> nat" where
  "sql_count P t = length (filter P t)"

definition sql_row :: "('r \<Rightarrow> bool) \<Rightarrow> 'r list \<Rightarrow> 'r option" where
  "sql_row P t = find P t"

text \<open>\<open>INSERT OR IGNORE\<close> on the key, and the uniqueness a PRIMARY KEY or UNIQUE constraint keeps.\<close>

definition sql_insert_ignore :: "('r \<Rightarrow> 'k) \<Rightarrow> 'r \<Rightarrow> 'r list \<Rightarrow> 'r list" where
  "sql_insert_ignore key r t = (if key r \<in> set (map key t) then t else t @ [r])"

definition unique_key :: "('r \<Rightarrow> 'k) \<Rightarrow> 'r list \<Rightarrow> bool" where
  "unique_key key t = distinct (map key t)"

lemma sql_row_None [table_simps]: "(sql_row P t = None) = (\<forall>r \<in> set t. \<not> P r)"
  by (auto simp: sql_row_def find_None_all)

lemma sql_row_key_None: "(sql_row (\<lambda>r. key r = k) t = None) = (k \<notin> key ` set t)"
  by (force simp: sql_row_def find_None_all)

lemma sql_row_SomeD: "sql_row P t = Some r \<Longrightarrow> r \<in> set t \<and> P r"
  by (auto simp: sql_row_def dest: find_Some_mem)

lemma sql_count_0 [table_simps]: "(sql_count P t = 0) = (\<forall>r \<in> set t. \<not> P r)"
  by (auto simp: sql_count_def filter_empty_conv)

lemma set_sql_delete [table_simps]: "set (sql_delete P t) = {r \<in> set t. \<not> P r}"
  by (auto simp: sql_delete_def)

lemma length_sql_delete: "length (sql_delete P t) + sql_count P t = length t"
  using length_filter_partition [of P t] by (simp add: sql_delete_def sql_count_def)

lemma length_sql_update [simp]: "length (sql_update P f t) = length t"
  by (simp add: sql_update_def)

lemma sql_update_none: "sql_count P t = 0 \<Longrightarrow> sql_update P f t = t"
  by (auto simp: sql_update_def table_simps intro: map_idI)

lemma unique_key_Nil [simp]: "unique_key key []"
  by (simp add: unique_key_def)

lemma unique_key_snoc [table_simps]:
  "unique_key key (t @ [r]) = (unique_key key t \<and> key r \<notin> set (map key t))"
  by (auto simp: unique_key_def)

lemma unique_key_insert_ignore: "unique_key key t \<Longrightarrow> unique_key key (sql_insert_ignore key r t)"
  by (auto simp: sql_insert_ignore_def unique_key_snoc)

lemma unique_key_delete: "unique_key key t \<Longrightarrow> unique_key key (sql_delete P t)"
  by (auto simp: unique_key_def sql_delete_def distinct_map inj_on_def)

lemma sql_row_insert_ignore:
  "sql_row (\<lambda>x. key x = k) (sql_insert_ignore key r t) =
     (case sql_row (\<lambda>x. key x = k) t of
        Some x \<Rightarrow> Some x | None \<Rightarrow> if key r = k then Some r else None)"
  by (auto simp: sql_insert_ignore_def sql_row_def find_append find_None_all
      split: option.splits dest: find_Some_mem)

lemma sql_row_unique:
  "unique_key key t \<Longrightarrow> r \<in> set t \<Longrightarrow> sql_row (\<lambda>x. key x = key r) t = Some r"
proof (induction t)
  case (Cons x t)
  then show ?case by (auto simp: unique_key_def sql_row_def)
qed simp

lemma unique_key_inj: "unique_key key t \<Longrightarrow> r \<in> set t \<Longrightarrow> r' \<in> set t \<Longrightarrow> key r = key r' \<Longrightarrow> r = r'"
  by (auto simp: unique_key_def distinct_map inj_on_def)

lemma filter_unique: "unique_key key t \<Longrightarrow> r \<in> set t \<Longrightarrow> filter (\<lambda>x. key x = key r) t = [r]"
proof (induction t)
  case (Cons a t)
  then have nin: "key a \<notin> key ` set t" and u: "unique_key key t" by (auto simp: unique_key_def)
  show ?case
  proof (cases "a = r")
    case True
    with nin have "filter (\<lambda>x. key x = key r) t = []"
      by (metis (mono_tags, lifting) filter_False image_eqI)
    with True show ?thesis by simp
  next
    case False
    with Cons.prems nin have "r \<in> set t" "key a \<noteq> key r" by auto
    with Cons.IH [OF u] show ?thesis by simp
  qed
qed simp

lemma sql_row_delete [simp]: "sql_row (\<lambda>x. key x = k) (sql_delete (\<lambda>x. key x = k) t) = None"
  by (simp add: sql_row_None set_sql_delete)

lemma sql_row_snoc: "sql_row P (t @ [r]) = (case sql_row P t of Some x \<Rightarrow> Some x | None \<Rightarrow> if P r then Some r else None)"
  by (simp add: sql_row_def find_append split: option.split)

lemma sql_row_delete_other:
  "j \<noteq> k \<Longrightarrow> sql_row (\<lambda>x. key x = j) (sql_delete (\<lambda>x. key x = k) t) = sql_row (\<lambda>x. key x = j) t"
  by (induction t) (auto simp: sql_delete_def sql_row_def)

text \<open>With a unique key an equality predicate on it selects at most one row.\<close>

lemma sql_count_unique: "unique_key key t \<Longrightarrow> sql_count (\<lambda>x. key x = k \<and> P x) t \<le> 1"
proof (induction t)
  case Nil
  then show ?case by (simp add: sql_count_def)
next
  case (Cons x t)
  then have u: "unique_key key t" and nx: "key x \<notin> set (map key t)" by (auto simp: unique_key_def)
  show ?case
  proof (cases "key x = k")
    case True
    with nx have "\<forall>r \<in> set t. key r \<noteq> k" by (metis image_eqI set_map)
    then have "filter (\<lambda>x. key x = k \<and> P x) t = []" by (auto simp: filter_empty_conv)
    then show ?thesis by (simp add: sql_count_def)
  next
    case False
    with Cons.IH [OF u] show ?thesis by (simp add: sql_count_def)
  qed
qed

text \<open>
  The contract of an \<open>UPDATE\<close> that does not assign the key column. Every table of the store
  interprets it for its own statements.
\<close>

locale key_preserving =
  fixes key :: "'r \<Rightarrow> 'k" and upd :: "'r \<Rightarrow> 'r"
  assumes key_upd: "key (upd r) = key r"
begin

lemma keys_update [simp]: "map key (sql_update P upd t) = map key t"
  by (auto simp: sql_update_def key_upd)

lemma unique_update: "unique_key key t \<Longrightarrow> unique_key key (sql_update P upd t)"
  by (simp add: unique_key_def)

lemma row_update_other:
  assumes "\<And>r. r \<in> set t \<Longrightarrow> key r = k \<Longrightarrow> \<not> P r"
  shows "sql_row (\<lambda>x. key x = k) (sql_update P upd t) = sql_row (\<lambda>x. key x = k) t"
  using assms by (induction t) (auto simp: sql_update_def sql_row_def key_upd)

lemma row_update_key:
  "sql_row (\<lambda>x. key x = k) (sql_update (\<lambda>x. key x = k) upd t) =
     map_option upd (sql_row (\<lambda>x. key x = k) t)"
  by (induction t) (auto simp: sql_update_def sql_row_def key_upd)

lemma row_update_any:
  "sql_row (\<lambda>x. key x = k) (sql_update P upd t) =
     map_option (\<lambda>r. if P r then upd r else r) (sql_row (\<lambda>x. key x = k) t)"
  by (induction t) (auto simp: sql_update_def sql_row_def key_upd)

lemma update_preserves:
  assumes "\<forall>r \<in> set t. Q r" and "\<And>r. r \<in> set t \<Longrightarrow> P r \<Longrightarrow> Q r \<Longrightarrow> Q (upd r)"
  shows "\<forall>r \<in> set (sql_update P upd t). Q r"
  using assms by (auto simp: sql_update_def)

end

text \<open>
  \<open>INSERT .. ON CONFLICT(key) DO UPDATE\<close>, written as the update of the present row or an append:
  keys stay unique, and exactly the row of that key changes.
\<close>

lemma unique_upsert:
  assumes "unique_key key t" and "key r = k" and "\<And>x. key x = k \<Longrightarrow> key (f x) = k"
  shows "unique_key key (if sql_row (\<lambda>x. key x = k) t \<noteq> None then sql_update (\<lambda>x. key x = k) f t else t @ [r])"
proof -
  have "map key (sql_update (\<lambda>x. key x = k) f t) = map key t"
    using assms(3) by (auto simp: sql_update_def)
  with assms(1,2) show ?thesis by (auto simp: unique_key_def sql_row_None)
qed

lemma row_upsert:
  assumes "key r = k" and "\<And>x. key x = k \<Longrightarrow> key (f x) = k"
  shows "sql_row (\<lambda>x. key x = j)
      (if sql_row (\<lambda>x. key x = k) t \<noteq> None then sql_update (\<lambda>x. key x = k) f t else t @ [r])
    = (if j = k then Some (case sql_row (\<lambda>x. key x = k) t of Some x \<Rightarrow> f x | None \<Rightarrow> r)
       else sql_row (\<lambda>x. key x = j) t)"
proof (cases "sql_row (\<lambda>x. key x = k) t")
  case None
  with assms(1) show ?thesis by (auto simp: sql_row_snoc split: option.split)
next
  case (Some y)
  have "sql_row (\<lambda>x. key x = j) (sql_update (\<lambda>x. key x = k) f t)
      = (if j = k then map_option f (sql_row (\<lambda>x. key x = k) t) else sql_row (\<lambda>x. key x = j) t)" for t
    using assms(2) by (induction t) (auto simp: sql_update_def sql_row_def)
  with Some show ?thesis by simp
qed

end
