(* ===== verification/Models.thy ===== *)
theory Models
  imports Sql "HOL-Library.Multiset"
begin

text \<open>
  The data model (\<open>src/models.rs\<close>): tiers, memories, links, governance policies, pending actions,
  hierarchical namespaces and the per-peer vector clock. Rust structs are records whose fields
  carry a prefix, since record fields are global names in HOL.
\<close>

subsection \<open>Tiers and attestation levels\<close>

datatype Tier = Short | Mid | Long

fun tier_as_str :: "Tier \<Rightarrow> str" where
  "tier_as_str Short = ''short''"
| "tier_as_str Mid = ''mid''"
| "tier_as_str Long = ''long''"

definition tier_from_str :: "str \<Rightarrow> Tier option" where
  "tier_from_str s =
     (if s = ''short'' then Some Short
      else if s = ''mid'' then Some Mid
      else if s = ''long'' then Some Long
      else None)"

fun tier_rank :: "Tier \<Rightarrow> nat" where
  "tier_rank Short = 0"
| "tier_rank Mid = 1"
| "tier_rank Long = 2"

fun default_ttl_secs :: "Tier \<Rightarrow> int option" where
  "default_ttl_secs Short = Some (6 * 3600)"
| "default_ttl_secs Mid = Some (7 * 24 * 3600)"
| "default_ttl_secs Long = None"

datatype AttestLevel = Unsigned | SelfSigned | PeerAttested

fun attest_as_str :: "AttestLevel \<Rightarrow> str" where
  "attest_as_str Unsigned = ''unsigned''"
| "attest_as_str SelfSigned = ''self_signed''"
| "attest_as_str PeerAttested = ''peer_attested''"

definition attest_from_str :: "str \<Rightarrow> AttestLevel option" where
  "attest_from_str s =
     (if s = ''unsigned'' then Some Unsigned
      else if s = ''self_signed'' then Some SelfSigned
      else if s = ''peer_attested'' then Some PeerAttested
      else None)"

subsection \<open>Memories and links\<close>

record Memory =
  m_id :: str
  m_tier :: Tier
  m_namespace :: str
  m_title :: str
  m_content :: str
  m_tags :: "str list"
  m_priority :: int
  m_confidence :: f64
  m_source :: str
  m_access_count :: int
  m_created_at :: str
  m_updated_at :: str
  m_last_accessed_at :: "str option"
  m_expires_at :: "str option"
  m_metadata :: json

record MemoryLink =
  l_source_id :: str
  l_target_id :: str
  l_relation :: str
  l_created_at :: str
  l_signature :: "nat list option"
  l_observed_by :: "str option"
  l_valid_from :: "str option"
  l_valid_until :: "str option"

record CreateMemory =
  c_tier :: Tier
  c_namespace :: str
  c_title :: str
  c_content :: str
  c_tags :: "str list"
  c_priority :: int
  c_confidence :: f64
  c_source :: str
  c_expires_at :: "str option"
  c_ttl_secs :: "int option"
  c_metadata :: json
  c_agent_id :: "str option"
  c_scope :: "str option"
  c_on_conflict :: "str option"

record UpdateMemory =
  u_title :: "str option"
  u_content :: "str option"
  u_tier :: "Tier option"
  u_namespace :: "str option"
  u_tags :: "str list option"
  u_priority :: "int option"
  u_confidence :: "f64 option"
  u_expires_at :: "str option"
  u_metadata :: "json option"

subsection \<open>Governance\<close>

datatype GovernanceDecision = Allow | Deny str | Pending str

datatype GovernedAction = Store | Delete | Promote

fun action_as_str :: "GovernedAction \<Rightarrow> str" where
  "action_as_str Store = ''store''"
| "action_as_str Delete = ''delete''"
| "action_as_str Promote = ''promote''"

record Approval =
  ap_agent_id :: str
  ap_approved_at :: str

record PendingAction =
  pa_id :: str
  pa_action_type :: str
  pa_memory_id :: "str option"
  pa_namespace :: str
  pa_payload :: json
  pa_requested_by :: str
  pa_requested_at :: str
  pa_status :: str
  pa_decided_by :: "str option"
  pa_decided_at :: "str option"
  pa_approvals :: "Approval list"

record NamespaceMetaEntry =
  nm_namespace :: str
  nm_standard_id :: str
  nm_parent_namespace :: "str option"
  nm_updated_at :: str

datatype GovernanceLevel = LAny | LRegistered | LOwner | LApprove

datatype ApproverType = Human | Agent str | Consensus nat

record GovernancePolicy =
  gp_write :: GovernanceLevel
  gp_promote :: GovernanceLevel
  gp_delete :: GovernanceLevel
  gp_approver :: ApproverType
  gp_inherit :: bool

definition default_policy :: GovernancePolicy where
  "default_policy = \<lparr>gp_write = LAny, gp_promote = LAny, gp_delete = LOwner,
     gp_approver = Human, gp_inherit = True\<rparr>"

text \<open>
  \<open>GovernancePolicy::from_metadata\<close>: absent or null is no policy; otherwise the result of
  \<open>serde_json::from_value\<close>, the parameter \<open>from_value\<close>.
\<close>

definition policy_from_metadata ::
    "(json \<Rightarrow> 'e + GovernancePolicy) \<Rightarrow> json \<Rightarrow> ('e + GovernancePolicy) option" where
  "policy_from_metadata from_value metadata =
     (case json_get metadata ''governance'' of
        None \<Rightarrow> None
      | Some gov \<Rightarrow> if gov = JNull then None else Some (from_value gov))"

subsection \<open>Vector clock\<close>

record VectorClock =
  entries :: "str \<rightharpoonup> str"

definition clock_observe :: "VectorClock \<Rightarrow> str \<Rightarrow> str \<Rightarrow> VectorClock" where
  "clock_observe c peer_id ts =
     c\<lparr>entries := (entries c)(peer_id \<mapsto>
         (case entries c peer_id of
            Some existing \<Rightarrow> if existing < ts then ts else existing
          | None \<Rightarrow> ts))\<rparr>"

definition latest_from :: "VectorClock \<Rightarrow> str \<Rightarrow> str option" where
  "latest_from c peer_id = entries c peer_id"

subsection \<open>Hierarchical namespaces\<close>

definition MAX_CONTENT_SIZE :: nat where "MAX_CONTENT_SIZE = 65536"
definition MAX_NAMESPACE_DEPTH :: nat where "MAX_NAMESPACE_DEPTH = 8"

definition namespace_depth :: "str \<Rightarrow> nat" where
  "namespace_depth ns =
     (if ns = [] then 0 else length (filter (\<lambda>s. s \<noteq> []) (split_on CHR ''/'' ns)))"

definition namespace_parent :: "str \<Rightarrow> str option" where
  "namespace_parent ns = map_option fst (rsplit_once CHR ''/'' ns)"

lemma namespace_parent_shorter: "namespace_parent ns = Some p \<Longrightarrow> length p < length ns"
  by (auto simp: namespace_parent_def dest!: rsplit_once_Some)

text \<open>The loop of \<open>namespace_ancestors\<close>: push the current path, move to a non-empty parent.\<close>

function ancestors_loop :: "str \<Rightarrow> str list" where
  "ancestors_loop current =
     current # (case namespace_parent current of
                  Some p \<Rightarrow> if p \<noteq> [] then ancestors_loop p else []
                | None \<Rightarrow> [])"
  by pat_completeness auto
termination
  by (relation "measure length") (auto dest: namespace_parent_shorter)

declare ancestors_loop.simps [simp del]

definition namespace_ancestors :: "str \<Rightarrow> str list" where
  "namespace_ancestors ns = (if ns = [] then [] else ancestors_loop ns)"

definition PROMOTION_THRESHOLD :: int where "PROMOTION_THRESHOLD = 5"
definition SHORT_TTL_EXTEND_SECS :: int where "SHORT_TTL_EXTEND_SECS = 3600"
definition MID_TTL_EXTEND_SECS :: int where "MID_TTL_EXTEND_SECS = 86400"

definition VALID_SCOPES :: "str list" where
  "VALID_SCOPES = [''private'', ''team'', ''unit'', ''org'', ''collective'']"

definition VALID_AGENT_TYPES :: "str list" where
  "VALID_AGENT_TYPES = [''ai:claude-opus-4.6'', ''ai:claude-opus-4.7'', ''ai:codex-5.4'',
     ''ai:grok-4.2'', ''human'', ''system'']"

section \<open>Correctness of the data model\<close>

lemma tier_roundtrip [simp]: "tier_from_str (tier_as_str t) = Some t"
  by (cases t) (simp_all add: tier_from_str_def)

lemma tier_from_str_Some: "tier_from_str s = Some t \<Longrightarrow> s = tier_as_str t"
  by (auto simp: tier_from_str_def split: if_splits)

lemma tier_as_str_inj [simp]: "(tier_as_str a = tier_as_str b) = (a = b)"
  by (cases a; cases b) auto

lemma attest_roundtrip [simp]: "attest_from_str (attest_as_str a) = Some a"
  by (cases a) (simp_all add: attest_from_str_def)

lemma attest_from_str_Some: "attest_from_str s = Some a \<Longrightarrow> s = attest_as_str a"
  by (auto simp: attest_from_str_def split: if_splits)

subsection \<open>Namespace paths as segment lists\<close>

text \<open>
  A canonical namespace is a non-empty sequence of non-empty, slash-free segments; on those the
  string operations are list operations on segments.
\<close>

definition seg_ok :: "str \<Rightarrow> bool" where
  "seg_ok w = (w \<noteq> [] \<and> CHR ''/'' \<notin> set w)"

definition canonical :: "str list \<Rightarrow> bool" where
  "canonical ws = (ws \<noteq> [] \<and> list_all seg_ok ws)"

lemma join_nonempty: "canonical ws \<Longrightarrow> join d ws \<noteq> []"
  by (cases ws rule: list.exhaust) (auto simp: canonical_def seg_ok_def neq_Nil_conv join_Cons
      split: list.splits intro: list.exhaust [of "tl ws"] elim!: join.elims)

lemma canonical_split: "canonical ws \<Longrightarrow> split_on CHR ''/'' (join CHR ''/'' ws) = ws"
  by (rule split_on_join) (auto simp: canonical_def seg_ok_def list_all_iff)

lemma canonical_depth: "canonical ws \<Longrightarrow> namespace_depth (join CHR ''/'' ws) = length ws"
  by (auto simp: namespace_depth_def canonical_split join_nonempty canonical_def seg_ok_def
      list_all_iff filter_id_conv)

lemma rsplit_once_unique: "d \<notin> set q \<Longrightarrow> rsplit_once d (p @ d # q) = Some (p, q)"
proof -
  assume "d \<notin> set q"
  then have tw: "takeWhile (\<lambda>c. c \<noteq> d) (rev q @ d # rev p) = rev q"
    and dw: "dropWhile (\<lambda>c. c \<noteq> d) (rev q @ d # rev p) = d # rev p"
    by (auto simp: takeWhile_append dropWhile_append)
  show ?thesis by (simp add: rsplit_once_def tw dw)
qed

lemma canonical_parent_snoc:
  assumes "canonical ws" and "seg_ok w"
  shows "namespace_parent (join CHR ''/'' (ws @ [w])) = Some (join CHR ''/'' ws)"
  using assms by (simp add: namespace_parent_def join_append canonical_def seg_ok_def rsplit_once_unique)

lemma canonical_parent_single: "seg_ok w \<Longrightarrow> namespace_parent (join CHR ''/'' [w]) = None"
  by (simp add: namespace_parent_def seg_ok_def)

lemma ancestors_canonical:
  "canonical ws \<Longrightarrow>
   ancestors_loop (join CHR ''/'' ws) =
     map (\<lambda>n. join CHR ''/'' (take n ws)) (rev [1..<Suc (length ws)])"
proof (induction ws rule: rev_induct)
  case Nil
  then show ?case by (simp add: canonical_def)
next
  case (snoc w ws)
  show ?case
  proof (cases "ws = []")
    case True
    with snoc.prems show ?thesis
      by (subst ancestors_loop.simps)
        (simp add: canonical_parent_single [simplified] canonical_def)
  next
    case False
    with snoc.prems have c: "canonical ws" and w: "seg_ok w" by (auto simp: canonical_def)
    have par: "namespace_parent (join CHR ''/'' (ws @ [w])) = Some (join CHR ''/'' ws)"
      using c w by (rule canonical_parent_snoc)
    have "ancestors_loop (join CHR ''/'' (ws @ [w])) =
        join CHR ''/'' (ws @ [w]) # ancestors_loop (join CHR ''/'' ws)"
      using par join_nonempty [OF c] by (subst ancestors_loop.simps) simp
    moreover have "map (\<lambda>n. join CHR ''/'' (take n (ws @ [w]))) (rev [1..<Suc (length ws)]) =
        map (\<lambda>n. join CHR ''/'' (take n ws)) (rev [1..<Suc (length ws)])"
      by (rule map_cong) auto
    ultimately show ?thesis using snoc.IH [OF c] False by simp
  qed
qed

lemma namespace_ancestors_canonical:
  "canonical ws \<Longrightarrow>
   namespace_ancestors (join CHR ''/'' ws) =
     map (\<lambda>n. join CHR ''/'' (take n ws)) (rev [1..<Suc (length ws)])"
  by (simp add: namespace_ancestors_def join_nonempty ancestors_canonical)

subsection \<open>The vector clock is a join semilattice\<close>

lemma clock_observe_other [simp]: "p \<noteq> q \<Longrightarrow> latest_from (clock_observe c p ts) q = latest_from c q"
  by (simp add: clock_observe_def latest_from_def)

lemma clock_observe_self:
  "latest_from (clock_observe c p ts) p =
     Some (case latest_from c p of None \<Rightarrow> ts | Some e \<Rightarrow> max e ts)"
  by (auto simp: clock_observe_def latest_from_def max_def split: option.splits)

definition observe_all :: "VectorClock \<Rightarrow> (str \<times> str) list \<Rightarrow> VectorClock" where
  "observe_all c evs = fold (\<lambda>(p, ts) c. clock_observe c p ts) evs c"

lemma clock_ext: "(\<And>q. latest_from c q = latest_from d q) \<Longrightarrow> c = (d :: VectorClock)"
  by (cases c; cases d) (auto simp: latest_from_def)

lemma clock_observe_commute:
  "clock_observe (clock_observe c p a) q b = clock_observe (clock_observe c q b) p a"
proof (rule clock_ext)
  fix r
  show "latest_from (clock_observe (clock_observe c p a) q b) r =
      latest_from (clock_observe (clock_observe c q b) p a) r"
    by (cases "p = q"; cases "r = p"; cases "r = q")
      (auto simp: clock_observe_self max.commute max.left_commute max.assoc split: option.splits)
qed

lemma observe_all_perm: "mset evs = mset evs' \<Longrightarrow> observe_all c evs = observe_all c evs'"
  unfolding observe_all_def
  by (rule fun_cong [OF fold_multiset_equiv]) (auto simp: fun_eq_iff clock_observe_commute)

lemma clock_observe_idem [simp]:
  "clock_observe (clock_observe c p a) p a = clock_observe c p a"
  by (rule clock_ext) (auto simp: clock_observe_self clock_observe_def latest_from_def split: option.splits)

text \<open>The stamp a clock ends with is the largest one it was told of.\<close>

definition told :: "VectorClock \<Rightarrow> (str \<times> str) list \<Rightarrow> str \<Rightarrow> str set" where
  "told c evs p = {ts. (p, ts) \<in> set evs} \<union> set_option (latest_from c p)"

lemma finite_told [simp]: "finite (told c evs p)"
proof -
  have "{ts. (p, ts) \<in> set evs} \<subseteq> snd ` set evs" by force
  then have "finite {ts. (p, ts) \<in> set evs}" by (rule finite_subset) simp
  then show ?thesis by (simp add: told_def)
qed

lemma told_Cons: "told c ((q, ts) # evs) p = told (clock_observe c q ts) evs p \<union> told c [(q, ts)] p"
  by (cases "p = q") (auto simp: told_def clock_observe_self clock_observe_def latest_from_def
      split: option.splits if_splits)

lemma latest_observe_all:
  "latest_from (observe_all c evs) p = (if told c evs p = {} then None else Some (Max (told c evs p)))"
proof (induction evs arbitrary: c)
  case Nil
  then show ?case by (cases "latest_from c p") (auto simp: observe_all_def told_def)
next
  case (Cons ev evs)
  obtain q ts where ev: "ev = (q, ts)" by (cases ev)
  have step: "observe_all c (ev # evs) = observe_all (clock_observe c q ts) evs"
    by (simp add: observe_all_def ev)
  let ?A = "told (clock_observe c q ts) evs p"
  show ?case
  proof (cases "p = q")
    case False
    then have "told c (ev # evs) p = ?A" by (auto simp: told_def ev)
    then show ?thesis using Cons.IH [of "clock_observe c q ts"] by (simp add: step)
  next
    case True
    let ?E = "{t. (p, t) \<in> set evs}"
    have A: "?A = insert (case latest_from c p of None \<Rightarrow> ts | Some e \<Rightarrow> max e ts) ?E"
      using True by (auto simp: told_def clock_observe_self)
    have T: "told c (ev # evs) p = insert ts (set_option (latest_from c p) \<union> ?E)"
      using True by (auto simp: told_def ev)
    have fin: "finite ?E" by (rule finite_subset [of _ "snd ` set evs"]) force+
    have "Max ?A = Max (told c (ev # evs) p)"
    proof (cases "latest_from c p")
      case None
      then show ?thesis by (simp add: A T)
    next
      case (Some e)
      then show ?thesis
        by (cases "?E = {}") (auto simp: A T fin max.commute max.left_commute max.assoc)
    qed
    then show ?thesis using Cons.IH [of "clock_observe c q ts"] A T by (simp add: step)
  qed
qed

section \<open>Properties\<close>

text \<open>Two nodes that observe the same timestamps from the same peers end with the same vector
  clock, whatever the order and however often each observation is repeated, and each entry is the
  largest timestamp seen.\<close>

theorem vector_clock_convergent:
  assumes "set evs = set evs'"
  shows "observe_all c evs = observe_all c evs'
    \<and> ((p, ts) \<in> set evs \<longrightarrow> (\<exists>m. latest_from (observe_all c evs) p = Some m \<and> ts \<le> m))"
proof
  have "told c evs q = told c evs' q" for q using assms by (simp add: told_def)
  then show "observe_all c evs = observe_all c evs'" by (intro clock_ext) (simp add: latest_observe_all)
  show "(p, ts) \<in> set evs \<longrightarrow> (\<exists>m. latest_from (observe_all c evs) p = Some m \<and> ts \<le> m)"
  proof
    assume "(p, ts) \<in> set evs"
    then have "ts \<in> told c evs p" by (simp add: told_def)
    then show "\<exists>m. latest_from (observe_all c evs) p = Some m \<and> ts \<le> m"
      by (auto simp: latest_observe_all)
  qed
qed

theorem vector_clock_convergent_witness:
  "observe_all \<lparr>entries = Map.empty\<rparr> [(''p'', ''2''), (''q'', ''1''), (''p'', ''1'')]
     = observe_all \<lparr>entries = Map.empty\<rparr> [(''p'', ''1''), (''p'', ''2''), (''q'', ''1''), (''p'', ''1'')]"
proof -
  have "set [(''p'', ''2''), (''q'', ''1''), (''p'', ''1'')]
      = set [(''p'', ''1''), (''p'', ''2''), (''q'', ''1''), (''p'', ''1'')]" by auto
  then show ?thesis using vector_clock_convergent by blast
qed

text \<open>On a namespace path of non-empty segments, \<open>namespace_ancestors\<close> lists the path and all its
  proper prefixes from the most specific to the root, and each next entry is the
  \<open>namespace_parent\<close> of the one before; there are \<open>namespace_depth\<close> of them.\<close>

theorem namespace_ancestors_exact:
  assumes "canonical ws" and "ns = join CHR ''/'' ws"
  shows "namespace_ancestors ns = map (\<lambda>n. join CHR ''/'' (take n ws)) (rev [1..<Suc (length ws)])
    \<and> length (namespace_ancestors ns) = namespace_depth ns
    \<and> (\<forall>i. Suc i < length (namespace_ancestors ns) \<longrightarrow>
         namespace_parent (namespace_ancestors ns ! i) = Some (namespace_ancestors ns ! Suc i))"
proof -
  have eq: "namespace_ancestors ns = map (\<lambda>n. join CHR ''/'' (take n ws)) (rev [1..<Suc (length ws)])"
    unfolding assms(2) using assms(1) by (rule namespace_ancestors_canonical)
  have "namespace_parent (namespace_ancestors ns ! i) = Some (namespace_ancestors ns ! Suc i)"
    if i: "Suc i < length (namespace_ancestors ns)" for i
  proof -
    let ?k = "length ws - Suc i"
    have k: "0 < ?k" "?k < length ws" using i by (auto simp: eq simp del: upt_Suc)
    have a: "namespace_ancestors ns ! i = join CHR ''/'' (take (Suc ?k) ws)"
      "namespace_ancestors ns ! Suc i = join CHR ''/'' (take ?k ws)"
      using i by (simp_all add: eq rev_nth Suc_diff_Suc del: upt_Suc)
    have t: "take (Suc ?k) ws = take ?k ws @ [ws ! ?k]" using k(2) by (rule take_Suc_conv_app_nth)
    have "canonical (take ?k ws)" "seg_ok (ws ! ?k)"
      using assms(1) k by (auto simp: canonical_def list_all_iff dest: in_set_takeD)
    then show ?thesis unfolding a t by (rule canonical_parent_snoc)
  qed
  moreover have "length (namespace_ancestors ns) = namespace_depth ns"
    using canonical_depth [OF assms(1)] eq assms(2) by (simp del: upt_Suc)
  ultimately show ?thesis using eq by blast
qed

theorem namespace_ancestors_exact_witness:
  "namespace_ancestors ''a/b/c'' = [''a/b/c'', ''a/b'', ''a'']"
proof -
  have "canonical [''a'', ''b'', ''c'']" and "''a/b/c'' = join CHR ''/'' [''a'', ''b'', ''c'']" by code_simp+
  then have "namespace_ancestors ''a/b/c''
      = map (\<lambda>n. join CHR ''/'' (take n [''a'', ''b'', ''c''])) (rev [1..<Suc (length [''a'', ''b'', ''c''])])"
    using namespace_ancestors_exact by blast
  also have "\<dots> = [''a/b/c'', ''a/b'', ''a'']" by (simp add: upt_rec)
  finally show ?thesis .
qed

end
