(* ===== verification/Visibility.thy ===== *)
theory Visibility
  imports Models
begin

text \<open>
  Scope-based visibility (\<open>src/db.rs\<close>): the prefixes of an agent's position, the Rust-side check
  \<open>is_visible\<close> and the SQL fragment \<open>visibility_clause\<close>, with SQLite's \<open>LIKE .. ESCAPE '\'\<close> and
  \<open>json_extract\<close>. The two checks are compared in the properties at the end.
\<close>

subsection \<open>SQLite's JSON functions on the metadata column\<close>

text \<open>\<open>json_extract(m, '$.k')\<close>: NULL for an absent key or JSON null; booleans become integers.\<close>

definition sql_json_extract :: "json \<Rightarrow> str \<Rightarrow> json option" where
  "sql_json_extract m k =
     (case json_get m k of
        None \<Rightarrow> None
      | Some JNull \<Rightarrow> None
      | Some (JBool b) \<Rightarrow> Some (JInt (if b then 1 else 0))
      | Some v \<Rightarrow> Some v)"

text \<open>\<open>json_set(m, '$.k', v)\<close> changes objects only.\<close>

definition sql_json_set :: "json \<Rightarrow> str \<Rightarrow> json \<Rightarrow> json" where
  "sql_json_set m k v = (case m of JObj kvs \<Rightarrow> JObj (obj_insert k v kvs) | _ \<Rightarrow> m)"

text \<open>
  The generated TEXT columns: a string is itself, any other value is the text SQLite renders for it
  (the parameter \<open>render\<close>).
\<close>

fun sql_text :: "(json \<Rightarrow> str) \<Rightarrow> json \<Rightarrow> str" where
  "sql_text render (JStr s) = s"
| "sql_text render v = render v"

definition scope_idx :: "(json \<Rightarrow> str) \<Rightarrow> json \<Rightarrow> str" where
  "scope_idx render metadata =
     (case sql_json_extract metadata ''scope'' of None \<Rightarrow> ''private'' | Some v \<Rightarrow> sql_text render v)"

definition agent_id_idx :: "(json \<Rightarrow> str) \<Rightarrow> json \<Rightarrow> str option" where
  "agent_id_idx render metadata = map_option (sql_text render) (sql_json_extract metadata ''agent_id'')"

subsection \<open>LIKE with the escape character \<open>\\<close>\<close>

datatype like_tok = Lit char | AnyOne | AnySeq

text \<open>A pattern as tokens; an escape character at the end of the pattern matches nothing.\<close>

fun like_tokens :: "str \<Rightarrow> like_tok list option" where
  "like_tokens [] = Some []"
| "like_tokens (c # p) =
     (if c = CHR 0x5C
      then (case p of [] \<Rightarrow> None | d # q \<Rightarrow> map_option ((#) (Lit d)) (like_tokens q))
      else map_option
        ((#) (if c = CHR ''%'' then AnySeq else if c = CHR ''_'' then AnyOne else Lit c)) (like_tokens p))"

text \<open>One UTF-8 character: the first byte and its continuation bytes.\<close>

definition skip_char :: "str \<Rightarrow> str" where
  "skip_char s =
     (case s of [] \<Rightarrow> []
      | c # r \<Rightarrow> if byte_of c < 0xC0 then r
                 else dropWhile (\<lambda>d. 0x80 \<le> byte_of d \<and> byte_of d < 0xC0) r)"

lemma skip_char_shorter: "s \<noteq> [] \<Longrightarrow> length (skip_char s) < length s"
  by (auto simp: skip_char_def neq_Nil_conv less_Suc_eq_le length_dropWhile_le)

text \<open>Matching, with ASCII case folding: SQLite's default for LIKE.\<close>

function like_toks :: "like_tok list \<Rightarrow> str \<Rightarrow> bool" where
  "like_toks [] s = (s = [])"
| "like_toks (Lit c # ps) s =
     (case s of [] \<Rightarrow> False | d # r \<Rightarrow> ascii_lower c = ascii_lower d \<and> like_toks ps r)"
| "like_toks (AnyOne # ps) s = (if s = [] then False else like_toks ps (skip_char s))"
| "like_toks (AnySeq # ps) s = (like_toks ps s \<or> (if s = [] then False else like_toks (AnySeq # ps) (skip_char s)))"
  by pat_completeness auto
termination
  by (relation "measures [\<lambda>(ps, s). length s, \<lambda>(ps, s). length ps]") (auto simp: skip_char_shorter)

definition sql_like :: "str \<Rightarrow> str \<Rightarrow> bool" where
  "sql_like s pat = (case like_tokens pat of None \<Rightarrow> False | Some ps \<Rightarrow> like_toks ps s)"

text \<open>\<open>replace(replace(p, '%', '\%'), '_', '\_')\<close>.\<close>

fun like_escape :: "str \<Rightarrow> str" where
  "like_escape [] = []"
| "like_escape (c # s) = (if c = CHR ''%'' \<or> c = CHR ''_'' then [CHR 0x5C, c] else [c]) @ like_escape s"

subsection \<open>Visibility\<close>

type_synonym VisibilityPrefixes = "str option \<times> str option \<times> str option \<times> str option"

definition nth_opt :: "'a list \<Rightarrow> nat \<Rightarrow> 'a option" where
  "nth_opt xs i = (if i < length xs then Some (xs ! i) else None)"

definition compute_visibility_prefixes :: "str option \<Rightarrow> VisibilityPrefixes" where
  "compute_visibility_prefixes as_agent =
     (case as_agent of
        None \<Rightarrow> (None, None, None, None)
      | Some ns \<Rightarrow>
          let ancestors = namespace_ancestors ns
          in (nth_opt ancestors 0, nth_opt ancestors 1, nth_opt ancestors 2, nth_opt ancestors 3))"

definition matches_subtree :: "str \<Rightarrow> str option \<Rightarrow> bool" where
  "matches_subtree namespace pre =
     (case pre of
        None \<Rightarrow> False
      | Some p \<Rightarrow> namespace = p \<or> starts_with namespace (p @ ''/''))"

definition mem_scope :: "json \<Rightarrow> str" where
  "mem_scope metadata =
     (case json_get metadata ''scope'' of
        Some v \<Rightarrow> (case json_str v of Some s \<Rightarrow> s | None \<Rightarrow> ''private'')
      | None \<Rightarrow> ''private'')"

definition is_visible :: "'a Memory_scheme \<Rightarrow> VisibilityPrefixes \<Rightarrow> bool" where
  "is_visible mem vp =
     (case vp of (p, t, u, o') \<Rightarrow>
        if p = None then True
        else let scope = mem_scope (m_metadata mem) in
          if scope = ''collective'' then True
          else if scope = ''private'' then p = Some (m_namespace mem)
          else if scope = ''team'' then matches_subtree (m_namespace mem) t
          else if scope = ''unit'' then matches_subtree (m_namespace mem) u
          else if scope = ''org'' then matches_subtree (m_namespace mem) o'
          else False)"

definition sql_subtree :: "str \<Rightarrow> str option \<Rightarrow> bool" where
  "sql_subtree namespace pre =
     (case pre of
        None \<Rightarrow> False
      | Some p \<Rightarrow> namespace = p \<or> sql_like namespace (like_escape p @ ''/%''))"

definition visibility_clause :: "(json \<Rightarrow> str) \<Rightarrow> VisibilityPrefixes \<Rightarrow> 'a Memory_scheme \<Rightarrow> bool" where
  "visibility_clause render vp m =
     (case vp of (p, t, u, o') \<Rightarrow>
        p = None
        \<or> scope_idx render (m_metadata m) = ''collective''
        \<or> (scope_idx render (m_metadata m) = ''private'' \<and> p = Some (m_namespace m))
        \<or> (scope_idx render (m_metadata m) = ''team'' \<and> sql_subtree (m_namespace m) t)
        \<or> (scope_idx render (m_metadata m) = ''unit'' \<and> sql_subtree (m_namespace m) u)
        \<or> (scope_idx render (m_metadata m) = ''org'' \<and> sql_subtree (m_namespace m) o'))"

section \<open>Correctness\<close>

subsection \<open>LIKE on an escaped prefix\<close>

lemma like_AnySeq_all: "like_toks [AnySeq] s"
proof (induction "length s" arbitrary: s rule: less_induct)
  case less
  then show ?case by (cases "s = []") (auto simp: skip_char_shorter)
qed

lemma like_tokens_escape:
  "CHR 0x5C \<notin> set p \<Longrightarrow>
     like_tokens (like_escape p @ q) = map_option (\<lambda>ts. map Lit p @ ts) (like_tokens q)"
  by (induction p) (cases "like_tokens q"; auto)+

lemma like_toks_Lits:
  "like_toks (map Lit p @ ps) s \<longleftrightarrow>
     length p \<le> length s \<and> to_ascii_lowercase (take (length p) s) = to_ascii_lowercase p
     \<and> like_toks ps (drop (length p) s)"
  by (induction p arbitrary: s) (auto simp: to_ascii_lowercase_def split: list.split)

lemma sql_like_prefix:
  assumes "CHR 0x5C \<notin> set p"
  shows "sql_like s (like_escape p @ ''/%'') \<longleftrightarrow>
    prefix (to_ascii_lowercase (p @ ''/'')) (to_ascii_lowercase s)"
proof -
  have t: "like_tokens (like_escape p @ ''/%'') = Some (map Lit (p @ ''/'') @ [AnySeq])"
    using like_tokens_escape [OF assms, of "''/%''"] by simp
  have "sql_like s (like_escape p @ ''/%'') \<longleftrightarrow>
      length (p @ ''/'') \<le> length s
      \<and> to_ascii_lowercase (take (length (p @ ''/'')) s) = to_ascii_lowercase (p @ ''/'')"
    unfolding sql_like_def t option.case like_toks_Lits using like_AnySeq_all by blast
  also have "\<dots> \<longleftrightarrow> prefix (to_ascii_lowercase (p @ ''/'')) (to_ascii_lowercase s)"
    unfolding to_ascii_lowercase_def take_map [symmetric]
    by (metis length_map take_is_prefix append_eq_conv_conj prefix_def prefix_length_le)
  finally show ?thesis .
qed

subsection \<open>Subtrees of namespace paths\<close>

lemma join_prefix:
  assumes "canonical ps" and "canonical vs"
  shows "(join CHR ''/'' vs = join CHR ''/'' ps \<or> prefix (join CHR ''/'' ps @ ''/'') (join CHR ''/'' vs))
    \<longleftrightarrow> prefix ps vs"
proof
  assume "join CHR ''/'' vs = join CHR ''/'' ps \<or> prefix (join CHR ''/'' ps @ ''/'') (join CHR ''/'' vs)"
  then show "prefix ps vs"
  proof
    assume "join CHR ''/'' vs = join CHR ''/'' ps"
    then have "vs = ps" using canonical_split [OF assms(1)] canonical_split [OF assms(2)] by metis
    then show ?thesis by simp
  next
    assume "prefix (join CHR ''/'' ps @ ''/'') (join CHR ''/'' vs)"
    then obtain r where r: "join CHR ''/'' vs = join CHR ''/'' ps @ CHR ''/'' # r"
      by (auto simp: prefix_def)
    let ?rs = "split_on CHR ''/'' r"
    have "join CHR ''/'' vs = join CHR ''/'' (ps @ ?rs)"
      using assms(1) r by (simp add: join_append canonical_def)
    moreover have "\<forall>w \<in> set (ps @ ?rs). CHR ''/'' \<notin> set w"
      using assms(1) split_on_free by (auto simp: canonical_def seg_ok_def list_all_iff)
    ultimately have "vs = ps @ ?rs"
      using canonical_split [OF assms(2)] split_on_join [of "ps @ ?rs"] by simp
    then show ?thesis by simp
  qed
next
  assume "prefix ps vs"
  then obtain rs where vs: "vs = ps @ rs" by (auto simp: prefix_def)
  then show "join CHR ''/'' vs = join CHR ''/'' ps \<or> prefix (join CHR ''/'' ps @ ''/'') (join CHR ''/'' vs)"
    using assms(1) by (cases "rs = []") (auto simp: join_append canonical_def)
qed

lemma matches_subtree_canonical:
  "canonical ps \<Longrightarrow> canonical vs \<Longrightarrow>
   matches_subtree (join CHR ''/'' vs) (Some (join CHR ''/'' ps)) = prefix ps vs"
  using join_prefix [of ps vs] by (simp add: matches_subtree_def starts_with_def)

lemma ancestor_nth:
  assumes "canonical ws"
  shows "nth_opt (namespace_ancestors (join CHR ''/'' ws)) i =
    (if i < length ws then Some (join CHR ''/'' (take (length ws - i) ws)) else None)"
  using assms by (auto simp: nth_opt_def namespace_ancestors_canonical rev_nth Suc_diff_Suc simp del: upt_Suc)

lemma subtree_of_ancestor:
  assumes "canonical ws" and "canonical vs"
  shows "matches_subtree (join CHR ''/'' vs) (nth_opt (namespace_ancestors (join CHR ''/'' ws)) i)
    \<longleftrightarrow> i < length ws \<and> prefix (take (length ws - i) ws) vs"
proof (cases "i < length ws")
  case True
  then have "canonical (take (length ws - i) ws)"
    using assms(1) by (auto simp: canonical_def list_all_iff dest: in_set_takeD)
  with assms True show ?thesis by (simp add: ancestor_nth matches_subtree_canonical)
qed (simp add: ancestor_nth [OF assms(1)] matches_subtree_def)

text \<open>A string scope reads the same in Rust and in SQL.\<close>

lemma scope_idx_string:
  "json_get m ''scope'' = None \<or> (\<exists>s. json_get m ''scope'' = Some (JStr s)) \<Longrightarrow>
     scope_idx render m = mem_scope m"
  by (auto simp: scope_idx_def mem_scope_def sql_json_extract_def json_str_def)

lemma sql_subtree_fold:
  assumes "\<forall>q. pre = Some q \<longrightarrow> CHR 0x5C \<notin> set q"
  shows "sql_subtree s pre \<longleftrightarrow>
    (\<exists>q. pre = Some q \<and> (s = q \<or> prefix (to_ascii_lowercase (q @ ''/'')) (to_ascii_lowercase s)))"
  using assms by (cases pre) (auto simp: sql_subtree_def sql_like_prefix)

lemma sql_subtree_weaker:
  assumes "\<forall>q. pre = Some q \<longrightarrow> CHR 0x5C \<notin> set q" and "matches_subtree s pre"
  shows "sql_subtree s pre"
  using assms
  by (cases pre) (auto simp: matches_subtree_def sql_subtree_fold starts_with_def prefix_def
      to_ascii_lowercase_def)

lemma sql_subtree_lower:
  assumes "\<forall>q. pre = Some q \<longrightarrow> CHR 0x5C \<notin> set q \<and> to_ascii_lowercase q = q"
    and "to_ascii_lowercase s = s"
  shows "sql_subtree s pre = matches_subtree s pre"
proof (cases pre)
  case None
  then show ?thesis by (simp add: sql_subtree_def matches_subtree_def)
next
  case (Some q)
  have sl: "to_ascii_lowercase (q @ ''/'') = q @ ''/''"
    using assms(1) Some by (auto simp: to_ascii_lowercase_def ascii_lower_def byte_of_def)
  have "\<forall>q. pre = Some q \<longrightarrow> CHR 0x5C \<notin> set q" using assms(1) by simp
  note sql_subtree_fold [OF this, of s]
  then show ?thesis using assms Some sl by (auto simp: matches_subtree_def starts_with_def)
qed

section \<open>Properties\<close>

text \<open>What an agent sees, on namespace paths: a collective memory always, a private one in its own
  namespace, and a team, unit or org memory exactly when it lies in the subtree of the agent's
  parent, grandparent or great-grandparent namespace. Segments are compared whole, so a sibling
  whose name merely extends an ancestor's name is never visible.\<close>

theorem is_visible_exact:
  assumes "canonical ws" and "canonical vs" and "m_namespace mem = join CHR ''/'' vs"
    and "scope = mem_scope (m_metadata mem)"
  shows "is_visible mem (compute_visibility_prefixes (Some (join CHR ''/'' ws))) \<longleftrightarrow>
      scope = ''collective''
      \<or> scope = ''private'' \<and> vs = ws
      \<or> scope = ''team'' \<and> 1 < length ws \<and> prefix (take (length ws - 1) ws) vs
      \<or> scope = ''unit'' \<and> 2 < length ws \<and> prefix (take (length ws - 2) ws) vs
      \<or> scope = ''org'' \<and> 3 < length ws \<and> prefix (take (length ws - 3) ws) vs"
proof -
  let ?p = "\<lambda>i. nth_opt (namespace_ancestors (join CHR ''/'' ws)) i"
  have ne: "0 < length ws" using assms(1) by (simp add: canonical_def)
  have p0: "?p 0 = Some (join CHR ''/'' ws)" using ne by (simp add: ancestor_nth [OF assms(1)])
  have eq: "(?p 0 = Some (m_namespace mem)) = (vs = ws)"
    using canonical_split [OF assms(1)] canonical_split [OF assms(2)] assms(3) by (metis p0 option.inject)
  have sub: "matches_subtree (m_namespace mem) (?p i) = (i < length ws \<and> prefix (take (length ws - i) ws) vs)"
    for i unfolding assms(3) by (rule subtree_of_ancestor [OF assms(1,2)])
  show ?thesis
    unfolding is_visible_def compute_visibility_prefixes_def assms(4)
    using eq by (simp add: Let_def p0 sub [of 1, simplified] sub [of 2] sub [of 3])
qed

theorem is_visible_exact_witness:
  "let mem = \<lparr>m_id = ''m'', m_tier = Mid, m_namespace = ''org/team2/a'', m_title = ''t'', m_content = ''c'',
     m_tags = [], m_priority = 5, m_confidence = Fin 1, m_source = ''api'', m_access_count = 0,
     m_created_at = ''2026'', m_updated_at = ''2026'', m_last_accessed_at = None,
     m_expires_at = None, m_metadata = JObj [(''scope'', JStr ''team'')]\<rparr> in
   \<not> is_visible mem (compute_visibility_prefixes (Some ''org/team/bob''))"
proof -
  let ?mem = "\<lparr>m_id = ''m'', m_tier = Mid, m_namespace = ''org/team2/a'', m_title = ''t'', m_content = ''c'',
     m_tags = [], m_priority = 5, m_confidence = Fin 1, m_source = ''api'', m_access_count = 0,
     m_created_at = ''2026'', m_updated_at = ''2026'', m_last_accessed_at = None,
     m_expires_at = None, m_metadata = JObj [(''scope'', JStr ''team'')]\<rparr>"
  have c: "canonical [''org'', ''team'', ''bob'']" "canonical [''org'', ''team2'', ''a'']" by code_simp+
  have s: "mem_scope (m_metadata ?mem) = ''team''" by code_simp
  have j: "join CHR ''/'' [''org'', ''team'', ''bob''] = ''org/team/bob''" by code_simp
  have "m_namespace ?mem = join CHR ''/'' [''org'', ''team2'', ''a'']" by code_simp
  from is_visible_exact [OF c this refl] show ?thesis by (simp only: s j Let_def) simp
qed

text \<open>The SQL filter and the Rust check, with and without the assumption that names are in lower case.\<close>

lemma visible_passes_clause:
  assumes "\<forall>q \<in> set (namespace_ancestors ns). CHR 0x5C \<notin> set q"
    and "json_get (m_metadata mem) ''scope'' = None \<or> (\<exists>s. json_get (m_metadata mem) ''scope'' = Some (JStr s))"
    and "is_visible mem (compute_visibility_prefixes (Some ns))"
  shows "visibility_clause render (compute_visibility_prefixes (Some ns)) mem"
proof -
  let ?p = "\<lambda>i. nth_opt (namespace_ancestors ns) i" and ?s = "m_namespace mem"
  note sc = scope_idx_string [OF assms(2), of render]
  have weak: "matches_subtree ?s (?p i) \<Longrightarrow> sql_subtree ?s (?p i)" for i
    by (rule sql_subtree_weaker) (use assms(1) in \<open>auto simp: nth_opt_def\<close>)
  show ?thesis
    using assms(3) weak [of 1] weak [of 2] weak [of 3]
    by (auto simp: is_visible_def visibility_clause_def compute_visibility_prefixes_def Let_def sc split: if_splits)
qed

lemma clause_lower_case:
  assumes "\<forall>q \<in> set (namespace_ancestors ns). CHR 0x5C \<notin> set q \<and> to_ascii_lowercase q = q"
    and "json_get (m_metadata mem) ''scope'' = None \<or> (\<exists>s. json_get (m_metadata mem) ''scope'' = Some (JStr s))"
    and "to_ascii_lowercase (m_namespace mem) = m_namespace mem"
  shows "visibility_clause render (compute_visibility_prefixes (Some ns)) mem = is_visible mem (compute_visibility_prefixes (Some ns))"
proof -
  let ?p = "\<lambda>i. nth_opt (namespace_ancestors ns) i" and ?s = "m_namespace mem"
  note sc = scope_idx_string [OF assms(2), of render]
  have low: "sql_subtree ?s (?p i) = matches_subtree ?s (?p i)" for i
    by (rule sql_subtree_lower) (use assms(1,3) in \<open>auto simp: nth_opt_def\<close>)
  show ?thesis
    using low [of 1] low [of 2] low [of 3]
    by (auto simp: is_visible_def visibility_clause_def compute_visibility_prefixes_def Let_def sc)
qed


text \<open>The documented rule on paths, for names that are plain: canonical, in lower case and without backslash.\<close>

definition plain_path :: "str \<Rightarrow> bool" where
  "plain_path s = (canonical (split_on CHR ''/'' s) \<and> to_ascii_lowercase s = s \<and> CHR 0x5C \<notin> set s)"

definition scope_admits :: "str \<Rightarrow> str list \<Rightarrow> str list \<Rightarrow> bool" where
  "scope_admits scope agent ns =
     (scope = ''collective''
      \<or> scope = ''private'' \<and> ns = agent
      \<or> scope = ''team'' \<and> 1 < length agent \<and> prefix (take (length agent - 1) agent) ns
      \<or> scope = ''unit'' \<and> 2 < length agent \<and> prefix (take (length agent - 2) agent) ns
      \<or> scope = ''org'' \<and> 3 < length agent \<and> prefix (take (length agent - 3) agent) ns)"

lemma plain_ancestor:
  assumes "plain_path ns" "a \<in> set (namespace_ancestors ns)"
  shows "CHR 0x5C \<notin> set a \<and> to_ascii_lowercase a = a"
proof -
  let ?ws = "split_on CHR ''/'' ns"
  have c: "canonical ?ws" using assms(1) by (simp add: plain_path_def)
  have "a \<in> set (namespace_ancestors (join CHR ''/'' ?ws))" using assms(2) by simp
  then obtain n where "a = join CHR ''/'' (take n ?ws)"
    unfolding namespace_ancestors_canonical [OF c] by (auto simp del: upt_Suc)
  moreover have "prefix (join CHR ''/'' (take n ws)) (join CHR ''/'' ws)" for ws :: "str list"
    using join_append [of "take n ws" "drop n ws" "CHR ''/''"] by (cases "take n ws = []"; cases "drop n ws = []") auto
  ultimately have "prefix a ns" by (metis join_split_on)
  then obtain t where "ns = a @ t" by (auto simp: prefix_def)
  with assms(1) show ?thesis by (auto simp: plain_path_def to_ascii_lowercase_def)
qed

text \<open>Whatever passes either of the two checks is visible by the documented rule.\<close>

lemma documented_visibility:
  assumes "plain_path ns" "plain_path (m_namespace mem)"
    and "json_get (m_metadata mem) ''scope'' = None \<or> (\<exists>s. json_get (m_metadata mem) ''scope'' = Some (JStr s))"
    and "visibility_clause render (compute_visibility_prefixes (Some ns)) mem \<or> is_visible mem (compute_visibility_prefixes (Some ns))"
  shows "scope_admits (mem_scope (m_metadata mem)) (split_on CHR ''/'' ns) (split_on CHR ''/'' (m_namespace mem))"
proof -
  have "is_visible mem (compute_visibility_prefixes (Some ns))"
    using clause_lower_case [OF _ assms(3), of ns render] plain_ancestor [OF assms(1)] assms(2,4) by (auto simp: plain_path_def)
  then show ?thesis
    using is_visible_exact [of "split_on CHR ''/'' ns" "split_on CHR ''/'' (m_namespace mem)" mem] assms(1,2)
    by (simp add: plain_path_def scope_admits_def)
qed

definition ex_scoped :: "str \<Rightarrow> str \<Rightarrow> Memory" where
  "ex_scoped ns scope = \<lparr>m_id = ''m'', m_tier = Mid, m_namespace = ns, m_title = ''t'', m_content = ''c'',
     m_tags = [], m_priority = 5, m_confidence = Fin 1, m_source = ''api'', m_access_count = 0,
     m_created_at = ''2026'', m_updated_at = ''2026'', m_last_accessed_at = None,
     m_expires_at = None, m_metadata = JObj [(''scope'', JStr scope)]\<rparr>"


text \<open>The SQL filter compares letters without case while the Rust check does not: a memory of team
  scope in a namespace that differs from the agent's team only in case is returned by the SQL
  queries although \<open>is_visible\<close> hides it.\<close>

theorem visibility_case_leak:
  "visibility_clause render (compute_visibility_prefixes (Some ''acme/bob'')) (ex_scoped ''ACME/eve'' ''team'')
   \<and> \<not> is_visible (ex_scoped ''ACME/eve'' ''team'') (compute_visibility_prefixes (Some ''acme/bob''))"
proof
  have "scope_idx render (m_metadata (ex_scoped ''ACME/eve'' ''team'')) = ''team''"
    by (simp add: scope_idx_def sql_json_extract_def ex_scoped_def json_get_def)
  moreover have "sql_subtree ''ACME/eve'' (nth_opt (namespace_ancestors ''acme/bob'') 1)" by code_simp
  ultimately show "visibility_clause render (compute_visibility_prefixes (Some ''acme/bob''))
      (ex_scoped ''ACME/eve'' ''team'')"
    by (simp add: visibility_clause_def compute_visibility_prefixes_def Let_def ex_scoped_def)
  show "\<not> is_visible (ex_scoped ''ACME/eve'' ''team'') (compute_visibility_prefixes (Some ''acme/bob''))"
    by code_simp
qed

end
