(* ===== verification/Validate.thy ===== *)
theory Validate
  imports Models
begin

text \<open>
  Input validation (\<open>src/validate.rs\<close>). Every validator is a sequence of checks in the source's
  order; \<open>bail!\<close> is \<^const>\<open>Inl\<close> of the field and the fault it reports. \<open>chrono\<close>'s RFC 3339 parser
  and \<open>serde_json\<close>'s serializer are third-party code and appear as the parameters
  \<open>parse\<close> (the instant a timestamp denotes, if it parses) and \<open>ser\<close>.
\<close>

datatype Field = FTitle | FContent | FNamespace | FSource | FAgentId | FScope | FApprover
  | FAgentType | FTags | FId | FExpiresAt | FTtl | FMetadata | FRelation | FConfidence
  | FPriority | FAccessCount | FCreatedAt | FUpdatedAt | FLastAccessedAt | FLink | FIds

datatype Fault = Empty | TooLong | InvalidChars | InvalidChar nat | BackslashOrNull | HasSpace
  | LeadingSlash | TrailingSlash | EmptySegment | DotSegment | TooDeep nat | NotAllowed
  | ZeroQuorum | NoName | TooMany | BadTimestamp | InPast | NotPositive | TooLarge | NotObject
  | NotFinite | OutOfRange | Negative | SelfReference | TooFew | Duplicate str

datatype ValidationError = Bail Field Fault

type_synonym vcheck = "ValidationError check"
type_synonym rfc3339 = "str \<Rightarrow> int option"

definition MAX_TITLE_LEN :: nat where "MAX_TITLE_LEN = 512"
definition MAX_NAMESPACE_LEN :: nat where "MAX_NAMESPACE_LEN = 512"
definition MAX_SOURCE_LEN :: nat where "MAX_SOURCE_LEN = 64"
definition MAX_TAG_LEN :: nat where "MAX_TAG_LEN = 128"
definition MAX_TAGS_COUNT :: nat where "MAX_TAGS_COUNT = 50"
definition MAX_RELATION_LEN :: nat where "MAX_RELATION_LEN = 64"
definition MAX_ID_LEN :: nat where "MAX_ID_LEN = 128"
definition MAX_AGENT_ID_LEN :: nat where "MAX_AGENT_ID_LEN = 128"
definition MAX_METADATA_SIZE :: nat where "MAX_METADATA_SIZE = 65536"
definition MAX_METADATA_DEPTH :: nat where "MAX_METADATA_DEPTH = 32"
definition MAX_AGENT_TYPE_LEN :: nat where "MAX_AGENT_TYPE_LEN = 64"

definition VALID_SOURCES :: "str list" where
  "VALID_SOURCES = [''user'', ''claude'', ''hook'', ''api'', ''cli'', ''import'', ''consolidation'',
     ''system'', ''chaos'', ''notify'']"

definition VALID_RELATIONS :: "str list" where
  "VALID_RELATIONS = [''related_to'', ''supersedes'', ''contradicts'', ''derived_from'']"

definition is_valid_rfc3339 :: "rfc3339 \<Rightarrow> str \<Rightarrow> bool" where
  "is_valid_rfc3339 parse s = (parse s \<noteq> None)"

definition is_clean_string :: "str \<Rightarrow> bool" where
  "is_clean_string s = (\<not> list_ex (\<lambda>c. is_control c \<and> c \<noteq> 10 \<and> c \<noteq> 9) (chars s))"

definition validate_title :: "str \<Rightarrow> vcheck" where
  "validate_title title =
     (let trimmed = trim title in
      first_err
       [bail_if (trimmed = []) (Bail FTitle Empty),
        bail_if (length (chars trimmed) > MAX_TITLE_LEN) (Bail FTitle TooLong),
        bail_if (\<not> is_clean_string trimmed) (Bail FTitle InvalidChars)])"

definition validate_content :: "str \<Rightarrow> vcheck" where
  "validate_content content =
     first_err
       [bail_if (trim content = []) (Bail FContent Empty),
        bail_if (length content > MAX_CONTENT_SIZE) (Bail FContent TooLong),
        bail_if (\<not> is_clean_string content) (Bail FContent InvalidChars)]"

definition validate_namespace :: "str \<Rightarrow> vcheck" where
  "validate_namespace ns =
     (let trimmed = trim ns; depth = namespace_depth trimmed in
      first_err
       [bail_if (trimmed = []) (Bail FNamespace Empty),
        bail_if (length (chars trimmed) > MAX_NAMESPACE_LEN) (Bail FNamespace TooLong),
        bail_if (CHR 0x5C \<in> set trimmed \<or> CHR 0x00 \<in> set trimmed)
          (Bail FNamespace BackslashOrNull),
        bail_if (CHR '' '' \<in> set trimmed) (Bail FNamespace HasSpace),
        bail_if (\<not> is_clean_string trimmed) (Bail FNamespace InvalidChars),
        bail_if (starts_with trimmed ''/'') (Bail FNamespace LeadingSlash),
        bail_if (suffix ''/'' trimmed) (Bail FNamespace TrailingSlash),
        bail_if (list_ex (\<lambda>s. s = []) (split_on CHR ''/'' trimmed)) (Bail FNamespace EmptySegment),
        bail_if (list_ex (\<lambda>s. s = ''..'' \<or> s = ''.'') (split_on CHR ''/'' trimmed))
          (Bail FNamespace DotSegment),
        bail_if (depth > MAX_NAMESPACE_DEPTH) (Bail FNamespace (TooDeep depth))])"

definition validate_source :: "str \<Rightarrow> vcheck" where
  "validate_source source =
     first_err
       [bail_if (trim source = []) (Bail FSource Empty),
        bail_if (length source > MAX_SOURCE_LEN) (Bail FSource TooLong),
        bail_if (source \<notin> set VALID_SOURCES) (Bail FSource NotAllowed)]"

text \<open>The characters an agent id may hold: ASCII letters and digits and \<open>_ - : @ . /\<close>.\<close>

definition agent_id_char :: "nat \<Rightarrow> bool" where
  "agent_id_char c = (is_ascii_alphanumeric c \<or> c \<in> {95, 45, 58, 64, 46, 47})"

definition validate_agent_id :: "str \<Rightarrow> vcheck" where
  "validate_agent_id agent_id =
     first_err
       ([bail_if (agent_id = []) (Bail FAgentId Empty),
         bail_if (length agent_id > MAX_AGENT_ID_LEN) (Bail FAgentId TooLong)]
        @ map (\<lambda>c. bail_if (\<not> agent_id_char c) (Bail FAgentId (InvalidChar c))) (chars agent_id))"

definition validate_scope :: "str \<Rightarrow> vcheck" where
  "validate_scope scope =
     first_err
       [bail_if (scope = []) (Bail FScope Empty),
        bail_if (scope \<notin> set VALID_SCOPES) (Bail FScope NotAllowed)]"

definition validate_governance_policy :: "GovernancePolicy \<Rightarrow> vcheck" where
  "validate_governance_policy policy =
     first_err
       [(case gp_approver policy of
           Human \<Rightarrow> Inr ()
         | Agent i \<Rightarrow> validate_agent_id i
         | Consensus n \<Rightarrow> bail_if (n = 0) (Bail FApprover ZeroQuorum)),
        (let uses_approve = gp_write policy = LApprove \<or> gp_promote policy = LApprove
               \<or> gp_delete policy = LApprove in
         bail_if (uses_approve \<and> gp_approver policy = Consensus 0) (Bail FApprover ZeroQuorum))]"

definition agent_type_char :: "nat \<Rightarrow> bool" where
  "agent_type_char c = (is_ascii_alphanumeric c \<or> c \<in> {95, 45, 46})"

definition validate_agent_type :: "str \<Rightarrow> vcheck" where
  "validate_agent_type agent_type =
     (if agent_type = [] then Inl (Bail FAgentType Empty)
      else if length agent_type > MAX_AGENT_TYPE_LEN then Inl (Bail FAgentType TooLong)
      else if agent_type \<in> set VALID_AGENT_TYPES then Inr ()
      else case strip_prefix agent_type ''ai:'' of
          Some name \<Rightarrow>
            if name = [] then Inl (Bail FAgentType NoName)
            else if list_all agent_type_char (chars name) then Inr ()
            else Inl (Bail FAgentType InvalidChars)
        | None \<Rightarrow> Inl (Bail FAgentType NotAllowed))"

definition validate_tag :: "str \<Rightarrow> vcheck" where
  "validate_tag tag =
     (let trimmed = trim tag in
      first_err
       [bail_if (trimmed = []) (Bail FTags Empty),
        bail_if (length trimmed > MAX_TAG_LEN) (Bail FTags TooLong),
        bail_if (\<not> is_clean_string trimmed) (Bail FTags InvalidChars)])"

definition validate_tags :: "str list \<Rightarrow> vcheck" where
  "validate_tags tags =
     first_err (bail_if (length tags > MAX_TAGS_COUNT) (Bail FTags TooMany) # map validate_tag tags)"

definition validate_capabilities :: "str list \<Rightarrow> vcheck" where
  "validate_capabilities caps = validate_tags caps"

definition validate_id :: "str \<Rightarrow> vcheck" where
  "validate_id i =
     first_err
       [bail_if (trim i = []) (Bail FId Empty),
        bail_if (length i > MAX_ID_LEN) (Bail FId TooLong),
        bail_if (\<not> is_clean_string i) (Bail FId InvalidChars)]"

definition validate_expires_at :: "rfc3339 \<Rightarrow> int \<Rightarrow> str option \<Rightarrow> vcheck" where
  "validate_expires_at parse now expires_at =
     check_opt (\<lambda>ts. first_err
       [bail_if (\<not> is_valid_rfc3339 parse ts) (Bail FExpiresAt BadTimestamp),
        bail_if (case parse ts of Some dt \<Rightarrow> dt < now | None \<Rightarrow> False) (Bail FExpiresAt InPast)])
       expires_at"

definition validate_ttl_secs :: "int option \<Rightarrow> vcheck" where
  "validate_ttl_secs ttl =
     check_opt (\<lambda>secs. first_err
       [bail_if (secs \<le> 0) (Bail FTtl NotPositive),
        bail_if (secs > 365 * 24 * 3600) (Bail FTtl TooLarge)]) ttl"

fun json_depth :: "json \<Rightarrow> nat" where
  "json_depth (JObj kvs) = 1 + foldr max (map (\<lambda>kv. json_depth (snd kv)) kvs) 0"
| "json_depth (JArr arr) = 1 + foldr max (map json_depth arr) 0"
| "json_depth _ = 0"

definition validate_metadata :: "(json \<Rightarrow> str) \<Rightarrow> json \<Rightarrow> vcheck" where
  "validate_metadata ser metadata =
     first_err
       [bail_if (\<not> is_object metadata) (Bail FMetadata NotObject),
        bail_if (length (ser metadata) > MAX_METADATA_SIZE) (Bail FMetadata TooLarge),
        bail_if (json_depth metadata > MAX_METADATA_DEPTH) (Bail FMetadata (TooDeep (json_depth metadata)))]"

definition validate_relation :: "str \<Rightarrow> vcheck" where
  "validate_relation relation =
     first_err
       [bail_if (trim relation = []) (Bail FRelation Empty),
        bail_if (length relation > MAX_RELATION_LEN) (Bail FRelation TooLong),
        bail_if (relation \<notin> set VALID_RELATIONS) (Bail FRelation NotAllowed)]"

definition validate_confidence :: "f64 \<Rightarrow> vcheck" where
  "validate_confidence confidence =
     (case confidence of
        Fin q \<Rightarrow> bail_if (\<not> (0 \<le> q \<and> q \<le> 1)) (Bail FConfidence OutOfRange)
      | _ \<Rightarrow> Inl (Bail FConfidence NotFinite))"

definition validate_priority :: "int \<Rightarrow> vcheck" where
  "validate_priority priority =
     bail_if (\<not> (1 \<le> priority \<and> priority \<le> 10)) (Bail FPriority OutOfRange)"

definition validate_create ::
    "rfc3339 \<Rightarrow> (json \<Rightarrow> str) \<Rightarrow> int \<Rightarrow> CreateMemory \<Rightarrow> vcheck" where
  "validate_create parse ser now mem =
     first_err
       [validate_title (c_title mem),
        validate_content (c_content mem),
        validate_namespace (c_namespace mem),
        validate_source (c_source mem),
        validate_tags (c_tags mem),
        validate_priority (c_priority mem),
        validate_confidence (c_confidence mem),
        validate_expires_at parse now (c_expires_at mem),
        validate_ttl_secs (c_ttl_secs mem),
        validate_metadata ser (c_metadata mem)]"

definition validate_memory :: "rfc3339 \<Rightarrow> (json \<Rightarrow> str) \<Rightarrow> Memory \<Rightarrow> vcheck" where
  "validate_memory parse ser mem =
     first_err
       [validate_id (m_id mem),
        validate_title (m_title mem),
        validate_content (m_content mem),
        validate_namespace (m_namespace mem),
        validate_source (m_source mem),
        validate_tags (m_tags mem),
        validate_priority (m_priority mem),
        validate_confidence (m_confidence mem),
        bail_if (m_access_count mem < 0) (Bail FAccessCount Negative),
        bail_if (\<not> is_valid_rfc3339 parse (m_created_at mem)) (Bail FCreatedAt BadTimestamp),
        bail_if (\<not> is_valid_rfc3339 parse (m_updated_at mem)) (Bail FUpdatedAt BadTimestamp),
        check_opt (\<lambda>ts. bail_if (\<not> is_valid_rfc3339 parse ts) (Bail FLastAccessedAt BadTimestamp))
          (m_last_accessed_at mem),
        check_opt (\<lambda>ts. bail_if (\<not> is_valid_rfc3339 parse ts) (Bail FExpiresAt BadTimestamp))
          (m_expires_at mem),
        validate_metadata ser (m_metadata mem)]"

definition validate_expires_at_format :: "rfc3339 \<Rightarrow> str \<Rightarrow> vcheck" where
  "validate_expires_at_format parse ts =
     bail_if (\<not> is_valid_rfc3339 parse ts) (Bail FExpiresAt BadTimestamp)"

definition validate_update :: "rfc3339 \<Rightarrow> (json \<Rightarrow> str) \<Rightarrow> UpdateMemory \<Rightarrow> vcheck" where
  "validate_update parse ser upd =
     first_err
       [check_opt validate_title (u_title upd),
        check_opt validate_content (u_content upd),
        check_opt validate_namespace (u_namespace upd),
        check_opt validate_tags (u_tags upd),
        check_opt validate_priority (u_priority upd),
        check_opt validate_confidence (u_confidence upd),
        check_opt (validate_expires_at_format parse) (u_expires_at upd),
        check_opt (validate_metadata ser) (u_metadata upd)]"

definition validate_link :: "str \<Rightarrow> str \<Rightarrow> str \<Rightarrow> vcheck" where
  "validate_link source_id target_id relation =
     first_err
       [validate_id source_id,
        validate_id target_id,
        validate_relation relation,
        bail_if (source_id = target_id) (Bail FLink SelfReference)]"

text \<open>The loop of \<open>validate_consolidate\<close> over the ids, with the set of ids seen so far.\<close>

fun check_ids :: "str list \<Rightarrow> str list \<Rightarrow> vcheck" where
  "check_ids seen [] = Inr ()"
| "check_ids seen (i # is) =
     and_then (validate_id i)
       (if i \<in> set seen then Inl (Bail FIds (Duplicate i)) else check_ids (i # seen) is)"

definition validate_consolidate :: "str list \<Rightarrow> str \<Rightarrow> str \<Rightarrow> str \<Rightarrow> vcheck" where
  "validate_consolidate ids title summary namespace =
     first_err
       [bail_if (length ids < 2) (Bail FIds TooFew),
        bail_if (length ids > 100) (Bail FIds TooMany),
        check_ids [] ids,
        validate_title title,
        validate_content summary,
        validate_namespace namespace]"

section \<open>What the validators accept\<close>

text \<open>The specification of an acceptable namespace, on its segments.\<close>

definition ns_bytes_ok :: "str \<Rightarrow> bool" where
  "ns_bytes_ok s = (length (chars s) \<le> MAX_NAMESPACE_LEN \<and> is_clean_string s
     \<and> CHR 0x5C \<notin> set s \<and> CHR 0x00 \<notin> set s \<and> CHR '' '' \<notin> set s)"

definition ns_segments_ok :: "str list \<Rightarrow> bool" where
  "ns_segments_ok ws = (canonical ws \<and> ''.'' \<notin> set ws \<and> ''..'' \<notin> set ws
     \<and> length ws \<le> MAX_NAMESPACE_DEPTH)"

lemma split_segments:
  assumes "[] \<notin> set (split_on CHR ''/'' s)"
  shows "canonical (split_on CHR ''/'' s)"
  using assms split_on_free by (force simp: canonical_def seg_ok_def list_all_iff)

lemma canonical_no_edge_slash:
  assumes "canonical ws"
  shows "\<not> prefix ''/'' (join CHR ''/'' ws) \<and> \<not> suffix ''/'' (join CHR ''/'' ws)"
proof
  let ?s = "join CHR ''/'' ws"
  have ne: "[] \<notin> set (split_on CHR ''/'' ?s)"
    using assms by (auto simp: canonical_split canonical_def seg_ok_def list_all_iff)
  show "\<not> prefix ''/'' ?s"
  proof
    assume "prefix ''/'' ?s"
    then obtain t where "?s = CHR ''/'' # t" by (auto simp: prefix_def)
    then have "[] \<in> set (split_on CHR ''/'' ?s)" by simp
    with ne show False ..
  qed
  show "\<not> suffix ''/'' ?s"
  proof
    assume "suffix ''/'' ?s"
    then obtain t where t: "?s = t @ ''/''" by (auto simp: suffix_def)
    have "t @ ''/'' = join CHR ''/'' (split_on CHR ''/'' t @ [[]])"
      by (simp add: join_append)
    then have "split_on CHR ''/'' ?s = split_on CHR ''/'' t @ [[]]"
      unfolding t using split_on_join [of "split_on CHR ''/'' t @ [[]]" "CHR ''/''"]
      by (auto dest: split_on_free)
    with ne show False by simp
  qed
qed

lemma validate_namespace_iff:
  "validate_namespace ns = Inr () \<longleftrightarrow>
     (\<exists>ws. trim ns = join CHR ''/'' ws \<and> ns_segments_ok ws \<and> ns_bytes_ok (trim ns))"
proof
  assume ok: "validate_namespace ns = Inr ()"
  let ?ws = "split_on CHR ''/'' (trim ns)"
  from ok have seg: "[] \<notin> set ?ws" "''.'' \<notin> set ?ws" "''..'' \<notin> set ?ws"
    and depth: "namespace_depth (trim ns) \<le> MAX_NAMESPACE_DEPTH"
    and bytes: "ns_bytes_ok (trim ns)"
    by (auto simp: validate_namespace_def Let_def list_ex_iff ns_bytes_ok_def)
  from seg(1) have c: "canonical ?ws" by (rule split_segments)
  with depth canonical_depth [OF c] have "length ?ws \<le> MAX_NAMESPACE_DEPTH" by simp
  with c seg bytes show "\<exists>ws. trim ns = join CHR ''/'' ws \<and> ns_segments_ok ws \<and> ns_bytes_ok (trim ns)"
    by (intro exI [of _ ?ws]) (auto simp: ns_segments_ok_def)
next
  assume "\<exists>ws. trim ns = join CHR ''/'' ws \<and> ns_segments_ok ws \<and> ns_bytes_ok (trim ns)"
  then obtain ws where ws: "trim ns = join CHR ''/'' ws" "ns_segments_ok ws" "ns_bytes_ok (trim ns)"
    by blast
  then have c: "canonical ws" by (simp add: ns_segments_ok_def)
  show "validate_namespace ns = Inr ()"
    using ws canonical_split [OF c] canonical_depth [OF c] join_nonempty [OF c]
      canonical_no_edge_slash [OF c] c
    by (auto simp: validate_namespace_def Let_def ns_segments_ok_def ns_bytes_ok_def list_ex_iff
        starts_with_def canonical_def seg_ok_def list_all_iff)
qed

lemma ns_segments_ok_take: "ns_segments_ok ws \<Longrightarrow> 0 < n \<Longrightarrow> ns_segments_ok (take n ws)"
  by (auto simp: ns_segments_ok_def canonical_def list_all_iff dest: in_set_takeD)

lemma validate_agent_id_iff:
  "validate_agent_id a = Inr () \<longleftrightarrow>
     0 < length a \<and> length a \<le> MAX_AGENT_ID_LEN \<and> list_all agent_id_char (chars a)"
  by (auto simp: validate_agent_id_def list_all_iff)

lemma check_ids_iff:
  "check_ids seen ids = Inr () \<longleftrightarrow>
     (\<forall>i \<in> set ids. validate_id i = Inr ()) \<and> distinct ids \<and> set ids \<inter> set seen = {}"
  by (induction seen ids rule: check_ids.induct) auto

lemma validate_id_not_duplicate: "validate_id i \<noteq> Inl (Bail FIds (Duplicate j))"
  by (auto simp: validate_id_def first_err_Cons)

lemma check_ids_duplicate:
  "check_ids seen ids = Inl (Bail FIds (Duplicate i)) \<Longrightarrow>
     i \<in> set ids \<and> (i \<in> set seen \<or> 2 \<le> count_list ids i)"
proof (induction seen ids rule: check_ids.induct)
  case (2 seen j ids)
  then show ?case
    using validate_id_not_duplicate [of j i]
    by (cases "validate_id j") (auto split: if_splits simp: count_list_0_iff Suc_le_eq intro!: gr0I)
qed simp

lemma validate_consolidate_iff:
  "validate_consolidate ids title summary ns = Inr () \<longleftrightarrow>
     2 \<le> length ids \<and> length ids \<le> 100 \<and> distinct ids \<and> (\<forall>i \<in> set ids. validate_id i = Inr ())
     \<and> validate_title title = Inr () \<and> validate_content summary = Inr ()
     \<and> validate_namespace ns = Inr ()"
  by (auto simp: validate_consolidate_def check_ids_iff)

lemma validate_tags_iff:
  "validate_tags tags = Inr () \<longleftrightarrow>
     length tags \<le> MAX_TAGS_COUNT \<and> (\<forall>t \<in> set tags. validate_tag t = Inr ())"
  by (auto simp: validate_tags_def)

lemma validate_confidence_iff:
  "validate_confidence c = Inr () \<longleftrightarrow> (\<exists>q. c = Fin q \<and> 0 \<le> q \<and> q \<le> 1)"
  by (cases c) (auto simp: validate_confidence_def)

lemma validate_source_iff: "validate_source s = Inr () \<longleftrightarrow> s \<in> set VALID_SOURCES"
proof
  have "list_all (\<lambda>s. validate_source s = Inr ()) VALID_SOURCES" by code_simp
  then show "s \<in> set VALID_SOURCES \<Longrightarrow> validate_source s = Inr ()" by (simp add: list_all_iff)
qed (simp add: validate_source_def)

lemma foldr_max_le: "(foldr max xs 0 \<le> n) = (\<forall>x \<in> set xs. x \<le> (n::nat))"
  by (induction xs) auto

lemma json_depth_member:
  "kv \<in> set kvs \<Longrightarrow> json_depth (snd kv) < json_depth (JObj kvs)"
  using foldr_max_le [of "map (\<lambda>kv. json_depth (snd kv)) kvs" "json_depth (JObj kvs) - 1"]
  by (auto simp: less_Suc_eq_le)

section \<open>Properties\<close>

text \<open>A namespace is accepted exactly when, trimmed, it is a path of one to eight non-empty,
  slash-free segments other than \<open>.\<close> and \<open>..\<close>, of at most 512 characters, without backslash, null
  byte, space or control characters; so no accepted namespace can traverse upwards, and every
  ancestor of it has the same shape.\<close>

theorem validate_namespace_exact:
  "(validate_namespace ns = Inr () \<longleftrightarrow>
      (\<exists>ws. trim ns = join CHR ''/'' ws \<and> ns_segments_ok ws \<and> ns_bytes_ok (trim ns)))
   \<and> (validate_namespace ns = Inr () \<longrightarrow>
      length (namespace_ancestors (trim ns)) \<le> MAX_NAMESPACE_DEPTH
      \<and> (\<forall>a \<in> set (namespace_ancestors (trim ns)). \<exists>vs. a = join CHR ''/'' vs \<and> ns_segments_ok vs))"
proof (intro conjI impI)
  show "validate_namespace ns = Inr () \<longleftrightarrow>
      (\<exists>ws. trim ns = join CHR ''/'' ws \<and> ns_segments_ok ws \<and> ns_bytes_ok (trim ns))"
    by (rule validate_namespace_iff)
next
  assume "validate_namespace ns = Inr ()"
  then obtain ws where ws: "trim ns = join CHR ''/'' ws" "ns_segments_ok ws"
    using validate_namespace_iff by blast
  then have c: "canonical ws" by (simp add: ns_segments_ok_def)
  show "length (namespace_ancestors (trim ns)) \<le> MAX_NAMESPACE_DEPTH"
    using ws by (simp add: namespace_ancestors_canonical [OF c] ns_segments_ok_def del: upt_Suc)
  show "\<forall>a \<in> set (namespace_ancestors (trim ns)). \<exists>vs. a = join CHR ''/'' vs \<and> ns_segments_ok vs"
    using ns_segments_ok_take [OF ws(2)]
    by (auto simp: ws(1) namespace_ancestors_canonical [OF c] simp del: upt_Suc)
qed

theorem validate_namespace_exact_witness:
  "validate_namespace ''org/team/x'' = Inr ()
   \<and> length (namespace_ancestors (trim ''org/team/x'')) \<le> MAX_NAMESPACE_DEPTH"
proof -
  have "validate_namespace ''org/team/x'' = Inr ()" by code_simp
  then show ?thesis using validate_namespace_exact [of "''org/team/x''"] by blast
qed

text \<open>The namespace validator only looks at the trimmed string, so a namespace with leading or
  trailing white space is accepted as it is, although its documentation excludes it.\<close>

theorem validate_namespace_ignores_padding:
  "(\<forall>ns. validate_namespace (trim ns) = validate_namespace ns)
   \<and> validate_namespace '' global'' = Inr () \<and> '' global'' \<noteq> trim '' global''"
proof (intro conjI allI)
  show "validate_namespace (trim ns) = validate_namespace ns" for ns
    by (simp add: validate_namespace_def)
  show "validate_namespace '' global'' = Inr ()" by code_simp
  show "'' global'' \<noteq> trim '' global''" by code_simp
qed

text \<open>A consolidation request is accepted exactly when it names between 2 and 100 pairwise
  different valid ids and its title, summary and namespace are valid; otherwise the reported
  duplicate is an id that does occur twice.\<close>

theorem validate_consolidate_exact:
  "(validate_consolidate ids title summary ns = Inr () \<longleftrightarrow>
      2 \<le> length ids \<and> length ids \<le> 100 \<and> distinct ids \<and> (\<forall>i \<in> set ids. validate_id i = Inr ())
      \<and> validate_title title = Inr () \<and> validate_content summary = Inr ()
      \<and> validate_namespace ns = Inr ())
   \<and> (validate_consolidate ids title summary ns = Inl (Bail FIds (Duplicate i)) \<longrightarrow>
      2 \<le> count_list ids i)"
proof (intro conjI impI)
  show "validate_consolidate ids title summary ns = Inr () \<longleftrightarrow>
      2 \<le> length ids \<and> length ids \<le> 100 \<and> distinct ids \<and> (\<forall>i \<in> set ids. validate_id i = Inr ())
      \<and> validate_title title = Inr () \<and> validate_content summary = Inr ()
      \<and> validate_namespace ns = Inr ()"
    by (rule validate_consolidate_iff)
  assume "validate_consolidate ids title summary ns = Inl (Bail FIds (Duplicate i))"
  then have "check_ids [] ids = Inl (Bail FIds (Duplicate i))"
    by (auto simp: validate_consolidate_def first_err_Cons validate_title_def validate_content_def
        validate_namespace_def Let_def)
  then show "2 \<le> count_list ids i" using check_ids_duplicate [of "[]"] by fastforce
qed

theorem validate_consolidate_exact_witness:
  "validate_consolidate [''x'', ''y'', ''x''] ''t'' ''s'' ''g'' = Inl (Bail FIds (Duplicate ''x''))
   \<and> 2 \<le> count_list [''x'', ''y'', ''x''] ''x''"
proof -
  have "check_ids [] [''x'', ''y'', ''x''] = Inl (Bail FIds (Duplicate ''x''))" by code_simp
  then have "validate_consolidate [''x'', ''y'', ''x''] ''t'' ''s'' ''g'' = Inl (Bail FIds (Duplicate ''x''))"
    by (simp add: validate_consolidate_def)
  then show ?thesis
    using validate_consolidate_exact [of "[''x'', ''y'', ''x'']" "''t''" "''s''" "''g''" "''x''"] by blast
qed

text \<open>What an import can rely on for the sizes and numbers of an accepted memory: bounded title, content, number of tags and
  metadata, priority 1 to 10, a confidence that is a number of the unit interval, a non-negative access count and parseable
  timestamps. The shape of its namespace is the subject of \<open>validate_namespace_exact\<close>.\<close>

theorem validate_memory_sound:
  assumes "validate_memory parse ser mem = Inr ()"
  shows "length (chars (trim (m_title mem))) \<le> MAX_TITLE_LEN \<and> trim (m_title mem) \<noteq> []
    \<and> length (m_content mem) \<le> MAX_CONTENT_SIZE
    \<and> namespace_depth (trim (m_namespace mem)) \<le> MAX_NAMESPACE_DEPTH
    \<and> m_source mem \<in> set VALID_SOURCES \<and> length (m_tags mem) \<le> MAX_TAGS_COUNT
    \<and> 1 \<le> m_priority mem \<and> m_priority mem \<le> 10
    \<and> (\<exists>q. m_confidence mem = Fin q \<and> 0 \<le> q \<and> q \<le> 1) \<and> 0 \<le> m_access_count mem
    \<and> parse (m_created_at mem) \<noteq> None \<and> parse (m_updated_at mem) \<noteq> None
    \<and> (\<forall>ts. m_expires_at mem = Some ts \<or> m_last_accessed_at mem = Some ts \<longrightarrow> parse ts \<noteq> None)
    \<and> is_object (m_metadata mem) \<and> length (ser (m_metadata mem)) \<le> MAX_METADATA_SIZE
    \<and> json_depth (m_metadata mem) \<le> MAX_METADATA_DEPTH"
proof -
  from assms have
    "validate_title (m_title mem) = Inr ()" "validate_content (m_content mem) = Inr ()"
    "validate_namespace (m_namespace mem) = Inr ()" "validate_source (m_source mem) = Inr ()"
    "validate_tags (m_tags mem) = Inr ()" "validate_priority (m_priority mem) = Inr ()"
    "validate_confidence (m_confidence mem) = Inr ()" "validate_metadata ser (m_metadata mem) = Inr ()"
    and "0 \<le> m_access_count mem" "parse (m_created_at mem) \<noteq> None" "parse (m_updated_at mem) \<noteq> None"
    "\<forall>ts. m_expires_at mem = Some ts \<or> m_last_accessed_at mem = Some ts \<longrightarrow> parse ts \<noteq> None"
    by (simp_all add: validate_memory_def is_valid_rfc3339_def)
  then show ?thesis
    by (simp add: validate_title_def validate_content_def validate_namespace_def Let_def
        validate_source_def validate_tags_iff validate_priority_def validate_confidence_iff
        validate_metadata_def)
qed

theorem validate_memory_sound_witness:
  "let mem = \<lparr>m_id = ''m1'', m_tier = Mid, m_namespace = ''g'', m_title = ''t'', m_content = ''c'',
     m_tags = [], m_priority = 5, m_confidence = Fin 1, m_source = ''api'', m_access_count = 0,
     m_created_at = ''2026'', m_updated_at = ''2026'', m_last_accessed_at = None,
     m_expires_at = None, m_metadata = JObj []\<rparr> in
   validate_memory (\<lambda>s. Some 0) (\<lambda>j. ''{}'') mem = Inr () \<and> m_priority mem \<le> 10"
proof -
  let ?mem = "\<lparr>m_id = ''m1'', m_tier = Mid, m_namespace = ''g'', m_title = ''t'', m_content = ''c'',
     m_tags = [], m_priority = 5, m_confidence = Fin 1, m_source = ''api'', m_access_count = 0,
     m_created_at = ''2026'', m_updated_at = ''2026'', m_last_accessed_at = None,
     m_expires_at = None, m_metadata = JObj []\<rparr>"
  have parts: "validate_id ''m1'' = Inr ()" "validate_title ''t'' = Inr ()" "trim ''c'' \<noteq> []"
    "is_clean_string ''c''" "validate_namespace ''g'' = Inr ()" "validate_source ''api'' = Inr ()"
    by code_simp+
  then have "validate_content ''c'' = Inr ()" by (simp add: validate_content_def MAX_CONTENT_SIZE_def)
  with parts have "validate_memory (\<lambda>s. Some 0) (\<lambda>j. ''{}'') ?mem = Inr ()"
    by (simp add: validate_memory_def validate_tags_def validate_priority_def validate_confidence_def
        is_valid_rfc3339_def validate_metadata_def is_object_def MAX_METADATA_SIZE_def MAX_METADATA_DEPTH_def
        MAX_TAGS_COUNT_def)
  then show ?thesis using validate_memory_sound [of "\<lambda>s. Some 0" "\<lambda>j. ''{}''" ?mem] by (simp add: Let_def)
qed

end
