(* ===== verification/Memory_Store.thy ===== *)
theory Memory_Store
  imports Visibility Validate
begin

text \<open>
  The SQLite store (\<open>src/db.rs\<close>): its tables and the operations on single memories. A table is the
  list of its rows in rowid order, a database operation takes the database and returns a result
  and the database; an error is \<^const>\<open>Inl\<close> and comes with the unchanged database. The wall clock is
  the argument \<open>now\<close> (RFC 3339 text), \<open>chrono\<close>'s addition of seconds is the parameter \<open>add_secs\<close>.
  JSON columns hold the value they encode and tier columns the tier they name.
\<close>

record MemRow = Memory +
  r_embedding :: "nat list option"
  r_embedding_dim :: "int option"

record ArchRow = MemRow +
  a_archived_at :: str
  a_archive_reason :: str
  a_original_tier :: "Tier option"
  a_original_expires_at :: "str option"

record LinkRow = MemoryLink +
  lr_attest_level :: "str option"

record PendingRow = PendingAction +
  pr_default_timeout_seconds :: "int option"
  pr_expired_at :: "str option"

record SyncRow =
  sy_agent_id :: str
  sy_peer_id :: str
  sy_last_seen_at :: str
  sy_last_pulled_at :: str
  sy_last_pushed_at :: "str option"

record Db =
  db_memories :: "MemRow list"
  db_links :: "LinkRow list"
  db_archived :: "ArchRow list"
  db_namespace_meta :: "NamespaceMetaEntry list"
  db_pending :: "PendingRow list"
  db_sync :: "SyncRow list"

datatype DbError =
    ConstraintViolation
  | TitleExists str str str
  | AmbiguousPrefix str "str list"
  | FilterRequired
  | WouldOverwrite str
  | NegativeDays int
  | SignFailed
  | SourceNotFound str
  | TargetNotFound str
  | MemoryNotFound str
  | InvalidMetadata ValidationError
  | NoFreeTitle str str
  | EmptyToNamespace
  | SelfAncestor str
  | NotAncestor str str
  | OwnParent
  | PendingNotFound str
  | NotApproved str
  | InvalidPayload str
  | UnknownAction str

type_synonym 'a db_result = "(DbError + 'a) \<times> Db"

definition empty_db :: Db where
  "empty_db = \<lparr>db_memories = [], db_links = [], db_archived = [], db_namespace_meta = [],
     db_pending = [], db_sync = []\<rparr>"

text \<open>The row an \<open>INSERT\<close> without the embedding columns writes, and \<open>row_to_memory\<close>.\<close>

definition row_of :: "Memory \<Rightarrow> MemRow" where
  "row_of m =
     \<lparr>m_id = m_id m, m_tier = m_tier m, m_namespace = m_namespace m, m_title = m_title m,
      m_content = m_content m, m_tags = m_tags m, m_priority = m_priority m,
      m_confidence = m_confidence m, m_source = m_source m, m_access_count = m_access_count m,
      m_created_at = m_created_at m, m_updated_at = m_updated_at m,
      m_last_accessed_at = m_last_accessed_at m, m_expires_at = m_expires_at m,
      m_metadata = m_metadata m, r_embedding = None, r_embedding_dim = None\<rparr>"

definition row_to_memory :: "'a Memory_scheme \<Rightarrow> Memory" where
  "row_to_memory r =
     \<lparr>m_id = m_id r, m_tier = m_tier r, m_namespace = m_namespace r, m_title = m_title r,
      m_content = m_content r, m_tags = m_tags r, m_priority = m_priority r,
      m_confidence = m_confidence r, m_source = m_source r, m_access_count = m_access_count r,
      m_created_at = m_created_at r, m_updated_at = m_updated_at r,
      m_last_accessed_at = m_last_accessed_at r, m_expires_at = m_expires_at r,
      m_metadata = m_metadata r\<rparr>"

lemma row_to_memory_row_of [simp]: "row_to_memory (row_of m) = m"
  by (simp add: row_to_memory_def row_of_def)

text \<open>
  \<open>DELETE FROM memories WHERE P\<close>: the foreign keys of \<open>memory_links\<close> cascade.
\<close>

definition delete_memories :: "(MemRow \<Rightarrow> bool) \<Rightarrow> Db \<Rightarrow> Db" where
  "delete_memories P db =
     (let gone = map m_id (filter P (db_memories db)) in
      db\<lparr>db_memories := sql_delete P (db_memories db),
         db_links := sql_delete (\<lambda>l. l_source_id l \<in> set gone \<or> l_target_id l \<in> set gone) (db_links db)\<rparr>)"

subsection \<open>Upsert\<close>

text \<open>\<open>MAX\<close> of two REAL values; a stored confidence is never NULL.\<close>

fun f64_le :: "f64 \<Rightarrow> f64 \<Rightarrow> bool" where
  "f64_le (Infinite b) y = (\<not> b \<or> y = Infinite True)"
| "f64_le (Fin p) (Fin q) = (p \<le> q)"
| "f64_le (Fin p) (Infinite b) = b"
| "f64_le _ _ = False"

definition sql_max_real :: "f64 \<Rightarrow> f64 \<Rightarrow> f64" where
  "sql_max_real a b = (if f64_le a b then b else a)"

definition upsert_tier :: "Tier \<Rightarrow> Tier \<Rightarrow> Tier" where
  "upsert_tier old new =
     (if new = Long then Long
      else if old = Long then Long
      else if new = Mid then Mid
      else old)"

definition upsert_expires :: "'a Memory_scheme \<Rightarrow> Memory \<Rightarrow> str option" where
  "upsert_expires old new =
     (if m_tier new = Long \<or> m_tier old = Long then None
      else case m_expires_at new of Some e \<Rightarrow> Some e | None \<Rightarrow> m_expires_at old)"

definition keep_agent_id :: "json \<Rightarrow> json \<Rightarrow> json" where
  "keep_agent_id old md =
     (case sql_json_extract old ''agent_id'' of
        Some a \<Rightarrow> sql_json_set md ''agent_id'' a
      | None \<Rightarrow> md)"

text \<open>The \<open>DO UPDATE SET\<close> of \<open>insert\<close>.\<close>

definition merge_insert :: "MemRow \<Rightarrow> Memory \<Rightarrow> MemRow" where
  "merge_insert old new =
     old\<lparr>m_content := m_content new,
         m_tags := m_tags new,
         m_priority := max (m_priority old) (m_priority new),
         m_confidence := sql_max_real (m_confidence old) (m_confidence new),
         m_source := m_source new,
         m_tier := upsert_tier (m_tier old) (m_tier new),
         m_updated_at := m_updated_at new,
         m_expires_at := upsert_expires old new,
         m_metadata := keep_agent_id (m_metadata old) (m_metadata new)\<rparr>"

text \<open>
  \<open>INSERT .. ON CONFLICT(title, namespace) DO UPDATE .. RETURNING id\<close>. A NaN binds as NULL and
  violates NOT NULL; without a conflict on the target a duplicate id violates the primary key.
\<close>

definition sql_upsert :: "(MemRow \<Rightarrow> Memory \<Rightarrow> MemRow) \<Rightarrow> Db \<Rightarrow> Memory \<Rightarrow> str db_result" where
  "sql_upsert merge db mem =
     (if m_confidence mem = NaN then (Inl ConstraintViolation, db)
      else case sql_row (\<lambda>r. m_title r = m_title mem \<and> m_namespace r = m_namespace mem) (db_memories db) of
          Some old \<Rightarrow>
            (Inr (m_id old),
             db\<lparr>db_memories := sql_update
                 (\<lambda>r. m_title r = m_title mem \<and> m_namespace r = m_namespace mem)
                 (\<lambda>r. merge r mem) (db_memories db)\<rparr>)
        | None \<Rightarrow>
            if sql_row (\<lambda>r. m_id r = m_id mem) (db_memories db) \<noteq> None
            then (Inl ConstraintViolation, db)
            else (Inr (m_id mem), db\<lparr>db_memories := db_memories db @ [row_of mem]\<rparr>))"

definition insert_mem :: "Db \<Rightarrow> Memory \<Rightarrow> str db_result" where
  "insert_mem db mem = sql_upsert merge_insert db mem"

subsection \<open>Lookup\<close>

definition get :: "Db \<Rightarrow> str \<Rightarrow> Memory option" where
  "get db i = map_option row_to_memory (sql_row (\<lambda>r. m_id r = i) (db_memories db))"

definition get_by_prefix :: "Db \<Rightarrow> str \<Rightarrow> DbError + Memory option" where
  "get_by_prefix db pre =
     (let pattern = like_escape pre @ ''%'';
          rows = map row_to_memory (filter (\<lambda>r. sql_like (m_id r) pattern) (db_memories db))
      in case rows of
           [] \<Rightarrow> Inr None
         | [m] \<Rightarrow> Inr (Some m)
         | _ \<Rightarrow> Inl (AmbiguousPrefix pre (map m_id rows)))"

definition resolve_id :: "Db \<Rightarrow> str \<Rightarrow> DbError + Memory option" where
  "resolve_id db i = (case get db i of Some m \<Rightarrow> Inr (Some m) | None \<Rightarrow> get_by_prefix db i)"

definition find_by_title_namespace :: "Db \<Rightarrow> str \<Rightarrow> str \<Rightarrow> str option" where
  "find_by_title_namespace db title namespace =
     map_option m_id (sql_row (\<lambda>r. m_title r = title \<and> m_namespace r = namespace) (db_memories db))"

definition MAX_VERSION_SUFFIX :: nat where "MAX_VERSION_SUFFIX = 1024"

definition version_candidate :: "str \<Rightarrow> nat \<Rightarrow> str" where
  "version_candidate base_title n = base_title @ '' ('' @ show_nat n @ '')''"

definition next_versioned_title :: "Db \<Rightarrow> str \<Rightarrow> str \<Rightarrow> DbError + str" where
  "next_versioned_title db base_title namespace =
     (if find_by_title_namespace db base_title namespace = None then Inr base_title
      else case find (\<lambda>n. find_by_title_namespace db (version_candidate base_title n) namespace = None)
             [2..<Suc MAX_VERSION_SUFFIX] of
          Some n \<Rightarrow> Inr (version_candidate base_title n)
        | None \<Rightarrow> Inl (NoFreeTitle base_title namespace))"

subsection \<open>Touch, update, delete\<close>

definition touch_access :: "str \<Rightarrow> str \<Rightarrow> str \<Rightarrow> MemRow \<Rightarrow> MemRow" where
  "touch_access now short_expires mid_expires r =
     r\<lparr>m_access_count := min (m_access_count r + 1) 1000000,
       m_last_accessed_at := Some now,
       m_expires_at :=
         (if m_tier r = Long then m_expires_at r
          else if m_tier r = Short \<and> m_expires_at r \<noteq> None then Some short_expires
          else if m_tier r = Mid \<and> m_expires_at r \<noteq> None then Some mid_expires
          else m_expires_at r)\<rparr>"

definition touch_promote :: "str \<Rightarrow> MemRow \<Rightarrow> MemRow" where
  "touch_promote now r = r\<lparr>m_tier := Long, m_expires_at := None, m_updated_at := now\<rparr>"

definition touch_priority :: "MemRow \<Rightarrow> MemRow" where
  "touch_priority r = r\<lparr>m_priority := min (m_priority r + 1) 10\<rparr>"

definition touch :: "(str \<Rightarrow> int \<Rightarrow> str) \<Rightarrow> str \<Rightarrow> Db \<Rightarrow> str \<Rightarrow> int \<Rightarrow> int \<Rightarrow> Db" where
  "touch add_secs now db i short_extend mid_extend =
     (let t1 = sql_update (\<lambda>r. m_id r = i)
                 (touch_access now (add_secs now short_extend) (add_secs now mid_extend)) (db_memories db);
          t2 = sql_update (\<lambda>r. m_id r = i \<and> m_tier r = Mid \<and> m_access_count r \<ge> PROMOTION_THRESHOLD)
                 (touch_promote now) t1;
          t3 = sql_update (\<lambda>r. m_id r = i \<and> m_access_count r > 0 \<and> m_access_count r mod 10 = 0
                            \<and> m_priority r < 10) touch_priority t2
      in db\<lparr>db_memories := t3\<rparr>)"

definition effective_tier :: "Tier option \<Rightarrow> Tier \<Rightarrow> Tier" where
  "effective_tier requested existing =
     (case requested of
        None \<Rightarrow> existing
      | Some t \<Rightarrow>
          (case (existing, t) of
             (Long, _) \<Rightarrow> Long
           | (Mid, Short) \<Rightarrow> Mid
           | (_, r) \<Rightarrow> r))"

definition update_expires :: "str option \<Rightarrow> str option \<Rightarrow> str option" where
  "update_expires requested existing =
     (case requested of
        Some v \<Rightarrow> if v = '''' \<or> v = ''null'' then None else Some v
      | None \<Rightarrow> existing)"

definition update :: "str \<Rightarrow> Db \<Rightarrow> str \<Rightarrow> UpdateMemory \<Rightarrow> (bool \<times> bool) db_result" where
  "update now db i u =
     (case get db i of
        None \<Rightarrow> (Inr (False, False), db)
      | Some existing \<Rightarrow>
          let new_title = (case u_title u of Some t \<Rightarrow> t | None \<Rightarrow> m_title existing);
              new_content = (case u_content u of Some c \<Rightarrow> c | None \<Rightarrow> m_content existing);
              content_changed = (new_title \<noteq> m_title existing \<or> new_content \<noteq> m_content existing);
              tier = effective_tier (u_tier u) (m_tier existing);
              namespace = (case u_namespace u of Some n \<Rightarrow> n | None \<Rightarrow> m_namespace existing);
              confidence = (case u_confidence u of Some c \<Rightarrow> c | None \<Rightarrow> m_confidence existing);
              other = sql_row (\<lambda>r. m_title r = new_title \<and> m_namespace r = namespace \<and> m_id r \<noteq> i)
                        (db_memories db)
          in if confidence = NaN \<or> other \<noteq> None
             then (Inl (case other of
                          Some r \<Rightarrow> TitleExists new_title namespace (m_id r)
                        | None \<Rightarrow> ConstraintViolation), db)
             else (Inr (True, content_changed),
                   db\<lparr>db_memories := sql_update (\<lambda>r. m_id r = i)
                     (\<lambda>r. r\<lparr>m_tier := tier,
                            m_namespace := namespace,
                            m_title := new_title,
                            m_content := new_content,
                            m_tags := (case u_tags u of Some t \<Rightarrow> t | None \<Rightarrow> m_tags existing),
                            m_priority := (case u_priority u of Some p \<Rightarrow> p | None \<Rightarrow> m_priority existing),
                            m_confidence := confidence,
                            m_updated_at := now,
                            m_expires_at := update_expires (u_expires_at u) (m_expires_at existing),
                            m_metadata := (case u_metadata u of Some m \<Rightarrow> m | None \<Rightarrow> m_metadata existing)\<rparr>)
                     (db_memories db)\<rparr>))"

definition delete :: "Db \<Rightarrow> str \<Rightarrow> bool \<times> Db" where
  "delete db i =
     (let db' = db\<lparr>db_namespace_meta := sql_delete (\<lambda>n. nm_standard_id n = i) (db_namespace_meta db)\<rparr>
      in (sql_count (\<lambda>r. m_id r = i) (db_memories db') > 0, delete_memories (\<lambda>r. m_id r = i) db'))"

section \<open>Invariant\<close>

definition title_key :: "MemRow \<Rightarrow> str \<times> str" where
  "title_key r = (m_title r, m_namespace r)"

definition link_key :: "'a MemoryLink_scheme \<Rightarrow> str \<times> str \<times> str" where
  "link_key l = (l_source_id l, l_target_id l, l_relation l)"

definition sync_key :: "SyncRow \<Rightarrow> str \<times> str" where
  "sync_key r = (sy_agent_id r, sy_peer_id r)"

definition mem_ids :: "Db \<Rightarrow> str set" where
  "mem_ids db = m_id ` set (db_memories db)"

text \<open>
  Primary keys, the unique index on (title, namespace) and the foreign keys of the links.
\<close>

definition memories_ok :: "MemRow list \<Rightarrow> bool" where
  "memories_ok t = (unique_key m_id t \<and> unique_key title_key t)"

definition links_ok :: "Db \<Rightarrow> bool" where
  "links_ok db = (unique_key link_key (db_links db)
     \<and> (\<forall>l \<in> set (db_links db). l_source_id l \<in> mem_ids db \<and> l_target_id l \<in> mem_ids db))"

definition db_ok :: "Db \<Rightarrow> bool" where
  "db_ok db = (memories_ok (db_memories db) \<and> links_ok db
     \<and> unique_key m_id (db_archived db)
     \<and> unique_key nm_namespace (db_namespace_meta db)
     \<and> unique_key pa_id (db_pending db)
     \<and> unique_key sync_key (db_sync db))"

lemma db_ok_empty: "db_ok empty_db"
  by (simp add: db_ok_def empty_db_def memories_ok_def links_ok_def)

text \<open>Changing the memories table only: the ids must stay.\<close>

lemma db_ok_memories:
  assumes "db_ok db" and "memories_ok t" and "m_id ` set (db_memories db) \<subseteq> m_id ` set t"
  shows "db_ok (db\<lparr>db_memories := t\<rparr>)"
  using assms by (auto simp: db_ok_def links_ok_def mem_ids_def)

lemma image_split: "x \<in> f ` S \<Longrightarrow> x \<notin> f ` {x \<in> S. P x} \<Longrightarrow> x \<in> f ` {x \<in> S. \<not> P x}"
  by auto

lemma db_ok_delete_memories: "db_ok db \<Longrightarrow> db_ok (delete_memories P db)"
  by (auto simp: db_ok_def memories_ok_def links_ok_def delete_memories_def Let_def mem_ids_def
      unique_key_delete set_sql_delete intro!: image_split)

lemma mem_ids_delete_memories:
  "mem_ids (delete_memories P db) = m_id ` {r \<in> set (db_memories db). \<not> P r}"
  by (simp add: mem_ids_def delete_memories_def Let_def set_sql_delete)

lemma delete_memories_fields [simp]:
  "db_memories (delete_memories P db) = sql_delete P (db_memories db)"
  "db_archived (delete_memories P db) = db_archived db"
  "db_namespace_meta (delete_memories P db) = db_namespace_meta db"
  "db_pending (delete_memories P db) = db_pending db"
  "db_sync (delete_memories P db) = db_sync db"
  by (simp_all add: delete_memories_def Let_def)

lemma get_id: "get db i = Some m \<Longrightarrow> m_id m = i"
  by (auto simp: get_def row_to_memory_def dest: sql_row_SomeD)

lemma get_mem_ids: "(get db i = None) = (i \<notin> mem_ids db)"
  by (auto simp: get_def mem_ids_def sql_row_None)

lemma sql_row_title:
  "sql_row (\<lambda>r. m_title r = a \<and> m_namespace r = b) t = sql_row (\<lambda>r. title_key r = (a, b)) t"
  by (simp add: title_key_def)

lemma sql_update_title:
  "sql_update (\<lambda>r. m_title r = a \<and> m_namespace r = b) f t = sql_update (\<lambda>r. title_key r = (a, b)) f t"
  by (simp add: title_key_def)

section \<open>The upsert contract\<close>

text \<open>
  What \<open>insert\<close> and the federation's \<open>insert_if_newer\<close> promise of an \<open>ON CONFLICT .. DO UPDATE\<close>: the row
  keeps its identity and its author, the tier never drops, the priority never drops and a long-term
  memory has no expiry.
\<close>

locale upsert_merge =
  fixes merge :: "MemRow \<Rightarrow> Memory \<Rightarrow> MemRow"
  assumes merge_id: "m_id (merge old new) = m_id old"
    and merge_key: "title_key (merge old new) = title_key old"
    and merge_created: "m_created_at (merge old new) = m_created_at old"
    and merge_tier: "tier_rank (m_tier (merge old new)) = max (tier_rank (m_tier old)) (tier_rank (m_tier new))"
    and merge_priority: "m_priority (merge old new) = max (m_priority old) (m_priority new)"
    and merge_long: "m_tier (merge old new) = Long \<Longrightarrow> m_expires_at (merge old new) = None"
    and merge_agent: "sql_json_extract (m_metadata old) ''agent_id'' = Some a \<Longrightarrow>
      is_object (m_metadata new) \<Longrightarrow>
      sql_json_extract (m_metadata (merge old new)) ''agent_id'' = Some a"
begin

lemma merge_id_fun: "key_preserving m_id (\<lambda>r. merge r new)"
  by unfold_locales (rule merge_id)

lemma merge_key_fun: "key_preserving title_key (\<lambda>r. merge r new)"
  by unfold_locales (rule merge_key)

lemma upsert_ok: "db_ok db \<Longrightarrow> db_ok (snd (sql_upsert merge db mem))"
proof -
  assume ok: "db_ok db"
  show ?thesis
  proof (cases "m_confidence mem = NaN")
    case False
    let ?P = "\<lambda>r. m_title r = m_title mem \<and> m_namespace r = m_namespace mem"
    show ?thesis
    proof (cases "sql_row ?P (db_memories db)")
      case None
      then have new: "title_key (row_of mem) \<notin> set (map title_key (db_memories db))"
        by (auto simp: sql_row_None title_key_def row_of_def)
      show ?thesis
      proof (cases "sql_row (\<lambda>r. m_id r = m_id mem) (db_memories db)")
        case None
        then have "m_id (row_of mem) \<notin> set (map m_id (db_memories db))"
          by (auto simp: sql_row_None row_of_def)
        with new ok have "memories_ok (db_memories db @ [row_of mem])"
          by (simp add: memories_ok_def unique_key_snoc db_ok_def)
        with ok False None \<open>sql_row ?P (db_memories db) = None\<close> show ?thesis
          by (auto simp: sql_upsert_def intro!: db_ok_memories)
      qed (use ok False None in \<open>simp add: sql_upsert_def\<close>)
    next
      case (Some old)
      let ?t = "sql_update ?P (\<lambda>r. merge r mem) (db_memories db)"
      have "memories_ok ?t"
        using ok key_preserving.unique_update [OF merge_id_fun] key_preserving.unique_update [OF merge_key_fun]
        by (simp add: memories_ok_def db_ok_def)
      moreover have "m_id ` set ?t = m_id ` set (db_memories db)"
        using key_preserving.keys_update [OF merge_id_fun, of ?P mem "db_memories db"]
        by (metis set_map)
      ultimately show ?thesis using ok False Some by (simp add: sql_upsert_def db_ok_memories)
    qed
  qed (use ok in \<open>simp add: sql_upsert_def\<close>)
qed

lemma upsert_row:
  assumes "sql_row (\<lambda>r. m_title r = m_title mem \<and> m_namespace r = m_namespace mem) (db_memories db) = Some old"
    and "m_confidence mem \<noteq> NaN"
  shows "fst (sql_upsert merge db mem) = Inr (m_id old)"
    and "sql_row (\<lambda>r. title_key r = (m_title mem, m_namespace mem)) (db_memories (snd (sql_upsert merge db mem)))
      = Some (merge old mem)"
  using assms key_preserving.row_update_key [OF merge_key_fun, of "(m_title mem, m_namespace mem)" mem]
  by (simp_all add: sql_upsert_def sql_row_title sql_update_title)

lemma upsert_other:
  assumes "title_key r \<noteq> (m_title mem, m_namespace mem)" and "r \<in> set (db_memories db)"
  shows "r \<in> set (db_memories (snd (sql_upsert merge db mem)))"
  using assms by (auto simp: sql_upsert_def sql_update_def title_key_def split: option.splits)

lemma upsert_ids: "mem_ids db \<subseteq> mem_ids (snd (sql_upsert merge db mem))"
proof -
  have "m_id ` set (sql_update P (\<lambda>r. merge r mem) t) = m_id ` set t" for P t
    using key_preserving.keys_update [OF merge_id_fun, of P mem t] by (metis set_map)
  then show ?thesis by (auto simp: sql_upsert_def mem_ids_def split: option.split)
qed

text \<open>After a successful upsert the row of that title is found again, with the returned id.\<close>

lemma upsert_finds:
  assumes "fst (sql_upsert merge db mem) = Inr i"
  shows "\<exists>r. sql_row (\<lambda>r. title_key r = (m_title mem, m_namespace mem))
      (db_memories (snd (sql_upsert merge db mem))) = Some r \<and> m_id r = i
    \<and> (r = row_of mem \<and> i = m_id mem
       \<or> (\<exists>old \<in> set (db_memories db). title_key old = (m_title mem, m_namespace mem)
            \<and> m_id old = i \<and> r = merge old mem))"
proof (cases "sql_row (\<lambda>r. m_title r = m_title mem \<and> m_namespace r = m_namespace mem) (db_memories db)")
  case None
  with assms show ?thesis
    by (auto simp: sql_upsert_def sql_row_title split: if_splits)
      (auto simp: sql_row_def find_append title_key_def row_of_def)
next
  case (Some old)
  with assms have nn: "m_confidence mem \<noteq> NaN" by (auto simp: sql_upsert_def)
  from Some have "old \<in> set (db_memories db)" "title_key old = (m_title mem, m_namespace mem)"
    by (auto simp: title_key_def dest: sql_row_SomeD)
  with upsert_row [OF Some nn] assms merge_id show ?thesis by auto
qed

lemma upsert_other_tables [simp]:
  "db_links (snd (sql_upsert merge db mem)) = db_links db"
  "db_archived (snd (sql_upsert merge db mem)) = db_archived db"
  "db_namespace_meta (snd (sql_upsert merge db mem)) = db_namespace_meta db"
  "db_pending (snd (sql_upsert merge db mem)) = db_pending db"
  "db_sync (snd (sql_upsert merge db mem)) = db_sync db"
  by (auto simp: sql_upsert_def split: option.split)

lemma upsert_error_unchanged: "fst (sql_upsert merge db mem) = Inl e \<Longrightarrow> snd (sql_upsert merge db mem) = db"
  by (auto simp: sql_upsert_def split: option.splits if_splits)

end

lemma upsert_tier_rank: "tier_rank (upsert_tier old new) = max (tier_rank old) (tier_rank new)"
  by (cases old; cases new) (simp_all add: upsert_tier_def)

lemma upsert_tier_Long: "upsert_tier old new = Long \<longleftrightarrow> old = Long \<or> new = Long"
  by (cases old; cases new) (simp_all add: upsert_tier_def)

lemma extract_not_null: "sql_json_extract m k = Some a \<Longrightarrow> a \<noteq> JNull \<and> (\<forall>b. a \<noteq> JBool b)"
  by (auto simp: sql_json_extract_def split: option.splits json.splits)

lemma keep_agent_id_extract:
  assumes "sql_json_extract old ''agent_id'' = Some a" and "is_object md"
  shows "sql_json_extract (keep_agent_id old md) ''agent_id'' = Some a"
  using assms extract_not_null [OF assms(1)]
  by (cases md; cases a) (auto simp: keep_agent_id_def sql_json_set_def is_object_def
      sql_json_extract_def [of "JObj _"] json_get_def)

interpretation insert_merge: upsert_merge merge_insert
  by unfold_locales
    (auto simp: merge_insert_def title_key_def upsert_tier_rank upsert_tier_Long upsert_expires_def
      keep_agent_id_extract)

lemma insert_mem_ok: "db_ok db \<Longrightarrow> db_ok (snd (insert_mem db mem))"
  unfolding insert_mem_def by (rule insert_merge.upsert_ok)

section \<open>Lookup lemmas\<close>

lemma get_unique: "memories_ok (db_memories db) \<Longrightarrow> r \<in> set (db_memories db) \<Longrightarrow> get db (m_id r) = Some (row_to_memory r)"
  by (simp add: get_def memories_ok_def sql_row_unique)

lemma get_SomeD: "get db i = Some m \<Longrightarrow> \<exists>r \<in> set (db_memories db). m_id r = i \<and> m = row_to_memory r"
  by (auto simp: get_def dest: sql_row_SomeD)

lemma row_to_memory_sel [simp]:
  "m_id (row_to_memory r) = m_id r" "m_tier (row_to_memory r) = m_tier r"
  "m_namespace (row_to_memory r) = m_namespace r" "m_title (row_to_memory r) = m_title r"
  "m_content (row_to_memory r) = m_content r" "m_tags (row_to_memory r) = m_tags r"
  "m_priority (row_to_memory r) = m_priority r" "m_confidence (row_to_memory r) = m_confidence r"
  "m_source (row_to_memory r) = m_source r" "m_access_count (row_to_memory r) = m_access_count r"
  "m_created_at (row_to_memory r) = m_created_at r" "m_updated_at (row_to_memory r) = m_updated_at r"
  "m_last_accessed_at (row_to_memory r) = m_last_accessed_at r"
  "m_expires_at (row_to_memory r) = m_expires_at r" "m_metadata (row_to_memory r) = m_metadata r"
  by (simp_all add: row_to_memory_def)

lemma ex_get_iff:
  assumes "memories_ok (db_memories db)"
  shows "(\<exists>x \<in> set (db_memories db). Q (row_to_memory x)) \<longleftrightarrow> (\<exists>j m. get db j = Some m \<and> Q m)"
proof
  assume "\<exists>x \<in> set (db_memories db). Q (row_to_memory x)"
  then show "\<exists>j m. get db j = Some m \<and> Q m" using get_unique [OF assms] by blast
qed (auto dest: get_SomeD)

lemma get_other:
  assumes "\<And>r. r \<in> set t \<Longrightarrow> m_id r = j \<Longrightarrow> r \<in> set (db_memories db)"
    and "\<And>r. r \<in> set (db_memories db) \<Longrightarrow> m_id r = j \<Longrightarrow> r \<in> set t"
    and "memories_ok t" "memories_ok (db_memories db)"
  shows "get (db\<lparr>db_memories := t\<rparr>) j = get db j"
proof (cases "get db j")
  case None
  then have "\<forall>r \<in> set t. m_id r \<noteq> j" using assms(1) by (auto simp: get_mem_ids mem_ids_def)
  then have "sql_row (\<lambda>r. m_id r = j) t = None" by (simp add: sql_row_None)
  with None show ?thesis by (simp add: get_def)
next
  case (Some m)
  then obtain r where r: "r \<in> set (db_memories db)" "m_id r = j" "m = row_to_memory r"
    by (auto dest: get_SomeD)
  with assms(2) get_unique [of "db\<lparr>db_memories := t\<rparr>" r] assms(3) Some show ?thesis by simp
qed

lemma insert_get_other:
  assumes ok: "db_ok db" and res: "insert_mem db mem = (Inr i, db')" and "j \<noteq> i"
  shows "get db' j = get db j"
proof -
  let ?P = "\<lambda>r. m_title r = m_title mem \<and> m_namespace r = m_namespace mem"
  have mo: "memories_ok (db_memories db)" using ok by (simp add: db_ok_def)
  show ?thesis
  proof (cases "sql_row ?P (db_memories db)")
    case None
    then have "i = m_id mem" "db' = db\<lparr>db_memories := db_memories db @ [row_of mem]\<rparr>"
      using res by (auto simp: insert_mem_def sql_upsert_def split: if_splits)
    with \<open>j \<noteq> i\<close> show ?thesis
      by (auto simp: get_def sql_row_def find_append row_of_def split: option.split)
  next
    case (Some old)
    then have i: "i = m_id old" and old: "old \<in> set (db_memories db)" "?P old"
      and db': "db' = db\<lparr>db_memories := sql_update ?P (\<lambda>r. merge_insert r mem) (db_memories db)\<rparr>"
      using res by (auto simp: insert_mem_def sql_upsert_def split: if_splits dest: sql_row_SomeD)
    have kp: "key_preserving m_id (\<lambda>r. merge_insert r mem)"
      by (rule insert_merge.merge_id_fun)
    have "\<not> ?P r" if "r \<in> set (db_memories db)" "m_id r = j" for r
    proof
      assume "?P r"
      with old mo that have "r = old"
        by (auto simp: memories_ok_def title_key_def intro: unique_key_inj [of title_key "db_memories db"])
      with that i \<open>j \<noteq> i\<close> show False by simp
    qed
    then show ?thesis
      using key_preserving.row_update_other [OF kp, of "db_memories db" j ?P] by (simp add: get_def db')
  qed
qed

section \<open>Touch, update and delete\<close>

interpretation touch_access_id: key_preserving m_id "touch_access n s m" for n s m
  by unfold_locales (simp add: touch_access_def)

interpretation touch_access_title: key_preserving title_key "touch_access n s m" for n s m
  by unfold_locales (simp add: touch_access_def title_key_def)

interpretation touch_promote_id: key_preserving m_id "touch_promote n" for n
  by unfold_locales (simp add: touch_promote_def)

interpretation touch_promote_title: key_preserving title_key "touch_promote n" for n
  by unfold_locales (simp add: touch_promote_def title_key_def)

interpretation touch_priority_id: key_preserving m_id touch_priority
  by unfold_locales (simp add: touch_priority_def)

interpretation touch_priority_title: key_preserving title_key touch_priority
  by unfold_locales (simp add: touch_priority_def title_key_def)

lemmas touch_keys = touch_access_id.keys_update touch_promote_id.keys_update touch_priority_id.keys_update
  touch_access_title.keys_update touch_promote_title.keys_update touch_priority_title.keys_update

lemma touch_ids [simp]:
  "map m_id (db_memories (touch ad n db i s m)) = map m_id (db_memories db)"
  "map title_key (db_memories (touch ad n db i s m)) = map title_key (db_memories db)"
  by (simp_all add: touch_def Let_def touch_keys)

lemma touch_ok: "db_ok db \<Longrightarrow> db_ok (touch ad n db i s m)"
proof -
  assume ok: "db_ok db"
  let ?t = "db_memories (touch ad n db i s m)"
  have "memories_ok ?t" using ok by (simp add: memories_ok_def unique_key_def db_ok_def)
  moreover have "m_id ` set ?t = m_id ` set (db_memories db)" by (metis set_map touch_ids(1))
  moreover have "touch ad n db i s m = db\<lparr>db_memories := ?t\<rparr>" by (simp add: touch_def Let_def)
  ultimately show ?thesis using db_ok_memories [OF ok] by (metis order_refl)
qed

text \<open>What a touch makes of one row.\<close>

definition touched :: "str \<Rightarrow> str \<Rightarrow> str \<Rightarrow> MemRow \<Rightarrow> MemRow" where
  "touched n s m r =
     (let r1 = touch_access n s m r;
          r2 = (if m_tier r1 = Mid \<and> m_access_count r1 \<ge> PROMOTION_THRESHOLD then touch_promote n r1 else r1)
      in if m_access_count r2 > 0 \<and> m_access_count r2 mod 10 = 0 \<and> m_priority r2 < 10
         then touch_priority r2 else r2)"

lemma touch_row:
  "sql_row (\<lambda>r. m_id r = j) (db_memories (touch ad n db i s m)) =
     map_option (\<lambda>r. if j = i then touched n (ad n s) (ad n m) r else r)
       (sql_row (\<lambda>r. m_id r = j) (db_memories db))"
proof (cases "sql_row (\<lambda>r. m_id r = j) (db_memories db)")
  case None
  then show ?thesis
    by (simp add: touch_def Let_def touch_priority_id.row_update_any touch_promote_id.row_update_any
        touch_access_id.row_update_any)
next
  case (Some r)
  then have "m_id r = j" by (auto dest: sql_row_SomeD)
  with Some show ?thesis
    by (auto simp: touch_def Let_def touch_priority_id.row_update_any touch_promote_id.row_update_any
        touch_access_id.row_update_any touched_def touch_access_id.key_upd touch_promote_id.key_upd)
qed

lemma delete_ok: "db_ok db \<Longrightarrow> db_ok (snd (delete db i))"
proof -
  assume ok: "db_ok db"
  then have "db_ok (db\<lparr>db_namespace_meta := sql_delete (\<lambda>n. nm_standard_id n = i) (db_namespace_meta db)\<rparr>)"
    by (simp add: db_ok_def links_ok_def mem_ids_def unique_key_delete)
  then show ?thesis by (simp add: delete_def Let_def db_ok_delete_memories)
qed

text \<open>The row \<open>update\<close> writes, and its two outcomes for an existing memory.\<close>

definition updated :: "str \<Rightarrow> UpdateMemory \<Rightarrow> MemRow \<Rightarrow> MemRow" where
  "updated now u r =
     r\<lparr>m_tier := effective_tier (u_tier u) (m_tier r),
       m_namespace := (case u_namespace u of Some n \<Rightarrow> n | None \<Rightarrow> m_namespace r),
       m_title := (case u_title u of Some t \<Rightarrow> t | None \<Rightarrow> m_title r),
       m_content := (case u_content u of Some c \<Rightarrow> c | None \<Rightarrow> m_content r),
       m_tags := (case u_tags u of Some t \<Rightarrow> t | None \<Rightarrow> m_tags r),
       m_priority := (case u_priority u of Some p \<Rightarrow> p | None \<Rightarrow> m_priority r),
       m_confidence := (case u_confidence u of Some c \<Rightarrow> c | None \<Rightarrow> m_confidence r),
       m_updated_at := now,
       m_expires_at := update_expires (u_expires_at u) (m_expires_at r),
       m_metadata := (case u_metadata u of Some m \<Rightarrow> m | None \<Rightarrow> m_metadata r)\<rparr>"

interpretation updated_id: key_preserving m_id "updated now u" for now u
  by unfold_locales (simp add: updated_def)

definition update_refused :: "str \<Rightarrow> UpdateMemory \<Rightarrow> Db \<Rightarrow> MemRow \<Rightarrow> bool" where
  "update_refused now u db r = (m_confidence (updated now u r) = NaN
     \<or> (\<exists>x \<in> set (db_memories db). title_key x = title_key (updated now u r) \<and> m_id x \<noteq> m_id r))"

lemma sql_update_cong: "(\<And>r. r \<in> set t \<Longrightarrow> P r \<Longrightarrow> f r = g r) \<Longrightarrow> sql_update P f t = sql_update P g t"
  by (auto simp: sql_update_def)

lemma update_eq:
  assumes mo: "memories_ok (db_memories db)" and r: "r \<in> set (db_memories db)" "m_id r = i"
  shows "(update_refused now u db r \<longrightarrow> (\<exists>e. update now db i u = (Inl e, db)))
    \<and> (\<not> update_refused now u db r \<longrightarrow>
        (\<exists>c. update now db i u = (Inr (True, c),
           db\<lparr>db_memories := sql_update (\<lambda>x. m_id x = i) (updated now u) (db_memories db)\<rparr>)))"
proof -
  have g: "get db i = Some (row_to_memory r)" using get_unique [OF mo r(1)] r(2) by simp
  let ?T = "case u_title u of Some t \<Rightarrow> t | None \<Rightarrow> m_title r"
  let ?N = "case u_namespace u of Some n \<Rightarrow> n | None \<Rightarrow> m_namespace r"
  let ?C = "case u_confidence u of Some c \<Rightarrow> c | None \<Rightarrow> m_confidence r"
  let ?other = "sql_row (\<lambda>x. m_title x = ?T \<and> m_namespace x = ?N \<and> m_id x \<noteq> i) (db_memories db)"
  have ref: "update_refused now u db r \<longleftrightarrow> ?C = NaN \<or> ?other \<noteq> None"
    using sql_row_None [of "\<lambda>x. m_title x = ?T \<and> m_namespace x = ?N \<and> m_id x \<noteq> i" "db_memories db"]
    by (auto simp: update_refused_def updated_def title_key_def r(2))
  have only: "x = r" if "x \<in> set (db_memories db)" "m_id x = i" for x
    using that r mo by (auto simp: memories_ok_def intro: unique_key_inj [of m_id])
  let ?f = "\<lambda>x :: MemRow. x\<lparr>m_tier := effective_tier (u_tier u) (m_tier r), m_namespace := ?N, m_title := ?T,
      m_content := (case u_content u of Some c \<Rightarrow> c | None \<Rightarrow> m_content r),
      m_tags := (case u_tags u of Some t \<Rightarrow> t | None \<Rightarrow> m_tags r),
      m_priority := (case u_priority u of Some p \<Rightarrow> p | None \<Rightarrow> m_priority r), m_confidence := ?C,
      m_updated_at := now, m_expires_at := update_expires (u_expires_at u) (m_expires_at r),
      m_metadata := (case u_metadata u of Some m \<Rightarrow> m | None \<Rightarrow> m_metadata r)\<rparr>"
  have upd: "sql_update (\<lambda>x. m_id x = i) ?f (db_memories db)
      = sql_update (\<lambda>x. m_id x = i) (updated now u) (db_memories db)"
    by (rule sql_update_cong) (use only in \<open>auto simp: updated_def\<close>)
  show ?thesis
    unfolding update_def g option.case Let_def row_to_memory_sel upd ref by auto
qed

lemma update_ok:
  assumes ok: "db_ok db"
  shows "db_ok (snd (update now db i u))"
proof (cases "get db i")
  case None
  with ok show ?thesis by (simp add: update_def)
next
  case (Some m)
  then obtain r where r: "r \<in> set (db_memories db)" "m_id r = i" by (auto dest: get_SomeD)
  have mo: "memories_ok (db_memories db)" using ok by (simp add: db_ok_def)
  let ?t = "sql_update (\<lambda>x. m_id x = i) (updated now u) (db_memories db)"
  show ?thesis
  proof (cases "update_refused now u db r")
    case True
    then show ?thesis using update_eq [OF mo r, of now u] ok by auto
  next
    case False
    have ids: "map m_id ?t = map m_id (db_memories db)" by (rule updated_id.keys_update)
    have "unique_key title_key ?t"
    proof -
      have *: "title_key x \<noteq> title_key (updated now u r)" if "x \<in> set (db_memories db)" "m_id x \<noteq> i" for x
        using False that r by (auto simp: update_refused_def)
      have only: "x = r" if "x \<in> set (db_memories db)" "m_id x = i" for x
        using that r mo by (auto simp: memories_ok_def intro: unique_key_inj [of m_id])
      have "distinct (db_memories db)" "inj_on title_key (set (db_memories db))"
        using mo by (auto simp: memories_ok_def unique_key_def distinct_map)
      moreover have "distinct ?t" using mo ids by (metis distinct_map memories_ok_def unique_key_def)
      moreover have "inj_on title_key (set ?t)"
      proof (rule inj_onI)
        fix x y assume xy: "x \<in> set ?t" "y \<in> set ?t" "title_key x = title_key y"
        have mem: "z = updated now u r \<or> (z \<in> set (db_memories db) \<and> m_id z \<noteq> i)" if "z \<in> set ?t" for z
          using that only by (auto simp: sql_update_def split: if_splits)
        from mem [OF xy(1)] mem [OF xy(2)] xy(3) * calculation(2)
        show "x = y" by (metis inj_onD)
      qed
      ultimately show ?thesis by (simp add: unique_key_def distinct_map)
    qed
    moreover have "unique_key m_id ?t" using mo ids by (simp add: memories_ok_def unique_key_def)
    moreover have "m_id ` set ?t = m_id ` set (db_memories db)" using ids by (metis set_map)
    ultimately have "db_ok (db\<lparr>db_memories := ?t\<rparr>)" using ok by (intro db_ok_memories) (auto simp: memories_ok_def)
    then show ?thesis using update_eq [OF mo r, of now u] False by auto
  qed
qed

lemma effective_tier_rank:
  "tier_rank (effective_tier t old) = (case t of None \<Rightarrow> tier_rank old | Some n \<Rightarrow> max (tier_rank old) (tier_rank n))"
  by (cases t; cases old; cases "the t") (auto simp: effective_tier_def)

section \<open>Titles and prefixes\<close>

lemma find_by_title_None:
  "(find_by_title_namespace db t ns = None) = ((t, ns) \<notin> title_key ` set (db_memories db))"
  by (auto simp: find_by_title_namespace_def sql_row_None title_key_def)

lemma version_candidate_inj [simp]: "(version_candidate b m = version_candidate b n) = (m = n)"
  by (simp add: version_candidate_def)

lemma sql_like_id_prefix:
  assumes "CHR 0x5C \<notin> set p"
  shows "sql_like s (like_escape p @ ''%'') \<longleftrightarrow> prefix (to_ascii_lowercase p) (to_ascii_lowercase s)"
proof -
  have t: "like_tokens (like_escape p @ ''%'') = Some (map Lit p @ [AnySeq])"
    using like_tokens_escape [OF assms, of "''%''"] by simp
  have "sql_like s (like_escape p @ ''%'') \<longleftrightarrow>
      length p \<le> length s \<and> to_ascii_lowercase (take (length p) s) = to_ascii_lowercase p"
    unfolding sql_like_def t option.case like_toks_Lits using like_AnySeq_all by blast
  also have "\<dots> \<longleftrightarrow> prefix (to_ascii_lowercase p) (to_ascii_lowercase s)"
    unfolding to_ascii_lowercase_def take_map [symmetric]
    by (metis length_map take_is_prefix append_eq_conv_conj prefix_def prefix_length_le)
  finally show ?thesis .
qed

section \<open>Properties\<close>

text \<open>C26: A successful insert into a well-formed store keeps it well-formed and touches one row. A new
  (title, namespace) pair is stored as given under its own id; an existing one keeps its id,
  creation time and author, takes the new content, never drops in tier or priority, and loses its
  expiry once it is long-term.\<close>

theorem insert_contract:
  assumes ok: "db_ok db" and res: "insert_mem db mem = (Inr i, db')" and obj: "is_object (m_metadata mem)"
  shows "db_ok db' \<and> (\<forall>j. j \<noteq> i \<longrightarrow> get db' j = get db j)
    \<and> (find_by_title_namespace db (m_title mem) (m_namespace mem) = None \<longrightarrow>
         i = m_id mem \<and> get db' i = Some mem)
    \<and> (\<forall>k. find_by_title_namespace db (m_title mem) (m_namespace mem) = Some k \<longrightarrow>
         k = i \<and> (\<exists>old new. get db i = Some old \<and> get db' i = Some new
           \<and> m_content new = m_content mem \<and> m_title new = m_title mem \<and> m_namespace new = m_namespace mem
           \<and> m_created_at new = m_created_at old
           \<and> tier_rank (m_tier new) = max (tier_rank (m_tier old)) (tier_rank (m_tier mem))
           \<and> m_priority new = max (m_priority old) (m_priority mem)
           \<and> (m_tier new = Long \<longrightarrow> m_expires_at new = None)
           \<and> (\<forall>a. sql_json_extract (m_metadata old) ''agent_id'' = Some a \<longrightarrow>
                sql_json_extract (m_metadata new) ''agent_id'' = Some a)))"
proof (intro conjI impI allI)
  have up: "sql_upsert merge_insert db mem = (Inr i, db')" using res by (simp add: insert_mem_def)
  show ok': "db_ok db'" using insert_merge.upsert_ok [OF ok, of mem] by (simp add: up)
  then have mo': "memories_ok (db_memories db')" by (simp add: db_ok_def)
  show "get db' j = get db j" if "j \<noteq> i" for j using insert_get_other [OF ok res that] .
  obtain r where r: "r \<in> set (db_memories db')" "m_id r = i"
    and c: "r = row_of mem \<and> i = m_id mem \<or> (\<exists>old \<in> set (db_memories db).
        title_key old = (m_title mem, m_namespace mem) \<and> m_id old = i \<and> r = merge_insert old mem)"
    using insert_merge.upsert_finds [of db mem i] by (auto simp: up dest: sql_row_SomeD)
  have new: "get db' i = Some (row_to_memory r)" using get_unique [OF mo' r(1)] r(2) by simp
  {
    assume "find_by_title_namespace db (m_title mem) (m_namespace mem) = None"
    with c have *: "r = row_of mem \<and> i = m_id mem" by (force simp: find_by_title_None)
    then show "i = m_id mem" "get db' i = Some mem" using new by simp_all
  next
    fix k assume "find_by_title_namespace db (m_title mem) (m_namespace mem) = Some k"
    then obtain old where old: "sql_row (\<lambda>r. m_title r = m_title mem \<and> m_namespace r = m_namespace mem)
        (db_memories db) = Some old" "k = m_id old" by (auto simp: find_by_title_namespace_def)
    have nn: "m_confidence mem \<noteq> NaN" using up by (auto simp: sql_upsert_def)
    have k: "k = i" using insert_merge.upsert_row(1) [OF old(1) nn] old(2) by (simp add: up)
    have mem: "merge_insert old mem \<in> set (db_memories db')"
      using insert_merge.upsert_row(2) [OF old(1) nn] by (auto simp: up dest: sql_row_SomeD)
    have g': "get db' i = Some (row_to_memory (merge_insert old mem))"
      using get_unique [OF mo' mem] k old(2) by (simp add: insert_merge.merge_id)
    have g: "get db i = Some (row_to_memory old)"
      using get_unique [of db old] ok k old by (auto simp: db_ok_def dest: sql_row_SomeD)
    show "k = i" by (rule k)
    have "title_key old = (m_title mem, m_namespace mem)"
      using old(1) by (auto simp: title_key_def dest: sql_row_SomeD)
    then have "title_key (merge_insert old mem) = (m_title mem, m_namespace mem)"
      by (simp add: insert_merge.merge_key)
    then show "\<exists>old new. get db i = Some old \<and> get db' i = Some new
       \<and> m_content new = m_content mem \<and> m_title new = m_title mem \<and> m_namespace new = m_namespace mem
       \<and> m_created_at new = m_created_at old
       \<and> tier_rank (m_tier new) = max (tier_rank (m_tier old)) (tier_rank (m_tier mem))
       \<and> m_priority new = max (m_priority old) (m_priority mem)
       \<and> (m_tier new = Long \<longrightarrow> m_expires_at new = None)
       \<and> (\<forall>a. sql_json_extract (m_metadata old) ''agent_id'' = Some a \<longrightarrow>
            sql_json_extract (m_metadata new) ''agent_id'' = Some a)"
      using g g' insert_merge.merge_tier [of old mem] insert_merge.merge_priority [of old mem]
        insert_merge.merge_long [of old mem] insert_merge.merge_created [of old mem]
        insert_merge.merge_agent [OF _ obj, of old]
      by (auto simp: title_key_def) (simp add: merge_insert_def)
  }
qed

definition ex_note :: "str \<Rightarrow> str \<Rightarrow> Tier \<Rightarrow> str \<Rightarrow> Memory" where
  "ex_note i title tier agent =
     \<lparr>m_id = i, m_tier = tier, m_namespace = ''g'', m_title = title, m_content = i, m_tags = [],
      m_priority = 5, m_confidence = Fin 1, m_source = ''api'', m_access_count = 0,
      m_created_at = ''2026-01-01'', m_updated_at = ''2026-01-01'', m_last_accessed_at = None,
      m_expires_at = (if tier = Long then None else Some ''2026-02-01''),
      m_metadata = JObj [(''agent_id'', JStr agent)]\<rparr>"

definition ex_db :: Db where
  "ex_db = snd (insert_mem (snd (insert_mem empty_db (ex_note ''m1'' ''a'' Mid ''alice'')))
             (ex_note ''m2'' ''b'' Long ''bob''))"

lemma ex_db_ok: "db_ok ex_db"
  unfolding ex_db_def insert_mem_def
  by (rule insert_merge.upsert_ok, rule insert_merge.upsert_ok, rule db_ok_empty)

theorem insert_contract_witness:
  "let (r, db') = insert_mem ex_db (ex_note ''m3'' ''a'' Short ''eve'') in
   r = Inr ''m1'' \<and> (\<exists>new. get db' ''m1'' = Some new \<and> m_content new = ''m3'' \<and> m_tier new = Mid
     \<and> sql_json_extract (m_metadata new) ''agent_id'' = Some (JStr ''alice''))"
proof -
  obtain db' where res: "insert_mem ex_db (ex_note ''m3'' ''a'' Short ''eve'') = (Inr ''m1'', db')"
  proof -
    have "fst (insert_mem ex_db (ex_note ''m3'' ''a'' Short ''eve'')) = Inr ''m1''" by code_simp
    then show ?thesis using that by (metis prod.collapse)
  qed
  have g: "map_option m_tier (get ex_db ''m1'') = Some Mid"
    "map_option (\<lambda>m. sql_json_extract (m_metadata m) ''agent_id'') (get ex_db ''m1'') = Some (Some (JStr ''alice''))"
    by code_simp+
  have "is_object (m_metadata (ex_note ''m3'' ''a'' Short ''eve''))" by code_simp
  note c = insert_contract [OF ex_db_ok res this, THEN conjunct2, THEN conjunct2, THEN conjunct2,
      rule_format, of "''m1''"]
  have "find_by_title_namespace ex_db (m_title (ex_note ''m3'' ''a'' Short ''eve''))
      (m_namespace (ex_note ''m3'' ''a'' Short ''eve'')) = Some ''m1''" by code_simp
  from c [OF this] obtain old new where
    n: "get ex_db ''m1'' = Some old" "get db' ''m1'' = Some new" "m_content new = ''m3''"
      "tier_rank (m_tier new) = max (tier_rank (m_tier old)) 0"
      "\<forall>a. sql_json_extract (m_metadata old) ''agent_id'' = Some a \<longrightarrow>
         sql_json_extract (m_metadata new) ''agent_id'' = Some a"
    by (auto simp: ex_note_def)
  have "m_tier new = Mid" using n(1,4) g(1) by (cases "m_tier new") auto
  moreover have "sql_json_extract (m_metadata new) ''agent_id'' = Some (JStr ''alice'')"
    using n(1,5) g(2) by simp
  ultimately show ?thesis using n res by auto
qed

text \<open>What an update asks for: every requested field takes its new value, the tier only if it is higher, an empty expiry or
  the text \<open>null\<close> removes the expiry, and everything else stays.\<close>

definition patched :: "str \<Rightarrow> UpdateMemory \<Rightarrow> Memory \<Rightarrow> Memory" where
  "patched now u old =
     old\<lparr>m_tier := (case u_tier u of Some t \<Rightarrow> if tier_rank (m_tier old) < tier_rank t then t else m_tier old | None \<Rightarrow> m_tier old),
         m_namespace := (case u_namespace u of Some n \<Rightarrow> n | None \<Rightarrow> m_namespace old),
         m_title := (case u_title u of Some t \<Rightarrow> t | None \<Rightarrow> m_title old),
         m_content := (case u_content u of Some c \<Rightarrow> c | None \<Rightarrow> m_content old),
         m_tags := (case u_tags u of Some t \<Rightarrow> t | None \<Rightarrow> m_tags old),
         m_priority := (case u_priority u of Some p \<Rightarrow> p | None \<Rightarrow> m_priority old),
         m_confidence := (case u_confidence u of Some c \<Rightarrow> c | None \<Rightarrow> m_confidence old),
         m_updated_at := now,
         m_expires_at := (case u_expires_at u of Some v \<Rightarrow> if v \<in> {[], ''null''} then None else Some v | None \<Rightarrow> m_expires_at old),
         m_metadata := (case u_metadata u of Some m \<Rightarrow> m | None \<Rightarrow> m_metadata old)\<rparr>"

lemma updated_patched: "row_to_memory (updated now u r) = patched now u (row_to_memory r)"
proof -
  have "effective_tier (u_tier u) (m_tier r)
      = (case u_tier u of Some t \<Rightarrow> if tier_rank (m_tier r) < tier_rank t then t else m_tier r | None \<Rightarrow> m_tier r)"
    by (cases "u_tier u"; cases "m_tier r"; cases "the (u_tier u)") (auto simp: effective_tier_def)
  then show ?thesis
    by (auto simp: updated_def patched_def row_to_memory_def update_expires_def split: option.split)
qed

text \<open>C27: An update of an existing memory either changes exactly that memory, in exactly the requested fields and its time of
  update, never lowering its tier, or is refused with the store unchanged; it is refused exactly when another memory holds the
  new title and namespace or the confidence is not a number. Every other memory, every stored embedding and every other table
  keep their content, and the answer says whether title or content changed. The store stays well-formed.\<close>

theorem update_contract:
  assumes ok: "db_ok db" and old: "get db i = Some old"
  shows "db_ok (snd (update now db i u))
    \<and> (\<forall>c. fst (update now db i u) = Inr c \<longrightarrow>
        c = (True, m_title (patched now u old) \<noteq> m_title old \<or> m_content (patched now u old) \<noteq> m_content old)
        \<and> get (snd (update now db i u)) = (get db)(i \<mapsto> patched now u old)
        \<and> map (\<lambda>r. (m_id r, r_embedding r, r_embedding_dim r)) (db_memories (snd (update now db i u)))
            = map (\<lambda>r. (m_id r, r_embedding r, r_embedding_dim r)) (db_memories db)
        \<and> (snd (update now db i u))\<lparr>db_memories := db_memories db\<rparr> = db)
    \<and> (\<forall>e. fst (update now db i u) = Inl e \<longrightarrow> snd (update now db i u) = db)
    \<and> ((\<exists>e. fst (update now db i u) = Inl e) \<longleftrightarrow>
        m_confidence (patched now u old) = NaN
        \<or> (\<exists>j m. j \<noteq> i \<and> get db j = Some m \<and> m_title m = m_title (patched now u old)
             \<and> m_namespace m = m_namespace (patched now u old)))"
proof -
  have mo: "memories_ok (db_memories db)" using ok by (simp add: db_ok_def)
  obtain r where r: "r \<in> set (db_memories db)" "m_id r = i" "old = row_to_memory r"
    using get_SomeD [OF old] by blast
  have new: "patched now u old = row_to_memory (updated now u r)" by (simp add: updated_patched r(3))
  note eq = update_eq [OF mo r(1,2), of now u]
  have ref: "update_refused now u db r \<longleftrightarrow> m_confidence (patched now u old) = NaN
        \<or> (\<exists>j m. j \<noteq> i \<and> get db j = Some m \<and> m_title m = m_title (patched now u old)
             \<and> m_namespace m = m_namespace (patched now u old))"
    unfolding new row_to_memory_sel
    using ex_get_iff [OF mo, of "\<lambda>m. (m_title m, m_namespace m) = title_key (updated now u r) \<and> m_id m \<noteq> i"]
    by (auto simp: update_refused_def title_key_def r(2) dest: get_id) (metis get_id)
  have row: "sql_row (\<lambda>x. m_id x = i) (db_memories db) = Some r"
    using mo r by (auto simp: memories_ok_def dest: sql_row_unique)
  define db1 where "db1 = db\<lparr>db_memories := sql_update (\<lambda>x. m_id x = i) (updated now u) (db_memories db)\<rparr>"
  have "get db1 j = ((get db)(i \<mapsto> patched now u old)) j" for j
    using updated_id.row_update_any [of j "\<lambda>x. m_id x = i" now u "db_memories db"] row r(2)
    by (cases "sql_row (\<lambda>r. m_id r = j) (db_memories db)") (auto simp: db1_def get_def new dest: sql_row_SomeD)
  then have gets: "get db1 = (get db)(i \<mapsto> patched now u old)" by (rule ext)
  have emb: "map (\<lambda>r. (m_id r, r_embedding r, r_embedding_dim r)) (db_memories db1)
      = map (\<lambda>r. (m_id r, r_embedding r, r_embedding_dim r)) (db_memories db)"
    by (auto simp: db1_def sql_update_def updated_def)
  have changed: "c = (True, m_title (patched now u old) \<noteq> m_title old \<or> m_content (patched now u old) \<noteq> m_content old)"
    if "fst (update now db i u) = Inr c" for c
    using that old by (auto simp: update_def Let_def patched_def split: if_splits option.splits)
  show ?thesis
    using update_ok [OF ok, of now i u] eq ref gets emb changed
    by (cases "update_refused now u db r") (auto simp: db1_def)
qed

theorem update_contract_witness:
  "let u = \<lparr>u_title = Some ''b'', u_content = None, u_tier = Some Short, u_namespace = None, u_tags = None,
            u_priority = None, u_confidence = None, u_expires_at = None, u_metadata = None\<rparr> in
   (\<exists>e. fst (update ''2026-01-02'' ex_db ''m1'' u) = Inl e) \<and> snd (update ''2026-01-02'' ex_db ''m1'' u) = ex_db"
proof -
  let ?u = "\<lparr>u_title = Some ''b'', u_content = None, u_tier = Some Short, u_namespace = None, u_tags = None,
            u_priority = None, u_confidence = None, u_expires_at = None, u_metadata = None\<rparr>"
  have "get ex_db ''m1'' = Some (ex_note ''m1'' ''a'' Mid ''alice'')"
    and m2: "get ex_db ''m2'' = Some (ex_note ''m2'' ''b'' Long ''bob'')" by code_simp+
  note c = update_contract [OF ex_db_ok this(1), of "''2026-01-02''" ?u]
  have "\<exists>e. fst (update ''2026-01-02'' ex_db ''m1'' ?u) = Inl e"
    by (rule c [THEN conjunct2, THEN conjunct2, THEN conjunct2, THEN iffD2])
      (rule disjI2, rule exI [of _ "''m2''"], use m2 in \<open>simp add: ex_note_def patched_def\<close>)
  then show ?thesis using c by (auto simp: Let_def)
qed

text \<open>Touching a memory keeps the store well-formed and changes that row only: the access count
  rises by one up to a million, a mid-term memory becomes long-term and permanent exactly when the
  count reaches the promotion threshold, a long-term memory keeps its expiry, the priority rises by
  one on every tenth access but never above ten, and the tier never drops.\<close>

theorem touch_contract:
  assumes "db_ok db" and "get db i = Some old"
  shows "db_ok (touch add_secs now db i short_extend mid_extend)
    \<and> (\<forall>j. j \<noteq> i \<longrightarrow> get (touch add_secs now db i short_extend mid_extend) j = get db j)
    \<and> (\<exists>new. get (touch add_secs now db i short_extend mid_extend) i = Some new
       \<and> m_access_count new = min (m_access_count old + 1) 1000000
       \<and> m_last_accessed_at new = Some now
       \<and> m_tier new = (if m_tier old = Mid \<and> PROMOTION_THRESHOLD \<le> m_access_count new then Long else m_tier old)
       \<and> m_expires_at new =
           (if m_tier old = Mid \<and> m_tier new = Long then None
            else if m_tier old = Long then m_expires_at old
            else map_option (\<lambda>_. add_secs now (if m_tier old = Short then short_extend else mid_extend))
                   (m_expires_at old))
       \<and> m_priority new = (if 0 < m_access_count new \<and> m_access_count new mod 10 = 0 \<and> m_priority old < 10
                            then m_priority old + 1 else m_priority old)
       \<and> m_content new = m_content old \<and> m_metadata new = m_metadata old)"
proof (intro conjI allI impI)
  show "db_ok (touch add_secs now db i short_extend mid_extend)" using assms(1) by (rule touch_ok)
  show "get (touch add_secs now db i short_extend mid_extend) j = get db j" if "j \<noteq> i" for j
    using that by (simp add: get_def touch_row option.map_comp comp_def)
  obtain r where r: "sql_row (\<lambda>x. m_id x = i) (db_memories db) = Some r" "old = row_to_memory r"
    using assms(2) by (auto simp: get_def)
  let ?r = "touched now (add_secs now short_extend) (add_secs now mid_extend) r"
  have "get (touch add_secs now db i short_extend mid_extend) i = Some (row_to_memory ?r)"
    by (simp add: get_def touch_row r)
  moreover have "m_access_count ?r = min (m_access_count r + 1) 1000000"
    by (simp add: touched_def Let_def touch_access_def touch_promote_def touch_priority_def)
  moreover have "m_last_accessed_at ?r = Some now" "m_content ?r = m_content r" "m_metadata ?r = m_metadata r"
    by (simp_all add: touched_def Let_def touch_access_def touch_promote_def touch_priority_def)
  moreover have "m_tier ?r = (if m_tier r = Mid \<and> PROMOTION_THRESHOLD \<le> min (m_access_count r + 1) 1000000
      then Long else m_tier r)"
    by (simp add: touched_def Let_def touch_access_def touch_promote_def touch_priority_def)
  moreover have "m_expires_at ?r = (if m_tier r = Mid \<and> m_tier ?r = Long then None
      else if m_tier r = Long then m_expires_at r
      else map_option (\<lambda>_. add_secs now (if m_tier r = Short then short_extend else mid_extend)) (m_expires_at r))"
    by (cases "m_tier r"; cases "m_expires_at r")
      (simp_all add: touched_def Let_def touch_access_def touch_promote_def touch_priority_def)
  moreover have "m_priority ?r = (if 0 < min (m_access_count r + 1) 1000000
      \<and> min (m_access_count r + 1) 1000000 mod 10 = 0 \<and> m_priority r < 10 then m_priority r + 1 else m_priority r)"
    by (simp add: touched_def Let_def touch_access_def touch_promote_def touch_priority_def)
  ultimately show "\<exists>new. get (touch add_secs now db i short_extend mid_extend) i = Some new
       \<and> m_access_count new = min (m_access_count old + 1) 1000000
       \<and> m_last_accessed_at new = Some now
       \<and> m_tier new = (if m_tier old = Mid \<and> PROMOTION_THRESHOLD \<le> m_access_count new then Long else m_tier old)
       \<and> m_expires_at new =
           (if m_tier old = Mid \<and> m_tier new = Long then None
            else if m_tier old = Long then m_expires_at old
            else map_option (\<lambda>_. add_secs now (if m_tier old = Short then short_extend else mid_extend))
                   (m_expires_at old))
       \<and> m_priority new = (if 0 < m_access_count new \<and> m_access_count new mod 10 = 0 \<and> m_priority old < 10
                            then m_priority old + 1 else m_priority old)
       \<and> m_content new = m_content old \<and> m_metadata new = m_metadata old"
    unfolding r(2) by (intro exI [of _ "row_to_memory ?r"]) (simp only: row_to_memory_sel refl simp_thms)
qed

theorem touch_contract_witness:
  "let db = fold (\<lambda>_ d. touch (\<lambda>t s. t) ''2026-01-05'' d ''m1'' 3600 86400) [0..<4] ex_db;
       db' = touch (\<lambda>t s. t) ''2026-01-06'' db ''m1'' 3600 86400 in
   (\<exists>new. get db' ''m1'' = Some new \<and> m_tier new = Long \<and> m_expires_at new = None)"
proof -
  let ?db = "fold (\<lambda>_ d. touch (\<lambda>t s. t) ''2026-01-05'' d ''m1'' 3600 86400) [0::nat..<4] ex_db"
  have ok: "db_ok ?db" by (simp add: upt_rec touch_ok ex_db_ok)
  have m: "map_option (\<lambda>m. (m_tier m, m_access_count m)) (get ?db ''m1'') = Some (Mid, 4)" by code_simp
  then obtain old where old: "get ?db ''m1'' = Some old" "m_tier old = Mid" "m_access_count old = 4" by auto
  from touch_contract [OF ok old(1), of "\<lambda>t s. t" "''2026-01-06''" 3600 86400] old
  show ?thesis by (auto simp: Let_def PROMOTION_THRESHOLD_def)
qed

text \<open>A versioned title is free in its namespace: the title itself when nothing holds it, otherwise the
  first of the numbered variants 2 to 1024 that is free; a store with fewer than 1023 memories always
  yields one.\<close>

theorem next_versioned_title_exact:
  "(\<forall>t. next_versioned_title db b ns = Inr t \<longrightarrow>
      find_by_title_namespace db t ns = None
      \<and> (t = b \<or> find_by_title_namespace db b ns \<noteq> None
          \<and> (\<exists>n \<ge> 2. n \<le> MAX_VERSION_SUFFIX \<and> t = version_candidate b n
              \<and> (\<forall>k. 2 \<le> k \<and> k < n \<longrightarrow> find_by_title_namespace db (version_candidate b k) ns \<noteq> None))))
   \<and> (length (db_memories db) < 1023 \<longrightarrow> (\<exists>t. next_versioned_title db b ns = Inr t))"
proof (intro conjI allI impI)
  fix t assume r: "next_versioned_title db b ns = Inr t"
  let ?free = "\<lambda>n. find_by_title_namespace db (version_candidate b n) ns = None"
  show "find_by_title_namespace db t ns = None"
    using r by (auto simp: next_versioned_title_def split: if_splits option.splits dest: find_Some_mem)
  show "t = b \<or> find_by_title_namespace db b ns \<noteq> None
          \<and> (\<exists>n \<ge> 2. n \<le> MAX_VERSION_SUFFIX \<and> t = version_candidate b n
              \<and> (\<forall>k. 2 \<le> k \<and> k < n \<longrightarrow> \<not> ?free k))"
  proof (cases "find_by_title_namespace db b ns = None")
    case True
    with r show ?thesis by (simp add: next_versioned_title_def)
  next
    case False
    with r obtain n where n: "find ?free [2..<Suc MAX_VERSION_SUFFIX] = Some n" "t = version_candidate b n"
      by (auto simp: next_versioned_title_def split: option.splits)
    then obtain i where i: "i < length [2..<Suc MAX_VERSION_SUFFIX]" "n = [2..<Suc MAX_VERSION_SUFFIX] ! i"
      "\<forall>j<i. \<not> ?free ([2..<Suc MAX_VERSION_SUFFIX] ! j)" by (auto simp: find_Some_iff)
    have "\<not> ?free k" if "2 \<le> k" "k < n" for k
    proof -
      have "Suc (Suc (k - 2)) = k" using that by arith
      then show ?thesis using i that by (auto dest!: spec [of _ "k - 2"] simp del: upt_Suc)
    qed
    moreover have "2 \<le> n" "n \<le> MAX_VERSION_SUFFIX" using i by (auto simp del: upt_Suc)
    ultimately show ?thesis using False n(2) by blast
  qed
next
  assume small: "length (db_memories db) < 1023"
  let ?V = "version_candidate b ` {2..MAX_VERSION_SUFFIX}"
  have "card ?V = 1023" by (simp add: card_image inj_on_def MAX_VERSION_SUFFIX_def)
  moreover have "card (m_title ` set (db_memories db)) < 1023"
    using small card_image_le [of "set (db_memories db)" m_title] card_length [of "db_memories db"]
    by (metis List.finite_set le_less_trans le_trans)
  ultimately have "\<not> ?V \<subseteq> m_title ` set (db_memories db)"
    using card_mono [of "m_title ` set (db_memories db)" ?V] by auto
  then obtain n where n: "2 \<le> n" "n \<le> MAX_VERSION_SUFFIX"
    "version_candidate b n \<notin> m_title ` set (db_memories db)"
    by (metis atLeastAtMost_iff image_subsetI)
  then have "find_by_title_namespace db (version_candidate b n) ns = None"
    by (auto simp: find_by_title_None title_key_def)
  with n have "find (\<lambda>n. find_by_title_namespace db (version_candidate b n) ns = None)
      [2..<Suc MAX_VERSION_SUFFIX] \<noteq> None"
    by (auto simp: find_None_all simp del: upt_Suc)
  then show "\<exists>t. next_versioned_title db b ns = Inr t" by (auto simp: next_versioned_title_def)
qed

theorem next_versioned_title_exact_witness: "\<exists>t. next_versioned_title ex_db ''a'' ''g'' = Inr t"
proof -
  have "length (db_memories ex_db) = 2" by code_simp
  then show ?thesis using next_versioned_title_exact [of ex_db "''a''" "''g''"] by simp
qed

end
