(* ===== verification/Search.thy ===== *)
theory Search
  imports Memory_Store
begin

text \<open>
  Listing, searching and recalling memories (\<open>src/db.rs\<close>): the sanitizer of full-text queries, the
  row filters, ranking, the proximity boost of the namespace hierarchy, the token budget and the
  touch of every recalled memory. SQLite's FTS5 index is third-party code: \<open>fts q r\<close> says whether
  row \<open>r\<close> matches the query text \<open>q\<close> and \<open>rank q r\<close> is its rank; \<open>age now t\<close> is the difference of
  \<open>julianday\<close>s, \<open>tokens\<close> the \<open>cl100k\<close> tokenizer. Scores are computed exactly, without \<open>f64\<close> rounding.
\<close>

subsection \<open>Sanitizing full-text queries\<close>

text \<open>The UTF-8 encodings of the characters \<open>strip_invisible\<close> removes.\<close>

definition invisible_codes :: "str list" where
  "invisible_codes =
     map (\<lambda>c. [CHR 0xE2, CHR 0x80, c])
       [CHR 0x8B, CHR 0x8C, CHR 0x8D, CHR 0x8E, CHR 0x8F, CHR 0xAA, CHR 0xAB, CHR 0xAC, CHR 0xAD, CHR 0xAE]
     @ map (\<lambda>c. [CHR 0xE2, CHR 0x81, c])
       [CHR 0xA0, CHR 0xA1, CHR 0xA2, CHR 0xA3, CHR 0xA4, CHR 0xA6, CHR 0xA7, CHR 0xA8, CHR 0xA9]
     @ map (\<lambda>c. [CHR 0xEF, CHR 0xB8, c])
       [CHR 0x80, CHR 0x81, CHR 0x82, CHR 0x83, CHR 0x84, CHR 0x85, CHR 0x86, CHR 0x87,
        CHR 0x88, CHR 0x89, CHR 0x8A, CHR 0x8B, CHR 0x8C, CHR 0x8D, CHR 0x8E, CHR 0x8F]
     @ [[CHR 0xEF, CHR 0xBB, CHR 0xBF], [CHR 0xC2, CHR 0xAD], [CHR 0xCD, CHR 0x8F],
        [CHR 0xD8, CHR 0x9C], [CHR 0xE1, CHR 0xA0, CHR 0x8E]]"

text \<open>An encoding can only start at a character boundary, so it may be looked for at every byte.\<close>

function strip_invisible :: "str \<Rightarrow> str" where
  "strip_invisible s =
     (case find (\<lambda>w. w \<noteq> [] \<and> prefix w s) invisible_codes of
        Some w \<Rightarrow> strip_invisible (drop (length w) s)
      | None \<Rightarrow> (case s of [] \<Rightarrow> [] | c # r \<Rightarrow> c # strip_invisible r))"
  by pat_completeness auto
termination
proof (relation "measure length")
  fix s w
  assume "find (\<lambda>w. w \<noteq> [] \<and> prefix w s) invisible_codes = Some w"
  then have "w \<noteq> []" "prefix w s" by (auto dest: find_Some_mem)
  then show "(drop (length w) s, s) \<in> measure length" by (auto simp: prefix_def)
qed auto

declare strip_invisible.simps [simp del]

text \<open>
  The operators are compared in upper case; no character outside ASCII upper-cases to one of their
  letters, so folding ASCII letters is the same test.
\<close>

definition is_fts_operator :: "str \<Rightarrow> bool" where
  "is_fts_operator t = (to_ascii_lowercase t \<in> set [''and'', ''or'', ''not'', ''near''])"

definition fts_special :: "char \<Rightarrow> bool" where
  "fts_special c = (c \<in> set [CHR 0x22, CHR ''*'', CHR ''^'', CHR ''{'', CHR ''}'', CHR ''('', CHR '')'',
     CHR '':'', CHR ''|'', CHR ''+''])"

definition quote_token :: "str \<Rightarrow> str" where
  "quote_token t =
     (let clean = filter (\<lambda>c. \<not> fts_special c) t
      in if clean = [] then [] else [CHR 0x22] @ clean @ [CHR 0x22])"

fun join_str :: "str \<Rightarrow> str list \<Rightarrow> str" where
  "join_str d [] = []"
| "join_str d [w] = w"
| "join_str d (w # ws) = w @ d @ join_str d ws"

definition sanitize_fts_query :: "str \<Rightarrow> bool \<Rightarrow> str" where
  "sanitize_fts_query input use_or =
     (let joiner = (if use_or then '' OR '' else '' '');
          tokens = filter (\<lambda>t. t \<noteq> [])
            (map quote_token
              (filter (\<lambda>t. \<not> is_fts_operator t) (split_whitespace (strip_invisible input))))
      in if tokens = [] then [CHR 0x22] @ ''_empty_'' @ [CHR 0x22] else join_str joiner tokens)"

subsection \<open>Filters and ordering\<close>

text \<open>\<open>ORDER BY\<close>: a stable insertion sort by a strict \<open>before\<close>; rows that tie keep the table order.\<close>

fun insort_by :: "('a \<Rightarrow> 'a \<Rightarrow> bool) \<Rightarrow> 'a \<Rightarrow> 'a list \<Rightarrow> 'a list" where
  "insort_by before x [] = [x]"
| "insort_by before x (y # ys) = (if before y x then y # insort_by before x ys else x # y # ys)"

definition order_by :: "('a \<Rightarrow> 'a \<Rightarrow> bool) \<Rightarrow> 'a list \<Rightarrow> 'a list" where
  "order_by before xs = foldr (insort_by before) xs []"

definition opt_ok :: "('a \<Rightarrow> bool) \<Rightarrow> 'a option \<Rightarrow> bool" where
  "opt_ok P x = (case x of None \<Rightarrow> True | Some v \<Rightarrow> P v)"

definition not_expired :: "str \<Rightarrow> 'a Memory_scheme \<Rightarrow> bool" where
  "not_expired now r = opt_ok (\<lambda>e. now < e) (m_expires_at r)"

record list_filter =
  lf_namespace :: "str option"
  lf_tier :: "Tier option"
  lf_min_priority :: "int option"
  lf_since :: "str option"
  lf_until :: "str option"
  lf_tags :: "str option"
  lf_agent_id :: "str option"

definition list_where :: "(json \<Rightarrow> str) \<Rightarrow> str \<Rightarrow> list_filter \<Rightarrow> MemRow \<Rightarrow> bool" where
  "list_where render now q r =
     (opt_ok (\<lambda>n. m_namespace r = n) (lf_namespace q)
      \<and> opt_ok (\<lambda>t. m_tier r = t) (lf_tier q)
      \<and> opt_ok (\<lambda>p. m_priority r \<ge> p) (lf_min_priority q)
      \<and> not_expired now r
      \<and> opt_ok (\<lambda>s. m_created_at r \<ge> s) (lf_since q)
      \<and> opt_ok (\<lambda>u. m_created_at r \<le> u) (lf_until q)
      \<and> opt_ok (\<lambda>t. t \<in> set (m_tags r)) (lf_tags q)
      \<and> opt_ok (\<lambda>a. agent_id_idx render (m_metadata r) = Some a) (lf_agent_id q))"

definition list_before :: "MemRow \<Rightarrow> MemRow \<Rightarrow> bool" where
  "list_before a b = (m_priority a > m_priority b \<or> (m_priority a = m_priority b \<and> m_updated_at a > m_updated_at b))"

definition list_memories :: "(json \<Rightarrow> str) \<Rightarrow> str \<Rightarrow> Db \<Rightarrow> list_filter \<Rightarrow> nat \<Rightarrow> nat \<Rightarrow> Memory list" where
  "list_memories render now db q limit offset =
     map row_to_memory
       (take limit (drop offset (order_by list_before (filter (list_where render now q) (db_memories db)))))"

subsection \<open>Scores\<close>

fun f64_lt :: "f64 \<Rightarrow> f64 \<Rightarrow> bool" where
  "f64_lt (Fin p) (Fin q) = (p < q)"
| "f64_lt (Fin p) (Infinite b) = b"
| "f64_lt (Infinite b) (Fin q) = (\<not> b)"
| "f64_lt (Infinite b) (Infinite c) = (\<not> b \<and> c)"
| "f64_lt _ _ = False"

text \<open>The summands both rankings share; an infinite confidence makes the score infinite.\<close>

definition base_score :: "rat \<Rightarrow> rat \<Rightarrow> rat \<Rightarrow> MemRow \<Rightarrow> f64" where
  "base_score rank_r age_days tier_bonus r =
     (case m_confidence r of
        Fin c \<Rightarrow> Fin (- rank_r + of_int (m_priority r) * (1 / 2)
                  + of_int (min (m_access_count r) 50) * (1 / 10) + c * 2
                  + tier_bonus + 1 / (1 + age_days * (1 / 10)))
      | c \<Rightarrow> c)"

fun tier_bonus :: "Tier \<Rightarrow> rat" where
  "tier_bonus Long = 3"
| "tier_bonus Mid = 1"
| "tier_bonus Short = 0"

definition search_memories ::
    "(str \<Rightarrow> MemRow \<Rightarrow> bool) \<Rightarrow> (str \<Rightarrow> MemRow \<Rightarrow> rat) \<Rightarrow> (str \<Rightarrow> str \<Rightarrow> rat) \<Rightarrow> (json \<Rightarrow> str) \<Rightarrow>
     str \<Rightarrow> Db \<Rightarrow> str \<Rightarrow> list_filter \<Rightarrow> nat \<Rightarrow> str option \<Rightarrow> Memory list" where
  "search_memories fts rank age render now db query q limit as_agent =
     (let fts_query = sanitize_fts_query query False;
          vp = compute_visibility_prefixes as_agent;
          score = (\<lambda>r. base_score (rank fts_query r) (age now (m_updated_at r)) 0 r)
      in map row_to_memory (take limit (order_by (\<lambda>a b. f64_lt (score b) (score a))
           (filter (\<lambda>r. fts fts_query r \<and> list_where render now q r \<and> visibility_clause render vp r)
              (db_memories db)))))"

definition proximity_boost :: "str \<Rightarrow> str \<Rightarrow> rat" where
  "proximity_boost agent_ns memory_ns =
     (let distance = namespace_depth agent_ns - namespace_depth memory_ns
      in 1 / (1 + of_nat distance * (3 / 10)))"

text \<open>\<open>hierarchy_in_clause\<close>: the namespaces of the \<open>IN\<close> list when hierarchy expansion is active.\<close>

definition hierarchy_in_clause :: "str option \<Rightarrow> str list option" where
  "hierarchy_in_clause namespace =
     (case namespace of
        None \<Rightarrow> None
      | Some ns \<Rightarrow>
          if CHR ''/'' \<notin> set ns then None
          else let ancestors = namespace_ancestors ns in
               if ancestors = [] then None else Some ancestors)"

fun f64_scale :: "f64 \<Rightarrow> rat \<Rightarrow> f64" where
  "f64_scale (Fin p) b = Fin (p * b)"
| "f64_scale x b = x"

definition apply_proximity_boost :: "(Memory \<times> f64) list \<Rightarrow> str \<Rightarrow> (Memory \<times> f64) list" where
  "apply_proximity_boost scored agent_ns =
     order_by (\<lambda>a b. f64_lt (snd b) (snd a))
       (map (\<lambda>(mem, score). (mem, f64_scale score (proximity_boost agent_ns (m_namespace mem)))) scored)"

subsection \<open>Token budget\<close>

record BudgetOutcome =
  bo_tokens_used :: nat
  bo_tokens_remaining :: "nat option"
  bo_memories_dropped :: nat
  bo_budget_overflow :: bool

definition USIZE_MAX :: nat where "USIZE_MAX = 2 ^ 64 - 1"

definition saturating_add :: "nat \<Rightarrow> nat \<Rightarrow> nat" where
  "saturating_add a b = min (a + b) USIZE_MAX"

text \<open>The greedy loop: tokens used so far, whether anything was taken, the remaining candidates.\<close>

fun budget_fill ::
    "(str \<Rightarrow> nat) \<Rightarrow> nat \<Rightarrow> nat \<Rightarrow> (Memory \<times> f64) list \<Rightarrow> (Memory \<times> f64) list \<Rightarrow> (Memory \<times> f64) list \<times> nat \<times> bool" where
  "budget_fill tokens budget used out [] = (out, used, False)"
| "budget_fill tokens budget used out ((mem, score) # rest) =
     (let cost = tokens (m_content mem) in
      if saturating_add used cost > budget
      then (if out = [] then ([(mem, score)], saturating_add used cost, True) else (out, used, False))
      else budget_fill tokens budget (saturating_add used cost) (out @ [(mem, score)]) rest)"

definition apply_token_budget ::
    "(str \<Rightarrow> nat) \<Rightarrow> (Memory \<times> f64) list \<Rightarrow> nat option \<Rightarrow> (Memory \<times> f64) list \<times> BudgetOutcome" where
  "apply_token_budget tokens scored budget_tokens =
     (case budget_tokens of
        None \<Rightarrow>
          (scored, \<lparr>bo_tokens_used = fold (\<lambda>(mem, _) used. saturating_add used (length (m_content mem) div 4)) scored 0,
                    bo_tokens_remaining = None, bo_memories_dropped = 0, bo_budget_overflow = False\<rparr>)
      | Some budget \<Rightarrow>
          if budget = 0
          then ([], \<lparr>bo_tokens_used = 0, bo_tokens_remaining = Some 0,
                     bo_memories_dropped = length scored, bo_budget_overflow = False\<rparr>)
          else (case budget_fill tokens budget 0 [] scored of
                  (out, used, overflow) \<Rightarrow>
                    (out, \<lparr>bo_tokens_used = used, bo_tokens_remaining = Some (budget - used),
                           bo_memories_dropped = length scored - length out,
                           bo_budget_overflow = overflow\<rparr>)))"

subsection \<open>Recall\<close>

record recall_query =
  rq_namespace :: "str option"
  rq_limit :: nat
  rq_tags :: "str option"
  rq_since :: "str option"
  rq_until :: "str option"
  rq_short_extend :: int
  rq_mid_extend :: int
  rq_as_agent :: "str option"
  rq_budget :: "nat option"

definition recall_where :: "(json \<Rightarrow> str) \<Rightarrow> str \<Rightarrow> recall_query \<Rightarrow> MemRow \<Rightarrow> bool" where
  "recall_where render now q r =
     ((case hierarchy_in_clause (rq_namespace q) of
         Some ancestors \<Rightarrow> m_namespace r \<in> set ancestors
       | None \<Rightarrow> opt_ok (\<lambda>n. m_namespace r = n) (rq_namespace q))
      \<and> not_expired now r
      \<and> opt_ok (\<lambda>t. t \<in> set (m_tags r)) (rq_tags q)
      \<and> opt_ok (\<lambda>s. m_created_at r \<ge> s) (rq_since q)
      \<and> opt_ok (\<lambda>u. m_created_at r \<le> u) (rq_until q)
      \<and> visibility_clause render (compute_visibility_prefixes (rq_as_agent q)) r)"

definition recall_score :: "(str \<Rightarrow> MemRow \<Rightarrow> rat) \<Rightarrow> (str \<Rightarrow> str \<Rightarrow> rat) \<Rightarrow> str \<Rightarrow> str \<Rightarrow> MemRow \<Rightarrow> f64" where
  "recall_score rank age now fts_query r =
     base_score (rank fts_query r) (age now (m_updated_at r)) (tier_bonus (m_tier r)) r"

definition recall_select ::
    "(str \<Rightarrow> MemRow \<Rightarrow> bool) \<Rightarrow> (str \<Rightarrow> MemRow \<Rightarrow> rat) \<Rightarrow> (str \<Rightarrow> str \<Rightarrow> rat) \<Rightarrow> (json \<Rightarrow> str) \<Rightarrow>
     str \<Rightarrow> Db \<Rightarrow> str \<Rightarrow> recall_query \<Rightarrow> (Memory \<times> f64) list" where
  "recall_select fts rank age render now db context q =
     (let fts_query = sanitize_fts_query context True;
          score = recall_score rank age now fts_query
      in map (\<lambda>r. (row_to_memory r, score r))
           (take (rq_limit q) (order_by (\<lambda>a b. f64_lt (score b) (score a))
             (filter (\<lambda>r. fts fts_query r \<and> recall_where render now q r) (db_memories db)))))"

definition recall ::
    "(str \<Rightarrow> MemRow \<Rightarrow> bool) \<Rightarrow> (str \<Rightarrow> MemRow \<Rightarrow> rat) \<Rightarrow> (str \<Rightarrow> str \<Rightarrow> rat) \<Rightarrow> (json \<Rightarrow> str) \<Rightarrow> (str \<Rightarrow> nat) \<Rightarrow>
     (str \<Rightarrow> int \<Rightarrow> str) \<Rightarrow> str \<Rightarrow> Db \<Rightarrow> str \<Rightarrow> recall_query \<Rightarrow> ((Memory \<times> f64) list \<times> BudgetOutcome) \<times> Db" where
  "recall fts rank age render tokens add_secs now db context q =
     (let results = recall_select fts rank age render now db context q;
          boosted = (case (hierarchy_in_clause (rq_namespace q), rq_namespace q) of
                       (Some _, Some anchor) \<Rightarrow> apply_proximity_boost results anchor
                     | _ \<Rightarrow> results);
          (budgeted, outcome) = apply_token_budget tokens boosted (rq_budget q);
          db' = fold (\<lambda>(mem, _) d. touch add_secs now d (m_id mem) (rq_short_extend q) (rq_mid_extend q)) budgeted db
      in ((budgeted, outcome), db'))"

section \<open>Correctness\<close>

subsection \<open>Ordering\<close>

lemma set_insort_by [simp]: "set (insort_by before x ys) = {x} \<union> set ys"
  by (induction ys) auto

lemma mset_insort_by [simp]: "mset (insort_by before x ys) = add_mset x (mset ys)"
  by (induction ys) auto

lemma mset_order_by [simp]: "mset (order_by before xs) = mset xs"
  by (induction xs) (simp_all add: order_by_def)

lemma set_order_by [simp]: "set (order_by before xs) = set xs"
  by (metis mset_order_by set_mset_mset)

lemma length_order_by [simp]: "length (order_by before xs) = length xs"
  by (metis mset_order_by size_mset)

lemma distinct_order_by: "distinct (map f (order_by before xs)) = distinct (map f xs)"
proof -
  have "mset (map f (order_by before xs)) = mset (map f xs)" by simp
  then show ?thesis using mset_eq_imp_distinct_iff by blast
qed

text \<open>What \<open>ORDER BY\<close> needs of its key: a strict weak order.\<close>

locale ordering_key =
  fixes before :: "'a \<Rightarrow> 'a \<Rightarrow> bool"
  assumes asym: "before a b \<Longrightarrow> \<not> before b a"
    and neg_trans: "\<not> before a b \<Longrightarrow> \<not> before b c \<Longrightarrow> \<not> before a c"
begin

lemma sorted_insort:
  "sorted_wrt (\<lambda>a b. \<not> before b a) ys \<Longrightarrow> sorted_wrt (\<lambda>a b. \<not> before b a) (insort_by before x ys)"
proof (induction ys)
  case (Cons y ys)
  show ?case
  proof (cases "before y x")
    case True
    with Cons asym [OF True] show ?thesis by auto
  next
    case False
    have "\<not> before z x" if "z \<in> set ys" for z
      using Cons.prems that False neg_trans [of z y x] by auto
    with Cons False show ?thesis by auto
  qed
qed simp

lemma sorted_order_by: "sorted_wrt (\<lambda>a b. \<not> before b a) (order_by before xs)"
  by (induction xs) (simp_all add: order_by_def sorted_insort)

end

lemma f64_lt_asym: "f64_lt a b \<Longrightarrow> \<not> f64_lt b a"
  by (cases a; cases b) auto

lemma f64_lt_neg_trans: "b \<noteq> NaN \<Longrightarrow> \<not> f64_lt a b \<Longrightarrow> \<not> f64_lt b c \<Longrightarrow> \<not> f64_lt a c"
  by (cases a; cases b; cases c) auto

interpretation list_order: ordering_key list_before
  by unfold_locales (auto simp: list_before_def)

subsection \<open>Sanitizer\<close>

lemma quote_token_shape:
  "quote_token t \<noteq> [] \<Longrightarrow>
     \<exists>w. w \<noteq> [] \<and> (\<forall>c \<in> set w. \<not> fts_special c) \<and> quote_token t = [CHR 0x22] @ w @ [CHR 0x22]"
  by (auto simp: quote_token_def Let_def split: if_splits)

lemma quoted_tokens:
  assumes "\<forall>t \<in> set ts. \<exists>w. P w \<and> t = q w"
  shows "\<exists>ws. ts = map q ws \<and> (\<forall>w \<in> set ws. P w)"
  using assms
proof (induction ts)
  case (Cons t ts)
  then obtain w ws where "t = q w" "P w" "ts = map q ws" "\<forall>w \<in> set ws. P w" by auto
  then show ?case by (intro exI [of _ "w # ws"]) auto
qed simp

subsection \<open>Budget\<close>

definition cost_of :: "(str \<Rightarrow> nat) \<Rightarrow> (Memory \<times> f64) list \<Rightarrow> nat" where
  "cost_of tokens xs = sum_list (map (\<lambda>(mem, _). tokens (m_content mem)) xs)"

lemma cost_of_simps [simp]:
  "cost_of tokens [] = 0" "cost_of tokens ((m, s) # xs) = tokens (m_content m) + cost_of tokens xs"
  by (simp_all add: cost_of_def)

lemma budget_fill_spec:
  assumes "used \<le> budget" and "budget < USIZE_MAX" and "budget_fill tokens budget used out rest = (o', u, ov)"
  shows "if ov
    then out = [] \<and> (\<exists>m s rest'. rest = (m, s) # rest' \<and> o' = [(m, s)]
           \<and> budget < used + tokens (m_content m) \<and> u = saturating_add used (tokens (m_content m)))
    else (\<exists>n \<le> length rest. o' = out @ take n rest \<and> u = used + cost_of tokens (take n rest) \<and> u \<le> budget
           \<and> (n < length rest \<longrightarrow> o' \<noteq> [] \<and> budget < u + tokens (m_content (fst (rest ! n)))))"
  using assms
proof (induction tokens budget used out rest rule: budget_fill.induct)
  case (1 tokens budget used out)
  then show ?case by auto
next
  case (2 tokens budget used out mem score rest)
  let ?c = "tokens (m_content mem)"
  have over: "saturating_add used ?c > budget \<longleftrightarrow> budget < used + ?c"
    using "2.prems"(2) by (auto simp: saturating_add_def)
  show ?case
  proof (cases "budget < used + ?c")
    case True
    then show ?thesis
      using "2.prems" over by (cases "out = []") (auto simp: Let_def intro!: exI [of _ 0])
  next
    case False
    then have eq: "saturating_add used ?c = used + ?c"
      using "2.prems"(2) by (simp add: saturating_add_def)
    have le: "saturating_add used ?c \<le> budget" using False eq by simp
    have run: "budget_fill tokens budget (saturating_add used ?c) (out @ [(mem, score)]) rest = (o', u, ov)"
      using "2.prems"(3) False over by (simp add: Let_def)
    have no: "\<not> saturating_add used ?c > budget" using le by simp
    note IH = "2.IH" [OF refl no le "2.prems"(2) run]
    have nov: "\<not> ov" using IH by (auto split: if_splits)
    then obtain n where n: "n \<le> length rest" "o' = (out @ [(mem, score)]) @ take n rest"
      "u = used + ?c + cost_of tokens (take n rest)" "u \<le> budget"
      "n < length rest \<longrightarrow> o' \<noteq> [] \<and> budget < u + tokens (m_content (fst (rest ! n)))"
      using IH by (auto simp: eq)
    then show ?thesis using nov by (auto intro!: exI [of _ "Suc n"])
  qed
qed

section \<open>Properties\<close>

text \<open>Query injection is impossible: whatever the input, the sanitized full-text query is a non-empty
  sequence of double-quoted phrases, joined by a blank or by OR, none of which contains a quote or
  another special character of the query language.\<close>

theorem sanitize_fts_query_safe:
  "\<exists>ws. ws \<noteq> [] \<and> (\<forall>w \<in> set ws. w \<noteq> [] \<and> (\<forall>c \<in> set w. \<not> fts_special c))
     \<and> sanitize_fts_query input use_or
        = join_str (if use_or then '' OR '' else '' '') (map (\<lambda>w. [CHR 0x22] @ w @ [CHR 0x22]) ws)"
proof -
  let ?ts = "filter (\<lambda>t. t \<noteq> []) (map quote_token
              (filter (\<lambda>t. \<not> is_fts_operator t) (split_whitespace (strip_invisible input))))"
  have "\<forall>t \<in> set ?ts. \<exists>w. (w \<noteq> [] \<and> (\<forall>c \<in> set w. \<not> fts_special c)) \<and> t = [CHR 0x22] @ w @ [CHR 0x22]"
    using quote_token_shape by (auto simp del: append.simps)
  from quoted_tokens [OF this] obtain ws where
    ws: "?ts = map (\<lambda>w. [CHR 0x22] @ w @ [CHR 0x22]) ws" "\<forall>w \<in> set ws. w \<noteq> [] \<and> (\<forall>c \<in> set w. \<not> fts_special c)"
    by auto
  show ?thesis
  proof (cases "?ts = []")
    case True
    have "\<forall>c \<in> set ''_empty_''. \<not> fts_special c" by (simp add: fts_special_def)
    with True show ?thesis
      by (intro exI [of _ "[''_empty_'']"]) (simp add: sanitize_fts_query_def Let_def)
  next
    case False
    with ws show ?thesis
      by (intro exI [of _ ws]) (auto simp: sanitize_fts_query_def Let_def simp del: append.simps)
  qed
qed

theorem sanitize_fts_query_safe_witness:
  "\<exists>ws. ws \<noteq> [] \<and> (\<forall>w \<in> set ws. w \<noteq> [] \<and> (\<forall>c \<in> set w. \<not> fts_special c))
     \<and> sanitize_fts_query ''a* OR x:b'' False = join_str '' '' (map (\<lambda>w. [CHR 0x22] @ w @ [CHR 0x22]) ws)"
  using sanitize_fts_query_safe [of "''a* OR x:b''" False] by simp



subsection \<open>Recall\<close>

lemma touch_all_ok: "db_ok db \<Longrightarrow> db_ok (fold (\<lambda>(mem, _) d. touch ad n d (m_id mem) s m) xs db)"
  by (induction xs arbitrary: db) (auto simp: touch_ok)

lemma touch_all_row:
  assumes "distinct (map (m_id \<circ> fst) xs)"
  shows "sql_row (\<lambda>r. m_id r = j) (db_memories (fold (\<lambda>(mem, _) d. touch ad n d (m_id mem) s m) xs db)) =
    map_option (\<lambda>r. if j \<in> set (map (m_id \<circ> fst) xs) then touched n (ad n s) (ad n m) r else r)
      (sql_row (\<lambda>r. m_id r = j) (db_memories db))"
  using assms
proof (induction xs arbitrary: db)
  case (Cons x xs)
  obtain mem sc where x: "x = (mem, sc)" by (cases x)
  show ?case
    using Cons.prems
    by (cases "sql_row (\<lambda>r. m_id r = j) (db_memories db)") (auto simp: x Cons.IH touch_row)
qed (simp add: option.map_ident)

lemma apply_budget_prefix: "prefix (fst (apply_token_budget tokens scored budget)) scored"
proof -
  have "prefix o' (out @ rest)" if "budget_fill tokens b used out rest = (o', u, ov)" for b used out rest o' u ov
    using that
    by (induction tokens b used out rest rule: budget_fill.induct) (auto simp: Let_def split: if_splits)
  from this [of _ _ "[]"] show ?thesis
    by (auto simp: apply_token_budget_def split: option.split prod.split)
qed

lemma boost_ids: "mset (map fst (apply_proximity_boost scored ns)) = mset (map fst scored)"
proof -
  have "mset (map fst (apply_proximity_boost scored ns))
      = image_mset fst (mset (map (\<lambda>(mem, score). (mem, f64_scale score (proximity_boost ns (m_namespace mem)))) scored))"
    by (simp add: apply_proximity_boost_def)
  also have "\<dots> = mset (map fst scored)" by (simp add: multiset.map_comp comp_def case_prod_beta)
  finally show ?thesis .
qed

lemma prefix_set: "prefix xs ys \<Longrightarrow> set xs \<subseteq> set ys"
  by (auto simp: prefix_def)

lemma prefix_distinct: "prefix xs ys \<Longrightarrow> distinct (map f ys) \<Longrightarrow> distinct (map f xs)"
  by (auto simp: prefix_def)

lemma recall_select_ids:
  assumes "unique_key m_id (db_memories db)"
  shows "distinct (map m_id (map fst (recall_select fts rank age render now db context q)))"
proof -
  let ?score = "recall_score rank age now (sanitize_fts_query context True)"
  let ?rows = "filter (\<lambda>r. fts (sanitize_fts_query context True) r \<and> recall_where render now q r) (db_memories db)"
  have "distinct (map m_id ?rows)" using assms by (auto simp: unique_key_def distinct_map inj_on_def)
  then have "distinct (map m_id (order_by (\<lambda>a b. f64_lt (?score b) (?score a)) ?rows))"
    by (simp only: distinct_order_by)
  then show ?thesis
    by (simp add: recall_select_def Let_def comp_def take_map [symmetric] distinct_take)
qed

lemma recall_select_mem:
  "m \<in> fst ` set (recall_select fts rank age render now db context q) \<Longrightarrow>
     \<exists>r \<in> set (db_memories db). m = row_to_memory r \<and> fts (sanitize_fts_query context True) r \<and> recall_where render now q r"
  by (auto simp: recall_select_def Let_def dest!: in_set_takeD)

lemma recall_where_memory:
  assumes "recall_where render now q r"
  shows "not_expired now (row_to_memory r)
    \<and> (case rq_namespace q of None \<Rightarrow> True
       | Some ns \<Rightarrow> m_namespace r = ns \<or> (CHR ''/'' \<in> set ns \<and> m_namespace r \<in> set (namespace_ancestors ns)))
    \<and> visibility_clause render (compute_visibility_prefixes (rq_as_agent q)) (row_to_memory r)"
proof -
  have "visibility_clause render vp (row_to_memory r) = visibility_clause render vp r" for vp
    by (cases vp) (simp add: visibility_clause_def)
  moreover have "not_expired now (row_to_memory r) = not_expired now r" by (simp add: not_expired_def)
  moreover have "case rq_namespace q of None \<Rightarrow> True
       | Some ns \<Rightarrow> m_namespace r = ns \<or> (CHR ''/'' \<in> set ns \<and> m_namespace r \<in> set (namespace_ancestors ns))"
    using assms by (cases "rq_namespace q")
      (auto simp: recall_where_def hierarchy_in_clause_def opt_ok_def Let_def split: if_splits)
  ultimately show ?thesis using assms by (simp add: recall_where_def)
qed

text \<open>Every recalled memory is stored, matches the sanitized query, is unexpired, passes the caller's
  visibility filter and lies in the requested namespace or, for a path, in one of its ancestors; there
  are no duplicates and no more than the limit. Exactly the returned memories are touched, and the
  store stays well-formed.\<close>

theorem recall_sound:
  assumes ok: "db_ok db"
    and res: "recall fts rank age render tokens add_secs now db context q = ((out, oc), db')"
  shows "db_ok db' \<and> length out \<le> rq_limit q \<and> distinct (map (m_id \<circ> fst) out)
    \<and> (\<forall>m \<in> fst ` set out. get db (m_id m) = Some m \<and> not_expired now m
        \<and> (case rq_namespace q of None \<Rightarrow> True
           | Some ns \<Rightarrow> m_namespace m = ns \<or> (CHR ''/'' \<in> set ns \<and> m_namespace m \<in> set (namespace_ancestors ns)))
        \<and> visibility_clause render (compute_visibility_prefixes (rq_as_agent q)) m)
    \<and> (\<forall>j. sql_row (\<lambda>r. m_id r = j) (db_memories db') =
        map_option (\<lambda>r. if j \<in> set (map (m_id \<circ> fst) out)
                         then touched now (add_secs now (rq_short_extend q)) (add_secs now (rq_mid_extend q)) r else r)
          (sql_row (\<lambda>r. m_id r = j) (db_memories db)))"
proof -
  let ?sel = "recall_select fts rank age render now db context q"
  define boosted where "boosted = (case (hierarchy_in_clause (rq_namespace q), rq_namespace q) of
                       (Some _, Some anchor) \<Rightarrow> apply_proximity_boost ?sel anchor
                     | _ \<Rightarrow> ?sel)"
  have mo: "memories_ok (db_memories db)" using ok by (simp add: db_ok_def)
  have b: "apply_token_budget tokens boosted (rq_budget q) = (out, oc)"
    and db': "db' = fold (\<lambda>(mem, _) d. touch add_secs now d (m_id mem) (rq_short_extend q) (rq_mid_extend q)) out db"
    using res by (auto simp: recall_def boosted_def Let_def split: prod.splits)
  have ms: "mset (map fst boosted) = mset (map fst ?sel)"
    by (auto simp: boosted_def boost_ids simp del: mset_map split: option.split)
  have pre: "prefix out boosted" using apply_budget_prefix [of tokens boosted "rq_budget q"] by (simp add: b)
  have "mset (map m_id (map fst boosted)) = mset (map m_id (map fst ?sel))"
    using ms by (simp only: mset_map)
  then have "distinct (map m_id (map fst boosted))"
    using recall_select_ids [of db] mo mset_eq_imp_distinct_iff by (metis memories_ok_def)
  then have dist: "distinct (map (m_id \<circ> fst) out)" using prefix_distinct [OF pre] by simp
  have sub: "fst ` set out \<subseteq> fst ` set ?sel"
    using prefix_set [OF pre] ms by (metis image_mono list.set_map set_mset_mset)
  have "length boosted = length ?sel" using ms by (metis length_map size_mset)
  moreover have "length ?sel \<le> rq_limit q" by (simp add: recall_select_def Let_def)
  ultimately have len: "length out \<le> rq_limit q" using prefix_length_le [OF pre] by simp
  have each: "get db (m_id m) = Some m \<and> not_expired now m
        \<and> (case rq_namespace q of None \<Rightarrow> True
           | Some ns \<Rightarrow> m_namespace m = ns \<or> (CHR ''/'' \<in> set ns \<and> m_namespace m \<in> set (namespace_ancestors ns)))
        \<and> visibility_clause render (compute_visibility_prefixes (rq_as_agent q)) m" if "m \<in> fst ` set out" for m
  proof -
    have "m \<in> fst ` set ?sel" using that sub by auto
    from recall_select_mem [OF this] obtain r where
      r: "r \<in> set (db_memories db)" "m = row_to_memory r" "recall_where render now q r" by auto
    show ?thesis
      using get_unique [OF mo r(1)] recall_where_memory [OF r(3)]
      unfolding r(2) row_to_memory_sel by simp
  qed
  have ok': "db_ok db'" unfolding db' by (rule touch_all_ok [OF ok])
  note rows = touch_all_row [OF dist, of _ add_secs now "rq_short_extend q" "rq_mid_extend q" db, folded db']
  show ?thesis by (intro conjI allI ballI ok' len dist rows each)
qed

theorem recall_sound_witness:
  "let ((out, oc), db') = recall (\<lambda>q r. True) (\<lambda>q r. 0) (\<lambda>n t. 0) (\<lambda>v. []) length (\<lambda>t s. t) ''2026-01-05'' ex_db ''x''
       \<lparr>rq_namespace = Some ''g'', rq_limit = 2, rq_tags = None, rq_since = None, rq_until = None,
        rq_short_extend = 1, rq_mid_extend = 1, rq_as_agent = None, rq_budget = None\<rparr>
   in length out \<le> 2 \<and> (\<forall>m \<in> fst ` set out. get ex_db (m_id m) = Some m) \<and> db_ok db'"
proof -
  let ?q = "\<lparr>rq_namespace = Some ''g'', rq_limit = 2, rq_tags = None, rq_since = None, rq_until = None,
        rq_short_extend = 1, rq_mid_extend = 1, rq_as_agent = None, rq_budget = None\<rparr>"
  let ?run = "recall (\<lambda>q r. True) (\<lambda>q r. 0) (\<lambda>n t. 0) (\<lambda>v. []) length (\<lambda>t s. t) ''2026-01-05'' ex_db ''x'' ?q"
  obtain out oc db' where r: "?run = ((out, oc), db')" by (metis prod.collapse)
  show ?thesis using recall_sound [OF ex_db_ok r] unfolding r by (simp add: r)
qed

end
