(* ===== verification/Archive.thy ===== *)
theory Archive
  imports Search
begin

text \<open>
  Archiving, restoring, forgetting, garbage collection and export (\<open>src/db.rs\<close>). A transaction is one
  step: an error returns the unchanged database. \<open>fts\<close> is the full-text index, \<open>ser\<close> the JSON
  serializer, \<open>minus_days\<close> \<open>chrono\<close>'s subtraction of days from the current time.
\<close>

text \<open>\<open>INSERT OR REPLACE\<close> of several rows: each replaces the row with its key.\<close>

definition insert_or_replace :: "('r \<Rightarrow> 'k) \<Rightarrow> 'r list \<Rightarrow> 'r list \<Rightarrow> 'r list" where
  "insert_or_replace key rows t = fold (\<lambda>r t. sql_delete (\<lambda>x. key x = key r) t @ [r]) rows t"

text \<open>The row the \<open>INSERT .. SELECT\<close> statements write; the metadata column is passed separately.\<close>

definition archive_row :: "str \<Rightarrow> str \<Rightarrow> json \<Rightarrow> MemRow \<Rightarrow> ArchRow" where
  "archive_row now reason metadata r =
     \<lparr>m_id = m_id r, m_tier = m_tier r, m_namespace = m_namespace r, m_title = m_title r,
      m_content = m_content r, m_tags = m_tags r, m_priority = m_priority r,
      m_confidence = m_confidence r, m_source = m_source r, m_access_count = m_access_count r,
      m_created_at = m_created_at r, m_updated_at = m_updated_at r,
      m_last_accessed_at = m_last_accessed_at r, m_expires_at = m_expires_at r,
      m_metadata = metadata, r_embedding = r_embedding r, r_embedding_dim = r_embedding_dim r,
      a_archived_at = now, a_archive_reason = reason,
      a_original_tier = Some (m_tier r), a_original_expires_at = m_expires_at r\<rparr>"

definition archive_memory :: "str \<Rightarrow> Db \<Rightarrow> str \<Rightarrow> str option \<Rightarrow> bool \<times> Db" where
  "archive_memory now db i reason =
     (let reason' = (case reason of Some r \<Rightarrow> r | None \<Rightarrow> ''archive'');
          exists = sql_count (\<lambda>r. m_id r = i) (db_memories db) > 0 in
      if \<not> exists then (False, db)
      else let rows = map (\<lambda>r. archive_row now reason' (m_metadata r) r)
                        (filter (\<lambda>r. m_id r = i) (db_memories db));
               db1 = db\<lparr>db_archived := insert_or_replace m_id rows (db_archived db)\<rparr>;
               db2 = db1\<lparr>db_namespace_meta := sql_delete (\<lambda>n. nm_standard_id n = i) (db_namespace_meta db1)\<rparr>;
               removed = sql_count (\<lambda>r. m_id r = i) (db_memories db2)
           in (removed > 0, delete_memories (\<lambda>r. m_id r = i) db2))"

subsection \<open>Forget\<close>

definition forget_where ::
    "(str \<Rightarrow> MemRow \<Rightarrow> bool) \<Rightarrow> str option \<Rightarrow> str option \<Rightarrow> Tier option \<Rightarrow> MemRow \<Rightarrow> bool" where
  "forget_where fts namespace pattern tier r =
     ((case pattern of Some pat \<Rightarrow> fts (sanitize_fts_query pat True) r | None \<Rightarrow> True)
      \<and> opt_ok (\<lambda>n. m_namespace r = n) namespace
      \<and> opt_ok (\<lambda>t. m_tier r = t) tier)"

definition forget_count ::
    "(str \<Rightarrow> MemRow \<Rightarrow> bool) \<Rightarrow> Db \<Rightarrow> str option \<Rightarrow> str option \<Rightarrow> Tier option \<Rightarrow> DbError + nat" where
  "forget_count fts db namespace pattern tier =
     (if pattern = None \<and> namespace = None \<and> tier = None then Inl FilterRequired
      else Inr (sql_count (forget_where fts namespace pattern tier) (db_memories db)))"

text \<open>The statements of \<open>forget\<close> do not name the metadata column, so it takes its default \<open>{}\<close>.\<close>

definition forget ::
    "(str \<Rightarrow> MemRow \<Rightarrow> bool) \<Rightarrow> str \<Rightarrow> Db \<Rightarrow> str option \<Rightarrow> str option \<Rightarrow> Tier option \<Rightarrow> bool \<Rightarrow> nat db_result" where
  "forget fts now db namespace pattern tier archive =
     (if pattern = None \<and> namespace = None \<and> tier = None then (Inl FilterRequired, db)
      else let sel = forget_where fts namespace pattern tier;
               db1 = (if archive
                      then db\<lparr>db_archived := insert_or_replace m_id
                                (map (archive_row now ''forget'' (JObj [])) (filter sel (db_memories db)))
                                (db_archived db)\<rparr>
                      else db)
           in (Inr (sql_count sel (db_memories db1)), delete_memories sel db1))"

subsection \<open>Garbage collection\<close>

definition expired :: "str \<Rightarrow> 'a Memory_scheme \<Rightarrow> bool" where
  "expired now r = (case m_expires_at r of Some e \<Rightarrow> e < now | None \<Rightarrow> False)"

definition gc :: "str \<Rightarrow> Db \<Rightarrow> bool \<Rightarrow> nat \<times> Db" where
  "gc now db archive =
     (let db1 = (if archive
                 then db\<lparr>db_archived := insert_or_replace m_id
                           (map (\<lambda>r. archive_row now ''ttl_expired'' (m_metadata r) r)
                              (filter (expired now) (db_memories db)))
                           (db_archived db)\<rparr>
                 else db);
          deleted = sql_count (expired now) (db_memories db1);
          db2 = delete_memories (expired now) db1
      in (deleted,
          db2\<lparr>db_namespace_meta :=
                sql_delete (\<lambda>n. nm_standard_id n \<notin> set (map m_id (db_memories db2))) (db_namespace_meta db2)\<rparr>))"

definition gc_if_needed :: "str \<Rightarrow> Db \<Rightarrow> bool \<Rightarrow> nat \<times> Db" where
  "gc_if_needed now db archive =
     (if list_ex (expired now) (db_memories db) then gc now db archive else (0, db))"

definition purge_archive :: "(str \<Rightarrow> int \<Rightarrow> str) \<Rightarrow> str \<Rightarrow> Db \<Rightarrow> int option \<Rightarrow> nat db_result" where
  "purge_archive minus_days now db older_than_days =
     (case older_than_days of
        Some days \<Rightarrow>
          if days < 0 then (Inl (NegativeDays days), db)
          else let cutoff = minus_days now days in
               (Inr (sql_count (\<lambda>r. a_archived_at r < cutoff) (db_archived db)),
                db\<lparr>db_archived := sql_delete (\<lambda>r. a_archived_at r < cutoff) (db_archived db)\<rparr>)
      | None \<Rightarrow> (Inr (length (db_archived db)), db\<lparr>db_archived := []\<rparr>))"

definition auto_purge_archive :: "(str \<Rightarrow> int \<Rightarrow> str) \<Rightarrow> str \<Rightarrow> Db \<Rightarrow> int option \<Rightarrow> nat db_result" where
  "auto_purge_archive minus_days now db max_days =
     (case max_days of
        Some days \<Rightarrow> if days > 0 then purge_archive minus_days now db (Some days) else (Inr 0, db)
      | None \<Rightarrow> (Inr 0, db))"

subsection \<open>Restore and export\<close>

definition restored_row :: "str \<Rightarrow> ArchRow \<Rightarrow> MemRow" where
  "restored_row now a =
     \<lparr>m_id = m_id a, m_tier = (case a_original_tier a of Some t \<Rightarrow> t | None \<Rightarrow> Long),
      m_namespace = m_namespace a, m_title = m_title a, m_content = m_content a, m_tags = m_tags a,
      m_priority = m_priority a, m_confidence = m_confidence a, m_source = m_source a,
      m_access_count = m_access_count a, m_created_at = m_created_at a, m_updated_at = now,
      m_last_accessed_at = m_last_accessed_at a, m_expires_at = a_original_expires_at a,
      m_metadata = m_metadata a, r_embedding = r_embedding a, r_embedding_dim = r_embedding_dim a\<rparr>"

definition restore_archived :: "(json \<Rightarrow> str) \<Rightarrow> str \<Rightarrow> Db \<Rightarrow> str \<Rightarrow> bool db_result" where
  "restore_archived ser now db i =
     (case sql_row (\<lambda>a. m_id a = i) (db_archived db) of
        None \<Rightarrow> (Inr False, db)
      | Some a \<Rightarrow>
          if sql_row (\<lambda>r. m_id r = i) (db_memories db) \<noteq> None then (Inl (WouldOverwrite i), db)
          else let a' = (if is_ok (validate_metadata ser (m_metadata a)) then a else a\<lparr>m_metadata := JObj []\<rparr>);
                   r = restored_row now a'
               in if sql_row (\<lambda>x. m_title x = m_title r \<and> m_namespace x = m_namespace r) (db_memories db) \<noteq> None
                  then (Inl ConstraintViolation, db)
                  else (Inr True,
                        db\<lparr>db_memories := db_memories db @ [r],
                           db_archived := sql_delete (\<lambda>a. m_id a = i) (db_archived db)\<rparr>))"

definition list_archived :: "Db \<Rightarrow> str option \<Rightarrow> nat \<Rightarrow> nat \<Rightarrow> ArchRow list" where
  "list_archived db namespace limit offset =
     take limit (drop offset (order_by (\<lambda>a b. a_archived_at a > a_archived_at b)
       (filter (\<lambda>r. opt_ok (\<lambda>n. m_namespace r = n) namespace) (db_archived db))))"

definition export_all :: "str \<Rightarrow> Db \<Rightarrow> Memory list" where
  "export_all now db =
     map row_to_memory (order_by (\<lambda>a b. m_created_at a < m_created_at b) (filter (not_expired now) (db_memories db)))"

text \<open>The joins of \<open>export_links\<close>: both endpoints are live memories.\<close>

definition export_links :: "str \<Rightarrow> Db \<Rightarrow> MemoryLink list" where
  "export_links now db =
     (let live = map m_id (filter (not_expired now) (db_memories db)) in
      map (\<lambda>l. \<lparr>l_source_id = l_source_id l, l_target_id = l_target_id l, l_relation = l_relation l,
                 l_created_at = l_created_at l, l_signature = l_signature l, l_observed_by = l_observed_by l,
                 l_valid_from = l_valid_from l, l_valid_until = l_valid_until l\<rparr>)
        (filter (\<lambda>l. l_source_id l \<in> set live \<and> l_target_id l \<in> set live) (db_links db)))"

section \<open>Correctness\<close>

lemma unique_insert_or_replace: "unique_key key t \<Longrightarrow> unique_key key (insert_or_replace key rows t)"
  unfolding insert_or_replace_def
proof (induction rows arbitrary: t)
  case (Cons r rows)
  have "unique_key key (sql_delete (\<lambda>x. key x = key r) t @ [r])"
    using Cons.prems by (auto simp: unique_key_snoc unique_key_delete set_sql_delete)
  then show ?case using Cons.IH by simp
qed simp

lemma set_insert_or_replace:
  "distinct (map key rows) \<Longrightarrow>
     set (insert_or_replace key rows t) = set rows \<union> {x \<in> set t. key x \<notin> key ` set rows}"
  unfolding insert_or_replace_def
proof (induction rows arbitrary: t)
  case (Cons r rows)
  then have d: "distinct (map key rows)" "key r \<notin> key ` set rows" by auto
  have "set (sql_delete (\<lambda>x. key x = key r) t @ [r]) = {x \<in> set t. key x \<noteq> key r} \<union> {r}"
    by (auto simp: set_sql_delete)
  then show ?case using Cons.IH [OF d(1), of "sql_delete (\<lambda>x. key x = key r) t @ [r]"] d(2) by auto
qed simp

lemma db_ok_archived: "db_ok db \<Longrightarrow> unique_key m_id t \<Longrightarrow> db_ok (db\<lparr>db_archived := t\<rparr>)"
  by (auto simp: db_ok_def links_ok_def mem_ids_def)

lemma db_ok_namespace_meta: "db_ok db \<Longrightarrow> unique_key nm_namespace t \<Longrightarrow> db_ok (db\<lparr>db_namespace_meta := t\<rparr>)"
  by (auto simp: db_ok_def links_ok_def mem_ids_def)

lemma db_ok_meta_delete: "db_ok db \<Longrightarrow> db_ok (db\<lparr>db_namespace_meta := sql_delete P (db_namespace_meta db)\<rparr>)"
  by (rule db_ok_namespace_meta) (auto simp: db_ok_def unique_key_delete)

lemma db_ok_archive_rows: "db_ok db \<Longrightarrow> db_ok (db\<lparr>db_archived := insert_or_replace m_id rows (db_archived db)\<rparr>)"
  by (rule db_ok_archived) (auto simp: db_ok_def unique_insert_or_replace)

lemma archive_memory_ok: "db_ok db \<Longrightarrow> db_ok (snd (archive_memory now db i reason))"
  unfolding archive_memory_def Let_def
  by (auto intro!: db_ok_delete_memories db_ok_meta_delete [of "_\<lparr>db_archived := _\<rparr>", simplified] db_ok_archive_rows)

lemma forget_ok: "db_ok db \<Longrightarrow> db_ok (snd (forget fts now db ns pat tier archive))"
  by (auto simp: forget_def Let_def intro!: db_ok_delete_memories db_ok_archive_rows)

lemma gc_ok: "db_ok db \<Longrightarrow> db_ok (snd (gc now db archive))"
proof -
  assume ok: "db_ok db"
  define db1 where "db1 = (if archive
                 then db\<lparr>db_archived := insert_or_replace m_id
                           (map (\<lambda>r. archive_row now ''ttl_expired'' (m_metadata r) r)
                              (filter (expired now) (db_memories db)))
                           (db_archived db)\<rparr>
                 else db)"
  have "db_ok db1" using ok by (simp add: db1_def db_ok_archive_rows)
  then have "db_ok (delete_memories (expired now) db1)" by (rule db_ok_delete_memories)
  then show ?thesis unfolding gc_def db1_def [symmetric] Let_def snd_conv by (rule db_ok_meta_delete)
qed

lemma purge_archive_ok: "db_ok db \<Longrightarrow> db_ok (snd (purge_archive md now db days))"
  by (auto simp: purge_archive_def Let_def db_ok_def unique_key_delete links_ok_def mem_ids_def split: option.split)

lemma restore_archived_ok:
  assumes ok: "db_ok db"
  shows "db_ok (snd (restore_archived ser now db i))"
proof -
  have snoc: "db_ok (db\<lparr>db_memories := db_memories db @ [r], db_archived := sql_delete P (db_archived db)\<rparr>)"
    if "sql_row (\<lambda>x. m_id x = m_id r) (db_memories db) = None"
      "sql_row (\<lambda>x. m_title x = m_title r \<and> m_namespace x = m_namespace r) (db_memories db) = None" for r P
  proof -
    have "memories_ok (db_memories db @ [r])"
      using ok that by (auto simp: db_ok_def memories_ok_def unique_key_snoc sql_row_None title_key_def)
    then have "db_ok (db\<lparr>db_memories := db_memories db @ [r]\<rparr>)" using ok by (intro db_ok_memories) auto
    from db_ok_archived [OF this, of "sql_delete P (db_archived db)"] ok show ?thesis
      by (simp add: db_ok_def unique_key_delete)
  qed
  show ?thesis
    unfolding restore_archived_def Let_def
    by (auto split: option.split simp: ok restored_row_def dest: sql_row_SomeD intro!: snoc)
qed

lemma archive_memory_eq:
  assumes ok: "db_ok db" and r: "r \<in> set (db_memories db)"
  shows "archive_memory now db (m_id r) reason =
    (True, delete_memories (\<lambda>x. m_id x = m_id r)
       (db\<lparr>db_archived := sql_delete (\<lambda>x. m_id x = m_id r) (db_archived db)
              @ [archive_row now (case reason of Some s \<Rightarrow> s | None \<Rightarrow> ''archive'') (m_metadata r) r],
           db_namespace_meta := sql_delete (\<lambda>n. nm_standard_id n = m_id r) (db_namespace_meta db)\<rparr>))"
proof -
  have u: "unique_key m_id (db_memories db)" using ok by (simp add: db_ok_def memories_ok_def)
  have "filter (\<lambda>x. m_id x = m_id r) (db_memories db) = [r]"
    using u r by (rule filter_unique)
  then show ?thesis
    by (auto simp: archive_memory_def Let_def sql_count_def insert_or_replace_def archive_row_def)
qed

section \<open>Properties\<close>



text \<open>Forgetting with the archive option does not keep the metadata: every memory it archives comes
  back from a restore with empty metadata, so its author, scope and governance are lost.\<close>

theorem forget_archive_loses_metadata:
  assumes ok: "db_ok db" and r: "r \<in> set (db_memories db)" "forget_where fts ns pat tier r"
    and f: "forget fts now db ns pat tier True = (Inr n, db1)"
    and rest: "restore_archived ser now2 db1 (m_id r) = (Inr True, db2)"
  shows "\<exists>m. get db2 (m_id r) = Some m \<and> m_metadata m = JObj []"
proof -
  let ?sel = "forget_where fts ns pat tier"
  let ?rows = "map (archive_row now ''forget'' (JObj [])) (filter ?sel (db_memories db))"
  have db1: "db1 = delete_memories ?sel (db\<lparr>db_archived := insert_or_replace m_id ?rows (db_archived db)\<rparr>)"
    using f by (auto simp: forget_def Let_def split: if_splits)
  have "distinct (map m_id ?rows)"
    using ok by (auto simp: db_ok_def memories_ok_def unique_key_def distinct_map inj_on_def archive_row_def comp_def)
  note arc = set_insert_or_replace [OF this, of "db_archived db"]
  from rest obtain a where a: "sql_row (\<lambda>a. m_id a = m_id r) (db_archived db1) = Some a"
    and none: "sql_row (\<lambda>x. m_id x = m_id r) (db_memories db1) = None"
    and db2: "db_memories db2 = db_memories db1
        @ [restored_row now2 (if is_ok (validate_metadata ser (m_metadata a)) then a else a\<lparr>m_metadata := JObj []\<rparr>)]"
    by (auto simp: restore_archived_def Let_def split: option.splits if_splits)
  from a have "a \<in> set (insert_or_replace m_id ?rows (db_archived db))" "m_id a = m_id r"
    by (auto simp: db1 dest: sql_row_SomeD)
  moreover have "m_id r \<in> m_id ` set ?rows"
  proof -
    have "archive_row now ''forget'' (JObj []) r \<in> set ?rows" using r by simp
    moreover have "m_id (archive_row now ''forget'' (JObj []) r) = m_id r" by (simp add: archive_row_def)
    ultimately show ?thesis by (metis image_eqI)
  qed
  ultimately have "a \<in> set ?rows" unfolding arc by auto
  then have "m_metadata a = JObj []" by (auto simp: archive_row_def)
  moreover have "m_id a = m_id r" using a by (auto dest: sql_row_SomeD)
  ultimately show ?thesis using none
    by (auto simp: get_def db2 sql_row_def find_append restored_row_def)
qed

theorem forget_archive_loses_metadata_witness:
  "let (n, db1) = forget (\<lambda>q r. True) ''2026-01-03'' ex_db (Some ''g'') None None True;
       (res, db2) = restore_archived (\<lambda>j. ''{}'') ''2026-01-04'' db1 ''m1'' in
   map_option m_metadata (get ex_db ''m1'') = Some (JObj [(''agent_id'', JStr ''alice'')])
   \<and> (\<exists>m. get db2 ''m1'' = Some m \<and> m_metadata m = JObj [])"
proof -
  let ?m = "row_of (ex_note ''m1'' ''a'' Mid ''alice'')"
  let ?f = "forget (\<lambda>q r. True) ''2026-01-03'' ex_db (Some ''g'') None None True"
  have "db_memories ex_db = [?m, row_of (ex_note ''m2'' ''b'' Long ''bob'')]" by code_simp
  then have mem: "?m \<in> set (db_memories ex_db)" by simp
  have mid: "m_id ?m = ''m1''" and wh: "forget_where (\<lambda>q r. True) (Some ''g'') None None ?m" by code_simp+
  have "fst ?f = Inr 2" by code_simp
  then obtain db1 where f: "?f = (Inr 2, db1)" by (metis prod.collapse)
  have "map_option m_metadata (sql_row (\<lambda>a. m_id a = ''m1'') (db_archived (snd ?f))) = Some (JObj [])"
    "db_memories (snd ?f) = []" by code_simp+
  then obtain a where a: "sql_row (\<lambda>a. m_id a = ''m1'') (db_archived db1) = Some a" "db_memories db1 = []"
    using f by auto
  obtain db2 where r: "restore_archived (\<lambda>j. ''{}'') ''2026-01-04'' db1 (m_id ?m) = (Inr True, db2)"
    by (simp add: mid restore_archived_def a Let_def sql_row_None)
  have md: "map_option m_metadata (get ex_db ''m1'') = Some (JObj [(''agent_id'', JStr ''alice'')])" by code_simp
  show ?thesis
    using forget_archive_loses_metadata [OF ex_db_ok mem wh f r] r md unfolding mid by (simp add: f)
qed

text \<open>Garbage collection removes exactly the memories whose expiry lies before the current time and
  reports their number; a memory without expiry is never removed. With archiving every removed memory
  is in the archive with its metadata and embedding. No link and no namespace standard is left
  dangling.\<close>

theorem gc_exact:
  assumes ok: "db_ok db" and res: "gc now db archive = (n, db')"
  shows "db_ok db'
    \<and> set (db_memories db') = {r \<in> set (db_memories db). \<not> expired now r}
    \<and> n + length (db_memories db') = length (db_memories db)
    \<and> (\<forall>r \<in> set (db_memories db). m_expires_at r = None \<longrightarrow> get db' (m_id r) = Some (row_to_memory r))
    \<and> (archive \<longrightarrow> (\<forall>r \<in> set (db_memories db). expired now r \<longrightarrow>
         archive_row now ''ttl_expired'' (m_metadata r) r \<in> set (db_archived db')))
    \<and> (\<forall>e \<in> set (db_namespace_meta db'). nm_standard_id e \<in> mem_ids db')"
proof (intro conjI)
  let ?rows = "map (\<lambda>r. archive_row now ''ttl_expired'' (m_metadata r) r) (filter (expired now) (db_memories db))"
  show ok': "db_ok db'" using gc_ok [OF ok, of now archive] by (simp add: res)
  have mem: "db_memories db' = sql_delete (expired now) (db_memories db)"
    and n: "n = sql_count (expired now) (db_memories db)"
    and arc: "archive \<longrightarrow> db_archived db' = insert_or_replace m_id ?rows (db_archived db)"
    and nm: "\<forall>e \<in> set (db_namespace_meta db'). nm_standard_id e \<in> m_id ` set (db_memories db')"
    using res by (auto simp: gc_def Let_def set_sql_delete split: if_splits)
  show set': "set (db_memories db') = {r \<in> set (db_memories db). \<not> expired now r}"
    by (simp add: mem set_sql_delete)
  show "n + length (db_memories db') = length (db_memories db)"
    using length_sql_delete [of "expired now" "db_memories db"] by (simp add: mem n)
  show "\<forall>r \<in> set (db_memories db). m_expires_at r = None \<longrightarrow> get db' (m_id r) = Some (row_to_memory r)"
    using get_unique [of db'] ok' set' by (auto simp: db_ok_def expired_def)
  have "distinct (map m_id ?rows)"
    using ok by (auto simp: db_ok_def memories_ok_def unique_key_def distinct_map inj_on_def archive_row_def comp_def)
  then show "archive \<longrightarrow> (\<forall>r \<in> set (db_memories db). expired now r \<longrightarrow>
         archive_row now ''ttl_expired'' (m_metadata r) r \<in> set (db_archived db'))"
    using arc by (auto simp: set_insert_or_replace)
  show "\<forall>e \<in> set (db_namespace_meta db'). nm_standard_id e \<in> mem_ids db'"
    using nm by (simp add: mem_ids_def)
qed

theorem gc_exact_witness:
  "let (n, db') = gc ''2026-03-01'' ex_db True in
   n + length (db_memories db') = 2 \<and> (\<forall>r \<in> set (db_memories db'). \<not> expired ''2026-03-01'' r)
   \<and> get db' ''m1'' = None"
proof -
  obtain n db' where g: "gc ''2026-03-01'' ex_db True = (n, db')" by fastforce
  have "get (snd (gc ''2026-03-01'' ex_db True)) ''m1'' = None" "length (db_memories ex_db) = 2" by code_simp+
  then show ?thesis using gc_exact [OF ex_db_ok g] by (simp add: g)
qed

text \<open>Promoting a memory to long-term by \<open>update\<close> does not clear its expiry, unlike \<open>insert\<close> and
  \<open>touch\<close>: the memory reports tier long and is still removed by the next garbage collection after its
  old expiry.\<close>

theorem update_long_still_expires:
  assumes ok: "db_ok db" and old: "get db i = Some old" "m_expires_at old = Some e" "e < now2"
    and u: "u_tier u = Some Long" "u_expires_at u = None"
    and upd: "update now db i u = (Inr (True, c), db1)"
  shows "\<exists>m. get db1 i = Some m \<and> m_tier m = Long \<and> m_expires_at m = Some e
    \<and> get (snd (gc now2 db1 archive)) i = None"
proof -
  have mo: "memories_ok (db_memories db)" using ok by (simp add: db_ok_def)
  obtain r where r: "r \<in> set (db_memories db)" "m_id r = i" "old = row_to_memory r"
    using get_SomeD [OF old(1)] by blast
  have nr: "\<not> update_refused now u db r" using update_eq [OF mo r(1,2), of now u] upd by auto
  have db1: "db1 = db\<lparr>db_memories := sql_update (\<lambda>x. m_id x = i) (updated now u) (db_memories db)\<rparr>"
    using update_eq [OF mo r(1,2), of now u] upd nr by auto
  have row: "sql_row (\<lambda>x. m_id x = i) (db_memories db) = Some r"
    using mo r by (auto simp: memories_ok_def dest: sql_row_unique)
  have row1: "sql_row (\<lambda>x. m_id x = i) (db_memories db1) = Some (updated now u r)"
    by (simp add: db1 updated_id.row_update_key row)
  have tier: "m_tier (updated now u r) = Long"
    using u(1) by (cases "m_tier r") (auto simp: updated_def effective_tier_def)
  have exp: "m_expires_at (updated now u r) = Some e"
    using u(2) old(2) by (simp add: updated_def update_expires_def r(3))
  have ok1: "db_ok db1" using update_ok [OF ok, of now i u] by (simp add: upd)
  have "\<forall>x \<in> set (db_memories db1). m_id x = i \<longrightarrow> x = updated now u r"
    using row1 sql_row_unique [of m_id "db_memories db1"] ok1 by (force simp: db_ok_def memories_ok_def)
  then have "\<forall>x \<in> set (sql_delete (expired now2) (db_memories db1)). m_id x \<noteq> i"
    using exp old(3) by (auto simp: set_sql_delete expired_def)
  then have "get (snd (gc now2 db1 archive)) i = None"
    by (auto simp: get_mem_ids mem_ids_def gc_def Let_def)
  with row1 tier exp show ?thesis by (simp add: get_def)
qed

theorem update_long_still_expires_witness:
  "\<exists>db1 m. update ''2026-01-02'' ex_db ''m1'' \<lparr>u_title = None, u_content = None, u_tier = Some Long,
       u_namespace = None, u_tags = None, u_priority = None, u_confidence = None, u_expires_at = None,
       u_metadata = None\<rparr> = (Inr (True, False), db1)
     \<and> get db1 ''m1'' = Some m \<and> m_tier m = Long \<and> get (snd (gc ''2026-03-01'' db1 True)) ''m1'' = None"
proof -
  let ?u = "\<lparr>u_title = None, u_content = None, u_tier = Some Long, u_namespace = None, u_tags = None,
       u_priority = None, u_confidence = None, u_expires_at = None, u_metadata = None\<rparr>"
  have "fst (update ''2026-01-02'' ex_db ''m1'' ?u) = Inr (True, False)" by code_simp
  then obtain db1 where r: "update ''2026-01-02'' ex_db ''m1'' ?u = (Inr (True, False), db1)" by (metis prod.collapse)
  have g: "get ex_db ''m1'' = Some (ex_note ''m1'' ''a'' Mid ''alice'')" by code_simp
  have e: "m_expires_at (ex_note ''m1'' ''a'' Mid ''alice'') = Some ''2026-02-01''" by code_simp
  have lt: "''2026-02-01'' < ''2026-03-01''" by code_simp
  show ?thesis
    using update_long_still_expires [OF ex_db_ok g e lt _ _ r, of True] r by auto
qed

end
