(* ===== verification/Identity.thy ===== *)
theory Identity
  imports Models Validate "HOL-Library.Countable"
begin

text \<open>
  Agent identity (\<open>src/identity/\<close>): how an agent id is resolved, kept through updates, and how links
  are signed and verified. Ed25519 and the CBOR writer are third-party code: they are the fields of
  the record \<open>crypto\<close>. The key directory is \<open>read_file\<close>, the contents of a file or the kind of the I/O
  error; host name, environment, process id and fresh UUIDs are arguments.
\<close>

subsection \<open>Agent ids\<close>

definition anonymize_default_enabled :: "str option \<Rightarrow> bool" where
  "anonymize_default_enabled env_anonymize =
     (case env_anonymize of
        None \<Rightarrow> False
      | Some v \<Rightarrow> to_ascii_lowercase (trim v) \<in> set [''1'', ''true'', ''yes'', ''on''])"

definition hostname_opt :: "str \<Rightarrow> str option" where
  "hostname_opt os = (let s = trim os in if s = [] then None else Some s)"

definition short_uuid :: "str \<Rightarrow> str" where
  "short_uuid simple = take 8 simple"

definition process_discriminator :: "nat \<Rightarrow> str \<Rightarrow> str" where
  "process_discriminator pid simple = ''pid-'' @ show_nat pid @ ''-'' @ short_uuid simple"

definition component_char :: "char \<Rightarrow> bool" where
  "component_char c = (is_ascii_alphanumeric (byte_of c) \<or> c \<in> {CHR ''_'', CHR ''-'', CHR ''.''})"

text \<open>
  The loop of \<open>sanitize_component\<close>, byte by byte: every byte of a character outside ASCII is
  replaced, and the run of its bytes gives one dash like the character does.
\<close>

fun sanitize_loop :: "bool \<Rightarrow> str \<Rightarrow> str" where
  "sanitize_loop last_dash [] = []"
| "sanitize_loop last_dash (c # cs) =
     (if component_char c then c # sanitize_loop False cs
      else if \<not> last_dash then CHR ''-'' # sanitize_loop True cs
      else sanitize_loop last_dash cs)"

definition sanitize_component :: "str \<Rightarrow> str" where
  "sanitize_component input =
     trim_end_char CHR ''-'' (dropWhile (\<lambda>c. c = CHR ''-'') (sanitize_loop False input))"

record process_env =
  en_agent_id :: "str option"
  en_anonymize :: "str option"
  en_hostname :: str
  en_pid :: nat
  en_uuid :: str

definition nonempty :: "str option \<Rightarrow> str option" where
  "nonempty x = (case x of Some s \<Rightarrow> if s \<noteq> [] then Some s else None | None \<Rightarrow> None)"

definition claimed :: "str \<Rightarrow> ValidationError + str" where
  "claimed i = and_then (validate_agent_id i) (Inr i)"

definition client_id :: "process_env \<Rightarrow> str option \<Rightarrow> str option" where
  "client_id env mcp_client =
     (case nonempty mcp_client of
        None \<Rightarrow> None
      | Some client \<Rightarrow>
          let host_s = (case hostname_opt (en_hostname env) of
                          None \<Rightarrow> ''unknown'' | Some h \<Rightarrow> sanitize_component h);
              i = ''ai:'' @ sanitize_component client @ ''@'' @ host_s @ '':pid-'' @ show_nat (en_pid env)
          in if is_ok (validate_agent_id i) then Some i else None)"

definition host_id :: "process_env \<Rightarrow> str option" where
  "host_id env =
     (if anonymize_default_enabled (en_anonymize env) then None
      else case hostname_opt (en_hostname env) of
          None \<Rightarrow> None
        | Some host \<Rightarrow>
            let host_s = sanitize_component host;
                i = ''host:'' @ host_s @ '':'' @ process_discriminator (en_pid env) (en_uuid env)
            in if host_s \<noteq> [] \<and> is_ok (validate_agent_id i) then Some i else None)"

definition resolve_agent_id :: "process_env \<Rightarrow> str option \<Rightarrow> str option \<Rightarrow> ValidationError + str" where
  "resolve_agent_id env explicit mcp_client =
     (case nonempty explicit of
        Some i \<Rightarrow> claimed i
      | None \<Rightarrow>
          (case nonempty (en_agent_id env) of
             Some v \<Rightarrow> claimed v
           | None \<Rightarrow>
               (case client_id env mcp_client of
                  Some i \<Rightarrow> Inr i
                | None \<Rightarrow>
                    (case host_id env of
                       Some i \<Rightarrow> Inr i
                     | None \<Rightarrow> claimed (''anonymous:'' @ process_discriminator (en_pid env) (en_uuid env))))))"

definition resolve_http_agent_id :: "str \<Rightarrow> str option \<Rightarrow> str option \<Rightarrow> ValidationError + str" where
  "resolve_http_agent_id uuid body header =
     (case nonempty body of
        Some i \<Rightarrow> claimed i
      | None \<Rightarrow>
          (case nonempty header of
             Some i \<Rightarrow> claimed i
           | None \<Rightarrow> claimed (''anonymous:req-'' @ short_uuid uuid)))"

definition preserve_agent_id :: "json \<Rightarrow> json \<Rightarrow> json" where
  "preserve_agent_id existing incoming =
     (let merged = (if is_object incoming then incoming else JObj []) in
      case json_get existing ''agent_id'' of
        Some existing_id \<Rightarrow>
          (case merged of JObj kvs \<Rightarrow> JObj (obj_insert ''agent_id'' existing_id kvs) | _ \<Rightarrow> merged)
      | None \<Rightarrow> merged)"

subsection \<open>Keys\<close>

datatype cbor_value = CText str | CNull | CMap "(cbor_value \<times> cbor_value) list"

record crypto =
  into_writer :: "cbor_value \<Rightarrow> nat list option"
  ed_sign :: "nat list \<Rightarrow> nat list \<Rightarrow> nat list"
  ed_verify :: "nat list \<Rightarrow> nat list \<Rightarrow> nat list \<Rightarrow> bool"
  ed_public_ok :: "nat list \<Rightarrow> bool"
  ed_derive :: "nat list \<Rightarrow> nat list"

record AgentKeypair =
  kp_agent_id :: str
  kp_public :: "nat list"
  kp_private :: "nat list option"

definition can_sign :: "AgentKeypair \<Rightarrow> bool" where
  "can_sign kp = (kp_private kp \<noteq> None)"

definition PUBLIC_KEY_LEN :: nat where "PUBLIC_KEY_LEN = 32"
definition SECRET_KEY_LEN :: nat where "SECRET_KEY_LEN = 32"
definition SIGNATURE_LEN :: nat where "SIGNATURE_LEN = 64"

datatype io_error = NotFound | OtherIo

datatype key_error = KeyAgentId ValidationError | ReadPublic | PublicLength nat | PublicDecode
  | SecretLength nat | KeyMismatch | ReadSecret

definition keypair_load :: "crypto \<Rightarrow> (str \<Rightarrow> io_error + nat list) \<Rightarrow> str \<Rightarrow> str \<Rightarrow> key_error + AgentKeypair" where
  "keypair_load cr read_file agent_id dir =
     (case validate_agent_id agent_id of
        Inl e \<Rightarrow> Inl (KeyAgentId e)
      | Inr _ \<Rightarrow>
          (case read_file (dir @ ''/'' @ agent_id @ ''.pub'') of
             Inl _ \<Rightarrow> Inl ReadPublic
           | Inr pub_bytes \<Rightarrow>
               if length pub_bytes \<noteq> PUBLIC_KEY_LEN then Inl (PublicLength (length pub_bytes))
               else if \<not> ed_public_ok cr pub_bytes then Inl PublicDecode
               else
                 (case read_file (dir @ ''/'' @ agent_id @ ''.priv'') of
                    Inr priv_bytes \<Rightarrow>
                      if length priv_bytes \<noteq> SECRET_KEY_LEN then Inl (SecretLength (length priv_bytes))
                      else if ed_derive cr priv_bytes \<noteq> pub_bytes then Inl KeyMismatch
                      else Inr \<lparr>kp_agent_id = agent_id, kp_public = pub_bytes, kp_private = Some priv_bytes\<rparr>
                  | Inl NotFound \<Rightarrow> Inr \<lparr>kp_agent_id = agent_id, kp_public = pub_bytes, kp_private = None\<rparr>
                  | Inl OtherIo \<Rightarrow> Inl ReadSecret)))"

subsection \<open>Signing and verifying links\<close>

record SignableLink =
  sg_src_id :: str
  sg_dst_id :: str
  sg_relation :: str
  sg_observed_by :: "str option"
  sg_valid_from :: "str option"
  sg_valid_until :: "str option"

definition text_or_null :: "str option \<Rightarrow> cbor_value" where
  "text_or_null opt = (case opt of Some s \<Rightarrow> CText s | None \<Rightarrow> CNull)"

text \<open>\<open>BTreeMap::insert\<close>, the map as its entries in key order.\<close>

fun btree_insert :: "str \<Rightarrow> 'v \<Rightarrow> (str \<times> 'v) list \<Rightarrow> (str \<times> 'v) list" where
  "btree_insert k v [] = [(k, v)]"
| "btree_insert k v ((k', v') # kvs) =
     (if k < k' then (k, v) # (k', v') # kvs
      else if k = k' then (k, v) # kvs
      else (k', v') # btree_insert k v kvs)"

definition signable_entries :: "SignableLink \<Rightarrow> (str \<times> cbor_value) list" where
  "signable_entries link =
     fold (\<lambda>(k, v). btree_insert k v)
       [(''src_id'', CText (sg_src_id link)),
        (''dst_id'', CText (sg_dst_id link)),
        (''relation'', CText (sg_relation link)),
        (''observed_by'', text_or_null (sg_observed_by link)),
        (''valid_from'', text_or_null (sg_valid_from link)),
        (''valid_until'', text_or_null (sg_valid_until link))] []"

definition canonical_cbor :: "crypto \<Rightarrow> SignableLink \<Rightarrow> nat list option" where
  "canonical_cbor cr link = into_writer cr (CMap (map (\<lambda>(k, v). (CText k, v)) (signable_entries link)))"

text \<open>\<open>None\<close> is any of the errors of \<open>sign\<close>: no private key, or an encoding failure.\<close>

definition sign_link :: "crypto \<Rightarrow> AgentKeypair \<Rightarrow> SignableLink \<Rightarrow> nat list option" where
  "sign_link cr keypair link =
     (case kp_private keypair of
        None \<Rightarrow> None
      | Some signing \<Rightarrow> map_option (ed_sign cr signing) (canonical_cbor cr link))"

datatype VerifyError = Tampered | NoPublicKey | MalformedSignature

definition verify_link :: "crypto \<Rightarrow> nat list \<Rightarrow> SignableLink \<Rightarrow> nat list \<Rightarrow> VerifyError + unit" where
  "verify_link cr public link signature =
     (if length signature \<noteq> SIGNATURE_LEN then Inl MalformedSignature
      else case canonical_cbor cr link of
          None \<Rightarrow> Inl Tampered
        | Some payload \<Rightarrow> if ed_verify cr public payload signature then Inr () else Inl Tampered)"

text \<open>The key directory of \<open>default_key_dir\<close> is \<open>dir\<close>, \<open>None\<close> where the system names none.\<close>

definition lookup_peer_public_key ::
    "crypto \<Rightarrow> (str \<Rightarrow> io_error + nat list) \<Rightarrow> str option \<Rightarrow> str \<Rightarrow> nat list option" where
  "lookup_peer_public_key cr read_file dir observed_by =
     (if observed_by = [] then None
      else case dir of
          None \<Rightarrow> None
        | Some d \<Rightarrow>
            (case keypair_load cr read_file observed_by d of
               Inl _ \<Rightarrow> None
             | Inr kp \<Rightarrow> Some (kp_public kp)))"

section \<open>Correctness\<close>

lemma claimed_Inr: "(claimed i = Inr j) = (i = j \<and> validate_agent_id i = Inr ())"
  by (auto simp: claimed_def)

lemma is_ok_unit: "is_ok (c :: 'e check) = (c = Inr ())"
  by (cases c) auto

lemma client_id_valid: "client_id env m = Some i \<Longrightarrow> validate_agent_id i = Inr ()"
  by (auto simp: client_id_def Let_def is_ok_unit split: option.splits if_splits)

lemma host_id_valid: "host_id env = Some i \<Longrightarrow> validate_agent_id i = Inr ()"
  by (auto simp: host_id_def Let_def is_ok_unit split: option.splits if_splits)

text \<open>The keys of the signed map, in the order of \<open>BTreeMap\<close>.\<close>

lemma signable_entries_eq:
  "signable_entries l =
     [(''dst_id'', CText (sg_dst_id l)), (''observed_by'', text_or_null (sg_observed_by l)),
      (''relation'', CText (sg_relation l)), (''src_id'', CText (sg_src_id l)),
      (''valid_from'', text_or_null (sg_valid_from l)), (''valid_until'', text_or_null (sg_valid_until l))]"
  by (simp add: signable_entries_def str_less_Cons byte_of_def)

lemma text_or_null_inj [simp]: "(text_or_null a = text_or_null b) = (a = b)"
  by (auto simp: text_or_null_def split: option.splits)

lemma signable_entries_inj: "signable_entries l = signable_entries l' \<Longrightarrow> l = (l' :: SignableLink)"
  by (simp add: signable_entries_eq)

lemma chars_ascii: "\<forall>c \<in> set s. byte_of c < 128 \<Longrightarrow> chars s = map byte_of s"
  by (induction s) (auto simp: Let_def)

lemma agent_id_char_ascii: "agent_id_char b \<Longrightarrow> b < 128"
  by (auto simp: agent_id_char_def is_ascii_alphanumeric_def)

definition id_text :: "str \<Rightarrow> bool" where
  "id_text s = list_all (\<lambda>c. agent_id_char (byte_of c)) s"

lemma id_text_append [simp]: "id_text (s @ t) = (id_text s \<and> id_text t)"
  by (simp add: id_text_def)

lemma agent_id_ascii:
  assumes "s \<noteq> []" "length s \<le> MAX_AGENT_ID_LEN" "id_text s"
  shows "validate_agent_id s = Inr ()"
proof -
  have "chars s = map byte_of s"
    using assms(3) by (intro chars_ascii) (auto simp: id_text_def list_all_iff intro: agent_id_char_ascii)
  with assms show ?thesis by (auto simp: validate_agent_id_iff id_text_def list_all_iff)
qed

lemma show_nat_digits: "c \<in> set (show_nat n) \<Longrightarrow> 48 \<le> byte_of c \<and> byte_of c \<le> 57"
proof (induction n rule: show_nat.induct)
  case (1 n)
  show ?case
  proof (cases "n < 10")
    case True
    with "1.prems" show ?thesis by (subst (asm) show_nat.simps) simp
  next
    case False
    with "1.prems" have "c \<in> set (show_nat (n div 10)) \<or> c = digit_char (n mod 10)"
      by (subst (asm) show_nat.simps) auto
    moreover have "byte_of (digit_char (n mod 10)) = 48 + n mod 10" by simp
    ultimately show ?thesis using "1.IH" [OF False] by auto
  qed
qed

lemma length_show_nat: "n < 10 ^ k \<Longrightarrow> 0 < k \<Longrightarrow> length (show_nat n) \<le> k"
proof (induction k arbitrary: n)
  case (Suc k)
  show ?case
  proof (cases "n < 10")
    case False
    with Suc.prems have "0 < k" "n div 10 < 10 ^ k" by (auto intro: Nat.gr0I)
    with Suc.IH False show ?thesis by (subst show_nat.simps) auto
  qed (subst show_nat.simps, simp)
qed simp

definition hex_digits :: str where "hex_digits = ''0123456789abcdef''"

lemma hex_digit_char: "c \<in> set hex_digits \<Longrightarrow> agent_id_char (byte_of c)"
  by (auto simp: hex_digits_def agent_id_char_def is_ascii_alphanumeric_def byte_of_def)

lemma id_text_show_nat [simp]: "id_text (show_nat n)"
  using show_nat_digits by (auto simp: id_text_def list_all_iff agent_id_char_def is_ascii_alphanumeric_def)

lemma id_text_literals [simp]: "id_text ''anonymous:pid-''" "id_text ''anonymous:req-''" "id_text ''-''"
  by code_simp+

lemma id_text_uuid: "set uuid \<subseteq> set hex_digits \<Longrightarrow> id_text (short_uuid uuid)"
  by (auto simp: id_text_def list_all_iff short_uuid_def intro!: hex_digit_char dest: in_set_takeD)

lemma anonymous_req_valid:
  assumes "set uuid \<subseteq> set hex_digits"
  shows "claimed (''anonymous:req-'' @ short_uuid uuid) = Inr (''anonymous:req-'' @ short_uuid uuid)"
proof -
  have "validate_agent_id (''anonymous:req-'' @ short_uuid uuid) = Inr ()"
  proof (rule agent_id_ascii)
    show "id_text (''anonymous:req-'' @ short_uuid uuid)"
      unfolding id_text_append using id_text_uuid [OF assms] id_text_literals by blast
  qed (auto simp: short_uuid_def MAX_AGENT_ID_LEN_def)
  then show ?thesis unfolding claimed_Inr by blast
qed

lemma anonymous_pid_valid:
  assumes "set uuid \<subseteq> set hex_digits" "pid < 2 ^ 32"
  shows "claimed (''anonymous:'' @ process_discriminator pid uuid) = Inr (''anonymous:'' @ process_discriminator pid uuid)"
proof -
  let ?i = "''anonymous:pid-'' @ show_nat pid @ ''-'' @ short_uuid uuid"
  have "length (show_nat pid) \<le> 10" using assms(2) by (intro length_show_nat) auto
  moreover have "id_text ?i"
    unfolding id_text_append using id_text_uuid [OF assms(1)] id_text_literals id_text_show_nat by blast
  ultimately have "validate_agent_id ?i = Inr ()"
    by (intro agent_id_ascii) (auto simp: short_uuid_def MAX_AGENT_ID_LEN_def)
  then show ?thesis by (simp add: claimed_Inr process_discriminator_def)
qed

section \<open>Properties\<close>

text \<open>Agent id resolution. Whatever the process environment, a resolved id passes validation; an id the
  caller states is used or refused, never replaced; and without any claimed id resolution always
  succeeds, for the HTTP path with a per-request anonymous id.\<close>

theorem resolved_agent_id_valid:
  assumes "set (en_uuid env) \<subseteq> set hex_digits" and "en_pid env < 2 ^ 32" and "set uuid \<subseteq> set hex_digits"
  shows "(resolve_agent_id env explicit client = Inr i \<longrightarrow> validate_agent_id i = Inr ())
    \<and> (resolve_http_agent_id uuid body header = Inr i \<longrightarrow> validate_agent_id i = Inr ())
    \<and> (nonempty explicit = Some e \<longrightarrow> resolve_agent_id env explicit client
         = (case validate_agent_id e of Inl err \<Rightarrow> Inl err | Inr _ \<Rightarrow> Inr e))
    \<and> (\<exists>j. resolve_agent_id (env\<lparr>en_agent_id := None\<rparr>) None client = Inr j)
    \<and> resolve_http_agent_id uuid None None = Inr (''anonymous:req-'' @ short_uuid uuid)"
proof (intro conjI impI)
  show "resolve_agent_id env explicit client = Inr i \<Longrightarrow> validate_agent_id i = Inr ()"
    by (auto simp: resolve_agent_id_def claimed_Inr client_id_valid host_id_valid split: option.splits)
  show "resolve_http_agent_id uuid body header = Inr i \<Longrightarrow> validate_agent_id i = Inr ()"
    by (auto simp: resolve_http_agent_id_def claimed_Inr split: option.splits)
  show "resolve_agent_id env explicit client = (case validate_agent_id e of Inl err \<Rightarrow> Inl err | Inr _ \<Rightarrow> Inr e)"
    if "nonempty explicit = Some e"
    using that by (cases "validate_agent_id e") (simp_all add: resolve_agent_id_def claimed_def)
  show "\<exists>j. resolve_agent_id (env\<lparr>en_agent_id := None\<rparr>) None client = Inr j"
    using anonymous_pid_valid [OF assms(1,2)] by (simp add: resolve_agent_id_def nonempty_def split: option.split)
  show "resolve_http_agent_id uuid None None = Inr (''anonymous:req-'' @ short_uuid uuid)"
    using anonymous_req_valid [OF assms(3)] by (simp add: resolve_http_agent_id_def nonempty_def)
qed

theorem resolved_agent_id_valid_witness:
  "resolve_http_agent_id ''0a1b2c3d4e5f'' None None = Inr ''anonymous:req-0a1b2c3d''"
proof -
  let ?env = "\<lparr>en_agent_id = None, en_anonymize = None, en_hostname = ''h'', en_pid = 7, en_uuid = ''0a1b2c3d4e5f''\<rparr>"
  have h: "set ''0a1b2c3d4e5f'' \<subseteq> set hex_digits" by code_simp
  have "set (en_uuid ?env) \<subseteq> set hex_digits" "en_pid ?env < 2 ^ 32" using h by simp_all
  from resolved_agent_id_valid [OF this h] show ?thesis by (simp add: short_uuid_def)
qed

text \<open>\<open>preserve_agent_id\<close> keeps the author of the stored metadata whatever the incoming metadata claims,
  takes every other key from the incoming object, and always yields an object.\<close>

theorem preserve_agent_id_exact:
  "is_object (preserve_agent_id existing incoming)
   \<and> json_get (preserve_agent_id existing incoming) k =
       (if k = ''agent_id'' \<and> json_get existing ''agent_id'' \<noteq> None then json_get existing ''agent_id''
        else if is_object incoming then json_get incoming k else None)"
  by (cases incoming; cases "json_get existing ''agent_id''")
    (auto simp: preserve_agent_id_def is_object_def json_get_def split: json.splits)

text \<open>C39: Link signatures are tamper evident. With a CBOR writer that encodes distinct values differently and an Ed25519
  under which the signature of one of the two encodings is valid for it and not for the other, the signature
  a key makes of a link verifies against its public key, and against no link that differs in any of
  the six signed fields; a signature of the wrong length is refused as malformed.\<close>

theorem link_signature_binds:
  assumes "\<And>v w b. into_writer cr v = Some b \<Longrightarrow> into_writer cr w = Some b \<Longrightarrow> v = w"
    and "kp_private kp = Some sk" and "length (ed_sign cr sk m) = SIGNATURE_LEN"
    and "canonical_cbor cr link = Some m" and "canonical_cbor cr link' = Some m'"
    and "\<And>x. x \<in> {m, m'} \<Longrightarrow> ed_verify cr (kp_public kp) x (ed_sign cr sk m) \<longleftrightarrow> x = m"
  shows "\<exists>sig. sign_link cr kp link = Some sig
      \<and> verify_link cr (kp_public kp) link' sig = (if link' = link then Inr () else Inl Tampered)
      \<and> verify_link cr (kp_public kp) link' (sig @ [b]) = Inl MalformedSignature"
proof -
  have "link' = link \<longleftrightarrow> m' = m"
  proof
    assume "m' = m"
    then have "CMap (map (\<lambda>(k, v). (CText k, v)) (signable_entries link'))
        = CMap (map (\<lambda>(k, v). (CText k, v)) (signable_entries link))"
      using assms(1,4,5) unfolding canonical_cbor_def by blast
    then have "signable_entries link' = signable_entries link" by (simp add: signable_entries_eq)
    then show "link' = link" by (rule signable_entries_inj)
  qed (use assms(4,5) in simp)
  then show ?thesis using assms(2-6) by (simp add: sign_link_def verify_link_def)
qed

text \<open>An injective writer and a signature scheme whose signature is the number of the message.\<close>

instance cbor_value :: countable
  by countable_datatype

definition ex_crypto :: crypto where
  "ex_crypto = \<lparr>into_writer = (\<lambda>v. Some [to_nat v]),
     ed_sign = (\<lambda>sk m. to_nat m # replicate 63 0),
     ed_verify = (\<lambda>pk m sig. sig = to_nat m # replicate 63 0),
     ed_public_ok = (\<lambda>_. True), ed_derive = (\<lambda>sk. sk)\<rparr>"

definition ex_link :: "str \<Rightarrow> SignableLink" where
  "ex_link relation = \<lparr>sg_src_id = ''a'', sg_dst_id = ''b'', sg_relation = relation,
     sg_observed_by = Some ''alice'', sg_valid_from = None, sg_valid_until = None\<rparr>"

theorem link_signature_binds_witness:
  "\<exists>sig. sign_link ex_crypto \<lparr>kp_agent_id = ''alice'', kp_public = [], kp_private = Some []\<rparr> (ex_link ''related_to'') = Some sig
     \<and> verify_link ex_crypto [] (ex_link ''supersedes'') sig = Inl Tampered"
proof -
  let ?kp = "\<lparr>kp_agent_id = ''alice'', kp_public = [], kp_private = Some []\<rparr>"
  obtain m where m: "canonical_cbor ex_crypto (ex_link ''related_to'') = Some m"
    by (simp add: canonical_cbor_def ex_crypto_def)
  obtain m' where m': "canonical_cbor ex_crypto (ex_link ''supersedes'') = Some m'"
    by (simp add: canonical_cbor_def ex_crypto_def)
  have "ex_link ''supersedes'' \<noteq> ex_link ''related_to''" by (simp add: ex_link_def)
  moreover have "\<exists>sig. sign_link ex_crypto ?kp (ex_link ''related_to'') = Some sig
      \<and> verify_link ex_crypto (kp_public ?kp) (ex_link ''supersedes'') sig
         = (if ex_link ''supersedes'' = ex_link ''related_to'' then Inr () else Inl Tampered)
      \<and> verify_link ex_crypto (kp_public ?kp) (ex_link ''supersedes'') (sig @ [0]) = Inl MalformedSignature"
    by (rule link_signature_binds [where sk = "[]", OF _ _ _ m m']) (auto simp: ex_crypto_def SIGNATURE_LEN_def)
  ultimately show ?thesis by auto
qed

end
