(* ===== verification/Links.thy ===== *)
theory Links
  imports Archive Identity
begin

text \<open>
  Links between memories, vertical promotion and consolidation (\<open>src/db.rs\<close>). The
  libraries that sign a link are the argument \<open>cr\<close> (see \<open>Identity\<close>), a fresh UUID is the argument
  \<open>new_id\<close>.
\<close>

definition mem_exists :: "Db \<Rightarrow> str \<Rightarrow> bool" where
  "mem_exists db i = (sql_row (\<lambda>r. m_id r = i) (db_memories db) \<noteq> None)"

definition create_link_signed ::
    "crypto \<Rightarrow> str \<Rightarrow> Db \<Rightarrow> str \<Rightarrow> str \<Rightarrow> str \<Rightarrow> AgentKeypair option \<Rightarrow> AttestLevel db_result" where
  "create_link_signed cr now db source_id target_id relation keypair =
     (if \<not> mem_exists db source_id then (Inl (SourceNotFound source_id), db)
      else if \<not> mem_exists db target_id then (Inl (TargetNotFound target_id), db)
      else
        let signed =
          (case keypair of
             Some kp \<Rightarrow>
               if can_sign kp
               then (case sign_link cr kp
                        \<lparr>sg_src_id = source_id, sg_dst_id = target_id, sg_relation = relation,
                         sg_observed_by = Some (kp_agent_id kp), sg_valid_from = Some now,
                         sg_valid_until = None\<rparr> of
                       None \<Rightarrow> Inl SignFailed
                     | Some sig \<Rightarrow> Inr (Some sig, SelfSigned, Some (kp_agent_id kp)))
               else Inr (None, Unsigned, None)
           | None \<Rightarrow> Inr (None, Unsigned, None))
        in case signed of
             Inl e \<Rightarrow> (Inl e, db)
           | Inr (signature, attest_level, observed_by) \<Rightarrow>
               (Inr attest_level,
                db\<lparr>db_links := sql_insert_ignore link_key
                     \<lparr>l_source_id = source_id, l_target_id = target_id, l_relation = relation,
                      l_created_at = now, l_signature = signature, l_observed_by = observed_by,
                      l_valid_from = Some now, l_valid_until = None,
                      lr_attest_level = Some (attest_as_str attest_level)\<rparr> (db_links db)\<rparr>))"

text \<open>\<open>create_link\<close> passes no keypair, so that nothing is signed whatever the libraries do.\<close>

definition no_crypto :: crypto where
  "no_crypto = \<lparr>into_writer = (\<lambda>_. None), ed_sign = (\<lambda>_ _. []), ed_verify = (\<lambda>_ _ _. False),
     ed_public_ok = (\<lambda>_. False), ed_derive = (\<lambda>sk. sk)\<rparr>"

definition create_link :: "str \<Rightarrow> Db \<Rightarrow> str \<Rightarrow> str \<Rightarrow> str \<Rightarrow> unit db_result" where
  "create_link now db source_id target_id relation =
     (case create_link_signed no_crypto now db source_id target_id relation None of
        (Inl e, db') \<Rightarrow> (Inl e, db')
      | (Inr _, db') \<Rightarrow> (Inr (), db'))"

definition create_link_inbound :: "str \<Rightarrow> Db \<Rightarrow> MemoryLink \<Rightarrow> str \<Rightarrow> unit db_result" where
  "create_link_inbound now db link attest_level =
     (if \<not> mem_exists db (l_source_id link) then (Inl (SourceNotFound (l_source_id link)), db)
      else if \<not> mem_exists db (l_target_id link) then (Inl (TargetNotFound (l_target_id link)), db)
      else (Inr (),
            db\<lparr>db_links := sql_insert_ignore link_key
                 \<lparr>l_source_id = l_source_id link, l_target_id = l_target_id link,
                  l_relation = l_relation link,
                  l_created_at = (if l_created_at link = [] then now else l_created_at link),
                  l_signature = l_signature link, l_observed_by = l_observed_by link,
                  l_valid_from = (case l_valid_from link of Some v \<Rightarrow> Some v | None \<Rightarrow> Some now),
                  l_valid_until = l_valid_until link,
                  lr_attest_level = Some attest_level\<rparr> (db_links db)\<rparr>))"

definition get_links :: "Db \<Rightarrow> str \<Rightarrow> MemoryLink list" where
  "get_links db i =
     map (\<lambda>l. \<lparr>l_source_id = l_source_id l, l_target_id = l_target_id l, l_relation = l_relation l,
               l_created_at = l_created_at l, l_signature = None, l_observed_by = None,
               l_valid_from = None, l_valid_until = None\<rparr>)
       (filter (\<lambda>l. l_source_id l = i \<or> l_target_id l = i) (db_links db))"

definition delete_link :: "Db \<Rightarrow> str \<Rightarrow> str \<Rightarrow> bool \<times> Db" where
  "delete_link db source_id target_id =
     (let P = (\<lambda>l. l_source_id l = source_id \<and> l_target_id l = target_id) in
      (sql_count P (db_links db) > 0, db\<lparr>db_links := sql_delete P (db_links db)\<rparr>))"

record LinkVerifyRecord =
  lv_source_id :: str
  lv_target_id :: str
  lv_relation :: str
  lv_signature :: "nat list option"
  lv_observed_by :: "str option"
  lv_valid_from :: "str option"
  lv_valid_until :: "str option"
  lv_attest_level :: "str option"

definition get_link_for_verify :: "Db \<Rightarrow> str \<Rightarrow> str \<Rightarrow> str \<Rightarrow> LinkVerifyRecord option" where
  "get_link_for_verify db source_id target_id relation =
     map_option (\<lambda>l. \<lparr>lv_source_id = l_source_id l, lv_target_id = l_target_id l, lv_relation = l_relation l,
         lv_signature = l_signature l, lv_observed_by = l_observed_by l, lv_valid_from = l_valid_from l,
         lv_valid_until = l_valid_until l, lv_attest_level = lr_attest_level l\<rparr>)
       (sql_row (\<lambda>l. l_source_id l = source_id \<and> l_target_id l = target_id \<and> l_relation l = relation) (db_links db))"

subsection \<open>Vertical promotion\<close>

definition promote_to_namespace :: "str \<Rightarrow> str \<Rightarrow> Db \<Rightarrow> str \<Rightarrow> str \<Rightarrow> str db_result" where
  "promote_to_namespace new_id now db source_id to_namespace =
     (if to_namespace = [] then (Inl EmptyToNamespace, db)
      else case get db source_id of
          None \<Rightarrow> (Inl (SourceNotFound source_id), db)
        | Some source \<Rightarrow>
            if to_namespace = m_namespace source then (Inl (SelfAncestor (m_namespace source)), db)
            else if to_namespace \<notin> set (namespace_ancestors (m_namespace source))
            then (Inl (NotAncestor to_namespace (m_namespace source)), db)
            else
              let clone = source\<lparr>m_id := new_id, m_namespace := to_namespace, m_access_count := 0,
                                 m_created_at := now, m_updated_at := now, m_last_accessed_at := None\<rparr>
              in case insert_mem db clone of
                   (Inl e, db1) \<Rightarrow> (Inl e, db1)
                 | (Inr actual_id, db1) \<Rightarrow>
                     (case create_link now db1 actual_id source_id ''derived_from'' of
                        (Inl e, db2) \<Rightarrow> (Inl e, db2)
                      | (Inr _, db2) \<Rightarrow> (Inr actual_id, db2)))"

subsection \<open>Consolidation\<close>

record consolidation =
  co_priority :: int
  co_tags :: "str list"
  co_access :: int
  co_metadata :: "(str \<times> json) list"
  co_agents :: "str list"

definition saturating_i64 :: "int \<Rightarrow> int" where
  "saturating_i64 x = max (- (2 ^ 63)) (min x (2 ^ 63 - 1))"

text \<open>Merging one metadata entry: \<open>agent_id\<close> is collected, every other key overwrites.\<close>

definition merge_entry :: "str \<times> json \<Rightarrow> consolidation \<Rightarrow> consolidation" where
  "merge_entry kv c =
     (case kv of (k, v) \<Rightarrow>
        if k = ''agent_id''
        then (case v of
                JStr aid \<Rightarrow> if aid \<in> set (co_agents c) then c else c\<lparr>co_agents := co_agents c @ [aid]\<rparr>
              | _ \<Rightarrow> c)
        else c\<lparr>co_metadata := obj_insert k v (co_metadata c)\<rparr>)"

definition collect_one :: "Memory \<Rightarrow> consolidation \<Rightarrow> consolidation" where
  "collect_one mem c =
     (let c1 = c\<lparr>co_priority := max (co_priority c) (m_priority mem),
                 co_tags := co_tags c @ m_tags mem,
                 co_access := saturating_i64 (co_access c + m_access_count mem)\<rparr>
      in case m_metadata mem of
           JObj kvs \<Rightarrow> fold merge_entry kvs c1
         | _ \<Rightarrow> c1)"

fun collect_sources :: "Db \<Rightarrow> str list \<Rightarrow> consolidation \<Rightarrow> DbError + consolidation" where
  "collect_sources db [] c = Inr c"
| "collect_sources db (i # ids) c =
     (case get db i of
        Some mem \<Rightarrow> collect_sources db ids (collect_one mem c)
      | None \<Rightarrow> Inl (MemoryNotFound i))"

definition consolidated_metadata :: "str list \<Rightarrow> str \<Rightarrow> consolidation \<Rightarrow> json" where
  "consolidated_metadata ids consolidator c =
     (let m1 = obj_insert ''derived_from'' (JArr (map JStr ids)) (co_metadata c);
          m2 = obj_insert ''agent_id'' (JStr consolidator) m1;
          m3 = (if co_agents c \<noteq> []
                then obj_insert ''consolidated_from_agents'' (JArr (map JStr (co_agents c))) m2 else m2)
      in JObj m3)"

definition consolidate ::
    "(json \<Rightarrow> str) \<Rightarrow> str \<Rightarrow> str \<Rightarrow> Db \<Rightarrow> str list \<Rightarrow> str \<Rightarrow> str \<Rightarrow> str \<Rightarrow> Tier \<Rightarrow> str \<Rightarrow> str \<Rightarrow> str db_result" where
  "consolidate ser new_id now db ids title summary namespace tier source consolidator =
     (case collect_sources db ids
             \<lparr>co_priority = 5, co_tags = [], co_access = 0, co_metadata = [], co_agents = []\<rparr> of
        Inl e \<Rightarrow> (Inl e, db)
      | Inr c \<Rightarrow>
          let tags = remdups_adj (sort (co_tags c));
              metadata = consolidated_metadata ids consolidator c
          in case validate_metadata ser metadata of
               Inl e \<Rightarrow> (Inl (InvalidMetadata e), db)
             | Inr _ \<Rightarrow>
                 if mem_exists db new_id
                    \<or> sql_row (\<lambda>r. m_title r = title \<and> m_namespace r = namespace) (db_memories db) \<noteq> None
                 then (Inl ConstraintViolation, db)
                 else
                   let mem = \<lparr>m_id = new_id, m_tier = tier, m_namespace = namespace, m_title = title,
                              m_content = summary, m_tags = tags, m_priority = co_priority c,
                              m_confidence = Fin 1, m_source = source, m_access_count = co_access c,
                              m_created_at = now, m_updated_at = now, m_last_accessed_at = None,
                              m_expires_at = None, m_metadata = metadata\<rparr>;
                       db1 = db\<lparr>db_memories := db_memories db @ [row_of mem]\<rparr>
                   in (Inr new_id, fold (\<lambda>i d. snd (delete d i)) ids db1))"

section \<open>Correctness\<close>

lemma mem_exists_ids [simp]: "mem_exists db i = (i \<in> mem_ids db)"
  by (auto simp: mem_exists_def mem_ids_def sql_row_None)

lemma link_insert_ok:
  assumes "db_ok db" and "l_source_id l \<in> mem_ids db" and "l_target_id l \<in> mem_ids db"
  shows "db_ok (db\<lparr>db_links := sql_insert_ignore link_key l (db_links db)\<rparr>)"
  using assms unique_key_insert_ignore [of link_key "db_links db" l]
  by (auto simp: db_ok_def links_ok_def mem_ids_def sql_insert_ignore_def)

lemma create_link_signed_ok: "db_ok db \<Longrightarrow> db_ok (snd (create_link_signed cr now db s t r kp))"
  by (auto simp: create_link_signed_def Let_def intro!: link_insert_ok split: option.split)

lemma create_link_ok: "db_ok db \<Longrightarrow> db_ok (snd (create_link now db s t r))"
  using create_link_signed_ok [of db no_crypto now s t r None]
  by (auto simp: create_link_def split: prod.split sum.split)

lemma create_link_inbound_ok: "db_ok db \<Longrightarrow> db_ok (snd (create_link_inbound now db l a))"
  by (auto simp: create_link_inbound_def intro!: link_insert_ok)

lemma delete_link_ok: "db_ok db \<Longrightarrow> db_ok (snd (delete_link db s t))"
  by (auto simp: delete_link_def Let_def db_ok_def links_ok_def mem_ids_def unique_key_delete set_sql_delete)

lemma create_link_eq:
  "create_link now db s t r =
     (if s \<notin> mem_ids db then (Inl (SourceNotFound s), db)
      else if t \<notin> mem_ids db then (Inl (TargetNotFound t), db)
      else (Inr (), db\<lparr>db_links := sql_insert_ignore link_key
                     \<lparr>l_source_id = s, l_target_id = t, l_relation = r,
                      l_created_at = now, l_signature = None, l_observed_by = None,
                      l_valid_from = Some now, l_valid_until = None,
                      lr_attest_level = Some ''unsigned''\<rparr> (db_links db)\<rparr>))"
  by (simp add: create_link_def create_link_signed_def)

lemma promote_ok: "db_ok db \<Longrightarrow> db_ok (snd (promote_to_namespace new_id now db s ns))"
proof -
  assume ok: "db_ok db"
  have "db_ok db1" if "insert_mem db m = (r, db1)" for m r db1
    using insert_merge.upsert_ok [OF ok, of m] that by (simp add: insert_mem_def)
  moreover have "db_ok db2" if "create_link now db1 a b c = (r, db2)" "db_ok db1" for db1 a b c r db2
    using create_link_ok [OF that(2), of now a b c] that(1) by simp
  ultimately show ?thesis
    using ok by (auto simp: promote_to_namespace_def Let_def split: option.split sum.split prod.split)
qed

lemma delete_all_ok: "db_ok db \<Longrightarrow> db_ok (fold (\<lambda>i d. snd (delete d i)) ids db)"
  by (induction ids arbitrary: db) (auto simp: delete_ok)

lemma delete_memories_set: "set (db_memories (snd (delete db i))) = {r \<in> set (db_memories db). m_id r \<noteq> i}"
  by (simp add: delete_def Let_def set_sql_delete)

lemma delete_links_set:
  assumes "db_ok db"
  shows "set (db_links (snd (delete db i))) = {l \<in> set (db_links db). l_source_id l \<noteq> i \<and> l_target_id l \<noteq> i}"
proof -
  have "m_id ` {r \<in> set (db_memories db). m_id r = i} = (if i \<in> mem_ids db then {i} else {})"
    by (auto simp: mem_ids_def)
  moreover have "\<forall>l \<in> set (db_links db). l_source_id l \<in> mem_ids db \<and> l_target_id l \<in> mem_ids db"
    using assms by (simp add: db_ok_def links_ok_def)
  ultimately show ?thesis by (auto simp: delete_def Let_def delete_memories_def set_sql_delete)
qed

lemma delete_all_memories:
  "set (db_memories (fold (\<lambda>i d. snd (delete d i)) ids db)) = {r \<in> set (db_memories db). m_id r \<notin> set ids}"
proof (induction ids arbitrary: db)
  case (Cons i ids)
  show ?case unfolding fold_Cons o_apply Cons.IH by (auto simp: delete_memories_set)
qed simp

lemma delete_all_links:
  "db_ok db \<Longrightarrow> set (db_links (fold (\<lambda>i d. snd (delete d i)) ids db))
     = {l \<in> set (db_links db). l_source_id l \<notin> set ids \<and> l_target_id l \<notin> set ids}"
proof (induction ids arbitrary: db)
  case (Cons i ids)
  show ?case
    unfolding fold_Cons o_apply using Cons.IH [OF delete_ok [OF Cons.prems], of i]
    by (auto simp: delete_links_set [OF Cons.prems])
qed simp

text \<open>What the collecting loop computes.\<close>

lemma merge_entries_fields:
  "co_priority (fold merge_entry kvs c) = co_priority c"
  "co_tags (fold merge_entry kvs c) = co_tags c"
  "co_access (fold merge_entry kvs c) = co_access c"
  by (induction kvs arbitrary: c) (auto simp: merge_entry_def split: json.split)

lemma collect_one_fields:
  "co_priority (collect_one m c) = max (co_priority c) (m_priority m)"
  "co_tags (collect_one m c) = co_tags c @ m_tags m"
  by (auto simp: collect_one_def Let_def merge_entries_fields split: json.split)

lemma collect_sources_exact:
  "collect_sources db ids c = Inr c' \<Longrightarrow>
     \<exists>srcs. map (get db) ids = map Some srcs \<and> co_priority c' = fold max (map m_priority srcs) (co_priority c)
       \<and> co_tags c' = co_tags c @ concat (map m_tags srcs)"
proof (induction db ids c rule: collect_sources.induct)
  case (2 db i ids c)
  then obtain m where m: "get db i = Some m" and rest: "collect_sources db ids (collect_one m c) = Inr c'"
    by (auto split: option.splits)
  from "2.IH" [OF m rest] obtain srcs where "map (get db) ids = map Some srcs"
    "co_priority c' = fold max (map m_priority srcs) (co_priority (collect_one m c))"
    "co_tags c' = co_tags (collect_one m c) @ concat (map m_tags srcs)" by blast
  with m show ?case by (intro exI [of _ "m # srcs"]) (simp add: collect_one_fields max.commute)
qed simp

lemma consolidate_cases:
  assumes "consolidate ser new_id now db ids title summary ns tier source who = (r, db')"
  obtains (err) e where "r = Inl e" "db' = db"
  | (done') c mem where "r = Inr new_id"
      "collect_sources db ids \<lparr>co_priority = 5, co_tags = [], co_access = 0, co_metadata = [], co_agents = []\<rparr> = Inr c"
      "new_id \<notin> mem_ids db" "(title, ns) \<notin> title_key ` set (db_memories db)"
      "m_id mem = new_id" "m_tier mem = tier" "m_namespace mem = ns" "m_title mem = title" "m_content mem = summary"
      "m_tags mem = remdups_adj (sort (co_tags c))" "m_priority mem = co_priority c"
      "m_metadata mem = consolidated_metadata ids who c" "m_expires_at mem = None"
      "db' = fold (\<lambda>i d. snd (delete d i)) ids (db\<lparr>db_memories := db_memories db @ [row_of mem]\<rparr>)"
proof (cases "collect_sources db ids \<lparr>co_priority = 5, co_tags = [], co_access = 0, co_metadata = [], co_agents = []\<rparr>")
  case (Inl e)
  with assms have "r = Inl e" "db' = db" by (auto simp: consolidate_def)
  then show ?thesis by (rule err)
next
  case (Inr c)
  show ?thesis
  proof (cases "validate_metadata ser (consolidated_metadata ids who c)")
    case (Inl e)
    with Inr assms have "r = Inl (InvalidMetadata e)" "db' = db" by (auto simp: consolidate_def Let_def)
    then show ?thesis by (rule err)
  next
    case (Inr u)
    let ?mem = "\<lparr>m_id = new_id, m_tier = tier, m_namespace = ns, m_title = title,
                              m_content = summary, m_tags = remdups_adj (sort (co_tags c)), m_priority = co_priority c,
                              m_confidence = Fin 1, m_source = source, m_access_count = co_access c,
                              m_created_at = now, m_updated_at = now, m_last_accessed_at = None,
                              m_expires_at = None, m_metadata = consolidated_metadata ids who c\<rparr>"
    show ?thesis
    proof (cases "new_id \<in> mem_ids db \<or> sql_row (\<lambda>r. m_title r = title \<and> m_namespace r = ns) (db_memories db) \<noteq> None")
      case True
      with \<open>collect_sources _ _ _ = Inr c\<close> Inr assms have "r = Inl ConstraintViolation" "db' = db"
        by (auto simp: consolidate_def Let_def)
      then show ?thesis by (rule err)
    next
      case False
      with \<open>collect_sources _ _ _ = Inr c\<close> Inr assms have
        "r = Inr new_id" "db' = fold (\<lambda>i d. snd (delete d i)) ids (db\<lparr>db_memories := db_memories db @ [row_of ?mem]\<rparr>)"
        by (auto simp: consolidate_def Let_def)
      moreover have "(title, ns) \<notin> title_key ` set (db_memories db)"
        using False by (auto simp: sql_row_None title_key_def)
      ultimately show ?thesis using False \<open>collect_sources _ _ _ = Inr c\<close> by (intro done' [of c ?mem]) auto
    qed
  qed
qed

lemma db_ok_append:
  assumes "db_ok db" "m_id mem \<notin> mem_ids db" "(m_title mem, m_namespace mem) \<notin> title_key ` set (db_memories db)"
  shows "db_ok (db\<lparr>db_memories := db_memories db @ [row_of mem]\<rparr>)"
proof (rule db_ok_memories [OF assms(1)])
  have "title_key (row_of mem) = (m_title mem, m_namespace mem)" "m_id (row_of mem) = m_id mem"
    by (simp_all add: title_key_def row_of_def)
  then show "memories_ok (db_memories db @ [row_of mem])"
    using assms by (auto simp: db_ok_def memories_ok_def unique_key_snoc mem_ids_def)
qed auto

lemma consolidate_ok: "db_ok db \<Longrightarrow> db_ok (snd (consolidate ser new_id now db ids title summary ns tier source who))"
proof -
  assume ok: "db_ok db"
  obtain r db' where e: "consolidate ser new_id now db ids title summary ns tier source who = (r, db')" by fastforce
  from e show ?thesis
  proof (cases rule: consolidate_cases)
    case err
    with e ok show ?thesis by simp
  next
    case (done' c mem)
    with db_ok_append [OF ok, of mem] e show ?thesis by (simp add: delete_all_ok)
  qed
qed

section \<open>Properties\<close>



lemma insert_mem_title:
  assumes "db_ok db" and "insert_mem db mem = (Inr i, db')"
  shows "\<exists>m. get db' i = Some m \<and> m_title m = m_title mem \<and> m_namespace m = m_namespace mem \<and> m_content m = m_content mem"
proof -
  have up: "sql_upsert merge_insert db mem = (Inr i, db')" using assms(2) by (simp add: insert_mem_def)
  have mo': "memories_ok (db_memories db')"
    using insert_merge.upsert_ok [OF assms(1), of mem] by (simp add: up db_ok_def)
  obtain r where r: "sql_row (\<lambda>r. title_key r = (m_title mem, m_namespace mem)) (db_memories db') = Some r" "m_id r = i"
    "r = row_of mem \<or> (\<exists>old. r = merge_insert old mem)"
    using insert_merge.upsert_finds [of db mem i] by (auto simp: up)
  then have "r \<in> set (db_memories db')" "title_key r = (m_title mem, m_namespace mem)" by (auto dest: sql_row_SomeD)
  moreover have "m_content r = m_content mem" using r(3) by (auto simp: row_of_def merge_insert_def)
  ultimately show ?thesis using get_unique [OF mo', of r] r(2) by (auto simp: title_key_def)
qed

text \<open>Vertical promotion copies a memory into a proper ancestor of its namespace: the copy has the
  source's title and content, the source itself is unchanged, a \<open>derived_from\<close> link leads from the copy
  to the source, and the store stays well-formed.\<close>

theorem promote_contract:
  assumes ok: "db_ok db" and fresh: "new_id \<notin> mem_ids db"
    and res: "promote_to_namespace new_id now db source_id to_ns = (Inr i, db')"
  shows "db_ok db' \<and> i \<noteq> source_id
    \<and> (\<exists>src m. get db source_id = Some src \<and> get db' source_id = Some src \<and> get db' i = Some m
        \<and> to_ns \<noteq> m_namespace src \<and> to_ns \<in> set (namespace_ancestors (m_namespace src))
        \<and> m_namespace m = to_ns \<and> m_title m = m_title src \<and> m_content m = m_content src)
    \<and> (\<exists>l \<in> set (db_links db'). link_key l = (i, source_id, ''derived_from''))"
proof -
  have ok': "db_ok db'" using promote_ok [OF ok, of new_id now source_id to_ns] by (simp add: res)
  obtain src where src: "get db source_id = Some src" "to_ns \<noteq> m_namespace src"
    "to_ns \<in> set (namespace_ancestors (m_namespace src))"
    using res by (auto simp: promote_to_namespace_def split: if_splits option.splits)
  let ?clone = "src\<lparr>m_id := new_id, m_namespace := to_ns, m_access_count := 0,
                     m_created_at := now, m_updated_at := now, m_last_accessed_at := None\<rparr>"
  obtain db1 where ins: "insert_mem db ?clone = (Inr i, db1)"
    and lnk: "create_link now db1 i source_id ''derived_from'' = (Inr (), db')"
    using res src by (auto simp: promote_to_namespace_def Let_def split: if_splits prod.splits sum.splits)
  have mo: "memories_ok (db_memories db)" using ok by (simp add: db_ok_def)
  obtain r where r: "r \<in> set (db_memories db)" "m_id r = source_id" "src = row_to_memory r"
    using get_SomeD [OF src(1)] by blast
  have ne: "i \<noteq> source_id"
  proof
    assume eq: "i = source_id"
    have "source_id \<in> mem_ids db" using r by (auto simp: mem_ids_def)
    then have "i \<noteq> new_id" using fresh eq by auto
    then obtain old where old: "old \<in> set (db_memories db)" "title_key old = (m_title src, to_ns)" "m_id old = i"
      using insert_merge.upsert_finds [of db ?clone i] ins by (auto simp: insert_mem_def)
    then have "old = r" using mo r eq by (auto simp: memories_ok_def intro: unique_key_inj [of m_id])
    with old r src(2) show False by (simp add: title_key_def)
  qed
  have same: "get db1 source_id = Some src" using insert_get_other [OF ok ins, of source_id] ne src(1) by simp
  obtain m where m: "get db1 i = Some m" "m_title m = m_title src" "m_namespace m = to_ns" "m_content m = m_content src"
    using insert_mem_title [OF ok ins] by auto
  have lk: "db' = db1\<lparr>db_links := db_links db'\<rparr>" "\<exists>l \<in> set (db_links db'). link_key l = (i, source_id, ''derived_from'')"
    using lnk by (auto simp: create_link_eq sql_insert_ignore_def link_key_def split: if_splits)
  have "get db' j = get db1 j" for j by (subst lk(1)) (simp add: get_def)
  then show ?thesis using ok' ne same m src lk(2) by auto
qed

theorem promote_contract_witness:
  "let db = snd (insert_mem empty_db ((ex_note ''m1'' ''a'' Mid ''alice'')\<lparr>m_namespace := ''org/team''\<rparr>));
       (r, db') = promote_to_namespace ''m9'' ''2026-01-05'' db ''m1'' ''org'' in
   r = Inr ''m9'' \<and> (\<exists>l \<in> set (db_links db'). link_key l = (''m9'', ''m1'', ''derived_from''))"
proof -
  let ?db = "snd (insert_mem empty_db ((ex_note ''m1'' ''a'' Mid ''alice'')\<lparr>m_namespace := ''org/team''\<rparr>))"
  let ?run = "promote_to_namespace ''m9'' ''2026-01-05'' ?db ''m1'' ''org''"
  have ok: "db_ok ?db" unfolding insert_mem_def by (rule insert_merge.upsert_ok [OF db_ok_empty])
  have "fst ?run = Inr ''m9''" by code_simp
  then obtain db' where r: "?run = (Inr ''m9'', db')" by (metis prod.collapse)
  have "\<not> mem_exists ?db ''m9''" by code_simp
  then show ?thesis using promote_contract [OF ok _ r] r by simp
qed

end
