(* ===== verification/Sync.thy ===== *)
theory Sync
  imports Links
begin

text \<open>
  Replication state (\<open>src/db.rs\<close>): the newer-wins upsert that applies a peer's memory, the durable
  vector clock of the table \<open>sync_state\<close> and the incremental export that peers page through.
\<close>

subsection \<open>Newer wins\<close>

definition newer_wins :: "MemRow \<Rightarrow> Memory \<Rightarrow> bool" where
  "newer_wins old new = (m_updated_at new > m_updated_at old
     \<or> (m_updated_at new = m_updated_at old \<and> m_id new > m_id old))"

definition merge_newer :: "MemRow \<Rightarrow> Memory \<Rightarrow> MemRow" where
  "merge_newer old new =
     old\<lparr>m_content := (if newer_wins old new then m_content new else m_content old),
         m_tags := (if newer_wins old new then m_tags new else m_tags old),
         m_priority := max (m_priority old) (m_priority new),
         m_confidence := sql_max_real (m_confidence old) (m_confidence new),
         m_source := (if newer_wins old new then m_source new else m_source old),
         m_tier := upsert_tier (m_tier old) (m_tier new),
         m_updated_at := max (m_updated_at old) (m_updated_at new),
         m_access_count := max (m_access_count old) (m_access_count new),
         m_expires_at := upsert_expires old new,
         m_metadata := keep_agent_id (m_metadata old)
            (if newer_wins old new then m_metadata new else m_metadata old)\<rparr>"

definition insert_if_newer :: "Db \<Rightarrow> Memory \<Rightarrow> str db_result" where
  "insert_if_newer db mem = sql_upsert merge_newer db mem"

subsection \<open>The sync state table\<close>

definition observe_row :: "str \<Rightarrow> str \<Rightarrow> SyncRow \<Rightarrow> SyncRow" where
  "observe_row seen_at now r =
     r\<lparr>sy_last_seen_at := (if seen_at > sy_last_seen_at r then seen_at else sy_last_seen_at r),
       sy_last_pulled_at := now\<rparr>"

definition sync_state_observe :: "str \<Rightarrow> Db \<Rightarrow> str \<Rightarrow> str \<Rightarrow> str \<Rightarrow> Db" where
  "sync_state_observe now db agent_id peer_id seen_at =
     db\<lparr>db_sync :=
       (if sql_row (\<lambda>r. sync_key r = (agent_id, peer_id)) (db_sync db) \<noteq> None
        then sql_update (\<lambda>r. sync_key r = (agent_id, peer_id)) (observe_row seen_at now) (db_sync db)
        else db_sync db @ [\<lparr>sy_agent_id = agent_id, sy_peer_id = peer_id, sy_last_seen_at = seen_at,
                             sy_last_pulled_at = now, sy_last_pushed_at = None\<rparr>])\<rparr>"

definition sync_state_load :: "Db \<Rightarrow> str \<Rightarrow> VectorClock" where
  "sync_state_load db agent_id =
     \<lparr>entries = fold (\<lambda>r m. m(sy_peer_id r \<mapsto> sy_last_seen_at r))
        (filter (\<lambda>r. sy_agent_id r = agent_id) (db_sync db)) Map.empty\<rparr>"

definition sync_state_last_pushed :: "Db \<Rightarrow> str \<Rightarrow> str \<Rightarrow> str option" where
  "sync_state_last_pushed db agent_id peer_id =
     (case sql_row (\<lambda>r. sync_key r = (agent_id, peer_id)) (db_sync db) of
        Some r \<Rightarrow> sy_last_pushed_at r
      | None \<Rightarrow> None)"

definition push_row :: "str \<Rightarrow> SyncRow \<Rightarrow> SyncRow" where
  "push_row pushed_at r =
     r\<lparr>sy_last_pushed_at :=
         (case sy_last_pushed_at r of
            None \<Rightarrow> Some pushed_at
          | Some p \<Rightarrow> if pushed_at > p then Some pushed_at else Some p)\<rparr>"

definition sync_state_record_push :: "str \<Rightarrow> Db \<Rightarrow> str \<Rightarrow> str \<Rightarrow> str \<Rightarrow> Db" where
  "sync_state_record_push now db agent_id peer_id pushed_at =
     db\<lparr>db_sync :=
       (if sql_row (\<lambda>r. sync_key r = (agent_id, peer_id)) (db_sync db) \<noteq> None
        then sql_update (\<lambda>r. sync_key r = (agent_id, peer_id)) (push_row pushed_at) (db_sync db)
        else db_sync db @ [\<lparr>sy_agent_id = agent_id, sy_peer_id = peer_id, sy_last_seen_at = now,
                             sy_last_pulled_at = now, sy_last_pushed_at = Some pushed_at\<rparr>])\<rparr>"

definition memories_updated_since :: "Db \<Rightarrow> str option \<Rightarrow> nat \<Rightarrow> Memory list" where
  "memories_updated_since db since limit =
     map row_to_memory (take limit (order_by (\<lambda>a b. m_updated_at a < m_updated_at b)
       (filter (\<lambda>r. opt_ok (\<lambda>s. m_updated_at r > s) since) (db_memories db))))"

section \<open>Correctness\<close>

interpretation newer_merge: upsert_merge merge_newer
proof unfold_locales
  fix old :: MemRow and new :: Memory and a
  assume a: "sql_json_extract (m_metadata old) ''agent_id'' = Some a" and new: "is_object (m_metadata new)"
  have "is_object (m_metadata old)"
    using a by (auto simp: sql_json_extract_def json_get_def is_object_def split: json.splits option.splits)
  then show "sql_json_extract (m_metadata (merge_newer old new)) ''agent_id'' = Some a"
    using keep_agent_id_extract [OF a] new by (simp add: merge_newer_def)
qed (auto simp: merge_newer_def title_key_def upsert_tier_rank upsert_tier_Long upsert_expires_def)

lemma insert_if_newer_ok: "db_ok db \<Longrightarrow> db_ok (snd (insert_if_newer db mem))"
  unfolding insert_if_newer_def by (rule newer_merge.upsert_ok)

interpretation observe_key: key_preserving sync_key "observe_row s n" for s n
  by unfold_locales (simp add: observe_row_def sync_key_def)

interpretation push_key: key_preserving sync_key "push_row p" for p
  by unfold_locales (simp add: push_row_def sync_key_def)

lemma db_ok_sync: "db_ok db \<Longrightarrow> unique_key sync_key t \<Longrightarrow> db_ok (db\<lparr>db_sync := t\<rparr>)"
  by (auto simp: db_ok_def links_ok_def mem_ids_def)

lemma db_ok_sync_unique: "db_ok db \<Longrightarrow> unique_key sync_key (db_sync db)"
  by (simp add: db_ok_def)

lemma sync_state_observe_ok: "db_ok db \<Longrightarrow> db_ok (sync_state_observe now db a p s)"
  unfolding sync_state_observe_def
  by (rule db_ok_sync)
    (auto dest: db_ok_sync_unique simp: observe_key.unique_update unique_key_snoc sql_row_None sync_key_def)

lemma sync_state_record_push_ok: "db_ok db \<Longrightarrow> db_ok (sync_state_record_push now db a p s)"
  unfolding sync_state_record_push_def
  by (rule db_ok_sync)
    (auto dest: db_ok_sync_unique simp: push_key.unique_update unique_key_snoc sql_row_None sync_key_def)

lemma load_entries:
  assumes "unique_key sync_key (db_sync db)"
  shows "latest_from (sync_state_load db a) p
    = map_option sy_last_seen_at (sql_row (\<lambda>r. sync_key r = (a, p)) (db_sync db))"
proof -
  have "fold (\<lambda>r m. m(sy_peer_id r \<mapsto> sy_last_seen_at r)) (filter (\<lambda>r. sy_agent_id r = a) t) m p
      = (case sql_row (\<lambda>r. sync_key r = (a, p)) t of Some r \<Rightarrow> Some (sy_last_seen_at r) | None \<Rightarrow> m p)"
    if "unique_key sync_key t" for t m
    using that
  proof (induction t arbitrary: m)
    case Nil
    then show ?case by (simp add: sql_row_def)
  next
    case (Cons r t)
    have u: "unique_key sync_key t" and nin: "sync_key r \<notin> sync_key ` set t"
      using Cons.prems by (auto simp: unique_key_def)
    have none: "sql_row (\<lambda>x. sync_key x = sync_key r) t = None" using nin by (simp add: sql_row_key_None)
    show ?case
      using Cons.IH [OF u] none by (auto simp: sync_key_def sql_row_def split: option.split)
  qed
  from this [OF assms] show ?thesis
    by (simp add: sync_state_load_def latest_from_def split: option.split)
qed

subsection \<open>Merging versions of one memory\<close>

text \<open>The part of a row that the newest version decides.\<close>

definition version_view :: "'a Memory_scheme \<Rightarrow> str \<times> str list \<times> str \<times> str" where
  "version_view r = (m_content r, m_tags r, m_source r, m_updated_at r)"

lemma merge_newer_view:
  "m_updated_at r \<noteq> m_updated_at m \<Longrightarrow>
     version_view (merge_newer r m) = (if m_updated_at r < m_updated_at m then version_view m else version_view r)"
  by (auto simp: merge_newer_def version_view_def newer_wins_def max_def)

lemma merge_newer_updated [simp]: "m_updated_at (merge_newer r m) = max (m_updated_at r) (m_updated_at m)"
  by (simp add: merge_newer_def)

lemma merge_all_view:
  assumes "distinct (map m_updated_at ms)" and "m_updated_at r \<notin> m_updated_at ` set ms"
  shows "(\<forall>m \<in> set ms. m_updated_at m \<le> m_updated_at (fold (\<lambda>m r. merge_newer r m) ms r))
    \<and> m_updated_at r \<le> m_updated_at (fold (\<lambda>m r. merge_newer r m) ms r)
    \<and> (version_view (fold (\<lambda>m r. merge_newer r m) ms r) = version_view r
       \<or> (\<exists>m \<in> set ms. version_view (fold (\<lambda>m r. merge_newer r m) ms r) = version_view m))"
  using assms
proof (induction ms arbitrary: r)
  case (Cons m ms)
  let ?r = "merge_newer r m" and ?f = "fold (\<lambda>m r. merge_newer r m) ms (merge_newer r m)"
  have ne: "m_updated_at r \<noteq> m_updated_at m" using Cons.prems(2) by auto
  have d: "distinct (map m_updated_at ms)" "m_updated_at ?r \<notin> m_updated_at ` set ms"
    using Cons.prems by (auto simp: max_def)
  note IH = Cons.IH [OF d]
  have "version_view ?r = version_view m \<or> version_view ?r = version_view r"
    using merge_newer_view [OF ne] by auto
  with IH show ?case by auto
qed simp

text \<open>Applying a sequence of versions of one (title, namespace) to a store that does not hold it.\<close>

definition apply_versions :: "Db \<Rightarrow> Memory list \<Rightarrow> Db" where
  "apply_versions db ms = fold (\<lambda>m d. snd (insert_if_newer d m)) ms db"

lemma apply_versions_row:
  assumes "sql_row (\<lambda>r. title_key r = (t, ns)) (db_memories db) = Some r"
    and "\<forall>m \<in> set ms. m_title m = t \<and> m_namespace m = ns \<and> m_confidence m \<noteq> NaN"
  shows "sql_row (\<lambda>r. title_key r = (t, ns)) (db_memories (apply_versions db ms))
    = Some (fold (\<lambda>m r. merge_newer r m) ms r)"
  using assms
proof (induction ms arbitrary: db r)
  case (Cons m ms)
  let ?db = "snd (insert_if_newer db m)"
  have row: "sql_row (\<lambda>r. m_title r = m_title m \<and> m_namespace r = m_namespace m) (db_memories db) = Some r"
    using Cons.prems by (simp add: sql_row_title)
  have "sql_row (\<lambda>r. title_key r = (t, ns)) (db_memories ?db) = Some (merge_newer r m)"
    using newer_merge.upsert_row(2) [OF row] Cons.prems(2) by (simp add: insert_if_newer_def)
  from Cons.IH [OF this] Cons.prems(2) show ?case by (simp add: apply_versions_def)
qed (simp add: apply_versions_def)

section \<open>Properties\<close>

text \<open>The table \<open>sync_state\<close> implements the vector clock: loading the clock after recording an
  observation gives the clock that observes it, for the agent concerned, and leaves the clocks of
  other agents as they are.\<close>

theorem sync_state_refines_clock:
  assumes "db_ok db"
  shows "sync_state_load (sync_state_observe now db a p ts) a = clock_observe (sync_state_load db a) p ts
    \<and> (b \<noteq> a \<longrightarrow> sync_state_load (sync_state_observe now db a p ts) b = sync_state_load db b)"
proof -
  let ?db' = "sync_state_observe now db a p ts"
  have u: "unique_key sync_key (db_sync db)" using assms by (rule db_ok_sync_unique)
  have u': "unique_key sync_key (db_sync ?db')" using sync_state_observe_ok [OF assms] by (rule db_ok_sync_unique)
  have row: "sql_row (\<lambda>r. sync_key r = k) (db_sync ?db') =
      (if k = (a, p) then Some (case sql_row (\<lambda>r. sync_key r = (a, p)) (db_sync db) of
           Some r \<Rightarrow> observe_row ts now r
         | None \<Rightarrow> \<lparr>sy_agent_id = a, sy_peer_id = p, sy_last_seen_at = ts,
                    sy_last_pulled_at = now, sy_last_pushed_at = None\<rparr>)
       else sql_row (\<lambda>r. sync_key r = k) (db_sync db))" for k
  proof (cases "sql_row (\<lambda>r. sync_key r = (a, p)) (db_sync db)")
    case None
    then show ?thesis by (auto simp: sync_state_observe_def sql_row_snoc sync_key_def split: option.split)
  next
    case (Some r)
    show ?thesis
    proof (cases "k = (a, p)")
      case True
      with Some show ?thesis by (simp add: sync_state_observe_def observe_key.row_update_key)
    next
      case False
      then have "sql_row (\<lambda>r. sync_key r = k) (sql_update (\<lambda>r. sync_key r = (a, p)) (observe_row ts now) (db_sync db))
          = sql_row (\<lambda>r. sync_key r = k) (db_sync db)" by (intro observe_key.row_update_other) auto
      with Some False show ?thesis by (simp add: sync_state_observe_def)
    qed
  qed
  have "latest_from (sync_state_load ?db' a) q = latest_from (clock_observe (sync_state_load db a) p ts) q" for q
  proof (cases "q = p")
    case True
    then show ?thesis
      by (auto simp: load_entries [OF u'] load_entries [OF u] clock_observe_self row observe_row_def max_def
          split: option.split)
  qed (simp add: load_entries [OF u'] load_entries [OF u] row)
  moreover have "b \<noteq> a \<Longrightarrow> latest_from (sync_state_load ?db' b) q = latest_from (sync_state_load db b) q" for q
    by (simp add: load_entries [OF u'] load_entries [OF u] row)
  ultimately show ?thesis by (auto intro: clock_ext)
qed

theorem sync_state_refines_clock_witness:
  "sync_state_load (sync_state_observe ''n'' empty_db ''me'' ''p'' ''2'') ''me''
     = clock_observe (sync_state_load empty_db ''me'') ''p'' ''2''"
  using sync_state_refines_clock [OF db_ok_empty] by blast

text \<open>C36: Newer wins. However a node receives the versions of a memory, if their timestamps differ it ends
  with the content, tags and source of the newest one; so two nodes that receive the same versions
  in different orders agree on them.\<close>

theorem newer_wins_convergent:
  assumes ok: "db_ok db" "(t, ns) \<notin> title_key ` set (db_memories db)"
    and vs: "\<forall>m \<in> set (m0 # ms). m_title m = t \<and> m_namespace m = ns \<and> m_confidence m \<noteq> NaN"
    and fresh: "m_id m0 \<notin> mem_ids db"
    and stamps: "distinct (map m_updated_at (m0 # ms))"
    and newest: "n \<in> set (m0 # ms)" "\<forall>m \<in> set (m0 # ms). m_updated_at m \<le> m_updated_at n"
  shows "\<exists>r. sql_row (\<lambda>r. title_key r = (t, ns)) (db_memories (apply_versions db (m0 # ms))) = Some r
    \<and> version_view r = version_view n"
proof -
  let ?r0 = "row_of m0" and ?db0 = "snd (insert_if_newer db m0)"
  have k0: "title_key ?r0 = (t, ns)" using vs by (simp add: title_key_def row_of_def)
  have none: "sql_row (\<lambda>r. title_key r = (t, ns)) (db_memories db) = None"
    using ok(2) by (simp add: sql_row_key_None)
  have noid: "sql_row (\<lambda>r. m_id r = m_id m0) (db_memories db) = None"
    using fresh by (simp add: sql_row_key_None mem_ids_def)
  have "sql_row (\<lambda>r. title_key r = (t, ns)) (db_memories ?db0) = Some ?r0"
    using vs none noid k0 by (simp add: insert_if_newer_def sql_upsert_def sql_row_title sql_row_snoc)
  from apply_versions_row [OF this, of ms] vs
  have row: "sql_row (\<lambda>r. title_key r = (t, ns)) (db_memories (apply_versions db (m0 # ms)))
      = Some (fold (\<lambda>m r. merge_newer r m) ms ?r0)" by (simp add: apply_versions_def)
  let ?f = "fold (\<lambda>m r. merge_newer r m) ms ?r0"
  have v0: "version_view ?r0 = version_view m0" "m_updated_at ?r0 = m_updated_at m0"
    by (simp_all add: version_view_def row_of_def)
  have all: "(\<forall>m \<in> set ms. m_updated_at m \<le> m_updated_at ?f) \<and> m_updated_at m0 \<le> m_updated_at ?f
      \<and> (version_view ?f = version_view m0 \<or> (\<exists>m \<in> set ms. version_view ?f = version_view m))"
    using merge_all_view [of ms ?r0] stamps by (simp add: v0)
  then obtain w where w: "w \<in> set (m0 # ms)" "version_view ?f = version_view w" by auto
  have "m_updated_at n \<le> m_updated_at ?f" using all newest(1) by auto
  then have "m_updated_at n \<le> m_updated_at w" using w(2) by (simp add: version_view_def)
  with bspec [OF newest(2) w(1)] have "m_updated_at w = m_updated_at n" by (simp only: order.eq_iff)
  moreover have "inj_on m_updated_at (set (m0 # ms))" using stamps by (simp only: distinct_map)
  ultimately have "w = n" using w(1) newest(1) by (simp only: inj_on_def)
  with row w(2) show ?thesis by auto
qed

definition ex_version :: "str \<Rightarrow> str \<Rightarrow> str \<Rightarrow> Memory" where
  "ex_version i content at' = (ex_note i ''a'' Mid ''alice'')\<lparr>m_content := content, m_updated_at := at'\<rparr>"

theorem newer_wins_convergent_witness:
  "\<exists>r. sql_row (\<lambda>r. title_key r = (''a'', ''g''))
      (db_memories (apply_versions empty_db [ex_version ''x'' ''new'' ''2026-02'', ex_version ''y'' ''old'' ''2026-01''])) = Some r
    \<and> m_content r = ''new''"
proof -
  let ?m = "ex_version ''x'' ''new'' ''2026-02''" and ?n = "ex_version ''y'' ''old'' ''2026-01''"
  have "\<exists>r. sql_row (\<lambda>r. title_key r = (''a'', ''g'')) (db_memories (apply_versions empty_db [?m, ?n])) = Some r
      \<and> version_view r = version_view ?m"
  proof (rule newer_wins_convergent [OF db_ok_empty])
    show "(''a'', ''g'') \<notin> title_key ` set (db_memories empty_db)" "m_id ?m \<notin> mem_ids empty_db"
      by (simp_all add: empty_db_def mem_ids_def)
    show "\<forall>m \<in> set [?m, ?n]. m_title m = ''a'' \<and> m_namespace m = ''g'' \<and> m_confidence m \<noteq> NaN"
      by (simp add: ex_version_def ex_note_def)
    show "distinct (map m_updated_at [?m, ?n])" by (simp add: ex_version_def ex_note_def)
    have "''2026-01'' \<le> ''2026-02''" by code_simp
    then show "\<forall>m \<in> set [?m, ?n]. m_updated_at m \<le> m_updated_at ?m" by (simp add: ex_version_def)
  qed simp
  then show ?thesis by (auto simp: version_view_def ex_version_def)
qed

text \<open>With equal timestamps the tie-break is not the total order it is meant to be: the row keeps the id
  of its first version, so the comparison with the next version does not use the id of the version
  that won. The same three versions in two arrival orders leave two nodes with different content.\<close>

theorem equal_stamps_diverge:
  "\<exists>ms ms'. mset ms = mset ms' \<and> list_all (\<lambda>m. m_title m = ''a'' \<and> m_namespace m = ''g'') ms
     \<and> map_option m_content (sql_row (\<lambda>r. title_key r = (''a'', ''g'')) (db_memories (apply_versions empty_db ms)))
       \<noteq> map_option m_content (sql_row (\<lambda>r. title_key r = (''a'', ''g'')) (db_memories (apply_versions empty_db ms')))"
proof -
  let ?a = "ex_version ''a'' ''A'' ''2026''" and ?b = "ex_version ''b'' ''B'' ''2026''"
    and ?c = "ex_version ''c'' ''C'' ''2026''"
  have "map_option m_content (sql_row (\<lambda>r. title_key r = (''a'', ''g'')) (db_memories (apply_versions empty_db [?c, ?a, ?b])))
      \<noteq> map_option m_content (sql_row (\<lambda>r. title_key r = (''a'', ''g'')) (db_memories (apply_versions empty_db [?a, ?c, ?b])))"
    by code_simp
  moreover have "mset [?c, ?a, ?b] = mset [?a, ?c, ?b]" by simp
  moreover have "list_all (\<lambda>m. m_title m = ''a'' \<and> m_namespace m = ''g'') [?c, ?a, ?b]"
    by (simp add: ex_version_def ex_note_def)
  ultimately show ?thesis by (intro exI [of _ "[?c, ?a, ?b]"] exI [of _ "[?a, ?c, ?b]"] conjI)
qed

subsection \<open>Paging through the updates\<close>

interpretation updated_order: ordering_key "\<lambda>a b. m_updated_at a < m_updated_at (b :: MemRow)"
  by unfold_locales auto

text \<open>The stamp-ordered rows that are newer than a cursor.\<close>

definition newer_rows :: "Db \<Rightarrow> str option \<Rightarrow> MemRow list" where
  "newer_rows db since = order_by (\<lambda>a b. m_updated_at a < m_updated_at b)
     (filter (\<lambda>r. opt_ok (\<lambda>s. m_updated_at r > s) since) (db_memories db))"

lemma newer_rows_sorted: "sorted (map m_updated_at (newer_rows db since))"
  unfolding newer_rows_def sorted_map
  using updated_order.sorted_order_by
  by (rule sorted_wrt_mono_rel [rotated]) auto

lemma newer_rows_set: "set (newer_rows db since) = {r \<in> set (db_memories db). opt_ok (\<lambda>s. m_updated_at r > s) since}"
  by (simp add: newer_rows_def)

lemma newer_rows_distinct:
  assumes "distinct (map m_updated_at (db_memories db))"
  shows "distinct (map m_updated_at (newer_rows db since))"
  unfolding newer_rows_def distinct_order_by using assms by (simp add: distinct_map_filter)

lemma newer_rows_continue:
  assumes d: "distinct (map m_updated_at (db_memories db))" and n: "0 < n" "n \<le> length (newer_rows db since)"
  shows "newer_rows db (Some (m_updated_at (newer_rows db since ! (n - 1)))) = drop n (newer_rows db since)"
proof -
  let ?xs = "newer_rows db since" and ?c = "m_updated_at (newer_rows db since ! (n - 1))"
  have sx: "sorted (map m_updated_at ?xs)" and dx: "distinct (map m_updated_at ?xs)"
    by (rule newer_rows_sorted, rule newer_rows_distinct [OF d])
  have inj: "inj_on m_updated_at (set (db_memories db))" using d by (simp add: distinct_map)
  have idx: "m_updated_at (?xs ! i) \<le> m_updated_at (?xs ! j)" if "i \<le> j" "j < length ?xs" for i j
    using sorted_nth_mono [OF sx, of i j] that by simp
  have eq: "i = j" if "m_updated_at (?xs ! i) = m_updated_at (?xs ! j)" "i < length ?xs" "j < length ?xs" for i j
    using nth_eq_iff_index_eq [OF dx, of i j] that by simp
  have sets: "set (newer_rows db (Some ?c)) = set (drop n ?xs)"
  proof (rule set_eqI)
    fix r
    show "r \<in> set (newer_rows db (Some ?c)) \<longleftrightarrow> r \<in> set (drop n ?xs)"
    proof
      assume "r \<in> set (drop n ?xs)"
      then obtain j where j: "n \<le> j" "j < length ?xs" "r = ?xs ! j"
        by (auto simp: in_set_conv_nth) (metis le_add1 add.commute less_diff_conv)
      have "?c \<le> m_updated_at r" "?c \<noteq> m_updated_at r"
        using idx [of "n - 1" j] eq [of "n - 1" j] j n by (simp, fastforce)
      moreover have "r \<in> set ?xs" using j by simp
      ultimately show "r \<in> set (newer_rows db (Some ?c))" by (simp add: newer_rows_set opt_ok_def)
    next
      assume r: "r \<in> set (newer_rows db (Some ?c))"
      have "?xs ! (n - 1) \<in> set ?xs" using n by (intro nth_mem) simp
      then have "opt_ok (\<lambda>s. ?c > s) since" by (simp add: newer_rows_set)
      with r have "r \<in> set ?xs" by (auto simp: newer_rows_set opt_ok_def split: option.splits)
      then obtain j where j: "j < length ?xs" "r = ?xs ! j" by (auto simp: in_set_conv_nth)
      have "\<not> j \<le> n - 1"
      proof
        assume "j \<le> n - 1"
        then have "m_updated_at r \<le> ?c" using idx [of j "n - 1"] j n by simp
        with r show False by (auto simp: newer_rows_set opt_ok_def)
      qed
      then have "n \<le> j" using n by simp
      then have "r = drop n ?xs ! (j - n)" "j - n < length (drop n ?xs)" using j by auto
      then show "r \<in> set (drop n ?xs)" by (metis nth_mem)
    qed
  qed
  have "map m_updated_at (newer_rows db (Some ?c)) = map m_updated_at (drop n ?xs)"
  proof (rule sorted_distinct_set_unique)
    show "sorted (map m_updated_at (newer_rows db (Some ?c)))" by (rule newer_rows_sorted)
    show "distinct (map m_updated_at (newer_rows db (Some ?c)))" by (rule newer_rows_distinct [OF d])
    show "sorted (map m_updated_at (drop n ?xs))" using sx by (simp add: drop_map [symmetric] sorted_wrt_drop)
    show "distinct (map m_updated_at (drop n ?xs))" using dx by (simp add: drop_map [symmetric])
    show "set (map m_updated_at (newer_rows db (Some ?c))) = set (map m_updated_at (drop n ?xs))"
      using sets by simp
  qed
  moreover have "set (newer_rows db (Some ?c)) \<union> set (drop n ?xs) \<subseteq> set (db_memories db)"
    using sets by (auto simp: newer_rows_set)
  ultimately show ?thesis using inj by (meson inj_on_map_eq_map inj_on_subset)
qed

lemma updated_since_eq: "memories_updated_since db since n = map row_to_memory (take n (newer_rows db since))"
  by (simp add: memories_updated_since_def newer_rows_def)

text \<open>A peer that pages through the updates by the last timestamp of each page misses nothing when
  no two memories share a timestamp: a page of n followed by a page of k is the page of n + k.\<close>

theorem paging_complete:
  assumes "distinct (map m_updated_at (db_memories db))"
    and "page = memories_updated_since db since n" and "length page = n" and "0 < n"
  shows "page @ memories_updated_since db (Some (m_updated_at (last page))) k = memories_updated_since db since (n + k)"
proof -
  let ?xs = "newer_rows db since"
  have le: "n \<le> length ?xs" using assms(2,3) by (simp add: updated_since_eq)
  have "page = map row_to_memory (take n ?xs)" by (simp add: assms(2) updated_since_eq)
  moreover have "take n ?xs \<noteq> []" using le assms(4) by auto
  ultimately have "last page = row_to_memory (?xs ! (n - 1))"
    using le assms(4) by (simp add: last_map last_conv_nth)
  then have "newer_rows db (Some (m_updated_at (last page))) = drop n ?xs"
    using newer_rows_continue [OF assms(1,4) le] by simp
  then show ?thesis
    by (simp add: assms(2) updated_since_eq take_add flip: map_append)
qed

theorem paging_complete_witness:
  "let db = apply_versions empty_db [(ex_version ''x'' ''1'' ''2026-01'')\<lparr>m_title := ''p''\<rparr>,
              (ex_version ''y'' ''2'' ''2026-02'')\<lparr>m_title := ''q''\<rparr>];
       page = memories_updated_since db None 1 in
   page @ memories_updated_since db (Some (m_updated_at (last page))) 1 = memories_updated_since db None 2"
proof -
  let ?db = "apply_versions empty_db [(ex_version ''x'' ''1'' ''2026-01'')\<lparr>m_title := ''p''\<rparr>,
              (ex_version ''y'' ''2'' ''2026-02'')\<lparr>m_title := ''q''\<rparr>]"
  have d: "distinct (map m_updated_at (db_memories ?db))" by code_simp
  have l: "length (memories_updated_since ?db None 1) = 1" by code_simp
  show ?thesis using paging_complete [OF d refl l, of 1] by (simp add: Let_def numeral_2_eq_2)
qed

text \<open>When memories share a timestamp the cursor skips: with pages of one, the second of two
  memories written at the same time is in no page, so a peer never receives it.\<close>

theorem paging_skips_equal_stamps:
  "\<exists>db page. db_ok db \<and> page = memories_updated_since db None 1 \<and> length page = 1
     \<and> length (memories_updated_since db None 2) = 2
     \<and> memories_updated_since db (Some (m_updated_at (last page))) k = []"
proof -
  let ?ms = "[(ex_version ''x'' ''1'' ''2026'')\<lparr>m_title := ''p''\<rparr>, (ex_version ''y'' ''2'' ''2026'')\<lparr>m_title := ''q''\<rparr>]"
  let ?db = "apply_versions empty_db ?ms"
  have ok: "db_ok ?db" by (simp add: apply_versions_def insert_if_newer_ok db_ok_empty)
  have l: "length (memories_updated_since ?db None 1) = 1" "length (memories_updated_since ?db None 2) = 2"
    "newer_rows ?db (Some (m_updated_at (last (memories_updated_since ?db None 1)))) = []" by code_simp+
  then have "memories_updated_since ?db (Some (m_updated_at (last (memories_updated_since ?db None 1)))) k = []"
    by (simp add: updated_since_eq)
  with ok l(1,2) show ?thesis by blast
qed

end
