(* ===== verification/Governance.thy ===== *)
theory Governance
  imports Sync
begin

text \<open>
  Namespace standards, hierarchical governance policies and the queue of pending actions
  (\<open>src/db.rs\<close>). The deserializer of a policy is the parameter \<open>from_value\<close>, that of a memory
  \<open>mem_from_value\<close>; the age of a request in seconds is \<open>age_secs\<close>; the process-wide permissions mode
  (\<open>src/config.rs\<close>) is the argument \<open>mode\<close>.
\<close>

subsection \<open>Namespace standards\<close>

definition get_namespace_standard :: "Db \<Rightarrow> str \<Rightarrow> str option" where
  "get_namespace_standard db namespace =
     map_option nm_standard_id (sql_row (\<lambda>n. nm_namespace n = namespace) (db_namespace_meta db))"

definition get_namespace_parent :: "Db \<Rightarrow> str \<Rightarrow> str option" where
  "get_namespace_parent db namespace =
     (case sql_row (\<lambda>n. nm_namespace n = namespace \<and> nm_parent_namespace n \<noteq> None) (db_namespace_meta db) of
        Some n \<Rightarrow> nm_parent_namespace n
      | None \<Rightarrow> None)"

definition get_namespace_meta_entry :: "Db \<Rightarrow> str \<Rightarrow> NamespaceMetaEntry option" where
  "get_namespace_meta_entry db namespace = sql_row (\<lambda>n. nm_namespace n = namespace) (db_namespace_meta db)"

text \<open>The loop over the \<open>-\<close>-separated prefixes of a namespace, longest first.\<close>

function auto_detect_parent :: "Db \<Rightarrow> str \<Rightarrow> str option" where
  "auto_detect_parent db candidate =
     (case rsplit_once CHR ''-'' candidate of
        None \<Rightarrow> None
      | Some (p, _) \<Rightarrow>
          if p = [] then None
          else if get_namespace_standard db p \<noteq> None then Some p
          else auto_detect_parent db p)"
  by pat_completeness auto
termination
  by (relation "measure (\<lambda>(db, c). length c)") (auto dest!: rsplit_once_Some)

declare auto_detect_parent.simps [simp del]

definition set_namespace_standard :: "str \<Rightarrow> Db \<Rightarrow> str \<Rightarrow> str \<Rightarrow> str option \<Rightarrow> unit db_result" where
  "set_namespace_standard now db namespace standard_id parent =
     (if get db standard_id = None then (Inl (MemoryNotFound standard_id), db)
      else if parent = Some namespace then (Inl OwnParent, db)
      else
        let resolved = (case parent of Some p \<Rightarrow> Some p | None \<Rightarrow> auto_detect_parent db namespace);
            entry = \<lparr>nm_namespace = namespace, nm_standard_id = standard_id,
                     nm_parent_namespace = resolved, nm_updated_at = now\<rparr>
        in (Inr (),
            db\<lparr>db_namespace_meta :=
              (if sql_row (\<lambda>n. nm_namespace n = namespace) (db_namespace_meta db) \<noteq> None
               then sql_update (\<lambda>n. nm_namespace n = namespace) (\<lambda>_. entry) (db_namespace_meta db)
               else db_namespace_meta db @ [entry])\<rparr>))"

definition clear_namespace_standard :: "Db \<Rightarrow> str \<Rightarrow> bool \<times> Db" where
  "clear_namespace_standard db namespace =
     (sql_count (\<lambda>n. nm_namespace n = namespace) (db_namespace_meta db) > 0,
      db\<lparr>db_namespace_meta := sql_delete (\<lambda>n. nm_namespace n = namespace) (db_namespace_meta db)\<rparr>)"

subsection \<open>The inheritance chain\<close>

definition MAX_EXPLICIT_DEPTH :: nat where "MAX_EXPLICIT_DEPTH = 8"

text \<open>The bounded loop over explicit parents; \<open>ups\<close> collects the nearest first.\<close>

fun explicit_above :: "Db \<Rightarrow> str list \<Rightarrow> nat \<Rightarrow> str \<Rightarrow> str list \<Rightarrow> str list" where
  "explicit_above db hierarchy 0 current ups = ups"
| "explicit_above db hierarchy (Suc n) current ups =
     (case get_namespace_parent db current of
        Some p \<Rightarrow>
          if p \<noteq> ''*'' \<and> p \<notin> set ups \<and> p \<notin> set hierarchy
          then explicit_above db hierarchy n p (ups @ [p])
          else ups
      | None \<Rightarrow> ups)"

definition push_new :: "str list \<Rightarrow> str list \<Rightarrow> str list" where
  "push_new items chain = fold (\<lambda>e c. if e \<in> set c then c else c @ [e]) items chain"

definition build_namespace_chain :: "Db \<Rightarrow> str \<Rightarrow> str list" where
  "build_namespace_chain db namespace =
     (if namespace = ''*'' then [''*'']
      else
        let hierarchy = rev (namespace_ancestors namespace);
            ups = (case hierarchy of
                       top_ns # _ \<Rightarrow> explicit_above db hierarchy MAX_EXPLICIT_DEPTH top_ns []
                     | [] \<Rightarrow> [])
        in push_new hierarchy ([''*''] @ rev ups))"

definition read_namespace_policy :: "(json \<Rightarrow> str + GovernancePolicy) \<Rightarrow> Db \<Rightarrow> str \<Rightarrow> GovernancePolicy option" where
  "read_namespace_policy from_value db namespace =
     (case get_namespace_standard db namespace of
        None \<Rightarrow> None
      | Some standard_id \<Rightarrow>
          (case get db standard_id of
             None \<Rightarrow> None
           | Some mem \<Rightarrow>
               (case policy_from_metadata from_value (m_metadata mem) of
                  Some (Inr p) \<Rightarrow> Some p
                | _ \<Rightarrow> None)))"

fun first_policy :: "(str \<Rightarrow> GovernancePolicy option) \<Rightarrow> str list \<Rightarrow> GovernancePolicy option" where
  "first_policy read [] = None"
| "first_policy read (level # rest) = (case read level of Some p \<Rightarrow> Some p | None \<Rightarrow> first_policy read rest)"

definition resolve_governance_policy :: "(json \<Rightarrow> str + GovernancePolicy) \<Rightarrow> Db \<Rightarrow> str \<Rightarrow> GovernancePolicy option" where
  "resolve_governance_policy from_value db namespace =
     first_policy (read_namespace_policy from_value db) (rev (build_namespace_chain db namespace))"

subsection \<open>Enforcement\<close>

text \<open>A value between single quotes, as the messages format it.\<close>

definition quoted :: "str \<Rightarrow> str" where
  "quoted s = CHR 0x27 # s @ [CHR 0x27]"

datatype PermissionsMode = Enforce | Advisory | Off

definition AGENTS_NAMESPACE :: str where "AGENTS_NAMESPACE = ''_agents''"

definition is_registered_agent :: "Db \<Rightarrow> str \<Rightarrow> bool" where
  "is_registered_agent db agent_id =
     (sql_row (\<lambda>r. m_namespace r = AGENTS_NAMESPACE \<and> m_title r = ''agent:'' @ agent_id) (db_memories db) \<noteq> None)"

definition evaluate_level ::
    "Db \<Rightarrow> GovernanceLevel \<Rightarrow> str \<Rightarrow> str option \<Rightarrow> str option \<Rightarrow> GovernanceDecision" where
  "evaluate_level db level agent_id memory_owner namespace_owner =
     (case level of
        LAny \<Rightarrow> Allow
      | LRegistered \<Rightarrow>
          if is_registered_agent db agent_id then Allow
          else Deny (''governance: caller '' @ quoted agent_id @ '' is not a registered agent'')
      | LOwner \<Rightarrow>
          (case (case memory_owner of Some o' \<Rightarrow> Some o' | None \<Rightarrow> namespace_owner) of
             Some o' \<Rightarrow> if o' = agent_id then Allow
                        else Deny (''governance: caller '' @ quoted agent_id @ '' is not the owner ('' @ quoted o' @ '')'')
           | None \<Rightarrow> Deny ''governance: owner-level action has no resolvable owner'')
      | LApprove \<Rightarrow> Pending [])"

definition namespace_owner :: "Db \<Rightarrow> str \<Rightarrow> str option" where
  "namespace_owner db namespace =
     (case get_namespace_standard db namespace of
        None \<Rightarrow> None
      | Some standard_id \<Rightarrow>
          (case get db standard_id of
             None \<Rightarrow> None
           | Some mem \<Rightarrow>
               (case json_get (m_metadata mem) ''agent_id'' of
                  Some v \<Rightarrow> json_str v
                | None \<Rightarrow> None)))"

definition pending_row :: "PendingAction \<Rightarrow> PendingRow" where
  "pending_row p =
     \<lparr>pa_id = pa_id p, pa_action_type = pa_action_type p, pa_memory_id = pa_memory_id p,
      pa_namespace = pa_namespace p, pa_payload = pa_payload p, pa_requested_by = pa_requested_by p,
      pa_requested_at = pa_requested_at p, pa_status = pa_status p, pa_decided_by = pa_decided_by p,
      pa_decided_at = pa_decided_at p, pa_approvals = pa_approvals p,
      pr_default_timeout_seconds = None, pr_expired_at = None\<rparr>"

definition row_to_pending :: "PendingRow \<Rightarrow> PendingAction" where
  "row_to_pending p =
     \<lparr>pa_id = pa_id p, pa_action_type = pa_action_type p, pa_memory_id = pa_memory_id p,
      pa_namespace = pa_namespace p, pa_payload = pa_payload p, pa_requested_by = pa_requested_by p,
      pa_requested_at = pa_requested_at p, pa_status = pa_status p, pa_decided_by = pa_decided_by p,
      pa_decided_at = pa_decided_at p, pa_approvals = pa_approvals p\<rparr>"

definition queue_pending_action ::
    "str \<Rightarrow> str \<Rightarrow> Db \<Rightarrow> GovernedAction \<Rightarrow> str \<Rightarrow> str option \<Rightarrow> str \<Rightarrow> json \<Rightarrow> str db_result" where
  "queue_pending_action new_id now db action namespace memory_id requested_by payload =
     (if sql_row (\<lambda>p. pa_id p = new_id) (db_pending db) \<noteq> None then (Inl ConstraintViolation, db)
      else (Inr new_id,
            db\<lparr>db_pending := db_pending db @
              [\<lparr>pa_id = new_id, pa_action_type = action_as_str action, pa_memory_id = memory_id,
                pa_namespace = namespace, pa_payload = payload, pa_requested_by = requested_by,
                pa_requested_at = now, pa_status = ''pending'', pa_decided_by = None, pa_decided_at = None,
                pa_approvals = [], pr_default_timeout_seconds = None, pr_expired_at = None\<rparr>]\<rparr>))"

definition enforce_governance ::
    "PermissionsMode \<Rightarrow> (json \<Rightarrow> str + GovernancePolicy) \<Rightarrow> str \<Rightarrow> str \<Rightarrow> Db \<Rightarrow> GovernedAction \<Rightarrow> str \<Rightarrow> str \<Rightarrow>
     str option \<Rightarrow> str option \<Rightarrow> json \<Rightarrow> GovernanceDecision db_result" where
  "enforce_governance mode from_value new_id now db action namespace agent_id memory_id memory_owner payload =
     (if mode = Off then (Inr Allow, db)
      else case resolve_governance_policy from_value db namespace of
          None \<Rightarrow> (Inr Allow, db)
        | Some policy \<Rightarrow>
            let level = (case action of Store \<Rightarrow> gp_write policy | Delete \<Rightarrow> gp_delete policy
                         | Promote \<Rightarrow> gp_promote policy);
                ns_owner = (if action = Store then namespace_owner db namespace else None);
                decision = evaluate_level db level agent_id memory_owner ns_owner
            in if mode = Advisory then (Inr Allow, db)
               else (case decision of
                       Pending _ \<Rightarrow>
                         (case queue_pending_action new_id now db action namespace memory_id agent_id payload of
                            (Inl e, db') \<Rightarrow> (Inl e, db')
                          | (Inr pending_id, db') \<Rightarrow> (Inr (Pending pending_id), db'))
                     | d \<Rightarrow> (Inr d, db)))"

subsection \<open>Pending actions\<close>

definition upsert_pending_action :: "Db \<Rightarrow> PendingAction \<Rightarrow> Db" where
  "upsert_pending_action db pa =
     db\<lparr>db_pending :=
       (if sql_row (\<lambda>p. pa_id p = pa_id pa) (db_pending db) \<noteq> None
        then sql_update (\<lambda>p. pa_id p = pa_id pa)
               (\<lambda>p. (pending_row pa)\<lparr>pr_default_timeout_seconds := pr_default_timeout_seconds p,
                                     pr_expired_at := pr_expired_at p\<rparr>) (db_pending db)
        else db_pending db @ [pending_row pa])\<rparr>"

definition list_pending_actions :: "Db \<Rightarrow> str option \<Rightarrow> nat \<Rightarrow> PendingAction list" where
  "list_pending_actions db status limit =
     map row_to_pending (take limit (order_by (\<lambda>a b. pa_requested_at a > pa_requested_at b)
       (filter (\<lambda>p. opt_ok (\<lambda>s. pa_status p = s) status) (db_pending db))))"

definition get_pending_action :: "Db \<Rightarrow> str \<Rightarrow> PendingAction option" where
  "get_pending_action db i = map_option row_to_pending (sql_row (\<lambda>p. pa_id p = i) (db_pending db))"

definition decide_row :: "str \<Rightarrow> bool \<Rightarrow> str \<Rightarrow> PendingRow \<Rightarrow> PendingRow" where
  "decide_row now approve decided_by p =
     p\<lparr>pa_status := (if approve then ''approved'' else ''rejected''),
       pa_decided_by := Some decided_by, pa_decided_at := Some now\<rparr>"

definition decide_pending_action :: "str \<Rightarrow> Db \<Rightarrow> str \<Rightarrow> bool \<Rightarrow> str \<Rightarrow> bool \<times> Db" where
  "decide_pending_action now db i approve decided_by =
     (let P = (\<lambda>p. pa_id p = i \<and> pa_status p = ''pending'') in
      (sql_count P (db_pending db) > 0,
       db\<lparr>db_pending := sql_update P (decide_row now approve decided_by) (db_pending db)\<rparr>))"

datatype ApproveOutcome = Rejected str | StillPending nat nat | Approved

definition set_approvals :: "Approval list \<Rightarrow> PendingRow \<Rightarrow> PendingRow" where
  "set_approvals approvals p = p\<lparr>pa_approvals := approvals\<rparr>"

definition approve_with_approver_type ::
    "(json \<Rightarrow> str + GovernancePolicy) \<Rightarrow> str \<Rightarrow> Db \<Rightarrow> str \<Rightarrow> str \<Rightarrow> ApproveOutcome \<times> Db" where
  "approve_with_approver_type from_value now db pending_id approver_agent_id =
     (case get_pending_action db pending_id of
        None \<Rightarrow> (Rejected (''pending action not found: '' @ pending_id), db)
      | Some pa \<Rightarrow>
          if pa_status pa \<noteq> ''pending'' then (Rejected (''already decided: status='' @ pa_status pa), db)
          else
            let approver = (case resolve_governance_policy from_value db (pa_namespace pa) of
                              Some p \<Rightarrow> gp_approver p | None \<Rightarrow> Human)
            in case approver of
                 Human \<Rightarrow>
                   (case decide_pending_action now db pending_id True approver_agent_id of
                      (ok, db') \<Rightarrow> (if ok then Approved else Rejected ''decision write failed'', db'))
               | Agent required \<Rightarrow>
                   if approver_agent_id \<noteq> required
                   then (Rejected (''designated approver is '' @ quoted required @ ''; got '' @ quoted approver_agent_id), db)
                   else (case decide_pending_action now db pending_id True approver_agent_id of
                           (ok, db') \<Rightarrow> (if ok then Approved else Rejected ''decision write failed'', db'))
               | Consensus quorum \<Rightarrow>
                   if \<not> is_registered_agent db approver_agent_id
                   then (Rejected (''consensus voter '' @ quoted approver_agent_id @ '' is not a registered agent''), db)
                   else
                     let canonical_id = to_ascii_lowercase approver_agent_id;
                         approvals = pa_approvals pa in
                     if list_ex (\<lambda>a. to_ascii_lowercase (ap_agent_id a) = to_ascii_lowercase canonical_id) approvals
                     then (StillPending (length approvals) quorum, db)
                     else
                       let approvals' = approvals @ [\<lparr>ap_agent_id = canonical_id, ap_approved_at = now\<rparr>];
                           db1 = db\<lparr>db_pending := sql_update (\<lambda>p. pa_id p = pending_id \<and> pa_status p = ''pending'')
                                        (set_approvals approvals') (db_pending db)\<rparr>;
                           votes = length approvals'
                       in if votes \<ge> quorum
                          then (case decide_pending_action now db1 pending_id True canonical_id of
                                  (ok, db2) \<Rightarrow>
                                    (if ok then Approved
                                     else Rejected ''decision write failed at consensus threshold'', db2))
                          else (StillPending votes quorum, db1))"

definition promote_update :: UpdateMemory where
  "promote_update = \<lparr>u_title = None, u_content = None, u_tier = Some Long, u_namespace = None, u_tags = None,
     u_priority = None, u_confidence = None, u_expires_at = Some '''', u_metadata = None\<rparr>"

definition execute_pending_action ::
    "(json \<Rightarrow> str + Memory) \<Rightarrow> str \<Rightarrow> str \<Rightarrow> Db \<Rightarrow> str \<Rightarrow> str option db_result" where
  "execute_pending_action mem_from_value new_id now db pending_id =
     (case get_pending_action db pending_id of
        None \<Rightarrow> (Inl (PendingNotFound pending_id), db)
      | Some pa \<Rightarrow>
          if pa_status pa \<noteq> ''approved'' then (Inl (NotApproved (pa_status pa)), db)
          else if pa_action_type pa = ''store'' then
            (case mem_from_value (pa_payload pa) of
               Inl e \<Rightarrow> (Inl (InvalidPayload e), db)
             | Inr mem \<Rightarrow>
                 (case insert_mem db (mem\<lparr>m_id := new_id, m_created_at := now, m_updated_at := now,
                                          m_access_count := 0\<rparr>) of
                    (Inl e, db') \<Rightarrow> (Inl e, db')
                  | (Inr actual_id, db') \<Rightarrow> (Inr (Some actual_id), db')))
          else if pa_action_type pa = ''delete'' then
            (case pa_memory_id pa of
               Some mid \<Rightarrow> (Inr (Some mid), snd (delete db mid))
             | None \<Rightarrow> (Inr None, db))
          else if pa_action_type pa = ''promote'' then
            (case pa_memory_id pa of
               None \<Rightarrow> (Inr None, db)
             | Some mid \<Rightarrow>
                 (case (case json_get (pa_payload pa) ''to_namespace'' of
                          Some v \<Rightarrow> json_str v | None \<Rightarrow> None) of
                    Some to_ns \<Rightarrow>
                      (case promote_to_namespace new_id now db mid to_ns of
                         (Inl e, db') \<Rightarrow> (Inl e, db')
                       | (Inr clone_id, db') \<Rightarrow> (Inr (Some clone_id), db'))
                  | None \<Rightarrow>
                      (case update now db mid promote_update of
                         (Inl e, db') \<Rightarrow> (Inl e, db')
                       | (Inr _, db') \<Rightarrow> (Inr (Some mid), db'))))
          else (Inl (UnknownAction (pa_action_type pa)), db))"

definition is_namespace_standard :: "Db \<Rightarrow> str \<Rightarrow> bool" where
  "is_namespace_standard db i = (sql_count (\<lambda>n. nm_standard_id n = i) (db_namespace_meta db) > 0)"

text \<open>\<open>INNER JOIN\<close> of the namespaces with their standard memories, and the policies it lists.\<close>

definition governed_rows :: "Db \<Rightarrow> (str \<times> json) list" where
  "governed_rows db =
     concat (map (\<lambda>n. map (\<lambda>r. (nm_namespace n, m_metadata r))
       (filter (\<lambda>r. m_id r = nm_standard_id n \<and> sql_json_extract (m_metadata r) ''governance'' \<noteq> None)
         (db_memories db))) (db_namespace_meta db))"

definition count_active_governance_rules :: "Db \<Rightarrow> nat" where
  "count_active_governance_rules db = length (governed_rows db)"

definition list_active_governance_policies ::
    "(json \<Rightarrow> str + GovernancePolicy) \<Rightarrow> Db \<Rightarrow> (str \<times> GovernancePolicy) list" where
  "list_active_governance_policies from_value db =
     List.map_filter (\<lambda>(ns, md). case policy_from_metadata from_value md of
                                   Some (Inr p) \<Rightarrow> Some (ns, p) | _ \<Rightarrow> None)
       (order_by (\<lambda>a b. fst a < fst b) (governed_rows db))"

definition count_pending_actions_by_status :: "Db \<Rightarrow> str \<Rightarrow> nat" where
  "count_pending_actions_by_status db status = sql_count (\<lambda>p. pa_status p = status) (db_pending db)"

definition overdue :: "(str \<Rightarrow> str \<Rightarrow> rat) \<Rightarrow> str \<Rightarrow> int \<Rightarrow> PendingRow \<Rightarrow> bool" where
  "overdue age_secs now global_default_secs p =
     (pa_status p = ''pending''
      \<and> age_secs now (pa_requested_at p)
          > of_int (case pr_default_timeout_seconds p of Some s \<Rightarrow> s | None \<Rightarrow> global_default_secs))"

definition expire_row :: "str \<Rightarrow> PendingRow \<Rightarrow> PendingRow" where
  "expire_row now p = p\<lparr>pa_status := ''expired'', pr_expired_at := Some now\<rparr>"

definition sweep_pending_action_timeouts ::
    "(str \<Rightarrow> str \<Rightarrow> rat) \<Rightarrow> str \<Rightarrow> Db \<Rightarrow> int \<Rightarrow> (str \<times> str) list \<times> Db" where
  "sweep_pending_action_timeouts age_secs now db global_default_secs =
     (if global_default_secs \<le> 0 then ([], db)
      else
        let rows = map (\<lambda>p. (pa_id p, pa_namespace p))
                     (filter (overdue age_secs now global_default_secs) (db_pending db))
        in (rows,
            fold (\<lambda>(i, _) d. d\<lparr>db_pending := sql_update (\<lambda>p. pa_id p = i \<and> pa_status p = ''pending'')
                                   (expire_row now) (db_pending d)\<rparr>) rows db))"

section \<open>Lemmas\<close>

subsection \<open>The chain\<close>

lemma push_new_distinct:
  "distinct items \<Longrightarrow> push_new items chain = chain @ filter (\<lambda>e. e \<notin> set chain) items"
proof (induction items arbitrary: chain)
  case (Cons e items)
  then have "filter (\<lambda>x. x \<notin> set (chain @ [e])) items = filter (\<lambda>x. x \<notin> set chain) items"
    by (intro filter_cong) auto
  with Cons show ?case by (simp add: push_new_def)
qed (simp add: push_new_def)

lemma explicit_above_spec:
  assumes "distinct ups" and "set ups \<inter> insert ''*'' (set h) = {}"
  shows "distinct (explicit_above db h n cur ups)
    \<and> set (explicit_above db h n cur ups) \<inter> insert ''*'' (set h) = {}
    \<and> length (explicit_above db h n cur ups) \<le> length ups + n"
  using assms
proof (induction n arbitrary: cur ups)
  case (Suc n)
  show ?case
  proof (cases "get_namespace_parent db cur")
    case (Some p)
    then show ?thesis using Suc.prems Suc.IH [of "ups @ [p]" p] by auto
  qed (use Suc.prems in auto)
qed auto

lemma ancestors_loop_shorter:
  "a \<in> set (ancestors_loop ns) \<Longrightarrow> length a \<le> length ns"
proof (induction ns rule: ancestors_loop.induct)
  case (1 ns)
  then consider "a = ns" | p where "namespace_parent ns = Some p" "length a \<le> length p"
    unfolding ancestors_loop.simps [of ns] by (cases "namespace_parent ns") (auto split: if_splits)
  then show ?case by cases (auto dest: namespace_parent_shorter)
qed

lemma ancestors_loop_distinct: "distinct (ancestors_loop ns)"
proof (induction ns rule: ancestors_loop.induct)
  case (1 ns)
  then show ?case unfolding ancestors_loop.simps [of ns]
    by (auto split: option.splits dest!: namespace_parent_shorter ancestors_loop_shorter)
qed

lemma ancestors_distinct: "distinct (namespace_ancestors ns)"
  by (simp add: namespace_ancestors_def ancestors_loop_distinct)

lemma ancestors_hd: "ns \<noteq> [] \<Longrightarrow> \<exists>rest. namespace_ancestors ns = ns # rest"
  by (simp add: namespace_ancestors_def ancestors_loop.simps [of ns])

text \<open>The shape of the chain: the global entry, at most eight explicit ancestors, the path.\<close>

lemma chain_shape:
  assumes "ns \<noteq> [] " "ns \<noteq> ''*''"
  obtains ups where "build_namespace_chain db ns
      = ''*'' # rev ups @ rev (filter (\<lambda>a. a \<noteq> ''*'') (namespace_ancestors ns))"
    and "distinct ups" and "length ups \<le> MAX_EXPLICIT_DEPTH"
    and "set ups \<inter> insert ''*'' (set (namespace_ancestors ns)) = {}"
proof -
  let ?h = "rev (namespace_ancestors ns)"
  obtain x xs where h: "?h = x # xs" using ancestors_hd [OF assms(1)] by (cases ?h) auto
  define ups where "ups = explicit_above db ?h MAX_EXPLICIT_DEPTH x []"
  have sp: "distinct ups \<and> set ups \<inter> insert ''*'' (set ?h) = {} \<and> length ups \<le> MAX_EXPLICIT_DEPTH"
    unfolding ups_def using explicit_above_spec [of "[]" ?h db MAX_EXPLICIT_DEPTH x] by simp
  have "build_namespace_chain db ns = push_new ?h ([''*''] @ rev ups)"
    unfolding build_namespace_chain_def ups_def h using assms(2) by (simp add: Let_def)
  also have "\<dots> = ([''*''] @ rev ups) @ filter (\<lambda>e. e \<notin> set ([''*''] @ rev ups)) ?h"
    by (rule push_new_distinct) (simp add: ancestors_distinct)
  also have "filter (\<lambda>e. e \<notin> set ([''*''] @ rev ups)) ?h = filter (\<lambda>e. e \<noteq> ''*'') ?h"
    using sp by (intro filter_cong) auto
  finally show ?thesis using that [of ups] sp by (simp add: rev_filter)
qed

lemma first_policy_append:
  "first_policy rd (xs @ ys) = (case first_policy rd xs of Some p \<Rightarrow> Some p | None \<Rightarrow> first_policy rd ys)"
  by (induction xs) (auto split: option.splits)

lemma first_policy_None [simp]: "(first_policy rd xs = None) = (\<forall>x \<in> set xs. rd x = None)"
  by (induction xs) (auto split: option.splits)

lemma first_policy_split:
  "(first_policy rd xs = Some p) = (\<exists>pre x post. xs = pre @ x # post \<and> rd x = Some p \<and> (\<forall>y \<in> set pre. rd y = None))"
  (is "?l = ?r")
proof
  show "?l \<Longrightarrow> ?r"
  proof (induction xs)
    case (Cons x xs)
    show ?case
    proof (cases "rd x")
      case None
      with Cons obtain pre y post where "xs = pre @ y # post" "rd y = Some p" "\<forall>z \<in> set pre. rd z = None" by auto
      with None show ?thesis by (intro exI [of _ "x # pre"]) auto
    next
      case (Some q)
      with Cons.prems have "x # xs = [] @ x # xs \<and> rd x = Some p \<and> (\<forall>y \<in> set []. rd y = None)" by simp
      then show ?thesis by blast
    qed
  qed simp
  assume ?r
  then obtain pre x post where xs: "xs = pre @ x # post" "rd x = Some p" and "\<forall>y \<in> set pre. rd y = None" by blast
  then have "first_policy rd pre = None" by simp
  with xs show ?l by (simp add: first_policy_append del: first_policy_None)
qed

lemma resolve_ancestor:
  assumes "ns \<noteq> []" "ns \<noteq> ''*''" and "namespace_ancestors ns = pre @ a # post"
    and "read_namespace_policy fv db a = Some p" "a \<noteq> ''*''"
    and "\<forall>b \<in> set pre. b = ''*'' \<or> read_namespace_policy fv db b = None"
  shows "resolve_governance_policy fv db ns = Some p"
proof -
  obtain ups where "build_namespace_chain db ns
      = ''*'' # rev ups @ rev (filter (\<lambda>a. a \<noteq> ''*'') (namespace_ancestors ns))"
    by (rule chain_shape [OF assms(1,2)])
  then have "rev (build_namespace_chain db ns)
      = filter (\<lambda>a. a \<noteq> ''*'') pre @ a # filter (\<lambda>a. a \<noteq> ''*'') post @ ups @ [''*'']"
    using assms(3,5) by simp
  then show ?thesis unfolding resolve_governance_policy_def first_policy_split
    using assms(4,6) by (intro exI [of _ "filter (\<lambda>a. a \<noteq> ''*'') pre"] exI [of _ a]
        exI [of _ "filter (\<lambda>a. a \<noteq> ''*'') post @ ups @ [''*'']"]) auto
qed

subsection \<open>Well-formedness\<close>

lemma db_ok_pending: "db_ok db \<Longrightarrow> unique_key pa_id t \<Longrightarrow> db_ok (db\<lparr>db_pending := t\<rparr>)"
  by (auto simp: db_ok_def links_ok_def mem_ids_def)

lemma db_ok_uniqueD:
  "db_ok db \<Longrightarrow> unique_key nm_namespace (db_namespace_meta db)"
  "db_ok db \<Longrightarrow> unique_key pa_id (db_pending db)"
  by (simp_all add: db_ok_def)

interpretation decide_key: key_preserving pa_id "decide_row now approve who" for now approve who
  by unfold_locales (simp add: decide_row_def)

interpretation approvals_key: key_preserving pa_id "set_approvals approvals" for approvals
  by unfold_locales (simp add: set_approvals_def)

interpretation expire_key: key_preserving pa_id "expire_row now" for now
  by unfold_locales (simp add: expire_row_def)

lemmas pending_uniques = decide_key.unique_update approvals_key.unique_update expire_key.unique_update

lemma set_namespace_standard_ok:
  assumes "db_ok db"
  shows "db_ok (snd (set_namespace_standard now db ns i p))"
proof -
  have "db_ok (db\<lparr>db_namespace_meta :=
      (if sql_row (\<lambda>n. nm_namespace n = ns) (db_namespace_meta db) \<noteq> None
       then sql_update (\<lambda>n. nm_namespace n = ns) (\<lambda>_. e) (db_namespace_meta db)
       else db_namespace_meta db @ [e])\<rparr>)" if "nm_namespace e = ns" for e
    using that by (intro db_ok_namespace_meta unique_upsert assms db_ok_uniqueD) auto
  then show ?thesis unfolding set_namespace_standard_def Let_def using assms by auto
qed

lemma clear_namespace_standard_ok: "db_ok db \<Longrightarrow> db_ok (snd (clear_namespace_standard db ns))"
  by (simp add: clear_namespace_standard_def db_ok_meta_delete)

lemma queue_pending_action_ok:
  "db_ok db \<Longrightarrow> db_ok (snd (queue_pending_action i now db act ns mid who payload))"
  by (auto simp: queue_pending_action_def unique_key_snoc sql_row_None
      intro!: db_ok_pending db_ok_uniqueD)

lemma enforce_governance_ok:
  "db_ok db \<Longrightarrow> db_ok (snd (enforce_governance mode fv i now db act ns who mid own payload))"
  using queue_pending_action_ok [of db i now act ns mid who payload]
  by (auto simp: enforce_governance_def Let_def split: option.splits GovernanceDecision.splits prod.splits sum.splits)

lemma upsert_pending_action_ok: "db_ok db \<Longrightarrow> db_ok (upsert_pending_action db pa)"
  unfolding upsert_pending_action_def
  by (intro db_ok_pending unique_upsert) (auto simp: db_ok_uniqueD pending_row_def)

lemma decide_pending_action_ok: "db_ok db \<Longrightarrow> db_ok (snd (decide_pending_action now db i a who))"
  by (simp add: decide_pending_action_def Let_def db_ok_pending pending_uniques db_ok_uniqueD)

lemma approve_ok: "db_ok db \<Longrightarrow> db_ok (snd (approve_with_approver_type fv now db i who))"
  by (auto simp: approve_with_approver_type_def decide_pending_action_def Let_def pending_uniques db_ok_uniqueD
      split: option.splits ApproverType.splits intro!: db_ok_pending)

lemma pass_result [simp]:
  "snd (case r of (Inl e, d) \<Rightarrow> (Inl e, d) | (Inr v, d) \<Rightarrow> (Inr (f v), d)) = snd r"
  by (auto split: prod.split sum.split)

lemma execute_pending_action_ok:
  assumes "db_ok db"
  shows "db_ok (snd (execute_pending_action mv new_id now db i))"
proof -
  have "db_ok (snd (insert_mem db m))" for m
    unfolding insert_mem_def by (rule insert_merge.upsert_ok [OF assms])
  with delete_ok [OF assms] promote_ok [OF assms, of new_id now] update_ok [OF assms, of now] assms
  show ?thesis by (simp add: execute_pending_action_def split: option.split sum.split)
qed

lemma sweep_ok: "db_ok db \<Longrightarrow> db_ok (snd (sweep_pending_action_timeouts age now db g))"
proof -
  have "db_ok d \<Longrightarrow> db_ok (fold (\<lambda>(i, _) d. d\<lparr>db_pending := sql_update (\<lambda>p. pa_id p = i \<and> pa_status p = ''pending'')
      (expire_row now) (db_pending d)\<rparr>) rows d)" for rows :: "(str \<times> str) list" and d
    by (induction rows arbitrary: d) (auto simp: db_ok_pending pending_uniques db_ok_uniqueD)
  then show "db_ok db \<Longrightarrow> ?thesis" by (simp add: sweep_pending_action_timeouts_def Let_def)
qed

subsection \<open>Decisions\<close>

lemma get_pending_cong: "db_pending db' = db_pending db \<Longrightarrow> get_pending_action db' = get_pending_action db"
  by (rule ext) (simp add: get_pending_action_def)

text \<open>One pass of the sweeper updates exactly the overdue rows.\<close>

lemma sweep_fold:
  assumes "unique_key pa_id (db_pending db)"
  shows "db_pending (fold (\<lambda>(i, _) d. d\<lparr>db_pending := sql_update (\<lambda>p. pa_id p = i \<and> pa_status p = ''pending'')
        (expire_row now) (db_pending d)\<rparr>) rows db)
      = sql_update (\<lambda>p. pa_id p \<in> fst ` set rows \<and> pa_status p = ''pending'') (expire_row now) (db_pending db)"
proof (induction rows arbitrary: db)
  case Nil
  then show ?case by (simp add: sql_update_def)
next
  case (Cons x rows)
  then show ?case by (cases x) (auto simp: sql_update_def expire_row_def)
qed

lemma sweep_eq:
  assumes "unique_key pa_id (db_pending db)" and "0 < g"
  shows "db_pending (snd (sweep_pending_action_timeouts age now db g))
    = sql_update (overdue age now g) (expire_row now) (db_pending db)"
proof -
  let ?rows = "map (\<lambda>p. (pa_id p, pa_namespace p)) (filter (overdue age now g) (db_pending db))"
  have "sql_update (\<lambda>p. pa_id p \<in> fst ` set ?rows \<and> pa_status p = ''pending'') (expire_row now) (db_pending db)
      = sql_update (overdue age now g) (expire_row now) (db_pending db)"
  proof -
    have "(pa_id p \<in> fst ` set ?rows \<and> pa_status p = ''pending'') = overdue age now g p"
      if p: "p \<in> set (db_pending db)" for p
    proof
      assume a: "pa_id p \<in> fst ` set ?rows \<and> pa_status p = ''pending''"
      then obtain q where "q \<in> set (db_pending db)" "overdue age now g q" "pa_id q = pa_id p" by auto
      with unique_key_inj [OF assms(1) _ p] show "overdue age now g p" by blast
    qed (use p in \<open>force simp: overdue_def\<close>)
    then show ?thesis by (simp add: sql_update_def)
  qed
  then show ?thesis using assms(2) sweep_fold [OF assms(1), of now ?rows]
    by (simp add: sweep_pending_action_timeouts_def Let_def)
qed

lemma sweep_other_tables [simp]:
  "db_memories (snd (sweep_pending_action_timeouts age now db g)) = db_memories db"
  "db_namespace_meta (snd (sweep_pending_action_timeouts age now db g)) = db_namespace_meta db"
proof -
  have "db_memories (fold (\<lambda>(i, _) d. d\<lparr>db_pending := sql_update (\<lambda>p. pa_id p = i \<and> pa_status p = ''pending'')
        (expire_row now) (db_pending d)\<rparr>) rows d) = db_memories d
    \<and> db_namespace_meta (fold (\<lambda>(i, _) d. d\<lparr>db_pending := sql_update (\<lambda>p. pa_id p = i \<and> pa_status p = ''pending'')
        (expire_row now) (db_pending d)\<rparr>) rows d) = db_namespace_meta d"
    for rows :: "(str \<times> str) list" and d
    by (induction rows arbitrary: d) auto
  then show "db_memories (snd (sweep_pending_action_timeouts age now db g)) = db_memories db"
    and "db_namespace_meta (snd (sweep_pending_action_timeouts age now db g)) = db_namespace_meta db"
    by (auto simp: sweep_pending_action_timeouts_def Let_def)
qed

text \<open>
  What every local operation keeps of the queue: a decided action is untouched, and no action is
  voted on twice by the same agent.
\<close>

definition decided_kept :: "Db \<Rightarrow> Db \<Rightarrow> bool" where
  "decided_kept db db' = (\<forall>i pa. get_pending_action db i = Some pa \<and> pa_status pa \<noteq> ''pending''
     \<longrightarrow> get_pending_action db' i = Some pa)"

definition voters :: "'a PendingAction_scheme \<Rightarrow> str list" where
  "voters p = map (\<lambda>a. to_ascii_lowercase (ap_agent_id a)) (pa_approvals p)"

definition votes_ok :: "Db \<Rightarrow> bool" where
  "votes_ok db = (\<forall>p \<in> set (db_pending db). distinct (voters p))"

lemma decided_kept_same: "db_pending db' = db_pending db \<Longrightarrow> decided_kept db db'"
  using get_pending_cong [of db' db] by (simp add: decided_kept_def)

lemma votes_ok_same: "db_pending db' = db_pending db \<Longrightarrow> votes_ok db \<Longrightarrow> votes_ok db'"
  by (simp add: votes_ok_def)

text \<open>An update of pending rows only, that keeps the key.\<close>

context key_preserving
begin

lemma row_update_guarded:
  assumes "sql_row (\<lambda>x. key x = k) t = Some r" and "\<not> P r"
  shows "sql_row (\<lambda>x. key x = k) (sql_update P upd t) = Some r"
  using assms by (simp add: row_update_any)

end

lemma get_pending_Some:
  "(get_pending_action db i = Some pa) = (\<exists>p. sql_row (\<lambda>p. pa_id p = i) (db_pending db) = Some p \<and> pa = row_to_pending p)"
  by (auto simp: get_pending_action_def)

lemma row_to_pending_sel [simp]:
  "pa_id (row_to_pending p) = pa_id p" "pa_status (row_to_pending p) = pa_status p"
  "pa_namespace (row_to_pending p) = pa_namespace p" "pa_approvals (row_to_pending p) = pa_approvals p"
  "voters (row_to_pending p) = voters p"
  by (simp_all add: row_to_pending_def voters_def)

lemma decided_kept_update:
  assumes "key_preserving pa_id f" and "\<And>p. P p \<Longrightarrow> pa_status p = ''pending''"
    and "db_pending db' = sql_update P f (db_pending db)"
  shows "decided_kept db db'"
  using key_preserving.row_update_guarded [OF assms(1)] assms(2)
  by (fastforce simp: decided_kept_def get_pending_Some assms(3))

lemma votes_ok_update:
  assumes "votes_ok db" and "\<And>p. p \<in> set (db_pending db) \<Longrightarrow> P p \<Longrightarrow> distinct (voters p) \<Longrightarrow> distinct (voters (f p))"
    and "db_pending db' = sql_update P f (db_pending db)"
  shows "votes_ok db'"
  using assms by (auto simp: votes_ok_def sql_update_def)

lemmas pending_keys = decide_key.key_preserving_axioms approvals_key.key_preserving_axioms expire_key.key_preserving_axioms

lemma voters_simps [simp]:
  "voters (decide_row now a who p) = voters p" "voters (expire_row now p) = voters p"
  by (simp_all add: voters_def decide_row_def expire_row_def)

lemma decided_kept_trans: "decided_kept a b \<Longrightarrow> decided_kept b c \<Longrightarrow> decided_kept a c"
  unfolding decided_kept_def by blast

lemma decide_kept: "decided_kept db (snd (decide_pending_action now db i a who))"
  by (rule decided_kept_update [OF pending_keys(1)]) (auto simp: decide_pending_action_def Let_def)

lemma decide_votes: "votes_ok db \<Longrightarrow> votes_ok (snd (decide_pending_action now db i a who))"
  by (erule votes_ok_update) (auto simp: decide_pending_action_def Let_def)

lemma get_upsert_pending:
  "get_pending_action (upsert_pending_action db pa) j = (if j = pa_id pa then Some pa else get_pending_action db j)"
proof -
  let ?f = "\<lambda>p. (pending_row pa)\<lparr>pr_default_timeout_seconds := pr_default_timeout_seconds p, pr_expired_at := pr_expired_at p\<rparr>"
  have "db_pending (upsert_pending_action db pa) =
      (if sql_row (\<lambda>p. pa_id p = pa_id pa) (db_pending db) \<noteq> None
       then sql_update (\<lambda>p. pa_id p = pa_id pa) ?f (db_pending db)
       else db_pending db @ [pending_row pa])"
    by (simp add: upsert_pending_action_def)
  then have "sql_row (\<lambda>p. pa_id p = j) (db_pending (upsert_pending_action db pa))
      = (if j = pa_id pa then Some (case sql_row (\<lambda>p. pa_id p = pa_id pa) (db_pending db) of
           Some p \<Rightarrow> ?f p | None \<Rightarrow> pending_row pa) else sql_row (\<lambda>p. pa_id p = j) (db_pending db))"
    using row_upsert [where key = pa_id and k = "pa_id pa" and r = "pending_row pa" and f = ?f and j = j
        and t = "db_pending db"] by (simp add: pending_row_def)
  then show ?thesis
    by (simp add: get_pending_action_def row_to_pending_def pending_row_def split: option.split)
qed

lemma vote_kept:
  "decided_kept db (db\<lparr>db_pending := sql_update (\<lambda>p. pa_id p = i \<and> pa_status p = ''pending'')
     (set_approvals as) (db_pending db)\<rparr>)"
  by (rule decided_kept_update [OF pending_keys(2)]) auto

lemma vote_votes:
  assumes "votes_ok db" "unique_key pa_id (db_pending db)" and "get_pending_action db i = Some pa"
    and "to_ascii_lowercase v \<notin> set (voters pa)"
  shows "votes_ok (db\<lparr>db_pending := sql_update (\<lambda>p. pa_id p = i \<and> pa_status p = ''pending'')
     (set_approvals (pa_approvals pa @ [\<lparr>ap_agent_id = v, ap_approved_at = now\<rparr>])) (db_pending db)\<rparr>)"
proof (rule votes_ok_update [OF assms(1)])
  fix p assume p: "p \<in> set (db_pending db)" "pa_id p = i \<and> pa_status p = ''pending''" "distinct (voters p)"
  then have "pa = row_to_pending p" using assms(2,3) sql_row_unique [OF assms(2) p(1)] by (auto simp: get_pending_Some)
  then show "distinct (voters (set_approvals (pa_approvals pa @ [\<lparr>ap_agent_id = v, ap_approved_at = now\<rparr>]) p))"
    using p(3) assms(4) by (auto simp: voters_def set_approvals_def row_to_pending_def)
qed simp

lemma not_voted: "\<not> list_ex (\<lambda>a. to_ascii_lowercase (ap_agent_id a) = w) (pa_approvals pa) \<Longrightarrow> w \<notin> set (voters pa)"
  by (auto simp: voters_def list_ex_iff)

text \<open>The possible effects of \<open>approve_with_approver_type\<close>.\<close>

lemma approve_effects:
  obtains (same) "snd (approve_with_approver_type fv now db i who) = db"
      "fst (approve_with_approver_type fv now db i who) \<noteq> Approved"
  | (direct) "snd (approve_with_approver_type fv now db i who) = snd (decide_pending_action now db i True who)"
      "\<exists>pa. get_pending_action db i = Some pa \<and> pa_status pa = ''pending'' \<and>
        (case resolve_governance_policy fv db (pa_namespace pa) of None \<Rightarrow> True
         | Some p \<Rightarrow> gp_approver p = Human \<or> gp_approver p = Agent who)"
  | (vote) pa q as db1 where "get_pending_action db i = Some pa" "pa_status pa = ''pending''"
      "map_option gp_approver (resolve_governance_policy fv db (pa_namespace pa)) = Some (Consensus q)"
      "is_registered_agent db who"
      "to_ascii_lowercase (to_ascii_lowercase who) \<notin> set (voters pa)"
      "as = pa_approvals pa @ [\<lparr>ap_agent_id = to_ascii_lowercase who, ap_approved_at = now\<rparr>]"
      "db1 = db\<lparr>db_pending := sql_update (\<lambda>p. pa_id p = i \<and> pa_status p = ''pending'')
         (set_approvals as) (db_pending db)\<rparr>"
      "snd (approve_with_approver_type fv now db i who)
         = (if q \<le> length as then snd (decide_pending_action now db1 i True (to_ascii_lowercase who)) else db1)"
      "fst (approve_with_approver_type fv now db i who) = Approved \<Longrightarrow> q \<le> length as"
proof -
  let ?r = "approve_with_approver_type fv now db i who"
  show thesis
  proof (cases "get_pending_action db i")
    case None
    then show ?thesis by (intro same) (simp_all add: approve_with_approver_type_def)
  next
    case (Some pa)
    note pa = Some
    show ?thesis
    proof (cases "pa_status pa = ''pending''")
      case False
      with pa show ?thesis by (intro same) (simp_all add: approve_with_approver_type_def)
    next
      case True
      define ap where "ap = (case resolve_governance_policy fv db (pa_namespace pa) of
                              Some p \<Rightarrow> gp_approver p | None \<Rightarrow> Human)"
      show ?thesis
      proof (cases ap)
        case Human
        with pa True show ?thesis
          by (intro direct) (auto simp: approve_with_approver_type_def ap_def Let_def split: prod.split option.splits)
      next
        case (Agent req)
        show ?thesis
        proof (cases "who = req")
          case T: True
          with Agent pa True show ?thesis
            by (intro direct) (auto simp: approve_with_approver_type_def ap_def Let_def split: prod.split option.splits)
        qed (use Agent pa True in \<open>intro same; auto simp: approve_with_approver_type_def ap_def Let_def\<close>)
      next
        case (Consensus q)
        then have pol: "map_option gp_approver (resolve_governance_policy fv db (pa_namespace pa)) = Some (Consensus q)"
          by (auto simp: ap_def split: option.splits)
        let ?dup = "list_ex (\<lambda>a. to_ascii_lowercase (ap_agent_id a) = to_ascii_lowercase (to_ascii_lowercase who)) (pa_approvals pa)"
        show ?thesis
        proof (cases "is_registered_agent db who \<and> \<not> ?dup")
          case T: True
          with Consensus pa True show ?thesis
            by (intro vote [OF pa True pol _ _ refl refl] not_voted)
              (auto simp: approve_with_approver_type_def ap_def [symmetric] Let_def split: prod.splits if_splits)
        qed (use Consensus pa True in \<open>intro same; auto simp: approve_with_approver_type_def ap_def [symmetric] Let_def\<close>)
      qed
    qed
  qed
qed

lemma approve_kept: "decided_kept db (snd (approve_with_approver_type fv now db i who))"
proof (cases rule: approve_effects [of fv now db i who])
  case same
  then show ?thesis by (simp add: decided_kept_same)
next
  case direct
  then show ?thesis using decide_kept by simp
next
  case (vote pa q as db1)
  have "decided_kept db db1" unfolding vote(7) by (rule vote_kept)
  with vote(8) decide_kept show ?thesis by (auto intro: decided_kept_trans)
qed

lemma approve_votes:
  assumes "db_ok db" "votes_ok db"
  shows "votes_ok (snd (approve_with_approver_type fv now db i who))"
proof (cases rule: approve_effects [of fv now db i who])
  case same
  with assms show ?thesis by simp
next
  case direct
  with assms decide_votes show ?thesis by simp
next
  case (vote pa q as db1)
  have "votes_ok db1" unfolding vote(6,7)
    by (rule vote_votes [OF assms(2) db_ok_uniqueD(2) [OF assms(1)] vote(1,5)])
  with vote(8) decide_votes show ?thesis by simp
qed

lemma append_kept:
  assumes "db_pending db' = db_pending db @ rows"
  shows "decided_kept db db'"
  using assms by (auto simp: decided_kept_def get_pending_Some sql_row_def find_append)

lemma queue_effect:
  "\<exists>rows. db_pending (snd (queue_pending_action i now db act ns mid who payload)) = db_pending db @ rows
     \<and> (\<forall>p \<in> set rows. pa_approvals p = [])"
  by (auto simp: queue_pending_action_def)

lemma enforce_effect:
  "snd (enforce_governance mode fv i now db act ns who mid own payload)
     \<in> {db, snd (queue_pending_action i now db act ns mid who payload)}"
  by (auto simp: enforce_governance_def Let_def split: option.splits GovernanceDecision.splits prod.splits sum.splits)

lemma enforce_kept: "decided_kept db (snd (enforce_governance mode fv i now db act ns who mid own payload))"
  using enforce_effect [of mode fv i now db act ns who mid own payload]
    queue_effect [of i now db act ns mid who payload] append_kept
  by (auto simp: decided_kept_same)

lemma enforce_votes:
  "votes_ok db \<Longrightarrow> votes_ok (snd (enforce_governance mode fv i now db act ns who mid own payload))"
  using enforce_effect [of mode fv i now db act ns who mid own payload]
    queue_effect [of i now db act ns mid who payload]
  by (fastforce simp: votes_ok_def voters_def)

lemma sweep_kept: "db_ok db \<Longrightarrow> decided_kept db (snd (sweep_pending_action_timeouts age now db g))"
proof (cases "0 < g")
  case True
  assume "db_ok db"
  then show ?thesis
    by (intro decided_kept_update [OF pending_keys(3) _ sweep_eq [OF db_ok_uniqueD(2) True]])
      (auto simp: overdue_def)
qed (simp add: sweep_pending_action_timeouts_def decided_kept_same)

lemma sweep_votes:
  "db_ok db \<Longrightarrow> votes_ok db \<Longrightarrow> votes_ok (snd (sweep_pending_action_timeouts age now db g))"
proof (cases "0 < g")
  case True
  assume "db_ok db" "votes_ok db"
  then show ?thesis by (intro votes_ok_update [OF _ _ sweep_eq [OF db_ok_uniqueD(2) True]]) auto
qed (simp add: sweep_pending_action_timeouts_def)

lemma upsert_pending_keep [simp]: "db_pending (snd (sql_upsert mg db m)) = db_pending db"
  by (auto simp: sql_upsert_def split: option.splits)

lemma insert_pending_keep [simp]: "db_pending (snd (insert_mem db m)) = db_pending db"
  by (simp add: insert_mem_def)

lemma delete_pending_keep [simp]: "db_pending (snd (delete db i)) = db_pending db"
  by (auto simp: delete_def Let_def delete_memories_def)

lemma update_pending_keep [simp]: "db_pending (snd (update now db i u)) = db_pending db"
  by (auto simp: update_def Let_def split: option.splits)

lemma create_link_pending_keep [simp]:
  "db_pending (snd (create_link_signed sg now db a b r kp)) = db_pending db"
  "db_pending (snd (create_link now db a b r)) = db_pending db"
  "db_pending (snd (create_link_inbound now db l lev)) = db_pending db"
  by (auto simp: create_link_signed_def create_link_def create_link_inbound_def Let_def split: option.splits sum.splits)

lemma promote_pending_keep [simp]: "db_pending (snd (promote_to_namespace i now db a b)) = db_pending db"
  by (auto simp: promote_to_namespace_def Let_def split: option.splits sum.splits prod.splits)
    (metis insert_pending_keep snd_conv)+

lemma execute_pending_keep [simp]: "db_pending (snd (execute_pending_action mv i now db j)) = db_pending db"
  by (simp add: execute_pending_action_def split: option.split sum.split)

section \<open>Properties\<close>

text \<open>C37: Whatever cycles the stored parent links contain, the inheritance chain of a namespace is finite
  and free of repetitions, starts at the global standard, ends at the namespace itself, contains
  every path ancestor, and has at most eight entries beyond these.\<close>

theorem namespace_chain_bounded:
  assumes "ns \<noteq> []" "ns \<noteq> ''*''"
  shows "hd (build_namespace_chain db ns) = ''*'' \<and> last (build_namespace_chain db ns) = ns
    \<and> distinct (build_namespace_chain db ns)
    \<and> set (namespace_ancestors ns) \<subseteq> set (build_namespace_chain db ns)
    \<and> length (build_namespace_chain db ns) \<le> Suc (MAX_EXPLICIT_DEPTH + length (namespace_ancestors ns))"
proof -
  obtain ups where c: "build_namespace_chain db ns
      = ''*'' # rev ups @ rev (filter (\<lambda>a. a \<noteq> ''*'') (namespace_ancestors ns))"
    and u: "distinct ups" "length ups \<le> MAX_EXPLICIT_DEPTH"
      "set ups \<inter> insert ''*'' (set (namespace_ancestors ns)) = {}"
    by (rule chain_shape [OF assms])
  obtain rest where a: "namespace_ancestors ns = ns # rest" using ancestors_hd [OF assms(1)] by blast
  have "last (build_namespace_chain db ns) = ns" unfolding c a using assms(2) by simp
  moreover have "distinct (build_namespace_chain db ns)"
    unfolding c using u(1,3) ancestors_distinct [of ns] by auto
  moreover have "length (build_namespace_chain db ns) \<le> Suc (MAX_EXPLICIT_DEPTH + length (namespace_ancestors ns))"
    unfolding c using add_mono [OF u(2) length_filter_le [of "\<lambda>a. a \<noteq> ''*''" "namespace_ancestors ns"]] by simp
  ultimately show ?thesis unfolding c by auto
qed

text \<open>Two standards whose stored parents form a cycle.\<close>

definition ex_cycle :: Db where
  "ex_cycle = snd (set_namespace_standard ''t'' (snd (set_namespace_standard ''t'' ex_db ''p'' ''m1'' (Some ''g'')))
     ''g'' ''m2'' (Some ''p''))"

theorem namespace_chain_bounded_witness:
  "build_namespace_chain ex_cycle ''g/h'' = [''*'', ''p'', ''g'', ''g/h'']
   \<and> distinct (build_namespace_chain ex_cycle ''g/h'')"
proof -
  have "build_namespace_chain ex_cycle ''g/h'' = [''*'', ''p'', ''g'', ''g/h'']" by code_simp
  with namespace_chain_bounded [of "''g/h''" ex_cycle] show ?thesis by auto
qed

text \<open>The policy that governs a namespace is its own when it has one, otherwise that of its nearest
  ancestor that has one; a policy anywhere on the chain is never ignored, and there is none only
  when no level of the chain carries one.\<close>

theorem most_specific_policy_wins:
  assumes "ns \<noteq> []" "ns \<noteq> ''*''"
  shows "(\<forall>p. read_namespace_policy fv db ns = Some p \<longrightarrow> resolve_governance_policy fv db ns = Some p)
    \<and> (\<forall>pre a post p. namespace_ancestors ns = pre @ a # post \<and> ''*'' \<notin> set (pre @ [a])
         \<and> (\<forall>b \<in> set pre. read_namespace_policy fv db b = None) \<and> read_namespace_policy fv db a = Some p
         \<longrightarrow> resolve_governance_policy fv db ns = Some p)
    \<and> (resolve_governance_policy fv db ns = None
         \<longleftrightarrow> (\<forall>l \<in> set (build_namespace_chain db ns). read_namespace_policy fv db l = None))"
proof (intro conjI allI impI)
  obtain rest where a: "namespace_ancestors ns = [] @ ns # rest" using ancestors_hd [OF assms(1)] by auto
  show "resolve_governance_policy fv db ns = Some p" if "read_namespace_policy fv db ns = Some p" for p
    using resolve_ancestor [OF assms a that assms(2)] by simp
  show "resolve_governance_policy fv db ns = Some p"
    if "namespace_ancestors ns = pre @ a # post \<and> ''*'' \<notin> set (pre @ [a])
      \<and> (\<forall>b \<in> set pre. read_namespace_policy fv db b = None) \<and> read_namespace_policy fv db a = Some p"
    for pre a post p
    using that by (intro resolve_ancestor [OF assms]) auto
  show "(resolve_governance_policy fv db ns = None)
      = (\<forall>l \<in> set (build_namespace_chain db ns). read_namespace_policy fv db l = None)"
    by (simp add: resolve_governance_policy_def)
qed

text \<open>A standard with a policy on the namespace \<open>o\<close>, owned by alice.\<close>

definition ex_policy :: "json \<Rightarrow> str + GovernancePolicy" where
  "ex_policy v = (case json_get v ''write'' of
     Some (JStr s) \<Rightarrow>
       if s = ''owner'' then Inr (default_policy\<lparr>gp_write := LOwner\<rparr>)
       else if s = ''approve'' then Inr (default_policy\<lparr>gp_write := LApprove, gp_approver := Consensus 2\<rparr>)
       else Inl ''unknown variant''
   | _ \<Rightarrow> Inl ''missing field'')"

definition ex_standard :: "str \<Rightarrow> Memory" where
  "ex_standard level = (ex_note ''s1'' ''standard'' Long ''alice'')\<lparr>m_metadata :=
     JObj [(''agent_id'', JStr ''alice''), (''governance'', JObj [(''write'', JStr level)])]\<rparr>"

definition ex_agent :: "str \<Rightarrow> Memory" where
  "ex_agent who = (ex_note who (''agent:'' @ who) Long who)\<lparr>m_namespace := AGENTS_NAMESPACE\<rparr>"

definition ex_gov :: "str \<Rightarrow> Db" where
  "ex_gov level = snd (set_namespace_standard ''t''
     (snd (insert_mem (snd (insert_mem (snd (insert_mem empty_db (ex_standard level))) (ex_agent ''alice'')))
        (ex_agent ''bob''))) ''o'' ''s1'' None)"

lemma ex_gov_ok: "db_ok (ex_gov level)"
  unfolding ex_gov_def insert_mem_def
  by (intro set_namespace_standard_ok insert_merge.upsert_ok db_ok_empty)

theorem most_specific_policy_wins_witness:
  "map_option gp_write (resolve_governance_policy ex_policy (ex_gov ''owner'') ''o/t/u'') = Some LOwner"
proof -
  have a: "namespace_ancestors ''o/t/u'' = [''o/t/u'', ''o/t''] @ ''o'' # []" by code_simp
  have r: "read_namespace_policy ex_policy (ex_gov ''owner'') ''o/t/u'' = None"
    "read_namespace_policy ex_policy (ex_gov ''owner'') ''o/t'' = None"
    "read_namespace_policy ex_policy (ex_gov ''owner'') ''o'' = Some (default_policy\<lparr>gp_write := LOwner\<rparr>)"
    by code_simp+
  have "''o/t/u'' \<noteq> []" "''o/t/u'' \<noteq> ''*''" by simp_all
  from most_specific_policy_wins [OF this, of ex_policy "ex_gov ''owner''", THEN conjunct2, THEN conjunct1,
      rule_format, of "[''o/t/u'', ''o/t'']" "''o''" "[]"] a r
  show ?thesis by simp
qed

text \<open>C38: What an action whose level is \<open>approve\<close> meets at the gate depends on the mode. In enforcing mode it is queued and nothing
  else happens: the decision carries the id of a new pending row holding the request, no other row of the queue and no other
  table changes. In the advisory mode, which is the default, and when the gate is off it is allowed and nothing is queued. In
  every store, executing a queued action that is not approved is an error without effect.\<close>

theorem approval_gate_holds:
  assumes "resolve_governance_policy fv db ns = Some policy"
    and "(case act of Store \<Rightarrow> gp_write policy | Delete \<Rightarrow> gp_delete policy | Promote \<Rightarrow> gp_promote policy) = LApprove"
    and "get_pending_action db new_id = None"
    and "enforce_governance mode fv new_id now db act ns who mid own payload = (r, db')"
  shows "(mode = Enforce \<longrightarrow> r = Inr (Pending new_id) \<and> db'\<lparr>db_pending := db_pending db\<rparr> = db
      \<and> (\<exists>pa. get_pending_action db' new_id = Some pa \<and> pa_status pa = ''pending'' \<and> pa_payload pa = payload
           \<and> pa_namespace pa = ns \<and> pa_memory_id pa = mid
           \<and> pa_action_type pa = action_as_str act \<and> pa_requested_by pa = who \<and> pa_approvals pa = [])
      \<and> (\<forall>j. j \<noteq> new_id \<longrightarrow> get_pending_action db' j = get_pending_action db j))
    \<and> (mode \<noteq> Enforce \<longrightarrow> r = Inr Allow \<and> db' = db)
    \<and> (\<forall>db2 pa. get_pending_action db2 new_id = Some pa \<and> pa_status pa \<noteq> ''approved''
         \<longrightarrow> execute_pending_action mv i' now' db2 new_id = (Inl (NotApproved (pa_status pa)), db2))"
proof (intro conjI impI)
  have fresh: "sql_row (\<lambda>p. pa_id p = new_id) (db_pending db) = None"
    using assms(3) by (simp add: get_pending_action_def)
  assume e: "mode = Enforce"
  have r: "r = Inr (Pending new_id)"
    and d: "db' = snd (queue_pending_action new_id now db act ns mid who payload)"
    using assms fresh e by (auto simp: enforce_governance_def evaluate_level_def queue_pending_action_def Let_def)
  obtain p where p: "db' = db\<lparr>db_pending := db_pending db @ [p]\<rparr>" "pa_id p = new_id" "pa_status p = ''pending''"
      "pa_payload p = payload" "pa_action_type p = action_as_str act" "pa_requested_by p = who" "pa_approvals p = []"
      "pa_namespace p = ns" "pa_memory_id p = mid"
    using fresh unfolding d queue_pending_action_def by fastforce
  show "r = Inr (Pending new_id)" by (rule r)
  show "db'\<lparr>db_pending := db_pending db\<rparr> = db" unfolding p(1) by simp
  have "get_pending_action db' new_id = Some (row_to_pending p)"
    using fresh p(1,2) by (simp add: get_pending_action_def sql_row_snoc)
  with p show "\<exists>pa. get_pending_action db' new_id = Some pa \<and> pa_status pa = ''pending'' \<and> pa_payload pa = payload
           \<and> pa_namespace pa = ns \<and> pa_memory_id pa = mid
           \<and> pa_action_type pa = action_as_str act \<and> pa_requested_by pa = who \<and> pa_approvals pa = []"
    by (auto simp: row_to_pending_def)
  show "\<forall>j. j \<noteq> new_id \<longrightarrow> get_pending_action db' j = get_pending_action db j"
    using p(1,2) by (simp add: get_pending_action_def sql_row_snoc split: option.split)
next
  assume "mode \<noteq> Enforce"
  with assms show "r = Inr Allow" "db' = db" by (cases mode; simp add: enforce_governance_def Let_def)+
next
  show "\<forall>db2 pa. get_pending_action db2 new_id = Some pa \<and> pa_status pa \<noteq> ''approved''
         \<longrightarrow> execute_pending_action mv i' now' db2 new_id = (Inl (NotApproved (pa_status pa)), db2)"
    by (simp add: execute_pending_action_def)
qed

theorem approval_gate_holds_witness:
  "let (r, db') = enforce_governance Enforce ex_policy ''p1'' ''t'' (ex_gov ''approve'') Store ''o/t'' ''eve'' None None JNull in
   r = Inr (Pending ''p1'') \<and> db_memories db' = db_memories (ex_gov ''approve'')"
proof -
  let ?pol = "default_policy\<lparr>gp_write := LApprove, gp_approver := Consensus 2\<rparr>"
  have p: "resolve_governance_policy ex_policy (ex_gov ''approve'') ''o/t'' = Some ?pol"
    and f: "get_pending_action (ex_gov ''approve'') ''p1'' = None" by code_simp+
  have l: "(case Store of Store \<Rightarrow> gp_write ?pol | Delete \<Rightarrow> gp_delete ?pol | Promote \<Rightarrow> gp_promote ?pol) = LApprove"
    by simp
  obtain r db' where e: "enforce_governance Enforce ex_policy ''p1'' ''t'' (ex_gov ''approve'') Store ''o/t'' ''eve'' None None JNull = (r, db')"
    by (rule prod.exhaust)
  note gate = approval_gate_holds [OF p l f e, THEN conjunct1, rule_format, OF refl]
  then have "db'\<lparr>db_pending := db_pending (ex_gov ''approve'')\<rparr> = ex_gov ''approve''" by blast
  from arg_cong [OF this, of db_memories] have "db_memories db' = db_memories (ex_gov ''approve'')" by simp
  with gate show ?thesis unfolding e by simp
qed

text \<open>A write policy of level \<open>owner\<close> that a namespace inherits refuses every store into it, also by
  the owner of the standard that carries the policy, unless the namespace has a standard of its own:
  the policy is resolved along the chain, the owner it refers to is looked up at the leaf only.\<close>

theorem inherited_owner_policy_denies_all:
  assumes "resolve_governance_policy fv db ns = Some policy" and "gp_write policy = LOwner"
    and "get_namespace_standard db ns = None"
  shows "enforce_governance Enforce fv new_id now db Store ns who mid None payload
    = (Inr (Deny ''governance: owner-level action has no resolvable owner''), db)"
  using assms by (simp add: enforce_governance_def evaluate_level_def namespace_owner_def)

theorem inherited_owner_policy_denies_all_witness:
  "fst (enforce_governance Enforce ex_policy ''p1'' ''t'' (ex_gov ''owner'') Store ''o'' ''alice'' None None JNull) = Inr Allow
   \<and> fst (enforce_governance Enforce ex_policy ''p1'' ''t'' (ex_gov ''owner'') Store ''o/t'' ''alice'' None None JNull)
       = Inr (Deny ''governance: owner-level action has no resolvable owner'')"
proof -
  have a: "fst (enforce_governance Enforce ex_policy ''p1'' ''t'' (ex_gov ''owner'') Store ''o'' ''alice'' None None JNull) = Inr Allow"
    by code_simp
  have p: "resolve_governance_policy ex_policy (ex_gov ''owner'') ''o/t'' = Some (default_policy\<lparr>gp_write := LOwner\<rparr>)"
    and n: "get_namespace_standard (ex_gov ''owner'') ''o/t'' = None" by code_simp+
  have "gp_write (default_policy\<lparr>gp_write := LOwner\<rparr>) = LOwner" by simp
  from inherited_owner_policy_denies_all [OF p this n] a show ?thesis by simp
qed

text \<open>A rejection is not final across peers: applying a peer's older, still pending copy of an
  action that was rejected here puts it back to pending, with the rejection and its author erased.\<close>

theorem replayed_pending_reopens:
  assumes "get_pending_action db i = Some pa" and "pa_status pa = ''pending''"
    and "db' = snd (decide_pending_action now db i False who)"
  shows "map_option pa_status (get_pending_action db' i) = Some ''rejected''
    \<and> get_pending_action (upsert_pending_action db' pa) i = Some pa"
proof -
  obtain p where p: "sql_row (\<lambda>p. pa_id p = i) (db_pending db) = Some p" "pa = row_to_pending p"
    using assms(1) by (auto simp: get_pending_Some)
  then have pi: "pa_id p = i" by (auto dest: sql_row_SomeD)
  have d: "sql_row (\<lambda>p. pa_id p = i) (db_pending db') = Some (decide_row now False who p)"
    using p assms(2) pi unfolding assms(3) decide_pending_action_def Let_def
    by (simp add: decide_key.row_update_any)
  then have "map_option pa_status (get_pending_action db' i) = Some ''rejected''"
    by (simp add: get_pending_action_def decide_row_def)
  then show ?thesis using p(2) pi by (simp add: get_upsert_pending)
qed

theorem replayed_pending_reopens_witness:
  "\<exists>db pa. get_pending_action db ''p1'' = Some pa
     \<and> map_option pa_status (get_pending_action (snd (decide_pending_action ''t'' db ''p1'' False ''bob'')) ''p1'')
         = Some ''rejected''
     \<and> get_pending_action (upsert_pending_action (snd (decide_pending_action ''t'' db ''p1'' False ''bob'')) pa) ''p1'' = Some pa"
proof -
  let ?db = "snd (queue_pending_action ''p1'' ''t'' ex_db Store ''o'' None ''eve'' JNull)"
  have "map_option pa_status (get_pending_action ?db ''p1'') = Some ''pending''" by code_simp
  then obtain pa where pa: "get_pending_action ?db ''p1'' = Some pa" "pa_status pa = ''pending''" by auto
  from replayed_pending_reopens [OF pa refl] pa(1) show ?thesis by blast
qed

text \<open>One pass of the timeout sweeper with a positive default expires exactly the pending actions
  older than their own timeout (the default where they have none), reports each of them, leaves
  every other queued action and every memory as it was; with a default of zero or less it does nothing.\<close>

theorem sweep_exact:
  assumes "db_ok db"
  shows "(let (rows, db') = sweep_pending_action_timeouts age now db g in
      db_memories db' = db_memories db
      \<and> (g \<le> 0 \<longrightarrow> rows = [] \<and> db' = db)
      \<and> (0 < g \<longrightarrow>
          (\<forall>p \<in> set (db_pending db).
             get_pending_action db' (pa_id p) = Some (row_to_pending
               (if overdue age now g p then expire_row now p else p)))
          \<and> length (db_pending db') = length (db_pending db)
          \<and> set rows = (\<lambda>p. (pa_id p, pa_namespace p)) ` {p \<in> set (db_pending db). overdue age now g p}))"
proof -
  have u: "unique_key pa_id (db_pending db)" using assms by (rule db_ok_uniqueD)
  obtain rows db' where s: "sweep_pending_action_timeouts age now db g = (rows, db')" by (rule prod.exhaust)
  have "db_memories db' = db_memories db" using sweep_other_tables(1) [of age now db g] s by simp
  moreover have "rows = [] \<and> db' = db" if "g \<le> 0" using s that by (simp add: sweep_pending_action_timeouts_def)
  moreover have "(\<forall>p \<in> set (db_pending db).
             get_pending_action db' (pa_id p) = Some (row_to_pending
               (if overdue age now g p then expire_row now p else p)))
          \<and> length (db_pending db') = length (db_pending db)
          \<and> set rows = (\<lambda>p. (pa_id p, pa_namespace p)) ` {p \<in> set (db_pending db). overdue age now g p}"
    if g: "0 < g"
  proof -
    have d: "db_pending db' = sql_update (overdue age now g) (expire_row now) (db_pending db)"
      using sweep_eq [OF u g, of age now] s by simp
    have "rows = map (\<lambda>p. (pa_id p, pa_namespace p)) (filter (overdue age now g) (db_pending db))"
      using s g by (auto simp: sweep_pending_action_timeouts_def Let_def)
    then show ?thesis unfolding get_pending_action_def d expire_key.row_update_any
      using sql_row_unique [OF u] by auto
  qed
  ultimately show ?thesis unfolding s by simp
qed

theorem sweep_exact_witness:
  "let db = snd (queue_pending_action ''p1'' ''t'' ex_db Store ''o'' None ''eve'' JNull) in
   fst (sweep_pending_action_timeouts (\<lambda>_ _. 5) ''t2'' db 3) = [(''p1'', ''o'')]
   \<and> map_option pa_status (get_pending_action (snd (sweep_pending_action_timeouts (\<lambda>_ _. 5) ''t2'' db 3)) ''p1'')
       = Some ''expired''"
proof -
  define db where "db = snd (queue_pending_action ''p1'' ''t'' ex_db Store ''o'' None ''eve'' JNull)"
  have ok: "db_ok db" unfolding db_def by (rule queue_pending_action_ok [OF ex_db_ok])
  have f: "fst (sweep_pending_action_timeouts (\<lambda>_ _. 5) ''t2'' db 3) = [(''p1'', ''o'')]" unfolding db_def by code_simp
  have "\<exists>p. db_pending db = [p] \<and> pa_id p = ''p1'' \<and> overdue (\<lambda>_ _. 5) ''t2'' 3 p"
    by (simp add: db_def ex_db_def empty_db_def insert_mem_def sql_upsert_def queue_pending_action_def overdue_def
        sql_row_def row_of_def ex_note_def)
  then obtain p where p: "db_pending db = [p]" "pa_id p = ''p1''" "overdue (\<lambda>_ _. 5) ''t2'' 3 p" by blast
  have "get_pending_action (snd (sweep_pending_action_timeouts (\<lambda>_ _. 5) ''t2'' db 3)) ''p1''
      = Some (row_to_pending (expire_row ''t2'' p))"
    using sweep_exact [OF ok, of "\<lambda>_ _. 5" "''t2''" 3] p by (simp add: case_prod_beta)
  then have "map_option pa_status (get_pending_action (snd (sweep_pending_action_timeouts (\<lambda>_ _. 5) ''t2'' db 3)) ''p1'')
      = Some ''expired''" by (simp add: expire_row_def)
  with f show ?thesis unfolding db_def [symmetric] Let_def by blast
qed

end
