(* ===== verification/Replication.thy ===== *)
theory Replication
  imports Rust_Str
begin

text \<open>
  The quorum primitives (\<open>src/replication.rs\<close>): the W-of-N policy and the acknowledgement tracker.
  Instants and durations are natural numbers of nanoseconds; \<open>HashSet<String>\<close> is a set of strings.
\<close>

type_synonym instant = nat

record QuorumPolicy =
  qp_n :: nat
  qp_w :: nat
  qp_ack_timeout :: nat
  qp_clock_skew_warn :: nat

datatype QuorumFailureReason = Unreachable | Timeout | IdDriftReason | InFlight

datatype QuorumError =
    QuorumNotMet nat nat QuorumFailureReason
  | InvalidPolicy str
  | LocalWriteFailed str

definition SECS :: nat where "SECS = 1000000000"

definition policy_new :: "nat \<Rightarrow> nat \<Rightarrow> nat \<Rightarrow> nat \<Rightarrow> QuorumError + QuorumPolicy" where
  "policy_new n w ack_timeout clock_skew_warn =
     (if n = 0 then Inl (InvalidPolicy ''n must be >= 1'')
      else Inr \<lparr>qp_n = n, qp_w = max 1 (min w n), qp_ack_timeout = ack_timeout,
                qp_clock_skew_warn = clock_skew_warn\<rparr>)"

text \<open>\<open>usize::div_ceil\<close>.\<close>

definition div_ceil :: "nat \<Rightarrow> nat \<Rightarrow> nat" where
  "div_ceil a b = (if a mod b = 0 then a div b else a div b + 1)"

definition policy_majority :: "nat \<Rightarrow> QuorumError + QuorumPolicy" where
  "policy_majority n =
     (let w = max (div_ceil n 2) 1 in policy_new n w (2 * SECS) (30 * SECS))"

record AckTracker =
  at_policy :: QuorumPolicy
  at_deadline :: instant
  at_local_committed :: bool
  at_acks :: "str set"
  at_id_drifts :: "str list"

definition tracker_new :: "QuorumPolicy \<Rightarrow> instant \<Rightarrow> AckTracker" where
  "tracker_new policy now =
     \<lparr>at_policy = policy, at_deadline = now + qp_ack_timeout policy, at_local_committed = False,
      at_acks = {}, at_id_drifts = []\<rparr>"

definition record_local :: "AckTracker \<Rightarrow> AckTracker" where
  "record_local t = t\<lparr>at_local_committed := True\<rparr>"

definition record_peer_ack :: "AckTracker \<Rightarrow> str \<Rightarrow> AckTracker" where
  "record_peer_ack t peer_id = t\<lparr>at_acks := insert peer_id (at_acks t)\<rparr>"

definition record_id_drift :: "AckTracker \<Rightarrow> str \<Rightarrow> AckTracker" where
  "record_id_drift t peer_id = t\<lparr>at_id_drifts := at_id_drifts t @ [peer_id]\<rparr>"

definition is_quorum_met :: "AckTracker \<Rightarrow> instant \<Rightarrow> bool" where
  "is_quorum_met t now =
     (if \<not> at_local_committed t \<or> now > at_deadline t then False
      else card (at_acks t) + 1 \<ge> qp_w (at_policy t))"

definition finalise :: "AckTracker \<Rightarrow> instant \<Rightarrow> QuorumError + nat" where
  "finalise t now =
     (if \<not> at_local_committed t
      then Inl (LocalWriteFailed ''local commit not recorded before finalise'')
      else let got = card (at_acks t) + 1 in
        if got \<ge> qp_w (at_policy t) then Inr got
        else let reason =
               (if now > at_deadline t
                then (if at_acks t = {} then Unreachable else Timeout)
                else InFlight)
             in Inl (QuorumNotMet got (qp_w (at_policy t)) reason))"

definition id_drift_count :: "AckTracker \<Rightarrow> nat" where
  "id_drift_count t = length (at_id_drifts t)"

section \<open>Correctness\<close>

lemma policy_new_bounds:
  "policy_new n w t s = Inr p \<Longrightarrow> 1 \<le> qp_w p \<and> qp_w p \<le> qp_n p \<and> qp_n p = n"
  by (auto simp: policy_new_def split: if_splits)

lemma div_ceil_2: "div_ceil n 2 = (n + 1) div 2"
  unfolding div_ceil_def by presburger

text \<open>Events a tracker can receive, in arrival order.\<close>

datatype tracker_event = EvLocal | EvAck str | EvDrift str

fun apply_event :: "AckTracker \<Rightarrow> tracker_event \<Rightarrow> AckTracker" where
  "apply_event t EvLocal = record_local t"
| "apply_event t (EvAck p) = record_peer_ack t p"
| "apply_event t (EvDrift p) = record_id_drift t p"

definition tracker_run :: "AckTracker \<Rightarrow> tracker_event list \<Rightarrow> AckTracker" where
  "tracker_run t evs = fold (\<lambda>e t. apply_event t e) evs t"

definition acked_by :: "tracker_event list \<Rightarrow> str set" where
  "acked_by evs = {p. EvAck p \<in> set evs}"

lemma acked_by_finite [simp]: "finite (acked_by evs)"
proof -
  have "acked_by evs = (\<lambda>e. case e of EvAck p \<Rightarrow> p | _ \<Rightarrow> []) ` {e \<in> set evs. \<exists>p. e = EvAck p}"
    by (force simp: acked_by_def)
  then show ?thesis by simp
qed

lemma tracker_run_fields:
  "at_policy (tracker_run t evs) = at_policy t \<and> at_deadline (tracker_run t evs) = at_deadline t
   \<and> at_local_committed (tracker_run t evs) = (at_local_committed t \<or> EvLocal \<in> set evs)
   \<and> at_acks (tracker_run t evs) = at_acks t \<union> acked_by evs"
proof (induction evs arbitrary: t)
  case Nil
  then show ?case by (simp add: tracker_run_def acked_by_def)
next
  case (Cons e evs)
  have step: "tracker_run t (e # evs) = tracker_run (apply_event t e) evs"
    by (simp add: tracker_run_def)
  have "acked_by (EvAck p # evs) = insert p (acked_by evs)" for p by (auto simp: acked_by_def)
  moreover have "\<forall>p. e \<noteq> EvAck p \<Longrightarrow> acked_by (e # evs) = acked_by evs" by (auto simp: acked_by_def)
  ultimately show ?case
    unfolding step using Cons.IH [of "apply_event t e"]
    by (cases e) (auto simp: record_local_def record_peer_ack_def record_id_drift_def)
qed

lemma is_quorum_met_finalise: "is_quorum_met t now \<Longrightarrow> finalise t now = Inr (card (at_acks t) + 1)"
  by (auto simp: is_quorum_met_def finalise_def split: if_splits)

lemma finalise_is_quorum_met: "finalise t now = Inr k \<Longrightarrow> now \<le> at_deadline t \<Longrightarrow> is_quorum_met t now"
  by (auto simp: is_quorum_met_def finalise_def Let_def split: if_splits)

lemma finalise_Inr_iff:
  "finalise t now = Inr k \<longleftrightarrow>
     at_local_committed t \<and> k = card (at_acks t) + 1 \<and> qp_w (at_policy t) \<le> k"
  by (auto simp: finalise_def Let_def)

section \<open>Properties\<close>

text \<open>The majority policy of an N-node cluster gives quorums that always intersect exactly when N
  is odd; for even N the policy accepts half the nodes, so two disjoint write quorums exist.\<close>

theorem majority_intersects_iff_odd:
  assumes "policy_majority n = Inr p"
  shows "(\<forall>A B. A \<subseteq> {..<n} \<longrightarrow> B \<subseteq> {..<n} \<longrightarrow> qp_w p \<le> card A \<longrightarrow> qp_w p \<le> card B \<longrightarrow> A \<inter> B \<noteq> {})
    \<longleftrightarrow> odd n"
proof
  from assms have n: "0 < n" and w: "qp_w p = (n + 1) div 2"
    by (auto simp: policy_majority_def policy_new_def div_ceil_2 Let_def split: if_splits)
  {
    assume "odd n"
    show "\<forall>A B. A \<subseteq> {..<n} \<longrightarrow> B \<subseteq> {..<n} \<longrightarrow> qp_w p \<le> card A \<longrightarrow> qp_w p \<le> card B \<longrightarrow> A \<inter> B \<noteq> {}"
    proof (intro allI impI notI)
      fix A B assume AB: "A \<subseteq> {..<n}" "B \<subseteq> {..<n}" "qp_w p \<le> card A" "qp_w p \<le> card B" "A \<inter> B = {}"
      then have "finite A" "finite B" by (auto intro: finite_subset)
      with AB(5) have "card A + card B = card (A \<union> B)" by (simp add: card_Un_disjoint)
      also have "\<dots> \<le> n" using card_mono [of "{..<n}" "A \<union> B"] AB by simp
      finally show False using AB(3,4) \<open>odd n\<close> by (auto simp: w elim!: oddE)
    qed
  }
  assume *: "\<forall>A B. A \<subseteq> {..<n} \<longrightarrow> B \<subseteq> {..<n} \<longrightarrow> qp_w p \<le> card A \<longrightarrow> qp_w p \<le> card B \<longrightarrow> A \<inter> B \<noteq> {}"
  show "odd n"
  proof
    assume "even n"
    then obtain m where m: "n = 2 * m" by (elim evenE)
    have "{..<m} \<inter> {m..<n} \<noteq> {}"
      by (rule * [rule_format]) (auto simp: m w)
    then show False by auto
  qed
qed

theorem majority_intersects_iff_odd_witness:
  "\<exists>p. policy_majority 4 = Inr p \<and> qp_w p = 2
     \<and> \<not> (\<forall>A B. A \<subseteq> {..<4::nat} \<longrightarrow> B \<subseteq> {..<4} \<longrightarrow> qp_w p \<le> card A \<longrightarrow> qp_w p \<le> card B \<longrightarrow> A \<inter> B \<noteq> {})"
proof -
  obtain p where p: "policy_majority 4 = Inr p" "qp_w p = 2"
    by (auto simp: policy_majority_def policy_new_def div_ceil_def)
  have "\<not> (\<forall>A B. A \<subseteq> {..<4::nat} \<longrightarrow> B \<subseteq> {..<4} \<longrightarrow> qp_w p \<le> card A \<longrightarrow> qp_w p \<le> card B \<longrightarrow> A \<inter> B \<noteq> {})"
    unfolding majority_intersects_iff_odd [OF p(1)] by simp
  with p show ?thesis by (intro exI [of _ p] conjI)
qed

text \<open>The verdict of a quorum write depends only on which peers acknowledged and whether the
  local commit was recorded: not on arrival order, duplicated acknowledgements or id drifts.\<close>

theorem quorum_order_independent:
  assumes "set evs - range EvDrift = set evs' - range EvDrift"
  shows "finalise (tracker_run (tracker_new p t0) evs) now = finalise (tracker_run (tracker_new p t0) evs') now
    \<and> is_quorum_met (tracker_run (tracker_new p t0) evs) now
        = is_quorum_met (tracker_run (tracker_new p t0) evs') now"
proof -
  have mem: "e \<in> set evs \<longleftrightarrow> e \<in> set evs'" if "e \<notin> range EvDrift" for e
    using assms that by blast
  have acks: "acked_by evs = acked_by evs'" using mem by (auto simp: acked_by_def)
  have loc: "EvLocal \<in> set evs \<longleftrightarrow> EvLocal \<in> set evs'" by (rule mem) auto
  show ?thesis
    using acks loc tracker_run_fields [of "tracker_new p t0" evs] tracker_run_fields [of "tracker_new p t0" evs']
    by (simp add: finalise_def is_quorum_met_def)
qed

theorem quorum_order_independent_witness:
  "let p = \<lparr>qp_n = 3, qp_w = 2, qp_ack_timeout = 5, qp_clock_skew_warn = 30\<rparr> in
   finalise (tracker_run (tracker_new p 0) [EvLocal, EvAck ''b'', EvAck ''b'', EvDrift ''c'']) 1 = Inr 2
   \<and> finalise (tracker_run (tracker_new p 0) [EvAck ''b'', EvLocal]) 1 = Inr 2"
proof -
  let ?p = "\<lparr>qp_n = 3, qp_w = 2, qp_ack_timeout = 5, qp_clock_skew_warn = 30\<rparr>"
  have "finalise (tracker_run (tracker_new ?p 0) [EvAck ''b'', EvLocal]) 1 = Inr 2" by code_simp
  moreover have "set [EvLocal, EvAck ''b'', EvAck ''b'', EvDrift ''c''] - range EvDrift
      = set [EvAck ''b'', EvLocal] - range EvDrift" by auto
  ultimately show ?thesis
    using quorum_order_independent [of "[EvLocal, EvAck ''b'', EvAck ''b'', EvDrift ''c'']"
        "[EvAck ''b'', EvLocal]" ?p 0 1] by (simp only: Let_def)
qed

text \<open>A tracker is finalised successfully exactly when the local write was recorded and at least W
  nodes, this one included, hold the write; before the deadline this is the same test as
  \<open>is_quorum_met\<close>, and it stays true as further events arrive.\<close>

theorem finalise_exact:
  assumes "t = tracker_run (tracker_new p t0) evs"
  shows "((\<exists>k. finalise t now = Inr k) \<longleftrightarrow> EvLocal \<in> set evs \<and> qp_w p \<le> card (acked_by evs) + 1)
    \<and> (now \<le> t0 + qp_ack_timeout p \<longrightarrow> (is_quorum_met t now \<longleftrightarrow> (\<exists>k. finalise t now = Inr k)))
    \<and> ((\<exists>k. finalise t now = Inr k) \<longrightarrow> (\<exists>k. finalise (tracker_run t evs') now = Inr k))"
proof -
  note f = tracker_run_fields [of "tracker_new p t0" evs, folded assms]
  have e: "(\<exists>k. finalise t now = Inr k) \<longleftrightarrow> EvLocal \<in> set evs \<and> qp_w p \<le> card (acked_by evs) + 1"
    using f by (simp add: finalise_Inr_iff tracker_new_def)
  have d: "at_deadline t = t0 + qp_ack_timeout p" using f by (simp add: tracker_new_def)
  have "card (acked_by evs) \<le> card (acked_by evs \<union> acked_by evs')" by (simp add: card_mono)
  then have m: "(\<exists>k. finalise t now = Inr k) \<longrightarrow> (\<exists>k. finalise (tracker_run t evs') now = Inr k)"
    using f tracker_run_fields [of t evs'] by (auto simp: finalise_Inr_iff tracker_new_def)
  have q: "now \<le> t0 + qp_ack_timeout p \<longrightarrow> (is_quorum_met t now \<longleftrightarrow> (\<exists>k. finalise t now = Inr k))"
    using is_quorum_met_finalise [of t now] finalise_is_quorum_met [of t now] d by auto
  from e q m show ?thesis by blast
qed

theorem finalise_exact_witness:
  "let p = \<lparr>qp_n = 3, qp_w = 2, qp_ack_timeout = 5, qp_clock_skew_warn = 30\<rparr>;
       t = tracker_run (tracker_new p 0) [EvLocal, EvAck ''b''] in
   is_quorum_met t 3 \<and> (\<exists>k. finalise (tracker_run t [EvAck ''c'']) 3 = Inr k)"
proof -
  let ?p = "\<lparr>qp_n = 3, qp_w = 2, qp_ack_timeout = 5, qp_clock_skew_warn = 30\<rparr>"
  have "acked_by [EvLocal, EvAck ''b''] = {''b''}" by (auto simp: acked_by_def)
  then show ?thesis
    using finalise_exact [of _ ?p 0 "[EvLocal, EvAck ''b'']" 3 "[EvAck ''c'']", OF refl]
    by (simp add: Let_def)
qed

end
