(* ===== verification/Federation.thy ===== *)
theory Federation
  imports Replication Models
begin

text \<open>
  The quorum fan-out of the HTTP daemon (\<open>src/federation.rs\<close>). The HTTP client is third-party code
  and appears as \<open>send\<close>, the answer a peer gives to the n-th attempt of a POST. The JoinSet's
  scheduling is the list of polls of the collection loop: when the loop looked at the clock, what
  \<open>join_next\<close> returned, and when the quorum was tested.
\<close>

record PeerEndpoint =
  pe_id :: str
  pe_sync_push_url :: str

record FederationConfig =
  fc_policy :: QuorumPolicy
  fc_peers :: "PeerEndpoint list"
  fc_sender_agent_id :: str

record PendingDecision =
  pd_id :: str
  pd_approved :: bool
  pd_decider :: str

text \<open>The body of \<open>POST /api/v1/sync/push\<close>; absent arrays are empty.\<close>

record push_body =
  pb_sender_agent_id :: str
  pb_memories :: "Memory list"
  pb_deletions :: "str list"
  pb_archives :: "str list"
  pb_restores :: "str list"
  pb_links :: "MemoryLink list"
  pb_pendings :: "PendingAction list"
  pb_pending_decisions :: "PendingDecision list"
  pb_namespace_meta :: "NamespaceMetaEntry list"
  pb_namespace_meta_clears :: "str list"
  pb_dry_run :: bool

definition empty_push :: "FederationConfig \<Rightarrow> push_body" where
  "empty_push config =
     \<lparr>pb_sender_agent_id = fc_sender_agent_id config, pb_memories = [], pb_deletions = [],
      pb_archives = [], pb_restores = [], pb_links = [], pb_pendings = [],
      pb_pending_decisions = [], pb_namespace_meta = [], pb_namespace_meta_clears = [],
      pb_dry_run = False\<rparr>"

subsection \<open>Configuration\<close>

definition normalize_peer :: "str \<Rightarrow> str" where
  "normalize_peer raw = to_ascii_lowercase (trim_end_char CHR ''/'' raw)"

text \<open>The duplicate scan: \<open>HashSet::insert\<close> fails on the first repeated normalized URL.\<close>

fun first_duplicate :: "str list \<Rightarrow> str list \<Rightarrow> str option" where
  "first_duplicate seen [] = None"
| "first_duplicate seen (raw # urls) =
     (if normalize_peer raw \<in> set seen then Some raw
      else first_duplicate (normalize_peer raw # seen) urls)"

datatype BuildError = DuplicatePeer str | BadPolicy QuorumError | ClientError str

definition peer_endpoints :: "str list \<Rightarrow> PeerEndpoint list" where
  "peer_endpoints urls =
     map (\<lambda>(i, raw). \<lparr>pe_id = ''peer-'' @ show_nat i,
                      pe_sync_push_url = trim_end_char CHR ''/'' raw @ ''/api/v1/sync/push''\<rparr>)
       (enumerate 0 urls)"

text \<open>
  \<open>FederationConfig::build\<close>; reading certificates and building the TLS client is the parameter
  \<open>client\<close>, the outcome of that step.
\<close>

definition federation_build ::
    "nat \<Rightarrow> str list \<Rightarrow> nat \<Rightarrow> str check \<Rightarrow> str \<Rightarrow> BuildError + FederationConfig option" where
  "federation_build quorum_writes peer_urls timeout client sender_agent_id =
     (if quorum_writes = 0 \<or> peer_urls = [] then Inr None
      else case first_duplicate [] peer_urls of
          Some raw \<Rightarrow> Inl (DuplicatePeer raw)
        | None \<Rightarrow>
            (case policy_new (1 + length peer_urls) quorum_writes timeout (30 * SECS) of
               Inl e \<Rightarrow> Inl (BadPolicy e)
             | Inr policy \<Rightarrow>
                 (case client of
                    Inl e \<Rightarrow> Inl (ClientError e)
                  | Inr _ \<Rightarrow>
                      Inr (Some \<lparr>fc_policy = policy, fc_peers = peer_endpoints peer_urls,
                                 fc_sender_agent_id = sender_agent_id\<rparr>))))"

subsection \<open>One peer\<close>

datatype AckOutcome = Ack | IdDrift | Fail str

text \<open>An HTTP answer: the status code, its display text and the body if it parses as JSON.\<close>

datatype http_result = Resp nat str "json option" | NetworkError str

type_synonym http = "nat \<Rightarrow> str \<Rightarrow> push_body \<Rightarrow> str option \<Rightarrow> http_result"

definition is_success :: "nat \<Rightarrow> bool" where
  "is_success status = (200 \<le> status \<and> status < 300)"

definition ids_disagree :: "str \<Rightarrow> json \<Rightarrow> bool" where
  "ids_disagree expected_id v =
     (case json_get v ''ids'' of
        Some (JArr ids) \<Rightarrow> ids \<noteq> [] \<and> \<not> list_ex (\<lambda>x. json_str x = Some expected_id) ids
      | _ \<Rightarrow> False)"

definition post_once :: "http \<Rightarrow> nat \<Rightarrow> str \<Rightarrow> push_body \<Rightarrow> str \<Rightarrow> str option \<Rightarrow> AckOutcome" where
  "post_once send attempt url body expected_id idempotency_key =
     (case send attempt url body idempotency_key of
        Resp status text v \<Rightarrow>
          if is_success status
          then (case v of
                  Some v \<Rightarrow> if ids_disagree expected_id v then IdDrift else Ack
                | None \<Rightarrow> Ack)
          else Fail (''http '' @ text)
      | NetworkError e \<Rightarrow> Fail (''network: '' @ e))"

definition post_and_classify :: "http \<Rightarrow> str \<Rightarrow> push_body \<Rightarrow> str \<Rightarrow> str option \<Rightarrow> AckOutcome" where
  "post_and_classify send url body expected_id idempotency_key =
     (case post_once send 0 url body expected_id idempotency_key of
        Ack \<Rightarrow> Ack
      | IdDrift \<Rightarrow> IdDrift
      | Fail first_reason \<Rightarrow>
          (case post_once send 1 url body expected_id idempotency_key of
             Ack \<Rightarrow> Ack
           | IdDrift \<Rightarrow> IdDrift
           | Fail retry_reason \<Rightarrow> Fail (''first: '' @ first_reason @ ''; retry: '' @ retry_reason)))"

subsection \<open>The collection loop\<close>

datatype join_poll = Joined str | JoinError | Drained | TimedOut

record loop_poll =
  lp_start :: instant
  lp_join :: join_poll
  lp_test :: instant

text \<open>
  The loop that every \<open>broadcast_*_quorum\<close> runs. A schedule that ends is a JoinSet that drained.
\<close>

fun collect_acks :: "(str \<Rightarrow> AckOutcome) \<Rightarrow> instant \<Rightarrow> loop_poll list \<Rightarrow> AckTracker \<Rightarrow> AckTracker" where
  "collect_acks outcome deadline [] tracker = tracker"
| "collect_acks outcome deadline (p # ps) tracker =
     (if deadline \<le> lp_start p then tracker
      else
        let continue = (\<lambda>tr. if is_quorum_met tr (lp_test p) then tr
                             else collect_acks outcome deadline ps tr) in
        case lp_join p of
          Joined peer_id \<Rightarrow>
            (case outcome peer_id of
               Ack \<Rightarrow> continue (record_peer_ack tracker peer_id)
             | IdDrift \<Rightarrow> continue (record_id_drift tracker peer_id)
             | Fail reason \<Rightarrow> continue tracker)
        | JoinError \<Rightarrow> continue tracker
        | Drained \<Rightarrow> tracker
        | TimedOut \<Rightarrow> tracker)"

definition peer_outcome :: "FederationConfig \<Rightarrow> http \<Rightarrow> push_body \<Rightarrow> str \<Rightarrow> str \<Rightarrow> AckOutcome" where
  "peer_outcome config send body target peer_id =
     (case find (\<lambda>p. pe_id p = peer_id) (fc_peers config) of
        Some p \<Rightarrow> post_and_classify send (pe_sync_push_url p) body target (Some target)
      | None \<Rightarrow> Fail ''no such peer'')"

definition broadcast_quorum ::
    "FederationConfig \<Rightarrow> http \<Rightarrow> instant \<Rightarrow> loop_poll list \<Rightarrow> push_body \<Rightarrow> str \<Rightarrow> AckTracker" where
  "broadcast_quorum config send now sched body target =
     (let tracker = record_local (tracker_new (fc_policy config) now);
          deadline = now + qp_ack_timeout (fc_policy config)
      in collect_acks (peer_outcome config send body target) deadline sched tracker)"

text \<open>The ten public fan-outs differ in the arrays of the body they fill and the expected id.\<close>

definition broadcast_store_quorum ::
    "FederationConfig \<Rightarrow> http \<Rightarrow> instant \<Rightarrow> loop_poll list \<Rightarrow> Memory \<Rightarrow> AckTracker" where
  "broadcast_store_quorum config send now sched mem =
     broadcast_quorum config send now sched ((empty_push config)\<lparr>pb_memories := [mem]\<rparr>) (m_id mem)"

definition broadcast_delete_quorum ::
    "FederationConfig \<Rightarrow> http \<Rightarrow> instant \<Rightarrow> loop_poll list \<Rightarrow> str \<Rightarrow> AckTracker" where
  "broadcast_delete_quorum config send now sched i =
     broadcast_quorum config send now sched ((empty_push config)\<lparr>pb_deletions := [i]\<rparr>) i"

definition broadcast_archive_quorum ::
    "FederationConfig \<Rightarrow> http \<Rightarrow> instant \<Rightarrow> loop_poll list \<Rightarrow> str \<Rightarrow> AckTracker" where
  "broadcast_archive_quorum config send now sched i =
     broadcast_quorum config send now sched ((empty_push config)\<lparr>pb_archives := [i]\<rparr>) i"

definition broadcast_restore_quorum ::
    "FederationConfig \<Rightarrow> http \<Rightarrow> instant \<Rightarrow> loop_poll list \<Rightarrow> str \<Rightarrow> AckTracker" where
  "broadcast_restore_quorum config send now sched i =
     broadcast_quorum config send now sched ((empty_push config)\<lparr>pb_restores := [i]\<rparr>) i"

text \<open>The separator of the link's log id is U+2192, three bytes in UTF-8.\<close>

definition broadcast_link_quorum ::
    "FederationConfig \<Rightarrow> http \<Rightarrow> instant \<Rightarrow> loop_poll list \<Rightarrow> MemoryLink \<Rightarrow> AckTracker" where
  "broadcast_link_quorum config send now sched link =
     broadcast_quorum config send now sched ((empty_push config)\<lparr>pb_links := [link]\<rparr>)
       (l_source_id link @ [CHR 0xE2, CHR 0x86, CHR 0x92] @ l_target_id link)"

definition broadcast_consolidate_quorum ::
    "FederationConfig \<Rightarrow> http \<Rightarrow> instant \<Rightarrow> loop_poll list \<Rightarrow> Memory \<Rightarrow> str list \<Rightarrow> AckTracker" where
  "broadcast_consolidate_quorum config send now sched new_mem source_ids =
     broadcast_quorum config send now sched
       ((empty_push config)\<lparr>pb_memories := [new_mem], pb_deletions := source_ids\<rparr>) (m_id new_mem)"

definition broadcast_pending_quorum ::
    "FederationConfig \<Rightarrow> http \<Rightarrow> instant \<Rightarrow> loop_poll list \<Rightarrow> PendingAction \<Rightarrow> AckTracker" where
  "broadcast_pending_quorum config send now sched pending =
     broadcast_quorum config send now sched ((empty_push config)\<lparr>pb_pendings := [pending]\<rparr>)
       (pa_id pending)"

definition broadcast_pending_decision_quorum ::
    "FederationConfig \<Rightarrow> http \<Rightarrow> instant \<Rightarrow> loop_poll list \<Rightarrow> PendingDecision \<Rightarrow> AckTracker" where
  "broadcast_pending_decision_quorum config send now sched decision =
     broadcast_quorum config send now sched
       ((empty_push config)\<lparr>pb_pending_decisions := [decision]\<rparr>) (pd_id decision)"

definition broadcast_namespace_meta_quorum ::
    "FederationConfig \<Rightarrow> http \<Rightarrow> instant \<Rightarrow> loop_poll list \<Rightarrow> NamespaceMetaEntry \<Rightarrow> AckTracker" where
  "broadcast_namespace_meta_quorum config send now sched entry =
     broadcast_quorum config send now sched ((empty_push config)\<lparr>pb_namespace_meta := [entry]\<rparr>)
       (nm_namespace entry)"

definition broadcast_namespace_meta_clear_quorum ::
    "FederationConfig \<Rightarrow> http \<Rightarrow> instant \<Rightarrow> loop_poll list \<Rightarrow> str list \<Rightarrow> AckTracker" where
  "broadcast_namespace_meta_clear_quorum config send now sched namespaces =
     broadcast_quorum config send now sched
       ((empty_push config)\<lparr>pb_namespace_meta_clears := namespaces\<rparr>) (join CHR '','' namespaces)"

definition finalise_quorum :: "AckTracker \<Rightarrow> instant \<Rightarrow> QuorumError + nat" where
  "finalise_quorum tracker now = finalise tracker now"

text \<open>
  \<open>bulk_catchup_push\<close>: one batched POST per peer; \<open>results\<close> are the joined tasks in completion
  order, \<open>None\<close> for a task that failed to join.
\<close>

definition bulk_catchup_push ::
    "FederationConfig \<Rightarrow> Memory list \<Rightarrow> (str \<times> http_result) option list \<Rightarrow> (str \<times> str) list" where
  "bulk_catchup_push config memories results =
     (if memories = [] \<or> fc_peers config = [] then []
      else List.map_filter (\<lambda>res. case res of
             Some (peer_id, Resp status text v) \<Rightarrow>
               if is_success status then None else Some (peer_id, ''http '' @ text)
           | Some (peer_id, NetworkError e) \<Rightarrow> Some (peer_id, ''network: '' @ e)
           | None \<Rightarrow> Some (''unknown'', ''join error'')) results)"

subsection \<open>The 503 payload\<close>

record QuorumNotMetPayload =
  qn_error :: str
  qn_got :: nat
  qn_needed :: nat
  qn_reason :: str

fun failure_reason_str :: "QuorumFailureReason \<Rightarrow> str" where
  "failure_reason_str Unreachable = ''unreachable''"
| "failure_reason_str Timeout = ''timeout''"
| "failure_reason_str InFlight = ''timeout''"
| "failure_reason_str IdDriftReason = ''id_drift''"

fun payload_from_err :: "QuorumError \<Rightarrow> QuorumNotMetPayload" where
  "payload_from_err (QuorumNotMet got needed reason) =
     \<lparr>qn_error = ''quorum_not_met'', qn_got = got, qn_needed = needed,
      qn_reason = failure_reason_str reason\<rparr>"
| "payload_from_err (InvalidPolicy detail) =
     \<lparr>qn_error = ''quorum_not_met'', qn_got = 0, qn_needed = 0,
      qn_reason = ''invalid_policy:'' @ detail\<rparr>"
| "payload_from_err (LocalWriteFailed detail) =
     \<lparr>qn_error = ''quorum_not_met'', qn_got = 0, qn_needed = 0,
      qn_reason = ''local_write_failed:'' @ detail\<rparr>"

subsection \<open>Percent-encoding of the catch-up cursor\<close>

definition unreserved :: "char \<Rightarrow> bool" where
  "unreserved c = (is_ascii_alphanumeric (byte_of c) \<or> c \<in> set ''-_.~'')"

definition hex_char :: "nat \<Rightarrow> char" where
  "hex_char d = (if d < 10 then char_of (48 + d) else char_of (55 + d))"

fun urlencoding_encode :: "str \<Rightarrow> str" where
  "urlencoding_encode [] = []"
| "urlencoding_encode (b # s) =
     (if unreserved b then [b]
      else [CHR ''%'', hex_char (byte_of b div 16), hex_char (byte_of b mod 16)])
     @ urlencoding_encode s"

section \<open>Correctness\<close>

subsection \<open>Configuration\<close>

lemma first_duplicate_None:
  "first_duplicate seen urls = None \<longleftrightarrow>
     distinct (map normalize_peer urls) \<and> set (map normalize_peer urls) \<inter> set seen = {}"
  by (induction seen urls rule: first_duplicate.induct) auto

lemma peer_endpoints_distinct: "distinct (map pe_id (peer_endpoints urls))"
proof -
  have "map pe_id (peer_endpoints urls) = map (\<lambda>i. ''peer-'' @ show_nat i) [0..<length urls]"
    by (rule nth_equalityI) (simp_all add: peer_endpoints_def nth_enumerate_eq)
  then show ?thesis by (auto simp: distinct_map inj_on_def)
qed

lemma length_peer_endpoints [simp]: "length (peer_endpoints urls) = length urls"
  by (simp add: peer_endpoints_def)

subsection \<open>The loop\<close>

text \<open>What one task result does to the tracker, and the loop as an iteration of it.\<close>

definition poll_result :: "(str \<Rightarrow> AckOutcome) \<Rightarrow> AckTracker \<Rightarrow> join_poll \<Rightarrow> AckTracker" where
  "poll_result out tr j =
     (case j of
        Joined i \<Rightarrow> (case out i of Ack \<Rightarrow> record_peer_ack tr i | IdDrift \<Rightarrow> record_id_drift tr i | Fail _ \<Rightarrow> tr)
      | _ \<Rightarrow> tr)"

definition stops :: "instant \<Rightarrow> loop_poll \<Rightarrow> bool" where
  "stops deadline p = (deadline \<le> lp_start p \<or> lp_join p = Drained \<or> lp_join p = TimedOut)"

lemma collect_acks_Cons:
  "collect_acks out d (p # ps) tr =
     (if stops d p then tr
      else let tr' = poll_result out tr (lp_join p) in
           if is_quorum_met tr' (lp_test p) then tr' else collect_acks out d ps tr')"
  by (auto simp: stops_def poll_result_def Let_def split: join_poll.split AckOutcome.split)

declare collect_acks.simps(2) [simp del] collect_acks_Cons [simp]

definition ack_of :: "(str \<Rightarrow> AckOutcome) \<Rightarrow> join_poll \<Rightarrow> str set" where
  "ack_of out j = {i. j = Joined i \<and> out i = Ack}"

definition acks_in :: "(str \<Rightarrow> AckOutcome) \<Rightarrow> loop_poll list \<Rightarrow> str set" where
  "acks_in out ps = (\<Union>p \<in> set ps. ack_of out (lp_join p))"

lemma poll_result_fields [simp]:
  "at_policy (poll_result out tr j) = at_policy tr"
  "at_deadline (poll_result out tr j) = at_deadline tr"
  "at_local_committed (poll_result out tr j) = at_local_committed tr"
  "at_acks (poll_result out tr j) = at_acks tr \<union> ack_of out j"
  by (auto simp: poll_result_def ack_of_def record_peer_ack_def record_id_drift_def
      split: join_poll.splits AckOutcome.splits)

lemma ack_of_finite [simp]: "finite (ack_of out j)"
  by (cases j) (auto simp: ack_of_def)

lemma collect_acks_fields [simp]:
  "at_policy (collect_acks out d ps tr) = at_policy tr"
  "at_deadline (collect_acks out d ps tr) = at_deadline tr"
  "at_local_committed (collect_acks out d ps tr) = at_local_committed tr"
  by (induction ps arbitrary: tr) (auto simp: Let_def)

lemma collect_acks_sound: "at_acks (collect_acks out d ps tr) \<subseteq> at_acks tr \<union> acks_in out ps"
proof (induction ps arbitrary: tr)
  case (Cons p ps)
  have "at_acks (collect_acks out d ps (poll_result out tr (lp_join p)))
      \<subseteq> at_acks tr \<union> ack_of out (lp_join p) \<union> acks_in out ps"
    using Cons.IH [of "poll_result out tr (lp_join p)"] by simp
  then show ?case by (auto simp: Let_def acks_in_def)
qed simp

lemma collect_acks_mono: "at_acks tr \<subseteq> at_acks (collect_acks out d ps tr)"
proof (induction ps arbitrary: tr)
  case (Cons p ps)
  show ?case using Cons.IH [of "poll_result out tr (lp_join p)"] by (auto simp: Let_def)
qed simp

lemma collect_acks_finite: "finite (at_acks tr) \<Longrightarrow> finite (at_acks (collect_acks out d ps tr))"
  by (induction ps arbitrary: tr) (auto simp: Let_def)

text \<open>
  Over polls that all happen in time the loop either stops with the quorum met or has recorded
  every acknowledgement that arrived.
\<close>

lemma collect_acks_complete:
  "\<forall>p \<in> set ps. \<not> stops d p \<Longrightarrow>
   (\<exists>p \<in> set ps. is_quorum_met (collect_acks out d ps tr) (lp_test p))
   \<or> at_acks tr \<union> acks_in out ps \<subseteq> at_acks (collect_acks out d ps tr)"
proof (induction ps arbitrary: tr)
  case Nil
  then show ?case by (simp add: acks_in_def)
next
  case (Cons p ps)
  let ?tr = "poll_result out tr (lp_join p)"
  show ?case
  proof (cases "is_quorum_met ?tr (lp_test p)")
    case True
    with Cons.prems show ?thesis by (simp add: Let_def)
  next
    case False
    with Cons.prems have eq: "collect_acks out d (p # ps) tr = collect_acks out d ps ?tr"
      by (simp add: Let_def)
    have "(\<exists>p \<in> set ps. is_quorum_met (collect_acks out d ps ?tr) (lp_test p))
      \<or> at_acks ?tr \<union> acks_in out ps \<subseteq> at_acks (collect_acks out d ps ?tr)"
      by (rule Cons.IH) (use Cons.prems in simp)
    then show ?thesis unfolding eq by (auto simp: acks_in_def)
  qed
qed

lemma is_quorum_met_finalises: "is_quorum_met t n \<Longrightarrow> \<exists>k. finalise t n' = Inr k"
  by (auto simp: is_quorum_met_def finalise_def Let_def split: if_splits)

lemma broadcast_start [simp]:
  "at_policy (record_local (tracker_new p n)) = p"
  "at_acks (record_local (tracker_new p n)) = {}"
  "at_local_committed (record_local (tracker_new p n))"
  "at_deadline (record_local (tracker_new p n)) = n + qp_ack_timeout p"
  by (simp_all add: record_local_def tracker_new_def)

text \<open>A committed quorum is backed by distinct configured peers that answered with an ack.\<close>

lemma broadcast_quorum_sound:
  assumes "finalise (broadcast_quorum config send now sched body target) t = Inr k"
  shows "qp_w (fc_policy config) \<le> k
    \<and> (\<exists>P. card P = k - 1 \<and> finite P \<and> 1 \<le> k
         \<and> (\<forall>i \<in> P. peer_outcome config send body target i = Ack))"
proof -
  let ?out = "peer_outcome config send body target"
  let ?tr = "broadcast_quorum config send now sched body target"
  have k: "k = card (at_acks ?tr) + 1" and w: "qp_w (fc_policy config) \<le> k"
    using assms by (auto simp: finalise_Inr_iff broadcast_quorum_def Let_def)
  have "at_acks ?tr \<subseteq> acks_in ?out sched"
    using collect_acks_sound [of ?out _ sched "record_local (tracker_new (fc_policy config) now)"]
    by (simp add: broadcast_quorum_def Let_def)
  then have "\<forall>i \<in> at_acks ?tr. ?out i = Ack" by (auto simp: acks_in_def ack_of_def)
  moreover have "finite (at_acks ?tr)"
    by (simp add: broadcast_quorum_def Let_def collect_acks_finite)
  ultimately show ?thesis using k w by auto
qed

lemma peer_outcome_Ack_peer:
  "peer_outcome config send body target i = Ack \<Longrightarrow> i \<in> pe_id ` set (fc_peers config)"
  by (auto simp: peer_outcome_def dest!: find_Some_mem split: option.splits)

text \<open>Enough timely acknowledgements commit the write, whatever else arrives in between.\<close>

lemma broadcast_quorum_live:
  assumes "\<forall>p \<in> set sched. \<not> stops (now + qp_ack_timeout (fc_policy config)) p"
    and "qp_w (fc_policy config) \<le> card (acks_in (peer_outcome config send body target) sched) + 1"
  shows "\<exists>k. finalise (broadcast_quorum config send now sched body target) t = Inr k"
proof -
  let ?out = "peer_outcome config send body target"
  let ?tr = "broadcast_quorum config send now sched body target"
  let ?init = "record_local (tracker_new (fc_policy config) now)"
  have "(\<exists>p \<in> set sched. is_quorum_met ?tr (lp_test p)) \<or> acks_in ?out sched \<subseteq> at_acks ?tr"
    using collect_acks_complete [OF assms(1), of ?out ?init] by (simp add: broadcast_quorum_def Let_def)
  then show ?thesis
  proof
    assume "\<exists>p \<in> set sched. is_quorum_met ?tr (lp_test p)"
    then show ?thesis by (auto dest: is_quorum_met_finalises)
  next
    assume sub: "acks_in ?out sched \<subseteq> at_acks ?tr"
    have "finite (at_acks ?tr)" by (simp add: broadcast_quorum_def Let_def collect_acks_finite)
    with sub have "card (acks_in ?out sched) \<le> card (at_acks ?tr)" by (simp add: card_mono)
    with assms(2) show ?thesis
      by (intro exI [of _ "card (at_acks ?tr) + 1"])
        (auto simp: finalise_Inr_iff broadcast_quorum_def Let_def)
  qed
qed

subsection \<open>Percent-encoding\<close>

definition unhex :: "char \<Rightarrow> nat" where
  "unhex c = (if byte_of c < 58 then byte_of c - 48 else byte_of c - 55)"

text \<open>The decoder RFC 3986 prescribes.\<close>

fun url_decode :: "str \<Rightarrow> str" where
  "url_decode [] = []"
| "url_decode (c # s) =
     (if c = CHR ''%'' then (case s of h # l # r \<Rightarrow> char_of (unhex h * 16 + unhex l) # url_decode r | _ \<Rightarrow> c # s)
      else c # url_decode s)"

lemma unhex_hex_char [simp]: "d < 16 \<Longrightarrow> unhex (hex_char d) = d"
  by (auto simp: unhex_def hex_char_def byte_of_def)

lemma byte_of_less: "byte_of c < 256"
  by (simp add: byte_of_def)

lemma char_of_byte_of [simp]: "char_of (byte_of c) = c"
  by (simp add: byte_of_def)

lemma url_decode_encode: "url_decode (urlencoding_encode s) = s"
proof (induction s)
  case (Cons b s)
  show ?case
  proof (cases "unreserved b")
    case True
    then have "b \<noteq> CHR ''%''" by (auto simp: unreserved_def is_ascii_alphanumeric_def byte_of_def)
    with True Cons show ?thesis by simp
  next
    case False
    have "byte_of b div 16 < 16" using byte_of_less [of b] by simp
    then show ?thesis using False Cons by simp
  qed
qed simp

section \<open>Properties\<close>

lemma ack_answered:
  assumes "post_and_classify send url body i key = Ack"
  shows "\<exists>n < 2. \<exists>status txt v. send n url body key = Resp status txt v \<and> is_success status
    \<and> (\<forall>j. v = Some j \<longrightarrow> \<not> ids_disagree i j)"
proof -
  have "post_once send 0 url body i key = Ack \<or> post_once send 1 url body i key = Ack"
    using assms by (auto simp: post_and_classify_def split: AckOutcome.splits)
  then obtain n :: nat where n: "n < 2" "post_once send n url body i key = Ack"
    using that [of 0] that [of 1] by auto
  then have "\<exists>status txt v. send n url body key = Resp status txt v \<and> is_success status \<and> (\<forall>j. v = Some j \<longrightarrow> \<not> ids_disagree i j)"
    by (auto simp: post_once_def split: http_result.splits if_splits option.splits)
  with n(1) show ?thesis by blast
qed

text \<open>C13: A store broadcast that finalises successfully is backed by at least W - 1 distinct configured peers that each
  answered one of the two attempts to push this very memory with a success status and no disagreeing list of ids, so that
  together with the local commit W nodes count, whatever the scheduling of the answers. An acknowledgement is the answer
  of the request, not of the memory in it: a peer that skips the memory answers with success too.\<close>

theorem store_quorum_sound:
  assumes "finalise_quorum (broadcast_store_quorum config send now sched mem) t = Inr k"
  shows "\<exists>P. P \<subseteq> pe_id ` set (fc_peers config) \<and> card P + 1 = k \<and> qp_w (fc_policy config) \<le> k
    \<and> (\<forall>i \<in> P. \<exists>p \<in> set (fc_peers config). pe_id p = i
         \<and> (\<exists>n < 2. \<exists>status txt v. send n (pe_sync_push_url p) ((empty_push config)\<lparr>pb_memories := [mem]\<rparr>) (Some (m_id mem))
                = Resp status txt v \<and> is_success status \<and> (\<forall>j. v = Some j \<longrightarrow> \<not> ids_disagree (m_id mem) j)))"
proof -
  let ?body = "(empty_push config)\<lparr>pb_memories := [mem]\<rparr>"
  let ?out = "peer_outcome config send ?body (m_id mem)"
  obtain P where P: "card P = k - 1" "1 \<le> k" "\<forall>i \<in> P. ?out i = Ack" and w: "qp_w (fc_policy config) \<le> k"
    using broadcast_quorum_sound [of config send now sched _ "m_id mem" t k] assms
    by (auto simp: broadcast_store_quorum_def finalise_quorum_def)
  have "\<exists>p \<in> set (fc_peers config). pe_id p = i
      \<and> post_and_classify send (pe_sync_push_url p) ?body (m_id mem) (Some (m_id mem)) = Ack" if "i \<in> P" for i
    using P(3) that by (force simp: peer_outcome_def dest: find_Some_mem split: option.splits)
  then have peers: "\<forall>i \<in> P. \<exists>p \<in> set (fc_peers config). pe_id p = i
      \<and> (\<exists>n < 2. \<exists>status txt v. send n (pe_sync_push_url p) ?body (Some (m_id mem)) = Resp status txt v
            \<and> is_success status \<and> (\<forall>j. v = Some j \<longrightarrow> \<not> ids_disagree (m_id mem) j))"
    using ack_answered [of send _ ?body "m_id mem" "Some (m_id mem)"] by metis
  moreover from this have "P \<subseteq> pe_id ` set (fc_peers config)" by (metis image_iff subsetI)
  ultimately show ?thesis using P(1,2) w by (intro exI [of _ P]) auto
qed

definition ex_config :: FederationConfig where
  "ex_config = \<lparr>fc_policy = \<lparr>qp_n = 3, qp_w = 2, qp_ack_timeout = 100, qp_clock_skew_warn = 30\<rparr>,
     fc_peers = peer_endpoints [''http://a'', ''http://b''], fc_sender_agent_id = ''me''\<rparr>"

definition ex_mem :: Memory where
  "ex_mem = \<lparr>m_id = ''m1'', m_tier = Mid, m_namespace = ''g'', m_title = ''t'', m_content = ''c'',
     m_tags = [], m_priority = 5, m_confidence = Fin 1, m_source = ''api'', m_access_count = 0,
     m_created_at = ''2026'', m_updated_at = ''2026'', m_last_accessed_at = None,
     m_expires_at = None, m_metadata = JObj []\<rparr>"

definition ex_send :: "http" where
  "ex_send n url body key = (if url = ''http://b/api/v1/sync/push'' then Resp 200 ''OK'' None
     else if n = 0 then Resp 503 ''busy'' None else NetworkError ''refused'')"

definition ex_sched :: "loop_poll list" where
  "ex_sched = [\<lparr>lp_start = 1, lp_join = Joined ''peer-0'', lp_test = 2\<rparr>,
     \<lparr>lp_start = 3, lp_join = Joined ''peer-1'', lp_test = 4\<rparr>]"

theorem store_quorum_sound_witness:
  "finalise_quorum (broadcast_store_quorum ex_config ex_send 0 ex_sched ex_mem) 5 = Inr 2
   \<and> (\<exists>P. P \<subseteq> pe_id ` set (fc_peers ex_config) \<and> card P + 1 = 2)"
proof -
  have "finalise_quorum (broadcast_store_quorum ex_config ex_send 0 ex_sched ex_mem) 5 = Inr 2"
    by code_simp
  with store_quorum_sound [OF this] show ?thesis by auto
qed

text \<open>C14: If enough distinct peers acknowledge within the deadline, the broadcast finalises
  successfully, whatever failures, id drifts and join errors arrive in between.\<close>

theorem store_quorum_live:
  assumes "\<forall>p \<in> set sched. \<not> stops (now + qp_ack_timeout (fc_policy config)) p"
    and "P \<subseteq> {i. \<exists>p \<in> set sched. lp_join p = Joined i}"
    and "\<forall>i \<in> P. peer_outcome config send ((empty_push config)\<lparr>pb_memories := [mem]\<rparr>) (m_id mem) i = Ack"
    and "qp_w (fc_policy config) \<le> card P + 1"
  shows "\<exists>k. finalise_quorum (broadcast_store_quorum config send now sched mem) t = Inr k"
proof -
  let ?out = "peer_outcome config send ((empty_push config)\<lparr>pb_memories := [mem]\<rparr>) (m_id mem)"
  have "P \<subseteq> acks_in ?out sched" using assms(2,3) by (fastforce simp: acks_in_def ack_of_def)
  moreover have "finite (acks_in ?out sched)" by (simp add: acks_in_def)
  ultimately have "card P \<le> card (acks_in ?out sched)" by (simp add: card_mono)
  with assms(1,4) show ?thesis
    unfolding finalise_quorum_def broadcast_store_quorum_def
    by (intro broadcast_quorum_live) auto
qed

theorem store_quorum_live_witness:
  "\<exists>k. finalise_quorum (broadcast_store_quorum ex_config ex_send 0 ex_sched ex_mem) 5 = Inr k"
proof (rule store_quorum_live [where P = "{''peer-1''}"])
  show "\<forall>p \<in> set ex_sched. \<not> stops (0 + qp_ack_timeout (fc_policy ex_config)) p" by code_simp
  show "{''peer-1''} \<subseteq> {i. \<exists>p \<in> set ex_sched. lp_join p = Joined i}" by (simp add: ex_sched_def)
  have "peer_outcome ex_config ex_send ((empty_push ex_config)\<lparr>pb_memories := [ex_mem]\<rparr>) (m_id ex_mem)
      ''peer-1'' = Ack" by code_simp
  then show "\<forall>i \<in> {''peer-1''}. peer_outcome ex_config ex_send
      ((empty_push ex_config)\<lparr>pb_memories := [ex_mem]\<rparr>) (m_id ex_mem) i = Ack" by simp
  show "qp_w (fc_policy ex_config) \<le> card {''peer-1''} + 1" by (simp add: ex_config_def)
qed

text \<open>When every peer fails before the deadline the JoinSet drains early, and the caller that
  finalises at once reports the reason \<open>timeout\<close> although no peer timed out: the in-flight reason is
  reachable.\<close>

theorem early_drain_reports_timeout:
  assumes "1 < qp_w (fc_policy config)"
    and "\<forall>i. \<exists>r. peer_outcome config send body target i = Fail r"
    and "t \<le> now + qp_ack_timeout (fc_policy config)"
  shows "finalise_quorum (broadcast_quorum config send now sched body target) t
      = Inl (QuorumNotMet 1 (qp_w (fc_policy config)) InFlight)
    \<and> qn_reason (payload_from_err (QuorumNotMet 1 (qp_w (fc_policy config)) InFlight)) = ''timeout''"
proof -
  let ?out = "peer_outcome config send body target"
  let ?tr = "broadcast_quorum config send now sched body target"
  have no: "?out i \<noteq> Ack" for i using assms(2) by (metis AckOutcome.distinct(3))
  have "at_acks ?tr \<subseteq> acks_in ?out sched"
    using collect_acks_sound [of ?out _ sched "record_local (tracker_new (fc_policy config) now)"]
    by (simp add: broadcast_quorum_def Let_def)
  moreover have "acks_in ?out sched = {}" using no by (auto simp: acks_in_def ack_of_def)
  ultimately have "at_acks ?tr = {}" by simp
  then show ?thesis
    using assms(1,3) by (auto simp: finalise_quorum_def finalise_def broadcast_quorum_def Let_def)
qed

theorem early_drain_reports_timeout_witness:
  "finalise_quorum (broadcast_quorum ex_config (\<lambda>n u b k. NetworkError ''refused'') 0 ex_sched
      (empty_push ex_config) ''x'') 5 = Inl (QuorumNotMet 1 2 InFlight)"
proof -
  let ?send = "\<lambda>n u b k. NetworkError ''refused''"
  have f: "\<forall>i. \<exists>r. peer_outcome ex_config ?send (empty_push ex_config) ''x'' i = Fail r"
    by (auto simp: peer_outcome_def post_and_classify_def post_once_def split: option.split)
  show ?thesis
    using early_drain_reports_timeout [of ex_config ?send "empty_push ex_config" "''x''" 5 0 ex_sched, OF _ f]
    by (simp add: ex_config_def)
qed

text \<open>A configuration that builds has a policy over exactly the local node and its peers with a
  write quorum between one and the cluster size, pairwise different peer ids, and peer URLs that
  differ even up to case and trailing slashes; federation is off exactly when no quorum or no peer
  is configured.\<close>

theorem federation_build_ok:
  assumes "federation_build w urls timeout client sender = Inr r"
  shows "case r of
      None \<Rightarrow> w = 0 \<or> urls = []
    | Some c \<Rightarrow> 0 < w \<and> urls \<noteq> [] \<and> qp_n (fc_policy c) = 1 + length (fc_peers c)
        \<and> length (fc_peers c) = length urls
        \<and> qp_w (fc_policy c) = min w (1 + length urls) \<and> 1 \<le> qp_w (fc_policy c)
        \<and> distinct (map pe_id (fc_peers c)) \<and> distinct (map normalize_peer urls)"
  using assms peer_endpoints_distinct [of urls]
  by (auto simp: federation_build_def policy_new_def first_duplicate_None
      split: if_splits option.splits sum.splits)

theorem federation_build_ok_witness:
  "\<exists>c. federation_build 2 [''http://a/'', ''http://b''] 7 (Inr ()) ''me'' = Inr (Some c)
     \<and> qp_n (fc_policy c) = 3 \<and> distinct (map pe_id (fc_peers c))"
proof -
  have "first_duplicate [] [''http://a/'', ''http://b''] = None" by code_simp
  then obtain r where r: "federation_build 2 [''http://a/'', ''http://b''] 7 (Inr ()) ''me'' = Inr r"
    by (auto simp: federation_build_def policy_new_def)
  then show ?thesis using federation_build_ok [OF r] by (cases r) auto
qed

text \<open>Percent-encoding the catch-up cursor is lossless: decoding gives the timestamp back, so a
  timestamp with \<open>+\<close> or \<open>:\<close> survives the query string.\<close>

theorem urlencoding_roundtrip: "url_decode (urlencoding_encode s) = s"
  by (rule url_decode_encode)

end
