(* ===== verification/Embeddings.thy ===== *)
theory Embeddings
  imports Archive "HOL-Library.Word"
begin

text \<open>
  Stored embeddings (\<open>src/embeddings.rs\<close>, \<open>src/db.rs\<close>): the BLOB codec and the dimension each
  namespace is held to. An \<open>f32\<close> is its bit pattern, a \<^typ>\<open>32 word\<close>, a BLOB the list of its bytes.
\<close>

unbundle bit_operations_syntax

subsection \<open>The BLOB codec\<close>

definition EMBEDDING_HEADER_LE_F32 :: nat where "EMBEDDING_HEADER_LE_F32 = 1"
definition EMBEDDING_HEADER_BE_F32 :: nat where "EMBEDDING_HEADER_BE_F32 = 2"

datatype EmbeddingFormatError = UnknownHeader nat | BigEndianUnsupported | MalformedLength nat

text \<open>\<open>f32::to_le_bytes\<close> and \<open>f32::from_le_bytes\<close>.\<close>

definition to_le_bytes :: "32 word \<Rightarrow> nat list" where
  "to_le_bytes w = map (\<lambda>k. unat (take_bit 8 (drop_bit (8 * k) w))) [0, 1, 2, 3]"

definition from_le_bytes :: "nat \<Rightarrow> nat \<Rightarrow> nat \<Rightarrow> nat \<Rightarrow> 32 word" where
  "from_le_bytes b0 b1 b2 b3 =
     word_of_nat b0 OR push_bit 8 (word_of_nat b1) OR push_bit 16 (word_of_nat b2) OR push_bit 24 (word_of_nat b3)"

text \<open>\<open>chunks_exact(4)\<close> with the conversion of each chunk.\<close>

fun chunks_f32 :: "nat list \<Rightarrow> 32 word list" where
  "chunks_f32 (a # b # c # d # r) = from_le_bytes a b c d # chunks_f32 r"
| "chunks_f32 _ = []"

definition encode_embedding_blob :: "32 word list \<Rightarrow> nat list" where
  "encode_embedding_blob embedding = EMBEDDING_HEADER_LE_F32 # concat (map to_le_bytes embedding)"

definition decode_embedding_blob :: "nat list \<Rightarrow> EmbeddingFormatError + 32 word list" where
  "decode_embedding_blob bytes =
     (case bytes of
        [] \<Rightarrow> Inr []
      | header # payload \<Rightarrow>
          if length bytes mod 4 = 1 then
            (if header = EMBEDDING_HEADER_LE_F32 then Inr (chunks_f32 payload)
             else if header = EMBEDDING_HEADER_BE_F32 then Inl BigEndianUnsupported
             else Inl (UnknownHeader header))
          else if length bytes mod 4 = 0 then Inr (chunks_f32 bytes)
          else Inl (MalformedLength (length bytes)))"

definition decoded_dim :: "nat list \<Rightarrow> nat" where
  "decoded_dim bytes =
     (if bytes = [] then 0
      else if length bytes mod 4 = 1 then (length bytes - 1) div 4
      else length bytes div 4)"

subsection \<open>The embedding columns\<close>

datatype EmbedError = DimMismatch str nat nat

definition namespace_embedding_dim :: "Db \<Rightarrow> str \<Rightarrow> nat option" where
  "namespace_embedding_dim db namespace =
     (case sql_row (\<lambda>r. m_namespace r = namespace \<and> r_embedding_dim r \<noteq> None) (db_memories db) of
        None \<Rightarrow> None
      | Some r \<Rightarrow> (case r_embedding_dim r of
                    Some d \<Rightarrow> if d \<ge> 0 then Some (nat d) else None
                  | None \<Rightarrow> None))"

definition write_embedding :: "nat list \<Rightarrow> int option \<Rightarrow> MemRow \<Rightarrow> MemRow" where
  "write_embedding bytes d r = r\<lparr>r_embedding := Some bytes, r_embedding_dim := d\<rparr>"

definition set_embedding :: "Db \<Rightarrow> str \<Rightarrow> 32 word list \<Rightarrow> (EmbedError + unit) \<times> Db" where
  "set_embedding db i embedding =
     (let namespace = map_option m_namespace (sql_row (\<lambda>r. m_id r = i) (db_memories db));
          attempted = length embedding;
          bytes = encode_embedding_blob embedding in
      if attempted = 0 then
        (Inr (), db\<lparr>db_memories := sql_update (\<lambda>r. m_id r = i) (write_embedding bytes None) (db_memories db)\<rparr>)
      else
        (case (case namespace of None \<Rightarrow> None
               | Some ns \<Rightarrow> map_option (\<lambda>d. (ns, d)) (namespace_embedding_dim db ns)) of
           Some (ns, established) \<Rightarrow>
             if established \<noteq> attempted then (Inl (DimMismatch ns established attempted), db)
             else (Inr (), db\<lparr>db_memories := sql_update (\<lambda>r. m_id r = i)
                     (write_embedding bytes (Some (int attempted))) (db_memories db)\<rparr>)
         | None \<Rightarrow>
             (Inr (), db\<lparr>db_memories := sql_update (\<lambda>r. m_id r = i)
                     (write_embedding bytes (Some (int attempted))) (db_memories db)\<rparr>)))"

definition get_embedding :: "Db \<Rightarrow> str \<Rightarrow> EmbeddingFormatError + 32 word list option" where
  "get_embedding db i =
     (case sql_row (\<lambda>r. m_id r = i) (db_memories db) of
        None \<Rightarrow> Inr None
      | Some r \<Rightarrow>
          (case r_embedding r of
             None \<Rightarrow> Inr None
           | Some bytes \<Rightarrow>
               if bytes = [] then Inr None
               else (case decode_embedding_blob bytes of
                       Inl e \<Rightarrow> Inl e
                     | Inr floats \<Rightarrow> Inr (Some floats))))"

definition get_unembedded_ids :: "Db \<Rightarrow> (str \<times> str \<times> str) list" where
  "get_unembedded_ids db =
     map (\<lambda>r. (m_id r, m_title r, m_content r)) (filter (\<lambda>r. r_embedding r = None) (db_memories db))"

definition get_all_embeddings :: "Db \<Rightarrow> (str \<times> 32 word list) list" where
  "get_all_embeddings db =
     List.map_filter (\<lambda>r. case r_embedding r of
         None \<Rightarrow> None
       | Some bytes \<Rightarrow>
           if bytes = [] then None
           else (case decode_embedding_blob bytes of Inr floats \<Rightarrow> Some (m_id r, floats) | Inl _ \<Rightarrow> None))
       (db_memories db)"

definition dim_violation :: "MemRow \<Rightarrow> bool" where
  "dim_violation r =
     (case r_embedding r of
        None \<Rightarrow> False
      | Some bytes \<Rightarrow>
          length bytes \<ge> 4 \<and>
          (case r_embedding_dim r of
             None \<Rightarrow> True
           | Some d \<Rightarrow>
               (length bytes mod 4 = 0 \<and> d \<noteq> int (length bytes div 4))
               \<or> (length bytes mod 4 = 1 \<and> d \<noteq> int ((length bytes - 1) div 4))
               \<or> length bytes mod 4 \<notin> {0, 1}))"

definition dim_violations :: "Db \<Rightarrow> nat" where
  "dim_violations db = sql_count dim_violation (db_memories db)"

section \<open>Correctness\<close>

lemma from_to_le_bytes:
  "from_le_bytes (unat (take_bit 8 w)) (unat (take_bit 8 (drop_bit 8 w)))
     (unat (take_bit 8 (drop_bit 16 w))) (unat (take_bit 8 (drop_bit 24 w))) = w"
proof (rule bit_word_eqI)
  fix n assume "n < LENGTH(32)"
  then consider "n < 8" | "8 \<le> n" "n < 16" | "16 \<le> n" "n < 24" | "24 \<le> n" "n < 32" by fastforce
  then show "bit (from_le_bytes (unat (take_bit 8 w)) (unat (take_bit 8 (drop_bit 8 w)))
     (unat (take_bit 8 (drop_bit 16 w))) (unat (take_bit 8 (drop_bit 24 w)))) n = bit w n"
    unfolding from_le_bytes_def by cases (auto simp: bit_simps)
qed

lemma chunks_encode: "chunks_f32 (concat (map to_le_bytes v)) = v"
  by (induction v) (simp_all add: to_le_bytes_def from_to_le_bytes)

lemma length_encode: "length (concat (map to_le_bytes v)) = 4 * length v"
  by (induction v) (simp_all add: to_le_bytes_def)

text \<open>Within a namespace all recorded dimensions agree.\<close>

definition dims_ok :: "Db \<Rightarrow> bool" where
  "dims_ok db = (\<forall>r \<in> set (db_memories db). \<forall>s \<in> set (db_memories db).
     m_namespace r = m_namespace s \<longrightarrow> r_embedding_dim r \<noteq> None \<longrightarrow> r_embedding_dim s \<noteq> None \<longrightarrow>
       r_embedding_dim r = r_embedding_dim s)"

definition dims_nonneg :: "Db \<Rightarrow> bool" where
  "dims_nonneg db = (\<forall>r \<in> set (db_memories db). \<forall>d. r_embedding_dim r = Some d \<longrightarrow> 0 \<le> d)"

interpretation embed_id: key_preserving m_id "write_embedding b d" for b d
  by unfold_locales (simp add: write_embedding_def)

interpretation embed_title: key_preserving title_key "write_embedding b d" for b d
  by unfold_locales (simp add: write_embedding_def title_key_def)

lemma set_embedding_ok: "db_ok db \<Longrightarrow> db_ok (snd (set_embedding db i v))"
proof -
  assume ok: "db_ok db"
  have "db_ok (db\<lparr>db_memories := sql_update (\<lambda>r. m_id r = i) (write_embedding b d) (db_memories db)\<rparr>)" for b d
  proof (rule db_ok_memories [OF ok])
    show "memories_ok (sql_update (\<lambda>r. m_id r = i) (write_embedding b d) (db_memories db))"
      using ok by (simp add: db_ok_def memories_ok_def embed_id.unique_update embed_title.unique_update)
    show "m_id ` set (db_memories db) \<subseteq> m_id ` set (sql_update (\<lambda>r. m_id r = i) (write_embedding b d) (db_memories db))"
      by (metis embed_id.keys_update set_map subset_refl)
  qed
  then show ?thesis using ok by (auto simp: set_embedding_def Let_def split: option.split)
qed

lemma namespace_dim_None:
  "dims_nonneg db \<Longrightarrow> namespace_embedding_dim db ns = None \<Longrightarrow> r \<in> set (db_memories db) \<Longrightarrow> m_namespace r = ns \<Longrightarrow>
     r_embedding_dim r = None"
  by (auto simp: namespace_embedding_dim_def dims_nonneg_def sql_row_None split: option.splits if_splits
      dest!: sql_row_SomeD)

lemma namespace_dim_Some:
  assumes "dims_ok db" "namespace_embedding_dim db ns = Some n" "r \<in> set (db_memories db)" "m_namespace r = ns"
    "r_embedding_dim r = Some d"
  shows "d = int n"
proof -
  obtain s where s: "s \<in> set (db_memories db)" "m_namespace s = ns" "r_embedding_dim s = Some (int n)"
    using assms(2) by (auto simp: namespace_embedding_dim_def split: option.splits if_splits dest!: sql_row_SomeD)
  then have "r_embedding_dim r = r_embedding_dim s"
    using assms(1,3,4,5) unfolding dims_ok_def by blast
  with s(3) assms(5) show ?thesis by simp
qed

text \<open>The write that \<open>set_embedding\<close> performs when it does not refuse.\<close>

definition embed_dim :: "32 word list \<Rightarrow> int option" where
  "embed_dim v = (if v = [] then None else Some (int (length v)))"

lemma set_embedding_cases [consumes 1, case_names ok refused]:
  assumes "dims_nonneg db"
  obtains (ok) "set_embedding db i v = (Inr (), db\<lparr>db_memories :=
      sql_update (\<lambda>r. m_id r = i) (write_embedding (encode_embedding_blob v) (embed_dim v)) (db_memories db)\<rparr>)"
    "\<And>r s d. dims_ok db \<Longrightarrow> sql_row (\<lambda>r. m_id r = i) (db_memories db) = Some r \<Longrightarrow> s \<in> set (db_memories db) \<Longrightarrow>
       m_namespace s = m_namespace r \<Longrightarrow> r_embedding_dim s = Some d \<Longrightarrow> v \<noteq> [] \<Longrightarrow> d = int (length v)"
  | (refused) r n where "sql_row (\<lambda>r. m_id r = i) (db_memories db) = Some r"
      "namespace_embedding_dim db (m_namespace r) = Some n" "n \<noteq> length v" "v \<noteq> []"
      "set_embedding db i v = (Inl (DimMismatch (m_namespace r) n (length v)), db)"
proof (cases "v = []")
  case True
  then show ?thesis by (intro ok) (auto simp: set_embedding_def embed_dim_def)
next
  case v: False
  show ?thesis
  proof (cases "sql_row (\<lambda>r. m_id r = i) (db_memories db)")
    case None
    with v show ?thesis by (intro ok) (auto simp: set_embedding_def embed_dim_def)
  next
    case (Some r)
    show ?thesis
    proof (cases "namespace_embedding_dim db (m_namespace r)")
      case None
      with Some v namespace_dim_None [OF assms None] show ?thesis
        by (intro ok) (auto simp: set_embedding_def embed_dim_def)
    next
      case n: (Some n)
      show ?thesis
      proof (cases "n = length v")
        case True
        with Some n v namespace_dim_Some [OF _ n] show ?thesis
          by (intro ok) (auto simp: set_embedding_def embed_dim_def)
      next
        case False
        with Some n v show ?thesis by (intro refused [OF Some n False v]) (simp add: set_embedding_def)
      qed
    qed
  qed
qed

lemma dims_ok_write:
  assumes ok: "dims_ok db" and u: "unique_key m_id (db_memories db)"
    and row: "sql_row (\<lambda>r. m_id r = i) (db_memories db) = Some row"
    and fit: "\<And>s d. s \<in> set (db_memories db) \<Longrightarrow> m_namespace s = m_namespace row \<Longrightarrow>
      r_embedding_dim s = Some d \<Longrightarrow> v \<noteq> [] \<Longrightarrow> d = int (length v)"
  shows "dims_ok (db\<lparr>db_memories :=
     sql_update (\<lambda>r. m_id r = i) (write_embedding (encode_embedding_blob v) (embed_dim v)) (db_memories db)\<rparr>)"
proof -
  define f where "f r = (if m_id r = i then write_embedding (encode_embedding_blob v) (embed_dim v) r else r)" for r
  have ns: "m_namespace (f r) = m_namespace r" for r by (simp add: f_def write_embedding_def)
  have fd: "r_embedding_dim (f r) = (if m_id r = i then embed_dim v else r_embedding_dim r)" for r
    by (simp add: f_def write_embedding_def)
  have one: "x = row" if "x \<in> set (db_memories db)" "m_id x = i" for x
    using that row sql_row_unique [OF u that(1)] by simp
  have len: "d = int (length v)"
    if "x \<in> set (db_memories db)" "m_namespace x = m_namespace row" "r_embedding_dim (f x) = Some d" "v \<noteq> []" for x d
    using that fit [OF that(1,2) _ that(4)] by (auto simp: fd embed_dim_def split: if_splits)
  have agree: "r_embedding_dim (f x) = r_embedding_dim (f y)"
    if x: "x \<in> set (db_memories db)" and y: "y \<in> set (db_memories db)" and n: "m_namespace x = m_namespace y"
      and dx: "r_embedding_dim (f x) = Some d" and dy: "r_embedding_dim (f y) = Some e" for x y d e
  proof (cases "m_id x = i \<or> m_id y = i")
    case True
    then have "m_namespace x = m_namespace row" "m_namespace y = m_namespace row"
      using one [OF x] one [OF y] n by auto
    moreover have "v \<noteq> []" using True dx dy by (auto simp: fd embed_dim_def)
    ultimately show ?thesis using len [OF x _ dx] len [OF y _ dy] dx dy by simp
  next
    case False
    then have "r_embedding_dim x = Some d" "r_embedding_dim y = Some e" using dx dy by (simp_all add: fd)
    with False n x y ok show ?thesis unfolding dims_ok_def fd by (metis option.distinct(1))
  qed
  have m: "db_memories (db\<lparr>db_memories := sql_update (\<lambda>r. m_id r = i)
      (write_embedding (encode_embedding_blob v) (embed_dim v)) (db_memories db)\<rparr>) = map f (db_memories db)"
    by (simp add: sql_update_def f_def)
  show ?thesis unfolding dims_ok_def m set_map ball_simps(9) ns
  proof (intro ballI impI)
    fix x y assume "x \<in> set (db_memories db)" "y \<in> set (db_memories db)" "m_namespace x = m_namespace y"
      and "r_embedding_dim (f x) \<noteq> None" "r_embedding_dim (f y) \<noteq> None"
    moreover from this obtain d e where "r_embedding_dim (f x) = Some d" "r_embedding_dim (f y) = Some e" by blast
    ultimately show "r_embedding_dim (f x) = r_embedding_dim (f y)" by (intro agree)
  qed
qed

lemma dim_violation_write: "\<not> dim_violation (write_embedding (encode_embedding_blob v) (embed_dim v) r)"
proof -
  have "length (encode_embedding_blob v) = Suc (4 * length v)"
    by (simp add: encode_embedding_blob_def length_encode)
  then show ?thesis by (auto simp: dim_violation_def write_embedding_def embed_dim_def mod_Suc)
qed

section \<open>Properties\<close>

text \<open>Every embedding survives its BLOB: decoding the encoding of a vector gives the vector bit for bit,
  so does decoding the headerless form that older databases hold, and both report its dimension.\<close>

theorem embedding_blob_roundtrip:
  "decode_embedding_blob (encode_embedding_blob v) = Inr v \<and> decoded_dim (encode_embedding_blob v) = length v
   \<and> decode_embedding_blob (concat (map to_le_bytes v)) = Inr v \<and> decoded_dim (concat (map to_le_bytes v)) = length v"
proof -
  have "decode_embedding_blob (encode_embedding_blob v) = Inr v" "decoded_dim (encode_embedding_blob v) = length v"
    by (simp_all add: encode_embedding_blob_def decode_embedding_blob_def decoded_dim_def length_encode chunks_encode
        mod_Suc)
  moreover have "decoded_dim (concat (map to_le_bytes v)) = length v"
    unfolding decoded_dim_def length_encode by (cases v) (simp_all add: to_le_bytes_def)
  moreover have "decode_embedding_blob (concat (map to_le_bytes v)) = Inr v"
  proof (cases v)
    case (Cons w ws)
    then obtain b bs where c: "concat (map to_le_bytes v) = b # bs" by (simp add: to_le_bytes_def)
    have "length (b # bs) mod 4 = 0" using length_encode [of v] unfolding c by presburger
    moreover have "chunks_f32 (b # bs) = v" using chunks_encode [of v] unfolding c .
    ultimately show ?thesis unfolding c decode_embedding_blob_def by simp
  qed (simp add: decode_embedding_blob_def)
  ultimately show ?thesis by blast
qed

text \<open>Storing an embedding. Against a store whose namespaces each have one dimension, \<open>set_embedding\<close>
  refuses, without effect, exactly a non-empty vector whose length differs from the dimension the
  memory's namespace already has; otherwise the vector reads back bit for bit, no other memory's
  embedding and no other column changes, and the store still has one dimension per namespace and
  no row whose recorded dimension disagrees with its BLOB.\<close>

theorem set_embedding_contract:
  assumes "db_ok db" "dims_ok db" "dims_nonneg db" "dim_violations db = 0" and "get db i = Some m"
    and "set_embedding db i v = (r, db')"
  shows "(r \<noteq> Inr () \<longleftrightarrow> v \<noteq> [] \<and> (\<exists>n. namespace_embedding_dim db (m_namespace m) = Some n \<and> n \<noteq> length v))
    \<and> (r \<noteq> Inr () \<longrightarrow> db' = db)
    \<and> (r = Inr () \<longrightarrow> get_embedding db' i = Inr (Some v)
         \<and> (\<forall>j. j \<noteq> i \<longrightarrow> get_embedding db' j = get_embedding db j) \<and> (\<forall>j. get db' j = get db j)
         \<and> db_ok db' \<and> dims_ok db' \<and> dims_nonneg db' \<and> dim_violations db' = 0)"
proof -
  obtain row where row: "sql_row (\<lambda>r. m_id r = i) (db_memories db) = Some row" "m = row_to_memory row"
    using assms(5) by (auto simp: get_def)
  then have ns: "m_namespace m = m_namespace row" by (simp add: row_to_memory_def)
  show ?thesis
    using assms(3)
  proof (cases rule: set_embedding_cases [where i = i and v = v])
    case (refused r' n)
    with row ns assms(6) show ?thesis by auto
  next
    case ok
    let ?w = "write_embedding (encode_embedding_blob v) (embed_dim v)"
    have db': "r = Inr ()" "db_memories db' = sql_update (\<lambda>r. m_id r = i) ?w (db_memories db)"
      using ok(1) assms(6) by auto
    have acc: "\<not> (v \<noteq> [] \<and> (\<exists>n. namespace_embedding_dim db (m_namespace m) = Some n \<and> n \<noteq> length v))"
    proof (intro notI, elim conjE exE)
      fix n assume v: "v \<noteq> []" and n: "namespace_embedding_dim db (m_namespace m) = Some n" "n \<noteq> length v"
      then obtain s where s: "s \<in> set (db_memories db)" "m_namespace s = m_namespace row" "r_embedding_dim s = Some (int n)"
        by (auto simp: ns namespace_embedding_dim_def split: option.splits if_splits dest!: sql_row_SomeD)
      with ok(2) [OF assms(2) row(1) s v] n(2) show False by simp
    qed
    have look: "sql_row (\<lambda>r. m_id r = j) (db_memories db')
        = map_option (\<lambda>r. if m_id r = i then ?w r else r) (sql_row (\<lambda>r. m_id r = j) (db_memories db))" for j
      unfolding db'(2) by (rule embed_id.row_update_any)
    have ri: "m_id row = i" using sql_row_SomeD [OF row(1)] by simp
    have "get_embedding db' i = Inr (Some v)"
      using row(1) ri embedding_blob_roundtrip [of v]
      by (simp add: get_embedding_def look write_embedding_def) (simp add: encode_embedding_blob_def)
    moreover have "get_embedding db' j = get_embedding db j" if "j \<noteq> i" for j
      using that by (auto simp: get_embedding_def look split: option.splits dest!: sql_row_SomeD)
    moreover have "get db' j = get db j" for j
      by (auto simp: get_def look write_embedding_def row_to_memory_def option.map_comp comp_def intro!: option.map_cong0)
    moreover have "db_ok db'" using set_embedding_ok [OF assms(1), of i v] assms(6) by simp
    moreover have "dims_ok db'"
      using dims_ok_write [OF assms(2) _ row(1) ok(2) [OF assms(2) row(1)]] assms(1)
      by (simp add: dims_ok_def db'(2) db_ok_def memories_ok_def)
    moreover have "dims_nonneg db'"
      using assms(3) by (auto simp: dims_nonneg_def db'(2) sql_update_def write_embedding_def embed_dim_def)
    moreover have "dim_violations db' = 0"
      using assms(4) by (auto simp: dim_violations_def sql_count_0 db'(2) sql_update_def dim_violation_write)
    ultimately show ?thesis using acc db'(1) by simp
  qed
qed

definition ex_vec :: "nat \<Rightarrow> 32 word list" where
  "ex_vec n = replicate n 1065353216"

theorem set_embedding_contract_witness:
  "let db = snd (set_embedding ex_db ''m1'' (ex_vec 2)) in
   get_embedding db ''m1'' = Inr (Some (ex_vec 2)) \<and> fst (set_embedding db ''m2'' (ex_vec 3)) \<noteq> Inr ()"
proof -
  define db where "db = snd (set_embedding ex_db ''m1'' (ex_vec 2))"
  have e: "dims_ok ex_db" "dims_nonneg ex_db" "dim_violations ex_db = 0"
    by (simp_all add: ex_db_def empty_db_def insert_mem_def sql_upsert_def sql_row_def row_of_def ex_note_def
        dims_ok_def dims_nonneg_def dim_violations_def sql_count_def dim_violation_def)
  have g: "get ex_db ''m1'' = Some (ex_note ''m1'' ''a'' Mid ''alice'')"
    "get ex_db ''m2'' = Some (ex_note ''m2'' ''b'' Long ''bob'')" by code_simp+
  have f: "fst (set_embedding ex_db ''m1'' (ex_vec 2)) = Inr ()" by code_simp
  then have s: "set_embedding ex_db ''m1'' (ex_vec 2) = (Inr (), db)" by (metis db_def prod.collapse)
  note c = set_embedding_contract [OF ex_db_ok e g(1) s]
  then have d: "db_ok db" "dims_ok db" "dims_nonneg db" "dim_violations db = 0" "get db ''m2'' = get ex_db ''m2''"
    "get_embedding db ''m1'' = Inr (Some (ex_vec 2))" by auto
  have n: "namespace_embedding_dim db ''g'' = Some 2" unfolding db_def by code_simp
  obtain r db' where s2: "set_embedding db ''m2'' (ex_vec 3) = (r, db')" by (rule prod.exhaust)
  have "r \<noteq> Inr ()"
    using set_embedding_contract [OF d(1-4) _ s2] d(5) g(2) n by (simp add: ex_note_def ex_vec_def)
  with d(6) s2 show ?thesis unfolding db_def [symmetric] Let_def by simp
qed

text \<open>The dimension of a namespace is not kept by moving a memory: an update of the namespace carries the
  embedding along unchecked, so a namespace can end with embeddings of two dimensions, which no
  sequence of \<open>set_embedding\<close> produces.\<close>

theorem moved_memory_mixes_dims:
  "\<exists>db i u. db_ok db \<and> dims_ok db \<and> dims_nonneg db \<and> dim_violations db = 0
     \<and> fst (update now db i u) = Inr (True, False) \<and> \<not> dims_ok (snd (update now db i u))"
proof -
  let ?n = "\<lambda>i ns n. write_embedding (encode_embedding_blob (ex_vec n)) (embed_dim (ex_vec n))
     ((row_of (ex_note i i Mid ''alice''))\<lparr>m_namespace := ns\<rparr>)"
  let ?db = "empty_db\<lparr>db_memories := [?n ''a'' ''x'' 1, ?n ''b'' ''y'' 2]\<rparr>"
  let ?u = "\<lparr>u_title = None, u_content = None, u_tier = None, u_namespace = Some ''y'', u_tags = None,
     u_priority = None, u_confidence = None, u_expires_at = None, u_metadata = None\<rparr>"
  have "db_ok ?db"
    by (simp add: db_ok_def memories_ok_def links_ok_def unique_key_def empty_db_def title_key_def row_of_def ex_note_def
        write_embedding_def)
  moreover have "dims_ok ?db" "dims_nonneg ?db"
    by (simp_all add: dims_ok_def dims_nonneg_def write_embedding_def embed_dim_def)
  moreover have "dim_violations ?db = 0"
    by (simp add: dim_violations_def sql_count_0 dim_violation_write)
  moreover have "fst (update now ?db ''a'' ?u) = Inr (True, False)"
    by (simp add: update_def get_def sql_row_def row_to_memory_def row_of_def ex_note_def Let_def write_embedding_def)
  moreover have "\<not> dims_ok (snd (update now ?db ''a'' ?u))"
    by (simp add: update_def get_def sql_row_def sql_update_def row_to_memory_def row_of_def ex_note_def Let_def
        dims_ok_def write_embedding_def embed_dim_def ex_vec_def)
  ultimately show ?thesis by blast
qed

end
