(* ===== verification/Replica.thy ===== *)
theory Replica
  imports Governance Federation Embeddings
begin

text \<open>
  Applying what peers send: the handlers \<open>sync_push\<close> and \<open>sync_since\<close> (\<open>src/handlers.rs\<close>), the
  catch-up pull (\<open>src/federation.rs\<close>) and one cycle of the sync daemon (\<open>src/daemon_runtime.rs\<close>). A
  handler runs under the database lock, so its statements are one sequence on the database. The
  record \<open>push_env\<close> holds what the handler takes from outside: the clock, one value per request,
  fresh UUIDs by the order they are drawn, the time stamp and JSON libraries, the key directory and
  the embedding model. The HTTP client is the peer's response, \<open>None\<close> where the request fails.
\<close>

subsection \<open>POST /api/v1/sync/push\<close>

definition MAX_BULK_SIZE :: nat where "MAX_BULK_SIZE = 1000"

record push_env =
  px_now :: str
  px_request_uuid :: str
  px_uuid :: "nat \<Rightarrow> str"
  px_parse :: rfc3339
  px_ser :: "json \<Rightarrow> str"
  px_mem_from_value :: "json \<Rightarrow> str + Memory"
  px_crypto :: crypto
  px_read_file :: "str \<Rightarrow> io_error + nat list"
  px_key_dir :: "str option"
  px_embedder :: "(str \<Rightarrow> 32 word list option) option"

datatype http_error = InvalidSender ValidationError | TooMany str | InvalidHeader ValidationError
  | InvalidSince

text \<open>The local variables of the handler: the database and the counters it reports.\<close>

record push_state =
  ps_db :: Db
  ps_applied :: nat
  ps_noop :: nat
  ps_skipped :: nat
  ps_deleted :: nat
  ps_archived :: nat
  ps_restored :: nat
  ps_links_applied :: nat
  ps_pendings_applied :: nat
  ps_pending_decisions_applied :: nat
  ps_namespace_meta_applied :: nat
  ps_namespace_meta_cleared :: nat
  ps_latest_seen :: "str option"
  ps_embedding_refresh :: "(str \<times> str) list"
  ps_drawn :: nat

definition push_start :: "Db \<Rightarrow> push_state" where
  "push_start db =
     \<lparr>ps_db = db, ps_applied = 0, ps_noop = 0, ps_skipped = 0, ps_deleted = 0, ps_archived = 0,
      ps_restored = 0, ps_links_applied = 0, ps_pendings_applied = 0, ps_pending_decisions_applied = 0,
      ps_namespace_meta_applied = 0, ps_namespace_meta_cleared = 0, ps_latest_seen = None,
      ps_embedding_refresh = [], ps_drawn = 0\<rparr>"

definition skip :: "push_state \<Rightarrow> push_state" where
  "skip st = st\<lparr>ps_skipped := ps_skipped st + 1\<rparr>"

definition noop :: "push_state \<Rightarrow> push_state" where
  "noop st = st\<lparr>ps_noop := ps_noop st + 1\<rparr>"

definition see :: "str \<Rightarrow> str option \<Rightarrow> str option" where
  "see ts latest = (case latest of None \<Rightarrow> Some ts | Some current \<Rightarrow> if ts > current then Some ts else Some current)"

definition push_memory :: "push_env \<Rightarrow> bool \<Rightarrow> Memory \<Rightarrow> push_state \<Rightarrow> push_state" where
  "push_memory env dry_run mem st =
     (if validate_memory (px_parse env) (px_ser env) mem \<noteq> Inr () then skip st
      else
        let st1 = st\<lparr>ps_latest_seen := see (m_updated_at mem) (ps_latest_seen st)\<rparr> in
        if dry_run then noop st1
        else case insert_if_newer (ps_db st1) mem of
            (Inr actual_id, db') \<Rightarrow>
              st1\<lparr>ps_db := db', ps_applied := ps_applied st1 + 1,
                  ps_embedding_refresh := ps_embedding_refresh st1 @ [(actual_id, m_title mem @ '' '' @ m_content mem)]\<rparr>
          | (Inl _, db') \<Rightarrow> skip (st1\<lparr>ps_db := db'\<rparr>))"

definition push_deletion :: "bool \<Rightarrow> str \<Rightarrow> push_state \<Rightarrow> push_state" where
  "push_deletion dry_run i st =
     (if validate_id i \<noteq> Inr () then skip st
      else if dry_run then noop st
      else case delete (ps_db st) i of
          (True, db') \<Rightarrow> st\<lparr>ps_db := db', ps_deleted := ps_deleted st + 1\<rparr>
        | (False, db') \<Rightarrow> noop (st\<lparr>ps_db := db'\<rparr>))"

definition push_archive :: "push_env \<Rightarrow> bool \<Rightarrow> str \<Rightarrow> push_state \<Rightarrow> push_state" where
  "push_archive env dry_run i st =
     (if validate_id i \<noteq> Inr () then skip st
      else if dry_run then noop st
      else case archive_memory (px_now env) (ps_db st) i (Some ''sync_push'') of
          (True, db') \<Rightarrow> st\<lparr>ps_db := db', ps_archived := ps_archived st + 1\<rparr>
        | (False, db') \<Rightarrow> noop (st\<lparr>ps_db := db'\<rparr>))"

definition push_restore :: "push_env \<Rightarrow> bool \<Rightarrow> str \<Rightarrow> push_state \<Rightarrow> push_state" where
  "push_restore env dry_run i st =
     (if validate_id i \<noteq> Inr () then skip st
      else if dry_run then noop st
      else case restore_archived (px_ser env) (px_now env) (ps_db st) i of
          (Inr True, db') \<Rightarrow> st\<lparr>ps_db := db', ps_restored := ps_restored st + 1\<rparr>
        | (Inr False, db') \<Rightarrow> noop (st\<lparr>ps_db := db'\<rparr>)
        | (Inl _, db') \<Rightarrow> skip (st\<lparr>ps_db := db'\<rparr>))"

text \<open>The attest level an incoming link lands with, \<open>None\<close> when its signature is refused.\<close>

definition inbound_attest_level :: "push_env \<Rightarrow> MemoryLink \<Rightarrow> AttestLevel option" where
  "inbound_attest_level env link =
     (case (l_signature link, l_observed_by link) of
        (Some sig_bytes, Some observed_by) \<Rightarrow>
          (case lookup_peer_public_key (px_crypto env) (px_read_file env) (px_key_dir env) observed_by of
             Some pubkey \<Rightarrow>
               (case verify_link (px_crypto env) pubkey
                       \<lparr>sg_src_id = l_source_id link, sg_dst_id = l_target_id link, sg_relation = l_relation link,
                        sg_observed_by = Some observed_by, sg_valid_from = l_valid_from link,
                        sg_valid_until = l_valid_until link\<rparr> sig_bytes of
                  Inr _ \<Rightarrow> Some PeerAttested
                | Inl _ \<Rightarrow> None)
           | None \<Rightarrow> Some Unsigned)
      | _ \<Rightarrow> Some Unsigned)"

definition push_link :: "push_env \<Rightarrow> bool \<Rightarrow> MemoryLink \<Rightarrow> push_state \<Rightarrow> push_state" where
  "push_link env dry_run link st =
     (if validate_link (l_source_id link) (l_target_id link) (l_relation link) \<noteq> Inr () then skip st
      else if dry_run then noop st
      else case inbound_attest_level env link of
          None \<Rightarrow> skip st
        | Some attest_level \<Rightarrow>
            (case create_link_inbound (px_now env) (ps_db st) link (attest_as_str attest_level) of
               (Inr _, db') \<Rightarrow> st\<lparr>ps_db := db', ps_links_applied := ps_links_applied st + 1\<rparr>
             | (Inl _, db') \<Rightarrow> skip (st\<lparr>ps_db := db'\<rparr>)))"

definition push_pending :: "bool \<Rightarrow> PendingAction \<Rightarrow> push_state \<Rightarrow> push_state" where
  "push_pending dry_run pa st =
     (if validate_id (pa_id pa) \<noteq> Inr () then skip st
      else if dry_run then noop st
      else st\<lparr>ps_db := upsert_pending_action (ps_db st) pa,
              ps_pendings_applied := ps_pendings_applied st + 1\<rparr>)"

definition push_decision :: "push_env \<Rightarrow> bool \<Rightarrow> PendingDecision \<Rightarrow> push_state \<Rightarrow> push_state" where
  "push_decision env dry_run dec st =
     (if validate_id (pd_id dec) \<noteq> Inr () then skip st
      else if dry_run then noop st
      else case decide_pending_action (px_now env) (ps_db st) (pd_id dec) (pd_approved dec) (pd_decider dec) of
          (True, db') \<Rightarrow>
            let st1 = st\<lparr>ps_db := db', ps_pending_decisions_applied := ps_pending_decisions_applied st + 1\<rparr> in
            if pd_approved dec
            then st1\<lparr>ps_db := snd (execute_pending_action (px_mem_from_value env) (px_uuid env (ps_drawn st1))
                        (px_now env) db' (pd_id dec)),
                     ps_drawn := ps_drawn st1 + 1\<rparr>
            else st1
        | (False, db') \<Rightarrow> noop (st\<lparr>ps_db := db'\<rparr>))"

definition push_namespace_meta :: "push_env \<Rightarrow> bool \<Rightarrow> NamespaceMetaEntry \<Rightarrow> push_state \<Rightarrow> push_state" where
  "push_namespace_meta env dry_run entry st =
     (if validate_namespace (nm_namespace entry) \<noteq> Inr () \<or> validate_id (nm_standard_id entry) \<noteq> Inr () then skip st
      else if dry_run then noop st
      else case set_namespace_standard (px_now env) (ps_db st) (nm_namespace entry) (nm_standard_id entry)
                  (nm_parent_namespace entry) of
          (Inr _, db') \<Rightarrow> st\<lparr>ps_db := db', ps_namespace_meta_applied := ps_namespace_meta_applied st + 1\<rparr>
        | (Inl _, db') \<Rightarrow> skip (st\<lparr>ps_db := db'\<rparr>))"

definition push_namespace_clear :: "bool \<Rightarrow> str \<Rightarrow> push_state \<Rightarrow> push_state" where
  "push_namespace_clear dry_run ns st =
     (if validate_namespace ns \<noteq> Inr () then skip st
      else if dry_run then noop st
      else case clear_namespace_standard (ps_db st) ns of
          (True, db') \<Rightarrow> st\<lparr>ps_db := db', ps_namespace_meta_cleared := ps_namespace_meta_cleared st + 1\<rparr>
        | (False, db') \<Rightarrow> noop (st\<lparr>ps_db := db'\<rparr>))"

definition refresh_embedding :: "(str \<Rightarrow> 32 word list option) \<Rightarrow> str \<times> str \<Rightarrow> Db \<Rightarrow> Db" where
  "refresh_embedding emb it db =
     (case emb (snd it) of
        None \<Rightarrow> db
      | Some vec \<Rightarrow> snd (set_embedding db (fst it) vec))"

text \<open>The nine loops in the order of the handler.\<close>

definition apply_push :: "push_env \<Rightarrow> push_body \<Rightarrow> Db \<Rightarrow> push_state" where
  "apply_push env body db =
     (let dry = pb_dry_run body in
      fold (push_namespace_clear dry) (pb_namespace_meta_clears body)
      (fold (push_namespace_meta env dry) (pb_namespace_meta body)
      (fold (push_decision env dry) (pb_pending_decisions body)
      (fold (push_pending dry) (pb_pendings body)
      (fold (push_link env dry) (pb_links body)
      (fold (push_restore env dry) (pb_restores body)
      (fold (push_archive env dry) (pb_archives body)
      (fold (push_deletion dry) (pb_deletions body)
      (fold (push_memory env dry) (pb_memories body) (push_start db))))))))))"

definition push_size_checks :: "push_body \<Rightarrow> http_error check" where
  "push_size_checks body =
     first_err
       [bail_if (length (pb_memories body) > MAX_BULK_SIZE) (TooMany ''memories''),
        bail_if (length (pb_deletions body) > MAX_BULK_SIZE) (TooMany ''deletions''),
        bail_if (length (pb_archives body) > MAX_BULK_SIZE) (TooMany ''archives''),
        bail_if (length (pb_restores body) > MAX_BULK_SIZE) (TooMany ''restores''),
        bail_if (length (pb_pendings body) > MAX_BULK_SIZE) (TooMany ''pendings''),
        bail_if (length (pb_pending_decisions body) > MAX_BULK_SIZE) (TooMany ''pending_decisions''),
        bail_if (length (pb_namespace_meta body) > MAX_BULK_SIZE) (TooMany ''namespace_meta''),
        bail_if (length (pb_namespace_meta_clears body) > MAX_BULK_SIZE) (TooMany ''namespace_meta_clears'')]"

record push_response =
  rs_counts :: push_state
  rs_receiver_agent_id :: str
  rs_receiver_clock :: VectorClock

definition sync_push :: "push_env \<Rightarrow> str option \<Rightarrow> push_body \<Rightarrow> Db \<Rightarrow> (http_error + push_response) \<times> Db" where
  "sync_push env header body db =
     (case validate_agent_id (pb_sender_agent_id body) of
        Inl e \<Rightarrow> (Inl (InvalidSender e), db)
      | Inr _ \<Rightarrow>
          (case push_size_checks body of
             Inl e \<Rightarrow> (Inl e, db)
           | Inr _ \<Rightarrow>
               (case resolve_http_agent_id (px_request_uuid env) None header of
                  Inl e \<Rightarrow> (Inl (InvalidHeader e), db)
                | Inr local_agent_id \<Rightarrow>
                    let st = apply_push env body db;
                        db1 = (case ps_latest_seen st of
                                 Some latest \<Rightarrow>
                                   if pb_dry_run body then ps_db st
                                   else sync_state_observe (px_now env) (ps_db st) local_agent_id
                                          (pb_sender_agent_id body) latest
                               | None \<Rightarrow> ps_db st);
                        db2 = (case px_embedder env of
                                 Some emb \<Rightarrow>
                                   if pb_dry_run body then db1
                                   else fold (refresh_embedding emb) (ps_embedding_refresh st) db1
                               | None \<Rightarrow> db1)
                    in (Inr \<lparr>rs_counts = st, rs_receiver_agent_id = local_agent_id,
                              rs_receiver_clock = sync_state_load db2 local_agent_id\<rparr>, db2))))"

subsection \<open>GET /api/v1/sync/since\<close>

definition sync_since ::
    "push_env \<Rightarrow> str option \<Rightarrow> str option \<Rightarrow> nat option \<Rightarrow> str option \<Rightarrow> Db \<Rightarrow> (http_error + Memory list) \<times> Db" where
  "sync_since env header since limit peer db =
     (if (case since of Some s \<Rightarrow> s \<noteq> [] \<and> px_parse env s = None | None \<Rightarrow> False)
      then (Inl InvalidSince, db)
      else
        let mems = memories_updated_since db since (min (case limit of Some l \<Rightarrow> l | None \<Rightarrow> 500) 10000);
            db' = (case (peer, resolve_http_agent_id (px_request_uuid env) None header) of
                     (Some p, Inr local_agent_id) \<Rightarrow>
                       if validate_agent_id p = Inr () \<and> mems \<noteq> []
                       then sync_state_observe (px_now env) db local_agent_id p (m_updated_at (last mems))
                       else db
                   | _ \<Rightarrow> db)
        in (Inr mems, db'))"

subsection \<open>Catch-up\<close>

text \<open>\<open>str::trim_end_matches\<close> with a string.\<close>

function trim_end_str :: "str \<Rightarrow> str \<Rightarrow> str" where
  "trim_end_str pat s =
     (if pat \<noteq> [] \<and> suffix pat s then trim_end_str pat (take (length s - length pat) s) else s)"
  by pat_completeness auto
termination
  by (relation "measure (\<lambda>(p, s). length s)") (auto simp: suffix_def)

declare trim_end_str.simps [simp del]

definition catchup_url :: "str \<Rightarrow> PeerEndpoint \<Rightarrow> str option \<Rightarrow> str" where
  "catchup_url local_id peer since =
     (let base = trim_end_str ''/api/v1/sync/push'' (pe_sync_push_url peer) in
      case since of
        Some s \<Rightarrow> base @ ''/api/v1/sync/since?since='' @ urlencoding_encode s @ ''&peer='' @ local_id
      | None \<Rightarrow> base @ ''/api/v1/sync/since?peer='' @ local_id)"

text \<open>One memory of a response: what does not parse or validate is passed over.\<close>

definition catchup_memory :: "push_env \<Rightarrow> json \<Rightarrow> str option \<times> Db \<Rightarrow> str option \<times> Db" where
  "catchup_memory env raw acc =
     (case px_mem_from_value env raw of
        Inl _ \<Rightarrow> acc
      | Inr mem \<Rightarrow>
          if validate_memory (px_parse env) (px_ser env) mem \<noteq> Inr () then acc
          else (see (m_updated_at mem) (fst acc), snd (insert_if_newer (snd acc) mem)))"

text \<open>\<open>fetch\<close> is the parsed body of a successful GET, \<open>None\<close> for a failed request or an unparseable body.\<close>

definition catchup_peer :: "push_env \<Rightarrow> (str \<Rightarrow> json option) \<Rightarrow> str \<Rightarrow> PeerEndpoint \<Rightarrow> Db \<Rightarrow> Db" where
  "catchup_peer env fetch local_id peer db =
     (let since = entries (sync_state_load db local_id) (pe_id peer) in
      case fetch (catchup_url local_id peer since) of
        None \<Rightarrow> db
      | Some body \<Rightarrow>
          (case json_get body ''memories'' of
             Some (JArr memories) \<Rightarrow>
               if memories = [] then db
               else (case fold (catchup_memory env) memories (None, db) of
                       (Some ts, db') \<Rightarrow> sync_state_observe (px_now env) db' local_id (pe_id peer) ts
                     | (None, db') \<Rightarrow> db')
           | _ \<Rightarrow> db))"

definition catchup_once :: "push_env \<Rightarrow> (str \<Rightarrow> json option) \<Rightarrow> FederationConfig \<Rightarrow> Db \<Rightarrow> Db" where
  "catchup_once env fetch config db =
     fold (catchup_peer env fetch (fc_sender_agent_id config)) (fc_peers config) db"

subsection \<open>The sync daemon\<close>

definition urlencoding_minimal :: "str \<Rightarrow> str" where
  "urlencoding_minimal s =
     concat (map (\<lambda>b. if unreserved b then [b]
                      else [CHR ''%'', hex_char (byte_of b div 16), hex_char (byte_of b mod 16)]) s)"

datatype cycle_error = PullFailed | PushFailed

definition pull_url :: "str \<Rightarrow> str \<Rightarrow> nat \<Rightarrow> str option \<Rightarrow> str" where
  "pull_url peer_url local_agent_id batch_size since =
     peer_url @ ''/api/v1/sync/since?limit='' @ show_nat batch_size @ ''&peer='' @ urlencoding_minimal local_agent_id
     @ (case since of Some s \<Rightarrow> ''&since='' @ urlencoding_minimal s | None \<Rightarrow> [])"

definition apply_pulled :: "push_env \<Rightarrow> Memory list \<Rightarrow> Db \<Rightarrow> Db" where
  "apply_pulled env mems db =
     fold (\<lambda>mem d. if is_ok (validate_memory (px_parse env) (px_ser env) mem)
                   then snd (insert_if_newer d mem) else d) mems db"

text \<open>\<open>pull\<close> is the peer's answer to the GET, \<open>post\<close> whether it answers the POST with success.\<close>

definition sync_cycle_once ::
    "push_env \<Rightarrow> (str \<Rightarrow> Memory list option) \<Rightarrow> (push_body \<Rightarrow> bool) \<Rightarrow> str \<Rightarrow> str \<Rightarrow> nat \<Rightarrow> Db \<Rightarrow>
     (cycle_error + unit) \<times> Db" where
  "sync_cycle_once env pull post local_agent_id peer batch_size db =
     (let peer_url = trim_end_char CHR ''/'' peer;
          since = entries (sync_state_load db local_agent_id) peer_url in
      case pull (pull_url peer_url local_agent_id batch_size since) of
        None \<Rightarrow> (Inl PullFailed, db)
      | Some pulled \<Rightarrow>
          let db1 = apply_pulled env pulled db;
              db2 = (if pulled = [] then db1
                     else sync_state_observe (px_now env) db1 local_agent_id peer_url (m_updated_at (last pulled)));
              outgoing = memories_updated_since db2 (sync_state_last_pushed db2 local_agent_id peer_url) batch_size
          in if outgoing = [] then (Inr (), db2)
             else if \<not> post \<lparr>pb_sender_agent_id = local_agent_id, pb_memories = outgoing, pb_deletions = [],
                             pb_archives = [], pb_restores = [], pb_links = [], pb_pendings = [],
                             pb_pending_decisions = [], pb_namespace_meta = [], pb_namespace_meta_clears = [],
                             pb_dry_run = False\<rparr>
             then (Inl PushFailed, db2)
             else (Inr (), sync_state_record_push (px_now env) db2 local_agent_id peer_url
                             (m_updated_at (last outgoing))))"

section \<open>Correctness\<close>

lemma urlencoding_minimal_eq: "urlencoding_minimal s = urlencoding_encode s"
  by (induction s) (simp_all add: urlencoding_minimal_def)

text \<open>
  A property of the database that every loop body of the handler keeps is kept by the handler.
\<close>

locale push_invariant =
  fixes I :: "Db \<Rightarrow> bool" and env :: push_env
  assumes inv_insert: "I db \<Longrightarrow> I (snd (insert_if_newer db mem))"
    and inv_delete: "I db \<Longrightarrow> I (snd (delete db i))"
    and inv_archive: "I db \<Longrightarrow> I (snd (archive_memory now db i reason))"
    and inv_restore: "I db \<Longrightarrow> I (snd (restore_archived ser now db i))"
    and inv_link: "I db \<Longrightarrow> inbound_attest_level env link = Some lev \<Longrightarrow>
          I (snd (create_link_inbound now db link (attest_as_str lev)))"
    and inv_pending: "I db \<Longrightarrow> I (upsert_pending_action db pa)"
    and inv_decide: "I db \<Longrightarrow> I (snd (decide_pending_action now db i a who))"
    and inv_execute: "I db \<Longrightarrow> I (snd (execute_pending_action mv new_id now db i))"
    and inv_standard: "I db \<Longrightarrow> I (snd (set_namespace_standard now db ns i parent))"
    and inv_clear: "I db \<Longrightarrow> I (snd (clear_namespace_standard db ns))"
    and inv_observe: "I db \<Longrightarrow> I (sync_state_observe now db agent peer ts)"
    and inv_embed: "I db \<Longrightarrow> I (snd (set_embedding db i vec))"
begin

lemma step_inv:
  "I (ps_db st) \<Longrightarrow> I (ps_db (push_memory env d mem st))"
  "I (ps_db st) \<Longrightarrow> I (ps_db (push_deletion d i st))"
  "I (ps_db st) \<Longrightarrow> I (ps_db (push_archive env d i st))"
  "I (ps_db st) \<Longrightarrow> I (ps_db (push_restore env d i st))"
  "I (ps_db st) \<Longrightarrow> I (ps_db (push_link env d link st))"
  "I (ps_db st) \<Longrightarrow> I (ps_db (push_pending d pa st))"
  "I (ps_db st) \<Longrightarrow> I (ps_db (push_decision env d dec st))"
  "I (ps_db st) \<Longrightarrow> I (ps_db (push_namespace_meta env d e st))"
  "I (ps_db st) \<Longrightarrow> I (ps_db (push_namespace_clear d ns st))"
  using inv_insert [of "ps_db st" mem] inv_delete [of "ps_db st" i] inv_archive [of "ps_db st" "px_now env" i "Some ''sync_push''"]
    inv_restore [of "ps_db st" "px_ser env" "px_now env" i] inv_link [of "ps_db st" link _ "px_now env"]
    inv_pending [of "ps_db st" pa] inv_decide [of "ps_db st" "px_now env" "pd_id dec" "pd_approved dec" "pd_decider dec"]
    inv_standard [of "ps_db st" "px_now env" "nm_namespace e" "nm_standard_id e" "nm_parent_namespace e"]
    inv_clear [of "ps_db st" ns] inv_execute
  by (auto simp: push_memory_def push_deletion_def push_archive_def push_restore_def push_link_def push_pending_def
      push_decision_def push_namespace_meta_def push_namespace_clear_def skip_def noop_def Let_def
      split: prod.splits sum.splits bool.splits option.splits)

lemma fold_inv: "(\<And>x st. I (ps_db st) \<Longrightarrow> I (ps_db (f x st))) \<Longrightarrow> I (ps_db st) \<Longrightarrow> I (ps_db (fold f xs st))"
  by (induction xs arbitrary: st) auto

lemma apply_push_inv: "I db \<Longrightarrow> I (ps_db (apply_push env body db))"
  unfolding apply_push_def Let_def by (intro fold_inv step_inv) (simp_all add: push_start_def)

lemma refresh_inv: "I db \<Longrightarrow> I (fold (refresh_embedding emb) its db)"
  by (induction its arbitrary: db) (auto simp: refresh_embedding_def inv_embed split: option.split)

lemma sync_push_inv: "I db \<Longrightarrow> I (snd (sync_push env header body db))"
  using apply_push_inv [of db body]
  by (auto simp: sync_push_def Let_def intro!: refresh_inv inv_observe split: sum.split option.split)

end

interpretation store: push_invariant db_ok env for env
  by unfold_locales
    (simp_all add: insert_if_newer_ok delete_ok archive_memory_ok restore_archived_ok create_link_inbound_ok
      upsert_pending_action_ok decide_pending_action_ok execute_pending_action_ok set_namespace_standard_ok
      clear_namespace_standard_ok sync_state_observe_ok set_embedding_ok)

text \<open>What an attested row must come with: a signature of the enrolled key of its observer over its fields.\<close>

definition signable_of :: "'a MemoryLink_scheme \<Rightarrow> str \<Rightarrow> str option \<Rightarrow> SignableLink" where
  "signable_of l observed_by valid_from =
     \<lparr>sg_src_id = l_source_id l, sg_dst_id = l_target_id l, sg_relation = l_relation l,
      sg_observed_by = Some observed_by, sg_valid_from = valid_from, sg_valid_until = l_valid_until l\<rparr>"

definition link_verified :: "push_env \<Rightarrow> LinkRow \<Rightarrow> bool" where
  "link_verified env l = (\<exists>sig obs pub vf. l_signature l = Some sig \<and> l_observed_by l = Some obs
     \<and> lookup_peer_public_key (px_crypto env) (px_read_file env) (px_key_dir env) obs = Some pub
     \<and> (vf = l_valid_from l \<or> vf = None)
     \<and> verify_link (px_crypto env) pub (signable_of l obs vf) sig = Inr ())"

definition attested_ok :: "push_env \<Rightarrow> LinkRow set \<Rightarrow> Db \<Rightarrow> bool" where
  "attested_ok env old db = (\<forall>l \<in> set (db_links db). l \<in> old \<or>
     (lr_attest_level l = Some ''peer_attested'' \<longrightarrow> link_verified env l))"

lemma attested_ok_subset: "attested_ok env old db \<Longrightarrow> set (db_links db') \<subseteq> set (db_links db) \<Longrightarrow> attested_ok env old db'"
  by (auto simp: attested_ok_def)

lemma links_upsert [simp]: "db_links (snd (sql_upsert mg db m)) = db_links db"
  by (auto simp: sql_upsert_def split: option.splits)

lemma links_insert [simp]: "db_links (snd (insert_mem db m)) = db_links db" "db_links (snd (insert_if_newer db m)) = db_links db"
  by (simp_all add: insert_mem_def insert_if_newer_def)

lemma links_update [simp]: "db_links (snd (update now db i u)) = db_links db"
  by (auto simp: update_def Let_def split: option.splits)

lemma links_delete_subset: "set (db_links (snd (delete db i))) \<subseteq> set (db_links db)"
  by (auto simp: delete_def Let_def delete_memories_def set_sql_delete)

lemma links_archive_subset: "set (db_links (snd (archive_memory now db i r))) \<subseteq> set (db_links db)"
  by (auto simp: archive_memory_def Let_def delete_memories_def set_sql_delete)

lemma links_restore [simp]: "db_links (snd (restore_archived ser now db i)) = db_links db"
  by (auto simp: restore_archived_def Let_def split: option.splits)

lemma links_embed [simp]: "db_links (snd (set_embedding db i v)) = db_links db"
  by (auto simp: set_embedding_def Let_def split: option.splits)

lemma links_governance [simp]:
  "db_links (upsert_pending_action db pa) = db_links db"
  "db_links (snd (decide_pending_action now db i a who)) = db_links db"
  "db_links (snd (set_namespace_standard now db ns i p)) = db_links db"
  "db_links (snd (clear_namespace_standard db ns)) = db_links db"
  "db_links (sync_state_observe now db ag pe ts) = db_links db"
  by (auto simp: upsert_pending_action_def decide_pending_action_def set_namespace_standard_def
      clear_namespace_standard_def sync_state_observe_def Let_def)

lemma attested_create_link: "attested_ok env old db \<Longrightarrow> attested_ok env old (snd (create_link now db a b r))"
  by (auto simp: attested_ok_def create_link_eq sql_insert_ignore_def)

lemma attested_promote:
  assumes "attested_ok env old db"
  shows "attested_ok env old (snd (promote_to_namespace i now db a b))"
proof -
  have "attested_ok env old (snd (insert_mem db m))" for m
    using assms by (rule attested_ok_subset) simp
  then show ?thesis using assms attested_create_link
    by (auto simp: promote_to_namespace_def Let_def split: option.splits sum.splits prod.splits) (metis snd_conv)+
qed

lemma attested_execute:
  assumes "attested_ok env old db"
  shows "attested_ok env old (snd (execute_pending_action mv new_id now db i))"
  using assms attested_promote [OF assms] attested_ok_subset [OF assms links_delete_subset]
    attested_ok_subset [OF assms, of "snd (insert_mem db _)"] attested_ok_subset [OF assms, of "snd (update _ db _ _)"]
  by (simp add: execute_pending_action_def split: option.split sum.split)

lemma attested_inbound:
  assumes "attested_ok env old db" and lev: "inbound_attest_level env link = Some lev"
  shows "attested_ok env old (snd (create_link_inbound now db link (attest_as_str lev)))"
proof (cases lev)
  case PeerAttested
  with lev obtain sig obs pub where v: "l_signature link = Some sig" "l_observed_by link = Some obs"
    "lookup_peer_public_key (px_crypto env) (px_read_file env) (px_key_dir env) obs = Some pub"
    "verify_link (px_crypto env) pub (signable_of link obs (l_valid_from link)) sig = Inr ()"
    by (auto simp: inbound_attest_level_def signable_of_def split: option.splits sum.splits)
  then show ?thesis using assms(1)
    by (auto simp: attested_ok_def create_link_inbound_def sql_insert_ignore_def link_verified_def signable_of_def
        split: option.splits)
qed (use assms in \<open>auto simp: attested_ok_def create_link_inbound_def sql_insert_ignore_def\<close>)

interpretation attest: push_invariant "attested_ok env old" env for env old
proof unfold_locales
  fix db link lev now assume "attested_ok env old db" "inbound_attest_level env link = Some lev"
  then show "attested_ok env old (snd (create_link_inbound now db link (attest_as_str lev)))" by (rule attested_inbound)
qed (simp_all add: attested_execute attested_ok_subset [OF _ links_delete_subset] attested_ok_subset [OF _ links_archive_subset]
    attested_ok_subset [OF _ equalityD1 [OF arg_cong [of _ _ set]]])

text \<open>Every item of a push is counted once.\<close>

definition counted :: "push_state \<Rightarrow> nat" where
  "counted st = ps_applied st + ps_noop st + ps_skipped st + ps_deleted st + ps_archived st + ps_restored st
     + ps_links_applied st + ps_pendings_applied st + ps_pending_decisions_applied st
     + ps_namespace_meta_applied st + ps_namespace_meta_cleared st"

definition push_items :: "push_body \<Rightarrow> nat" where
  "push_items b = length (pb_memories b) + length (pb_deletions b) + length (pb_archives b) + length (pb_restores b)
     + length (pb_links b) + length (pb_pendings b) + length (pb_pending_decisions b)
     + length (pb_namespace_meta b) + length (pb_namespace_meta_clears b)"

lemmas push_step_defs = push_memory_def push_deletion_def push_archive_def push_restore_def push_link_def push_pending_def
  push_decision_def push_namespace_meta_def push_namespace_clear_def skip_def noop_def

lemma counted_step [simp]:
  "counted (push_memory env d mem st) = counted st + 1"
  "counted (push_deletion d i st) = counted st + 1"
  "counted (push_archive env d i st) = counted st + 1"
  "counted (push_restore env d i st) = counted st + 1"
  "counted (push_link env d link st) = counted st + 1"
  "counted (push_pending d pa st) = counted st + 1"
  "counted (push_decision env d dec st) = counted st + 1"
  "counted (push_namespace_meta env d e st) = counted st + 1"
  "counted (push_namespace_clear d ns st) = counted st + 1"
  by (auto simp: push_step_defs Let_def counted_def split: prod.split sum.split bool.split option.split)

lemma counted_fold: "(\<And>x st. counted (f x st) = counted st + 1) \<Longrightarrow> counted (fold f xs st) = counted st + length xs"
  by (induction xs arbitrary: st) simp_all

lemma counted_apply: "counted (apply_push env body db) = push_items body"
  by (simp add: apply_push_def Let_def counted_fold push_items_def) (simp add: counted_def push_start_def)

text \<open>A dry run changes nothing but the two counters and the time stamp seen.\<close>

definition untouched :: "Db \<Rightarrow> push_state \<Rightarrow> bool" where
  "untouched db st = (ps_db st = db \<and> counted st = ps_noop st + ps_skipped st)"

lemma dry_step [simp]:
  "untouched db st \<Longrightarrow> untouched db (push_memory env True mem st)"
  "untouched db st \<Longrightarrow> untouched db (push_deletion True i st)"
  "untouched db st \<Longrightarrow> untouched db (push_archive env True i st)"
  "untouched db st \<Longrightarrow> untouched db (push_restore env True i st)"
  "untouched db st \<Longrightarrow> untouched db (push_link env True link st)"
  "untouched db st \<Longrightarrow> untouched db (push_pending True pa st)"
  "untouched db st \<Longrightarrow> untouched db (push_decision env True dec st)"
  "untouched db st \<Longrightarrow> untouched db (push_namespace_meta env True e st)"
  "untouched db st \<Longrightarrow> untouched db (push_namespace_clear True ns st)"
  by (auto simp: push_step_defs Let_def untouched_def counted_def)

lemma dry_start: "untouched db (push_start db)"
  by (simp add: untouched_def push_start_def counted_def)

lemma dry_fold: "(\<And>x st. untouched db st \<Longrightarrow> untouched db (f x st)) \<Longrightarrow> untouched db st \<Longrightarrow> untouched db (fold f xs st)"
  by (induction xs arbitrary: st) simp_all

lemma dry_apply: "pb_dry_run body \<Longrightarrow> untouched db (apply_push env body db)"
  unfolding apply_push_def Let_def by (intro dry_fold) (simp_all add: dry_start)

section \<open>Properties\<close>

text \<open>C40: Whatever a peer sends, \<open>sync_push\<close> leaves a well-formed store; a refused request (a sender or
  header id that does not validate, or one of the eight limited lists over 1000 entries) and a dry run leave it as it was;
  and an accepted request accounts for every item exactly once, in a dry run as a no-op or as skipped.\<close>

theorem sync_push_contract:
  assumes "db_ok db" and "sync_push env header body db = (r, db')"
  shows "db_ok db'
    \<and> ((\<exists>e. r = Inl e) \<longrightarrow> db' = db)
    \<and> (pb_dry_run body \<longrightarrow> db' = db)
    \<and> (\<forall>rs. r = Inr rs \<longrightarrow> counted (rs_counts rs) = push_items body
         \<and> (pb_dry_run body \<longrightarrow> ps_noop (rs_counts rs) + ps_skipped (rs_counts rs) = push_items body)
         \<and> length (pb_memories body) \<le> MAX_BULK_SIZE \<and> length (pb_deletions body) \<le> MAX_BULK_SIZE
         \<and> validate_agent_id (pb_sender_agent_id body) = Inr ())"
proof (intro conjI allI impI)
  show "db_ok db'" using store.sync_push_inv [OF assms(1), of env header body] assms(2) by simp
  show "db' = db" if "\<exists>e. r = Inl e"
    using assms(2) that by (auto simp: sync_push_def Let_def split: sum.splits)
  show "db' = db" if d: "pb_dry_run body"
    using assms(2) dry_apply [OF d, of db env] d
    by (auto simp: sync_push_def Let_def untouched_def split: sum.splits option.splits)
  fix rs assume rs: "r = Inr rs"
  then have c: "rs_counts rs = apply_push env body db" and v: "validate_agent_id (pb_sender_agent_id body) = Inr ()"
    and s: "push_size_checks body = Inr ()"
    using assms(2) by (auto simp: sync_push_def Let_def split: sum.splits)
  show "counted (rs_counts rs) = push_items body" by (simp add: c counted_apply)
  then show "ps_noop (rs_counts rs) + ps_skipped (rs_counts rs) = push_items body" if d: "pb_dry_run body"
    using dry_apply [OF d, of db env] by (simp add: untouched_def c)
  show "length (pb_memories body) \<le> MAX_BULK_SIZE" "length (pb_deletions body) \<le> MAX_BULK_SIZE"
    using s by (auto simp: push_size_checks_def)
  show "validate_agent_id (pb_sender_agent_id body) = Inr ()" by (rule v)
qed

text \<open>Forged links never land as attested: after any push, every link that was not in the store before and is
  recorded as attested by a peer carries a signature that verifies, over its own fields, under the key enrolled on
  this host for its observer.\<close>

theorem attested_links_verified:
  assumes "sync_push env header body db = (r, db')" and "l \<in> set (db_links db')" "l \<notin> set (db_links db)"
    and "lr_attest_level l = Some ''peer_attested''"
  shows "link_verified env l"
proof -
  have "attested_ok env (set (db_links db)) db" by (simp add: attested_ok_def)
  from attest.sync_push_inv [OF this, of header body] assms show ?thesis by (auto simp: attested_ok_def)
qed

text \<open>A receiver with the keys of \<open>ex_crypto\<close> on which alice's public key is enrolled.\<close>

definition ex_env :: push_env where
  "ex_env = \<lparr>px_now = ''2026-01-03'', px_request_uuid = ''0123456789abcdef'', px_uuid = (\<lambda>n. ''u'' @ show_nat n),
     px_parse = (\<lambda>_. Some 0), px_ser = (\<lambda>_. []), px_mem_from_value = (\<lambda>_. Inl ''unsupported''),
     px_crypto = ex_crypto,
     px_read_file = (\<lambda>p. if p = ''k/alice.pub'' then Inr (replicate 32 0) else Inl NotFound),
     px_key_dir = Some ''k'', px_embedder = None\<rparr>"

definition ex_push :: push_body where
  "ex_push = \<lparr>pb_sender_agent_id = ''alice'', pb_memories = [], pb_deletions = [], pb_archives = [], pb_restores = [],
     pb_links = [], pb_pendings = [], pb_pending_decisions = [], pb_namespace_meta = [],
     pb_namespace_meta_clears = [], pb_dry_run = False\<rparr>"

lemma ex_env_anonymous:
  "resolve_http_agent_id (px_request_uuid ex_env) None None = Inr ''anonymous:req-01234567''"
  by code_simp

lemma ex_alice: "validate_agent_id ''alice'' = Inr ()"
  by code_simp

theorem sync_push_contract_witness:
  "let (r, db') = sync_push ex_env None (ex_push\<lparr>pb_deletions := [''m1'', []]\<rparr>) ex_db in
   db_ok db' \<and> (\<exists>rs. r = Inr rs \<and> ps_deleted (rs_counts rs) = 1 \<and> counted (rs_counts rs) = 2)"
proof -
  let ?b = "ex_push\<lparr>pb_deletions := [''m1'', []]\<rparr>"
  obtain r db' where p: "sync_push ex_env None ?b ex_db = (r, db')" by (rule prod.exhaust)
  have sz: "push_size_checks ?b = Inr ()" by (simp add: push_size_checks_def ex_push_def MAX_BULK_SIZE_def)
  have "\<exists>rs. r = Inr rs \<and> rs_counts rs = apply_push ex_env ?b ex_db"
    using p sz ex_env_anonymous ex_alice by (auto simp: sync_push_def Let_def ex_push_def)
  then obtain rs where rs: "r = Inr rs" "rs_counts rs = apply_push ex_env ?b ex_db" by blast
  have "apply_push ex_env ?b ex_db = push_deletion False [] (push_deletion False ''m1'' (push_start ex_db))"
    by (simp add: apply_push_def ex_push_def)
  moreover have "ps_deleted (push_deletion False [] (push_deletion False ''m1'' (push_start ex_db))) = 1" by code_simp
  ultimately have "ps_deleted (rs_counts rs) = 1" using rs(2) by simp
  moreover have "counted (rs_counts rs) = push_items ?b" "db_ok db'"
    using sync_push_contract [OF ex_db_ok p] rs(1) by auto
  ultimately show ?thesis using p rs(1) by (simp add: push_items_def ex_push_def)
qed

text \<open>A pushed memory that fails validation is skipped, and the push is answered with success all the same: the sender counts
  an acknowledgement of a memory that is not stored.\<close>

lemma skipped_memory_acknowledged:
  assumes "validate_memory (px_parse env) (px_ser env) mem \<noteq> Inr ()" "validate_agent_id s = Inr ()"
    and "resolve_http_agent_id (px_request_uuid env) None header = Inr a"
  shows "\<exists>rs. sync_push env header (ex_push\<lparr>pb_sender_agent_id := s, pb_memories := [mem]\<rparr>) db = (Inr rs, db)
    \<and> ps_applied (rs_counts rs) = 0 \<and> ps_skipped (rs_counts rs) = 1"
  using assms
  by (simp add: sync_push_def push_size_checks_def ex_push_def MAX_BULK_SIZE_def apply_push_def push_memory_def skip_def
      push_start_def Let_def split: option.split)

lemma export_signed:
  assumes "create_link_signed cr now db s t rel (Some kp) = (Inr lev, db')" "kp_private kp = Some sk"
    and "get_link_for_verify db s t rel = None"
    and "l \<in> set (export_links now' db')" "link_key l = (s, t, rel)"
  obtains sig where "lev = SelfSigned"
    and "sign_link cr kp (signable_of l (kp_agent_id kp) (Some now)) = Some sig"
    and "l_signature l = Some sig" "l_observed_by l = Some (kp_agent_id kp)" "l_valid_from l = Some now" "l_valid_until l = None"
proof -
  let ?S = "\<lparr>sg_src_id = s, sg_dst_id = t, sg_relation = rel, sg_observed_by = Some (kp_agent_id kp),
     sg_valid_from = Some now, sg_valid_until = None\<rparr>"
  have none: "x \<in> set (db_links db) \<Longrightarrow> link_key x \<noteq> (s, t, rel)" for x
    using assms(3) by (auto simp: get_link_for_verify_def sql_row_None link_key_def)
  obtain sig where sig: "sign_link cr kp ?S = Some sig"
    using assms(1,2) by (auto simp: create_link_signed_def can_sign_def Let_def split: if_splits option.splits)
  obtain x where x: "x \<in> set (db_links db')" "link_key x = (s, t, rel)"
    and lx: "l = \<lparr>l_source_id = l_source_id x, l_target_id = l_target_id x, l_relation = l_relation x,
                 l_created_at = l_created_at x, l_signature = l_signature x, l_observed_by = l_observed_by x,
                 l_valid_from = l_valid_from x, l_valid_until = l_valid_until x\<rparr>"
    using assms(4,5) by (auto simp: export_links_def Let_def link_key_def)
  have db': "lev = SelfSigned" "db_links db' = sql_insert_ignore link_key
      \<lparr>l_source_id = s, l_target_id = t, l_relation = rel, l_created_at = now, l_signature = Some sig,
       l_observed_by = Some (kp_agent_id kp), l_valid_from = Some now, l_valid_until = None,
       lr_attest_level = Some (attest_as_str SelfSigned)\<rparr> (db_links db)"
    using assms(1,2) sig by (auto simp: create_link_signed_def can_sign_def Let_def split: if_splits)
  then have "x = \<lparr>l_source_id = s, l_target_id = t, l_relation = rel, l_created_at = now, l_signature = Some sig,
       l_observed_by = Some (kp_agent_id kp), l_valid_from = Some now, l_valid_until = None,
       lr_attest_level = Some (attest_as_str SelfSigned)\<rparr>"
    using x none by (auto simp: sql_insert_ignore_def split: if_splits)
  with lx sig db'(1) show ?thesis by (intro that [of sig]) (simp_all add: signable_of_def)
qed

lemma inbound_attested:
  assumes "l_signature l = Some sig" "l_observed_by l = Some obs"
    and "lookup_peer_public_key (px_crypto env) (px_read_file env) (px_key_dir env) obs = Some pub"
    and "verify_link (px_crypto env) pub (signable_of l obs (l_valid_from l)) sig = Inr ()"
  shows "inbound_attest_level env l = Some PeerAttested"
  using assms by (simp add: inbound_attest_level_def signable_of_def)

lemma inbound_lands:
  assumes "link_key l = (s, t, rel)" "validate_link s t rel = Inr ()"
    and "mem_exists (ps_db st) s" "mem_exists (ps_db st) t" "get_link_for_verify (ps_db st) s t rel = None"
    and "inbound_attest_level env l = Some lev"
  shows "ps_links_applied (push_link env False l st) = ps_links_applied st + 1
    \<and> (\<exists>row. db_links (ps_db (push_link env False l st)) = db_links (ps_db st) @ [row] \<and> link_key row = (s, t, rel)
         \<and> lr_attest_level row = Some (attest_as_str lev))"
proof -
  have none: "(s, t, rel) \<notin> link_key ` set (db_links (ps_db st))"
    using assms(5) by (auto simp: get_link_for_verify_def sql_row_None link_key_def)
  then show ?thesis using assms(1-4,6)
    by (auto simp: push_link_def create_link_inbound_def sql_insert_ignore_def link_key_def)
qed

text \<open>A signed link keeps its attestation across nodes. A link one node creates and signs is exported with exactly the
  fields its signature covers, so a peer on which the signer's key is enrolled, which holds both memories and not yet the
  link, records it as attested by a peer.\<close>

theorem signed_link_attested_at_peer:
  assumes "create_link_signed cr now dbA s t rel (Some kp) = (Inr lev, dbA')" "kp_private kp = Some sk"
    and "get_link_for_verify dbA s t rel = None"
    and "l \<in> set (export_links now' dbA')" "link_key l = (s, t, rel)"
    and "px_crypto env = cr" "\<And>m. length (ed_sign cr sk m) = SIGNATURE_LEN"
    and "\<And>m. ed_verify cr (kp_public kp) m (ed_sign cr sk m)"
    and "lookup_peer_public_key cr (px_read_file env) (px_key_dir env) (kp_agent_id kp) = Some (kp_public kp)"
    and "validate_link s t rel = Inr ()" "mem_exists dbB s" "mem_exists dbB t" "get_link_for_verify dbB s t rel = None"
  shows "lev = SelfSigned \<and> ps_links_applied (push_link env False l (push_start dbB)) = 1
    \<and> map_option lv_attest_level (get_link_for_verify (ps_db (push_link env False l (push_start dbB))) s t rel)
        = Some (Some ''peer_attested'')"
proof -
  obtain sig where e: "lev = SelfSigned" "sign_link cr kp (signable_of l (kp_agent_id kp) (Some now)) = Some sig"
    "l_signature l = Some sig" "l_observed_by l = Some (kp_agent_id kp)" "l_valid_from l = Some now"
    by (rule export_signed [OF assms(1-5)])
  then have "verify_link cr (kp_public kp) (signable_of l (kp_agent_id kp) (l_valid_from l)) sig = Inr ()"
    using assms(2,7,8) by (auto simp: sign_link_def verify_link_def)
  then have lev: "inbound_attest_level env l = Some PeerAttested"
    using inbound_attested [OF e(3,4)] assms(6,9) by simp
  have st: "ps_db (push_start dbB) = dbB" "ps_links_applied (push_start dbB) = 0" by (simp_all add: push_start_def)
  from inbound_lands [OF assms(5,10), of "push_start dbB", unfolded st, OF assms(11,12,13) lev]
  obtain row where "ps_links_applied (push_link env False l (push_start dbB)) = 1"
    "db_links (ps_db (push_link env False l (push_start dbB))) = db_links dbB @ [row]"
    "link_key row = (s, t, rel)" "lr_attest_level row = Some ''peer_attested''" by auto
  moreover have "sql_row (\<lambda>l. l_source_id l = s \<and> l_target_id l = t \<and> l_relation l = rel) (db_links dbB) = None"
    using assms(13) by (simp add: get_link_for_verify_def)
  ultimately show ?thesis using e(1) by (simp add: get_link_for_verify_def sql_row_snoc link_key_def)
qed

definition ex_keypair :: AgentKeypair where
  "ex_keypair = \<lparr>kp_agent_id = ''alice'', kp_public = replicate 32 0, kp_private = Some (replicate 32 0)\<rparr>"

definition ex_signed :: Db where
  "ex_signed = snd (create_link_signed ex_crypto ''2026-01-02'' ex_db ''m1'' ''m2'' ''related_to'' (Some ex_keypair))"

lemma ex_signed_facts:
  "mem_exists ex_db ''m1''" "mem_exists ex_db ''m2''" "get_link_for_verify ex_db ''m1'' ''m2'' ''related_to'' = None"
  "validate_link ''m1'' ''m2'' ''related_to'' = Inr ()" "db_links ex_db = []"
  "map (\<lambda>r. (m_id r, not_expired ''2026-01-03'' r)) (db_memories ex_db) = [(''m1'', True), (''m2'', True)]"
  by code_simp+

lemma ex_lookup:
  "lookup_peer_public_key ex_crypto (px_read_file ex_env) (px_key_dir ex_env) ''alice'' = Some (replicate 32 0)"
  by (simp add: lookup_peer_public_key_def keypair_load_def ex_env_def ex_alice ex_crypto_def PUBLIC_KEY_LEN_def)

lemma ex_export:
  obtains l where "create_link_signed ex_crypto ''2026-01-02'' ex_db ''m1'' ''m2'' ''related_to'' (Some ex_keypair)
      = (Inr SelfSigned, ex_signed)"
    and "l \<in> set (export_links ''2026-01-03'' ex_signed)" "link_key l = (''m1'', ''m2'', ''related_to'')"
proof -
  obtain sig where "sign_link ex_crypto ex_keypair
      \<lparr>sg_src_id = ''m1'', sg_dst_id = ''m2'', sg_relation = ''related_to'', sg_observed_by = Some (kp_agent_id ex_keypair),
       sg_valid_from = Some ''2026-01-02'', sg_valid_until = None\<rparr> = Some sig"
    by (simp add: sign_link_def ex_keypair_def canonical_cbor_def ex_crypto_def)
  then have c: "create_link_signed ex_crypto ''2026-01-02'' ex_db ''m1'' ''m2'' ''related_to'' (Some ex_keypair)
      = (Inr SelfSigned, ex_db\<lparr>db_links := [\<lparr>l_source_id = ''m1'', l_target_id = ''m2'', l_relation = ''related_to'',
         l_created_at = ''2026-01-02'', l_signature = Some sig, l_observed_by = Some ''alice'',
         l_valid_from = Some ''2026-01-02'', l_valid_until = None, lr_attest_level = Some ''self_signed''\<rparr>]\<rparr>)"
    using ex_signed_facts by (simp add: create_link_signed_def can_sign_def ex_keypair_def Let_def sql_insert_ignore_def)
  have live: "map m_id (filter (not_expired ''2026-01-03'') (db_memories ex_db)) = [''m1'', ''m2'']"
    using ex_signed_facts(6) by (auto simp: map_eq_Cons_conv)
  show ?thesis
  proof (rule that)
    show "create_link_signed ex_crypto ''2026-01-02'' ex_db ''m1'' ''m2'' ''related_to'' (Some ex_keypair) = (Inr SelfSigned, ex_signed)"
      using c by (simp add: ex_signed_def)
    show "\<lparr>l_source_id = ''m1'', l_target_id = ''m2'', l_relation = ''related_to'', l_created_at = ''2026-01-02'',
        l_signature = Some sig, l_observed_by = Some ''alice'', l_valid_from = Some ''2026-01-02'', l_valid_until = None\<rparr>
        \<in> set (export_links ''2026-01-03'' ex_signed)"
      unfolding export_links_def ex_signed_def c Let_def using live by simp
  qed (simp add: link_key_def)
qed

theorem signed_link_attested_at_peer_witness:
  "\<exists>l \<in> set (export_links ''2026-01-03'' ex_signed).
     map_option lv_attest_level (get_link_for_verify (ps_db (push_link ex_env False l (push_start ex_db)))
       ''m1'' ''m2'' ''related_to'') = Some (Some ''peer_attested'')"
proof -
  obtain l where c: "create_link_signed ex_crypto ''2026-01-02'' ex_db ''m1'' ''m2'' ''related_to'' (Some ex_keypair)
      = (Inr SelfSigned, ex_signed)"
    and l: "l \<in> set (export_links ''2026-01-03'' ex_signed)" "link_key l = (''m1'', ''m2'', ''related_to'')"
    by (rule ex_export)
  have "kp_private ex_keypair = Some (replicate 32 0)" by (simp add: ex_keypair_def)
  note t = signed_link_attested_at_peer [OF c this ex_signed_facts(3) l, where env = ex_env and dbB = ex_db]
  have "map_option lv_attest_level (get_link_for_verify (ps_db (push_link ex_env False l (push_start ex_db)))
       ''m1'' ''m2'' ''related_to'') = Some (Some ''peer_attested'')"
    using t ex_signed_facts(1-4) ex_lookup
    by (simp add: ex_env_def [THEN arg_cong [of _ _ px_crypto]] ex_keypair_def) (simp add: ex_crypto_def SIGNATURE_LEN_def)
  with l(1) show ?thesis by blast
qed

theorem attested_links_verified_witness:
  "\<exists>l body db'. snd (sync_push ex_env None body ex_db) = db' \<and> l \<in> set (db_links db') \<and> link_verified ex_env l"
proof -
  obtain l where c: "create_link_signed ex_crypto ''2026-01-02'' ex_db ''m1'' ''m2'' ''related_to'' (Some ex_keypair)
      = (Inr SelfSigned, ex_signed)"
    and l: "l \<in> set (export_links ''2026-01-03'' ex_signed)" "link_key l = (''m1'', ''m2'', ''related_to'')"
    by (rule ex_export)
  have sk: "kp_private ex_keypair = Some (replicate 32 0)" by (simp add: ex_keypair_def)
  obtain sig where e: "sign_link ex_crypto ex_keypair (signable_of l (kp_agent_id ex_keypair) (Some ''2026-01-02'')) = Some sig"
    "l_signature l = Some sig" "l_observed_by l = Some (kp_agent_id ex_keypair)" "l_valid_from l = Some ''2026-01-02''"
    by (rule export_signed [OF c sk ex_signed_facts(3) l])
  have cr: "px_crypto ex_env = ex_crypto" by (simp add: ex_env_def)
  have "verify_link ex_crypto (replicate 32 0) (signable_of l ''alice'' (l_valid_from l)) sig = Inr ()"
    using e by (auto simp: sign_link_def verify_link_def ex_keypair_def ex_crypto_def SIGNATURE_LEN_def)
  with e ex_lookup have lev: "inbound_attest_level ex_env l = Some PeerAttested"
    by (intro inbound_attested) (auto simp: cr ex_keypair_def)
  let ?b = "ex_push\<lparr>pb_links := [l]\<rparr>"
  have ap: "apply_push ex_env ?b ex_db = push_link ex_env False l (push_start ex_db)"
    by (simp add: apply_push_def ex_push_def)
  have st: "ps_db (push_start ex_db) = ex_db" by (simp add: push_start_def)
  obtain row where row: "db_links (ps_db (push_link ex_env False l (push_start ex_db))) = [row]"
    "lr_attest_level row = Some ''peer_attested''"
    using inbound_lands [OF l(2) ex_signed_facts(4), of "push_start ex_db", unfolded st, OF ex_signed_facts(1-3) lev]
      ex_signed_facts(5) by auto
  obtain r db' where p: "sync_push ex_env None ?b ex_db = (r, db')" by (rule prod.exhaust)
  have "push_size_checks ?b = Inr ()" by (simp add: push_size_checks_def ex_push_def MAX_BULK_SIZE_def)
  moreover have "ps_latest_seen (push_link ex_env False l (push_start ex_db)) = None"
    by (auto simp: push_link_def push_start_def skip_def noop_def split: option.split prod.split sum.split)
  ultimately have "db_links db' = [row]"
    using p ex_env_anonymous ex_alice row(1) ap
    by (auto simp: sync_push_def Let_def ex_push_def ex_env_def [THEN arg_cong [of _ _ px_embedder]])
  then have "link_verified ex_env row"
    using attested_links_verified [OF p] row(2) ex_signed_facts(5) by simp
  then show ?thesis using p \<open>db_links db' = [row]\<close> by (metis list.set_intros(1) snd_conv)
qed

end
