(* ===== verification/Quotas.thy ===== *)
theory Quotas
  imports Sql
begin

text \<open>
  Per-agent quotas (\<open>src/quotas.rs\<close>). The table \<open>agent_quotas\<close> is a list of rows keyed by
  \<open>agent_id\<close>; the wall clock (\<open>chrono::Utc::now().to_rfc3339()\<close>) is the argument \<open>now\<close>. Rust-side
  additions wrap at 64 bits (\<^const>\<open>i64_add\<close>), SQL-side assignments are exact. A call of
  \<open>check_and_record\<close> is one atomic transition, because \<open>BEGIN IMMEDIATE\<close> serializes writers and an
  error rolls the transaction back.
\<close>

definition DEFAULT_MAX_MEMORIES_PER_DAY :: int where "DEFAULT_MAX_MEMORIES_PER_DAY = 1000"
definition DEFAULT_MAX_STORAGE_BYTES :: int where "DEFAULT_MAX_STORAGE_BYTES = 100 * 1024 * 1024"
definition DEFAULT_MAX_LINKS_PER_DAY :: int where "DEFAULT_MAX_LINKS_PER_DAY = 5000"

datatype QuotaOp = MemoryOp int | LinkOp

datatype QuotaLimit = MemoriesPerDay | StorageBytes | LinksPerDay

record QuotaError =
  qe_agent_id :: str
  qe_limit :: QuotaLimit
  qe_current :: int
  qe_max :: int

datatype QuotaCheckError = Quota QuotaError | SqlError

record QuotaStatus =
  q_agent_id :: str
  q_max_memories_per_day :: int
  q_max_storage_bytes :: int
  q_max_links_per_day :: int
  q_current_memories_today :: int
  q_current_storage_bytes :: int
  q_current_links_today :: int
  q_day_started_at :: str
  q_created_at :: str
  q_updated_at :: str

type_synonym quota_table = "QuotaStatus list"

definition load_row :: "quota_table \<Rightarrow> str \<Rightarrow> QuotaStatus option" where
  "load_row t agent_id = sql_row (\<lambda>r. q_agent_id r = agent_id) t"

text \<open>\<open>str::get(..10)\<close> is \<open>None\<close> past the end or inside a character; then the whole string is used.\<close>

definition day_bucket :: "str \<Rightarrow> str" where
  "day_bucket rfc3339 =
     (if length rfc3339 < 10
         \<or> (10 < length rfc3339 \<and> 128 \<le> byte_of (rfc3339 ! 10) \<and> byte_of (rfc3339 ! 10) < 192)
      then rfc3339 else take 10 rfc3339)"

definition default_row :: "str \<Rightarrow> str \<Rightarrow> QuotaStatus" where
  "default_row now agent_id =
     \<lparr>q_agent_id = agent_id,
      q_max_memories_per_day = DEFAULT_MAX_MEMORIES_PER_DAY,
      q_max_storage_bytes = DEFAULT_MAX_STORAGE_BYTES,
      q_max_links_per_day = DEFAULT_MAX_LINKS_PER_DAY,
      q_current_memories_today = 0, q_current_storage_bytes = 0, q_current_links_today = 0,
      q_day_started_at = day_bucket now, q_created_at = now, q_updated_at = now\<rparr>"

definition ensure_row :: "str \<Rightarrow> quota_table \<Rightarrow> str \<Rightarrow> QuotaStatus option \<times> quota_table" where
  "ensure_row now t agent_id =
     (case load_row t agent_id of
        Some row \<Rightarrow> (Some row, t)
      | None \<Rightarrow>
          let t' = sql_insert_ignore q_agent_id (default_row now agent_id) t
          in (load_row t' agent_id, t'))"

text \<open>The limit checks shared by \<open>check_quota\<close> and \<open>check_and_record\<close>, on today's counters.\<close>

definition over_limit :: "str \<Rightarrow> QuotaStatus \<Rightarrow> int \<Rightarrow> int \<Rightarrow> QuotaOp \<Rightarrow> QuotaError option" where
  "over_limit agent_id row memories_today links_today op =
     (case op of
        MemoryOp bytes \<Rightarrow>
          if i64_add memories_today 1 > q_max_memories_per_day row
          then Some \<lparr>qe_agent_id = agent_id, qe_limit = MemoriesPerDay,
                     qe_current = memories_today, qe_max = q_max_memories_per_day row\<rparr>
          else if i64_add (q_current_storage_bytes row) bytes > q_max_storage_bytes row
          then Some \<lparr>qe_agent_id = agent_id, qe_limit = StorageBytes,
                     qe_current = q_current_storage_bytes row, qe_max = q_max_storage_bytes row\<rparr>
          else None
      | LinkOp \<Rightarrow>
          if i64_add links_today 1 > q_max_links_per_day row
          then Some \<lparr>qe_agent_id = agent_id, qe_limit = LinksPerDay,
                     qe_current = links_today, qe_max = q_max_links_per_day row\<rparr>
          else None)"

definition check_quota ::
    "str \<Rightarrow> quota_table \<Rightarrow> str \<Rightarrow> QuotaOp \<Rightarrow> QuotaCheckError check \<times> quota_table" where
  "check_quota now t agent_id op =
     (case ensure_row now t agent_id of
        (None, t') \<Rightarrow> (Inl SqlError, t')
      | (Some row, t') \<Rightarrow>
          let today = day_bucket now;
              stored_day = day_bucket (q_day_started_at row);
              (memories_today, links_today) =
                (if stored_day = today
                 then (q_current_memories_today row, q_current_links_today row) else (0, 0))
          in case over_limit agent_id row memories_today links_today op of
               Some e \<Rightarrow> (Inl (Quota e), t')
             | None \<Rightarrow> (Inr (), t'))"

text \<open>The counter \<open>UPDATE\<close> statements, with and without the roll to a new day.\<close>

definition charge :: "str \<Rightarrow> bool \<Rightarrow> QuotaOp \<Rightarrow> QuotaStatus \<Rightarrow> QuotaStatus" where
  "charge now day_rolled op row =
     (case op of
        MemoryOp bytes \<Rightarrow>
          if day_rolled
          then row\<lparr>q_current_memories_today := 1, q_current_links_today := 0,
                   q_current_storage_bytes := q_current_storage_bytes row + bytes,
                   q_day_started_at := now, q_updated_at := now\<rparr>
          else row\<lparr>q_current_memories_today := q_current_memories_today row + 1,
                   q_current_storage_bytes := q_current_storage_bytes row + bytes,
                   q_updated_at := now\<rparr>
      | LinkOp \<Rightarrow>
          if day_rolled
          then row\<lparr>q_current_memories_today := 0, q_current_links_today := 1,
                   q_day_started_at := now, q_updated_at := now\<rparr>
          else row\<lparr>q_current_links_today := q_current_links_today row + 1, q_updated_at := now\<rparr>)"

text \<open>
  \<open>check_and_record\<close>: the row is created outside the transaction; inside it the row is read,
  checked and charged. Committing returns the charged table, rolling back the one before.
\<close>

definition check_and_record ::
    "str \<Rightarrow> quota_table \<Rightarrow> str \<Rightarrow> QuotaOp \<Rightarrow> QuotaCheckError check \<times> quota_table" where
  "check_and_record now t agent_id op =
     (case ensure_row now t agent_id of
        (None, t') \<Rightarrow> (Inl SqlError, t')
      | (Some _, t') \<Rightarrow>
          (case load_row t' agent_id of
             None \<Rightarrow> (Inl SqlError, t')
           | Some row \<Rightarrow>
               let today = day_bucket now;
                   stored_day = day_bucket (q_day_started_at row);
                   day_rolled = (stored_day \<noteq> today);
                   (memories_today, links_today) =
                     (if day_rolled then (0, 0)
                      else (q_current_memories_today row, q_current_links_today row))
               in case over_limit agent_id row memories_today links_today op of
                    Some e \<Rightarrow> (Inl (Quota e), t')
                  | None \<Rightarrow>
                      (Inr (), sql_update (\<lambda>r. q_agent_id r = agent_id) (charge now day_rolled op) t')))"

definition refund_row :: "str \<Rightarrow> QuotaOp \<Rightarrow> QuotaStatus \<Rightarrow> QuotaStatus" where
  "refund_row now op row =
     (case op of
        MemoryOp bytes \<Rightarrow>
          row\<lparr>q_current_memories_today := max (q_current_memories_today row - 1) 0,
              q_current_storage_bytes := max (q_current_storage_bytes row - bytes) 0,
              q_updated_at := now\<rparr>
      | LinkOp \<Rightarrow>
          row\<lparr>q_current_links_today := max (q_current_links_today row - 1) 0, q_updated_at := now\<rparr>)"

definition refund_op :: "str \<Rightarrow> quota_table \<Rightarrow> str \<Rightarrow> QuotaOp \<Rightarrow> quota_table" where
  "refund_op now t agent_id op = sql_update (\<lambda>r. q_agent_id r = agent_id) (refund_row now op) t"

definition record_op :: "str \<Rightarrow> quota_table \<Rightarrow> str \<Rightarrow> QuotaOp \<Rightarrow> quota_table" where
  "record_op now t agent_id op =
     (case ensure_row now t agent_id of
        (None, t') \<Rightarrow> t'
      | (Some row, t') \<Rightarrow>
          let day_rolled = (day_bucket (q_day_started_at row) \<noteq> day_bucket now)
          in sql_update (\<lambda>r. q_agent_id r = agent_id) (charge now day_rolled op) t')"

text \<open>\<open>substr(day_started_at, 1, 10)\<close>; the column holds ASCII timestamps.\<close>

definition stale_day :: "str \<Rightarrow> QuotaStatus \<Rightarrow> bool" where
  "stale_day now r = (take 10 (q_day_started_at r) \<noteq> day_bucket now)"

definition reset_row :: "str \<Rightarrow> QuotaStatus \<Rightarrow> QuotaStatus" where
  "reset_row now row =
     row\<lparr>q_current_memories_today := 0, q_current_links_today := 0,
         q_day_started_at := now, q_updated_at := now\<rparr>"

definition reset_daily :: "str \<Rightarrow> quota_table \<Rightarrow> nat \<times> quota_table" where
  "reset_daily now t = (sql_count (stale_day now) t, sql_update (stale_day now) (reset_row now) t)"

definition get_status :: "str \<Rightarrow> quota_table \<Rightarrow> str \<Rightarrow> QuotaStatus option \<times> quota_table" where
  "get_status now t agent_id = ensure_row now t agent_id"

definition list_status :: "quota_table \<Rightarrow> QuotaStatus list" where
  "list_status t = sort_key q_agent_id t"

section \<open>Invariants and correctness\<close>

text \<open>The statements of this table keep its primary key.\<close>

interpretation charge_key: key_preserving q_agent_id "charge now rolled op" for now rolled op
  by unfold_locales (auto simp: charge_def split: QuotaOp.splits)

interpretation refund_key: key_preserving q_agent_id "refund_row now op" for now op
  by unfold_locales (auto simp: refund_row_def split: QuotaOp.splits)

interpretation reset_key: key_preserving q_agent_id "reset_row now" for now
  by unfold_locales (auto simp: reset_row_def)

text \<open>Limits that leave room for one more unit without wrapping; every compiled default does.\<close>

definition limits_ok :: "QuotaStatus \<Rightarrow> bool" where
  "limits_ok r = (0 \<le> q_max_memories_per_day r \<and> q_max_memories_per_day r < 2 ^ 62
     \<and> 0 \<le> q_max_storage_bytes r \<and> q_max_storage_bytes r < 2 ^ 62
     \<and> 0 \<le> q_max_links_per_day r \<and> q_max_links_per_day r < 2 ^ 62)"

text \<open>Every counter lies between zero and its limit.\<close>

definition within_limits :: "QuotaStatus \<Rightarrow> bool" where
  "within_limits r = (0 \<le> q_current_memories_today r
     \<and> q_current_memories_today r \<le> q_max_memories_per_day r
     \<and> 0 \<le> q_current_storage_bytes r \<and> q_current_storage_bytes r \<le> q_max_storage_bytes r
     \<and> 0 \<le> q_current_links_today r \<and> q_current_links_today r \<le> q_max_links_per_day r)"

definition quota_inv :: "quota_table \<Rightarrow> bool" where
  "quota_inv t = (unique_key q_agent_id t \<and> (\<forall>r \<in> set t. limits_ok r \<and> within_limits r))"

text \<open>An operation the store can issue: a payload of a non-negative, bounded number of bytes.\<close>

fun op_ok :: "QuotaOp \<Rightarrow> bool" where
  "op_ok (MemoryOp bytes) = (0 \<le> bytes \<and> bytes < 2 ^ 62)"
| "op_ok LinkOp = True"

lemma default_row_ok: "limits_ok (default_row now a) \<and> within_limits (default_row now a)"
  by (simp add: limits_ok_def within_limits_def default_row_def DEFAULT_MAX_MEMORIES_PER_DAY_def
      DEFAULT_MAX_STORAGE_BYTES_def DEFAULT_MAX_LINKS_PER_DAY_def)

lemma q_agent_id_default [simp]: "q_agent_id (default_row now a) = a"
  by (simp add: default_row_def)

lemma quota_inv_insert: "quota_inv t \<Longrightarrow> quota_inv (sql_insert_ignore q_agent_id (default_row now a) t)"
  using default_row_ok unique_key_insert_ignore [of q_agent_id t "default_row now a"]
  by (auto simp: quota_inv_def sql_insert_ignore_def)

lemma ensure_row_total:
  obtains row where "ensure_row now t a = (Some row, snd (ensure_row now t a))"
    and "load_row (snd (ensure_row now t a)) a = Some row"
    and "q_agent_id row = a"
  by (cases "load_row t a")
    (auto simp: ensure_row_def Let_def load_row_def sql_row_insert_ignore dest: sql_row_SomeD)

lemma ensure_row_inv: "quota_inv t \<Longrightarrow> quota_inv (snd (ensure_row now t a))"
  by (auto simp: ensure_row_def Let_def quota_inv_insert split: option.split)

lemma ensure_row_other: "b \<noteq> a \<Longrightarrow> load_row (snd (ensure_row now t a)) b = load_row t b"
  by (auto simp: ensure_row_def Let_def load_row_def sql_row_insert_ignore split: option.split)

lemma ensure_row_present: "load_row t a = Some row \<Longrightarrow> ensure_row now t a = (Some row, t)"
  by (simp add: ensure_row_def)

text \<open>The row a call sees: the stored one, or the default row it creates.\<close>

definition row_for :: "str \<Rightarrow> quota_table \<Rightarrow> str \<Rightarrow> QuotaStatus" where
  "row_for now t a = (case load_row t a of Some r \<Rightarrow> r | None \<Rightarrow> default_row now a)"

lemma load_ensure_row: "load_row (snd (ensure_row now t a)) a = Some (row_for now t a)"
  by (auto simp: ensure_row_def Let_def load_row_def row_for_def sql_row_insert_ignore split: option.split)

lemma fst_ensure_row: "fst (ensure_row now t a) = Some (row_for now t a)"
  by (auto simp: ensure_row_def Let_def load_row_def row_for_def sql_row_insert_ignore split: option.split)

text \<open>Today's counters of a row, as every check computes them.\<close>

definition rolled :: "str \<Rightarrow> QuotaStatus \<Rightarrow> bool" where
  "rolled now r = (day_bucket (q_day_started_at r) \<noteq> day_bucket now)"

definition memories_today :: "str \<Rightarrow> QuotaStatus \<Rightarrow> int" where
  "memories_today now r = (if rolled now r then 0 else q_current_memories_today r)"

definition links_today :: "str \<Rightarrow> QuotaStatus \<Rightarrow> int" where
  "links_today now r = (if rolled now r then 0 else q_current_links_today r)"

definition verdict :: "str \<Rightarrow> str \<Rightarrow> QuotaOp \<Rightarrow> QuotaStatus \<Rightarrow> QuotaError option" where
  "verdict now a op r = over_limit a r (memories_today now r) (links_today now r) op"

lemma check_and_record_eq:
  "check_and_record now t a op =
     (let t' = snd (ensure_row now t a); r = row_for now t a in
      case verdict now a op r of
        Some e \<Rightarrow> (Inl (Quota e), t')
      | None \<Rightarrow> (Inr (), sql_update (\<lambda>r. q_agent_id r = a) (charge now (rolled now r) op) t'))"
proof -
  have e: "ensure_row now t a = (Some (row_for now t a), snd (ensure_row now t a))"
    using fst_ensure_row [of now t a] by (metis prod.collapse)
  show ?thesis
    unfolding check_and_record_def
    by (subst e) (auto simp: load_ensure_row Let_def verdict_def memories_today_def links_today_def
        rolled_def split: option.splits)
qed

lemma check_quota_eq:
  "check_quota now t a op =
     (case verdict now a op (row_for now t a) of
        Some e \<Rightarrow> (Inl (Quota e), snd (ensure_row now t a))
      | None \<Rightarrow> (Inr (), snd (ensure_row now t a)))"
proof -
  have e: "ensure_row now t a = (Some (row_for now t a), snd (ensure_row now t a))"
    using fst_ensure_row [of now t a] by (metis prod.collapse)
  show ?thesis
    unfolding check_quota_def
    by (subst e) (auto simp: Let_def verdict_def memories_today_def links_today_def rolled_def
        split: option.splits)
qed

text \<open>Under the invariant nothing wraps, so the verdict is the arithmetic comparison.\<close>

lemma verdict_None_iff:
  assumes "limits_ok r" "within_limits r" "op_ok op"
  shows "verdict now a op r = None \<longleftrightarrow>
    (case op of
       MemoryOp bytes \<Rightarrow> memories_today now r + 1 \<le> q_max_memories_per_day r
         \<and> q_current_storage_bytes r + bytes \<le> q_max_storage_bytes r
     | LinkOp \<Rightarrow> links_today now r + 1 \<le> q_max_links_per_day r)"
proof (cases op)
  case (MemoryOp bytes)
  have "in_i64 (memories_today now r + 1)" "in_i64 (q_current_storage_bytes r + bytes)"
    using assms MemoryOp
    by (auto simp: in_i64_def memories_today_def limits_ok_def within_limits_def)
  then show ?thesis by (auto simp: MemoryOp verdict_def over_limit_def i64_add_exact)
next
  case LinkOp
  have "in_i64 (links_today now r + 1)"
    using assms by (auto simp: in_i64_def links_today_def limits_ok_def within_limits_def)
  then show ?thesis by (auto simp: LinkOp verdict_def over_limit_def i64_add_exact)
qed

lemma charge_within:
  assumes "limits_ok r" "within_limits r" "op_ok op" "verdict now a op r = None"
  shows "limits_ok (charge now (rolled now r) op r) \<and> within_limits (charge now (rolled now r) op r)"
  using assms verdict_None_iff [OF assms(1-3), of now a]
  by (cases op)
    (auto simp: charge_def limits_ok_def within_limits_def memories_today_def links_today_def
      split: if_splits)

lemma row_for_ok: "quota_inv t \<Longrightarrow> limits_ok (row_for now t a) \<and> within_limits (row_for now t a)"
  using default_row_ok
  by (auto simp: row_for_def quota_inv_def load_row_def dest: sql_row_SomeD split: option.split)

lemma load_row_unique:
  "unique_key q_agent_id t \<Longrightarrow> r \<in> set t \<Longrightarrow> load_row t (q_agent_id r) = Some r"
  unfolding load_row_def by (rule sql_row_unique)

lemma check_and_record_inv:
  assumes inv: "quota_inv t" and op: "op_ok op"
  shows "quota_inv (snd (check_and_record now t a op))"
proof -
  let ?t = "snd (ensure_row now t a)" and ?r = "row_for now t a"
  have inv': "quota_inv ?t" using inv by (rule ensure_row_inv)
  show ?thesis
  proof (cases "verdict now a op ?r")
    case (Some e)
    then show ?thesis using inv' by (simp add: check_and_record_eq Let_def)
  next
    case None
    let ?f = "charge now (rolled now ?r) op"
    have "\<forall>r \<in> set (sql_update (\<lambda>r. q_agent_id r = a) ?f ?t). limits_ok r \<and> within_limits r"
    proof (rule charge_key.update_preserves)
      show "\<forall>r \<in> set ?t. limits_ok r \<and> within_limits r" using inv' by (simp add: quota_inv_def)
    next
      fix r assume r: "r \<in> set ?t" "q_agent_id r = a" "limits_ok r \<and> within_limits r"
      then have "load_row ?t a = Some r"
        using inv' load_row_unique by (auto simp: quota_inv_def)
      then have "r = ?r" by (simp add: load_ensure_row)
      then show "limits_ok (?f r) \<and> within_limits (?f r)"
        using charge_within [OF _ _ op None] r(3) by simp
    qed
    then show ?thesis
      using None inv' by (simp add: check_and_record_eq Let_def quota_inv_def charge_key.unique_update)
  qed
qed

lemma refund_op_inv:
  assumes "quota_inv t" and "op_ok op"
  shows "quota_inv (refund_op now t a op)"
  using assms unfolding quota_inv_def refund_op_def
  by (intro conjI refund_key.unique_update refund_key.update_preserves)
    (cases op; auto simp: refund_row_def limits_ok_def within_limits_def)+

lemma reset_daily_inv: "quota_inv t \<Longrightarrow> quota_inv (snd (reset_daily now t))"
  unfolding quota_inv_def reset_daily_def snd_conv
  by (intro conjI reset_key.unique_update reset_key.update_preserves)
    (auto simp: reset_row_def limits_ok_def within_limits_def)

subsection \<open>The quota service as a state machine\<close>

text \<open>
  The transitions the daemon makes on the table: the atomic charge, the refund of an operation
  whose write failed, the midnight sweep and the status query, in any order and at any time.
\<close>

inductive quota_step :: "quota_table \<Rightarrow> quota_table \<Rightarrow> bool" where
  step_charge: "op_ok op \<Longrightarrow> quota_step t (snd (check_and_record now t a op))"
| step_refund: "op_ok op \<Longrightarrow> quota_step t (refund_op now t a op)"
| step_reset: "quota_step t (snd (reset_daily now t))"
| step_status: "quota_step t (snd (get_status now t a))"

inductive quota_reachable :: "quota_table \<Rightarrow> bool" where
  reach_empty: "quota_reachable []"
| reach_step: "quota_reachable t \<Longrightarrow> quota_step t t' \<Longrightarrow> quota_reachable t'"

lemma quota_step_inv: "quota_step t t' \<Longrightarrow> quota_inv t \<Longrightarrow> quota_inv t'"
  by (induction rule: quota_step.induct)
    (auto simp: check_and_record_inv refund_op_inv reset_daily_inv get_status_def ensure_row_inv)

lemma quota_reachable_inv: "quota_reachable t \<Longrightarrow> quota_inv t"
proof (induction rule: quota_reachable.induct)
  case reach_empty
  show ?case by (simp add: quota_inv_def)
next
  case (reach_step t t')
  then show ?case by (blast intro: quota_step_inv)
qed

subsection \<open>Daily accounting\<close>

text \<open>
  A day's traffic: a list of charges (timestamp, agent, operation); the run returns the table and,
  per call, whether it was admitted.
\<close>

fun quota_run :: "quota_table \<Rightarrow> (str \<times> str \<times> QuotaOp) list \<Rightarrow> bool list \<times> quota_table" where
  "quota_run t [] = ([], t)"
| "quota_run t ((now, a, op) # evs) =
     (let (r, t') = check_and_record now t a op; (rs, t'') = quota_run t' evs
      in (is_ok r # rs, t''))"

definition is_memory_of :: "str \<Rightarrow> str \<times> str \<times> QuotaOp \<Rightarrow> bool" where
  "is_memory_of a ev = (fst (snd ev) = a \<and> (\<exists>b. snd (snd ev) = MemoryOp b))"

definition admitted_memories :: "str \<Rightarrow> (str \<times> str \<times> QuotaOp) list \<Rightarrow> bool list \<Rightarrow> nat" where
  "admitted_memories a evs oks = length (filter (\<lambda>(ev, ok). ok \<and> is_memory_of a ev) (zip evs oks))"

text \<open>What one charge does to the row of an agent, seen on the same day.\<close>

lemma check_and_record_row:
  "load_row (snd (check_and_record now t a op)) a =
     Some (if verdict now a op (row_for now t a) = None
           then charge now (rolled now (row_for now t a)) op (row_for now t a) else row_for now t a)"
  using load_ensure_row [of now t a] charge_key.row_update_key [of a]
  by (auto simp: check_and_record_eq Let_def load_row_def split: option.split)

lemma check_and_record_row_other:
  "b \<noteq> a \<Longrightarrow> load_row (snd (check_and_record now t a op)) b = load_row t b"
proof -
  assume ne: "b \<noteq> a"
  have "sql_row (\<lambda>r. q_agent_id r = b) (sql_update (\<lambda>r. q_agent_id r = a) (charge now d op) t')
      = sql_row (\<lambda>r. q_agent_id r = b) t'" for d t'
    using ne by (intro charge_key.row_update_other) auto
  then show ?thesis
    using ensure_row_other [OF ne, of now t]
    by (auto simp: check_and_record_eq Let_def load_row_def split: option.split)
qed

lemma memories_today_charge:
  assumes "day_bucket now' = day_bucket now"
  shows "memories_today now' (charge now (rolled now r) op r) =
    memories_today now r + (case op of MemoryOp _ \<Rightarrow> 1 | LinkOp \<Rightarrow> 0)"
  using assms by (auto simp: memories_today_def rolled_def charge_def split: QuotaOp.splits)

lemma max_memories_charge [simp]: "q_max_memories_per_day (charge now d op r) = q_max_memories_per_day r"
  by (auto simp: charge_def split: QuotaOp.splits)

lemma memories_today_day: "day_bucket n = day_bucket m \<Longrightarrow> memories_today n r = memories_today m r"
  by (simp add: memories_today_def rolled_def)

lemma memories_today_default [simp]: "memories_today n (default_row m a) = 0"
  by (simp add: memories_today_def default_row_def)

lemma row_for_Some: "load_row t a = Some r \<Longrightarrow> row_for now t a = r"
  by (simp add: row_for_def)

lemma check_and_record_ok:
  "is_ok (fst (check_and_record now t a op)) = (verdict now a op (row_for now t a) = None)"
  by (auto simp: check_and_record_eq Let_def split: option.split)

definition mem_count :: "str \<Rightarrow> quota_table \<Rightarrow> str \<Rightarrow> int" where
  "mem_count now t a = memories_today now (row_for now t a)"

definition mem_limit :: "quota_table \<Rightarrow> str \<Rightarrow> int" where
  "mem_limit t a = (case load_row t a of Some r \<Rightarrow> q_max_memories_per_day r
     | None \<Rightarrow> DEFAULT_MAX_MEMORIES_PER_DAY)"

lemma mem_limit_row_for: "mem_limit t a = q_max_memories_per_day (row_for now t a)"
  by (auto simp: mem_limit_def row_for_def default_row_def split: option.split)

lemma mem_count_charge:
  assumes "day_bucket now' = day_bucket now"
  shows "mem_count now (snd (check_and_record now' t b op)) a = mem_count now t a
    + (if is_ok (fst (check_and_record now' t b op)) \<and> is_memory_of a (now', b, op) then 1 else 0)"
proof (cases "a = b")
  case False
  then show ?thesis
    by (simp add: mem_count_def row_for_def check_and_record_row_other is_memory_of_def)
next
  case True
  let ?r = "row_for now' t b" and ?t = "snd (check_and_record now' t b op)"
  have eq: "memories_today now ?r = mem_count now t b"
    by (auto simp: mem_count_def row_for_def split: option.split)
  have new: "mem_count now ?t b = memories_today now
      (if verdict now' b op ?r = None then charge now' (rolled now' ?r) op ?r else ?r)"
    unfolding mem_count_def by (subst row_for_Some [OF check_and_record_row]) simp
  show ?thesis
    using memories_today_charge [OF assms [symmetric], of ?r op] memories_today_day [OF assms, of ?r]
    by (auto simp: True new eq check_and_record_ok is_memory_of_def split: QuotaOp.splits)
qed

lemma mem_limit_charge: "mem_limit (snd (check_and_record now t b op)) a = mem_limit t a"
proof (cases "a = b")
  case True
  then show ?thesis
    using check_and_record_row [of now t b op] mem_limit_row_for [of t b now]
    by (simp add: mem_limit_def)
qed (simp add: mem_limit_def check_and_record_row_other)

lemma mem_count_bounds: "quota_inv t \<Longrightarrow> 0 \<le> mem_count now t a \<and> mem_count now t a \<le> mem_limit t a"
  using row_for_ok [of t now a] mem_limit_row_for [of t a now]
  by (auto simp: mem_count_def memories_today_def within_limits_def limits_ok_def)

lemma quota_run_count:
  assumes "quota_run t evs = (oks, t')" and "quota_inv t"
    and "\<forall>(now', b, op) \<in> set evs. day_bucket now' = day_bucket now \<and> op_ok op"
  shows "mem_count now t' a = mem_count now t a + int (admitted_memories a evs oks)
    \<and> mem_limit t' a = mem_limit t a \<and> quota_inv t'"
  using assms
proof (induction t evs arbitrary: oks t' rule: quota_run.induct)
  case (1 t)
  then show ?case by (simp add: admitted_memories_def)
next
  case (2 t now' b op evs)
  obtain r t1 where r: "check_and_record now' t b op = (r, t1)" by fastforce
  obtain rs t2 where rs: "quota_run t1 evs = (rs, t2)" by fastforce
  have eqs: "oks = is_ok r # rs" "t' = t2" using "2.prems"(1) by (simp_all add: r rs)
  have day: "day_bucket now' = day_bucket now" and op: "op_ok op" using "2.prems"(3) by auto
  have inv1: "quota_inv t1" using check_and_record_inv [OF "2.prems"(2) op, of now' b] by (simp add: r)
  have IH: "mem_count now t2 a = mem_count now t1 a + int (admitted_memories a evs rs)
      \<and> mem_limit t2 a = mem_limit t1 a \<and> quota_inv t2"
    using "2.IH" [OF r [symmetric] refl rs inv1] "2.prems"(3) by simp
  have c: "mem_count now t1 a = mem_count now t a
      + (if is_ok r \<and> is_memory_of a (now', b, op) then 1 else 0)"
    using mem_count_charge [OF day, of t b op a] by (simp add: r)
  have l: "mem_limit t1 a = mem_limit t a" using mem_limit_charge [of now' t b op a] by (simp add: r)
  show ?case using IH c l by (simp add: eqs admitted_memories_def)
qed

subsection \<open>Refunds\<close>

lemma refund_op_row: "load_row (refund_op now t a op) a = map_option (refund_row now op) (load_row t a)"
  unfolding refund_op_def load_row_def by (rule refund_key.row_update_key)

lemma refund_charge_counters:
  assumes "within_limits r" "op_ok op"
  shows "let r' = refund_row now2 op (charge now (rolled now r) op r) in
     q_current_storage_bytes r' = q_current_storage_bytes r
     \<and> memories_today now r' = memories_today now r \<and> links_today now r' = links_today now r"
  using assms
  by (cases op) (auto simp: Let_def refund_row_def charge_def memories_today_def links_today_def
      rolled_def within_limits_def)

section \<open>Properties\<close>

text \<open>C11: In every state the quota service can reach by charges, refunds, daily resets and status
  queries, each agent has one row and every counter lies between zero and its limit.\<close>

theorem quota_counters_bounded:
  assumes "quota_reachable t" and "r \<in> set t"
  shows "load_row t (q_agent_id r) = Some r
    \<and> 0 \<le> q_current_memories_today r \<and> q_current_memories_today r \<le> q_max_memories_per_day r
    \<and> 0 \<le> q_current_storage_bytes r \<and> q_current_storage_bytes r \<le> q_max_storage_bytes r
    \<and> 0 \<le> q_current_links_today r \<and> q_current_links_today r \<le> q_max_links_per_day r"
proof -
  from assms(1) have inv: "quota_inv t" by (rule quota_reachable_inv)
  with assms(2) have "load_row t (q_agent_id r) = Some r"
    by (intro load_row_unique) (auto simp: quota_inv_def)
  with inv assms(2) show ?thesis by (auto simp: quota_inv_def within_limits_def)
qed

theorem quota_counters_bounded_witness:
  "let t = snd (check_and_record ''2026-05-01T10:00:00Z'' [] ''alice'' (MemoryOp 7)) in
   load_row t ''alice'' = Some (hd t) \<and> q_current_storage_bytes (hd t) = 7
   \<and> q_current_storage_bytes (hd t) \<le> q_max_storage_bytes (hd t)"
proof -
  let ?t = "snd (check_and_record ''2026-05-01T10:00:00Z'' [] ''alice'' (MemoryOp 7))"
  have r: "quota_reachable ?t" by (rule reach_step [OF reach_empty step_charge]) simp
  have v: "?t \<noteq> [] \<and> q_agent_id (hd ?t) = ''alice'' \<and> q_current_storage_bytes (hd ?t) = 7" by code_simp
  then show ?thesis using quota_counters_bounded [OF r, of "hd ?t"] by (auto simp: Let_def)
qed

text \<open>C12: Over any sequence of charges made on one calendar day, in any interleaving of agents, the
  number of memories admitted for an agent plus those already counted that day never exceeds the
  agent's daily limit, and the stored counter is exactly that number.\<close>

theorem daily_admission_bound:
  assumes "quota_reachable t" and "quota_run t evs = (oks, t')"
    and "\<forall>(now', b, op) \<in> set evs. day_bucket now' = day_bucket now \<and> op_ok op"
  shows "mem_count now t' a = mem_count now t a + int (admitted_memories a evs oks)
    \<and> mem_count now t a + int (admitted_memories a evs oks) \<le> mem_limit t a"
  using quota_run_count [OF assms(2) quota_reachable_inv [OF assms(1)] assms(3), of a]
    mem_count_bounds [of t' now a] by simp

theorem daily_admission_bound_witness:
  "let evs = [(''2026-05-01T10:00:00Z'', ''alice'', MemoryOp 7),
              (''2026-05-01T11:00:00Z'', ''bob'', MemoryOp 1),
              (''2026-05-01T12:00:00Z'', ''alice'', MemoryOp 9)];
       (oks, t') = quota_run [] evs
   in mem_count ''2026-05-01T13:00:00Z'' t' ''alice'' = 2
      \<and> admitted_memories ''alice'' evs oks = 2 \<and> 2 \<le> mem_limit [] ''alice''"
proof -
  let ?evs = "[(''2026-05-01T10:00:00Z'', ''alice'', MemoryOp 7),
              (''2026-05-01T11:00:00Z'', ''bob'', MemoryOp 1),
              (''2026-05-01T12:00:00Z'', ''alice'', MemoryOp 9)]"
  let ?now = "''2026-05-01T13:00:00Z''"
  obtain oks t' where run: "quota_run [] ?evs = (oks, t')" by fastforce
  have oks: "fst (quota_run [] ?evs) = [True, True, True]" by code_simp
  have n: "admitted_memories ''alice'' ?evs oks = 2"
    using oks run by (simp add: admitted_memories_def is_memory_of_def)
  have days: "\<forall>(now', b, op) \<in> set ?evs. day_bucket now' = day_bucket ?now \<and> op_ok op" by code_simp
  have c0: "mem_count ?now [] ''alice'' = 0" by code_simp
  show ?thesis
    using daily_admission_bound [OF reach_empty run days, of "''alice''"] n c0 run by simp
qed

text \<open>Under the invariant a charge is admitted exactly when it fits every limit it touches (the
  64-bit comparison never wraps); a refused charge leaves every stored counter as it was, and no
  charge changes the row of another agent.\<close>

theorem check_and_record_exact:
  assumes "quota_inv t" and "op_ok op"
  shows "(fst (check_and_record now t a op) = Inr () \<longleftrightarrow>
      (case op of
         MemoryOp bytes \<Rightarrow> mem_count now t a + 1 \<le> mem_limit t a
           \<and> q_current_storage_bytes (row_for now t a) + bytes \<le> q_max_storage_bytes (row_for now t a)
       | LinkOp \<Rightarrow> links_today now (row_for now t a) + 1 \<le> q_max_links_per_day (row_for now t a)))
    \<and> (fst (check_and_record now t a op) \<noteq> Inr () \<longrightarrow>
         load_row (snd (check_and_record now t a op)) a = Some (row_for now t a))
    \<and> (b \<noteq> a \<longrightarrow> load_row (snd (check_and_record now t a op)) b = load_row t b)"
proof (intro conjI)
  have ok: "fst (check_and_record now t a op) = Inr () \<longleftrightarrow> verdict now a op (row_for now t a) = None"
    by (auto simp: check_and_record_eq Let_def split: option.split)
  show "fst (check_and_record now t a op) = Inr () \<longleftrightarrow>
      (case op of
         MemoryOp bytes \<Rightarrow> mem_count now t a + 1 \<le> mem_limit t a
           \<and> q_current_storage_bytes (row_for now t a) + bytes \<le> q_max_storage_bytes (row_for now t a)
       | LinkOp \<Rightarrow> links_today now (row_for now t a) + 1 \<le> q_max_links_per_day (row_for now t a))"
    using ok verdict_None_iff [of "row_for now t a" op now a] row_for_ok [OF assms(1), of now a] assms(2)
    by (simp add: mem_count_def mem_limit_row_for [of t a now] cong: QuotaOp.case_cong)
  show "fst (check_and_record now t a op) \<noteq> Inr () \<longrightarrow>
      load_row (snd (check_and_record now t a op)) a = Some (row_for now t a)"
    using ok by (auto simp: check_and_record_row)
  show "b \<noteq> a \<longrightarrow> load_row (snd (check_and_record now t a op)) b = load_row t b"
    by (auto simp: check_and_record_row_other)
qed

theorem check_and_record_exact_witness:
  "fst (check_and_record ''2026-05-01'' [] ''a'' (MemoryOp 104857601)) \<noteq> Inr ()
   \<and> load_row (snd (check_and_record ''2026-05-01'' [] ''a'' (MemoryOp 104857601))) ''a''
      = Some (row_for ''2026-05-01'' [] ''a'')"
proof -
  have inv: "quota_inv []" and op: "op_ok (MemoryOp 104857601)" by (simp_all add: quota_inv_def)
  have no: "\<not> q_current_storage_bytes (row_for ''2026-05-01'' [] ''a'') + 104857601
      \<le> q_max_storage_bytes (row_for ''2026-05-01'' [] ''a'')" by code_simp
  then show ?thesis
    using check_and_record_exact [OF inv op, of "''2026-05-01''" "''a''" "''b''"] by simp
qed

text \<open>The two-call protocol \<open>check_quota\<close> then \<open>record_op\<close> is not enough: two callers whose checks
  both pass before either records push the counter over the limit, which the atomic
  \<open>check_and_record\<close> refuses in the same situation.\<close>

theorem check_then_record_overshoots:
  "\<exists>t now a op. quota_inv t \<and> op_ok op
     \<and> fst (check_quota now t a op) = Inr ()
     \<and> fst (check_quota now (snd (check_quota now t a op)) a op) = Inr ()
     \<and> (let t' = record_op now (record_op now t a op) a op in
         \<exists>r \<in> set t'. q_current_memories_today r > q_max_memories_per_day r)
     \<and> fst (check_and_record now (snd (check_and_record now t a op)) a op) \<noteq> Inr ()"
proof (intro exI conjI)
  let ?r = "(default_row ''2026-05-01T00:00:00Z'' ''a'')\<lparr>q_current_memories_today := 999\<rparr>"
  let ?now = "''2026-05-01T09:00:00Z''"
  show "quota_inv [?r]"
    by (simp add: quota_inv_def limits_ok_def within_limits_def default_row_def unique_key_def
        DEFAULT_MAX_MEMORIES_PER_DAY_def DEFAULT_MAX_STORAGE_BYTES_def DEFAULT_MAX_LINKS_PER_DAY_def)
  show "op_ok (MemoryOp 1)" by simp
  show "fst (check_quota ?now [?r] ''a'' (MemoryOp 1)) = Inr ()" by code_simp
  show "fst (check_quota ?now (snd (check_quota ?now [?r] ''a'' (MemoryOp 1))) ''a'' (MemoryOp 1)) = Inr ()"
    by code_simp
  show "let t' = record_op ?now (record_op ?now [?r] ''a'' (MemoryOp 1)) ''a'' (MemoryOp 1) in
         \<exists>r \<in> set t'. q_current_memories_today r > q_max_memories_per_day r" by code_simp
  show "fst (check_and_record ?now (snd (check_and_record ?now [?r] ''a'' (MemoryOp 1))) ''a'' (MemoryOp 1))
      \<noteq> Inr ()" by code_simp
qed

text \<open>Refunding, on the day of the charge, an operation that was just charged restores the
  agent's storage total and today's counters.\<close>

theorem refund_restores_counters:
  assumes "quota_inv t" and "op_ok op" and "fst (check_and_record now t a op) = Inr ()"
  shows "let r = row_for now t a;
             r' = row_for now (refund_op now2 (snd (check_and_record now t a op)) a op) a in
     q_current_storage_bytes r' = q_current_storage_bytes r
     \<and> memories_today now r' = memories_today now r \<and> links_today now r' = links_today now r"
proof -
  let ?r = "row_for now t a"
  have v: "verdict now a op ?r = None"
    using assms(3) by (auto simp: check_and_record_eq Let_def split: option.splits)
  have "row_for now (refund_op now2 (snd (check_and_record now t a op)) a op) a
      = refund_row now2 op (charge now (rolled now ?r) op ?r)"
    by (rule row_for_Some) (simp add: refund_op_row check_and_record_row v)
  then show ?thesis
    using refund_charge_counters [of ?r op now2 now] row_for_ok [OF assms(1), of now a] assms(2)
    by (simp add: Let_def)
qed

theorem refund_restores_counters_witness:
  "let t' = refund_op ''2026-05-01T11'' (snd (check_and_record ''2026-05-01T10'' [] ''a'' (MemoryOp 7)))
              ''a'' (MemoryOp 7) in
   q_current_storage_bytes (row_for ''2026-05-01T10'' t' ''a'') = 0
   \<and> memories_today ''2026-05-01T10'' (row_for ''2026-05-01T10'' t' ''a'') = 0"
proof -
  have "fst (check_and_record ''2026-05-01T10'' [] ''a'' (MemoryOp 7)) = Inr ()" by code_simp
  moreover have "q_current_storage_bytes (row_for ''2026-05-01T10'' [] ''a'') = 0" by code_simp
  moreover have "memories_today ''2026-05-01T10'' (row_for ''2026-05-01T10'' [] ''a'') = 0" by code_simp
  ultimately show ?thesis
    using refund_restores_counters [of "[]" "MemoryOp 7" "''2026-05-01T10''" "''a''" "''2026-05-01T11''"]
    by (simp add: quota_inv_def Let_def)
qed

end
