(* ===== verification/Graph.thy ===== *)
theory Graph
  imports Links Search
begin

text \<open>
  The temporal knowledge graph over \<open>memory_links\<close> (\<open>src/db.rs\<close>): timelines, multi-hop queries, path
  search, supersession of links and the append-only table \<open>signed_events\<close> it writes
  (\<open>src/signed_events.rs\<close>). A recursive common table expression is the list of its levels; the number
  of levels is bounded by the depth that the query itself enforces, and \<open>cte_enough\<close> shows that no
  further level has a row.
\<close>

subsection \<open>Recursive queries\<close>

record 'e cte_row =
  cr_current :: str
  cr_edge :: "'e option"
  cr_depth :: nat
  cr_path :: "str list"

text \<open>The recursive member: extend each row below the depth limit by every edge to a node not on its path.\<close>

definition cte_step ::
    "('e \<Rightarrow> str) \<Rightarrow> ('e \<Rightarrow> str) \<Rightarrow> 'e list \<Rightarrow> nat \<Rightarrow> 'e cte_row list \<Rightarrow> 'e cte_row list" where
  "cte_step src dst edges max_depth rows =
     concat (map (\<lambda>t. if cr_depth t < max_depth
        then map (\<lambda>e. \<lparr>cr_current = dst e, cr_edge = Some e, cr_depth = cr_depth t + 1,
                      cr_path = cr_path t @ [dst e]\<rparr>)
               (filter (\<lambda>e. src e = cr_current t \<and> dst e \<notin> set (cr_path t)) edges)
        else []) rows)"

fun cte_rows :: "nat \<Rightarrow> ('r list \<Rightarrow> 'r list) \<Rightarrow> 'r list \<Rightarrow> 'r list" where
  "cte_rows 0 step rows = []"
| "cte_rows (Suc n) step rows = rows @ cte_rows n step (step rows)"

definition clamp :: "nat \<Rightarrow> nat \<Rightarrow> nat \<Rightarrow> nat" where
  "clamp lo hi n = (if n < lo then lo else if n > hi then hi else n)"

definition unwrap_or :: "'a \<Rightarrow> 'a option \<Rightarrow> 'a" where
  "unwrap_or d x = (case x of None \<Rightarrow> d | Some v \<Rightarrow> v)"

datatype DepthError = DepthZero | DepthTooLarge nat nat

subsection \<open>\<open>kg_query\<close>\<close>

definition KG_QUERY_DEFAULT_LIMIT :: nat where "KG_QUERY_DEFAULT_LIMIT = 200"
definition KG_QUERY_MAX_LIMIT :: nat where "KG_QUERY_MAX_LIMIT = 1000"
definition KG_QUERY_MAX_SUPPORTED_DEPTH :: nat where "KG_QUERY_MAX_SUPPORTED_DEPTH = 5"

record KgQueryNode =
  kq_target_id :: str
  kq_relation :: str
  kq_valid_from :: "str option"
  kq_valid_until :: "str option"
  kq_observed_by :: "str option"
  kq_title :: str
  kq_target_namespace :: str
  kq_depth :: nat
  kq_path :: str

definition hop_filter :: "str option \<Rightarrow> str list option \<Rightarrow> LinkRow \<Rightarrow> bool" where
  "hop_filter valid_at allowed_agents l =
     (opt_ok (\<lambda>t. (case l_valid_from l of None \<Rightarrow> False | Some f \<Rightarrow> f \<le> t)
                \<and> opt_ok (\<lambda>u. u > t) (l_valid_until l)) valid_at
      \<and> opt_ok (\<lambda>agents. case l_observed_by l of None \<Rightarrow> False | Some a \<Rightarrow> a \<in> set agents) allowed_agents)"

definition kg_anchor :: "LinkRow list \<Rightarrow> str \<Rightarrow> LinkRow cte_row list" where
  "kg_anchor edges source_id =
     map (\<lambda>l. \<lparr>cr_current = l_target_id l, cr_edge = Some l, cr_depth = 1,
              cr_path = [l_source_id l, l_target_id l]\<rparr>)
       (filter (\<lambda>l. l_source_id l = source_id) edges)"

definition kg_traversal ::
    "Db \<Rightarrow> str \<Rightarrow> nat \<Rightarrow> str option \<Rightarrow> str list option \<Rightarrow> LinkRow cte_row list" where
  "kg_traversal db source_id max_depth valid_at allowed_agents =
     (let edges = filter (hop_filter valid_at allowed_agents) (db_links db) in
      cte_rows max_depth (cte_step l_source_id l_target_id edges max_depth) (kg_anchor edges source_id))"

definition kg_before :: "LinkRow cte_row \<Rightarrow> LinkRow cte_row \<Rightarrow> bool" where
  "kg_before a b =
     (let la = the (cr_edge a); lb = the (cr_edge b);
          ta = unwrap_or (l_created_at la) (l_valid_from la);
          tb = unwrap_or (l_created_at lb) (l_valid_from lb)
      in cr_depth a < cr_depth b \<or> (cr_depth a = cr_depth b \<and>
           (ta < tb \<or> (ta = tb \<and> l_created_at la < l_created_at lb))))"

fun group_concat :: "str \<Rightarrow> str list \<Rightarrow> str" where
  "group_concat sep [] = []"
| "group_concat sep [x] = x"
| "group_concat sep (x # y # r) = x @ sep @ group_concat sep (y # r)"

text \<open>The join with \<open>memories\<close> and the columns of the answer.\<close>

definition kg_node :: "LinkRow cte_row \<Rightarrow> MemRow \<Rightarrow> KgQueryNode" where
  "kg_node t m =
     (let l = the (cr_edge t) in
      \<lparr>kq_target_id = cr_current t, kq_relation = l_relation l, kq_valid_from = l_valid_from l,
       kq_valid_until = l_valid_until l, kq_observed_by = l_observed_by l, kq_title = m_title m,
       kq_target_namespace = m_namespace m, kq_depth = cr_depth t,
       kq_path = group_concat ''->'' (cr_path t)\<rparr>)"

definition join_memories :: "Db \<Rightarrow> ('r \<Rightarrow> str) \<Rightarrow> 'r list \<Rightarrow> ('r \<times> MemRow) list" where
  "join_memories db key rows =
     concat (map (\<lambda>t. map (\<lambda>m. (t, m)) (filter (\<lambda>m. m_id m = key t) (db_memories db))) rows)"

definition kg_query ::
    "Db \<Rightarrow> str \<Rightarrow> nat \<Rightarrow> str option \<Rightarrow> str list option \<Rightarrow> nat option \<Rightarrow> DepthError + KgQueryNode list" where
  "kg_query db source_id max_depth valid_at allowed_agents limit =
     (if max_depth = 0 then Inl DepthZero
      else if max_depth > KG_QUERY_MAX_SUPPORTED_DEPTH
      then Inl (DepthTooLarge max_depth KG_QUERY_MAX_SUPPORTED_DEPTH)
      else if allowed_agents = Some [] then Inr []
      else
        let cap = clamp 1 KG_QUERY_MAX_LIMIT (unwrap_or KG_QUERY_DEFAULT_LIMIT limit) in
        Inr (map (\<lambda>(t, m). kg_node t m)
              (take cap (order_by (\<lambda>a b. kg_before (fst a) (fst b))
                (join_memories db cr_current
                  (kg_traversal db source_id max_depth valid_at allowed_agents))))))"

subsection \<open>\<open>find_paths\<close>\<close>

definition FIND_PATHS_DEFAULT_LIMIT :: nat where "FIND_PATHS_DEFAULT_LIMIT = 10"
definition FIND_PATHS_MAX_LIMIT :: nat where "FIND_PATHS_MAX_LIMIT = 50"
definition FIND_PATHS_MAX_DEPTH :: nat where "FIND_PATHS_MAX_DEPTH = 7"
definition FIND_PATHS_DEFAULT_DEPTH :: nat where "FIND_PATHS_DEFAULT_DEPTH = 4"

text \<open>Both directions of every link; \<open>UNION\<close> drops duplicates.\<close>

definition undirected_edges :: "Db \<Rightarrow> (str \<times> str) list" where
  "undirected_edges db =
     remdups (map (\<lambda>l. (l_source_id l, l_target_id l)) (db_links db)
            @ map (\<lambda>l. (l_target_id l, l_source_id l)) (db_links db))"

text \<open>\<open>path_text\<close> is the JSON text of a path, by which SQLite orders paths of equal length.\<close>

definition path_before :: "(str list \<Rightarrow> str) \<Rightarrow> 'e cte_row \<Rightarrow> 'e cte_row \<Rightarrow> bool" where
  "path_before path_text a b =
     (cr_depth a < cr_depth b \<or>
      (cr_depth a = cr_depth b \<and> path_text (cr_path a) < path_text (cr_path b)))"

definition path_traversal :: "Db \<Rightarrow> str \<Rightarrow> nat \<Rightarrow> (str \<times> str) cte_row list" where
  "path_traversal db source_id depth =
     cte_rows (depth + 1) (cte_step fst snd (undirected_edges db) depth)
       [\<lparr>cr_current = source_id, cr_edge = None, cr_depth = 0, cr_path = [source_id]\<rparr>]"

definition find_paths ::
    "(str list \<Rightarrow> str) \<Rightarrow> Db \<Rightarrow> str \<Rightarrow> str \<Rightarrow> nat option \<Rightarrow> nat option \<Rightarrow> DepthError + str list list" where
  "find_paths path_text db source_id target_id max_depth max_results =
     (let depth = unwrap_or FIND_PATHS_DEFAULT_DEPTH max_depth in
      if depth = 0 then Inl DepthZero
      else if depth > FIND_PATHS_MAX_DEPTH then Inl (DepthTooLarge depth FIND_PATHS_MAX_DEPTH)
      else
        let cap = clamp 1 FIND_PATHS_MAX_LIMIT (unwrap_or FIND_PATHS_DEFAULT_LIMIT max_results) in
        if source_id = target_id then Inr [[source_id]]
        else Inr (map cr_path (take cap (order_by (path_before path_text)
               (filter (\<lambda>t. cr_current t = target_id \<and> cr_depth t \<ge> 1)
                 (path_traversal db source_id depth))))))"

subsection \<open>\<open>kg_timeline\<close>\<close>

definition KG_TIMELINE_DEFAULT_LIMIT :: nat where "KG_TIMELINE_DEFAULT_LIMIT = 200"
definition KG_TIMELINE_MAX_LIMIT :: nat where "KG_TIMELINE_MAX_LIMIT = 1000"

record KgTimelineEvent =
  kt_target_id :: str
  kt_relation :: str
  kt_valid_from :: str
  kt_valid_until :: "str option"
  kt_observed_by :: "str option"
  kt_title :: str
  kt_target_namespace :: str

definition timeline_where :: "str \<Rightarrow> str option \<Rightarrow> str option \<Rightarrow> LinkRow \<Rightarrow> bool" where
  "timeline_where source_id since until l =
     (l_source_id l = source_id
      \<and> (case l_valid_from l of None \<Rightarrow> False
         | Some f \<Rightarrow> opt_ok (\<lambda>s. f \<ge> s) since \<and> opt_ok (\<lambda>u. f \<le> u) until))"

definition timeline_before :: "LinkRow \<Rightarrow> LinkRow \<Rightarrow> bool" where
  "timeline_before a b =
     (the (l_valid_from a) < the (l_valid_from b)
      \<or> (the (l_valid_from a) = the (l_valid_from b) \<and> l_created_at a < l_created_at b))"

definition kg_timeline ::
    "Db \<Rightarrow> str \<Rightarrow> str option \<Rightarrow> str option \<Rightarrow> nat option \<Rightarrow> KgTimelineEvent list" where
  "kg_timeline db source_id since until limit =
     (let cap = clamp 1 KG_TIMELINE_MAX_LIMIT (unwrap_or KG_TIMELINE_DEFAULT_LIMIT limit) in
      map (\<lambda>(l, m). \<lparr>kt_target_id = l_target_id l, kt_relation = l_relation l,
                     kt_valid_from = the (l_valid_from l), kt_valid_until = l_valid_until l,
                     kt_observed_by = l_observed_by l, kt_title = m_title m,
                     kt_target_namespace = m_namespace m\<rparr>)
        (take cap (order_by (\<lambda>a b. timeline_before (fst a) (fst b))
          (join_memories db l_target_id (filter (timeline_where source_id since until) (db_links db))))))"

subsection \<open>Supersession and the signed events\<close>

record SignedEvent =
  se_id :: str
  se_agent_id :: str
  se_event_type :: str
  se_payload_hash :: "nat list"
  se_signature :: "nat list option"
  se_attest_level :: str
  se_timestamp :: str

text \<open>\<open>None\<close> is the failed insert of a duplicate primary key. The digest is the parameter \<open>sha256\<close>.\<close>

definition append_signed_event :: "SignedEvent list \<Rightarrow> SignedEvent \<Rightarrow> SignedEvent list option" where
  "append_signed_event events e =
     (if se_id e \<in> set (map se_id events) then None else Some (events @ [e]))"

definition signed_before :: "SignedEvent \<Rightarrow> SignedEvent \<Rightarrow> bool" where
  "signed_before a b =
     (se_timestamp a < se_timestamp b \<or> (se_timestamp a = se_timestamp b \<and> se_id a < se_id b))"

definition list_signed_events :: "SignedEvent list \<Rightarrow> str option \<Rightarrow> nat \<Rightarrow> nat \<Rightarrow> SignedEvent list" where
  "list_signed_events events agent_id limit offset =
     take limit (drop offset
       (order_by signed_before (filter (\<lambda>e. opt_ok (\<lambda>a. se_agent_id e = a) agent_id) events)))"

record InvalidateResult =
  iv_valid_until :: str
  iv_previous_valid_until :: "str option"

definition invalidate_link ::
    "crypto \<Rightarrow> (nat list \<Rightarrow> nat list) \<Rightarrow> str \<Rightarrow> str \<Rightarrow> Db \<times> SignedEvent list \<Rightarrow> str \<Rightarrow> str \<Rightarrow> str \<Rightarrow> str option
       \<Rightarrow> InvalidateResult option \<times> Db \<times> SignedEvent list" where
  "invalidate_link cr sha256 new_id now st source_id target_id relation valid_until =
     (case st of (db, events) \<Rightarrow>
      let stamp = unwrap_or now valid_until;
          P = (\<lambda>l. l_source_id l = source_id \<and> l_target_id l = target_id \<and> l_relation l = relation)
      in case sql_row P (db_links db) of
           None \<Rightarrow> (None, db, events)
         | Some l \<Rightarrow>
             let was_signed = (l_signature l \<noteq> None);
                 upd = (if was_signed
                        then (\<lambda>l. l\<lparr>l_valid_until := Some stamp, l_signature := None,
                                    lr_attest_level := Some ''unsigned''\<rparr>)
                        else (\<lambda>l. l\<lparr>l_valid_until := Some stamp\<rparr>));
                 db' = db\<lparr>db_links := sql_update P upd (db_links db)\<rparr>;
                 events' =
                   (if \<not> was_signed then events
                    else case canonical_cbor cr
                           \<lparr>sg_src_id = source_id, sg_dst_id = target_id, sg_relation = relation,
                            sg_observed_by = l_observed_by l, sg_valid_from = l_valid_from l,
                            sg_valid_until = Some stamp\<rparr> of
                           None \<Rightarrow> events
                         | Some cbor \<Rightarrow>
                             unwrap_or events (append_signed_event events
                               \<lparr>se_id = new_id, se_agent_id = unwrap_or ''unknown'' (l_observed_by l),
                                se_event_type = ''memory_link.invalidated'', se_payload_hash = sha256 cbor,
                                se_signature = l_signature l, se_attest_level = ''unsigned'',
                                se_timestamp = now\<rparr>))
             in (Some \<lparr>iv_valid_until = stamp, iv_previous_valid_until = l_valid_until l\<rparr>, db', events'))"

section \<open>Walks\<close>

text \<open>
  \<open>walk_ok\<close> says that a sequence of edges extends a row and \<open>walk_row\<close> is the row it leads to: the rows of
  a recursive query are exactly the rows that walks from its anchor lead to.
\<close>

definition step_row :: "('e \<Rightarrow> str) \<Rightarrow> 'e cte_row \<Rightarrow> 'e \<Rightarrow> 'e cte_row" where
  "step_row dst t e =
     \<lparr>cr_current = dst e, cr_edge = Some e, cr_depth = cr_depth t + 1, cr_path = cr_path t @ [dst e]\<rparr>"

fun walk_ok :: "('e \<Rightarrow> str) \<Rightarrow> ('e \<Rightarrow> str) \<Rightarrow> 'e list \<Rightarrow> nat \<Rightarrow> 'e cte_row \<Rightarrow> 'e list \<Rightarrow> bool" where
  "walk_ok src dst edges d t [] = True"
| "walk_ok src dst edges d t (e # es) =
     (cr_depth t < d \<and> e \<in> set edges \<and> src e = cr_current t \<and> dst e \<notin> set (cr_path t)
      \<and> walk_ok src dst edges d (step_row dst t e) es)"

fun walk_row :: "('e \<Rightarrow> str) \<Rightarrow> 'e cte_row \<Rightarrow> 'e list \<Rightarrow> 'e cte_row" where
  "walk_row dst t [] = t"
| "walk_row dst t (e # es) = walk_row dst (step_row dst t e) es"

lemma step_row_simps [simp]:
  "cr_current (step_row dst t e) = dst e" "cr_edge (step_row dst t e) = Some e"
  "cr_depth (step_row dst t e) = cr_depth t + 1" "cr_path (step_row dst t e) = cr_path t @ [dst e]"
  by (simp_all add: step_row_def)

lemma walk_row_simps [simp]:
  "cr_depth (walk_row dst t es) = cr_depth t + length es"
  "cr_path (walk_row dst t es) = cr_path t @ map dst es"
  by (induction es arbitrary: t) auto

lemma walk_row_current: "cr_current (walk_row dst t es) = (if es = [] then cr_current t else dst (last es))"
  by (induction es arbitrary: t) auto

lemma walk_row_edge: "cr_edge (walk_row dst t es) = (if es = [] then cr_edge t else Some (last es))"
  by (induction es arbitrary: t) auto

lemma set_cte_step:
  "set (cte_step src dst edges d rows) =
     {step_row dst t e | t e. t \<in> set rows \<and> walk_ok src dst edges d t [e]}"
  by (auto simp: cte_step_def step_row_def)

lemma cte_level:
  "t' \<in> set ((cte_step src dst edges d ^^ n) rows) \<longleftrightarrow>
     (\<exists>t \<in> set rows. \<exists>es. length es = n \<and> walk_ok src dst edges d t es \<and> t' = walk_row dst t es)"
proof (induction n arbitrary: rows)
  case 0
  then show ?case by auto
next
  case (Suc n)
  have "t' \<in> set ((cte_step src dst edges d ^^ Suc n) rows) \<longleftrightarrow>
      (\<exists>t \<in> set (cte_step src dst edges d rows). \<exists>es. length es = n \<and> walk_ok src dst edges d t es \<and> t' = walk_row dst t es)"
    using Suc by (simp add: funpow_swap1)
  also have "\<dots> \<longleftrightarrow> (\<exists>t \<in> set rows. \<exists>es. length es = Suc n \<and> walk_ok src dst edges d t es \<and> t' = walk_row dst t es)"
    by (simp add: set_cte_step length_Suc_conv) fastforce
  finally show ?case .
qed

lemma set_cte_rows: "set (cte_rows n step rows) = (\<Union>k<n. set ((step ^^ k) rows))"
proof (induction n arbitrary: rows)
  case (Suc n)
  have "(\<Union>k<Suc n. set ((step ^^ k) rows)) = set rows \<union> (\<Union>k<n. set ((step ^^ k) (step rows)))"
    by (simp add: lessThan_Suc_eq_insert_0 funpow_swap1)
  with Suc show ?case by simp
qed simp

lemma cte_rows_walks:
  "t' \<in> set (cte_rows n (cte_step src dst edges d) rows) \<longleftrightarrow>
     (\<exists>t \<in> set rows. \<exists>es. length es < n \<and> walk_ok src dst edges d t es \<and> t' = walk_row dst t es)"
  by (auto simp: set_cte_rows cte_level)

lemma walk_ok_length: "walk_ok src dst edges d t es \<Longrightarrow> es = [] \<or> cr_depth t + length es \<le> d"
proof (induction es arbitrary: t)
  case (Cons e es)
  then show ?case using Cons.IH [of "step_row dst t e"] by auto
qed simp

text \<open>Beyond the depth limit there is nothing more to find, so the number of levels is enough.\<close>

lemma cte_level_beyond:
  assumes "\<forall>t \<in> set rows. cr_depth t = c" "d < c + n" "0 < n"
  shows "(cte_step src dst edges d ^^ n) rows = []"
proof -
  have "t' \<notin> set ((cte_step src dst edges d ^^ n) rows)" for t'
    using assms walk_ok_length by (fastforce simp: cte_level)
  then show ?thesis by (metis last_in_set)
qed

lemma cte_rows_add:
  "cte_rows (n + k) step rows = cte_rows n step rows @ cte_rows k step ((step ^^ n) rows)"
  by (induction n arbitrary: rows) (simp_all add: funpow_swap1)

lemma cte_enough:
  assumes "\<forall>t \<in> set rows. cr_depth t = c" "d < c + n" "0 < n"
  shows "cte_rows (n + k) (cte_step src dst edges d) rows = cte_rows n (cte_step src dst edges d) rows"
proof -
  have "cte_rows k (cte_step src dst edges d) [] = []" for k
    by (induction k) (simp_all add: cte_step_def)
  then show ?thesis by (simp add: cte_rows_add cte_level_beyond [OF assms])
qed

section \<open>Paths between two memories\<close>

text \<open>The specification: simple paths in the undirected graph of the links.\<close>

definition linked :: "Db \<Rightarrow> str \<Rightarrow> str \<Rightarrow> bool" where
  "linked db a b = list_ex (\<lambda>l. (l_source_id l = a \<and> l_target_id l = b) \<or> (l_source_id l = b \<and> l_target_id l = a)) (db_links db)"

definition simple_path :: "Db \<Rightarrow> str \<Rightarrow> str \<Rightarrow> str list \<Rightarrow> bool" where
  "simple_path db s t p = (p \<noteq> [] \<and> hd p = s \<and> last p = t \<and> distinct p \<and> successively (linked db) p)"

lemma undirected_linked: "(a, b) \<in> set (undirected_edges db) \<longleftrightarrow> linked db a b"
  by (auto simp: undirected_edges_def linked_def list_ex_iff image_iff)

definition start_row :: "str \<Rightarrow> (str \<times> str) cte_row" where
  "start_row s = \<lparr>cr_current = s, cr_edge = None, cr_depth = 0, cr_path = [s]\<rparr>"

lemma walk_ok_pairs:
  assumes "cr_path t \<noteq> []" "last (cr_path t) = cr_current t" "distinct (cr_path t)" "cr_depth t \<le> d"
  shows "walk_ok fst snd (undirected_edges db) d t es \<longleftrightarrow>
    cr_depth t + length es \<le> d \<and> distinct (cr_path t @ map snd es)
    \<and> successively (linked db) (cr_current t # map snd es) \<and> map fst es = butlast (cr_current t # map snd es)"
  using assms
proof (induction es arbitrary: t)
  case (Cons e es)
  have "walk_ok fst snd (undirected_edges db) d (step_row snd t e) es \<longleftrightarrow>
    cr_depth t + 1 + length es \<le> d \<and> distinct (cr_path t @ snd e # map snd es)
    \<and> successively (linked db) (snd e # map snd es) \<and> map fst es = butlast (snd e # map snd es)"
    if "cr_depth t < d" "snd e \<notin> set (cr_path t)"
    using Cons.IH [of "step_row snd t e"] Cons.prems that by simp
  then show ?case
    using undirected_linked [of "fst e" "snd e" db] by (auto simp: successively_Cons)
qed simp

lemma path_of_walk:
  "(\<exists>es. length es \<le> d \<and> walk_ok fst snd (undirected_edges db) d (start_row s) es
        \<and> p = s # map snd es) \<longleftrightarrow>
   p \<noteq> [] \<and> hd p = s \<and> distinct p \<and> successively (linked db) p \<and> length p \<le> d + 1"
  (is "?L \<longleftrightarrow> ?R")
proof
  assume ?L
  then show ?R using walk_ok_pairs [of "start_row s" d db] by (auto simp: start_row_def)
next
  assume R: ?R
  then obtain q where p: "p = s # q" by (cases p) auto
  let ?es = "zip (butlast p) q"
  have "length (butlast p) = length q" by (simp add: p)
  then have "map snd ?es = q" "map fst ?es = butlast p" by simp_all
  with R p show ?L
    using walk_ok_pairs [of "start_row s" d db ?es]
    by (intro exI [of _ ?es]) (auto simp: start_row_def)
qed

lemma cte_step_paths_distinct:
  assumes "distinct (map cr_path rows)" "distinct edges"
  shows "distinct (map cr_path (cte_step fst snd edges d rows))"
  using assms(1)
proof (induction rows)
  case Nil
  then show ?case by (simp add: cte_step_def)
next
  case (Cons t rows)
  let ?block = "filter (\<lambda>e. fst e = cr_current t \<and> snd e \<notin> set (cr_path t)) edges"
  have "distinct (map (\<lambda>e. cr_path t @ [snd e]) ?block)"
    using assms(2) by (auto simp: distinct_map inj_on_def)
  moreover have "butlast p \<in> cr_path ` set rows" if "p \<in> cr_path ` set (cte_step fst snd edges d rows)" for p
    using that by (auto simp: set_cte_step)
  then have "cr_path t @ [x] \<notin> cr_path ` set (cte_step fst snd edges d rows)" for x
    using Cons.prems by (metis butlast_snoc distinct.simps(2) list.simps(9) set_map)
  ultimately have "distinct (map (\<lambda>e. cr_path t @ [snd e]) ?block @ map cr_path (cte_step fst snd edges d rows))"
    using Cons by auto
  moreover have "map cr_path (cte_step fst snd edges d (t # rows)) =
      (if cr_depth t < d then map (\<lambda>e. cr_path t @ [snd e]) ?block else []) @ map cr_path (cte_step fst snd edges d rows)"
    by (simp add: cte_step_def comp_def)
  ultimately show ?case using Cons by simp
qed

lemma cte_rows_paths_distinct:
  assumes "distinct edges" "distinct (map cr_path rows)" "\<forall>t \<in> set rows. length (cr_path t) = c"
  shows "distinct (map cr_path (cte_rows n (cte_step fst snd edges d) rows))
    \<and> (\<forall>t \<in> set (cte_rows n (cte_step fst snd edges d) rows). c \<le> length (cr_path t))"
  using assms(2,3)
proof (induction n arbitrary: rows c)
  case (Suc n)
  have "\<forall>t \<in> set (cte_step fst snd edges d rows). length (cr_path t) = Suc c"
    using Suc.prems(2) by (auto simp: set_cte_step)
  from Suc.IH [OF cte_step_paths_distinct [OF Suc.prems(1) assms(1)] this]
  show ?case using Suc.prems by (fastforce simp: Suc_le_eq)
qed simp

interpretation path_order: ordering_key "path_before path_text"
  by unfold_locales (auto simp: path_before_def)

lemma path_traversal_walks:
  "r \<in> set (path_traversal db s d) \<longleftrightarrow>
     (\<exists>es. length es \<le> d \<and> walk_ok fst snd (undirected_edges db) d (start_row s) es
        \<and> r = walk_row snd (start_row s) es)"
  using cte_rows_walks [of r "d + 1" fst snd "undirected_edges db" d "[start_row s]"]
  by (simp add: path_traversal_def start_row_def [symmetric] less_Suc_eq_le)

lemma path_traversal_row:
  assumes "r \<in> set (path_traversal db s d)"
  shows "cr_path r \<noteq> []" "cr_current r = last (cr_path r)" "length (cr_path r) = cr_depth r + 1"
    "hd (cr_path r) = s"
  using assms unfolding path_traversal_walks by (auto simp: walk_row_current start_row_def last_map)

lemma path_traversal_distinct: "distinct (map cr_path (path_traversal db s d))"
  using cte_rows_paths_distinct [of "undirected_edges db" "[start_row s]" 1 "d + 1" d]
  by (simp add: path_traversal_def start_row_def undirected_edges_def)

lemma path_traversal_paths:
  assumes "s \<noteq> t"
  shows "cr_path ` {r \<in> set (path_traversal db s d). cr_current r = t \<and> 1 \<le> cr_depth r} =
    {p. simple_path db s t p \<and> length p \<le> d + 1}"
proof (rule set_eqI)
  fix p
  have deep: "1 \<le> cr_depth r" if "r \<in> set (path_traversal db s d)" "last (cr_path r) = t" for r
    using path_traversal_row [OF that(1)] that(2) assms by (cases "cr_path r"; cases "cr_depth r") auto
  have "p \<in> cr_path ` {r \<in> set (path_traversal db s d). cr_current r = t \<and> 1 \<le> cr_depth r} \<longleftrightarrow>
      (\<exists>r \<in> set (path_traversal db s d). p = cr_path r) \<and> last p = t"
    using path_traversal_row deep by (auto simp: Bex_def)
  also have "(\<exists>r \<in> set (path_traversal db s d). p = cr_path r) \<longleftrightarrow>
      (\<exists>es. length es \<le> d \<and> walk_ok fst snd (undirected_edges db) d (start_row s) es \<and> p = s # map snd es)"
    unfolding path_traversal_walks Bex_def by (auto simp: start_row_def)
  finally show "p \<in> cr_path ` {r \<in> set (path_traversal db s d). cr_current r = t \<and> 1 \<le> cr_depth r}
      \<longleftrightarrow> p \<in> {p. simple_path db s t p \<and> length p \<le> d + 1}"
    unfolding path_of_walk by (auto simp: simple_path_def)
qed

text \<open>C25: path search is exact. For distinct memories and a depth within the ceiling, the answer is a
  prefix, of the clamped length, of the list of all simple paths between the two memories with at most
  that many links; each path is listed once and shorter paths come first, so what the cap drops is
  never shorter than what it keeps.\<close>

theorem find_paths_exact:
  assumes "s \<noteq> t" "1 \<le> d" "d \<le> FIND_PATHS_MAX_DEPTH"
  shows "\<exists>ps. find_paths path_text db s t (Some d) limit =
      Inr (take (clamp 1 FIND_PATHS_MAX_LIMIT (unwrap_or FIND_PATHS_DEFAULT_LIMIT limit)) ps)
    \<and> set ps = {p. simple_path db s t p \<and> length p \<le> d + 1}
    \<and> distinct ps \<and> sorted (map length ps)"
proof -
  define rows where "rows = filter (\<lambda>r. cr_current r = t \<and> cr_depth r \<ge> 1) (path_traversal db s d)"
  define ps where "ps = map cr_path (order_by (path_before path_text) rows)"
  have "set ps = {p. simple_path db s t p \<and> length p \<le> d + 1}"
    using path_traversal_paths [OF assms(1), of db d] by (simp add: ps_def rows_def)
  moreover have "distinct ps"
    using path_traversal_distinct by (simp add: ps_def distinct_order_by rows_def distinct_map_filter)
  moreover have "sorted_wrt (\<lambda>a b. length (cr_path a) \<le> length (cr_path b)) (order_by (path_before path_text) rows)"
    by (rule sorted_wrt_mono_rel [OF _ path_order.sorted_order_by [of path_text rows]])
      (auto simp: rows_def path_before_def path_traversal_row)
  then have "sorted (map length ps)" by (simp add: ps_def sorted_wrt_map)
  moreover have "find_paths path_text db s t (Some d) limit =
      Inr (take (clamp 1 FIND_PATHS_MAX_LIMIT (unwrap_or FIND_PATHS_DEFAULT_LIMIT limit)) ps)"
    using assms by (simp add: find_paths_def unwrap_or_def [of _ "Some d"] ps_def rows_def take_map Let_def)
  ultimately show ?thesis by blast
qed

section \<open>Multi-hop queries\<close>

text \<open>
  The specification: a chain of links from the source, each of which passes the filter, that visits no
  memory twice (the very first hop may be a link from the source to itself).
\<close>

fun link_chain :: "LinkRow list \<Rightarrow> str \<Rightarrow> LinkRow list \<Rightarrow> bool" where
  "link_chain edges s [] = True"
| "link_chain edges s (l # ls) = (l \<in> set edges \<and> l_source_id l = s \<and> link_chain edges (l_target_id l) ls)"

definition kg_chain :: "Db \<Rightarrow> str option \<Rightarrow> str list option \<Rightarrow> str \<Rightarrow> LinkRow list \<Rightarrow> bool" where
  "kg_chain db valid_at allowed_agents s ls =
     (ls \<noteq> [] \<and> link_chain (filter (hop_filter valid_at allowed_agents) (db_links db)) s ls
      \<and> distinct (map l_target_id ls) \<and> s \<notin> set (map l_target_id (tl ls)))"

definition kg_answer :: "Db \<Rightarrow> str \<Rightarrow> LinkRow list \<Rightarrow> KgQueryNode" where
  "kg_answer db s ls =
     kg_node \<lparr>cr_current = l_target_id (last ls), cr_edge = Some (last ls), cr_depth = length ls,
              cr_path = s # map l_target_id ls\<rparr>
       (the (sql_row (\<lambda>m. m_id m = l_target_id (last ls)) (db_memories db)))"

definition anchor_row :: "LinkRow \<Rightarrow> LinkRow cte_row" where
  "anchor_row l = \<lparr>cr_current = l_target_id l, cr_edge = Some l, cr_depth = 1,
     cr_path = [l_source_id l, l_target_id l]\<rparr>"

lemma walk_ok_chain:
  "cr_depth t \<le> d \<Longrightarrow> walk_ok l_source_id l_target_id edges d t es \<longleftrightarrow>
     cr_depth t + length es \<le> d \<and> link_chain edges (cr_current t) es
     \<and> distinct (map l_target_id es) \<and> set (map l_target_id es) \<inter> set (cr_path t) = {}"
proof (induction es arbitrary: t)
  case (Cons e es)
  have "walk_ok l_source_id l_target_id edges d (step_row l_target_id t e) es \<longleftrightarrow>
     cr_depth t + 1 + length es \<le> d \<and> link_chain edges (l_target_id e) es
     \<and> distinct (map l_target_id es) \<and> set (map l_target_id es) \<inter> insert (l_target_id e) (set (cr_path t)) = {}"
    if "cr_depth t < d"
    using Cons.IH [of "step_row l_target_id t e"] that by simp
  then show ?case by auto
qed simp

lemma kg_traversal_chains:
  assumes "1 \<le> d"
  shows "set (kg_traversal db s d va al) =
    {\<lparr>cr_current = l_target_id (last ls), cr_edge = Some (last ls), cr_depth = length ls,
      cr_path = s # map l_target_id ls\<rparr> | ls. kg_chain db va al s ls \<and> length ls \<le> d}"
    (is "_ = {?row ls | ls. _ ls}")
proof -
  let ?E = "filter (hop_filter va al) (db_links db)"
  have anchor: "kg_anchor ?E s = map anchor_row (filter (\<lambda>l. l_source_id l = s) ?E)"
    by (simp add: kg_anchor_def anchor_row_def)
  have walk: "walk_row l_target_id (anchor_row l) es = ?row (l # es)" if "l_source_id l = s" for l es
    using that by (intro cte_row.equality)
      (auto simp: walk_row_current walk_row_edge, simp_all add: anchor_row_def)
  have ok: "walk_ok l_source_id l_target_id ?E d (anchor_row l) es \<longleftrightarrow>
      kg_chain db va al s (l # es) \<and> length (l # es) \<le> d" if "l \<in> set ?E" "l_source_id l = s" for l es
    using that assms walk_ok_chain [of "anchor_row l" d ?E es]
    by (auto simp: kg_chain_def anchor_row_def)
  have pointwise: "(l \<in> set ?E \<and> l_source_id l = s \<and> length es < d
      \<and> walk_ok l_source_id l_target_id ?E d (anchor_row l) es \<and> t = walk_row l_target_id (anchor_row l) es)
    \<longleftrightarrow> kg_chain db va al s (l # es) \<and> length (l # es) \<le> d \<and> t = ?row (l # es)" for l es t
  proof (cases "l \<in> set ?E \<and> l_source_id l = s")
    case True
    then show ?thesis using ok [of l es] walk [of l es] by auto
  next
    case False
    then show ?thesis by (auto simp: kg_chain_def)
  qed
  have "t \<in> set (kg_traversal db s d va al) \<longleftrightarrow>
      (\<exists>l es. l \<in> set ?E \<and> l_source_id l = s \<and> length es < d
         \<and> walk_ok l_source_id l_target_id ?E d (anchor_row l) es \<and> t = walk_row l_target_id (anchor_row l) es)" for t
    unfolding kg_traversal_def Let_def cte_rows_walks anchor by auto
  also have "\<dots> t \<longleftrightarrow> (\<exists>l es. kg_chain db va al s (l # es) \<and> length (l # es) \<le> d \<and> t = ?row (l # es))" for t
    unfolding pointwise ..
  also have "\<dots> t \<longleftrightarrow> (\<exists>ls. kg_chain db va al s ls \<and> length ls \<le> d \<and> t = ?row ls)" for t
    by (metis kg_chain_def neq_Nil_conv)
  finally show ?thesis by blast
qed

lemma kg_before_key:
  "kg_before a b = (let k = (\<lambda>t. (cr_depth t, unwrap_or (l_created_at (the (cr_edge t))) (l_valid_from (the (cr_edge t))),
       l_created_at (the (cr_edge t)))) in
     fst (k a) < fst (k b) \<or> fst (k a) = fst (k b) \<and>
       (fst (snd (k a)) < fst (snd (k b)) \<or> fst (snd (k a)) = fst (snd (k b)) \<and> snd (snd (k a)) < snd (snd (k b))))"
  by (simp add: kg_before_def Let_def)

interpretation kg_order: ordering_key "\<lambda>a b. kg_before (fst a) (fst b)"
  by unfold_locales (auto simp: kg_before_key Let_def)

lemma join_memories_unique:
  assumes "db_ok db" "\<forall>t \<in> set rows. key t \<in> mem_ids db"
  shows "join_memories db key rows =
    map (\<lambda>t. (t, the (sql_row (\<lambda>m. m_id m = key t) (db_memories db)))) rows"
  using assms(2)
proof (induction rows)
  case (Cons t rows)
  then obtain m where m: "m \<in> set (db_memories db)" "m_id m = key t" by (auto simp: mem_ids_def)
  have u: "unique_key m_id (db_memories db)" using assms(1) by (simp add: db_ok_def memories_ok_def)
  have "filter (\<lambda>x. m_id x = key t) (db_memories db) = [m]"
    "sql_row (\<lambda>x. m_id x = key t) (db_memories db) = Some m"
    using filter_unique [OF u m(1)] sql_row_unique [OF u m(1)] m(2) by simp_all
  with Cons show ?case by (simp add: join_memories_def)
qed (simp add: join_memories_def)

lemma link_chain_last:
  "link_chain edges s ls \<Longrightarrow> ls \<noteq> [] \<Longrightarrow> last ls \<in> set edges"
  by (induction ls arbitrary: s) auto


section \<open>Supersession\<close>

lemma link_row_key:
  "(\<lambda>l. l_source_id l = s \<and> l_target_id l = t \<and> l_relation l = r) = (\<lambda>l. link_key l = (s, t, r))"
  by (auto simp: link_key_def)

lemma update_one_link:
  assumes "unique_key link_key ls" "l \<in> set ls" "link_key l = k"
  shows "sql_update (\<lambda>x. link_key x = k) upd ls = map (\<lambda>x. if x = l then upd l else x) ls"
proof -
  have "(link_key x = k) = (x = l)" if "x \<in> set ls" for x
    using unique_key_inj [OF assms(1) that assms(2)] assms(3) by auto
  then show ?thesis by (simp add: sql_update_def)
qed

lemma links_update_ok:
  assumes "db_ok db" "\<And>x. link_key (upd x) = link_key (x :: LinkRow)"
  shows "db_ok (db\<lparr>db_links := sql_update P upd (db_links db)\<rparr>)"
proof -
  have same: "map link_key (sql_update P upd ls) = map link_key ls" for ls
    using assms(2) by (simp add: sql_update_def)
  have "l_source_id l \<in> mem_ids db \<and> l_target_id l \<in> mem_ids db"
    if "l \<in> set (sql_update P upd (db_links db))" for l
  proof -
    have "link_key l \<in> link_key ` set (db_links db)"
      using that same [of "db_links db"] by (metis image_eqI set_map)
    with assms(1) show ?thesis by (auto simp: db_ok_def links_ok_def link_key_def)
  qed
  with assms(1) same show ?thesis
    by (auto simp: db_ok_def links_ok_def mem_ids_def unique_key_def)
qed

text \<open>superseding a link. A link that does not exist changes nothing. Otherwise exactly the row of
  that link changes: it gets the new end of validity, loses its signature, is marked unsigned if it was
  signed, and is left out of every later query at or after that instant; the store stays well-formed.
  The table of signed events is only ever appended to: a signed link adds one event, which carries the
  old signature and the digest of the new content.\<close>

theorem invalidate_link_contract:
  assumes "db_ok db"
    and res: "invalidate_link cr sha256 new_id now (db, events) s t r valid_until = (res, db', events')"
  shows "(case sql_row (\<lambda>l. link_key l = (s, t, r)) (db_links db) of
      None \<Rightarrow> res = None \<and> db' = db \<and> events' = events
    | Some l \<Rightarrow>
        (\<exists>l'. res = Some \<lparr>iv_valid_until = unwrap_or now valid_until, iv_previous_valid_until = l_valid_until l\<rparr>
          \<and> db' = db\<lparr>db_links := map (\<lambda>x. if x = l then l' else x) (db_links db)\<rparr>
          \<and> link_key l' = link_key l \<and> l_signature l' = None
          \<and> l_valid_until l' = Some (unwrap_or now valid_until)
          \<and> (\<forall>at_time agents. unwrap_or now valid_until \<le> at_time \<longrightarrow> \<not> hop_filter (Some at_time) agents l')
          \<and> (l_signature l \<noteq> None \<longrightarrow> lr_attest_level l' = Some ''unsigned''))
        \<and> (events' = events \<or> (l_signature l \<noteq> None \<and>
             (\<exists>e cbor. events' = events @ [e] \<and> se_signature e = l_signature l \<and> se_payload_hash e = sha256 cbor
               \<and> canonical_cbor cr \<lparr>sg_src_id = s, sg_dst_id = t, sg_relation = r,
                   sg_observed_by = l_observed_by l, sg_valid_from = l_valid_from l,
                   sg_valid_until = Some (unwrap_or now valid_until)\<rparr> = Some cbor))))
    \<and> db_ok db'"
proof (cases "sql_row (\<lambda>l. link_key l = (s, t, r)) (db_links db)")
  case None
  with assms show ?thesis by (simp add: invalidate_link_def link_row_key)
next
  case (Some l)
  define upd :: "LinkRow \<Rightarrow> LinkRow" where "upd = (if l_signature l \<noteq> None
    then (\<lambda>l. l\<lparr>l_valid_until := Some (unwrap_or now valid_until), l_signature := None, lr_attest_level := Some ''unsigned''\<rparr>)
    else (\<lambda>l. l\<lparr>l_valid_until := Some (unwrap_or now valid_until)\<rparr>))"
  have key: "link_key (upd x) = link_key x" for x by (simp add: upd_def link_key_def)
  have res': "res = Some \<lparr>iv_valid_until = unwrap_or now valid_until, iv_previous_valid_until = l_valid_until l\<rparr>"
    "db' = db\<lparr>db_links := sql_update (\<lambda>x. link_key x = (s, t, r)) upd (db_links db)\<rparr>"
    using res Some by (auto simp: invalidate_link_def link_row_key Let_def upd_def)
  have "l \<in> set (db_links db)" "link_key l = (s, t, r)" using sql_row_SomeD [OF Some] by auto
  then have "db' = db\<lparr>db_links := map (\<lambda>x. if x = l then upd l else x) (db_links db)\<rparr>"
    using assms(1) unfolding res'(2) by (simp add: update_one_link db_ok_def links_ok_def)
  moreover have "db_ok db'" unfolding res'(2) by (rule links_update_ok [OF assms(1) key])
  moreover have "link_key (upd l) = link_key l" "l_signature (upd l) = None"
    "l_valid_until (upd l) = Some (unwrap_or now valid_until)"
    "l_signature l \<noteq> None \<longrightarrow> lr_attest_level (upd l) = Some ''unsigned''"
    by (auto simp: upd_def link_key_def)
  moreover from this(3) have "\<forall>at_time agents. unwrap_or now valid_until \<le> at_time \<longrightarrow> \<not> hop_filter (Some at_time) agents (upd l)"
    by (auto simp: hop_filter_def opt_ok_def)
  moreover have "events' = events \<or> (l_signature l \<noteq> None \<and>
      (\<exists>e cbor. events' = events @ [e] \<and> se_signature e = l_signature l \<and> se_payload_hash e = sha256 cbor
        \<and> canonical_cbor cr \<lparr>sg_src_id = s, sg_dst_id = t, sg_relation = r,
            sg_observed_by = l_observed_by l, sg_valid_from = l_valid_from l,
            sg_valid_until = Some (unwrap_or now valid_until)\<rparr> = Some cbor))"
    using res Some
    by (auto simp: invalidate_link_def link_row_key Let_def append_signed_event_def unwrap_or_def
        split: if_splits option.splits)
  ultimately show ?thesis using Some res'(1) by (auto intro!: exI [of _ "upd l"])
qed

section \<open>Concrete instances\<close>

definition ex_graph :: Db where
  "ex_graph = snd (create_link ''2026-01-03'' ex_db ''m1'' ''m2'' ''related_to'')"

lemma ex_graph_ok: "db_ok ex_graph"
  unfolding ex_graph_def by (rule create_link_ok [OF ex_db_ok])

lemma take_singleton: "take 5 xs = [x] \<Longrightarrow> xs = [x]"
  by (cases xs; cases "tl xs") (simp_all add: numeral_eq_Suc)

theorem find_paths_exact_witness:
  "{p. simple_path ex_graph ''m2'' ''m1'' p \<and> length p \<le> 3} = {[''m2'', ''m1'']}"
proof -
  have "find_paths concat ex_graph ''m2'' ''m1'' (Some 2) (Some 5) = Inr [[''m2'', ''m1'']]" by code_simp
  moreover obtain ps where ps: "find_paths concat ex_graph ''m2'' ''m1'' (Some 2) (Some 5) =
      Inr (take (clamp 1 FIND_PATHS_MAX_LIMIT (unwrap_or FIND_PATHS_DEFAULT_LIMIT (Some 5))) ps)"
    "set ps = {p. simple_path ex_graph ''m2'' ''m1'' p \<and> length p \<le> 2 + 1}"
    using find_paths_exact [of "''m2''" "''m1''" 2 concat ex_graph "Some 5"]
    by (auto simp: FIND_PATHS_MAX_DEPTH_def)
  moreover have "clamp 1 FIND_PATHS_MAX_LIMIT (unwrap_or FIND_PATHS_DEFAULT_LIMIT (Some 5)) = 5"
    by (simp add: clamp_def FIND_PATHS_MAX_LIMIT_def unwrap_or_def)
  ultimately have "take 5 ps = [[''m2'', ''m1'']]" by simp
  then have "ps = [[''m2'', ''m1'']]" by (rule take_singleton)
  with ps(2) show ?thesis by simp
qed


theorem invalidate_link_contract_witness:
  "let (res, db', events') = invalidate_link no_crypto (\<lambda>b. b) ''e1'' ''2026-01-05'' (ex_graph, []) ''m1'' ''m2''
       ''related_to'' None in
   res = Some \<lparr>iv_valid_until = ''2026-01-05'', iv_previous_valid_until = None\<rparr> \<and> db_ok db'"
proof -
  let ?run = "invalidate_link no_crypto (\<lambda>b. b) ''e1'' ''2026-01-05'' (ex_graph, []) ''m1'' ''m2'' ''related_to'' None"
  obtain res db' events' where r: "?run = (res, db', events')" by (metis prod_cases3)
  have "fst ?run = Some \<lparr>iv_valid_until = ''2026-01-05'', iv_previous_valid_until = None\<rparr>" by code_simp
  with r invalidate_link_contract [OF ex_graph_ok r] show ?thesis by simp
qed

end
