(* ===== verification/Catalog.thy ===== *)
theory Catalog
  imports Search Embeddings Governance
begin

text \<open>
  What the store says about itself (\<open>src/db.rs\<close>): entities and their aliases, registered agents,
  the taxonomy of namespaces, statistics and the search for near duplicates. A fresh UUID is \<open>new_id\<close>, the
  clock is \<open>now\<close>; the cosine of two embeddings is the parameter \<open>cosine\<close>, with the values of a float.
\<close>

subsection \<open>Entities\<close>

definition ENTITY_TAG :: str where "ENTITY_TAG = ''entity''"
definition ENTITY_KIND :: str where "ENTITY_KIND = ''entity''"

record AliasRow =
  al_entity_id :: str
  al_alias :: str
  al_created_at :: str

record EntityRecord =
  er_entity_id :: str
  er_canonical_name :: str
  er_namespace :: str
  er_aliases :: "str list"

record EntityRegistration = EntityRecord +
  er_created :: bool

datatype EntityError = TitleTaken str str | EntityInsert DbError

text \<open>\<open>COALESCE(json_extract(metadata, '$.kind'), '') = 'entity'\<close>\<close>

definition is_entity :: "'a Memory_scheme \<Rightarrow> bool" where
  "is_entity r = (sql_json_extract (m_metadata r) ''kind'' = Some (JStr ENTITY_KIND))"

definition alias_key :: "AliasRow \<Rightarrow> str \<times> str" where
  "alias_key a = (al_entity_id a, al_alias a)"

definition alias_before :: "AliasRow \<Rightarrow> AliasRow \<Rightarrow> bool" where
  "alias_before a b =
     (al_created_at a < al_created_at b \<or> (al_created_at a = al_created_at b \<and> al_alias a < al_alias b))"

definition list_entity_aliases :: "AliasRow list \<Rightarrow> str \<Rightarrow> str list" where
  "list_entity_aliases aliases entity_id =
     map al_alias (order_by alias_before (filter (\<lambda>a. al_entity_id a = entity_id) aliases))"

definition entity_metadata :: "json \<Rightarrow> str option \<Rightarrow> json" where
  "entity_metadata extra agent_id =
     (let m0 = (case extra of JObj kvs \<Rightarrow> kvs | _ \<Rightarrow> []);
          m1 = obj_insert ''kind'' (JStr ENTITY_KIND) m0
      in JObj (case agent_id of
                 Some a \<Rightarrow> if map_of m1 ''agent_id'' = None then obj_insert ''agent_id'' (JStr a) m1 else m1
               | None \<Rightarrow> m1))"

definition add_aliases :: "str \<Rightarrow> str \<Rightarrow> str list \<Rightarrow> AliasRow list \<Rightarrow> AliasRow list" where
  "add_aliases now entity_id new_aliases table =
     fold (\<lambda>alias t. if trim alias = [] then t
             else sql_insert_ignore alias_key
                    \<lparr>al_entity_id = entity_id, al_alias = trim alias, al_created_at = now\<rparr> t)
       new_aliases table"

definition entity_register ::
    "str \<Rightarrow> str \<Rightarrow> Db \<times> AliasRow list \<Rightarrow> str \<Rightarrow> str \<Rightarrow> str list \<Rightarrow> json \<Rightarrow> str option
       \<Rightarrow> (EntityError + EntityRegistration) \<times> Db \<times> AliasRow list" where
  "entity_register new_id now st canonical_name namespace aliases extra_metadata agent_id =
     (case st of (db, table) \<Rightarrow>
      let named = (\<lambda>r. m_namespace r = namespace \<and> m_title r = canonical_name);
          finish = (\<lambda>entity_id created db.
            let table' = add_aliases now entity_id aliases table in
            (Inr \<lparr>er_entity_id = entity_id, er_canonical_name = canonical_name, er_namespace = namespace,
                  er_aliases = list_entity_aliases table' entity_id, er_created = created\<rparr>, db, table'))
      in case sql_row (\<lambda>r. named r \<and> is_entity r) (db_memories db) of
           Some r \<Rightarrow> finish (m_id r) False db
         | None \<Rightarrow>
             if sql_row (\<lambda>r. named r \<and> \<not> is_entity r) (db_memories db) \<noteq> None
             then (Inl (TitleTaken canonical_name namespace), db, table)
             else
               case insert_mem db
                 \<lparr>m_id = new_id, m_tier = Long, m_namespace = namespace, m_title = canonical_name,
                  m_content = canonical_name, m_tags = [ENTITY_TAG], m_priority = 7, m_confidence = Fin 1,
                  m_source = ''api'', m_access_count = 0, m_created_at = now, m_updated_at = now,
                  m_last_accessed_at = None, m_expires_at = None,
                  m_metadata = entity_metadata extra_metadata agent_id\<rparr> of
                 (Inl e, db') \<Rightarrow> (Inl (EntityInsert e), db', table)
               | (Inr i, db') \<Rightarrow> finish i True db')"

text \<open>The first row of a query that orders by \<open>created_at\<close> descending.\<close>

definition entity_get_by_alias :: "Db \<times> AliasRow list \<Rightarrow> str \<Rightarrow> str option \<Rightarrow> EntityRecord option" where
  "entity_get_by_alias st alias namespace =
     (case st of (db, table) \<Rightarrow>
      let trimmed = trim alias in
      if trimmed = [] then None
      else
        let holders = map al_entity_id (filter (\<lambda>a. al_alias a = trimmed) table);
            rows = concat (map (\<lambda>i. filter (\<lambda>r. m_id r = i \<and> is_entity r
                                             \<and> opt_ok (\<lambda>ns. m_namespace r = ns) namespace) (db_memories db)) holders)
        in case order_by (\<lambda>a b. m_created_at a > m_created_at b) rows of
             [] \<Rightarrow> None
           | r # _ \<Rightarrow> Some \<lparr>er_entity_id = m_id r, er_canonical_name = m_title r,
                            er_namespace = m_namespace r, er_aliases = list_entity_aliases table (m_id r)\<rparr>)"

subsection \<open>Agents\<close>

record AgentRegistration =
  ag_agent_id :: str
  ag_agent_type :: str
  ag_capabilities :: "str list"
  ag_registered_at :: str
  ag_last_seen_at :: str

text \<open>\<open>to_string\<close> is \<open>serde_json::to_string\<close>, the content of the row.\<close>

definition register_agent ::
    "(json \<Rightarrow> str) \<Rightarrow> str \<Rightarrow> str \<Rightarrow> Db \<Rightarrow> str \<Rightarrow> str \<Rightarrow> str list \<Rightarrow> str db_result" where
  "register_agent to_string new_id now db agent_id agent_type capabilities =
     (let title = ''agent:'' @ agent_id;
          registered_at =
            (case sql_row (\<lambda>r. m_namespace r = AGENTS_NAMESPACE \<and> m_title r = title) (db_memories db) of
               Some r \<Rightarrow> (case sql_json_extract (m_metadata r) ''registered_at'' of
                            Some (JStr s) \<Rightarrow> s | _ \<Rightarrow> now)
             | None \<Rightarrow> now);
          metadata = JObj [(''agent_id'', JStr agent_id), (''agent_type'', JStr agent_type),
                           (''capabilities'', JArr (map JStr capabilities)),
                           (''registered_at'', JStr registered_at), (''last_seen_at'', JStr now)]
      in insert_mem db
           \<lparr>m_id = new_id, m_tier = Long, m_namespace = AGENTS_NAMESPACE, m_title = title,
            m_content = to_string metadata, m_tags = [''agent-registration''], m_priority = 5,
            m_confidence = Fin 1, m_source = ''system'', m_access_count = 0, m_created_at = now,
            m_updated_at = now, m_last_accessed_at = None, m_expires_at = None, m_metadata = metadata\<rparr>)"

definition meta_str :: "json \<Rightarrow> str \<Rightarrow> str" where
  "meta_str meta k = (case json_get meta k of Some (JStr s) \<Rightarrow> s | _ \<Rightarrow> [])"

definition meta_strs :: "json \<Rightarrow> str \<Rightarrow> str list" where
  "meta_strs meta k = (case json_get meta k of Some (JArr vs) \<Rightarrow> List.map_filter json_str vs | _ \<Rightarrow> [])"

definition agent_of_metadata :: "json \<Rightarrow> AgentRegistration" where
  "agent_of_metadata meta =
     \<lparr>ag_agent_id = meta_str meta ''agent_id'', ag_agent_type = meta_str meta ''agent_type'',
      ag_capabilities = meta_strs meta ''capabilities'',
      ag_registered_at = meta_str meta ''registered_at'',
      ag_last_seen_at = meta_str meta ''last_seen_at''\<rparr>"

text \<open>\<open>sql_lt\<close> is the order SQLite gives to the extracted values, NULL and mixed types included.\<close>

definition list_agents :: "(json option \<Rightarrow> json option \<Rightarrow> bool) \<Rightarrow> str \<Rightarrow> Db \<Rightarrow> AgentRegistration list" where
  "list_agents sql_lt now db =
     map (\<lambda>r. agent_of_metadata (m_metadata r))
       (order_by (\<lambda>a b. sql_lt (sql_json_extract (m_metadata a) ''registered_at'')
                          (sql_json_extract (m_metadata b) ''registered_at''))
         (filter (\<lambda>r. m_namespace r = AGENTS_NAMESPACE \<and> not_expired now r) (db_memories db)))"

subsection \<open>Namespaces\<close>

text \<open>\<open>GROUP BY key\<close> with \<open>COUNT(*)\<close>.\<close>

definition group_counts :: "('r \<Rightarrow> 'k) \<Rightarrow> 'r list \<Rightarrow> ('k \<times> nat) list" where
  "group_counts key rows =
     map (\<lambda>k. (k, length (filter (\<lambda>r. key r = k) rows))) (remdups (map key rows))"

definition list_namespaces :: "str \<Rightarrow> Db \<Rightarrow> (str \<times> nat) list" where
  "list_namespaces now db =
     order_by (\<lambda>a b. snd a > snd b) (group_counts m_namespace (filter (not_expired now) (db_memories db)))"

text \<open>\<open>LIKE\<close> without an escape character: percent sign and underscore are always wildcards.\<close>

definition plain_tok :: "char \<Rightarrow> like_tok" where
  "plain_tok c = (if c = CHR ''%'' then AnySeq else if c = CHR ''_'' then AnyOne else Lit c)"

definition sql_like_plain :: "str \<Rightarrow> str \<Rightarrow> bool" where
  "sql_like_plain s pat = like_toks (map plain_tok pat) s"

definition TAXONOMY_MAX_LIMIT :: nat where "TAXONOMY_MAX_LIMIT = 10000"

datatype TaxonomyNode = TaxonomyNode (tx_namespace: str) (tx_name: str) (tx_count: nat)
  (tx_subtree_count: nat) (tx_children: "TaxonomyNode list")

record Taxonomy =
  ty_tree :: TaxonomyNode
  ty_total_count :: nat
  ty_truncated :: bool

definition push_segment :: "str \<Rightarrow> str \<Rightarrow> str" where
  "push_segment path seg = (if path = [] then seg else path @ ''/'' @ seg)"

text \<open>
  The walk of one group into the tree below a node: find or append the child of the next segment, add
  the count to its subtree, and at the last visible segment to its own count if nothing was cut off.
\<close>

fun update_child :: "str \<Rightarrow> TaxonomyNode \<Rightarrow> (TaxonomyNode \<Rightarrow> TaxonomyNode) \<Rightarrow> TaxonomyNode list \<Rightarrow> TaxonomyNode list" where
  "update_child seg fresh f [] = [f fresh]"
| "update_child seg fresh f (n # ns) = (if tx_name n = seg then f n # ns else n # update_child seg fresh f ns)"

fun walk_in :: "str list \<Rightarrow> str \<Rightarrow> nat \<Rightarrow> bool \<Rightarrow> TaxonomyNode list \<Rightarrow> TaxonomyNode list" where
  "walk_in [] path c exact children = children"
| "walk_in (seg # rest) path c exact children =
     (let path' = push_segment path seg in
      update_child seg (TaxonomyNode path' seg 0 0 [])
        (\<lambda>n. TaxonomyNode (tx_namespace n) (tx_name n)
               (tx_count n + (if rest = [] \<and> exact then c else 0)) (tx_subtree_count n + c)
               (walk_in rest path' c exact (tx_children n)))
        children)"

definition taxonomy_suffix :: "str \<Rightarrow> str \<Rightarrow> str option" where
  "taxonomy_suffix pre ns =
     (if pre = [] then Some ns
      else if ns = pre then Some []
      else if length ns > length pre + 1 \<and> prefix pre ns \<and> ns ! length pre = CHR ''/''
      then Some (drop (length pre + 1) ns)
      else None)"

definition suffix_segments :: "str \<Rightarrow> str list" where
  "suffix_segments sfx = (if sfx = [] then [] else split_on CHR ''/'' sfx)"

definition add_group :: "str \<Rightarrow> nat \<Rightarrow> str \<times> nat \<Rightarrow> TaxonomyNode \<Rightarrow> TaxonomyNode" where
  "add_group pre depth g node =
     (case taxonomy_suffix pre (fst g) of
        None \<Rightarrow> node
      | Some sfx \<Rightarrow>
          let all_segments = suffix_segments sfx;
              used = take depth all_segments;
              exact = (length used = length all_segments)
          in TaxonomyNode (tx_namespace node) (tx_name node)
               (tx_count node + (if used = [] then snd g else 0)) (tx_subtree_count node + snd g)
               (walk_in used pre (snd g) exact (tx_children node)))"

function sort_taxonomy :: "TaxonomyNode \<Rightarrow> TaxonomyNode" where
  "sort_taxonomy (TaxonomyNode ns nm c s ch) = TaxonomyNode ns nm c s (map sort_taxonomy (sort_key tx_name ch))"
  by pat_completeness auto
termination
proof (relation "measure size")
  fix ns nm c s ch x
  assume "x \<in> set (sort_key tx_name ch)"
  then have "x \<in> set ch" by simp
  then have "size x \<le> size_list size ch" by (rule size_list_estimation') simp
  then show "(x, TaxonomyNode ns nm c s ch) \<in> measure size" by simp
qed simp

definition taxonomy_where :: "str \<Rightarrow> str \<Rightarrow> MemRow \<Rightarrow> bool" where
  "taxonomy_where now pre r =
     (not_expired now r \<and> (pre = [] \<or> m_namespace r = pre \<or> sql_like_plain (m_namespace r) (pre @ ''/%'')))"

definition get_taxonomy :: "str \<Rightarrow> Db \<Rightarrow> str option \<Rightarrow> nat \<Rightarrow> nat \<Rightarrow> Taxonomy" where
  "get_taxonomy now db namespace_prefix max_depth limit =
     (let effective_limit = min limit TAXONOMY_MAX_LIMIT;
          effective_depth = min max_depth MAX_NAMESPACE_DEPTH;
          pre = (case namespace_prefix of None \<Rightarrow> [] | Some p \<Rightarrow> p);
          rows = filter (taxonomy_where now pre) (db_memories db);
          groups = take effective_limit
            (order_by (\<lambda>a b. snd a > snd b \<or> (snd a = snd b \<and> fst a < fst b)) (group_counts m_namespace rows));
          walked_count = sum_list (map snd groups);
          root_node = TaxonomyNode pre (last (split_on CHR ''/'' pre)) 0 0 []
      in \<lparr>ty_tree = sort_taxonomy (fold (add_group pre effective_depth) groups root_node),
          ty_total_count = length rows, ty_truncated = (walked_count < length rows)\<rparr>)"

subsection \<open>Near duplicates\<close>

definition f64_ge :: "f64 \<Rightarrow> f64 \<Rightarrow> bool" where
  "f64_ge a b = (f64_lt b a \<or> (a = b \<and> a \<noteq> NaN))"

text \<open>\<open>f32::max\<close> with the hard floor of one half; a NaN gives the other operand.\<close>

definition DUPLICATE_THRESHOLD_MIN :: f64 where "DUPLICATE_THRESHOLD_MIN = Fin (1 / 2)"

definition f64_max :: "f64 \<Rightarrow> f64 \<Rightarrow> f64" where
  "f64_max a b = (if a = NaN then b else if b = NaN then a else if f64_lt a b then b else a)"

record DuplicateMatch =
  dm_id :: str
  dm_title :: str
  dm_namespace :: str
  dm_similarity :: f64

record DuplicateCheck =
  dc_is_duplicate :: bool
  dc_threshold :: f64
  dc_nearest :: "DuplicateMatch option"
  dc_candidates_scanned :: nat

definition duplicate_rows :: "str \<Rightarrow> Db \<Rightarrow> str option \<Rightarrow> MemRow list" where
  "duplicate_rows now db namespace =
     filter (\<lambda>r. r_embedding r \<noteq> None \<and> not_expired now r \<and> opt_ok (\<lambda>ns. m_namespace r = ns) namespace)
       (db_memories db)"

definition scan_candidate ::
    "(32 word list \<Rightarrow> 32 word list \<Rightarrow> f64) \<Rightarrow> 32 word list \<Rightarrow> MemRow \<Rightarrow> DuplicateMatch option \<times> nat
       \<Rightarrow> DuplicateMatch option \<times> nat" where
  "scan_candidate cosine query r acc =
     (case acc of (best, scanned) \<Rightarrow>
      let bytes = the (r_embedding r) in
      if bytes = [] then acc
      else case decode_embedding_blob bytes of
          Inl _ \<Rightarrow> acc
        | Inr candidate \<Rightarrow>
            if length candidate \<noteq> length query then acc
            else
              let similarity = cosine query candidate;
                  is_better = (case best of None \<Rightarrow> True | Some m \<Rightarrow> f64_lt (dm_similarity m) similarity)
              in (if is_better
                  then Some \<lparr>dm_id = m_id r, dm_title = m_title r, dm_namespace = m_namespace r,
                             dm_similarity = similarity\<rparr>
                  else best, scanned + 1))"

definition check_duplicate ::
    "(32 word list \<Rightarrow> 32 word list \<Rightarrow> f64) \<Rightarrow> str \<Rightarrow> Db \<Rightarrow> 32 word list \<Rightarrow> str option \<Rightarrow> f64 \<Rightarrow> DuplicateCheck" where
  "check_duplicate cosine now db query namespace threshold =
     (let effective_threshold = f64_max threshold DUPLICATE_THRESHOLD_MIN;
          (best, scanned) = fold (scan_candidate cosine query) (duplicate_rows now db namespace) (None, 0)
      in \<lparr>dc_is_duplicate = (case best of None \<Rightarrow> False | Some m \<Rightarrow> f64_ge (dm_similarity m) effective_threshold),
          dc_threshold = effective_threshold, dc_nearest = best, dc_candidates_scanned = scanned\<rparr>)"

subsection \<open>Statistics\<close>

record Stats =
  st_total :: nat
  st_by_tier :: "(Tier \<times> nat) list"
  st_by_namespace :: "(str \<times> nat) list"
  st_expiring_soon :: nat
  st_links_count :: nat
  st_db_size_bytes :: nat
  st_dim_violations :: nat
  st_index_evictions_total :: nat

text \<open>\<open>one_hour\<close> is the instant one hour after \<open>now\<close>; file size and index evictions are read from outside the store.\<close>

definition stats :: "str \<Rightarrow> str \<Rightarrow> nat \<Rightarrow> nat \<Rightarrow> Db \<Rightarrow> Stats" where
  "stats now one_hour db_size_bytes evictions db =
     \<lparr>st_total = length (db_memories db),
      st_by_tier = order_by (\<lambda>a b. snd a > snd b) (group_counts m_tier (db_memories db)),
      st_by_namespace = order_by (\<lambda>a b. snd a > snd b) (group_counts m_namespace (db_memories db)),
      st_expiring_soon = sql_count (\<lambda>r. case m_expires_at r of None \<Rightarrow> False | Some e \<Rightarrow> e > now \<and> e \<le> one_hour)
        (db_memories db),
      st_links_count = length (db_links db), st_db_size_bytes = db_size_bytes,
      st_dim_violations = dim_violations db, st_index_evictions_total = evictions\<rparr>"

section \<open>The taxonomy\<close>

text \<open>Looking up a node by its segments; an absent node counts nothing.\<close>

fun tx_find :: "str list \<Rightarrow> TaxonomyNode list \<Rightarrow> TaxonomyNode option" where
  "tx_find [] ch = None"
| "tx_find [seg] ch = find (\<lambda>n. tx_name n = seg) ch"
| "tx_find (seg # s # ss) ch =
     (case find (\<lambda>n. tx_name n = seg) ch of None \<Rightarrow> None | Some n \<Rightarrow> tx_find (s # ss) (tx_children n))"

definition opt_count :: "('a \<Rightarrow> nat) \<Rightarrow> 'a option \<Rightarrow> nat" where
  "opt_count f x = (case x of None \<Rightarrow> 0 | Some n \<Rightarrow> f n)"

lemma opt_count_simps [simp]: "opt_count f None = 0" "opt_count f (Some n) = f n"
  by (simp_all add: opt_count_def)

lemma find_update_child:
  assumes "tx_name fresh = seg" "\<And>n. tx_name (f n) = tx_name n"
  shows "find (\<lambda>n. tx_name n = k) (update_child seg fresh f ch) =
    (if k = seg then Some (f (case find (\<lambda>n. tx_name n = seg) ch of None \<Rightarrow> fresh | Some n \<Rightarrow> n))
     else find (\<lambda>n. tx_name n = k) ch)"
  by (induction ch) (auto simp: assms)

lemma segments_cases:
  obtains (none) "q = []" | (one) k where "q = [k]" | (more) k k' ks where "q = k # k' # ks"
  by (metis neq_Nil_conv)

lemma tx_find_Nil: "tx_find q [] = None"
  by (cases q rule: segments_cases) auto

lemma walk_in_counts:
  "q \<noteq> [] \<Longrightarrow>
     opt_count tx_subtree_count (tx_find q (walk_in s path c exact ch)) =
       opt_count tx_subtree_count (tx_find q ch) + (if prefix q s then c else 0)
   \<and> opt_count tx_count (tx_find q (walk_in s path c exact ch)) =
       opt_count tx_count (tx_find q ch) + (if q = s \<and> exact then c else 0)
   \<and> (tx_find q (walk_in s path c exact ch) \<noteq> None \<longleftrightarrow> tx_find q ch \<noteq> None \<or> prefix q s)"
proof (induction s arbitrary: q path ch)
  case Nil
  then show ?case by auto
next
  case (Cons seg rest)
  show ?case
  proof (cases q rule: segments_cases)
    case none
    with Cons.prems show ?thesis by simp
  next
    case (one k)
    then show ?thesis by (auto simp: Let_def find_update_child split: option.splits)
  next
    case (more k k' ks)
    then show ?thesis
      using Cons.IH [of "k' # ks"] by (auto simp: Let_def find_update_child tx_find_Nil split: option.splits)
  qed
qed

text \<open>Well-formed subtrees: siblings have distinct names and every node carries its own path.\<close>

fun tx_wf :: "str \<Rightarrow> TaxonomyNode \<Rightarrow> bool" where
  "tx_wf path (TaxonomyNode ns nm c s ch) =
     (ns = push_segment path nm \<and> distinct (map tx_name ch) \<and> list_all (tx_wf ns) ch)"

definition tx_wf_list :: "str \<Rightarrow> TaxonomyNode list \<Rightarrow> bool" where
  "tx_wf_list path ch = (distinct (map tx_name ch) \<and> list_all (tx_wf path) ch)"

fun tx_nodes :: "TaxonomyNode \<Rightarrow> TaxonomyNode list" where
  "tx_nodes (TaxonomyNode ns nm c s ch) = TaxonomyNode ns nm c s ch # concat (map tx_nodes ch)"

lemma tx_nodes_def2: "tx_nodes n = n # concat (map tx_nodes (tx_children n))"
  by (cases n) simp

lemma tx_nodes_self [simp]: "n \<in> set (tx_nodes n)"
  by (cases n) simp

lemma tx_wf_def2: "tx_wf path n = (tx_namespace n = push_segment path (tx_name n) \<and> tx_wf_list (tx_namespace n) (tx_children n))"
  by (cases n) (simp add: tx_wf_list_def)

lemma wf_update_child:
  assumes "tx_wf_list path ch" "tx_name fresh = seg" "tx_wf path fresh" "\<And>n. tx_name (f n) = tx_name n"
    "\<And>n. tx_wf path n \<Longrightarrow> tx_name n = seg \<Longrightarrow> tx_wf path (f n)"
  shows "tx_wf_list path (update_child seg fresh f ch)
    \<and> set (map tx_name (update_child seg fresh f ch)) = insert seg (set (map tx_name ch))"
  using assms(1) by (induction ch) (auto simp: tx_wf_list_def assms)

lemma wf_walk_in: "tx_wf_list path ch \<Longrightarrow> tx_wf_list path (walk_in s path c exact ch)"
proof (induction s arbitrary: path ch)
  case (Cons seg rest)
  let ?p = "push_segment path seg"
  have "tx_wf_list path (update_child seg (TaxonomyNode ?p seg 0 0 []) (\<lambda>n. TaxonomyNode (tx_namespace n) (tx_name n)
        (tx_count n + (if rest = [] \<and> exact then c else 0)) (tx_subtree_count n + c)
        (walk_in rest ?p c exact (tx_children n))) ch)"
    using Cons by (intro wf_update_child [THEN conjunct1]) (auto simp: tx_wf_def2 tx_wf_list_def)
  then show ?case by (simp add: Let_def)
qed simp

definition node_at :: "str list \<Rightarrow> TaxonomyNode \<Rightarrow> TaxonomyNode option" where
  "node_at q t = (if q = [] then Some t else tx_find q (tx_children t))"

lemma tx_find_Cons:
  "tx_find (k # q) ch = (case find (\<lambda>n. tx_name n = k) ch of None \<Rightarrow> None | Some n \<Rightarrow> node_at q n)"
  by (cases q) (auto simp: node_at_def split: option.splits)

lemma node_at_nodes: "node_at q t = Some n \<Longrightarrow> n \<in> set (tx_nodes t)"
proof (induction q arbitrary: t)
  case Nil
  then show ?case by (simp add: node_at_def)
next
  case (Cons k q)
  then obtain m where m: "find (\<lambda>n. tx_name n = k) (tx_children t) = Some m" "node_at q m = Some n"
    by (auto simp: node_at_def tx_find_Cons split: option.splits)
  with Cons.IH find_Some_mem [OF m(1)] show ?case by (auto simp: tx_nodes_def2 [of t])
qed

lemma find_distinct_name:
  "distinct (map tx_name ch) \<Longrightarrow> n \<in> set ch \<Longrightarrow> find (\<lambda>m. tx_name m = tx_name n) ch = Some n"
  by (induction ch) auto

lemma nodes_node_at:
  "tx_wf_list (tx_namespace t) (tx_children t) \<Longrightarrow> n \<in> set (tx_nodes t) \<Longrightarrow>
     \<exists>q. node_at q t = Some n \<and> tx_namespace n = foldl push_segment (tx_namespace t) q"
proof (induction t rule: tx_nodes.induct)
  case (1 ns nm c s ch)
  show ?case
  proof (cases "n = TaxonomyNode ns nm c s ch")
    case True
    then show ?thesis by (intro exI [of _ "[]"]) (simp add: node_at_def)
  next
    case False
    with "1.prems" obtain m where m: "m \<in> set ch" "n \<in> set (tx_nodes m)" by auto
    with "1.prems" have wf: "tx_wf ns m" by (auto simp: tx_wf_list_def list_all_iff)
    then obtain q where q: "node_at q m = Some n" "tx_namespace n = foldl push_segment (tx_namespace m) q"
      using "1.IH" [OF m(1)] m(2) by (auto simp: tx_wf_def2)
    have "find (\<lambda>x. tx_name x = tx_name m) ch = Some m"
      using find_distinct_name m(1) "1.prems"(1) by (simp add: tx_wf_list_def)
    with q wf show ?thesis
      by (intro exI [of _ "tx_name m # q"]) (simp add: node_at_def [of "_ # _"] tx_find_Cons tx_wf_def2)
  qed
qed

text \<open>Sorting moves nodes and changes none of their columns.\<close>

definition tx_data :: "TaxonomyNode \<Rightarrow> str \<times> nat \<times> nat" where
  "tx_data n = (tx_namespace n, tx_count n, tx_subtree_count n)"

lemma sort_taxonomy_data:
  "tx_data ` set (tx_nodes (sort_taxonomy t)) = tx_data ` set (tx_nodes t)"
proof (induction t rule: sort_taxonomy.induct)
  case (1 ns nm c s ch)
  then have "(\<Union>x\<in>set ch. tx_data ` set (tx_nodes (sort_taxonomy x))) = (\<Union>x\<in>set ch. tx_data ` set (tx_nodes x))"
    by simp
  then show ?case by (simp add: tx_data_def [of "TaxonomyNode _ _ _ _ _"] image_UN)
qed

lemma group_sum_aux:
  "finite K \<Longrightarrow> key ` set rows \<subseteq> K \<Longrightarrow>
     (\<Sum>k \<in> K. if P k then length (filter (\<lambda>r. key r = k) rows) else 0) = length (filter (\<lambda>r. P (key r)) rows)"
proof (induction rows)
  case (Cons r rows)
  have "(\<Sum>k \<in> K. if P k then length (filter (\<lambda>x. key x = k) (r # rows)) else 0) =
      (\<Sum>k \<in> K. (if P k then length (filter (\<lambda>x. key x = k) rows) else 0) + (if k = key r then (if P k then 1 else 0) else 0))"
    by (intro sum.cong) auto
  also have "\<dots> = length (filter (\<lambda>r. P (key r)) (r # rows))"
    using Cons by (simp add: sum.distrib sum.delta)
  finally show ?case .
qed simp

lemma group_sum:
  "sum_list (map snd (filter (\<lambda>g. P (fst g)) (group_counts key rows))) = length (filter (\<lambda>r. P (key r)) rows)"
proof -
  let ?ks = "remdups (map key rows)"
  have "sum_list (map snd (filter (\<lambda>g. P (fst g)) (group_counts key rows))) =
      sum_list (map (\<lambda>k. if P k then length (filter (\<lambda>r. key r = k) rows) else 0) ?ks)"
    by (simp add: group_counts_def filter_map comp_def sum_list_map_filter')
  also have "\<dots> = (\<Sum>k \<in> key ` set rows. if P k then length (filter (\<lambda>r. key r = k) rows) else 0)"
    by (simp add: sum_list_distinct_conv_sum_set)
  also have "\<dots> = length (filter (\<lambda>r. P (key r)) rows)"
    by (rule group_sum_aux) simp_all
  finally show ?thesis .
qed

text \<open>Which groups reach a node: those whose visible segments start with the address of the node.\<close>

definition reaches :: "str \<Rightarrow> nat \<Rightarrow> str list \<Rightarrow> str \<Rightarrow> bool" where
  "reaches pre d q ns = (case taxonomy_suffix pre ns of None \<Rightarrow> False | Some sfx \<Rightarrow> prefix q (take d (suffix_segments sfx)))"

definition lands :: "str \<Rightarrow> nat \<Rightarrow> str list \<Rightarrow> str \<Rightarrow> bool" where
  "lands pre d q ns = (case taxonomy_suffix pre ns of None \<Rightarrow> False | Some sfx \<Rightarrow> suffix_segments sfx = q \<and> length q \<le> d)"

lemma add_group_counts:
  assumes "0 < d"
  shows "opt_count tx_subtree_count (node_at q (add_group pre d g t)) =
      opt_count tx_subtree_count (node_at q t) + (if reaches pre d q (fst g) then snd g else 0)
    \<and> opt_count tx_count (node_at q (add_group pre d g t)) =
      opt_count tx_count (node_at q t) + (if lands pre d q (fst g) then snd g else 0)
    \<and> (node_at q (add_group pre d g t) \<noteq> None \<longleftrightarrow> node_at q t \<noteq> None \<or> reaches pre d q (fst g))"
proof (cases "taxonomy_suffix pre (fst g)")
  case None
  then show ?thesis by (simp add: add_group_def reaches_def lands_def)
next
  case (Some sfx)
  let ?S = "suffix_segments sfx"
  have "q = take d ?S \<and> length (take d ?S) = length ?S \<longleftrightarrow> ?S = q \<and> length q \<le> d"
    by (auto simp: min_def)
  with Some assms show ?thesis
    using walk_in_counts [of q "take d ?S" pre "snd g" "length (take d ?S) = length ?S" "tx_children t"]
    by (cases "q = []") (auto simp: add_group_def reaches_def lands_def node_at_def Let_def)
qed

lemma fold_groups_counts:
  assumes "0 < d"
  shows "opt_count tx_subtree_count (node_at q (fold (add_group pre d) gs t)) =
      opt_count tx_subtree_count (node_at q t) + sum_list (map snd (filter (\<lambda>g. reaches pre d q (fst g)) gs))
    \<and> opt_count tx_count (node_at q (fold (add_group pre d) gs t)) =
      opt_count tx_count (node_at q t) + sum_list (map snd (filter (\<lambda>g. lands pre d q (fst g)) gs))
    \<and> (node_at q (fold (add_group pre d) gs t) \<noteq> None \<longleftrightarrow>
        node_at q t \<noteq> None \<or> list_ex (\<lambda>g. reaches pre d q (fst g)) gs)"
  using add_group_counts [OF assms] by (induction gs arbitrary: t) auto

lemma fold_groups_wf:
  "tx_namespace t = pre \<Longrightarrow> tx_wf_list pre (tx_children t) \<Longrightarrow>
     tx_namespace (fold (add_group pre d) gs t) = pre \<and> tx_wf_list pre (tx_children (fold (add_group pre d) gs t))"
proof (induction gs arbitrary: t)
  case (Cons g gs)
  have "tx_namespace (add_group pre d g t) = pre \<and> tx_wf_list pre (tx_children (add_group pre d g t))"
    using Cons.prems wf_walk_in by (auto simp: add_group_def Let_def split: option.split)
  with Cons.IH show ?case by simp
qed simp

text \<open>On canonical namespaces the suffix is the rest of the segments.\<close>

abbreviation joined :: "str list \<Rightarrow> str" where
  "joined ws \<equiv> join CHR ''/'' ws"

lemma canonical_drop: "canonical N \<Longrightarrow> drop k N = [] \<or> canonical (drop k N)"
  by (auto simp: canonical_def list_all_iff dest: in_set_dropD)

lemma suffix_segments_join: "S = [] \<or> canonical S \<Longrightarrow> suffix_segments (joined S) = S"
  by (auto simp: suffix_segments_def canonical_split join_nonempty)

lemma taxonomy_suffix_canonical:
  assumes "P = [] \<or> canonical P" "canonical N"
  shows "taxonomy_suffix (joined P) (joined N) = (if prefix P N then Some (joined (drop (length P) N)) else None)"
proof (cases "P = []")
  case True
  then show ?thesis by (simp add: taxonomy_suffix_def)
next
  case False
  with assms have P: "canonical P" by simp
  have inj: "joined N = joined P \<longleftrightarrow> N = P" using canonical_split [OF P] canonical_split [OF assms(2)] by metis
  have ne: "joined P \<noteq> []" by (rule join_nonempty [OF P])
  show ?thesis
  proof (cases "prefix P N \<and> N \<noteq> P")
    case True
    then obtain R where R: "N = P @ R" "R \<noteq> []" by (auto simp: prefix_def)
    with assms(2) have "canonical R" by (simp add: canonical_def)
    then have "joined R \<noteq> []" by (rule join_nonempty)
    moreover have "joined N = joined P @ CHR ''/'' # joined R" using R False by (simp add: join_append)
    ultimately show ?thesis using True ne inj R by (simp add: taxonomy_suffix_def)
  next
    case False
    then show ?thesis
      using join_prefix [OF P assms(2)] inj ne
      by (auto simp: taxonomy_suffix_def prefix_def nth_append append_eq_append_conv2 Cons_eq_append_conv)
        (metis neq_Nil_conv nth_Cons_0)
  qed
qed

lemma reaches_canonical:
  assumes "P = [] \<or> canonical P" "canonical N" "length q \<le> d"
  shows "reaches (joined P) d q (joined N) \<longleftrightarrow> prefix (P @ q) N"
proof -
  have "suffix_segments (joined (drop (length P) N)) = drop (length P) N"
    using canonical_drop [OF assms(2)] by (rule suffix_segments_join)
  moreover have "prefix q (take d S) \<longleftrightarrow> prefix q S" for S
    using assms(3) prefix_order.trans [OF _ take_is_prefix, of q d S] by (auto simp: prefix_def)
  ultimately show ?thesis
    using taxonomy_suffix_canonical [OF assms(1,2)]
    by (auto simp: reaches_def prefix_def) 
qed

lemma lands_canonical:
  assumes "P = [] \<or> canonical P" "canonical N" "length q \<le> d"
  shows "lands (joined P) d q (joined N) \<longleftrightarrow> N = P @ q"
proof -
  have "suffix_segments (joined (drop (length P) N)) = drop (length P) N"
    using canonical_drop [OF assms(2)] by (rule suffix_segments_join)
  then show ?thesis
    using taxonomy_suffix_canonical [OF assms(1,2)] assms(3) by (auto simp: lands_def prefix_def)
qed

lemma foldl_push_segment:
  "P = [] \<or> canonical P \<Longrightarrow> list_all seg_ok q \<Longrightarrow> foldl push_segment (joined P) q = joined (P @ q)"
proof (induction q arbitrary: P)
  case (Cons k q)
  have "push_segment (joined P) k = joined (P @ [k])"
    using Cons.prems(1) by (auto simp: push_segment_def join_append join_nonempty canonical_def [of P])
  moreover have "canonical (P @ [k])" using Cons.prems by (auto simp: canonical_def)
  ultimately show ?case using Cons.IH [of "P @ [k]"] Cons.prems by simp
qed simp

definition in_subtree :: "str \<Rightarrow> str \<Rightarrow> bool" where
  "in_subtree p ns = (p = [] \<or> matches_subtree ns (Some p))"

lemma in_subtree_canonical:
  "Q = [] \<or> canonical Q \<Longrightarrow> canonical N \<Longrightarrow> in_subtree (joined Q) (joined N) \<longleftrightarrow> prefix Q N"
  using join_nonempty [of Q] by (auto simp: in_subtree_def matches_subtree_canonical)

lemma like_plain_self: "like_toks (map plain_tok p @ [AnySeq]) (p @ s)"
proof (induction p)
  case Nil
  then show ?case using like_AnySeq_all by simp
next
  case (Cons c p)
  then show ?case by (auto simp: plain_tok_def skip_char_def byte_of_def)
qed

lemma sql_like_plain_below: "prefix (p @ ''/'') s \<Longrightarrow> sql_like_plain s (p @ ''/%'')"
  using like_plain_self [of "p @ ''/''"] by (auto simp: sql_like_plain_def prefix_def plain_tok_def)

lemma sum_order_by:
  "sum_list (map snd (filter Q (order_by b xs))) = sum_list (map snd (filter Q (xs :: ('k \<times> nat) list)))"
  by (metis mset_filter mset_map mset_order_by sum_mset_sum_list)

lemma group_counts_pos: "g \<in> set (group_counts key rows) \<Longrightarrow> 0 < snd g"
  by (auto simp: group_counts_def filter_empty_conv length_greater_0_conv)

lemma untruncated_all:
  assumes "\<not> sum_list (map snd (take k (order_by b (group_counts key rows)))) < length rows"
  shows "take k (order_by b (group_counts key rows)) = order_by b (group_counts key rows)"
proof -
  let ?gs = "order_by b (group_counts key rows)"
  have "sum_list (map snd ?gs) = length rows"
    using sum_order_by [of "\<lambda>_. True" b "group_counts key rows"] group_sum [of "\<lambda>_. True" key rows] by simp
  moreover have "sum_list (map snd ?gs) = sum_list (map snd (take k ?gs)) + sum_list (map snd (drop k ?gs))"
    by (metis append_take_drop_id map_append sum_list_append)
  ultimately have "sum_list (map snd (drop k ?gs)) = 0" using assms by linarith
  then have "drop k ?gs = []"
  proof (cases "drop k ?gs")
    case (Cons g gs)
    then have "0 < snd g" using group_counts_pos [of g key rows] in_set_dropD [of g k ?gs] by simp
    with \<open>sum_list (map snd (drop k ?gs)) = 0\<close> Cons show ?thesis by simp
  qed simp
  then show ?thesis by (metis append_Nil2 append_take_drop_id)
qed

text \<open>The tree of all groups, address by address.\<close>

lemma full_tree_counts:
  fixes now :: str and db :: Db
  defines "live \<equiv> filter (not_expired now) (db_memories db)"
  assumes P: "P = [] \<or> canonical P" and d: "0 < d"
    and ns: "\<forall>r \<in> set live. canonical (split_on CHR ''/'' (m_namespace r))"
    and t: "t = fold (add_group (joined P) d)
        (order_by b (group_counts m_namespace (filter (taxonomy_where now (joined P)) (db_memories db))))
        (TaxonomyNode (joined P) nm 0 0 [])"
  shows "node_at q t \<noteq> None \<Longrightarrow> q \<noteq> [] \<Longrightarrow> length q \<le> d \<and> list_all seg_ok q"
    and "length q \<le> d \<Longrightarrow> opt_count tx_subtree_count (node_at q t) =
      length (filter (\<lambda>r. prefix (P @ q) (split_on CHR ''/'' (m_namespace r))) live)"
    and "length q \<le> d \<Longrightarrow> opt_count tx_count (node_at q t) =
      length (filter (\<lambda>r. split_on CHR ''/'' (m_namespace r) = P @ q) live)"
    and "r \<in> set live \<Longrightarrow> prefix (P @ q) (split_on CHR ''/'' (m_namespace r)) \<Longrightarrow> length q \<le> d \<Longrightarrow> node_at q t \<noteq> None"
proof -
  let ?rows = "filter (taxonomy_where now (joined P)) (db_memories db)"
  let ?N = "\<lambda>r :: MemRow. split_on CHR ''/'' (m_namespace r)"
  have joinN: "m_namespace r = joined (?N r)" for r by simp
  have rows_live: "set ?rows \<subseteq> set live" by (auto simp: live_def taxonomy_where_def)
  have below: "r \<in> set ?rows" if "r \<in> set live" "prefix P (?N r)" for r
  proof (cases "P = []")
    case True
    with that show ?thesis by (simp add: live_def taxonomy_where_def)
  next
    case False
    with P ns that join_prefix [of P "?N r"] sql_like_plain_below show ?thesis
      by (auto simp: live_def taxonomy_where_def)
  qed
  have same: "length (filter Q ?rows) = length (filter Q live)"
    if "\<And>r. r \<in> set live \<Longrightarrow> Q r \<Longrightarrow> prefix P (?N r)" for Q
  proof -
    have "filter Q live = filter Q ?rows"
      unfolding live_def filter_filter
      by (rule filter_cong [OF refl]) (use that below in \<open>auto simp: live_def taxonomy_where_def\<close>)
    then show ?thesis by simp
  qed
  have reach: "reaches (joined P) d q (m_namespace r) \<longleftrightarrow> prefix (P @ q) (?N r)"
    and land: "lands (joined P) d q (m_namespace r) \<longleftrightarrow> ?N r = P @ q"
    if "r \<in> set live" "length q \<le> d" for r q
    using reaches_canonical [OF P, of "?N r" q d] lands_canonical [OF P, of "?N r" q d] ns that by auto
  let ?root = "TaxonomyNode (joined P) nm 0 0 []"
  have root: "opt_count tx_subtree_count (node_at q ?root) = 0" "opt_count tx_count (node_at q ?root) = 0"
    "q \<noteq> [] \<Longrightarrow> node_at q ?root = None" by (auto simp: node_at_def tx_find_Nil)
  note counts = fold_groups_counts [OF d, of q "joined P" "order_by b (group_counts m_namespace ?rows)" ?root,
      folded t, unfolded root sum_order_by group_sum add_0]
  have keys: "list_ex (\<lambda>g. Q (fst g)) (order_by b (group_counts m_namespace ?rows)) \<longleftrightarrow> (\<exists>r \<in> set ?rows. Q (m_namespace r))" for Q
    by (auto simp: list_ex_iff group_counts_def)
  show "opt_count tx_subtree_count (node_at q t) = length (filter (\<lambda>r. prefix (P @ q) (?N r)) live)" if q: "length q \<le> d"
  proof -
    have "filter (\<lambda>r. reaches (joined P) d q (m_namespace r)) ?rows = filter (\<lambda>r. prefix (P @ q) (?N r)) ?rows"
      using reach [OF _ q] rows_live by (intro filter_cong refl) auto
    with counts show ?thesis using same [of "\<lambda>r. prefix (P @ q) (?N r)"] by (auto simp: append_prefixD)
  qed
  show "opt_count tx_count (node_at q t) = length (filter (\<lambda>r. ?N r = P @ q) live)" if q: "length q \<le> d"
  proof -
    have "filter (\<lambda>r. lands (joined P) d q (m_namespace r)) ?rows = filter (\<lambda>r. ?N r = P @ q) ?rows"
      using land [OF _ q] rows_live by (intro filter_cong refl) auto
    with counts show ?thesis using same [of "\<lambda>r. ?N r = P @ q"] by auto
  qed
  show "node_at q t \<noteq> None" if "r \<in> set live" "prefix (P @ q) (?N r)" "length q \<le> d"
    using counts keys [of "reaches (joined P) d q"] reach [OF that(1,3)] that below [OF that(1)] append_prefixD
    by blast
  show "length q \<le> d \<and> list_all seg_ok q" if "node_at q t \<noteq> None" "q \<noteq> []"
  proof -
    from that root(3) counts keys [of "reaches (joined P) d q"] obtain r where
      r: "r \<in> set ?rows" "reaches (joined P) d q (m_namespace r)" by auto
    then have "length q \<le> d"
      by (auto simp: reaches_def split: option.splits dest!: prefix_length_le)
    with r reach rows_live have "prefix (P @ q) (?N r)" by blast
    moreover have "canonical (?N r)" using ns rows_live r(1) by blast
    ultimately show ?thesis using \<open>length q \<le> d\<close> by (auto simp: canonical_def list_all_iff prefix_def)
  qed
qed

definition unwrap_ns :: "str option \<Rightarrow> str" where
  "unwrap_ns pre = (case pre of None \<Rightarrow> [] | Some p \<Rightarrow> p)"

definition full_tree :: "str \<Rightarrow> Db \<Rightarrow> str \<Rightarrow> nat \<Rightarrow> TaxonomyNode" where
  "full_tree now db pre d = fold (add_group pre d)
     (order_by (\<lambda>a b. snd a > snd b \<or> (snd a = snd b \<and> fst a < fst b))
       (group_counts m_namespace (filter (taxonomy_where now pre) (db_memories db))))
     (TaxonomyNode pre (last (split_on CHR ''/'' pre)) 0 0 [])"

lemma untruncated_tree:
  assumes "\<not> ty_truncated (get_taxonomy now db pre max_depth limit)"
  shows "ty_tree (get_taxonomy now db pre max_depth limit) =
    sort_taxonomy (full_tree now db (unwrap_ns pre) (min max_depth MAX_NAMESPACE_DEPTH))"
proof -
  let ?gs = "order_by (\<lambda>a b. snd a > snd b \<or> (snd a = snd b \<and> fst a < fst b))
    (group_counts m_namespace (filter (taxonomy_where now (unwrap_ns pre)) (db_memories db)))"
  have "take (min limit TAXONOMY_MAX_LIMIT) ?gs = ?gs"
    by (rule untruncated_all) (use assms in \<open>simp add: get_taxonomy_def Let_def unwrap_ns_def\<close>)
  then show ?thesis
    unfolding get_taxonomy_def Let_def unwrap_ns_def [symmetric] full_tree_def by (simp only: Taxonomy.simps)
qed

lemma node_at_namespace:
  "tx_wf_list (tx_namespace t) (tx_children t) \<Longrightarrow> node_at q t = Some n \<Longrightarrow>
     tx_namespace n = foldl push_segment (tx_namespace t) q"
proof (induction q arbitrary: t)
  case Nil
  then show ?case by (simp add: node_at_def)
next
  case (Cons k q)
  then obtain m where m: "find (\<lambda>n. tx_name n = k) (tx_children t) = Some m" "node_at q m = Some n"
    by (auto simp: node_at_def tx_find_Cons split: option.splits)
  with find_Some_mem [OF m(1)] Cons.prems have "tx_wf (tx_namespace t) m" "tx_name m = k"
    by (auto simp: tx_wf_list_def list_all_iff)
  with Cons.IH [of m] m(2) show ?case by (auto simp: tx_wf_def2)
qed

lemma full_tree_wf:
  "tx_namespace (full_tree now db pre d) = pre"
  "tx_wf_list (tx_namespace (full_tree now db pre d)) (tx_children (full_tree now db pre d))"
  using fold_groups_wf [of "TaxonomyNode pre (last (split_on CHR ''/'' pre)) 0 0 []" pre d]
  by (simp_all add: full_tree_def tx_wf_list_def)

lemma full_tree_nodes:
  assumes P: "P = [] \<or> canonical P" and d: "0 < d"
    and ns: "\<forall>r \<in> set (filter (not_expired now) (db_memories db)). canonical (split_on CHR ''/'' (m_namespace r))"
    and n: "n \<in> set (tx_nodes (full_tree now db (joined P) d))"
  shows "tx_count n = length (filter (\<lambda>r. m_namespace r = tx_namespace n) (filter (not_expired now) (db_memories db)))
    \<and> tx_subtree_count n =
        length (filter (\<lambda>r. in_subtree (tx_namespace n) (m_namespace r)) (filter (not_expired now) (db_memories db)))"
proof -
  let ?live = "filter (not_expired now) (db_memories db)"
  let ?N = "\<lambda>r :: MemRow. split_on CHR ''/'' (m_namespace r)"
  let ?t = "full_tree now db (joined P) d"
  note full = full_tree_counts [OF P d ns full_tree_def [of now db "joined P" d]]
  obtain q where q: "node_at q ?t = Some n" "tx_namespace n = foldl push_segment (joined P) q"
    using nodes_node_at [OF full_tree_wf(2) n] full_tree_wf(1) by metis
  then have ok: "length q \<le> d" "list_all seg_ok q" using full(1) [of q] by (cases "q = []"; simp)+
  then have Q: "tx_namespace n = joined (P @ q)" "P @ q = [] \<or> canonical (P @ q)"
    using q(2) foldl_push_segment [OF P ok(2)] P by (auto simp: canonical_def)
  have "filter (\<lambda>r. m_namespace r = tx_namespace n) ?live = filter (\<lambda>r. ?N r = P @ q) ?live"
  proof (rule filter_cong [OF refl])
    fix r assume that: "r \<in> set ?live"
    show "(m_namespace r = tx_namespace n) = (?N r = P @ q)"
    proof (cases "P @ q = []")
      case True
      then show ?thesis using ns that Q(1) join_nonempty [of "?N r" "CHR ''/''"] by auto
    next
      case False
      with Q canonical_split [of "P @ q"] show ?thesis by (metis join_split_on)
    qed
  qed
  moreover have "filter (\<lambda>r. in_subtree (tx_namespace n) (m_namespace r)) ?live = filter (\<lambda>r. prefix (P @ q) (?N r)) ?live"
    using in_subtree_canonical [OF Q(2)] ns Q(1) by (intro filter_cong refl) (metis join_split_on)
  ultimately show ?thesis
    using full(2,3) [OF ok(1)] q(1) by (simp del: filter_filter)
qed

lemma full_tree_complete:
  assumes P: "P = [] \<or> canonical P" and d: "0 < d"
    and ns: "\<forall>r \<in> set (filter (not_expired now) (db_memories db)). canonical (split_on CHR ''/'' (m_namespace r))"
    and r: "r \<in> set (filter (not_expired now) (db_memories db))" "in_subtree (joined P) (m_namespace r)"
      "length (split_on CHR ''/'' (m_namespace r)) \<le> length P + d"
  shows "m_namespace r \<in> tx_namespace ` set (tx_nodes (full_tree now db (joined P) d))"
proof -
  let ?t = "full_tree now db (joined P) d" and ?N = "split_on CHR ''/'' (m_namespace r)"
  note full = full_tree_counts [OF P d ns full_tree_def [of now db "joined P" d]]
  have N: "canonical ?N" using ns r(1) by blast
  with in_subtree_canonical [OF P] r(2) have "prefix P ?N" by (metis join_split_on)
  then obtain q where q: "?N = P @ q" by (auto simp: prefix_def)
  with r(3) have len: "length q \<le> d" by simp
  with q full(4) [OF r(1)] obtain n where n: "node_at q ?t = Some n" by auto
  have "list_all seg_ok q" using N q by (simp add: canonical_def)
  then have "tx_namespace n = joined (P @ q)"
    using node_at_namespace [OF full_tree_wf(2) n] foldl_push_segment [OF P] by (simp add: full_tree_wf(1))
  with q node_at_nodes [OF n] show ?thesis by (metis image_eqI join_split_on)
qed

text \<open>the taxonomy is exact. When the live namespaces and the prefix are made of non-empty segments, the
  depth is at least one and the tree is not reported as truncated, every node of the tree counts
  exactly the live memories of its own namespace and its subtree count is exactly the number of live memories
  in or below that namespace, however deep; and every live namespace below the prefix within the depth has a
  node.\<close>

theorem taxonomy_exact:
  assumes "list_all (\<lambda>r. not_expired now r \<longrightarrow> canonical (split_on CHR ''/'' (m_namespace r))) (db_memories db)"
    and "pre = None \<or> (\<exists>p. pre = Some p \<and> canonical (split_on CHR ''/'' p))"
    and "0 < max_depth" and "\<not> ty_truncated (get_taxonomy now db pre max_depth limit)"
  shows "list_all (\<lambda>n.
        tx_count n = length (filter (\<lambda>r. not_expired now r \<and> m_namespace r = tx_namespace n) (db_memories db))
      \<and> tx_subtree_count n =
          length (filter (\<lambda>r. not_expired now r \<and> in_subtree (tx_namespace n) (m_namespace r)) (db_memories db)))
      (tx_nodes (ty_tree (get_taxonomy now db pre max_depth limit)))
    \<and> list_all (\<lambda>r. not_expired now r \<and> in_subtree (unwrap_ns pre) (m_namespace r)
          \<and> namespace_depth (m_namespace r) \<le> namespace_depth (unwrap_ns pre) + min max_depth MAX_NAMESPACE_DEPTH
        \<longrightarrow> m_namespace r \<in> tx_namespace ` set (tx_nodes (ty_tree (get_taxonomy now db pre max_depth limit))))
      (db_memories db)"
proof -
  define P where "P = (case pre of None \<Rightarrow> [] | Some p \<Rightarrow> split_on CHR ''/'' p)"
  have P: "P = [] \<or> canonical P" and d: "0 < min max_depth MAX_NAMESPACE_DEPTH"
    and pre: "unwrap_ns pre = joined P"
    using assms(2,3) by (auto simp: P_def MAX_NAMESPACE_DEPTH_def unwrap_ns_def)
  have ns: "\<forall>r \<in> set (filter (not_expired now) (db_memories db)). canonical (split_on CHR ''/'' (m_namespace r))"
    using assms(1) by (auto simp: list_all_iff)
  let ?T = "full_tree now db (joined P) (min max_depth MAX_NAMESPACE_DEPTH)"
  have data: "tx_data ` set (tx_nodes (ty_tree (get_taxonomy now db pre max_depth limit))) = tx_data ` set (tx_nodes ?T)"
    by (simp add: untruncated_tree [OF assms(4)] pre sort_taxonomy_data)
  have "tx_count n = length (filter (\<lambda>r. not_expired now r \<and> m_namespace r = tx_namespace n) (db_memories db))
      \<and> tx_subtree_count n =
          length (filter (\<lambda>r. not_expired now r \<and> in_subtree (tx_namespace n) (m_namespace r)) (db_memories db))"
    if "n \<in> set (tx_nodes (ty_tree (get_taxonomy now db pre max_depth limit)))" for n
  proof -
    from that have "tx_data n \<in> tx_data ` set (tx_nodes ?T)" unfolding data [symmetric] by (rule imageI)
    then obtain m where "m \<in> set (tx_nodes ?T)" "tx_data n = tx_data m" by (rule imageE) simp
    with full_tree_nodes [OF P d ns, of m] show ?thesis by (simp add: tx_data_def)
  qed
  moreover have names: "tx_namespace ` set (tx_nodes (ty_tree (get_taxonomy now db pre max_depth limit))) = tx_namespace ` set (tx_nodes ?T)"
    using arg_cong [OF data, of "image fst"] by (simp add: image_image tx_data_def)
  have depthP: "namespace_depth (joined P) = length P"
    using P canonical_depth [of P] by (auto simp: namespace_depth_def)
  have "m_namespace r \<in> tx_namespace ` set (tx_nodes ?T)"
    if "r \<in> set (db_memories db)" "not_expired now r" "in_subtree (joined P) (m_namespace r)"
      "namespace_depth (m_namespace r) \<le> namespace_depth (joined P) + min max_depth MAX_NAMESPACE_DEPTH" for r
  proof -
    have "namespace_depth (m_namespace r) = length (split_on CHR ''/'' (m_namespace r))"
      using canonical_depth [of "split_on CHR ''/'' (m_namespace r)"] ns that(1,2) by simp
    with that depthP show ?thesis by (intro full_tree_complete [OF P d ns]) simp_all
  qed
  ultimately show ?thesis unfolding list_all_iff names pre by blast
qed

theorem taxonomy_exact_witness:
  "list_all (\<lambda>n.
        tx_count n = length (filter (\<lambda>r. not_expired ''2026-01-15'' r \<and> m_namespace r = tx_namespace n) (db_memories ex_db))
      \<and> tx_subtree_count n =
          length (filter (\<lambda>r. not_expired ''2026-01-15'' r \<and> in_subtree (tx_namespace n) (m_namespace r)) (db_memories ex_db)))
      (tx_nodes (ty_tree (get_taxonomy ''2026-01-15'' ex_db None 2 5)))"
proof -
  have "list_all (\<lambda>r. not_expired ''2026-01-15'' r \<longrightarrow> canonical (split_on CHR ''/'' (m_namespace r))) (db_memories ex_db)"
    by code_simp
  moreover have "\<not> ty_truncated (get_taxonomy ''2026-01-15'' ex_db None 2 5)" by code_simp
  ultimately show ?thesis using taxonomy_exact [of "''2026-01-15''" ex_db None 2 5] by simp
qed

text \<open>
  Outside of these conditions the counts go wrong. An underscore in the prefix is a wildcard of the
  \<open>LIKE\<close> that computes the total, so a sibling namespace is counted in the total and not in the tree; and at
  depth zero the own count of the root takes in every namespace below it.
\<close>

definition ex_ns :: "str \<Rightarrow> Db" where
  "ex_ns ns = snd (insert_mem empty_db ((ex_note ''m1'' ''a'' Long ''alice'')\<lparr>m_namespace := ns\<rparr>))"

lemma taxonomy_total_counts_sibling:
  "let t = get_taxonomy ''2026-01-15'' (ex_ns ''appXa/x'') (Some ''app_a'') 2 5 in
   ty_total_count t = 1 \<and> tx_subtree_count (ty_tree t) = 0"
  by code_simp

lemma taxonomy_depth_zero_root:
  "tx_count (ty_tree (get_taxonomy ''2026-01-15'' (ex_ns ''app/x'') (Some ''app'') 0 5)) = 1"
  by code_simp

section \<open>Duplicates\<close>

definition comparable :: "32 word list \<Rightarrow> MemRow \<Rightarrow> 32 word list option" where
  "comparable query r =
     (case r_embedding r of
        None \<Rightarrow> None
      | Some bytes \<Rightarrow> if bytes = [] then None
          else case decode_embedding_blob bytes of
              Inl _ \<Rightarrow> None
            | Inr v \<Rightarrow> if length v = length query then Some v else None)"

definition candidates :: "str \<Rightarrow> Db \<Rightarrow> 32 word list \<Rightarrow> str option \<Rightarrow> (MemRow \<times> 32 word list) list" where
  "candidates now db query namespace =
     List.map_filter (\<lambda>r. map_option (\<lambda>v. (r, v)) (comparable query r)) (duplicate_rows now db namespace)"

definition better :: "(MemRow \<times> 32 word list \<Rightarrow> f64) \<Rightarrow> MemRow \<times> 32 word list \<Rightarrow> DuplicateMatch option \<times> nat \<Rightarrow> DuplicateMatch option \<times> nat" where
  "better sim c acc =
     (if (case fst acc of None \<Rightarrow> True | Some m \<Rightarrow> f64_lt (dm_similarity m) (sim c))
      then Some \<lparr>dm_id = m_id (fst c), dm_title = m_title (fst c), dm_namespace = m_namespace (fst c),
                 dm_similarity = sim c\<rparr>
      else fst acc, snd acc + 1)"

lemma scan_candidates:
  "list_all (\<lambda>r. r_embedding r \<noteq> None) rows \<Longrightarrow>
     fold (scan_candidate cosine query) rows acc =
     fold (better (\<lambda>(r, v). cosine query v)) (List.map_filter (\<lambda>r. map_option (\<lambda>v. (r, v)) (comparable query r)) rows) acc"
proof (induction rows arbitrary: acc)
  case (Cons r rows)
  then show ?case
    by (auto simp: scan_candidate_def comparable_def better_def map_filter_simps Let_def
        split: option.splits sum.splits prod.splits)
qed (simp add: map_filter_simps)

lemma f64_ge_trans: "f64_ge x t \<Longrightarrow> \<not> f64_lt m x \<Longrightarrow> m \<noteq> NaN \<Longrightarrow> f64_ge m t"
  by (cases m; cases x; cases t) (auto simp: f64_ge_def)

lemma f64_lt_trans: "f64_lt a b \<Longrightarrow> f64_lt b c \<Longrightarrow> f64_lt a c"
  by (cases a; cases b; cases c) auto

lemma best_is_maximal:
  assumes "\<forall>c \<in> set cs. sim c \<noteq> NaN"
  shows "\<exists>best. fold (better sim) cs (None, 0) = (best, length cs) \<and>
    (case best of None \<Rightarrow> cs = []
     | Some m \<Rightarrow> (\<exists>c \<in> set cs. m = \<lparr>dm_id = m_id (fst c), dm_title = m_title (fst c),
           dm_namespace = m_namespace (fst c), dm_similarity = sim c\<rparr>)
         \<and> (\<forall>c \<in> set cs. \<not> f64_lt (dm_similarity m) (sim c)))"
  using assms
proof (induction cs rule: rev_induct)
  case (snoc c cs)
  then obtain best where best: "fold (better sim) cs (None, 0) = (best, length cs)"
    "case best of None \<Rightarrow> cs = []
     | Some m \<Rightarrow> (\<exists>c \<in> set cs. m = \<lparr>dm_id = m_id (fst c), dm_title = m_title (fst c),
           dm_namespace = m_namespace (fst c), dm_similarity = sim c\<rparr>)
         \<and> (\<forall>c \<in> set cs. \<not> f64_lt (dm_similarity m) (sim c))" by auto
  show ?case
  proof (cases "best = None \<or> f64_lt (dm_similarity (the best)) (sim c)")
    case True
    have "\<not> f64_lt (sim c) (sim c')" if "c' \<in> set cs" for c'
      using True best(2) that f64_lt_trans [of "dm_similarity (the best)" "sim c" "sim c'"]
      by (auto split: option.splits)
    moreover have "fold (better sim) (cs @ [c]) (None, 0) =
        (Some \<lparr>dm_id = m_id (fst c), dm_title = m_title (fst c), dm_namespace = m_namespace (fst c),
           dm_similarity = sim c\<rparr>, length (cs @ [c]))"
      using True best(1) by (auto simp: better_def split: option.split)
    ultimately show ?thesis using f64_lt_asym by auto
  next
    case False
    then have "better sim c (best, length cs) = (best, length (cs @ [c]))"
      by (auto simp: better_def split: option.splits)
    with best(1) have "fold (better sim) (cs @ [c]) (None, 0) = (best, length (cs @ [c]))" by simp
    with False best(2) show ?thesis by (auto split: option.splits)
  qed
qed simp

text \<open>the duplicate check is exact. As long as no similarity is NaN, the check compares exactly the live memories
  of the namespace that carry a readable embedding of the same dimension, reports a duplicate exactly when one of them
  reaches the threshold (never less than one half), and names one whose similarity no other exceeds.\<close>

theorem check_duplicate_exact:
  assumes "list_all (\<lambda>(r, v). cosine query v \<noteq> NaN) (candidates now db query namespace)"
  shows "let res = check_duplicate cosine now db query namespace threshold;
             cs = candidates now db query namespace in
    dc_candidates_scanned res = length cs
    \<and> f64_ge (dc_threshold res) DUPLICATE_THRESHOLD_MIN
    \<and> dc_is_duplicate res = list_ex (\<lambda>(r, v). f64_ge (cosine query v) (dc_threshold res)) cs
    \<and> (case dc_nearest res of
         None \<Rightarrow> cs = []
       | Some m \<Rightarrow> (\<exists>(r, v) \<in> set cs. dm_id m = m_id r \<and> dm_similarity m = cosine query v)
           \<and> list_all (\<lambda>(r, v). \<not> f64_lt (dm_similarity m) (cosine query v)) cs)"
proof -
  let ?cs = "candidates now db query namespace" and ?sim = "\<lambda>(r :: MemRow, v). cosine query v"
  have "list_all (\<lambda>r. r_embedding r \<noteq> None) (duplicate_rows now db namespace)"
    by (simp add: duplicate_rows_def list_all_iff)
  then have fold: "fold (scan_candidate cosine query) (duplicate_rows now db namespace) (None, 0) = fold (better ?sim) ?cs (None, 0)"
    unfolding candidates_def by (rule scan_candidates)
  obtain best where best: "fold (better ?sim) ?cs (None, 0) = (best, length ?cs)"
    "case best of None \<Rightarrow> ?cs = []
     | Some m \<Rightarrow> (\<exists>c \<in> set ?cs. m = \<lparr>dm_id = m_id (fst c), dm_title = m_title (fst c),
           dm_namespace = m_namespace (fst c), dm_similarity = ?sim c\<rparr>)
         \<and> (\<forall>c \<in> set ?cs. \<not> f64_lt (dm_similarity m) (?sim c))"
    using best_is_maximal [OF assms [unfolded list_all_iff case_prod_unfold]] unfolding case_prod_unfold by blast
  have "f64_ge (f64_max threshold DUPLICATE_THRESHOLD_MIN) DUPLICATE_THRESHOLD_MIN"
    by (cases threshold) (auto simp: f64_max_def f64_ge_def DUPLICATE_THRESHOLD_MIN_def)
  moreover have "dm_similarity m \<noteq> NaN" if "best = Some m" for m
    using best(2) that assms by (auto simp: list_all_iff)
  ultimately show ?thesis
    using best f64_ge_trans
    by (auto simp: check_duplicate_def fold Let_def list_ex_iff list_all_iff split: option.splits) blast+
qed

section \<open>Entities and agents\<close>

lemma is_entity_metadata: "sql_json_extract (entity_metadata extra agent) ''kind'' = Some (JStr ENTITY_KIND)"
  by (auto simp: entity_metadata_def Let_def sql_json_extract_def json_get_def split: option.splits json.splits)

lemma insert_mem_fresh:
  assumes "m_confidence mem \<noteq> NaN" "m_id mem \<notin> mem_ids db"
    "sql_row (\<lambda>r. m_title r = m_title mem \<and> m_namespace r = m_namespace mem) (db_memories db) = None"
  shows "insert_mem db mem = (Inr (m_id mem), db\<lparr>db_memories := db_memories db @ [row_of mem]\<rparr>)"
proof -
  have "sql_row (\<lambda>r. m_id r = m_id mem) (db_memories db) = None"
    using assms(2) by (simp add: sql_row_key_None mem_ids_def)
  with assms show ?thesis by (simp add: insert_mem_def sql_upsert_def)
qed

lemma entity_register_ok:
  "db_ok db \<Longrightarrow> db_ok (fst (snd (entity_register new_id now (db, table) name ns aliases extra agent)))"
  using insert_mem_ok [of db]
  by (auto simp: entity_register_def Let_def split: option.split sum.split prod.split) (metis snd_conv)+

text \<open>What a successful registration leaves behind: the memory of the entity and its aliases.\<close>

lemma entity_register_row:
  assumes "new_id \<notin> mem_ids db"
    and res: "entity_register new_id now (db, table) name ns aliases extra agent = (Inr reg, db', table')"
  shows "\<exists>r \<in> set (db_memories db'). m_id r = er_entity_id reg \<and> m_title r = name \<and> m_namespace r = ns \<and> is_entity r"
    and "table' = add_aliases now (er_entity_id reg) aliases table"
    and "er_aliases reg = list_entity_aliases table' (er_entity_id reg)"
proof -
  let ?named = "\<lambda>r. m_namespace r = ns \<and> m_title r = name"
  have "(\<exists>r \<in> set (db_memories db'). m_id r = er_entity_id reg \<and> m_title r = name \<and> m_namespace r = ns \<and> is_entity r)
    \<and> table' = add_aliases now (er_entity_id reg) aliases table
    \<and> er_aliases reg = list_entity_aliases table' (er_entity_id reg)"
  proof (cases "sql_row (\<lambda>r. ?named r \<and> is_entity r) (db_memories db)")
    case (Some r)
    with res sql_row_SomeD [OF Some] show ?thesis by (auto simp: entity_register_def Let_def)
  next
    case None
    have taken: "sql_row (\<lambda>r. ?named r \<and> \<not> is_entity r) (db_memories db) = None"
      using None res by (auto simp: entity_register_def Let_def split: if_splits)
    have free: "sql_row (\<lambda>r. m_title r = name \<and> m_namespace r = ns) (db_memories db) = None"
      using None taken by (auto simp: sql_row_None)
    show ?thesis
      using res None taken
      by (auto simp: entity_register_def Let_def insert_mem_fresh assms(1) free is_entity_def
          row_of_def is_entity_metadata)
  qed
  then show "\<exists>r \<in> set (db_memories db'). m_id r = er_entity_id reg \<and> m_title r = name \<and> m_namespace r = ns \<and> is_entity r"
    "table' = add_aliases now (er_entity_id reg) aliases table"
    "er_aliases reg = list_entity_aliases table' (er_entity_id reg)" by blast+
qed

lemma add_aliases_mem:
  "(\<exists>a \<in> set (add_aliases now i new_aliases table). al_alias a = x \<and> al_entity_id a = j) \<longleftrightarrow>
     (\<exists>a \<in> set table. al_alias a = x \<and> al_entity_id a = j) \<or> (j = i \<and> x \<noteq> [] \<and> x \<in> trim ` set new_aliases)"
proof (induction new_aliases arbitrary: table)
  case (Cons n ns)
  then show ?case
    by (auto simp: add_aliases_def sql_insert_ignore_def alias_key_def image_iff) 
qed (simp add: add_aliases_def)

lemma singleton_set_Cons: "set xs = {r} \<Longrightarrow> \<exists>rest. xs = r # rest"
  by (cases xs) auto

text \<open>an alias resolves to the entity it was registered for. After a successful registration, looking up any of its
  non-blank aliases in its namespace gives that entity with all its aliases, unless the alias was already held by
  another entity.\<close>

theorem entity_alias_resolves:
  assumes "db_ok db'" "new_id \<notin> mem_ids db"
    and "entity_register new_id now (db, table) name ns aliases extra agent = (Inr reg, db', table')"
    and "alias \<in> set aliases" "trim alias \<noteq> []"
    and "list_all (\<lambda>a. al_alias a = trim alias \<longrightarrow> al_entity_id a = er_entity_id reg) table"
  shows "entity_get_by_alias (db', table') alias (Some ns) =
    Some \<lparr>er_entity_id = er_entity_id reg, er_canonical_name = name, er_namespace = ns, er_aliases = er_aliases reg\<rparr>"
proof -
  note row = entity_register_row [OF assms(2,3)]
  obtain r where r: "r \<in> set (db_memories db')" "m_id r = er_entity_id reg" "m_title r = name"
    "m_namespace r = ns" "is_entity r" using row(1) by blast
  have u: "unique_key m_id (db_memories db')" using assms(1) by (simp add: db_ok_def memories_ok_def)
  let ?holders = "map al_entity_id (filter (\<lambda>a. al_alias a = trim alias) table')"
  have holders: "set ?holders = {er_entity_id reg}"
  proof (rule set_eqI)
    fix j
    have "j \<in> set ?holders \<longleftrightarrow> (\<exists>a \<in> set table'. al_alias a = trim alias \<and> al_entity_id a = j)" by auto
    also have "\<dots> \<longleftrightarrow> (\<exists>a \<in> set table. al_alias a = trim alias \<and> al_entity_id a = j) \<or> j = er_entity_id reg"
      unfolding row(2) add_aliases_mem using assms(4,5) by auto
    finally show "j \<in> set ?holders \<longleftrightarrow> j \<in> {er_entity_id reg}"
      using assms(6) by (auto simp: list_all_iff)
  qed
  let ?sel = "\<lambda>i. filter (\<lambda>r. m_id r = i \<and> is_entity r \<and> opt_ok (\<lambda>n. m_namespace r = n) (Some ns)) (db_memories db')"
  have "set (?sel (er_entity_id reg)) \<subseteq> {r}"
  proof
    fix x assume "x \<in> set (?sel (er_entity_id reg))"
    then have x: "x \<in> set (db_memories db')" "m_id x = m_id r" using r(2) by simp_all
    then show "x \<in> {r}" using unique_key_inj [OF u x(1) r(1) x(2)] by blast
  qed
  moreover have "r \<in> set (?sel (er_entity_id reg))" using r by (simp add: opt_ok_def)
  ultimately have "set (?sel (er_entity_id reg)) = {r}" by blast
  moreover have "set (concat (map ?sel ?holders)) = (\<Union>i \<in> set ?holders. set (?sel i))" by (simp only: set_concat set_map image_image)
  ultimately have "set (concat (map ?sel ?holders)) = {r}" unfolding holders by simp
  then have "set (order_by (\<lambda>a b. m_created_at a > m_created_at b) (concat (map ?sel ?holders))) = {r}" by simp
  then have "\<exists>rest. order_by (\<lambda>a b. m_created_at a > m_created_at b) (concat (map ?sel ?holders)) = r # rest"
    by (rule singleton_set_Cons)
  then obtain rest where "order_by (\<lambda>a b. m_created_at a > m_created_at b) (concat (map ?sel ?holders)) = r # rest" ..
  then show ?thesis
    using assms(5) r(2-4) row(3) by (simp add: entity_get_by_alias_def Let_def)
qed

definition agent_metadata :: "str \<Rightarrow> str \<Rightarrow> str list \<Rightarrow> str \<Rightarrow> str \<Rightarrow> json" where
  "agent_metadata a ty caps registered_at now =
     JObj [(''agent_id'', JStr a), (''agent_type'', JStr ty), (''capabilities'', JArr (map JStr caps)),
           (''registered_at'', JStr registered_at), (''last_seen_at'', JStr now)]"

lemma map_filter_strings: "List.map_filter json_str (map JStr caps) = caps"
  by (induction caps) (simp_all add: map_filter_simps json_str_def)

lemma keep_agent_id_other: "k \<noteq> ''agent_id'' \<Longrightarrow> json_get (keep_agent_id old md) k = json_get md k"
  by (auto simp: keep_agent_id_def sql_json_set_def json_get_def split: option.split json.split)

lemma agent_of_metadata_fields:
  assumes "md = agent_metadata a ty caps reg now \<or> md = keep_agent_id old (agent_metadata a ty caps reg now)"
  shows "ag_agent_type (agent_of_metadata md) = ty" "ag_capabilities (agent_of_metadata md) = caps"
    "ag_registered_at (agent_of_metadata md) = reg" "ag_last_seen_at (agent_of_metadata md) = now"
proof -
  have "json_get md k = json_get (agent_metadata a ty caps reg now) k" if "k \<noteq> ''agent_id''" for k
    using assms keep_agent_id_other [OF that] by auto
  then show "ag_agent_type (agent_of_metadata md) = ty" "ag_capabilities (agent_of_metadata md) = caps"
    "ag_registered_at (agent_of_metadata md) = reg" "ag_last_seen_at (agent_of_metadata md) = now"
    by (simp_all add: agent_of_metadata_def meta_str_def meta_strs_def agent_metadata_def json_get_def
        map_filter_strings)
qed

lemma title_row_key: "(\<lambda>r. m_namespace r = n \<and> m_title r = t) = (\<lambda>r. title_key r = (t, n))"
  by (auto simp: title_key_def)

lemma extract_str:
  "(case sql_json_extract m k of Some (JStr s) \<Rightarrow> s | _ \<Rightarrow> d) = (case json_get m k of Some (JStr s) \<Rightarrow> s | _ \<Rightarrow> d)"
  by (simp add: sql_json_extract_def split: option.split json.split)

lemma filter_update_other:
  "(\<And>r. key (f r) = key r) \<Longrightarrow>
     filter (\<lambda>r. key r \<noteq> k) (sql_update (\<lambda>r. key r = k) f t) = filter (\<lambda>r. key r \<noteq> k) t"
  by (induction t) (simp_all add: sql_update_def)

text \<open>registering an agent. With a fresh row id the registration always succeeds and keeps the store well-formed; the
  agent then counts as registered for governance, its row carries the given type and capabilities, the time of the
  call as its last sighting and the time of its first registration, and no other memory changes.\<close>

theorem register_agent_contract:
  assumes "db_ok db" "new_id \<notin> mem_ids db"
  shows "\<exists>i db'. register_agent to_string new_id now db a ty caps = (Inr i, db') \<and> db_ok db' \<and> is_registered_agent db' a
    \<and> (\<exists>r \<in> set (db_memories db'). m_id r = i \<and> title_key r = (''agent:'' @ a, AGENTS_NAMESPACE)
        \<and> ag_agent_type (agent_of_metadata (m_metadata r)) = ty
        \<and> ag_capabilities (agent_of_metadata (m_metadata r)) = caps
        \<and> ag_last_seen_at (agent_of_metadata (m_metadata r)) = now
        \<and> ag_registered_at (agent_of_metadata (m_metadata r)) =
            (case sql_row (\<lambda>r. title_key r = (''agent:'' @ a, AGENTS_NAMESPACE)) (db_memories db) of
               None \<Rightarrow> now
             | Some old \<Rightarrow> (case json_get (m_metadata old) ''registered_at'' of Some (JStr s) \<Rightarrow> s | _ \<Rightarrow> now)))
    \<and> filter (\<lambda>r. title_key r \<noteq> (''agent:'' @ a, AGENTS_NAMESPACE)) (db_memories db') =
      filter (\<lambda>r. title_key r \<noteq> (''agent:'' @ a, AGENTS_NAMESPACE)) (db_memories db)"
proof -
  let ?k = "(''agent:'' @ a, AGENTS_NAMESPACE)"
  define reg where "reg = (case sql_row (\<lambda>r. title_key r = ?k) (db_memories db) of None \<Rightarrow> now
    | Some old \<Rightarrow> (case json_get (m_metadata old) ''registered_at'' of Some (JStr s) \<Rightarrow> s | _ \<Rightarrow> now))"
  define md where "md = agent_metadata a ty caps reg now"
  define mem :: Memory where "mem = \<lparr>m_id = new_id, m_tier = Long, m_namespace = AGENTS_NAMESPACE,
    m_title = ''agent:'' @ a, m_content = to_string md, m_tags = [''agent-registration''], m_priority = 5,
    m_confidence = Fin 1, m_source = ''system'', m_access_count = 0, m_created_at = now, m_updated_at = now,
    m_last_accessed_at = None, m_expires_at = None, m_metadata = md\<rparr>"
  have run: "register_agent to_string new_id now db a ty caps = insert_mem db mem"
    by (auto simp: register_agent_def Let_def mem_def md_def agent_metadata_def reg_def title_row_key extract_str
        split: option.split)
  have ok: "db_ok (snd (insert_mem db mem))" by (rule insert_mem_ok [OF assms(1)])
  show ?thesis
  proof (cases "sql_row (\<lambda>r. title_key r = ?k) (db_memories db)")
    case None
    have "insert_mem db mem = (Inr new_id, db\<lparr>db_memories := db_memories db @ [row_of mem]\<rparr>)"
      using insert_mem_fresh [of mem db] assms(2) None by (simp add: mem_def sql_row_title)
    moreover have "title_key (row_of mem) = ?k" "m_id (row_of mem) = new_id" "m_metadata (row_of mem) = md"
      by (simp_all add: mem_def row_of_def title_key_def)
    ultimately show ?thesis
      using run ok agent_of_metadata_fields [of md a ty caps reg now] None
      by (simp add: md_def reg_def is_registered_agent_def title_row_key sql_row_None)
  next
    case (Some old)
    have old: "old \<in> set (db_memories db)" "title_key old = ?k" using sql_row_SomeD [OF Some] by auto
    let ?new = "merge_insert old mem"
    define db' where "db' = db\<lparr>db_memories := sql_update (\<lambda>r. title_key r = ?k) (\<lambda>r. merge_insert r mem) (db_memories db)\<rparr>"
    have ins: "insert_mem db mem = (Inr (m_id old), db')"
      using Some by (simp add: insert_mem_def sql_upsert_def mem_def sql_row_title sql_update_title db'_def)
    have key: "title_key (merge_insert r mem) = title_key r" for r by (simp add: merge_insert_def title_key_def)
    have new: "?new \<in> set (db_memories db')"
      using old by (auto simp: db'_def sql_update_def image_iff intro!: bexI [of _ old])
    have fields: "m_id ?new = m_id old" "title_key ?new = ?k" "m_metadata ?new = keep_agent_id (m_metadata old) md"
      using key old(2) by (simp_all add: merge_insert_def mem_def)
    have "is_registered_agent db' a"
      using new fields(2) by (auto simp: is_registered_agent_def title_row_key sql_row_None)
    moreover have "filter (\<lambda>r. title_key r \<noteq> ?k) (db_memories db') = filter (\<lambda>r. title_key r \<noteq> ?k) (db_memories db)"
      using filter_update_other [of title_key "\<lambda>r. merge_insert r mem"] key by (simp add: db'_def)
    moreover have "db_ok db'" using ok by (simp add: ins)
    moreover have "register_agent to_string new_id now db a ty caps = (Inr (m_id old), db')"
      by (simp only: run ins)
    moreover have "m_metadata ?new = agent_metadata a ty caps reg now \<or>
        m_metadata ?new = keep_agent_id (m_metadata old) (agent_metadata a ty caps reg now)"
      using fields(3) md_def by blast
    note meta = agent_of_metadata_fields [OF this]
    have "\<exists>r\<in>set (db_memories db'). m_id r = m_id old \<and> title_key r = ?k
        \<and> ag_agent_type (agent_of_metadata (m_metadata r)) = ty
        \<and> ag_capabilities (agent_of_metadata (m_metadata r)) = caps
        \<and> ag_last_seen_at (agent_of_metadata (m_metadata r)) = now
        \<and> ag_registered_at (agent_of_metadata (m_metadata r)) = reg"
      by (rule bexI [OF _ new]) (intro conjI fields(1,2) meta)
    ultimately show ?thesis unfolding reg_def [symmetric] by (intro exI conjI) assumption+
  qed
qed

section \<open>Concrete instances\<close>

definition ex_embedded :: Db where
  "ex_embedded = ex_db\<lparr>db_memories := map (\<lambda>r. r\<lparr>r_embedding := Some [0, 0, 128, 63]\<rparr>) (db_memories ex_db)\<rparr>"

theorem check_duplicate_exact_witness:
  "let res = check_duplicate (\<lambda>_ _. Fin (3 / 4)) ''2026-01-15'' ex_embedded [0] None (Fin 0) in
   dc_candidates_scanned res = 2 \<and> f64_ge (dc_threshold res) DUPLICATE_THRESHOLD_MIN"
proof -
  have "length (candidates ''2026-01-15'' ex_embedded [0] None) = 2" by code_simp
  then show ?thesis
    using check_duplicate_exact [of "\<lambda>_ _. Fin (3 / 4)" "[0]" "''2026-01-15''" ex_embedded None "Fin 0"]
    by (simp add: Let_def list_all_iff)
qed

lemma ex_fresh: "''m9'' \<notin> mem_ids ex_db"
proof -
  have "list_all (\<lambda>r. m_id r \<noteq> ''m9'') (db_memories ex_db)" by code_simp
  then show ?thesis by (auto simp: mem_ids_def list_all_iff)
qed

theorem entity_alias_resolves_witness:
  "let (r, st) = entity_register ''m9'' ''2026-01-05'' (ex_db, []) ''Ada'' ''g'' ['' ada ''] JNull None in
   entity_get_by_alias st '' ada '' (Some ''g'') =
     Some \<lparr>er_entity_id = ''m9'', er_canonical_name = ''Ada'', er_namespace = ''g'', er_aliases = [''ada'']\<rparr>"
proof -
  let ?run = "entity_register ''m9'' ''2026-01-05'' (ex_db, []) ''Ada'' ''g'' ['' ada ''] JNull None"
  let ?reg = "\<lparr>er_entity_id = ''m9'', er_canonical_name = ''Ada'', er_namespace = ''g'', er_aliases = [''ada''], er_created = True\<rparr>"
  have "fst ?run = Inr ?reg" by code_simp
  then obtain db' table' where r: "?run = (Inr ?reg, db', table')" by (metis prod.collapse)
  have "db_ok db'" using entity_register_ok [OF ex_db_ok, of "''m9''" "''2026-01-05''" "[]"] r by (metis fst_conv snd_conv)
  moreover have "trim '' ada '' \<noteq> []" by code_simp
  ultimately show ?thesis
    using entity_alias_resolves [OF _ ex_fresh r, of "'' ada ''"] r by simp
qed

theorem register_agent_contract_witness:
  "\<exists>i db'. register_agent (\<lambda>_. []) ''m9'' ''2026-01-05'' ex_db ''carol'' ''ai'' [''review''] = (Inr i, db') \<and> is_registered_agent db' ''carol''"
  using register_agent_contract [OF ex_db_ok ex_fresh, of "\<lambda>_. []" "''2026-01-05''" "''carol''" "''ai''" "[''review'']"]
  by blast

end
