(* ===== verification/System.thy ===== *)
theory System
  imports Replica Search Quotas Graph Catalog
begin

text \<open>
  The store as a state machine. A local step is one operation of this node on its database, with any
  arguments and any clock; a peer step is the application of what a peer sends. The environment of a
  step (libraries, fresh ids) is arbitrary, so the properties hold whatever they return.
\<close>

text \<open>The statement \<open>UPDATE memories SET expires_at = NULL WHERE id = ?1\<close> of the HTTP promotion.\<close>

definition clear_expiry :: "Db \<Rightarrow> str \<Rightarrow> Db" where
  "clear_expiry db i = db\<lparr>db_memories := sql_update (\<lambda>r. m_id r = i) (\<lambda>r. r\<lparr>m_expires_at := None\<rparr>) (db_memories db)\<rparr>"

inductive local_step :: "Db \<Rightarrow> Db \<Rightarrow> bool" where
  step_insert: "local_step db (snd (insert_mem db mem))"
| step_touch: "local_step db (touch add_secs now db i short_extend mid_extend)"
| step_update: "local_step db (snd (update now db i u))"
| step_expiry: "local_step db (clear_expiry db i)"
| step_delete: "local_step db (snd (delete db i))"
| step_recall: "local_step db (snd (recall fts rnk age render tokens add_secs now db context q))"
| step_archive: "local_step db (snd (archive_memory now db i reason))"
| step_forget: "local_step db (snd (forget fts now db ns pattern tier archive))"
| step_gc: "local_step db (snd (gc now db archive))"
| step_purge: "local_step db (snd (purge_archive minus_days now db days))"
| step_restore: "local_step db (snd (restore_archived ser now db i))"
| step_link: "local_step db (snd (create_link_signed cr now db s t rel kp))"
| step_unlink: "local_step db (snd (delete_link db s t))"
| step_promote: "local_step db (snd (promote_to_namespace new_id now db i ns))"
| step_consolidate: "local_step db (snd (consolidate ser new_id now db ids title summary ns tier source who))"
| step_embed: "local_step db (snd (set_embedding db i vec))"
| step_standard: "local_step db (snd (set_namespace_standard now db ns i parent))"
| step_clear: "local_step db (snd (clear_namespace_standard db ns))"
| step_enforce: "local_step db (snd (enforce_governance mode fv new_id now db act ns who mid own payload))"
| step_decide: "local_step db (snd (decide_pending_action now db i approve who))"
| step_approve: "local_step db (snd (approve_with_approver_type fv now db i who))"
| step_execute: "local_step db (snd (execute_pending_action mv new_id now db i))"
| step_sweep: "local_step db (snd (sweep_pending_action_timeouts age_secs now db default_secs))"
| step_invalidate: "local_step db (fst (snd (invalidate_link cr sha new_id now (db, events) s t rel valid_until)))"
| step_entity: "local_step db (fst (snd (entity_register new_id now (db, table) name ns aliases extra who)))"
| step_agent: "local_step db (snd (register_agent to_string new_id now db who agent_type capabilities))"

inductive peer_step :: "Db \<Rightarrow> Db \<Rightarrow> bool" where
  step_push: "peer_step db (snd (sync_push env header body db))"
| step_since: "peer_step db (snd (sync_since env header since limit peer db))"
| step_catchup: "peer_step db (catchup_once env fetch config db)"
| step_cycle: "peer_step db (snd (sync_cycle_once env pull post agent url batch db))"

inductive reachable :: "Db \<Rightarrow> bool" where
  init: "reachable empty_db"
| local: "reachable db \<Longrightarrow> local_step db db' \<Longrightarrow> reachable db'"
| remote: "reachable db \<Longrightarrow> peer_step db db' \<Longrightarrow> reachable db'"

inductive_cases local_stepE: "local_step db db'"
inductive_cases peer_stepE: "peer_step db db'"

section \<open>Invariants\<close>

subsection \<open>Well-formedness\<close>

lemma touch_many_ok: "db_ok db \<Longrightarrow> db_ok (fold (\<lambda>i d. touch ad now d i s m) is db)"
  by (induction "is" arbitrary: db) (simp_all add: touch_ok)

lemma catchup_memory_ok: "db_ok (snd acc) \<Longrightarrow> db_ok (snd (catchup_memory env raw acc))"
  by (auto simp: catchup_memory_def insert_if_newer_ok split: sum.split)

lemma catchup_memories_ok: "db_ok (snd acc) \<Longrightarrow> db_ok (snd (fold (catchup_memory env) raws acc))"
  by (induction raws arbitrary: acc) (simp_all add: catchup_memory_ok)

lemma catchup_peer_ok: "db_ok db \<Longrightarrow> db_ok (catchup_peer env fetch me peer db)"
  using catchup_memories_ok [of "(None, db)" env]
  by (auto simp: catchup_peer_def Let_def sync_state_observe_ok split: option.splits json.splits prod.splits)
    (metis snd_conv sync_state_observe_ok)+

lemma catchup_once_ok: "db_ok db \<Longrightarrow> db_ok (catchup_once env fetch config db)"
proof -
  have "db_ok d \<Longrightarrow> db_ok (fold (catchup_peer env fetch me) ps d)" for me ps d
    by (induction ps arbitrary: d) (simp_all add: catchup_peer_ok)
  then show "db_ok db \<Longrightarrow> ?thesis" by (simp add: catchup_once_def)
qed

lemma apply_pulled_ok: "db_ok db \<Longrightarrow> db_ok (apply_pulled env mems db)"
  unfolding apply_pulled_def by (induction mems arbitrary: db) (simp_all add: insert_if_newer_ok)

lemma sync_cycle_ok: "db_ok db \<Longrightarrow> db_ok (snd (sync_cycle_once env pull post agent url batch db))"
  by (auto simp: sync_cycle_once_def Let_def apply_pulled_ok sync_state_observe_ok sync_state_record_push_ok
      split: option.split)

lemma sync_since_ok: "db_ok db \<Longrightarrow> db_ok (snd (sync_since env header since limit peer db))"
  by (auto simp: sync_since_def Let_def sync_state_observe_ok split: option.split sum.split)

lemma recall_effect:
  "\<exists>mems :: (Memory \<times> f64) list. snd (recall fts rnk age render tokens ad now db ctx q)
     = fold (\<lambda>(mem, _) d. touch ad now d (m_id mem) (rq_short_extend q) (rq_mid_extend q)) mems db"
  by (auto simp: recall_def Let_def split: prod.splits)

lemma touch_results_ok:
  "db_ok db \<Longrightarrow> db_ok (fold (\<lambda>(mem, _) d. touch ad now d (m_id mem) s l) (mems :: (Memory \<times> f64) list) db)"
  by (induction mems arbitrary: db) (auto simp: touch_ok)

lemma recall_ok: "db_ok db \<Longrightarrow> db_ok (snd (recall fts rnk age render tokens ad now db ctx q))"
  using recall_effect [of fts rnk age render tokens ad now db ctx q] touch_results_ok by metis

lemma invalidate_link_ok: "db_ok db \<Longrightarrow> db_ok (fst (snd (invalidate_link cr sha new_id now (db, events) s t rel valid_until)))"
  by (auto simp: invalidate_link_def Let_def link_key_def intro!: links_update_ok split: option.split)

lemma register_agent_ok: "db_ok db \<Longrightarrow> db_ok (snd (register_agent to_string new_id now db who agent_type capabilities))"
  unfolding register_agent_def Let_def by (rule insert_mem_ok)

lemma clear_expiry_keys:
  "map m_id (db_memories (clear_expiry db i)) = map m_id (db_memories db)"
  "map title_key (db_memories (clear_expiry db i)) = map title_key (db_memories db)"
  by (simp_all add: clear_expiry_def sql_update_def title_key_def)

lemma clear_expiry_ok: "db_ok db \<Longrightarrow> db_ok (clear_expiry db i)"
proof -
  assume ok: "db_ok db"
  let ?t = "db_memories (clear_expiry db i)"
  have "memories_ok ?t" using ok by (simp add: memories_ok_def unique_key_def db_ok_def clear_expiry_keys)
  moreover have "m_id ` set ?t = m_id ` set (db_memories db)" by (metis set_map clear_expiry_keys(1))
  moreover have "clear_expiry db i = db\<lparr>db_memories := ?t\<rparr>" by (simp add: clear_expiry_def)
  ultimately show ?thesis using db_ok_memories [OF ok] by (metis order_refl)
qed

lemma local_step_ok: "local_step db db' \<Longrightarrow> db_ok db \<Longrightarrow> db_ok db'"
  by (erule local_step.cases)
    (simp_all add: insert_mem_ok touch_ok update_ok clear_expiry_ok delete_ok recall_ok archive_memory_ok forget_ok gc_ok purge_archive_ok
      restore_archived_ok create_link_signed_ok delete_link_ok promote_ok consolidate_ok set_embedding_ok
      set_namespace_standard_ok clear_namespace_standard_ok enforce_governance_ok decide_pending_action_ok approve_ok
      execute_pending_action_ok sweep_ok invalidate_link_ok entity_register_ok register_agent_ok)

lemma peer_step_ok: "peer_step db db' \<Longrightarrow> db_ok db \<Longrightarrow> db_ok db'"
  by (erule peer_step.cases) (simp_all add: store.sync_push_inv sync_since_ok catchup_once_ok sync_cycle_ok)

lemma reachable_ok: "reachable db \<Longrightarrow> db_ok db"
  by (induction rule: reachable.induct) (auto intro: db_ok_empty local_step_ok peer_step_ok)

subsection \<open>The queue of pending actions\<close>

lemma pending_keep [simp]:
  "db_pending (touch ad now db i s l) = db_pending db"
  "db_pending (clear_expiry db i) = db_pending db"
  "db_pending (snd (archive_memory now db i reason)) = db_pending db"
  "db_pending (snd (forget fts now db ns pattern tier archive)) = db_pending db"
  "db_pending (snd (gc now db archive)) = db_pending db"
  "db_pending (snd (purge_archive md now db days)) = db_pending db"
  "db_pending (snd (restore_archived ser now db i)) = db_pending db"
  "db_pending (snd (delete_link db s2 t)) = db_pending db"
  "db_pending (snd (set_embedding db i vec)) = db_pending db"
  "db_pending (snd (set_namespace_standard now db ns2 i parent)) = db_pending db"
  "db_pending (snd (clear_namespace_standard db ns2)) = db_pending db"
  by (auto simp: touch_def clear_expiry_def archive_memory_def delete_memories_def forget_def gc_def purge_archive_def
      restore_archived_def delete_link_def set_embedding_def set_namespace_standard_def clear_namespace_standard_def
      Let_def split: option.split)

lemma recall_pending [simp]: "db_pending (snd (recall fts rnk age render tokens ad now db ctx q)) = db_pending db"
proof -
  have "db_pending (fold (\<lambda>(mem, _) d. touch ad now d (m_id mem) s l) (mems :: (Memory \<times> f64) list) d) = db_pending d"
    for mems s l d by (induction mems arbitrary: d) auto
  then show ?thesis using recall_effect [of fts rnk age render tokens ad now db ctx q] by metis
qed

lemma consolidate_pending [simp]:
  "db_pending (snd (consolidate ser new_id now db ids title summary ns tier source who)) = db_pending db"
proof -
  have del: "db_pending (fold (\<lambda>i d. snd (delete d i)) is d) = db_pending d" for "is" d
    by (induction "is" arbitrary: d) simp_all
  show ?thesis
    by (simp add: consolidate_def Let_def del split: sum.split option.split prod.split)
qed

lemma catalog_pending [simp]:
  "db_pending (fst (snd (invalidate_link cr sha new_id now (db, events) s t rel valid_until))) = db_pending db"
  "db_pending (fst (snd (entity_register new_id now (db, table) name ns aliases extra who))) = db_pending db"
  "db_pending (snd (register_agent to_string new_id now db agent agent_type capabilities)) = db_pending db"
  by (auto simp: invalidate_link_def entity_register_def register_agent_def Let_def split: option.split sum.split prod.split)
    (metis insert_pending_keep snd_conv)+

lemmas queue_untouched = decided_kept_same votes_ok_same

lemma local_step_kept: "local_step db db' \<Longrightarrow> db_ok db \<Longrightarrow> decided_kept db db'"
  by (erule local_step.cases)
    (simp_all add: decided_kept_same enforce_kept decide_kept approve_kept sweep_kept)

lemma local_step_votes: "local_step db db' \<Longrightarrow> db_ok db \<Longrightarrow> votes_ok db \<Longrightarrow> votes_ok db'"
  by (erule local_step.cases)
    (simp_all add: votes_ok_same [of _ db] enforce_votes decide_votes approve_votes sweep_votes)

lemma local_steps_kept: "local_step\<^sup>*\<^sup>* db db' \<Longrightarrow> db_ok db \<Longrightarrow> db_ok db' \<and> decided_kept db db'"
proof (induction rule: rtranclp_induct)
  case (step y z)
  then show ?case using local_step_ok local_step_kept decided_kept_trans by blast
qed (simp add: decided_kept_same)

lemma local_steps_votes: "local_step\<^sup>*\<^sup>* db db' \<Longrightarrow> db_ok db \<Longrightarrow> votes_ok db \<Longrightarrow> db_ok db' \<and> votes_ok db'"
proof (induction rule: rtranclp_induct)
  case (step y z)
  then show ?case using local_step_ok local_step_votes by blast
qed simp

text \<open>A vote under a consensus policy: what it answers and the row it leaves.\<close>

lemma consensus_vote:
  fixes now who :: str
  assumes "get_pending_action db i = Some pa" "pa_status pa = ''pending''"
    and "map_option gp_approver (resolve_governance_policy fv db (pa_namespace pa)) = Some (Consensus q)"
  defines "v \<equiv> \<lparr>ap_agent_id = to_ascii_lowercase who, ap_approved_at = now\<rparr>"
    and "fresh \<equiv> is_registered_agent db who \<and> to_ascii_lowercase (to_ascii_lowercase who) \<notin> set (voters pa)"
  shows "(fst (approve_with_approver_type fv now db i who) = Approved) = (fresh \<and> q \<le> length (pa_approvals pa) + 1)"
    and "map_option (\<lambda>p. (pa_status p, pa_approvals p)) (get_pending_action (snd (approve_with_approver_type fv now db i who)) i)
      = Some (if fresh \<and> q \<le> length (pa_approvals pa) + 1 then ''approved'' else ''pending'',
              if fresh then pa_approvals pa @ [v] else pa_approvals pa)"
proof -
  let ?as = "pa_approvals pa @ [v]"
  let ?db1 = "db\<lparr>db_pending := sql_update (\<lambda>p. pa_id p = i \<and> pa_status p = ''pending'') (set_approvals ?as) (db_pending db)\<rparr>"
  obtain p where p: "sql_row (\<lambda>p. pa_id p = i) (db_pending db) = Some p" "pa = row_to_pending p"
    using assms(1) by (auto simp: get_pending_Some)
  have pi: "pa_id p = i" "pa_status p = ''pending''" using sql_row_SomeD [OF p(1)] p(2) assms(2) by auto
  have r1: "sql_row (\<lambda>p. pa_id p = i) (db_pending ?db1) = Some (set_approvals ?as p)"
    using p(1) pi by (simp add: approvals_key.row_update_any)
  have "set_approvals ?as p \<in> set (filter (\<lambda>p. pa_id p = i \<and> pa_status p = ''pending'') (db_pending ?db1))"
    using sql_row_SomeD [OF r1] pi by (simp add: set_approvals_def)
  then have "sql_count (\<lambda>p. pa_id p = i \<and> pa_status p = ''pending'') (db_pending ?db1) > 0"
    unfolding sql_count_def by (rule length_pos_if_in_set)
  then have decided: "decide_pending_action now ?db1 i True a
      = (True, ?db1\<lparr>db_pending := sql_update (\<lambda>p. pa_id p = i \<and> pa_status p = ''pending'') (decide_row now True a) (db_pending ?db1)\<rparr>)" for a
    by (simp add: decide_pending_action_def Let_def)
  have r2: "sql_row (\<lambda>p. pa_id p = i) (db_pending (snd (decide_pending_action now ?db1 i True a)))
      = Some (decide_row now True a (set_approvals ?as p))" for a
    unfolding decided using r1 pi by (simp add: decide_key.row_update_any set_approvals_def)
  have pol: "(case resolve_governance_policy fv db (pa_namespace pa) of Some p \<Rightarrow> gp_approver p | None \<Rightarrow> Human) = Consensus q"
    using assms(3) by auto
  have dup: "list_ex (\<lambda>a. to_ascii_lowercase (ap_agent_id a) = to_ascii_lowercase (to_ascii_lowercase who)) (pa_approvals pa)
      = (to_ascii_lowercase (to_ascii_lowercase who) \<in> set (voters pa))"
    by (auto simp: list_ex_iff voters_def image_iff intro: sym)
  have run: "approve_with_approver_type fv now db i who =
      (if \<not> is_registered_agent db who
       then (Rejected (''consensus voter '' @ quoted who @ '' is not a registered agent''), db)
       else if \<not> fresh then (StillPending (length (pa_approvals pa)) q, db)
       else if q \<le> length (pa_approvals pa) + 1 then (Approved, snd (decide_pending_action now ?db1 i True (to_ascii_lowercase who)))
       else (StillPending (length (pa_approvals pa) + 1) q, ?db1))"
    using assms(1,2) by (simp add: approve_with_approver_type_def pol dup fresh_def v_def [symmetric] decided Let_def)
  show "(fst (approve_with_approver_type fv now db i who) = Approved) = (fresh \<and> q \<le> length (pa_approvals pa) + 1)"
    by (auto simp: run fresh_def)
  show "map_option (\<lambda>p. (pa_status p, pa_approvals p)) (get_pending_action (snd (approve_with_approver_type fv now db i who)) i)
      = Some (if fresh \<and> q \<le> length (pa_approvals pa) + 1 then ''approved'' else ''pending'',
              if fresh then pa_approvals pa @ [v] else pa_approvals pa)"
    unfolding run using p(1) p(2) pi(2) r1 r2
    by (auto simp: fresh_def get_pending_action_def decide_row_def set_approvals_def)
qed

section \<open>Properties\<close>

text \<open>C1: In every state the store can reach, by any sequence of its own operations and of what peers push to it or
  it pulls from them, memory ids are unique, so are titles within a namespace, every link joins two
  stored memories and is stored once, and archived memories, namespace standards, pending actions and
  clock entries are unique by their keys.\<close>

theorem reachable_store_well_formed:
  assumes "reachable db"
  shows "distinct (map m_id (db_memories db))
    \<and> distinct (map (\<lambda>r. (m_title r, m_namespace r)) (db_memories db))
    \<and> (\<forall>l \<in> set (db_links db). get db (l_source_id l) \<noteq> None \<and> get db (l_target_id l) \<noteq> None)
    \<and> distinct (map (\<lambda>l. (l_source_id l, l_target_id l, l_relation l)) (db_links db))
    \<and> distinct (map m_id (db_archived db)) \<and> distinct (map nm_namespace (db_namespace_meta db))
    \<and> distinct (map pa_id (db_pending db))
    \<and> distinct (map (\<lambda>r. (sy_agent_id r, sy_peer_id r)) (db_sync db))"
proof -
  have keys: "title_key = (\<lambda>r. (m_title r, m_namespace r))" "sync_key = (\<lambda>r. (sy_agent_id r, sy_peer_id r))"
    "link_key = (\<lambda>l :: LinkRow. (l_source_id l, l_target_id l, l_relation l))"
    by (auto simp: fun_eq_iff title_key_def sync_key_def link_key_def)
  have "get db i \<noteq> None" if "i \<in> mem_ids db" for i
    using that by (auto simp: get_def mem_ids_def sql_row_None)
  then show ?thesis using reachable_ok [OF assms]
    by (simp add: db_ok_def memories_ok_def links_ok_def unique_key_def keys)
qed

lemma ex_db_reachable: "reachable ex_db"
  unfolding ex_db_def by (intro reachable.local [OF _ step_insert] reachable.init)

theorem reachable_store_well_formed_witness:
  "distinct (map m_id (db_memories (snd (create_link_signed no_crypto ''t'' ex_db ''m1'' ''m2'' ''related_to'' None))))"
proof -
  have "reachable (snd (create_link_signed no_crypto ''t'' ex_db ''m1'' ''m2'' ''related_to'' None))"
    by (rule reachable.local [OF ex_db_reachable step_link])
  then show ?thesis by (rule reachable_store_well_formed [THEN conjunct1])
qed

text \<open>C3: A decision is final on the node that took it: no sequence of local operations, approvals, sweeps
  and executions changes anything of a pending action that is approved, rejected or expired.\<close>

theorem decision_is_final:
  assumes "reachable db" and "local_step\<^sup>*\<^sup>* db db'"
    and "get_pending_action db i = Some pa" "pa_status pa \<noteq> ''pending''"
  shows "get_pending_action db' i = Some pa"
  using local_steps_kept [OF assms(2) reachable_ok [OF assms(1)]] assms(3,4) by (auto simp: decided_kept_def)

theorem decision_is_final_witness:
  "let db = snd (decide_pending_action ''t'' (snd (enforce_governance Enforce ex_policy ''p1'' ''t'' (ex_gov ''approve'')
              Store ''o'' ''eve'' None None JNull)) ''p1'' False ''bob'') in
   get_pending_action (snd (approve_with_approver_type ex_policy ''t'' db ''p1'' ''alice'')) ''p1'' = get_pending_action db ''p1''"
proof -
  define db0 where "db0 = snd (enforce_governance Enforce ex_policy ''p1'' ''t'' (ex_gov ''approve'') Store ''o'' ''eve'' None None JNull)"
  define db where "db = snd (decide_pending_action ''t'' db0 ''p1'' False ''bob'')"
  have "reachable (ex_gov ''approve'')" unfolding ex_gov_def
    by (intro reachable.local [OF _ step_standard] reachable.local [OF _ step_insert] reachable.init)
  then have r: "reachable db" unfolding db_def db0_def
    by (intro reachable.local [OF _ step_decide] reachable.local [OF _ step_enforce])
  have "map_option pa_status (get_pending_action db ''p1'') = Some ''rejected''" unfolding db_def db0_def by code_simp
  then obtain pa where pa: "get_pending_action db ''p1'' = Some pa" "pa_status pa \<noteq> ''pending''" by auto
  have "local_step\<^sup>*\<^sup>* db (snd (approve_with_approver_type ex_policy ''t'' db ''p1'' ''alice''))"
    by (intro r_into_rtranclp step_approve)
  from decision_is_final [OF r this pa] pa(1) show ?thesis unfolding Let_def db_def db0_def by simp
qed

text \<open>C2: The approval operation of the tools and routes under a policy that asks for the consensus of q agents. In every
  reachable store, it answers that the action is approved exactly when the voter is a registered agent that has not
  voted yet, up to letter case, and with its vote at least q votes are recorded; then the action is approved with
  that vote appended, and otherwise it stays pending. When the queue was filled by operations of this node alone,
  the recorded votes are of that many distinct agents. A decision that a peer pushes is applied without this operation.\<close>

theorem consensus_needs_quorum:
  assumes "reachable db"
    and "get_pending_action db i = Some pa" "pa_status pa = ''pending''"
    and "map_option gp_approver (resolve_governance_policy fv db (pa_namespace pa)) = Some (Consensus q)"
    and "approve_with_approver_type fv now db i who = (out, db')"
  shows "\<exists>pa'. get_pending_action db' i = Some pa'
    \<and> (out = Approved \<longleftrightarrow> is_registered_agent db who
          \<and> to_ascii_lowercase (to_ascii_lowercase who) \<notin> (\<lambda>a. to_ascii_lowercase (ap_agent_id a)) ` set (pa_approvals pa)
          \<and> q \<le> length (pa_approvals pa) + 1)
    \<and> pa_status pa' = (if out = Approved then ''approved'' else ''pending'')
    \<and> (out = Approved \<longrightarrow> pa_approvals pa' = pa_approvals pa @ [\<lparr>ap_agent_id = to_ascii_lowercase who, ap_approved_at = now\<rparr>])
    \<and> (\<forall>db0. reachable db0 \<and> db_pending db0 = [] \<and> local_step\<^sup>*\<^sup>* db0 db
          \<longrightarrow> card ((\<lambda>a. to_ascii_lowercase (ap_agent_id a)) ` set (pa_approvals pa')) = length (pa_approvals pa'))"
proof -
  note vote = consensus_vote [OF assms(2-4), of now who, unfolded assms(5) fst_conv snd_conv]
  obtain pa' where pa': "get_pending_action db' i = Some pa'" using vote(2) by auto
  have votes: "card ((\<lambda>a. to_ascii_lowercase (ap_agent_id a)) ` set (pa_approvals pa')) = length (pa_approvals pa')"
    if "reachable db0" "db_pending db0 = []" "local_step\<^sup>*\<^sup>* db0 db" for db0
  proof -
    have "votes_ok db0" using that(2) by (simp add: votes_ok_def)
    with local_steps_votes [OF that(3) reachable_ok [OF that(1)]] have "db_ok db" "votes_ok db" by auto
    then have "votes_ok db'" using approve_votes [of db fv now i who] assms(5) by simp
    then have "distinct (voters pa')" using pa' by (auto simp: votes_ok_def get_pending_Some dest!: sql_row_SomeD)
    then show ?thesis by (metis distinct_card length_map voters_def set_map)
  qed
  have "voters pa = map (\<lambda>a. to_ascii_lowercase (ap_agent_id a)) (pa_approvals pa)" by (simp add: voters_def)
  then show ?thesis using vote votes by (intro exI [of _ pa'] conjI pa') (auto simp: pa' split: if_splits)
qed

theorem consensus_needs_quorum_witness:
  "let db = snd (approve_with_approver_type ex_policy ''t'' (snd (enforce_governance Enforce ex_policy ''p1'' ''t''
              (ex_gov ''approve'') Store ''o'' ''eve'' None None JNull)) ''p1'' ''alice'') in
   \<exists>pa'. get_pending_action (snd (approve_with_approver_type ex_policy ''t'' db ''p1'' ''bob'')) ''p1'' = Some pa'
     \<and> 2 \<le> card ((\<lambda>a. to_ascii_lowercase (ap_agent_id a)) ` set (pa_approvals pa'))"
proof -
  define db0 where "db0 = snd (enforce_governance Enforce ex_policy ''p1'' ''t'' (ex_gov ''approve'') Store ''o'' ''eve'' None None JNull)"
  define db where "db = snd (approve_with_approver_type ex_policy ''t'' db0 ''p1'' ''alice'')"
  have g: "reachable (ex_gov ''approve'')" unfolding ex_gov_def
    by (intro reachable.local [OF _ step_standard] reachable.local [OF _ step_insert] reachable.init)
  have e: "db_pending (ex_gov ''approve'') = []" by code_simp
  have s: "local_step\<^sup>*\<^sup>* (ex_gov ''approve'') db" unfolding db_def db0_def
    by (rule rtranclp.intros(2) [OF r_into_rtranclp [where r = local_step, OF step_enforce] step_approve])
  have r: "reachable db" unfolding db_def db0_def
    by (intro reachable.local [OF _ step_approve] reachable.local [OF _ step_enforce] g)
  have "map_option (\<lambda>pa. (pa_status pa, pa_namespace pa)) (get_pending_action db ''p1'') = Some (''pending'', ''o'')"
    unfolding db_def db0_def by code_simp
  then obtain pa where pa: "get_pending_action db ''p1'' = Some pa" "pa_status pa = ''pending''" "pa_namespace pa = ''o''" by auto
  have "map_option gp_approver (resolve_governance_policy ex_policy db ''o'') = Some (Consensus 2)"
    unfolding db_def db0_def by code_simp
  then have pol: "map_option gp_approver (resolve_governance_policy ex_policy db (pa_namespace pa)) = Some (Consensus 2)"
    using pa(3) by simp
  have "fst (approve_with_approver_type ex_policy ''t'' db ''p1'' ''bob'') = Approved"
    unfolding db_def db0_def by code_simp
  then have "approve_with_approver_type ex_policy ''t'' db ''p1'' ''bob''
      = (Approved, snd (approve_with_approver_type ex_policy ''t'' db ''p1'' ''bob''))" by (metis prod.collapse)
  from consensus_needs_quorum [OF r pa(1,2) pol this] obtain pa' where
    "get_pending_action (snd (approve_with_approver_type ex_policy ''t'' db ''p1'' ''bob'')) ''p1'' = Some pa'"
    "2 \<le> length (pa_approvals pa')"
    "card ((\<lambda>a. to_ascii_lowercase (ap_agent_id a)) ` set (pa_approvals pa')) = length (pa_approvals pa')"
    using g e s by auto
  then show ?thesis unfolding Let_def db_def [symmetric] db0_def [symmetric] by auto
qed

text \<open>A pushed decision needs none of this: the receiving node approves the action of a consensus namespace on the word of
  any decider, although no agent voted.\<close>

lemma pushed_decision_needs_no_votes:
  "let db = snd (enforce_governance Enforce ex_policy ''p1'' ''t'' (ex_gov ''approve'') Store ''o'' ''eve'' None None JNull);
       dec = \<lparr>pd_id = ''p1'', pd_approved = True, pd_decider = ''mallory''\<rparr>;
       db' = ps_db (push_decision ex_env False dec (push_start db))
   in map_option gp_approver (resolve_governance_policy ex_policy db ''o'') = Some (Consensus 2)
     \<and> \<not> is_registered_agent db ''mallory''
     \<and> map_option (\<lambda>p. (pa_status p, pa_approvals p)) (get_pending_action db' ''p1'') = Some (''approved'', [])"
  by code_simp

end
