(* ===== verification/Audit_Log.thy ===== *)
theory Audit_Log
  imports Rust_Str "HOL-Library.Word"
begin

text \<open>
  The tamper-evident audit log of \<open>audit.rs\<close>. The process state is the pair of the statics \<open>SINK\<close> and
  \<open>SEQUENCE\<close>; the log file is its byte string, written line by line and read back with
  \<open>BufRead::lines\<close>. The SHA-256 crate and the derived serde instances of \<open>AuditEvent\<close> are the
  parameters of type \<open>audit_lib\<close>; \<open>serde_lines\<close> is what the code relies on: a line is parsed back
  to the event it was printed from, and holds neither a line break nor only white space.
\<close>

subsection \<open>Events\<close>

definition SCHEMA_VERSION :: "32 word" where "SCHEMA_VERSION = 1"

definition CHAIN_HEAD_PREV_HASH :: str where
  "CHAIN_HEAD_PREV_HASH = replicate 64 CHR ''0''"

record AuditActor =
  aa_agent_id :: str
  aa_scope :: "str option"
  aa_synthesis_source :: str

datatype AuditAction = ARecall | AStore | AUpdate | ADelete | ALink | APromote | AForget
  | AConsolidate | AExport | AImport | AApprove | AReject | ASessionBoot

fun audit_action_str :: "AuditAction \<Rightarrow> str" where
  "audit_action_str ARecall = ''recall''"
| "audit_action_str AStore = ''store''"
| "audit_action_str AUpdate = ''update''"
| "audit_action_str ADelete = ''delete''"
| "audit_action_str ALink = ''link''"
| "audit_action_str APromote = ''promote''"
| "audit_action_str AForget = ''forget''"
| "audit_action_str AConsolidate = ''consolidate''"
| "audit_action_str AExport = ''export''"
| "audit_action_str AImport = ''import''"
| "audit_action_str AApprove = ''approve''"
| "audit_action_str AReject = ''reject''"
| "audit_action_str ASessionBoot = ''session_boot''"

record AuditTarget =
  at_memory_id :: str
  at_namespace :: str
  at_title :: "str option"
  at_tier :: "str option"
  at_scope :: "str option"

datatype AuditOutcome = OAllow | ODeny | OError | OPending

record AuditAuth =
  au_source_ip :: "str option"
  au_mtls_fp :: "str option"
  au_api_key_id_hash :: "str option"

record AuditEvent =
  ae_schema_version :: "32 word"
  ae_timestamp :: str
  ae_sequence :: "64 word"
  ae_actor :: AuditActor
  ae_action :: AuditAction
  ae_target :: AuditTarget
  ae_outcome :: AuditOutcome
  ae_auth :: "AuditAuth option"
  ae_session_id :: "str option"
  ae_request_id :: "str option"
  ae_error :: "str option"
  ae_prev_hash :: str
  ae_self_hash :: str

record audit_lib =
  lib_sha256 :: "8 word list \<Rightarrow> 8 word list"
  lib_to_json :: "AuditEvent \<Rightarrow> str"
  lib_from_json :: "str \<Rightarrow> AuditEvent option"

subsection \<open>Hashing\<close>

definition HEX :: str where "HEX = ''0123456789abcdef''"

definition hex_encode :: "8 word list \<Rightarrow> str" where
  "hex_encode bytes =
     concat (map (\<lambda>b. [HEX ! unat (drop_bit 4 b), HEX ! unat (and b 0x0f)]) bytes)"

definition as_bytes :: "str \<Rightarrow> 8 word list" where
  "as_bytes s = map (\<lambda>c. word_of_nat (byte_of c)) s"

definition canonical_json_for_hash :: "audit_lib \<Rightarrow> AuditEvent \<Rightarrow> str" where
  "canonical_json_for_hash L ev = lib_to_json L (ev\<lparr>ae_self_hash := []\<rparr>)"

definition compute_self_hash :: "audit_lib \<Rightarrow> AuditEvent \<Rightarrow> str" where
  "compute_self_hash L ev = hex_encode (lib_sha256 L (as_bytes (canonical_json_for_hash L ev)))"

subsection \<open>Building and sanitising events\<close>

text \<open>\<open>char_slices\<close> cuts a string into the encodings of its characters.\<close>

fun char_slices :: "str \<Rightarrow> str list" where
  "char_slices [] = []"
| "char_slices (a # s) =
     (let b = byte_of a in
      if b < 128 then [a] # char_slices s
      else if b < 224 then (case s of c # r \<Rightarrow> [a, c] # char_slices r | [] \<Rightarrow> [[a]])
      else if b < 240 then (case s of c # d # r \<Rightarrow> [a, c, d] # char_slices r | _ \<Rightarrow> [a # s])
      else (case s of c # d # e # r \<Rightarrow> [a, c, d, e] # char_slices r | _ \<Rightarrow> [a # s]))"

definition keep_char :: "str \<Rightarrow> bool" where
  "keep_char c = (\<not> is_control (hd (chars c)) \<or> c = [CHR 0x09])"

definition sanitize_field :: "str \<Rightarrow> nat \<Rightarrow> str" where
  "sanitize_field s max_chars =
     (let cleaned = filter keep_char (char_slices s) in
      if length cleaned \<le> max_chars then concat cleaned else concat (take max_chars cleaned))"

record EventBuilder =
  eb_action :: AuditAction
  eb_actor :: AuditActor
  eb_target :: AuditTarget
  eb_outcome :: AuditOutcome
  eb_auth :: "AuditAuth option"
  eb_session_id :: "str option"
  eb_request_id :: "str option"
  eb_error :: "str option"

definition builder_new :: "AuditAction \<Rightarrow> AuditActor \<Rightarrow> AuditTarget \<Rightarrow> EventBuilder" where
  "builder_new a ac t =
     \<lparr>eb_action = a, eb_actor = ac, eb_target = t, eb_outcome = OAllow, eb_auth = None,
      eb_session_id = None, eb_request_id = None, eb_error = None\<rparr>"

definition builder_outcome :: "AuditOutcome \<Rightarrow> EventBuilder \<Rightarrow> EventBuilder" where
  "builder_outcome oc b = b\<lparr>eb_outcome := oc\<rparr>"

definition builder_error :: "str \<Rightarrow> EventBuilder \<Rightarrow> EventBuilder" where
  "builder_error msg b = b\<lparr>eb_error := Some (sanitize_field msg 256), eb_outcome := OError\<rparr>"

definition builder_auth :: "AuditAuth \<Rightarrow> EventBuilder \<Rightarrow> EventBuilder" where
  "builder_auth au b = b\<lparr>eb_auth := Some au\<rparr>"

definition builder_request_id :: "str \<Rightarrow> EventBuilder \<Rightarrow> EventBuilder" where
  "builder_request_id i b = b\<lparr>eb_request_id := Some i\<rparr>"

definition audit_actor :: "str \<Rightarrow> str \<Rightarrow> str option \<Rightarrow> AuditActor" where
  "audit_actor agent source scope =
     \<lparr>aa_agent_id = agent, aa_scope = scope, aa_synthesis_source = source\<rparr>"

definition target_memory ::
    "str \<Rightarrow> str \<Rightarrow> str option \<Rightarrow> str option \<Rightarrow> str option \<Rightarrow> AuditTarget" where
  "target_memory i ns title tier scope =
     \<lparr>at_memory_id = i, at_namespace = ns, at_title = title, at_tier = tier, at_scope = scope\<rparr>"

definition target_sweep :: "str \<Rightarrow> AuditTarget" where
  "target_sweep ns =
     \<lparr>at_memory_id = ''*'', at_namespace = ns, at_title = None, at_tier = None, at_scope = None\<rparr>"

subsection \<open>The sink\<close>

text \<open>
  \<open>au_file\<close> is the content of the log on disk, \<open>au_last_hash\<close> the head of the open sink (\<open>None\<close> when
  auditing is disabled) and \<open>au_sequence\<close> the process-wide counter. Opening, creating directories and
  the append-only flag are I/O that leaves this state alone; I/O is assumed to succeed.
\<close>

record audit_state =
  au_file :: str
  au_last_hash :: "str option"
  au_sequence :: "64 word"

text \<open>\<open>BufRead::lines\<close>: split at line feeds, drop the carriage return before one, no empty last line.\<close>

definition strip_cr :: "str \<Rightarrow> str" where
  "strip_cr l = (if l \<noteq> [] \<and> last l = CHR 0x0D then butlast l else l)"

definition file_lines :: "str \<Rightarrow> str list" where
  "file_lines s =
     (let ps = split_on (CHR 0x0A) s in
      map strip_cr (butlast ps) @ (if last ps = [] then [] else [last ps]))"

definition read_chain_tail :: "audit_lib \<Rightarrow> str \<Rightarrow> str option" where
  "read_chain_tail L file =
     fold (\<lambda>line found.
             if trim line = [] then found
             else case lib_from_json L line of Some ev \<Rightarrow> Some (ae_self_hash ev) | None \<Rightarrow> found)
       (file_lines file) None"

definition audit_init :: "audit_lib \<Rightarrow> audit_state \<Rightarrow> audit_state" where
  "audit_init L st =
     st\<lparr>au_last_hash := Some (case read_chain_tail L (au_file st) of
                               Some h \<Rightarrow> h | None \<Rightarrow> CHAIN_HEAD_PREV_HASH),
        au_sequence := 0\<rparr>"

definition init_from_config :: "audit_lib \<Rightarrow> bool option \<Rightarrow> audit_state \<Rightarrow> audit_state" where
  "init_from_config L enabled st =
     (if enabled \<noteq> Some True then st\<lparr>au_last_hash := None\<rparr> else audit_init L st)"

definition is_enabled :: "audit_state \<Rightarrow> bool" where
  "is_enabled st = (au_last_hash st \<noteq> None)"

definition try_emit :: "audit_lib \<Rightarrow> str \<Rightarrow> audit_state \<Rightarrow> EventBuilder \<Rightarrow> audit_state" where
  "try_emit L now st b =
     (case au_last_hash st of
        None \<Rightarrow> st
      | Some last_hash \<Rightarrow>
          let sequence = au_sequence st + 1;
              ev = \<lparr>ae_schema_version = SCHEMA_VERSION, ae_timestamp = now, ae_sequence = sequence,
                    ae_actor = eb_actor b, ae_action = eb_action b,
                    ae_target =
                      \<lparr>at_memory_id = sanitize_field (at_memory_id (eb_target b)) 128,
                       at_namespace = sanitize_field (at_namespace (eb_target b)) 128,
                       at_title = map_option (\<lambda>t. sanitize_field t 200) (at_title (eb_target b)),
                       at_tier = at_tier (eb_target b), at_scope = at_scope (eb_target b)\<rparr>,
                    ae_outcome = eb_outcome b, ae_auth = eb_auth b,
                    ae_session_id = eb_session_id b, ae_request_id = eb_request_id b,
                    ae_error = eb_error b, ae_prev_hash = last_hash, ae_self_hash = []\<rparr>;
              self_hash = compute_self_hash L ev;
              line = lib_to_json L (ev\<lparr>ae_self_hash := self_hash\<rparr>)
          in st\<lparr>au_file := au_file st @ line @ [CHR 0x0A], au_last_hash := Some self_hash,
                au_sequence := sequence\<rparr>)"

subsection \<open>Verifying a log\<close>

datatype VerifyFailureKind = ParseFailure | SelfHashMismatch | ChainBreak | SequenceRegression

record VerifyFailure =
  vf_line_number :: nat
  vf_kind :: VerifyFailureKind

record VerifyReport =
  vr_total_lines :: nat
  vr_first_failure :: "VerifyFailure option"

fun verify_lines :: "audit_lib \<Rightarrow> nat \<Rightarrow> nat \<Rightarrow> str \<Rightarrow> 64 word \<Rightarrow> str list \<Rightarrow> VerifyReport" where
  "verify_lines L line_no total_n prev_hash prev_seq [] =
     \<lparr>vr_total_lines = total_n, vr_first_failure = None\<rparr>"
| "verify_lines L line_no total_n prev_hash prev_seq (line # rest) =
     (let failure = (\<lambda>k. \<lparr>vr_total_lines = total_n + 1,
                          vr_first_failure = Some \<lparr>vf_line_number = line_no, vf_kind = k\<rparr>\<rparr>) in
      if trim line = [] then verify_lines L (line_no + 1) total_n prev_hash prev_seq rest
      else case lib_from_json L line of
             None \<Rightarrow> failure ParseFailure
           | Some ev \<Rightarrow>
               if ae_prev_hash ev \<noteq> prev_hash then failure ChainBreak
               else if ae_sequence ev \<le> prev_seq \<and> prev_seq \<noteq> 0 then failure SequenceRegression
               else if compute_self_hash L ev \<noteq> ae_self_hash ev then failure SelfHashMismatch
               else verify_lines L (line_no + 1) (total_n + 1) (ae_self_hash ev) (ae_sequence ev) rest)"

definition verify_chain_from_reader :: "audit_lib \<Rightarrow> str \<Rightarrow> VerifyReport" where
  "verify_chain_from_reader L file =
     verify_lines L 1 0 CHAIN_HEAD_PREV_HASH 0 (file_lines file)"

definition into_result :: "VerifyReport \<Rightarrow> VerifyFailure + nat" where
  "into_result r = (case vr_first_failure r of Some f \<Rightarrow> Inl f | None \<Rightarrow> Inr (vr_total_lines r))"

subsection \<open>Encodings are injective\<close>

definition hex_value :: "char \<Rightarrow> nat" where
  "hex_value c = length (takeWhile (\<lambda>x. x \<noteq> c) HEX)"

fun hex_decode :: "str \<Rightarrow> 8 word list" where
  "hex_decode (a # b # r) = (word_of_nat (hex_value a) * 16 + word_of_nat (hex_value b)) # hex_decode r"
| "hex_decode _ = []"

lemma hex_value_nth: "i < 16 \<Longrightarrow> hex_value (HEX ! i) = i"
proof -
  assume "i < 16"
  have "list_all (\<lambda>i. hex_value (HEX ! i) = i) [0..<16]" by code_simp
  with \<open>i < 16\<close> show ?thesis by (simp add: list_all_iff)
qed

lemma nibbles: "(drop_bit 4 b * 16 + and b 0x0f :: 8 word) = b"
proof -
  have "and b 0x0f = b mod 16"
    using take_bit_eq_mask [of 4 b] by (simp add: take_bit_eq_mod mask_eq_exp_minus_1)
  moreover have "drop_bit 4 b = b div 16" by (simp add: drop_bit_eq_div)
  ultimately show ?thesis by (simp add: word_mod_div_equality)
qed

lemma nibble_bounds: "unat (drop_bit 4 (b :: 8 word)) < 16" "unat (and b 0x0f) < 16"
proof -
  have "unat b < 256" using unsigned_less [of b] by simp
  then show "unat (drop_bit 4 b) < 16" by (simp add: drop_bit_eq_div unat_div)
  have "unat (and b 0x0f) \<le> 15" using word_and_le1 [of b "0x0f"] by (simp add: word_le_nat_alt)
  then show "unat (and b 0x0f) < 16" by simp
qed

lemma hex_decode_encode [simp]: "hex_decode (hex_encode bs) = bs"
  by (induction bs) (simp_all add: hex_encode_def hex_value_nth nibble_bounds nibbles)

lemma hex_encode_inject [simp]: "(hex_encode a = hex_encode b) = (a = b)"
  by (metis hex_decode_encode)

lemma as_bytes_inject [simp]: "(as_bytes a = as_bytes b) = (a = b)"
proof -
  have "map (\<lambda>w. char_of (unat w)) (as_bytes s) = s" for s
    by (induction s) (simp_all add: as_bytes_def byte_of_def unat_of_nat)
  then show ?thesis by metis
qed

subsection \<open>Chains of events\<close>

text \<open>\<open>chained L h evs\<close>: every event carries its own hash and the hash before it, starting at \<open>h\<close>.\<close>

fun chained :: "audit_lib \<Rightarrow> str \<Rightarrow> AuditEvent list \<Rightarrow> bool" where
  "chained L h [] = True"
| "chained L h (e # es) =
     (ae_prev_hash e = h \<and> ae_self_hash e = compute_self_hash L e \<and> chained L (ae_self_hash e) es)"

definition chain_end :: "str \<Rightarrow> AuditEvent list \<Rightarrow> str" where
  "chain_end h evs = (if evs = [] then h else ae_self_hash (last evs))"

definition log_events :: "audit_lib \<Rightarrow> str \<Rightarrow> AuditEvent list" where
  "log_events L file = List.map_filter (lib_from_json L) (filter (\<lambda>l. trim l \<noteq> []) (file_lines file))"

definition serde_lines :: "audit_lib \<Rightarrow> bool" where
  "serde_lines L = (\<forall>ev. lib_from_json L (lib_to_json L ev) = Some ev \<and> CHR 0x0A \<notin> set (lib_to_json L ev)
      \<and> CHR 0x0D \<notin> set (lib_to_json L ev) \<and> trim (lib_to_json L ev) \<noteq> [])"

definition emit_all :: "audit_lib \<Rightarrow> audit_state \<Rightarrow> (str \<times> EventBuilder) list \<Rightarrow> audit_state" where
  "emit_all L st es = foldl (\<lambda>st (now, b). try_emit L now st b) st es"

definition print_log :: "audit_lib \<Rightarrow> AuditEvent list \<Rightarrow> str" where
  "print_log L evs = concat (map (\<lambda>e. lib_to_json L e @ [CHR 0x0A]) evs)"

lemma chain_end_simps [simp]:
  "chain_end h [] = h" "chain_end h (e # es) = chain_end (ae_self_hash e) es"
  "chain_end h (es @ [e]) = ae_self_hash e"
  by (simp_all add: chain_end_def)

lemma chained_snoc [simp]:
  "chained L h (es @ [e]) =
     (chained L h es \<and> ae_prev_hash e = chain_end h es \<and> ae_self_hash e = compute_self_hash L e)"
  by (induction es arbitrary: h) auto

lemma print_log_append [simp]: "print_log L (a @ b) = print_log L a @ print_log L b"
  by (simp add: print_log_def)

lemma file_lines_Cons:
  assumes "CHR 0x0A \<notin> set l"
  shows "file_lines (l @ CHR 0x0A # s) = strip_cr l # file_lines s"
  using assms by (simp add: file_lines_def split_on_append Let_def)

lemma file_lines_print [simp]:
  assumes "serde_lines L"
  shows "file_lines (print_log L evs) = map (lib_to_json L) evs"
proof (induction evs)
  case Nil
  then show ?case by (simp add: print_log_def file_lines_def)
next
  case (Cons e es)
  have "strip_cr (lib_to_json L e) = lib_to_json L e"
    using assms last_in_set by (fastforce simp: strip_cr_def serde_lines_def)
  with Cons assms show ?case by (simp add: print_log_def file_lines_Cons serde_lines_def)
qed

lemma log_events_print [simp]: "serde_lines L \<Longrightarrow> log_events L (print_log L evs) = evs"
  by (induction evs) (simp_all add: log_events_def serde_lines_def map_filter_simps)

text \<open>A line whose event continues the chain is stepped over.\<close>

lemma verify_lines_step:
  assumes "serde_lines L" "ae_prev_hash e = h" "ae_self_hash e = compute_self_hash L e"
    "q = 0 \<or> q < ae_sequence e"
  shows "verify_lines L n t h q (lib_to_json L e # rest) =
    verify_lines L (n + 1) (t + 1) (ae_self_hash e) (ae_sequence e) rest"
  using assms by (auto simp: serde_lines_def)

lemma verify_lines_regression:
  assumes "serde_lines L" "ae_prev_hash e = h" "ae_sequence e \<le> q" "q \<noteq> 0"
  shows "verify_lines L n t h q (lib_to_json L e # rest) =
    \<lparr>vr_total_lines = t + 1,
     vr_first_failure = Some \<lparr>vf_line_number = n, vf_kind = SequenceRegression\<rparr>\<rparr>"
  using assms by (simp add: serde_lines_def)

lemma verified_chained:
  "vr_first_failure (verify_lines L n t h q ls) = None \<Longrightarrow>
     chained L h (List.map_filter (lib_from_json L) (filter (\<lambda>l. trim l \<noteq> []) ls))"
  by (induction L n t h q ls rule: verify_lines.induct)
    (auto simp: Let_def map_filter_simps split: if_splits option.splits)

subsection \<open>What emission appends\<close>

lemma self_hash_ignores_self [simp]: "compute_self_hash L (ev\<lparr>ae_self_hash := x\<rparr>) = compute_self_hash L ev"
  by (simp add: compute_self_hash_def canonical_json_for_hash_def)

lemma try_emit_appends:
  assumes "au_last_hash st = Some h"
  shows "\<exists>e. try_emit L now st b =
      st\<lparr>au_file := au_file st @ print_log L [e], au_last_hash := Some (ae_self_hash e),
         au_sequence := ae_sequence e\<rparr>
    \<and> ae_sequence e = au_sequence st + 1 \<and> ae_prev_hash e = h \<and> ae_self_hash e = compute_self_hash L e"
proof -
  let ?t = "eb_target b"
  define ev where "ev = \<lparr>ae_schema_version = SCHEMA_VERSION, ae_timestamp = now, ae_sequence = au_sequence st + 1,
      ae_actor = eb_actor b, ae_action = eb_action b,
      ae_target = \<lparr>at_memory_id = sanitize_field (at_memory_id ?t) 128,
        at_namespace = sanitize_field (at_namespace ?t) 128,
        at_title = map_option (\<lambda>t. sanitize_field t 200) (at_title ?t),
        at_tier = at_tier ?t, at_scope = at_scope ?t\<rparr>,
      ae_outcome = eb_outcome b, ae_auth = eb_auth b, ae_session_id = eb_session_id b,
      ae_request_id = eb_request_id b, ae_error = eb_error b, ae_prev_hash = h, ae_self_hash = []\<rparr>"
  let ?e = "ev\<lparr>ae_self_hash := compute_self_hash L ev\<rparr>"
  have "ae_sequence ?e = au_sequence st + 1" "ae_prev_hash ?e = h" by (simp_all add: ev_def)
  moreover have "ae_self_hash ?e = compute_self_hash L ?e" by simp
  moreover have "try_emit L now st b =
      st\<lparr>au_file := au_file st @ print_log L [?e], au_last_hash := Some (ae_self_hash ?e),
         au_sequence := ae_sequence ?e\<rparr>"
    using assms by (simp add: try_emit_def Let_def print_log_def ev_def)
  ultimately show ?thesis by blast
qed

lemma emit_all_snoc: "emit_all L st (es @ [(now, b)]) = try_emit L now (emit_all L st es) b"
  by (simp add: emit_all_def)

lemma emit_all_appends:
  assumes "au_last_hash st = Some h"
  shows "\<exists>evs. emit_all L st es =
      st\<lparr>au_file := au_file st @ print_log L evs, au_last_hash := Some (chain_end h evs),
         au_sequence := au_sequence st + word_of_nat (length es)\<rparr>
    \<and> chained L h evs
    \<and> map ae_sequence evs = map (\<lambda>i. au_sequence st + word_of_nat (Suc i)) [0..<length es]"
proof (induction es rule: rev_induct)
  case Nil
  from assms show ?case by (intro exI [of _ "[]"]) (simp add: emit_all_def print_log_def)
next
  case (snoc x es)
  obtain now b where x: "x = (now, b)" by (cases x)
  from snoc obtain evs where st: "emit_all L st es =
      st\<lparr>au_file := au_file st @ print_log L evs, au_last_hash := Some (chain_end h evs),
         au_sequence := au_sequence st + word_of_nat (length es)\<rparr>"
    and ch: "chained L h evs"
    and sq: "map ae_sequence evs = map (\<lambda>i. au_sequence st + word_of_nat (Suc i)) [0..<length es]"
    by blast
  obtain e where "try_emit L now (emit_all L st es) b = (emit_all L st es)
      \<lparr>au_file := au_file (emit_all L st es) @ print_log L [e], au_last_hash := Some (ae_self_hash e),
         au_sequence := ae_sequence e\<rparr>"
    "ae_sequence e = au_sequence (emit_all L st es) + 1" "ae_prev_hash e = chain_end h evs"
    "ae_self_hash e = compute_self_hash L e"
    using try_emit_appends [of "emit_all L st es" "chain_end h evs" L now b] st by auto
  then show ?case using st ch sq
    by (intro exI [of _ "evs @ [e]"]) (simp add: x emit_all_snoc algebra_simps)
qed

text \<open>A chain whose sequence numbers count up from one is verified and walked to its end.\<close>

lemma verify_lines_counting:
  assumes "serde_lines L" "chained L h evs"
    "map ae_sequence evs = map (\<lambda>i. word_of_nat (q + Suc i)) [0..<length evs]"
    "q + length evs < 2 ^ 64"
  shows "verify_lines L n t h (word_of_nat q) (map (lib_to_json L) evs @ rest) =
    verify_lines L (n + length evs) (t + length evs) (chain_end h evs)
      (word_of_nat (q + length evs)) rest"
  using assms(2-)
proof (induction evs arbitrary: n t h q)
  case Nil
  then show ?case by simp
next
  case (Cons e es)
  have sq: "ae_sequence e = word_of_nat (Suc q)"
    and tl: "map ae_sequence es = map (\<lambda>i. word_of_nat (Suc q + Suc i)) [0..<length es]"
    using Cons.prems(2) by (simp_all add: upt_conv_Cons map_Suc_upt [symmetric] del: upt_Suc)
  have "(word_of_nat q :: 64 word) < word_of_nat (Suc q)"
    using Cons.prems(3) by (simp add: word_less_nat_alt unat_of_nat del: of_nat_Suc)
  then have "verify_lines L n t h (word_of_nat q) (map (lib_to_json L) (e # es) @ rest) =
      verify_lines L (n + 1) (t + 1) (ae_self_hash e) (word_of_nat (Suc q))
        (map (lib_to_json L) es @ rest)"
    using verify_lines_step [OF assms(1), of e h "word_of_nat q" n t "map (lib_to_json L) es @ rest"]
      Cons.prems(1) sq by simp
  also have "\<dots> = verify_lines L (n + 1 + length es) (t + 1 + length es)
      (chain_end (ae_self_hash e) es) (word_of_nat (Suc q + length es)) rest"
    using Cons.prems by (intro Cons.IH tl) auto
  finally show ?case by simp
qed

subsection \<open>A line format\<close>

text \<open>
  A stand-in for the JSON of the events that satisfies \<open>serde_lines\<close>: the fields, each in hexadecimal,
  separated by commas. It shows that the assumption on the serializer can be met.
\<close>

definition enc_str :: "str \<Rightarrow> str" where
  "enc_str s = CHR ''s'' # hex_encode (as_bytes s)"

definition dec_str :: "str \<Rightarrow> str" where
  "dec_str s = map (\<lambda>w. char_of (unat w)) (hex_decode (tl s))"

definition enc_opt :: "str option \<Rightarrow> str" where
  "enc_opt x = (case x of None \<Rightarrow> ''n'' | Some s \<Rightarrow> enc_str s)"

definition dec_opt :: "str \<Rightarrow> str option" where
  "dec_opt s = (if s = ''n'' then None else Some (dec_str s))"

definition all_actions :: "AuditAction list" where
  "all_actions = [ARecall, AStore, AUpdate, ADelete, ALink, APromote, AForget, AConsolidate, AExport,
     AImport, AApprove, AReject, ASessionBoot]"

definition enc_outcome :: "AuditOutcome \<Rightarrow> str" where
  "enc_outcome x = (case x of OAllow \<Rightarrow> ''a'' | ODeny \<Rightarrow> ''d'' | OError \<Rightarrow> ''e'' | OPending \<Rightarrow> ''p'')"

definition dec_outcome :: "str \<Rightarrow> AuditOutcome" where
  "dec_outcome s = (if s = ''a'' then OAllow else if s = ''d'' then ODeny else if s = ''e'' then OError else OPending)"

definition enc_auth :: "AuditAuth option \<Rightarrow> str list" where
  "enc_auth x = (case x of None \<Rightarrow> [] | Some a \<Rightarrow> [enc_opt (au_source_ip a), enc_opt (au_mtls_fp a), enc_opt (au_api_key_id_hash a)])"

definition dec_auth :: "str list \<Rightarrow> AuditAuth option" where
  "dec_auth fs = (case fs of [a, b, c] \<Rightarrow>
       Some \<lparr>au_source_ip = dec_opt a, au_mtls_fp = dec_opt b, au_api_key_id_hash = dec_opt c\<rparr> | _ \<Rightarrow> None)"

definition event_fields :: "AuditEvent \<Rightarrow> str list" where
  "event_fields e =
     [show_nat (unat (ae_schema_version e)), enc_str (ae_timestamp e), show_nat (unat (ae_sequence e)),
      enc_str (aa_agent_id (ae_actor e)), enc_opt (aa_scope (ae_actor e)),
      enc_str (aa_synthesis_source (ae_actor e)), audit_action_str (ae_action e),
      enc_str (at_memory_id (ae_target e)), enc_str (at_namespace (ae_target e)),
      enc_opt (at_title (ae_target e)), enc_opt (at_tier (ae_target e)), enc_opt (at_scope (ae_target e)),
      enc_outcome (ae_outcome e), enc_opt (ae_session_id e), enc_opt (ae_request_id e),
      enc_opt (ae_error e), enc_str (ae_prev_hash e), enc_str (ae_self_hash e)] @ enc_auth (ae_auth e)"

definition event_of_fields :: "str list \<Rightarrow> AuditEvent option" where
  "event_of_fields fs =
     (if length fs < 18 then None else
      map_option (\<lambda>a. \<lparr>ae_schema_version = word_of_nat (read_nat (fs ! 0)), ae_timestamp = dec_str (fs ! 1),
        ae_sequence = word_of_nat (read_nat (fs ! 2)),
        ae_actor = \<lparr>aa_agent_id = dec_str (fs ! 3), aa_scope = dec_opt (fs ! 4), aa_synthesis_source = dec_str (fs ! 5)\<rparr>,
        ae_action = a,
        ae_target = \<lparr>at_memory_id = dec_str (fs ! 7), at_namespace = dec_str (fs ! 8), at_title = dec_opt (fs ! 9),
          at_tier = dec_opt (fs ! 10), at_scope = dec_opt (fs ! 11)\<rparr>,
        ae_outcome = dec_outcome (fs ! 12), ae_auth = dec_auth (drop 18 fs), ae_session_id = dec_opt (fs ! 13),
        ae_request_id = dec_opt (fs ! 14), ae_error = dec_opt (fs ! 15), ae_prev_hash = dec_str (fs ! 16),
        ae_self_hash = dec_str (fs ! 17)\<rparr>)
       (find (\<lambda>a. audit_action_str a = fs ! 6) all_actions))"

definition hex_lib :: audit_lib where
  "hex_lib = \<lparr>lib_sha256 = (\<lambda>bs. bs), lib_to_json = (\<lambda>e. join CHR '','' (event_fields e)),
     lib_from_json = (\<lambda>s. event_of_fields (split_on CHR '','' s))\<rparr>"

lemma dec_enc_str [simp]: "dec_str (enc_str s) = s"
proof -
  have "map (\<lambda>w. char_of (unat w)) (as_bytes s) = s"
    by (induction s) (simp_all add: as_bytes_def byte_of_def unat_of_nat)
  then show ?thesis by (simp add: dec_str_def enc_str_def)
qed

lemma dec_enc_opt [simp]: "dec_opt (enc_opt x) = x"
  by (cases x) (simp_all add: dec_opt_def enc_opt_def, simp add: enc_str_def)

lemma dec_enc_outcome [simp]: "dec_outcome (enc_outcome x) = x"
  by (cases x) (simp_all add: dec_outcome_def enc_outcome_def)

lemma dec_enc_auth [simp]: "dec_auth (enc_auth x) = x"
  by (cases x) (simp_all add: dec_auth_def enc_auth_def)

lemma find_action [simp]: "find (\<lambda>a. audit_action_str a = audit_action_str b) all_actions = Some b"
  by (cases b) (simp_all add: all_actions_def)

lemma event_of_fields_event [simp]: "event_of_fields (event_fields e) = Some e"
  by (simp add: event_of_fields_def event_fields_def)

text \<open>Every field is a word over letters, digits and the underscore, so separators are unambiguous.\<close>

definition plain_chars :: "char set" where
  "plain_chars = set (HEX @ ''_ghijklmnopqrstuvwxyz'')"

definition plain :: "str \<Rightarrow> bool" where
  "plain s = list_all (\<lambda>c. c \<in> plain_chars) s"

lemma show_nat_plain [simp]: "plain (show_nat n)"
proof (induction n rule: show_nat.induct)
  case (1 n)
  have "plain [digit_char d]" if "d < 10" for d
  proof -
    have "list_all (\<lambda>d. plain [digit_char d]) [0..<10]" unfolding plain_def plain_chars_def by code_simp
    with that show ?thesis by (simp add: list_all_iff)
  qed
  with "1" show ?case by (subst show_nat.simps) (simp add: plain_def)
qed

lemma hex_encode_plain [simp]: "plain (hex_encode bs)"
proof (induction bs)
  case Nil
  then show ?case by (simp add: plain_def hex_encode_def)
next
  case (Cons b bs)
  have "length HEX = 16" by (simp add: HEX_def)
  then have "HEX ! i \<in> plain_chars" if "i < 16" for i
    using that nth_mem [of i HEX] unfolding plain_chars_def set_append by (metis UnI1)
  with Cons nibble_bounds show ?case by (simp add: plain_def hex_encode_def)
qed

lemma enc_plain [simp]: "plain (enc_str s)" "plain (enc_opt x)" "plain (enc_outcome oc)"
  "plain (audit_action_str a)"
proof -
  show "plain (enc_str s)" for s
    using hex_encode_plain [of "as_bytes s"] by (simp add: enc_str_def plain_def) (simp add: plain_chars_def)
  then show "plain (enc_opt x)" by (cases x) (simp_all add: enc_opt_def plain_def plain_chars_def)
  show "plain (enc_outcome oc)" by (cases oc) (simp_all add: enc_outcome_def plain_def plain_chars_def HEX_def)
  show "plain (audit_action_str a)" by (cases a) (simp_all add: plain_def plain_chars_def HEX_def)
qed

lemma event_fields_plain: "f \<in> set (event_fields e) \<Longrightarrow> plain f"
  by (cases "ae_auth e") (auto simp: event_fields_def enc_auth_def)

lemma plain_notin: "plain f \<Longrightarrow> c \<notin> plain_chars \<Longrightarrow> c \<notin> set f"
  by (auto simp: plain_def list_all_iff)

lemma not_plain_chars: "CHR '','' \<notin> plain_chars" "CHR 0x0A \<notin> plain_chars" "CHR 0x0D \<notin> plain_chars"
  by (simp_all add: plain_chars_def HEX_def)

lemma strip_codes_keeps:
  "c \<in> set s \<Longrightarrow> list_all (\<lambda>w. c \<notin> set w) ws \<Longrightarrow> c \<in> set (strip_codes ws s)"
proof (induction ws s rule: strip_codes.induct)
  case (1 ws s)
  show ?case
  proof (cases "find (\<lambda>w. w \<noteq> [] \<and> prefix w s) ws")
    case None
    with "1.prems" show ?thesis by (subst strip_codes.simps) simp
  next
    case (Some w)
    then have "w \<in> set ws" "prefix w s" by (auto simp: find_Some_iff)
    then have "c \<in> set (drop (length w) s)"
      using "1.prems" by (auto simp: prefix_def list_all_iff)
    with "1.IH" Some "1.prems" show ?thesis by (subst strip_codes.simps) simp
  qed
qed

lemma trim_keeps: "c \<in> set s \<Longrightarrow> list_all (\<lambda>w. c \<notin> set w) white_space \<Longrightarrow> c \<in> set (trim s)"
  by (simp add: trim_def trim_end_def trim_start_def strip_codes_keeps list_all_iff)

lemma set_join_subset: "set (join d ws) \<subseteq> insert d (\<Union> (set ` set ws))"
  by (induction d ws rule: join.induct) auto

lemma hex_lib_serde: "serde_lines hex_lib"
proof -
  have *: "c \<notin> set (join CHR '','' (event_fields e))"
    if "c \<notin> plain_chars" "c \<noteq> CHR '',''" for c e
    using set_join_subset [of "CHR '',''" "event_fields e"] that plain_notin event_fields_plain by blast
  have "CHR '','' \<notin> set f" if "f \<in> set (event_fields e)" for f e
    using plain_notin [OF event_fields_plain [OF that]] not_plain_chars by blast
  then have "split_on CHR '','' (join CHR '','' (event_fields e)) = event_fields e" for e
    by (intro split_on_join) (auto simp: event_fields_def)
  moreover have "CHR 0x0A \<notin> set (join CHR '','' (event_fields e))" for e
    by (rule *) (simp_all add: not_plain_chars)
  moreover have "CHR 0x0D \<notin> set (join CHR '','' (event_fields e))" for e
    by (rule *) (simp_all add: not_plain_chars)
  moreover have "CHR '','' \<in> set (trim (join CHR '','' (event_fields e)))" for e
    by (rule trim_keeps) (simp_all add: event_fields_def white_space_def)
  then have "trim (join CHR '','' (event_fields e)) \<noteq> []" for e
    by (metis empty_iff empty_set)
  ultimately show ?thesis by (simp add: serde_lines_def hex_lib_def)
qed

subsection \<open>Properties\<close>

lemma audit_init_fresh:
  "au_file st = [] \<Longrightarrow> audit_init L st = st\<lparr>au_last_hash := Some CHAIN_HEAD_PREV_HASH, au_sequence := 0\<rparr>"
  by (simp add: audit_init_def read_chain_tail_def file_lines_def)

lemma read_chain_tail_print:
  assumes "serde_lines L"
  shows "read_chain_tail L (print_log L evs) = (if evs = [] then None else Some (chain_end h evs))"
proof (cases evs rule: rev_cases)
  case Nil
  with assms show ?thesis by (simp add: read_chain_tail_def)
next
  case (snoc es e)
  with assms show ?thesis
    by (simp add: read_chain_tail_def del: print_log_append) (simp add: serde_lines_def)
qed

lemma fresh_log:
  assumes "au_file st = []"
  obtains evs where "emit_all L (audit_init L st) es =
      st\<lparr>au_file := print_log L evs, au_last_hash := Some (chain_end CHAIN_HEAD_PREV_HASH evs),
         au_sequence := word_of_nat (length es)\<rparr>"
    "chained L CHAIN_HEAD_PREV_HASH evs" "length evs = length es"
    "map ae_sequence evs = map (\<lambda>i. word_of_nat (0 + Suc i)) [0..<length evs]"
proof -
  obtain evs where ev: "emit_all L (audit_init L st) es =
      st\<lparr>au_file := print_log L evs, au_last_hash := Some (chain_end CHAIN_HEAD_PREV_HASH evs),
         au_sequence := word_of_nat (length es)\<rparr>"
    "chained L CHAIN_HEAD_PREV_HASH evs"
    "map ae_sequence evs = map (\<lambda>i. word_of_nat (Suc i)) [0..<length es]"
    using emit_all_appends [of "audit_init L st" CHAIN_HEAD_PREV_HASH L es] assms
    by (auto simp: audit_init_fresh)
  have "length evs = length es" using ev(3) by (metis length_map length_upt diff_zero)
  with ev that show ?thesis by simp
qed

lemma fresh_log_accepted:
  assumes "serde_lines L" "au_file st = []" "length es < 2 ^ 64"
  shows "verify_lines L n 0 CHAIN_HEAD_PREV_HASH 0 (file_lines (au_file (emit_all L (audit_init L st) es))) =
    \<lparr>vr_total_lines = length es, vr_first_failure = None\<rparr>"
proof (rule fresh_log [OF assms(2), of L es])
  fix evs
  assume st: "emit_all L (audit_init L st) es =
      st\<lparr>au_file := print_log L evs, au_last_hash := Some (chain_end CHAIN_HEAD_PREV_HASH evs),
         au_sequence := word_of_nat (length es)\<rparr>"
    and ch: "chained L CHAIN_HEAD_PREV_HASH evs" and len: "length evs = length es"
    and sq: "map ae_sequence evs = map (\<lambda>i. word_of_nat (0 + Suc i)) [0..<length evs]"
  show ?thesis
    using verify_lines_counting [OF assms(1) ch sq, of n 0 "[]"] assms(1,3) len by (simp add: st)
qed

text \<open>a log written by one process verifies. Starting from an empty file, whatever events are
  emitted, the verifier accepts the file and counts exactly the emitted events, as long as the 64-bit
  sequence counter has not wrapped.\<close>

theorem audit_log_verifies:
  assumes "serde_lines L" "au_file st = []" "length es < 2 ^ 64"
  shows "verify_chain_from_reader L (au_file (emit_all L (audit_init L st) es)) =
    \<lparr>vr_total_lines = length es, vr_first_failure = None\<rparr>"
  unfolding verify_chain_from_reader_def using assms by (rule fresh_log_accepted)

text \<open>a restarted process breaks its own log. When a process has written at least one event and
  another process opens the same file and writes one more, the verifier rejects the log at the first
  line of the second process: the chain of hashes continues, but the sequence number starts again at
  one.\<close>

theorem restarted_log_rejected:
  assumes "serde_lines L" "au_file st = []" "es \<noteq> []" "length es < 2 ^ 64"
  shows "verify_chain_from_reader L
      (au_file (try_emit L now (audit_init L (emit_all L (audit_init L st) es)) b)) =
    \<lparr>vr_total_lines = length es + 1, vr_first_failure =
       Some \<lparr>vf_line_number = length es + 1, vf_kind = SequenceRegression\<rparr>\<rparr>"
proof (rule fresh_log [OF assms(2), of L es])
  fix evs
  assume st: "emit_all L (audit_init L st) es =
      st\<lparr>au_file := print_log L evs, au_last_hash := Some (chain_end CHAIN_HEAD_PREV_HASH evs),
         au_sequence := word_of_nat (length es)\<rparr>"
    and ch: "chained L CHAIN_HEAD_PREV_HASH evs" and len: "length evs = length es"
    and sq: "map ae_sequence evs = map (\<lambda>i. word_of_nat (0 + Suc i)) [0..<length evs]"
  let ?st = "audit_init L (emit_all L (audit_init L st) es)"
  have "au_last_hash ?st = Some (chain_end CHAIN_HEAD_PREV_HASH evs)"
    using read_chain_tail_print [OF assms(1), of evs CHAIN_HEAD_PREV_HASH] assms(3) len st
    by (auto simp: audit_init_def)
  from try_emit_appends [OF this, of L now b] obtain e where
    e: "au_file (try_emit L now ?st b) = print_log L (evs @ [e])" "ae_sequence e = 1"
      "ae_prev_hash e = chain_end CHAIN_HEAD_PREV_HASH evs"
    using st by (auto simp: audit_init_def [of L "st\<lparr>au_file := _, au_last_hash := _, au_sequence := _\<rparr>"])
  have "(word_of_nat (length es) :: 64 word) \<noteq> 0"
    using assms(3,4) by (simp add: unat_eq_0 [symmetric] unat_of_nat)
  then have "ae_sequence e \<le> word_of_nat (length es)" using e(2) by (simp add: word_gt_0 linorder_not_less [symmetric])
  with \<open>word_of_nat (length es) \<noteq> 0\<close> show ?thesis
    using verify_lines_counting [OF assms(1) ch sq, of 1 0 "[lib_to_json L e]"] assms len
    by (simp add: e(1,3) verify_chain_from_reader_def verify_lines_regression
        del: verify_lines.simps print_log_append)
qed

text \<open>
  Two chains that end in the same hash are walked from their ends: the last events agree unless they
  collide, and then their predecessors end in the same hash.
\<close>

definition hash_collision :: "audit_lib \<Rightarrow> AuditEvent \<Rightarrow> AuditEvent \<Rightarrow> bool" where
  "hash_collision L e e' =
     (canonical_json_for_hash L e \<noteq> canonical_json_for_hash L e' \<and>
      lib_sha256 L (as_bytes (canonical_json_for_hash L e)) =
      lib_sha256 L (as_bytes (canonical_json_for_hash L e')))"

lemma same_hash_cases:
  assumes "serde_lines L" "ae_self_hash e = ae_self_hash e'"
    "ae_self_hash e = compute_self_hash L e" "ae_self_hash e' = compute_self_hash L e'"
  shows "e = e' \<or> hash_collision L e e'"
proof (cases "canonical_json_for_hash L e = canonical_json_for_hash L e'")
  case True
  then have "e\<lparr>ae_self_hash := []\<rparr> = e'\<lparr>ae_self_hash := []\<rparr>"
    using assms(1) unfolding canonical_json_for_hash_def serde_lines_def by (metis option.inject)
  with assms(2) show ?thesis by (cases e; cases e') simp
next
  case False
  with assms show ?thesis by (simp add: hash_collision_def compute_self_hash_def)
qed

lemma chains_agree:
  assumes "serde_lines L"
  shows "chained L h xs \<Longrightarrow> chained L h ys \<Longrightarrow> chain_end h xs = chain_end h ys \<Longrightarrow>
    xs = ys \<or> (\<exists>x \<in> set xs. \<exists>y \<in> set ys. hash_collision L x y)
      \<or> (\<exists>e \<in> set xs \<union> set ys. compute_self_hash L e = h)"
proof (induction xs arbitrary: ys rule: rev_induct)
  case Nil
  then show ?case by (cases ys rule: rev_cases) auto
next
  case (snoc x xs)
  show ?case
  proof (cases ys rule: rev_cases)
    case Nil
    with snoc.prems show ?thesis by auto
  next
    case (snoc ys' y)
    with snoc.prems same_hash_cases [OF assms, of x y] consider "x = y" | "hash_collision L x y" by auto
    then show ?thesis
    proof cases
      case 1
      with snoc.IH [of ys'] snoc.prems \<open>ys = ys' @ [y]\<close> show ?thesis by auto
    next
      case 2
      with \<open>ys = ys' @ [y]\<close> show ?thesis by auto
    qed
  qed
qed

text \<open>C24: the log is tamper-evident. If two files both verify and end in the same hash, then they record
  exactly the same events in the same order; otherwise there are two recorded events with different
  content and the same SHA-256 digest, or an event whose hash is the sentinel that starts every chain.
  So a changed, dropped, inserted or reordered line is caught by comparing the last hash.\<close>

theorem audit_tamper_evident:
  assumes "serde_lines L"
    "vr_first_failure (verify_chain_from_reader L f) = None"
    "vr_first_failure (verify_chain_from_reader L g) = None"
    "chain_end CHAIN_HEAD_PREV_HASH (log_events L f) = chain_end CHAIN_HEAD_PREV_HASH (log_events L g)"
  shows "log_events L f = log_events L g
    \<or> (\<exists>x \<in> set (log_events L f). \<exists>y \<in> set (log_events L g). hash_collision L x y)
    \<or> (\<exists>e \<in> set (log_events L f) \<union> set (log_events L g). compute_self_hash L e = CHAIN_HEAD_PREV_HASH)"
  using chains_agree [OF assms(1), of CHAIN_HEAD_PREV_HASH "log_events L f" "log_events L g"]
    verified_chained [OF assms(2) [unfolded verify_chain_from_reader_def]]
    verified_chained [OF assms(3) [unfolded verify_chain_from_reader_def]] assms(4)
  by (simp only: log_events_def)

subsection \<open>Concrete instances\<close>

definition ex_builder :: "str \<Rightarrow> EventBuilder" where
  "ex_builder i = builder_new AStore (audit_actor ''alice'' ''explicit'' None)
     (target_memory i ''global'' (Some ''title'') None None)"

definition ex_empty :: audit_state where
  "ex_empty = \<lparr>au_file = [], au_last_hash = None, au_sequence = 0\<rparr>"

theorem audit_log_verifies_witness:
  "verify_chain_from_reader hex_lib (au_file (emit_all hex_lib (audit_init hex_lib ex_empty)
      [(''t1'', ex_builder ''a''), (''t2'', ex_builder ''b'')])) =
    \<lparr>vr_total_lines = 2, vr_first_failure = None\<rparr>"
  using audit_log_verifies [OF hex_lib_serde, of ex_empty "[(''t1'', ex_builder ''a''), (''t2'', ex_builder ''b'')]"]
  by (simp add: ex_empty_def)

theorem restarted_log_rejected_witness:
  "verify_chain_from_reader hex_lib (au_file (try_emit hex_lib ''t2''
      (audit_init hex_lib (emit_all hex_lib (audit_init hex_lib ex_empty) [(''t1'', ex_builder ''a'')]))
      (ex_builder ''b''))) =
    \<lparr>vr_total_lines = 2, vr_first_failure = Some \<lparr>vf_line_number = 2, vf_kind = SequenceRegression\<rparr>\<rparr>"
  using restarted_log_rejected [OF hex_lib_serde, of ex_empty "[(''t1'', ex_builder ''a'')]" "''t2''" "ex_builder ''b''"]
  by (simp add: ex_empty_def)

definition ex_log :: str where
  "ex_log = au_file (emit_all hex_lib (audit_init hex_lib ex_empty) [(''t1'', ex_builder ''a'')])"

lemma ex_log_verified:
  "vr_first_failure (verify_chain_from_reader hex_lib ex_log) = None"
  "vr_first_failure (verify_chain_from_reader hex_lib (CHR 0x0A # ex_log)) = None"
  "log_events hex_lib (CHR 0x0A # ex_log) = log_events hex_lib ex_log"
proof -
  have lines: "file_lines (CHR 0x0A # ex_log) = [] # file_lines ex_log"
    using file_lines_Cons [of "[]" ex_log] by (simp add: strip_cr_def)
  have *: "vr_first_failure (verify_lines hex_lib n 0 CHAIN_HEAD_PREV_HASH 0 (file_lines ex_log)) = None" for n
    unfolding ex_log_def by (subst fresh_log_accepted) (simp_all add: hex_lib_serde ex_empty_def)
  from * lines show "vr_first_failure (verify_chain_from_reader hex_lib ex_log) = None"
    "vr_first_failure (verify_chain_from_reader hex_lib (CHR 0x0A # ex_log)) = None"
    "log_events hex_lib (CHR 0x0A # ex_log) = log_events hex_lib ex_log"
    by (simp_all add: verify_chain_from_reader_def log_events_def)
qed

theorem audit_tamper_evident_witness:
  "log_events hex_lib ex_log = log_events hex_lib (CHR 0x0A # ex_log)
    \<or> (\<exists>x \<in> set (log_events hex_lib ex_log). \<exists>y \<in> set (log_events hex_lib (CHR 0x0A # ex_log)).
         hash_collision hex_lib x y)
    \<or> (\<exists>e \<in> set (log_events hex_lib ex_log) \<union> set (log_events hex_lib (CHR 0x0A # ex_log)).
         compute_self_hash hex_lib e = CHAIN_HEAD_PREV_HASH)"
  by (rule audit_tamper_evident) (simp_all only: hex_lib_serde ex_log_verified)

subsection \<open>Sanitised fields\<close>

lemma concat_char_slices: "concat (char_slices s) = s"
  by (induction s rule: char_slices.induct) (auto simp: Let_def split: list.splits)

text \<open>A sanitised field has at most \<open>max_chars\<close> characters, all of the original, and none of them is a control
  character other than the tab.\<close>

lemma sanitize_field_slices:
  "\<exists>cs. sanitize_field s n = concat cs \<and> length cs \<le> n \<and> list_all keep_char cs \<and> set cs \<subseteq> set (char_slices s)"
  by (rule exI [of _ "take n (filter keep_char (char_slices s))"])
    (auto simp: sanitize_field_def Let_def list_all_iff dest!: in_set_takeD)

end
