(* ===== verification/Hooks.thy ===== *)
theory Hooks
  imports Models
begin

text \<open>
  The hook pipeline (\<open>src/hooks/\<close>): the decisions a hook may return, their wire format, the deadline of each
  class of events and the chain that runs the hooks of one event. Running a hook process is the parameter
  \<open>executor\<close>: the outcome of a hook on a payload and the milliseconds it takes. The JSON parser is
  \<open>from_str\<close>, the deserializer of a delta \<open>delta_of\<close>; texts of parse errors are left out.
\<close>

subsection \<open>Events and their deadlines\<close>

datatype HookEvent = PreStore | PostStore | PreRecall | PostRecall | PreSearch | PostSearch | PreDelete
  | PostDelete | PrePromote | PostPromote | PreLink | PostLink | PreConsolidate | PostConsolidate
  | PreGovernanceDecision | PostGovernanceDecision | OnIndexEviction | PreArchive | PreTranscriptStore
  | PostTranscriptStore | PreRecallExpand

definition is_pre_event :: "HookEvent \<Rightarrow> bool" where
  "is_pre_event event = (event \<in> {PreStore, PreRecall, PreSearch, PreDelete, PrePromote, PreLink,
     PreConsolidate, PreGovernanceDecision, PreArchive, PreTranscriptStore, PreRecallExpand})"

datatype EventClass = WriteClass | ReadClass | IndexClass | TranscriptClass | HotPath

fun event_class :: "HookEvent \<Rightarrow> EventClass" where
  "event_class PreRecall = ReadClass"
| "event_class PostRecall = ReadClass"
| "event_class PreSearch = ReadClass"
| "event_class PostSearch = ReadClass"
| "event_class OnIndexEviction = IndexClass"
| "event_class PreTranscriptStore = TranscriptClass"
| "event_class PostTranscriptStore = TranscriptClass"
| "event_class PreRecallExpand = HotPath"
| "event_class _ = WriteClass"

text \<open>The deadlines in milliseconds.\<close>

fun class_deadline :: "EventClass \<Rightarrow> nat" where
  "class_deadline WriteClass = 5000"
| "class_deadline ReadClass = 2000"
| "class_deadline IndexClass = 1000"
| "class_deadline TranscriptClass = 5000"
| "class_deadline HotPath = 50"

definition class_deadline_for_event :: "HookEvent \<Rightarrow> nat" where
  "class_deadline_for_event event = class_deadline (event_class event)"

text \<open>Instants are milliseconds; the class deadlines are far below \<open>u32::MAX\<close>.\<close>

definition per_hook_budget_ms :: "nat \<Rightarrow> nat \<Rightarrow> nat \<Rightarrow> nat option" where
  "per_hook_budget_ms chain_deadline now hook_timeout_ms =
     (if now \<ge> chain_deadline then None
      else Some (min (min (chain_deadline - now) (2 ^ 32 - 1)) hook_timeout_ms))"

subsection \<open>Decisions\<close>

record MemoryDelta =
  md_tier :: "Tier option"
  md_namespace :: "str option"
  md_title :: "str option"
  md_content :: "str option"
  md_tags :: "str list option"
  md_priority :: "int option"
  md_confidence :: "f64 option"
  md_source :: "str option"
  md_expires_at :: "str option"
  md_metadata :: "json option"

definition delta_default :: MemoryDelta where
  "delta_default = \<lparr>md_tier = None, md_namespace = None, md_title = None, md_content = None, md_tags = None,
     md_priority = None, md_confidence = None, md_source = None, md_expires_at = None, md_metadata = None\<rparr>"

datatype HookDecision = HAllow | HModify MemoryDelta | HDeny str int
  | HAskUser str "str list" "str option"

datatype DecisionParseError = NotAnObject | MissingAction | UnknownHookAction str | MissingField str str | Malformed

definition default_deny_code :: int where "default_deny_code = 403"

fun strings_of :: "json list \<Rightarrow> str list option" where
  "strings_of [] = Some []"
| "strings_of (JStr s # vs) = map_option ((#) s) (strings_of vs)"
| "strings_of _ = None"

definition deny_code :: "(str \<times> json) list \<Rightarrow> int" where
  "deny_code obj =
     (case map_of obj ''code'' of
        Some (JInt c) \<Rightarrow> if - (2 ^ 31) \<le> c \<and> c < 2 ^ 31 then c else default_deny_code
      | _ \<Rightarrow> default_deny_code)"

definition decision_parse ::
    "(str \<Rightarrow> json option) \<Rightarrow> (json \<Rightarrow> MemoryDelta option) \<Rightarrow> str \<Rightarrow> DecisionParseError + HookDecision" where
  "decision_parse from_str delta_of line =
     (let trimmed = trim line in
      if trimmed = [] \<or> trimmed = ''{}'' then Inr HAllow
      else case from_str trimmed of
        None \<Rightarrow> Inl Malformed
      | Some (JObj obj) \<Rightarrow>
          if obj = [] then Inr HAllow
          else (case map_of obj ''action'' of
            None \<Rightarrow> Inl MissingAction
          | Some (JStr action) \<Rightarrow>
              if action = ''allow'' then Inr HAllow
              else if action = ''modify'' then
                (case map_of obj ''delta'' of
                   None \<Rightarrow> Inl (MissingField ''modify'' ''delta'')
                 | Some v \<Rightarrow> (case delta_of v of None \<Rightarrow> Inl Malformed | Some d \<Rightarrow> Inr (HModify d)))
              else if action = ''deny'' then
                (case map_of obj ''reason'' of
                   None \<Rightarrow> Inl (MissingField ''deny'' ''reason'')
                 | Some (JStr reason) \<Rightarrow> Inr (HDeny reason (deny_code obj))
                 | Some _ \<Rightarrow> Inl Malformed)
              else if action = ''ask_user'' then
                (case map_of obj ''prompt'' of
                   None \<Rightarrow> Inl (MissingField ''ask_user'' ''prompt'')
                 | Some (JStr prompt) \<Rightarrow>
                     (case map_of obj ''options'' of
                        None \<Rightarrow> Inl (MissingField ''ask_user'' ''options'')
                      | Some (JArr vs) \<Rightarrow>
                          (case strings_of vs of
                             None \<Rightarrow> Inl Malformed
                           | Some options \<Rightarrow>
                               (case map_of obj ''default'' of
                                  None \<Rightarrow> Inr (HAskUser prompt options None)
                                | Some JNull \<Rightarrow> Inr (HAskUser prompt options None)
                                | Some (JStr d) \<Rightarrow> Inr (HAskUser prompt options (Some d))
                                | Some _ \<Rightarrow> Inl Malformed))
                      | Some _ \<Rightarrow> Inl Malformed)
                 | Some _ \<Rightarrow> Inl Malformed)
              else Inl (UnknownHookAction action)
          | Some _ \<Rightarrow> Inl Malformed)
      | Some _ \<Rightarrow> Inl NotAnObject)"

definition degrade_modify_for_post_event :: "HookDecision \<Rightarrow> HookEvent \<Rightarrow> HookDecision" where
  "degrade_modify_for_post_event d event =
     (case d of HModify _ \<Rightarrow> if \<not> is_pre_event event then HAllow else d | _ \<Rightarrow> d)"

subsection \<open>Deltas\<close>

definition or_keep :: "'a option \<Rightarrow> 'a option \<Rightarrow> 'a option" where
  "or_keep new old = (case new of Some v \<Rightarrow> Some v | None \<Rightarrow> old)"

definition merge_delta_into :: "MemoryDelta \<Rightarrow> MemoryDelta \<Rightarrow> MemoryDelta" where
  "merge_delta_into acc incoming =
     \<lparr>md_tier = or_keep (md_tier incoming) (md_tier acc),
      md_namespace = or_keep (md_namespace incoming) (md_namespace acc),
      md_title = or_keep (md_title incoming) (md_title acc),
      md_content = or_keep (md_content incoming) (md_content acc),
      md_tags = or_keep (md_tags incoming) (md_tags acc),
      md_priority = or_keep (md_priority incoming) (md_priority acc),
      md_confidence = or_keep (md_confidence incoming) (md_confidence acc),
      md_source = or_keep (md_source incoming) (md_source acc),
      md_expires_at = or_keep (md_expires_at incoming) (md_expires_at acc),
      md_metadata = or_keep (md_metadata incoming) (md_metadata acc)\<rparr>"

text \<open>The derived serializer: the fields that are set, in declaration order. A float that is not finite is null.\<close>

definition f64_json :: "f64 \<Rightarrow> json" where
  "f64_json x = (case x of Fin q \<Rightarrow> JFloat q | _ \<Rightarrow> JNull)"

definition opt_field :: "str \<Rightarrow> ('a \<Rightarrow> json) \<Rightarrow> 'a option \<Rightarrow> (str \<times> json) list" where
  "opt_field k f x = (case x of None \<Rightarrow> [] | Some v \<Rightarrow> [(k, f v)])"

definition delta_object :: "MemoryDelta \<Rightarrow> (str \<times> json) list" where
  "delta_object d =
     opt_field ''tier'' (\<lambda>t. JStr (tier_as_str t)) (md_tier d)
     @ opt_field ''namespace'' JStr (md_namespace d)
     @ opt_field ''title'' JStr (md_title d)
     @ opt_field ''content'' JStr (md_content d)
     @ opt_field ''tags'' (\<lambda>ts. JArr (map JStr ts)) (md_tags d)
     @ opt_field ''priority'' JInt (md_priority d)
     @ opt_field ''confidence'' f64_json (md_confidence d)
     @ opt_field ''source'' JStr (md_source d)
     @ opt_field ''expires_at'' JStr (md_expires_at d)
     @ opt_field ''metadata'' (\<lambda>v. v) (md_metadata d)"

definition apply_delta_to_payload :: "json \<Rightarrow> MemoryDelta \<Rightarrow> json" where
  "apply_delta_to_payload payload delta =
     (case payload of
        JObj obj \<Rightarrow> JObj (fold (\<lambda>(k, v) o'. obj_insert k v o') (delta_object delta) obj)
      | _ \<Rightarrow> JObj (delta_object delta))"

subsection \<open>The chain\<close>

datatype FailMode = FailOpen | FailClosed

record HookConfig =
  hc_event :: HookEvent
  hc_command :: str
  hc_priority :: int
  hc_timeout_ms :: nat
  hc_enabled :: bool
  hc_namespace :: str
  hc_fail_mode :: FailMode

datatype ExecutorError = SpawnError | IoError | ChildExit "int option" | DecodeError | TimeoutError nat
  | DaemonUnavailable nat

record AskUserPrompt =
  ap_prompt :: str
  ap_options :: "str list"
  ap_default :: "str option"
  ap_origin_command :: str

text \<open>Why a chain denied: a hook said so, a hook failed while it must not, or the time was up before a hook that must run.\<close>

datatype DenyReason = HookReason str | ErroredClosed str ExecutorError | DeadlineClosed str

datatype ChainResult = CAllow | CModifiedAllow MemoryDelta | CDeny DenyReason int | CAskUser "AskUserPrompt list"

definition chain_new :: "HookConfig list \<Rightarrow> HookConfig list" where
  "chain_new hooks = sort_key (\<lambda>h. - hc_priority h) hooks"

definition chain_for_event :: "HookConfig list \<Rightarrow> HookEvent \<Rightarrow> HookConfig list" where
  "chain_for_event all_hooks event =
     sort_key (\<lambda>h. - hc_priority h) (filter (\<lambda>h. hc_enabled h \<and> hc_event h = event) all_hooks)"

text \<open>
  The state of a running chain. \<open>fs_fired\<close> records which hook processes were started and the payload each
  was given; \<open>fs_violations\<close> is what the chain adds to \<open>TIMEOUT_VIOLATIONS\<close>.
\<close>

record fire_state =
  fs_payload :: json
  fs_delta :: MemoryDelta
  fs_modified :: bool
  fs_queue :: "AskUserPrompt list"
  fs_now :: nat
  fs_violations :: nat
  fs_fired :: "(HookConfig \<times> json) list"

type_synonym executor = "HookConfig \<Rightarrow> HookEvent \<Rightarrow> json \<Rightarrow> (ExecutorError + HookDecision) \<times> nat"

text \<open>\<open>tokio::time::timeout\<close> around a hook: past its budget the hook counts as timed out.\<close>

definition raced_fire :: "executor \<Rightarrow> HookConfig \<Rightarrow> HookEvent \<Rightarrow> json \<Rightarrow> nat \<Rightarrow> (ExecutorError + HookDecision) \<times> nat" where
  "raced_fire executor cfg event payload budget =
     (case executor cfg event payload of (r, elapsed) \<Rightarrow>
        if elapsed \<le> budget then (r, elapsed) else (Inl (TimeoutError budget), budget))"

text \<open>One turn of the loop: \<open>Inl\<close> leaves the chain, \<open>Inr\<close> goes on with the next hook.\<close>

definition decided :: "HookConfig \<Rightarrow> HookDecision \<Rightarrow> fire_state \<Rightarrow> ChainResult \<times> fire_state + fire_state" where
  "decided cfg d st =
     (case d of
        HAllow \<Rightarrow> Inr (st\<lparr>fs_queue := []\<rparr>)
      | HModify delta \<Rightarrow>
          Inr (st\<lparr>fs_payload := apply_delta_to_payload (fs_payload st) delta,
                  fs_delta := merge_delta_into (fs_delta st) delta, fs_modified := True, fs_queue := []\<rparr>)
      | HDeny reason code \<Rightarrow> Inl (CDeny (HookReason reason) code, st)
      | HAskUser prompt options dflt \<Rightarrow>
          Inr (st\<lparr>fs_queue := fs_queue st @
                 [\<lparr>ap_prompt = prompt, ap_options = options, ap_default = dflt,
                   ap_origin_command = hc_command cfg\<rparr>]\<rparr>))"

definition is_timeout :: "ExecutorError \<Rightarrow> bool" where
  "is_timeout e = (case e of TimeoutError _ \<Rightarrow> True | _ \<Rightarrow> False)"

definition fire_step ::
    "executor \<Rightarrow> HookEvent \<Rightarrow> nat \<Rightarrow> HookConfig \<Rightarrow> fire_state \<Rightarrow> ChainResult \<times> fire_state + fire_state" where
  "fire_step executor event deadline cfg st =
     (case per_hook_budget_ms deadline (fs_now st) (hc_timeout_ms cfg) of
        None \<Rightarrow>
          let st1 = st\<lparr>fs_violations := fs_violations st + 1\<rparr> in
          (case hc_fail_mode cfg of
             FailOpen \<Rightarrow> Inr st1
           | FailClosed \<Rightarrow> Inl (CDeny (DeadlineClosed (hc_command cfg)) 504, st1))
      | Some budget \<Rightarrow>
          let (r, elapsed) = raced_fire executor cfg event (fs_payload st) budget;
              st1 = st\<lparr>fs_now := fs_now st + elapsed, fs_fired := fs_fired st @ [(cfg, fs_payload st)]\<rparr>
          in case r of
               Inr d \<Rightarrow> decided cfg (degrade_modify_for_post_event d event) st1
             | Inl e \<Rightarrow>
                 let st2 = (if is_timeout e then st1\<lparr>fs_violations := fs_violations st1 + 1\<rparr> else st1) in
                 (case hc_fail_mode cfg of
                    FailOpen \<Rightarrow> decided cfg HAllow st2
                  | FailClosed \<Rightarrow> Inl (CDeny (ErroredClosed (hc_command cfg) e) 503, st2)))"

definition finish_chain :: "fire_state \<Rightarrow> ChainResult" where
  "finish_chain st =
     (if fs_queue st \<noteq> [] then CAskUser (fs_queue st)
      else if fs_modified st then CModifiedAllow (fs_delta st)
      else CAllow)"

fun fire_loop :: "executor \<Rightarrow> HookEvent \<Rightarrow> nat \<Rightarrow> HookConfig list \<Rightarrow> fire_state \<Rightarrow> ChainResult \<times> fire_state" where
  "fire_loop executor event deadline [] st = (finish_chain st, st)"
| "fire_loop executor event deadline (cfg # rest) st =
     (case fire_step executor event deadline cfg st of
        Inl out \<Rightarrow> out
      | Inr st' \<Rightarrow> fire_loop executor event deadline rest st')"

definition chain_fire :: "executor \<Rightarrow> HookConfig list \<Rightarrow> HookEvent \<Rightarrow> json \<Rightarrow> nat \<Rightarrow> ChainResult \<times> fire_state" where
  "chain_fire executor hooks event payload now =
     fire_loop executor event (now + class_deadline_for_event event) hooks
       \<lparr>fs_payload = payload, fs_delta = delta_default, fs_modified = False, fs_queue = [], fs_now = now,
        fs_violations = 0, fs_fired = []\<rparr>"

text \<open>\<open>dispatch_event_with_hooks\<close>: the second component says whether the subscriptions were notified.\<close>

definition dispatch_event_with_hooks ::
    "executor \<Rightarrow> HookConfig list \<Rightarrow> HookEvent \<Rightarrow> json \<Rightarrow> nat \<Rightarrow> ChainResult \<times> bool \<times> fire_state" where
  "dispatch_event_with_hooks executor chain event payload now =
     (if is_pre_event event then
        (case chain_fire executor chain event payload now of
           (CDeny r c, st) \<Rightarrow> (CDeny r c, False, st)
         | (r, st) \<Rightarrow> (r, True, st))
      else (case chain_fire executor chain event payload now of (r, st) \<Rightarrow> (r, True, st)))"

definition fire_on_index_eviction :: "executor \<Rightarrow> HookConfig list \<Rightarrow> json \<Rightarrow> nat \<Rightarrow> ChainResult \<times> fire_state" where
  "fire_on_index_eviction executor chain payload now = chain_fire executor chain OnIndexEviction payload now"

section \<open>Properties of the chain\<close>

text \<open>Every step of the loop: what it adds to the record of started hooks and when it goes on.\<close>

definition is_deny :: "ChainResult \<Rightarrow> bool" where
  "is_deny r = (case r of CDeny _ _ \<Rightarrow> True | _ \<Rightarrow> False)"

lemma is_deny_simps [simp]: "is_deny (CDeny r c)" "\<not> is_deny CAllow" "\<not> is_deny (CModifiedAllow d)" "\<not> is_deny (CAskUser q)"
  by (simp_all add: is_deny_def)

lemma raced_bound: "raced_fire executor cfg event payload budget = (r, elapsed) \<Longrightarrow> elapsed \<le> budget"
  by (auto simp: raced_fire_def split: prod.splits if_splits)

lemma raced_ok: "raced_fire executor cfg event payload budget = (Inr d, elapsed) \<Longrightarrow>
    executor cfg event payload = (Inr d, elapsed) \<and> elapsed \<le> budget"
  by (auto simp: raced_fire_def split: prod.splits if_splits)

lemma budget_bound:
  "per_hook_budget_ms deadline now t = Some budget \<Longrightarrow> now < deadline \<and> now + budget \<le> deadline \<and> budget \<le> t"
  by (auto simp: per_hook_budget_ms_def split: if_splits)

text \<open>
  A rule for the loop: an invariant that every continuing turn keeps, and a conclusion that every leaving
  turn and the end of the chain establish.
\<close>

lemma fire_loop_rule:
  assumes "fire_loop executor event deadline hooks st = (res, st')" "I st"
    and "\<And>cfg s s'. cfg \<in> set hooks \<Longrightarrow> I s \<Longrightarrow> fire_step executor event deadline cfg s = Inr s' \<Longrightarrow> I s'"
    and "\<And>cfg s r s'. cfg \<in> set hooks \<Longrightarrow> I s \<Longrightarrow> fire_step executor event deadline cfg s = Inl (r, s') \<Longrightarrow> Q r s'"
    and "\<And>s. I s \<Longrightarrow> Q (finish_chain s) s"
  shows "Q res st'"
  using assms
proof (induction hooks arbitrary: st)
  case (Cons cfg rest)
  show ?case
  proof (cases "fire_step executor event deadline cfg st")
    case (Inl out)
    with Cons.prems(1) have "fire_step executor event deadline cfg st = Inl (res, st')" by simp
    with Cons.prems(2,4) show ?thesis by (metis list.set_intros(1))
  next
    case (Inr s)
    show ?thesis
    proof (rule Cons.IH)
      show "fire_loop executor event deadline rest s = (res, st')" using Cons.prems(1) Inr by simp
      show "I s" by (rule Cons.prems(3) [OF _ Cons.prems(2) Inr]) simp
    qed (meson Cons.prems(3,4,5) list.set_intros(2))+
  qed
qed auto

lemma decided_keeps:
  "decided cfg d st = Inr st' \<Longrightarrow> fs_now st' = fs_now st \<and> fs_fired st' = fs_fired st"
  "decided cfg d st = Inl (r, st') \<Longrightarrow> st' = st \<and> is_deny r"
  by (auto simp: decided_def split: HookDecision.splits)

lemma fire_step_time:
  assumes "fs_now st \<le> deadline"
  shows "fire_step executor event deadline cfg st = Inr st' \<Longrightarrow> fs_now st \<le> fs_now st' \<and> fs_now st' \<le> deadline"
    and "fire_step executor event deadline cfg st = Inl (r, st') \<Longrightarrow> fs_now st \<le> fs_now st' \<and> fs_now st' \<le> deadline"
  using assms budget_bound [of deadline "fs_now st" "hc_timeout_ms cfg"]
  by (auto simp: fire_step_def Let_def split: option.splits sum.splits prod.splits FailMode.splits if_splits
      dest!: raced_bound decided_keeps)

lemma fire_step_fired:
  assumes "fire_step executor event deadline cfg st = Inr st'"
  shows "fs_fired st' = fs_fired st \<and> hc_fail_mode cfg = FailOpen
    \<or> fs_fired st' = fs_fired st @ [(cfg, fs_payload st)]
        \<and> (hc_fail_mode cfg = FailClosed \<longrightarrow> (\<exists>d elapsed. executor cfg event (fs_payload st) = (Inr d, elapsed)
             \<and> elapsed \<le> hc_timeout_ms cfg \<and> (\<forall>reason code. d \<noteq> HDeny reason code)))"
proof (cases "per_hook_budget_ms deadline (fs_now st) (hc_timeout_ms cfg)")
  case None
  with assms show ?thesis by (auto simp: fire_step_def Let_def split: FailMode.splits)
next
  case (Some budget)
  obtain r elapsed where r: "raced_fire executor cfg event (fs_payload st) budget = (r, elapsed)" by fastforce
  with assms Some budget_bound [OF Some] show ?thesis
    by (auto simp: fire_step_def Let_def decided_def degrade_modify_for_post_event_def
        split: sum.splits FailMode.splits HookDecision.splits if_splits dest!: raced_ok)
qed

lemma fire_loop_fired_mono:
  "fire_loop executor event deadline hooks st = (res, st') \<Longrightarrow> \<not> is_deny res \<Longrightarrow> set (fs_fired st) \<subseteq> set (fs_fired st')"
proof (induction hooks arbitrary: st)
  case (Cons cfg rest)
  show ?case
  proof (cases "fire_step executor event deadline cfg st")
    case (Inl out)
    with Cons.prems have "is_deny res"
      by (auto simp: fire_step_def Let_def split: option.splits sum.splits prod.splits FailMode.splits
          if_splits dest!: decided_keeps)
    with Cons.prems show ?thesis by simp
  next
    case (Inr s)
    with Cons.IH [of s] Cons.prems fire_step_fired [OF Inr] show ?thesis by auto
  qed
qed auto

lemma leaving_turn_denies: "fire_step executor event deadline cfg st = Inl (res, st') \<Longrightarrow> is_deny res"
  by (auto simp: fire_step_def Let_def split: option.splits sum.splits prod.splits FailMode.splits
      if_splits dest!: decided_keeps)

definition passed_gate :: "executor \<Rightarrow> HookEvent \<Rightarrow> (HookConfig \<times> json) list \<Rightarrow> HookConfig \<Rightarrow> bool" where
  "passed_gate executor event fired h =
     list_ex (\<lambda>(h', p). h' = h \<and>
        (case executor h event p of
           (Inr d, elapsed) \<Rightarrow> elapsed \<le> hc_timeout_ms h \<and> (case d of HDeny _ _ \<Rightarrow> False | _ \<Rightarrow> True)
         | (Inl _, _) \<Rightarrow> False)) fired"

lemma fire_loop_gate:
  "fire_loop executor event deadline hooks st = (res, st') \<Longrightarrow> \<not> is_deny res \<Longrightarrow>
     list_all (\<lambda>h. hc_fail_mode h = FailClosed \<longrightarrow> passed_gate executor event (fs_fired st') h) hooks"
proof (induction hooks arbitrary: st)
  case (Cons cfg rest)
  then obtain s where s: "fire_step executor event deadline cfg st = Inr s"
    "fire_loop executor event deadline rest s = (res, st')"
    by (cases "fire_step executor event deadline cfg st") (auto dest: leaving_turn_denies)
  have "passed_gate executor event (fs_fired st') cfg" if "hc_fail_mode cfg = FailClosed"
  proof -
    from fire_step_fired [OF s(1)] that obtain d elapsed where
      "fs_fired s = fs_fired st @ [(cfg, fs_payload st)]" "executor cfg event (fs_payload st) = (Inr d, elapsed)"
      "elapsed \<le> hc_timeout_ms cfg" "\<forall>reason code. d \<noteq> HDeny reason code" by auto
    moreover have "set (fs_fired s) \<subseteq> set (fs_fired st')"
      by (rule fire_loop_fired_mono [OF s(2) Cons.prems(2)])
    ultimately show ?thesis
      by (auto simp: passed_gate_def list_ex_iff split: HookDecision.split
          intro!: bexI [of _ "(cfg, fs_payload st)"])
  qed
  with Cons.IH [OF s(2) Cons.prems(2)] show ?case by simp
qed simp

text \<open>C17: a hook that must not fail cannot be bypassed. Unless the chain denies the operation, every hook of the chain
  that is configured to fail closed was started, answered without an error within its own timeout, and did not
  deny.\<close>

theorem fail_closed_hooks_passed:
  assumes "chain_fire executor hooks event payload now = (res, st)" "\<not> is_deny res"
  shows "list_all (\<lambda>h. hc_fail_mode h = FailClosed \<longrightarrow> passed_gate executor event (fs_fired st) h) hooks"
  using fire_loop_gate [OF assms(1) [unfolded chain_fire_def] assms(2)] .

lemma post_step:
  assumes "\<not> is_pre_event event" "fs_payload s = p" "\<not> fs_modified s" "list_all (\<lambda>(h, q). q = p) (fs_fired s)"
  shows "fire_step executor event deadline cfg s = Inr s' \<Longrightarrow>
      fs_payload s' = p \<and> \<not> fs_modified s' \<and> list_all (\<lambda>(h, q). q = p) (fs_fired s')"
    and "fire_step executor event deadline cfg s = Inl (r, s') \<Longrightarrow>
      list_all (\<lambda>(h, q). q = p) (fs_fired s') \<and> (\<forall>d. r \<noteq> CModifiedAllow d)"
proof -
  have step: "case fire_step executor event deadline cfg s of
      Inr s' \<Rightarrow> fs_payload s' = p \<and> \<not> fs_modified s' \<and> list_all (\<lambda>(h, q). q = p) (fs_fired s')
    | Inl (r, s') \<Rightarrow> list_all (\<lambda>(h, q). q = p) (fs_fired s') \<and> (\<forall>d. r \<noteq> CModifiedAllow d)"
  proof (cases "per_hook_budget_ms deadline (fs_now s) (hc_timeout_ms cfg)")
    case None
    with assms show ?thesis by (simp add: fire_step_def Let_def split: FailMode.split)
  next
    case (Some budget)
    obtain r elapsed where r: "raced_fire executor cfg event (fs_payload s) budget = (r, elapsed)" by fastforce
    show ?thesis
    proof (cases r)
      case (Inl e)
      with Some r assms show ?thesis
        by (simp add: fire_step_def Let_def decided_def split: FailMode.split)
    next
      case (Inr d)
      with Some r assms show ?thesis
        by (cases d) (simp_all add: fire_step_def Let_def decided_def degrade_modify_for_post_event_def)
    qed
  qed
  show "fire_step executor event deadline cfg s = Inr s' \<Longrightarrow>
      fs_payload s' = p \<and> \<not> fs_modified s' \<and> list_all (\<lambda>(h, q). q = p) (fs_fired s')"
    using step by simp
  show "fire_step executor event deadline cfg s = Inl (r, s') \<Longrightarrow>
      list_all (\<lambda>(h, q). q = p) (fs_fired s') \<and> (\<forall>d. r \<noteq> CModifiedAllow d)"
    using step by simp
qed

text \<open>C18: a chain keeps to the deadline of its class of events, whatever the hooks do: with \<open>now\<close> the time at the start, it
  ends no later than the class deadline after it. On an event after the fact no hook can change anything: every hook
  sees the original payload and the result carries no modification.\<close>

theorem hook_chain_bounded:
  assumes "chain_fire executor hooks event payload now = (res, st)"
  shows "now \<le> fs_now st \<and> fs_now st \<le> now + class_deadline_for_event event
    \<and> (\<not> is_pre_event event \<longrightarrow> list_all (\<lambda>(h, p). p = payload) (fs_fired st) \<and> (\<forall>d. res \<noteq> CModifiedAllow d))"
proof
  let ?deadline = "now + class_deadline_for_event event"
  note run = assms [unfolded chain_fire_def]
  show "now \<le> fs_now st"
    by (rule fire_loop_rule [OF run, where I = "\<lambda>s. now \<le> fs_now s \<and> fs_now s \<le> ?deadline"])
      (auto dest: fire_step_time)
  show "fs_now st \<le> ?deadline \<and> (\<not> is_pre_event event \<longrightarrow>
      list_all (\<lambda>(h, p). p = payload) (fs_fired st) \<and> (\<forall>d. res \<noteq> CModifiedAllow d))"
  proof
    show "fs_now st \<le> ?deadline"
      by (rule fire_loop_rule [OF run, where I = "\<lambda>s. fs_now s \<le> ?deadline"]) (auto dest: fire_step_time)
    show "\<not> is_pre_event event \<longrightarrow> list_all (\<lambda>(h, p). p = payload) (fs_fired st) \<and> (\<forall>d. res \<noteq> CModifiedAllow d)"
    proof
      assume post: "\<not> is_pre_event event"
      let ?I = "\<lambda>s. fs_payload s = payload \<and> \<not> fs_modified s \<and> list_all (\<lambda>(h, p). p = payload) (fs_fired s)"
      show "list_all (\<lambda>(h, p). p = payload) (fs_fired st) \<and> (\<forall>d. res \<noteq> CModifiedAllow d)"
      proof (rule fire_loop_rule [OF run, where I = ?I])
        fix cfg s s' assume "?I s" "fire_step executor event ?deadline cfg s = Inr s'"
        with post_step(1) [OF post] show "?I s'" by blast
      next
        fix cfg s r s' assume "?I s" "fire_step executor event ?deadline cfg s = Inl (r, s')"
        with post_step(2) [OF post] show "list_all (\<lambda>(h, p). p = payload) (fs_fired s') \<and> (\<forall>d. r \<noteq> CModifiedAllow d)"
          by blast
      qed (auto simp: finish_chain_def)
    qed
  qed
qed


text \<open>A gate that allows after three milliseconds, and a slow observer that may fail.\<close>

definition gate_hook :: HookConfig where
  "gate_hook = \<lparr>hc_event = PreStore, hc_command = ''gate'', hc_priority = 10, hc_timeout_ms = 20, hc_enabled = True,
     hc_namespace = ''*'', hc_fail_mode = FailClosed\<rparr>"

definition observer_hook :: HookConfig where
  "observer_hook = gate_hook\<lparr>hc_command := ''observer'', hc_priority := 1, hc_fail_mode := FailOpen\<rparr>"

definition sample_executor :: executor where
  "sample_executor cfg event payload =
     (if hc_command cfg = ''gate'' then (Inr (HModify (delta_default\<lparr>md_priority := Some 9\<rparr>)), 3) else (Inr HAllow, 90))"

theorem fail_closed_hooks_passed_witness:
  "\<exists>st. chain_fire sample_executor [gate_hook, observer_hook] PreStore JNull 100
       = (CModifiedAllow (delta_default\<lparr>md_priority := Some 9\<rparr>), st)
     \<and> list_all (\<lambda>h. hc_fail_mode h = FailClosed \<longrightarrow> passed_gate sample_executor PreStore (fs_fired st) h)
         [gate_hook, observer_hook]"
proof -
  have run: "fst (chain_fire sample_executor [gate_hook, observer_hook] PreStore JNull 100)
      = CModifiedAllow (delta_default\<lparr>md_priority := Some 9\<rparr>)"
    by (simp add: chain_fire_def class_deadline_for_event_def fire_step_def per_hook_budget_ms_def Let_def raced_fire_def
        sample_executor_def decided_def degrade_modify_for_post_event_def is_pre_event_def is_timeout_def
        finish_chain_def gate_hook_def observer_hook_def merge_delta_into_def or_keep_def delta_default_def)
  then obtain st where st: "chain_fire sample_executor [gate_hook, observer_hook] PreStore JNull 100
      = (CModifiedAllow (delta_default\<lparr>md_priority := Some 9\<rparr>), st)" by (metis prod.collapse)
  from fail_closed_hooks_passed [OF this] st show ?thesis by auto
qed

theorem hook_chain_bounded_witness:
  "\<exists>res st. chain_fire sample_executor [gate_hook, observer_hook] PostStore JNull 100 = (res, st)
     \<and> 100 \<le> fs_now st \<and> fs_now st \<le> 5100
     \<and> list_all (\<lambda>(h, p). p = JNull) (fs_fired st) \<and> (\<forall>d. res \<noteq> CModifiedAllow d)"
proof -
  obtain res st where st: "chain_fire sample_executor [gate_hook, observer_hook] PostStore JNull 100 = (res, st)"
    by fastforce
  from hook_chain_bounded [OF this] st show ?thesis
    by (auto simp: class_deadline_for_event_def is_pre_event_def)
qed

end
