(* ===== verification/Permissions.thy ===== *)
theory Permissions
  imports Hooks Governance
begin

text \<open>
  The permission pipeline (\<open>src/permissions.rs\<close>) and the registry of remembered approvals
  (\<open>src/approvals.rs\<close>): declarative rules with glob patterns, the decisions of hooks and the mode compose
  into one decision. The two process-wide registries are arguments of \<open>evaluate\<close>. The texts of reasons
  are kept as values that name what they are made of.
\<close>

subsection \<open>Operations, decisions, rules\<close>

datatype Op = MemoryStore | MemoryLink | MemoryDelete | MemoryArchive | MemoryConsolidate | MemoryReplay

fun op_as_str :: "Op \<Rightarrow> str" where
  "op_as_str MemoryStore = ''memory_store''"
| "op_as_str MemoryLink = ''memory_link''"
| "op_as_str MemoryDelete = ''memory_delete''"
| "op_as_str MemoryArchive = ''memory_archive''"
| "op_as_str MemoryConsolidate = ''memory_consolidate''"
| "op_as_str MemoryReplay = ''memory_replay''"

definition op_from_str :: "str \<Rightarrow> Op option" where
  "op_from_str s =
     (if s = ''memory_store'' then Some MemoryStore
      else if s = ''memory_link'' then Some MemoryLink
      else if s = ''memory_delete'' then Some MemoryDelete
      else if s = ''memory_archive'' then Some MemoryArchive
      else if s = ''memory_consolidate'' then Some MemoryConsolidate
      else if s = ''memory_replay'' then Some MemoryReplay
      else None)"

datatype RuleDecision = RAllow | RDeny | RAsk

record PermissionRule =
  pr_namespace_pattern :: str
  pr_op :: str
  pr_agent_pattern :: str
  pr_decision :: RuleDecision
  pr_reason :: "str option"

definition default_agent_pattern :: str where "default_agent_pattern = ''*''"

text \<open>Reasons: a text given by a rule or a hook, the default text of a rule, and the two texts the pipeline composes.\<close>

datatype Reason = Given str | DeniedByRule PermissionRule | AskedByRule PermissionRule
  | Escalation str str Reason | AskEscalated Reason

datatype PermDecision = PAllow | PDeny Reason | PModify MemoryDelta | PAsk Reason

record PermissionContext =
  pc_op :: Op
  pc_namespace :: str
  pc_agent_id :: str
  pc_payload :: json

subsection \<open>Patterns\<close>

text \<open>
  The loop of \<open>glob_inner\<close> on what is left of the pattern and of the value. The third argument is the last
  star: the pattern after it, the value from \<open>star_v\<close> on, and whether it is a double star. The value after a
  star is never shorter than the value at the cursor, so the case of an empty one does not arise.
\<close>

function glob_loop :: "str \<Rightarrow> str \<Rightarrow> (str \<times> str \<times> bool) option \<Rightarrow> bool" where
  "glob_loop p v star =
     (case v of
        [] \<Rightarrow> dropWhile (\<lambda>c. c = CHR ''*'') p = []
      | c # v' \<Rightarrow>
          if p \<noteq> [] \<and> hd p = CHR ''*'' then
            (let double = (tl p \<noteq> [] \<and> hd (tl p) = CHR ''*'');
                 p' = (if double then tl (tl p) else tl p)
             in glob_loop p' v (Some (p', v, double)))
          else if p \<noteq> [] \<and> hd p = c then glob_loop (tl p) v' star
          else
            (case star of
               None \<Rightarrow> False
             | Some (sp, [], double) \<Rightarrow> False
             | Some (sp, d # sv, double) \<Rightarrow>
                 if \<not> double \<and> d = CHR ''/'' then False
                 else glob_loop sp sv (Some (sp, sv, double))))"
  by pat_completeness auto
termination
  by (relation "measures [\<lambda>(p, v, star). max (length p) (case star of None \<Rightarrow> 0 | Some (sp, _) \<Rightarrow> length sp),
        \<lambda>(p, v, star). (case star of None \<Rightarrow> 0 | Some (_, sv, _) \<Rightarrow> length sv), \<lambda>(p, v, star). length v]")
    (auto simp: neq_Nil_conv split: if_splits option.splits)

declare glob_loop.simps [simp del]

definition glob_matches :: "str \<Rightarrow> str \<Rightarrow> bool" where
  "glob_matches pattern value = glob_loop pattern value None"

definition pattern_specificity :: "str \<Rightarrow> nat" where
  "pattern_specificity pattern = length (takeWhile (\<lambda>b. b \<noteq> CHR ''*'') pattern)"

subsection \<open>The evaluator\<close>

text \<open>The pairs of a specificity and a flag, compared in lexicographic order and sorted in descending order.\<close>

definition rule_key :: "PermissionRule \<Rightarrow> int" where
  "rule_key r = 2 * int (pattern_specificity (pr_namespace_pattern r))
     + (if CHR ''*'' \<in> set (pr_agent_pattern r) then 0 else 1)"

definition rule_matches :: "PermissionContext \<Rightarrow> PermissionRule \<Rightarrow> bool" where
  "rule_matches ctx r =
     (pr_op r = op_as_str (pc_op ctx) \<and> glob_matches (pr_namespace_pattern r) (pc_namespace ctx)
      \<and> glob_matches (pr_agent_pattern r) (pc_agent_id ctx))"

definition matched_rules :: "PermissionContext \<Rightarrow> PermissionRule list \<Rightarrow> PermissionRule list" where
  "matched_rules ctx rules = sort_key (\<lambda>r. - rule_key r) (filter (rule_matches ctx) rules)"

definition merge_delta :: "MemoryDelta option \<Rightarrow> MemoryDelta \<Rightarrow> MemoryDelta" where
  "merge_delta prior incoming =
     merge_delta_into (case prior of None \<Rightarrow> delta_default | Some d \<Rightarrow> d) incoming"

definition mode_default_for :: "PermissionsMode \<Rightarrow> PermissionContext \<Rightarrow> PermDecision" where
  "mode_default_for mode ctx = PAllow"

fun hook_denial :: "HookDecision list \<Rightarrow> str option" where
  "hook_denial [] = None"
| "hook_denial (HDeny reason code # hs) = Some reason"
| "hook_denial (_ # hs) = hook_denial hs"

fun compose_deltas :: "HookDecision list \<Rightarrow> MemoryDelta option \<Rightarrow> MemoryDelta option" where
  "compose_deltas [] composed = composed"
| "compose_deltas (HModify d # hs) composed = compose_deltas hs (Some (merge_delta composed d))"
| "compose_deltas (_ # hs) composed = compose_deltas hs composed"

fun hook_prompt :: "HookDecision list \<Rightarrow> str option" where
  "hook_prompt [] = None"
| "hook_prompt (HAskUser prompt options dflt # hs) = Some prompt"
| "hook_prompt (_ # hs) = hook_prompt hs"

definition given_or :: "str option \<Rightarrow> Reason \<Rightarrow> Reason" where
  "given_or reason dflt = (case reason of Some t \<Rightarrow> Given t | None \<Rightarrow> dflt)"

text \<open>Passes 3 and 4: an explicit Allow, then the prompts, then the default of the mode.\<close>

definition allow_or_ask ::
    "PermissionContext \<Rightarrow> HookDecision list \<Rightarrow> PermissionRule list \<Rightarrow> PermissionsMode \<Rightarrow> PermDecision" where
  "allow_or_ask ctx hooks outcomes mode =
     (if list_ex (\<lambda>r. pr_decision r = RAllow) outcomes \<or> HAllow \<in> set hooks then PAllow
      else
        let prompt = (case find (\<lambda>r. pr_decision r = RAsk) outcomes of
                        Some r \<Rightarrow> Some (given_or (pr_reason r) (AskedByRule r))
                      | None \<Rightarrow> map_option Given (hook_prompt hooks))
        in case prompt of
             None \<Rightarrow> mode_default_for mode ctx
           | Some t \<Rightarrow> if mode = Enforce then PDeny (AskEscalated t) else PAsk t)"

lemma compose_deltas_hooks: "compose_deltas hooks None = Some d \<Longrightarrow> hooks \<noteq> []"
  by (cases hooks) auto

function evaluate_with ::
    "PermissionContext \<Rightarrow> HookDecision list \<Rightarrow> PermissionRule list \<Rightarrow> PermissionsMode \<Rightarrow> PermDecision" where
  "evaluate_with ctx hooks rules mode =
     (if mode = Off then PAllow
      else
        let outcomes = matched_rules ctx rules in
        case find (\<lambda>r. pr_decision r = RDeny) outcomes of
          Some r \<Rightarrow> PDeny (given_or (pr_reason r) (DeniedByRule r))
        | None \<Rightarrow>
            (case hook_denial hooks of
               Some reason \<Rightarrow> PDeny (Given reason)
             | None \<Rightarrow>
                 (case compose_deltas hooks None of
                    Some delta \<Rightarrow>
                      (case md_namespace delta of
                         Some new_ns \<Rightarrow>
                           if new_ns \<noteq> pc_namespace ctx then
                             (case evaluate_with (ctx\<lparr>pc_namespace := new_ns\<rparr>) [] rules mode of
                                PDeny reason \<Rightarrow> PDeny (Escalation new_ns (pc_namespace ctx) reason)
                              | _ \<Rightarrow> PModify delta)
                           else PModify delta
                       | None \<Rightarrow> PModify delta)
                  | None \<Rightarrow> allow_or_ask ctx hooks outcomes mode)))"
  by pat_completeness auto
termination
  by (relation "measure (\<lambda>(_, hooks, _, _). length hooks)") (auto dest: compose_deltas_hooks)

declare evaluate_with.simps [simp del]

subsection \<open>Remembered approvals\<close>

record SyntheticPermissionRule =
  sr_action_type :: str
  sr_namespace :: str
  sr_agent_id :: "str option"
  sr_decision :: str
  sr_recorded_at :: str

definition same_rule :: "SyntheticPermissionRule \<Rightarrow> SyntheticPermissionRule \<Rightarrow> bool" where
  "same_rule r r' =
     (sr_action_type r = sr_action_type r' \<and> sr_namespace r = sr_namespace r' \<and> sr_agent_id r = sr_agent_id r'
      \<and> sr_decision r = sr_decision r')"

definition record_synthetic_rule ::
    "SyntheticPermissionRule \<Rightarrow> SyntheticPermissionRule list \<Rightarrow> SyntheticPermissionRule list" where
  "record_synthetic_rule rule registry =
     (if list_ex (\<lambda>r. same_rule r rule) registry then registry else registry @ [rule])"

definition op_matches_action_type :: "Op \<Rightarrow> str \<Rightarrow> bool" where
  "op_matches_action_type op action_type =
     (op = MemoryStore \<and> action_type = ''store''
      \<or> op = MemoryDelete \<and> action_type = ''delete''
      \<or> op = MemoryArchive \<and> (action_type = ''archive'' \<or> action_type = ''promote'')
      \<or> op = MemoryConsolidate \<and> action_type = ''consolidate''
      \<or> op = MemoryLink \<and> action_type = ''link'')"

definition synthetic_decision :: "str \<Rightarrow> RuleDecision option" where
  "synthetic_decision d =
     (if d = ''approve'' \<or> d = ''allow'' then Some RAllow
      else if d = ''deny'' \<or> d = ''reject'' then Some RDeny
      else None)"

definition synthetic_rule :: "SyntheticPermissionRule \<Rightarrow> RuleDecision \<Rightarrow> Op \<Rightarrow> PermissionRule" where
  "synthetic_rule s decision op =
     \<lparr>pr_namespace_pattern = sr_namespace s, pr_op = op_as_str op,
      pr_agent_pattern = (case sr_agent_id s of Some a \<Rightarrow> a | None \<Rightarrow> ''*''),
      pr_decision = decision,
      pr_reason = Some (''remembered operator decision (recorded_at='' @ sr_recorded_at s @ '')'')\<rparr>"

definition synthetic_rules_of :: "SyntheticPermissionRule \<Rightarrow> PermissionRule list" where
  "synthetic_rules_of s =
     (case synthetic_decision (sr_decision s) of
        None \<Rightarrow> []
      | Some decision \<Rightarrow>
          map (synthetic_rule s decision)
            (filter (\<lambda>op. op_matches_action_type op (sr_action_type s))
              [MemoryStore, MemoryDelete, MemoryArchive, MemoryConsolidate, MemoryLink]))"

definition synthetic_rules_as_permission_rules :: "SyntheticPermissionRule list \<Rightarrow> PermissionRule list" where
  "synthetic_rules_as_permission_rules synth = concat (map synthetic_rules_of synth)"

definition evaluate ::
    "SyntheticPermissionRule list \<Rightarrow> PermissionRule list \<Rightarrow> PermissionsMode \<Rightarrow> PermissionContext \<Rightarrow> HookDecision list
      \<Rightarrow> PermDecision" where
  "evaluate synth active mode ctx hooks =
     evaluate_with ctx hooks (synthetic_rules_as_permission_rules synth @ active) mode"

datatype ApprovalEvent =
    ApprovalRequested str str str str str
  | ApprovalDecided str str str str str str

text \<open>The fields in the order of the source: the requester and the namespace of an event.\<close>

fun tenant_agent_id :: "ApprovalEvent \<Rightarrow> str" where
  "tenant_agent_id (ApprovalRequested pending_id action_type namespace requested_by requested_at) = requested_by"
| "tenant_agent_id (ApprovalDecided pending_id decision decided_by remember namespace requested_by) = requested_by"

fun tenant_namespace :: "ApprovalEvent \<Rightarrow> str" where
  "tenant_namespace (ApprovalRequested pending_id action_type namespace requested_by requested_at) = namespace"
| "tenant_namespace (ApprovalDecided pending_id decision decided_by remember namespace requested_by) = namespace"


text \<open>\<open>sse_event_visible_to\<close> (\<open>src/handlers.rs\<close>): who sees an approval event on the stream.\<close>

definition sse_event_visible_to :: "PermissionRule list \<Rightarrow> str \<Rightarrow> ApprovalEvent \<Rightarrow> bool" where
  "sse_event_visible_to active subscriber_agent event =
     (if subscriber_agent = [] then False
      else if starts_with subscriber_agent ''host:'' then True
      else if tenant_agent_id event \<noteq> [] \<and> tenant_agent_id event = subscriber_agent then True
      else if tenant_namespace event = [] then False
      else list_ex (\<lambda>r. pr_decision r = RAllow \<and> glob_matches (pr_agent_pattern r) subscriber_agent
             \<and> glob_matches (pr_namespace_pattern r) (tenant_namespace event)) active)"

section \<open>What a pattern matches\<close>

text \<open>
  The documented meaning: a literal stands for itself, a star for a run without a slash, a double star for any run. Stars
  are read in pairs from the left, as the code does.
\<close>

inductive glob_spec :: "str \<Rightarrow> str \<Rightarrow> bool" where
  gs_end: "glob_spec [] []"
| gs_lit: "c \<noteq> CHR ''*'' \<Longrightarrow> glob_spec p v \<Longrightarrow> glob_spec (c # p) (c # v)"
| gs_star: "CHR ''/'' \<notin> set a \<Longrightarrow> (p = [] \<or> hd p \<noteq> CHR ''*'') \<Longrightarrow> glob_spec p v \<Longrightarrow> glob_spec (CHR ''*'' # p) (a @ v)"
| gs_double: "glob_spec p v \<Longrightarrow> glob_spec (CHR ''*'' # CHR ''*'' # p) (a @ v)"

inductive_simps glob_spec_Nil [simp]: "glob_spec [] v"
inductive_simps glob_spec_lit: "glob_spec (c # p) v"

lemma glob_spec_literal [simp]: "c \<noteq> CHR ''*'' \<Longrightarrow> glob_spec (c # p) (d # v) \<longleftrightarrow> c = d \<and> glob_spec p v"
  "c \<noteq> CHR ''*'' \<Longrightarrow> \<not> glob_spec (c # p) []"
  by (auto simp: glob_spec_lit)

lemma glob_spec_single: "p = [] \<or> hd p \<noteq> CHR ''*'' \<Longrightarrow>
    glob_spec (CHR ''*'' # p) v \<longleftrightarrow> (\<exists>a b. v = a @ b \<and> CHR ''/'' \<notin> set a \<and> glob_spec p b)"
  by (auto simp: glob_spec_lit)

lemma glob_spec_double: "glob_spec (CHR ''*'' # CHR ''*'' # p) v \<longleftrightarrow> (\<exists>a b. v = a @ b \<and> glob_spec p b)"
  by (auto simp: glob_spec_lit)

text \<open>A star and what follows it match a value: the star takes a prefix it may take, the rest matches what follows.\<close>

definition star_match :: "str \<Rightarrow> str \<Rightarrow> bool \<Rightarrow> bool" where
  "star_match sp sv double = (\<exists>a b. sv = a @ b \<and> (double \<or> CHR ''/'' \<notin> set a) \<and> glob_spec sp b)"

definition is_double :: "str \<Rightarrow> bool" where
  "is_double p = (tl p \<noteq> [] \<and> hd (tl p) = CHR ''*'')"

definition after_star :: "str \<Rightarrow> str" where
  "after_star p = (if is_double p then tl (tl p) else tl p)"

lemma glob_spec_star: "p \<noteq> [] \<Longrightarrow> hd p = CHR ''*'' \<Longrightarrow> glob_spec p v \<longleftrightarrow> star_match (after_star p) v (is_double p)"
  by (cases p; cases "tl p")
    (auto simp: after_star_def is_double_def star_match_def glob_spec_single glob_spec_double)

lemma star_match_tl: "star_match sp (d # sv) double \<longleftrightarrow>
    glob_spec sp (d # sv) \<or> (double \<or> d \<noteq> CHR ''/'') \<and> star_match sp sv double"
proof
  assume "star_match sp (d # sv) double"
  then obtain a b where "d # sv = a @ b" "double \<or> CHR ''/'' \<notin> set a" "glob_spec sp b" by (auto simp: star_match_def)
  then show "glob_spec sp (d # sv) \<or> (double \<or> d \<noteq> CHR ''/'') \<and> star_match sp sv double"
    by (cases a) (auto simp: star_match_def)
next
  assume "glob_spec sp (d # sv) \<or> (double \<or> d \<noteq> CHR ''/'') \<and> star_match sp sv double"
  then show "star_match sp (d # sv) double"
  proof
    assume "glob_spec sp (d # sv)" then show ?thesis
      unfolding star_match_def by (intro exI [of _ "[]"] exI [of _ "d # sv"]) simp
  next
    assume *: "(double \<or> d \<noteq> CHR ''/'') \<and> star_match sp sv double"
    then obtain a b where "sv = a @ b" "double \<or> CHR ''/'' \<notin> set a" "glob_spec sp b" by (auto simp: star_match_def)
    with * show ?thesis unfolding star_match_def by (intro exI [of _ "d # a"] exI [of _ b]) auto
  qed
qed

lemma glob_spec_empty: "glob_spec p [] \<longleftrightarrow> dropWhile (\<lambda>c. c = CHR ''*'') p = []"
proof (induction "length p" arbitrary: p rule: less_induct)
  case less
  show ?case
  proof (cases "p \<noteq> [] \<and> hd p = CHR ''*''")
    case True
    then have "length (after_star p) < length p"
      by (cases p; cases "tl p") (auto simp: after_star_def)
    note shorter = less [OF this]
    have "glob_spec p [] \<longleftrightarrow> glob_spec (after_star p) []"
      unfolding glob_spec_star [OF conjunct1 [OF True] conjunct2 [OF True]] star_match_def by simp
    moreover have "dropWhile (\<lambda>c. c = CHR ''*'') p = dropWhile (\<lambda>c. c = CHR ''*'') (after_star p)"
      using True by (cases p; cases "tl p") (auto simp: after_star_def is_double_def)
    ultimately show ?thesis using shorter by simp
  qed (cases p, auto)
qed

text \<open>One turn of the loop in these terms.\<close>

lemma glob_loop_turn:
  "glob_loop p [] star \<longleftrightarrow> glob_spec p []"
  "p \<noteq> [] \<Longrightarrow> hd p = CHR ''*'' \<Longrightarrow>
     glob_loop p (c # v) star \<longleftrightarrow> glob_loop (after_star p) (c # v) (Some (after_star p, c # v, is_double p))"
  "b \<noteq> CHR ''*'' \<Longrightarrow> glob_loop (b # p) (b # v) star \<longleftrightarrow> glob_loop p v star"
  "p = [] \<or> hd p \<noteq> CHR ''*'' \<and> hd p \<noteq> c \<Longrightarrow> glob_loop p (c # v) None \<longleftrightarrow> False"
  "p = [] \<or> hd p \<noteq> CHR ''*'' \<and> hd p \<noteq> c \<Longrightarrow>
     glob_loop p (c # v) (Some (sp, d # sv, double)) \<longleftrightarrow>
       (double \<or> d \<noteq> CHR ''/'') \<and> glob_loop sp sv (Some (sp, sv, double))"
  subgoal by (simp add: glob_loop.simps [of p "[]"] glob_spec_empty)
  subgoal by (simp add: glob_loop.simps [of p "c # v"] after_star_def is_double_def Let_def)
  subgoal by (simp add: glob_loop.simps [of "b # p"])
  subgoal by (cases p) (auto simp: glob_loop.simps [of _ "c # v" None])
  subgoal by (cases p) (auto simp: glob_loop.simps [of _ "c # v" "Some (sp, d # sv, double)"])
  done


lemma star_match_here: "glob_spec sp sv \<Longrightarrow> star_match sp sv double"
  unfolding star_match_def by (intro exI [of _ "[]"] exI [of _ sv]) simp

lemma glob_loop_sound:
  "glob_loop p v star \<Longrightarrow> glob_spec p v \<or> (\<exists>sp sv double. star = Some (sp, sv, double) \<and> star_match sp sv double)"
proof (induction p v star rule: glob_loop.induct)
  case (1 p v star)
  show ?case
  proof (cases v)
    case Nil
    with 1(4) show ?thesis by (simp add: glob_loop_turn)
  next
    case (Cons c v')
    consider (star) "p \<noteq> []" "hd p = CHR ''*''" | (lit) p' where "p = c # p'" "c \<noteq> CHR ''*''"
      | (miss) "p = [] \<or> hd p \<noteq> CHR ''*'' \<and> hd p \<noteq> c" by (cases p) auto
    then show ?thesis
    proof cases
      case star
      with 1(4) Cons have "glob_loop (after_star p) v (Some (after_star p, v, is_double p))" by (simp add: glob_loop_turn)
      with 1(1) [OF Cons _ is_double_def after_star_def] star have "star_match (after_star p) v (is_double p)"
        by (auto intro: star_match_here)
      with star show ?thesis by (simp add: glob_spec_star)
    next
      case lit
      with 1(4) Cons have "glob_loop p' v' star" by (simp add: glob_loop_turn)
      with 1(2) [OF Cons] lit Cons show ?thesis by auto
    next
      case miss
      show ?thesis
      proof (cases star)
        case None
        with miss 1(4) Cons show ?thesis by (simp add: glob_loop_turn)
      next
        case (Some s)
        obtain sp sv double where s: "s = (sp, sv, double)" by (cases s)
        show ?thesis
        proof (cases sv)
          case Nil
          with Some s miss 1(4) Cons show ?thesis by (auto simp: glob_loop.simps [of p "c # v'"])
        next
          case (Cons d sv')
          with Some s miss 1(4) \<open>v = c # v'\<close> have "double \<or> d \<noteq> CHR ''/''" "glob_loop sp sv' (Some (sp, sv', double))"
            by (simp_all add: glob_loop_turn)
          with 1(3) [OF \<open>v = c # v'\<close> _ _ Some s [symmetric] refl Cons] miss have "star_match sp sv' double"
            by (auto intro: star_match_here)
          with \<open>double \<or> d \<noteq> CHR ''/''\<close> Some s Cons show ?thesis by (simp add: star_match_tl)
        qed
      qed
    qed
  qed
qed

text \<open>The patterns for which the last star is enough to come back to: no single star after a double one.\<close>

fun only_double :: "str \<Rightarrow> bool" where
  "only_double [] = True"
| "only_double (c # p) =
     (if c = CHR ''*'' then (case p of c' # p' \<Rightarrow> c' = CHR ''*'' \<and> only_double p' | [] \<Rightarrow> False) else only_double p)"

fun glob_regular :: "str \<Rightarrow> bool" where
  "glob_regular [] = True"
| "glob_regular (c # p) =
     (if c = CHR ''*'' then (case p of c' # p' \<Rightarrow> if c' = CHR ''*'' then only_double p' else glob_regular p | [] \<Rightarrow> True)
      else glob_regular p)"

lemma regular_literal [simp]:
  "CHR ''*'' \<notin> set lit \<Longrightarrow> glob_regular (lit @ p) = glob_regular p"
  "CHR ''*'' \<notin> set lit \<Longrightarrow> only_double (lit @ p) = only_double p"
  by (induction lit) auto

lemma spec_literal: "CHR ''*'' \<notin> set lit \<Longrightarrow> glob_spec (lit @ p) v \<longleftrightarrow> (\<exists>v'. v = lit @ v' \<and> glob_spec p v')"
proof (induction lit arbitrary: v)
  case (Cons c lit)
  then show ?case by (cases v) auto
qed simp

text \<open>
  A literal that occurs at the start and again later: when what lies before the later occurrence has no slash, the
  text between the ends of the two occurrences has none either.
\<close>

lemma shifted_literal:
  assumes "lit @ w = a @ lit" "CHR ''/'' \<notin> set a"
  shows "CHR ''/'' \<notin> set w"
proof (cases "CHR ''/'' \<in> set lit")
  case False
  with assms show ?thesis by (metis Un_iff set_append)
next
  case True
  then obtain l r where l: "lit = l @ CHR ''/'' # r" "CHR ''/'' \<notin> set l" by (metis split_list_first)
  have "takeWhile (\<lambda>c. c \<noteq> CHR ''/'') (lit @ w) = l" using l by (auto simp: takeWhile_append takeWhile_eq_all_conv)
  moreover have "takeWhile (\<lambda>c. c \<noteq> CHR ''/'') (a @ lit) = a @ l"
    using l assms(2) by (auto simp: takeWhile_append takeWhile_eq_all_conv)
  ultimately have "a = []" using assms(1) by simp
  with assms(1) show ?thesis by simp
qed


lemma later_match_moves:
  assumes "sp = lit @ p" "sv = lit @ v" "CHR ''*'' \<notin> set lit" "p \<noteq> []" "hd p = CHR ''*''" "star_match sp sv double"
    and "if double then only_double sp else glob_regular sp"
  shows "glob_spec p v"
proof -
  obtain a b where ab: "sv = a @ b" "double \<or> CHR ''/'' \<notin> set a" "glob_spec sp b"
    using assms(6) by (auto simp: star_match_def)
  then obtain v' where v': "b = lit @ v'" "glob_spec p v'" using assms(1,3) by (auto simp: spec_literal)
  have eq: "lit @ v = (a @ lit) @ v'" using assms(2) ab(1) v'(1) by simp
  then have "length v = length a + length v'" by (metis add.commute add_left_cancel length_append append_assoc)
  define w where "w = take (length a) v"
  have w: "v = w @ v'" "lit @ w = a @ lit"
  proof -
    have "lit @ w = take (length (a @ lit)) (lit @ v)" by (simp add: w_def add.commute)
    then show "lit @ w = a @ lit" unfolding eq by simp
    then show "v = w @ v'" using eq by (metis append_assoc append_same_eq same_append_eq)
  qed
  from v'(2) assms(4,5) obtain a' b' where m: "v' = a' @ b'" "is_double p \<or> CHR ''/'' \<notin> set a'"
      "glob_spec (after_star p) b'"
    by (auto simp: glob_spec_star star_match_def)
  have "is_double p \<or> CHR ''/'' \<notin> set w"
  proof (cases double)
    case True
    with assms(1,3,7) have "only_double p" by simp
    with assms(4,5) show ?thesis by (cases p) (auto simp: is_double_def split: list.splits)
  next
    case False
    with ab(2) w(2) shifted_literal show ?thesis by blast
  qed
  with m w(1) have "star_match (after_star p) v (is_double p)"
    unfolding star_match_def by (intro exI [of _ "w @ a'"] exI [of _ b']) auto
  with assms(4,5) show ?thesis by (simp add: glob_spec_star)
qed

text \<open>
  The state of the loop on a regular pattern: what the last star leaves of the pattern is a literal, already found at the
  value after the star, and the pattern at the cursor.
\<close>

definition glob_inv :: "str \<Rightarrow> str \<Rightarrow> (str \<times> str \<times> bool) option \<Rightarrow> bool" where
  "glob_inv p v star =
     (case star of
        None \<Rightarrow> glob_regular p
      | Some (sp, sv, double) \<Rightarrow>
          (\<exists>lit. sp = lit @ p \<and> sv = lit @ v \<and> CHR ''*'' \<notin> set lit)
          \<and> (if double then only_double sp else glob_regular sp))"

definition glob_goal :: "str \<Rightarrow> str \<Rightarrow> (str \<times> str \<times> bool) option \<Rightarrow> bool" where
  "glob_goal p v star = (case star of None \<Rightarrow> glob_spec p v | Some (sp, sv, double) \<Rightarrow> star_match sp sv double)"

lemma regular_after_star:
  assumes "p \<noteq> []" "hd p = CHR ''*''" "glob_regular p"
  shows "if is_double p then only_double (after_star p) else glob_regular (after_star p)"
  using assms by (cases p; cases "tl p") (auto simp: is_double_def after_star_def split: if_splits)

lemma only_double_after_star:
  assumes "p \<noteq> []" "hd p = CHR ''*''" "only_double p"
  shows "is_double p \<and> only_double (after_star p)"
  using assms by (cases p; cases "tl p") (auto simp: is_double_def after_star_def)

lemma glob_inv_star:
  assumes "glob_inv p v star" "glob_goal p v star" "p \<noteq> []" "hd p = CHR ''*''"
  shows "glob_inv (after_star p) v (Some (after_star p, v, is_double p))"
    and "glob_goal (after_star p) v (Some (after_star p, v, is_double p))"
proof -
  have reg: "glob_regular p \<or> only_double p"
    using assms(1) by (auto simp: glob_inv_def split: option.splits if_splits)
  then show "glob_inv (after_star p) v (Some (after_star p, v, is_double p))"
    using regular_after_star [OF assms(3,4)] only_double_after_star [OF assms(3,4)] by (auto simp: glob_inv_def)
  have "glob_spec p v"
  proof (cases star)
    case None
    with assms(2) show ?thesis by (simp add: glob_goal_def)
  next
    case (Some s)
    with assms(1,2) obtain sp sv double lit where "s = (sp, sv, double)" "sp = lit @ p" "sv = lit @ v" "CHR ''*'' \<notin> set lit"
      "star_match sp sv double" "if double then only_double sp else glob_regular sp"
      by (cases s) (auto simp: glob_inv_def glob_goal_def)
    with assms(3,4) show ?thesis by (meson later_match_moves)
  qed
  with assms(3,4) show "glob_goal (after_star p) v (Some (after_star p, v, is_double p))"
    by (simp add: glob_goal_def glob_spec_star)
qed


lemma glob_goal_end:
  assumes "glob_inv p [] star" "glob_goal p [] star"
  shows "glob_spec p []"
proof (cases star)
  case None
  with assms show ?thesis by (simp add: glob_goal_def)
next
  case (Some s)
  with assms obtain sp sv double lit a b where "s = (sp, sv, double)" and lit: "sp = lit @ p" "sv = lit" "CHR ''*'' \<notin> set lit"
    and ab: "sv = a @ b" "glob_spec sp b"
    by (cases s) (auto simp: glob_inv_def glob_goal_def star_match_def)
  then obtain v' where "b = lit @ v'" "glob_spec p v'" by (auto simp: spec_literal)
  moreover from this(1) ab(1) lit(2) have "length lit = length a + (length lit + length v')" by (metis length_append)
  then have "v' = []" by simp
  ultimately show ?thesis by simp
qed

lemma glob_goal_miss:
  assumes "glob_inv p (c # v) star" "glob_goal p (c # v) star" "p = [] \<or> hd p \<noteq> CHR ''*'' \<and> hd p \<noteq> c"
  shows "\<exists>sp d sv double. star = Some (sp, d # sv, double) \<and> (double \<or> d \<noteq> CHR ''/'')
    \<and> glob_inv sp sv (Some (sp, sv, double)) \<and> glob_goal sp sv (Some (sp, sv, double))"
proof -
  have no: "\<not> glob_spec p (c # v)" using assms(3) by (cases p) auto
  then obtain s where s: "star = Some s" using assms(2) by (cases star) (auto simp: glob_goal_def)
  with assms(1,2) obtain sp sv double lit where st: "s = (sp, sv, double)" and lit: "sp = lit @ p" "sv = lit @ c # v"
      "CHR ''*'' \<notin> set lit" and m: "star_match sp sv double" and reg: "if double then only_double sp else glob_regular sp"
    by (cases s) (auto simp: glob_inv_def glob_goal_def)
  obtain d sv' where d: "sv = d # sv'" using lit(2) by (metis append_is_Nil_conv list.discI list.exhaust)
  have "\<not> glob_spec sp sv" using no lit by (auto simp: spec_literal)
  with m d have "(double \<or> d \<noteq> CHR ''/'') \<and> star_match sp sv' double" by (simp add: star_match_tl)
  with s st d reg show ?thesis by (auto simp: glob_inv_def glob_goal_def)
qed

lemma glob_inv_literal:
  assumes "glob_inv (b # p) (b # v) star" "glob_goal (b # p) (b # v) star" "b \<noteq> CHR ''*''"
  shows "glob_inv p v star \<and> glob_goal p v star"
proof (cases star)
  case None
  with assms show ?thesis by (simp add: glob_inv_def glob_goal_def)
next
  case (Some s)
  with assms obtain sp sv double lit where "s = (sp, sv, double)" "sp = (lit @ [b]) @ p" "sv = (lit @ [b]) @ v"
      "CHR ''*'' \<notin> set (lit @ [b])" "if double then only_double sp else glob_regular sp"
    by (cases s) (auto simp: glob_inv_def)
  with Some assms(2) show ?thesis unfolding glob_inv_def glob_goal_def by auto
qed

lemma glob_loop_complete: "glob_inv p v star \<Longrightarrow> glob_goal p v star \<Longrightarrow> glob_loop p v star"
proof (induction p v star rule: glob_loop.induct)
  case (1 p v star)
  show ?case
  proof (cases v)
    case Nil
    with 1(4,5) show ?thesis by (simp add: glob_loop_turn glob_goal_end)
  next
    case (Cons c v')
    consider (star) "p \<noteq> []" "hd p = CHR ''*''" | (lit) p' where "p = c # p'" "c \<noteq> CHR ''*''"
      | (miss) "p = [] \<or> hd p \<noteq> CHR ''*'' \<and> hd p \<noteq> c" by (cases p) auto
    then show ?thesis
    proof cases
      case star
      from 1(1) [OF Cons _ is_double_def after_star_def] glob_inv_star [OF 1(4,5) star] star
      have "glob_loop (after_star p) v (Some (after_star p, v, is_double p))" by blast
      with star Cons show ?thesis by (simp add: glob_loop_turn)
    next
      case lit
      with glob_inv_literal 1(4,5) Cons have "glob_inv p' v' star \<and> glob_goal p' v' star" by blast
      with 1(2) [OF Cons] lit Cons have "glob_loop p' v' star" by simp
      with lit Cons show ?thesis by (simp add: glob_loop_turn)
    next
      case miss
      with glob_goal_miss 1(4,5) Cons obtain sp d sv double where s: "star = Some (sp, d # sv, double)"
        "double \<or> d \<noteq> CHR ''/''" "glob_inv sp sv (Some (sp, sv, double))" "glob_goal sp sv (Some (sp, sv, double))"
        by blast
      from 1(3) [OF Cons _ _ s(1) refl refl refl] s miss have "glob_loop sp sv (Some (sp, sv, double))" by auto
      with miss Cons s show ?thesis by (simp add: glob_loop_turn)
    qed
  qed
qed

lemma glob_exact: "glob_regular p \<Longrightarrow> glob_matches p v = glob_spec p v"
  using glob_loop_sound [of p v None] glob_loop_complete [of p v None]
  by (auto simp: glob_matches_def glob_inv_def glob_goal_def)

text \<open>C16: the loop of \<open>glob_inner\<close> accepts only what the pattern means, and for every pattern without a single star after a
  double one it accepts exactly that.\<close>

theorem glob_matches_spec:
  "(glob_matches p v \<longrightarrow> glob_spec p v) \<and> (glob_regular p \<longrightarrow> glob_matches p v = glob_spec p v)"
  using glob_loop_sound [of p v None] glob_exact [of p v] by (auto simp: glob_matches_def)

theorem glob_matches_spec_witness:
  "glob_regular ''team/*/**x'' \<and> glob_matches ''team/*/**x'' ''team/a/b/x'' \<and> glob_spec ''team/*/**x'' ''team/a/b/x''"
proof -
  have "glob_regular ''team/*/**x'' \<and> glob_matches ''team/*/**x'' ''team/a/b/x''" by code_simp
  with glob_matches_spec [of "''team/*/**x''" "''team/a/b/x''"] show ?thesis by blast
qed

text \<open>outside these patterns matches are missed, because only the last star is ever widened.\<close>

theorem glob_matches_misses:
  "\<not> glob_matches ''**/a*'' ''x/a/y/ab'' \<and> glob_spec ''**/a*'' ''x/a/y/ab''"
proof
  show "\<not> glob_matches ''**/a*'' ''x/a/y/ab''" by code_simp
  have "glob_spec ''/a*'' ''/ab''" by (auto simp: glob_spec_single)
  then show "glob_spec ''**/a*'' ''x/a/y/ab''" unfolding glob_spec_double
    by (intro exI [of _ "''x/a/y''"] exI [of _ "''/ab''"]) simp
qed


lemma glob_literal: "CHR ''*'' \<notin> set p \<Longrightarrow> glob_matches p v \<longleftrightarrow> v = p"
  using glob_exact [of p v] spec_literal [of p "[]" v] regular_literal(1) [of p "[]"] by simp

section \<open>What the evaluator decides\<close>

lemma in_matched_rules [simp]: "r \<in> set (matched_rules ctx rules) \<longleftrightarrow> r \<in> set rules \<and> rule_matches ctx r"
  by (auto simp: matched_rules_def)

definition denied_at :: "PermissionContext \<Rightarrow> PermissionRule list \<Rightarrow> bool" where
  "denied_at ctx rules = list_ex (\<lambda>r. rule_matches ctx r \<and> pr_decision r = RDeny) rules"

definition is_denial :: "PermDecision \<Rightarrow> bool" where
  "is_denial d = (case d of PDeny _ \<Rightarrow> True | _ \<Rightarrow> False)"

lemma is_denial_simps [simp]: "is_denial (PDeny r)" "\<not> is_denial PAllow" "\<not> is_denial (PModify m)" "\<not> is_denial (PAsk r)"
  by (simp_all add: is_denial_def)

definition has_denial :: "HookDecision list \<Rightarrow> bool" where
  "has_denial hooks = list_ex (\<lambda>h. case h of HDeny _ _ \<Rightarrow> True | _ \<Rightarrow> False) hooks"

lemma hook_denial_iff: "hook_denial hooks = None \<longleftrightarrow> \<not> has_denial hooks"
  by (induction hooks rule: hook_denial.induct) (auto simp: has_denial_def)

lemma find_denial: "find (\<lambda>r. pr_decision r = RDeny) (matched_rules ctx rules) = None \<longleftrightarrow> \<not> denied_at ctx rules"
  by (auto simp: find_None_iff denied_at_def list_ex_iff)

lemma evaluate_denied_rule:
  "mode \<noteq> Off \<Longrightarrow> denied_at ctx rules \<Longrightarrow> is_denial (evaluate_with ctx hooks rules mode)"
  using find_denial [of ctx rules] by (subst evaluate_with.simps) (auto simp: Let_def split: option.split)

lemma evaluate_denied_hook:
  "mode \<noteq> Off \<Longrightarrow> has_denial hooks \<Longrightarrow> is_denial (evaluate_with ctx hooks rules mode)"
  using hook_denial_iff [of hooks] by (subst evaluate_with.simps) (auto simp: Let_def split: option.split)

lemma allow_or_ask_no_modify: "allow_or_ask ctx hooks outcomes mode \<noteq> PModify delta"
  by (auto simp: allow_or_ask_def mode_default_for_def Let_def split: option.splits)

lemma evaluate_modify:
  assumes "evaluate_with ctx hooks rules mode = PModify delta" "md_namespace delta = Some n" "n \<noteq> pc_namespace ctx"
  shows "\<not> is_denial (evaluate_with (ctx\<lparr>pc_namespace := n\<rparr>) [] rules mode)"
proof -
  note run = assms(1) [unfolded evaluate_with.simps [of ctx hooks] Let_def]
  from run have "mode \<noteq> Off" by auto
  moreover from run this have "find (\<lambda>r. pr_decision r = RDeny) (matched_rules ctx rules) = None"
    by (cases "find (\<lambda>r. pr_decision r = RDeny) (matched_rules ctx rules)") simp_all
  moreover from run calculation have "hook_denial hooks = None" by (cases "hook_denial hooks") simp_all
  ultimately obtain d where d: "compose_deltas hooks None = Some d"
      "(case md_namespace d of None \<Rightarrow> PModify d
        | Some m \<Rightarrow> if m \<noteq> pc_namespace ctx then
            (case evaluate_with (ctx\<lparr>pc_namespace := m\<rparr>) [] rules mode of
               PDeny reason \<Rightarrow> PDeny (Escalation m (pc_namespace ctx) reason) | _ \<Rightarrow> PModify d)
            else PModify d) = PModify delta"
    using run by (cases "compose_deltas hooks None") (simp_all add: allow_or_ask_no_modify)
  from d(2) have "d = delta" by (auto split: option.splits if_splits PermDecision.splits)
  with d(2) assms(2,3) show ?thesis by (auto split: PermDecision.splits)
qed

lemma evaluate_without_hooks:
  "mode \<noteq> Off \<Longrightarrow> \<not> denied_at ctx rules \<Longrightarrow>
     evaluate_with ctx [] rules mode = allow_or_ask ctx [] (matched_rules ctx rules) mode"
  unfolding evaluate_with.simps [of ctx] using find_denial [of ctx rules] by simp

text \<open>C15: a denial cannot be overridden. Unless the permission system is off, an operation that is not denied matches no rule
  that denies it and was denied by no hook; and when hooks move it into another namespace, no rule denies it there.\<close>

theorem denial_wins:
  assumes "mode \<noteq> Off" "\<not> is_denial (evaluate synth active mode ctx hooks)"
  shows "\<not> denied_at ctx (synthetic_rules_as_permission_rules synth @ active) \<and> \<not> has_denial hooks
    \<and> (\<forall>delta n. evaluate synth active mode ctx hooks = PModify delta \<longrightarrow> md_namespace delta = Some n \<longrightarrow>
         \<not> denied_at (ctx\<lparr>pc_namespace := n\<rparr>) (synthetic_rules_as_permission_rules synth @ active))"
proof -
  let ?rules = "synthetic_rules_as_permission_rules synth @ active"
  have here: "\<not> denied_at ctx ?rules" and "\<not> has_denial hooks"
    using assms evaluate_denied_rule evaluate_denied_hook unfolding evaluate_def by blast+
  moreover have "\<not> denied_at (ctx\<lparr>pc_namespace := n\<rparr>) ?rules"
    if "evaluate synth active mode ctx hooks = PModify delta" "md_namespace delta = Some n" for delta n
  proof (cases "n = pc_namespace ctx")
    case True
    with here show ?thesis by simp
  next
    case False
    with evaluate_modify [OF that(1) [unfolded evaluate_def] that(2)] evaluate_denied_rule assms(1)
    show ?thesis by blast
  qed
  ultimately show ?thesis by blast
qed

definition sample_rules :: "PermissionRule list" where
  "sample_rules =
     [\<lparr>pr_namespace_pattern = ''secrets/*'', pr_op = ''memory_store'', pr_agent_pattern = ''ai:*'', pr_decision = RDeny,
       pr_reason = None\<rparr>,
      \<lparr>pr_namespace_pattern = ''**'', pr_op = ''memory_store'', pr_agent_pattern = ''*'', pr_decision = RAsk,
       pr_reason = Some ''sure?''\<rparr>]"

definition sample_ctx :: PermissionContext where
  "sample_ctx = \<lparr>pc_op = MemoryStore, pc_namespace = ''public'', pc_agent_id = ''ai:x'', pc_payload = JNull\<rparr>"

definition moving_hook :: "str \<Rightarrow> HookDecision" where
  "moving_hook n = HModify (delta_default\<lparr>md_namespace := Some n\<rparr>)"

lemma denied_into_secrets: "is_denial (evaluate [] sample_rules Advisory sample_ctx [moving_hook ''secrets/a''])"
  by code_simp

theorem denial_wins_witness:
  "\<not> is_denial (evaluate [] sample_rules Advisory sample_ctx [moving_hook ''drafts'']) \<and>
   \<not> denied_at (sample_ctx\<lparr>pc_namespace := ''drafts''\<rparr>) (synthetic_rules_as_permission_rules [] @ sample_rules)"
proof -
  have run: "evaluate [] sample_rules Advisory sample_ctx [moving_hook ''drafts'']
      = PModify (delta_default\<lparr>md_namespace := Some ''drafts''\<rparr>)" by code_simp
  with denial_wins [of Advisory "[]" sample_rules sample_ctx "[moving_hook ''drafts'']"] show ?thesis by simp
qed

subsection \<open>Remembered decisions\<close>

lemma recorded: "\<exists>r \<in> set (record_synthetic_rule rule registry). same_rule r rule"
  by (auto simp: record_synthetic_rule_def list_ex_iff same_rule_def)

text \<open>The rule a remembered decision becomes applies to the operation it was made for.\<close>

lemma remembered_rule_matches:
  assumes "r \<in> set synth" "same_rule r rule" "synthetic_decision (sr_decision rule) = Some decision"
    and "op_matches_action_type (pc_op ctx) (sr_action_type rule)" "sr_namespace rule = pc_namespace ctx"
      "sr_agent_id rule = Some (pc_agent_id ctx)"
    and "CHR ''*'' \<notin> set (pc_namespace ctx)" "CHR ''*'' \<notin> set (pc_agent_id ctx)"
  shows "\<exists>q \<in> set (synthetic_rules_as_permission_rules synth). rule_matches ctx q \<and> pr_decision q = decision"
proof -
  let ?q = "synthetic_rule r decision (pc_op ctx)"
  have r: "sr_namespace r = pc_namespace ctx" "sr_agent_id r = Some (pc_agent_id ctx)"
      "synthetic_decision (sr_decision r) = Some decision" "op_matches_action_type (pc_op ctx) (sr_action_type r)"
    using assms(2-6) by (simp_all add: same_rule_def)
  have ops: "pc_op ctx \<in> set [MemoryStore, MemoryDelete, MemoryArchive, MemoryConsolidate, MemoryLink]"
    using r(4) by (auto simp: op_matches_action_type_def)
  have "?q \<in> set (synthetic_rules_of r)" unfolding synthetic_rules_of_def r(3) option.case set_map using r(4) ops by auto
  then have "?q \<in> set (synthetic_rules_as_permission_rules synth)"
    using assms(1) by (auto simp: synthetic_rules_as_permission_rules_def)
  moreover have "rule_matches ctx ?q"
    using r(1,2) assms(7,8) by (simp add: rule_matches_def glob_literal synthetic_rule_def)
  ultimately show ?thesis by (intro bexI [of _ ?q]) (simp_all add: synthetic_rule_def)
qed

text \<open>a decision remembered for an agent and a namespace decides the next matching operation without a prompt: a remembered
  denial denies it, a remembered approval allows it unless a rule denies it.\<close>

theorem remembered_decision_applies:
  fixes registry :: "SyntheticPermissionRule list"
  assumes "mode \<noteq> Off" "op_matches_action_type (pc_op ctx) (sr_action_type rule)" "sr_namespace rule = pc_namespace ctx"
      "sr_agent_id rule = Some (pc_agent_id ctx)" "CHR ''*'' \<notin> set (pc_namespace ctx)" "CHR ''*'' \<notin> set (pc_agent_id ctx)"
  defines "synth \<equiv> record_synthetic_rule rule registry"
  shows "(sr_decision rule = ''deny'' \<longrightarrow> is_denial (evaluate synth active mode ctx []))
    \<and> (sr_decision rule = ''approve'' \<longrightarrow>
         evaluate synth active mode ctx [] = PAllow \<or> denied_at ctx (synthetic_rules_as_permission_rules synth @ active))"
proof -
  from recorded obtain r where r: "r \<in> set synth" "same_rule r rule" unfolding synth_def by blast
  note matches = remembered_rule_matches [OF r _ assms(2-6)]
  have "is_denial (evaluate synth active mode ctx [])" if "sr_decision rule = ''deny''"
  proof -
    from that matches [of RDeny] have "denied_at ctx (synthetic_rules_as_permission_rules synth @ active)"
      by (auto simp: synthetic_decision_def denied_at_def list_ex_iff)
    with assms(1) show ?thesis unfolding evaluate_def by (rule evaluate_denied_rule)
  qed
  moreover have "evaluate synth active mode ctx [] = PAllow"
    if "sr_decision rule = ''approve''" "\<not> denied_at ctx (synthetic_rules_as_permission_rules synth @ active)"
  proof -
    from that(1) matches [of RAllow] have "list_ex (\<lambda>r. pr_decision r = RAllow)
        (matched_rules ctx (synthetic_rules_as_permission_rules synth @ active))"
      by (auto simp: synthetic_decision_def list_ex_iff)
    with that(2) assms(1) show ?thesis by (simp add: evaluate_def evaluate_without_hooks allow_or_ask_def)
  qed
  ultimately show ?thesis by blast
qed

definition sample_remembered :: SyntheticPermissionRule where
  "sample_remembered = \<lparr>sr_action_type = ''store'', sr_namespace = ''public'', sr_agent_id = Some ''ai:x'',
     sr_decision = ''approve'', sr_recorded_at = ''now''\<rparr>"

theorem remembered_decision_applies_witness:
  "evaluate [] sample_rules Enforce sample_ctx [] = PDeny (AskEscalated (Given ''sure?''))
   \<and> evaluate (record_synthetic_rule sample_remembered []) sample_rules Enforce sample_ctx [] = PAllow"
proof -
  let ?synth = "record_synthetic_rule sample_remembered []"
  have no: "\<not> denied_at sample_ctx (synthetic_rules_as_permission_rules ?synth @ sample_rules)" by code_simp
  have "evaluate ?synth sample_rules Enforce sample_ctx [] = PAllow"
    using remembered_decision_applies [of Enforce sample_ctx sample_remembered "[]" sample_rules] no
    by (auto simp: sample_ctx_def sample_remembered_def op_matches_action_type_def)
  moreover have "evaluate [] sample_rules Enforce sample_ctx [] = PDeny (AskEscalated (Given ''sure?''))" by code_simp
  ultimately show ?thesis by blast
qed

text \<open>
  Two limits. The remembered namespace is used as a pattern, and stars are legal in a namespace: an approval
  remembered for the namespace \<open>**\<close> allows everything. And the default agent pattern does not reach an agent
  whose identifier has a slash.
\<close>

lemma remembered_stars_widen:
  "evaluate (record_synthetic_rule (sample_remembered\<lparr>sr_namespace := ''**''\<rparr>) []) sample_rules Enforce sample_ctx [] = PAllow"
  by code_simp

lemma default_agent_pattern_misses_slash:
  "\<not> glob_matches default_agent_pattern ''team/bob'' \<and> glob_matches default_agent_pattern ''bob''"
  by code_simp

end
