(* ===== verification/Subscriptions.thy ===== *)
theory Subscriptions
  imports Audit_Log Catalog
begin

text \<open>
  Webhook subscriptions (\<open>src/subscriptions.rs\<close>): the table of subscriptions, the filters, the guard against
  requests to internal addresses, signing, delivery with retries, the event log and the dead-letter queue. Name
  resolution, HTTP and SHA-256 are parameters, as are identifiers and clock readings; the parser of addresses is the
  one of Rust's standard library. Texts of errors are values that name their case.
\<close>

subsection \<open>Addresses\<close>

datatype IpAddr = V4 "8 word" "8 word" "8 word" "8 word" | V6 "16 word list"

text \<open>\<open>char::to_digit\<close> for a radix of at most 16.\<close>

definition digit_values :: "(char \<times> nat) list" where
  "digit_values = zip ''0123456789abcdefABCDEF'' [0, 1, 2, 3, 4, 5, 6, 7, 8, 9, 10, 11, 12, 13, 14, 15, 10, 11, 12, 13, 14, 15]"

definition digit_of :: "nat \<Rightarrow> char \<Rightarrow> nat option" where
  "digit_of radix c =
     (case map_of digit_values c of Some v \<Rightarrow> if v < radix then Some v else None | None \<Rightarrow> None)"

text \<open>\<open>Parser::read_number\<close>: a run of digits, at most so many, no leading zero unless allowed, within the type.\<close>

definition read_number :: "nat \<Rightarrow> nat \<Rightarrow> bool \<Rightarrow> nat \<Rightarrow> str \<Rightarrow> (nat \<times> str) option" where
  "read_number radix max_digits allow_zero_prefix bound s =
     (let ds = takeWhile (\<lambda>c. digit_of radix c \<noteq> None) s;
          v = foldl (\<lambda>acc c. acc * radix + the (digit_of radix c)) 0 ds
      in if ds = [] \<or> length ds > max_digits \<or> v > bound
            \<or> \<not> allow_zero_prefix \<and> hd ds = CHR ''0'' \<and> length ds > 1 then None
         else Some (v, drop (length ds) s))"

definition read_given_char :: "char \<Rightarrow> str \<Rightarrow> str option" where
  "read_given_char c s = (case s of d # r \<Rightarrow> if d = c then Some r else None | [] \<Rightarrow> None)"

definition read_separator :: "char \<Rightarrow> nat \<Rightarrow> (str \<Rightarrow> ('a \<times> str) option) \<Rightarrow> str \<Rightarrow> ('a \<times> str) option" where
  "read_separator sep index inner s =
     (if index > 0 then (case read_given_char sep s of Some r \<Rightarrow> inner r | None \<Rightarrow> None) else inner s)"

fun read_octets :: "nat \<Rightarrow> nat \<Rightarrow> str \<Rightarrow> (8 word list \<times> str) option" where
  "read_octets i 0 s = Some ([], s)"
| "read_octets i (Suc n) s =
     (case read_separator CHR ''.'' i (read_number 10 3 False 255) s of
        None \<Rightarrow> None
      | Some (v, r) \<Rightarrow>
          (case read_octets (Suc i) n r of None \<Rightarrow> None | Some (vs, r') \<Rightarrow> Some (word_of_nat v # vs, r')))"

definition read_ipv4_addr :: "str \<Rightarrow> (IpAddr \<times> str) option" where
  "read_ipv4_addr s =
     (case read_octets 0 4 s of Some ([a, b, c, d], r) \<Rightarrow> Some (V4 a b c d, r) | _ \<Rightarrow> None)"

definition v4_groups :: "IpAddr \<Rightarrow> 16 word list" where
  "v4_groups ip = (case ip of V4 a b c d \<Rightarrow> [word_of_nat (unat a * 256 + unat b), word_of_nat (unat c * 256 + unat d)] | V6 gs \<Rightarrow> gs)"

text \<open>\<open>read_groups\<close> from group \<open>i\<close> on, with \<open>n\<close> left: the groups, whether they end in an IPv4 address, the rest.\<close>

fun read_groups :: "nat \<Rightarrow> nat \<Rightarrow> str \<Rightarrow> 16 word list \<times> bool \<times> str" where
  "read_groups i 0 s = ([], False, s)"
| "read_groups i (Suc n) s =
     (case (if n > 0 then read_separator CHR '':'' i read_ipv4_addr s else None) of
        Some (ip, r) \<Rightarrow> (v4_groups ip, True, r)
      | None \<Rightarrow>
          (case read_separator CHR '':'' i (read_number 16 4 True 65535) s of
             None \<Rightarrow> ([], False, s)
           | Some (v, r) \<Rightarrow>
               (case read_groups (Suc i) n r of (gs, v4, r') \<Rightarrow> (word_of_nat v # gs, v4, r'))))"

definition read_ipv6_addr :: "str \<Rightarrow> (IpAddr \<times> str) option" where
  "read_ipv6_addr s =
     (case read_groups 0 8 s of
        (head, head_ipv4, r) \<Rightarrow>
          if length head = 8 then Some (V6 head, r)
          else if head_ipv4 then None
          else (case read_given_char CHR '':'' r of
                  None \<Rightarrow> None
                | Some r1 \<Rightarrow>
                    (case read_given_char CHR '':'' r1 of
                       None \<Rightarrow> None
                     | Some r2 \<Rightarrow>
                         (case read_groups 0 (7 - length head) r2 of
                            (tail, _, r3) \<Rightarrow>
                              Some (V6 (head @ replicate (8 - length head - length tail) 0 @ tail), r3)))))"

definition parse_ip :: "str \<Rightarrow> IpAddr option" where
  "parse_ip s =
     (case (case read_ipv4_addr s of Some x \<Rightarrow> Some x | None \<Rightarrow> read_ipv6_addr s) of
        Some (ip, []) \<Rightarrow> Some ip
      | _ \<Rightarrow> None)"

fun is_loopback :: "IpAddr \<Rightarrow> bool" where
  "is_loopback (V4 a b c d) = (a = 127)"
| "is_loopback (V6 gs) = (gs = [0, 0, 0, 0, 0, 0, 0, 1])"

fun is_private :: "IpAddr \<Rightarrow> bool" where
  "is_private (V4 a b c d) =
     (a = 10 \<or> a = 172 \<and> 16 \<le> b \<and> b \<le> 31 \<or> a = 192 \<and> b = 168
      \<or> a = 169 \<and> b = 254
      \<or> 224 \<le> a \<and> a \<le> 239
      \<or> a = 255 \<and> b = 255 \<and> c = 255 \<and> d = 255
      \<or> a = 0 \<and> b = 0 \<and> c = 0 \<and> d = 0)"
| "is_private (V6 gs) =
     (and (hd gs) 0xff00 = 0xff00
      \<or> gs = [0, 0, 0, 0, 0, 0, 0, 0]
      \<or> and (hd gs) 0xfe00 = 0xfc00
      \<or> and (hd gs) 0xffc0 = 0xfe80)"

subsection \<open>The guard against internal targets\<close>

datatype UrlError = MissingScheme | BadScheme | MalformedIpv6 | LoopbackTarget | HttpsRequired | PrivateTarget
  | ResolvesPrivate IpAddr | ResolvesLoopback IpAddr

fun split_once_at :: "str \<Rightarrow> str \<Rightarrow> (str \<times> str) option" where
  "split_once_at d [] = (if d = [] then Some ([], []) else None)"
| "split_once_at d (c # s) =
     (if prefix d (c # s) then Some ([], drop (length d) (c # s))
      else map_option (\<lambda>(a, b). (c # a, b)) (split_once_at d s))"

definition host_port_of :: "str \<Rightarrow> str" where
  "host_port_of rest = takeWhile (\<lambda>c. c \<notin> {CHR ''/'', CHR ''?'', CHR ''#''}) rest"

text \<open>The host of \<open>validate_url_with\<close>: inside brackets, or before the last colon.\<close>

definition url_host :: "str \<Rightarrow> str option" where
  "url_host host_port =
     (case host_port of
        CHR ''['' # stripped \<Rightarrow>
          if CHR '']'' \<in> set stripped then Some (takeWhile (\<lambda>c. c \<noteq> CHR '']'') stripped) else None
      | _ \<Rightarrow> (case rsplit_once CHR '':'' host_port of Some (h, _) \<Rightarrow> Some h | None \<Rightarrow> Some host_port))"

definition validate_url_with :: "str \<Rightarrow> bool \<Rightarrow> UrlError + unit" where
  "validate_url_with url allow_loopback =
     (case split_once_at ''://'' (to_ascii_lowercase url) of
        None \<Rightarrow> Inl MissingScheme
      | Some (scheme, rest) \<Rightarrow>
          if scheme \<noteq> ''https'' \<and> scheme \<noteq> ''http'' then Inl BadScheme
          else (case url_host (host_port_of rest) of
            None \<Rightarrow> Inl MalformedIpv6
          | Some host \<Rightarrow>
              let parsed_ip = parse_ip host;
                  is_loopback_hostname = (host = ''localhost'' \<or> host = ''localhost.localdomain'' \<or> host = []);
                  loopback = (is_loopback_hostname \<or> (case parsed_ip of Some ip \<Rightarrow> is_loopback ip | None \<Rightarrow> False))
              in if loopback \<and> \<not> allow_loopback then Inl LoopbackTarget
                 else if scheme = ''http'' \<and> \<not> loopback
                   \<and> (case parsed_ip of Some ip \<Rightarrow> \<not> is_loopback ip | None \<Rightarrow> True) then Inl HttpsRequired
                 else if (case parsed_ip of Some ip \<Rightarrow> is_private ip \<and> \<not> is_loopback ip | None \<Rightarrow> False) then Inl PrivateTarget
                 else Inr ()))"

definition resolv_target :: "str \<Rightarrow> str" where
  "resolv_target host_port =
     (if host_port \<noteq> [] \<and> hd host_port = CHR ''['' \<and> CHR '']'' \<in> set host_port then
        (let after_bracket = tl (dropWhile (\<lambda>c. c \<noteq> CHR '']'') host_port) in
         if starts_with after_bracket '':'' then host_port else host_port @ '':80'')
      else if CHR '':'' \<in> set host_port then host_port
      else host_port @ '':80'')"

fun check_addrs :: "bool \<Rightarrow> IpAddr list \<Rightarrow> UrlError + unit" where
  "check_addrs allow_loopback [] = Inr ()"
| "check_addrs allow_loopback (ip # addrs) =
     (if is_private ip \<and> \<not> is_loopback ip then Inl (ResolvesPrivate ip)
      else if is_loopback ip \<and> \<not> allow_loopback then Inl (ResolvesLoopback ip)
      else check_addrs allow_loopback addrs)"

definition validate_url_dns_with :: "(str \<Rightarrow> IpAddr list option) \<Rightarrow> str \<Rightarrow> bool \<Rightarrow> UrlError + unit" where
  "validate_url_dns_with resolve url allow_loopback =
     (case split_once_at ''://'' (to_ascii_lowercase url) of
        None \<Rightarrow> Inl MissingScheme
      | Some (_, rest) \<Rightarrow>
          (case resolve (resolv_target (host_port_of rest)) of
             None \<Rightarrow> Inr ()
           | Some addrs \<Rightarrow> check_addrs allow_loopback addrs))"


subsection \<open>Subscriptions\<close>

record SubscriptionRow =
  sr_id :: str
  sr_url :: str
  sr_events :: str
  sr_secret_hash :: "str option"
  sr_namespace_filter :: "str option"
  sr_agent_filter :: "str option"
  sr_created_by :: "str option"
  sr_created_at :: str
  sr_last_dispatched_at :: "str option"
  sr_dispatch_count :: int
  sr_failure_count :: int
  sr_event_types :: "str option"

record Subscription =
  sb_id :: str
  sb_url :: str
  sb_events :: str
  sb_namespace_filter :: "str option"
  sb_agent_filter :: "str option"
  sb_created_by :: "str option"
  sb_created_at :: str
  sb_dispatch_count :: int
  sb_failure_count :: int
  sb_event_types :: "str list option"

record NewSubscription =
  ns_url :: str
  ns_events :: str
  ns_secret :: "str option"
  ns_namespace_filter :: "str option"
  ns_agent_filter :: "str option"
  ns_created_by :: "str option"
  ns_event_types :: "str list option"

definition WEBHOOK_EVENT_TYPES :: "str list" where
  "WEBHOOK_EVENT_TYPES = [''memory_store'', ''memory_promote'', ''memory_delete'', ''memory_link_created'',
     ''memory_link_invalidated'', ''memory_consolidated'', ''approval_requested'']"

record SubscriptionEvent =
  ev_id :: nat
  ev_subscription_id :: str
  ev_correlation_id :: str
  ev_event_type :: str
  ev_payload :: str
  ev_delivered_at :: str
  ev_delivery_status :: str

datatype SendError = SsrfRejected UrlError | DnsRejected UrlError | ClientBuild | NetworkFailed | HttpStatus nat
  | AckRead | AckDecode | AckStatus str | AckCorrMismatch str

record DlqEntry =
  dq_id :: nat
  dq_subscription_id :: str
  dq_correlation_id :: str
  dq_event_type :: str
  dq_payload :: str
  dq_retry_count :: nat
  dq_last_error :: "SendError option"
  dq_first_failed_at :: str
  dq_last_failed_at :: str

text \<open>The three tables; the last two have \<open>AUTOINCREMENT\<close> keys, whose next value is part of the state.\<close>

record sub_db =
  sd_subscriptions :: "SubscriptionRow list"
  sd_events :: "SubscriptionEvent list"
  sd_next_event :: nat
  sd_dlq :: "DlqEntry list"
  sd_next_dlq :: nat

text \<open>
  What the libraries provide: SHA-256, and the JSON text of a list of strings and of a payload with its parser.
\<close>

record sub_lib =
  sl_sha256 :: "8 word list \<Rightarrow> 8 word list"
  sl_list_json :: "str list \<Rightarrow> str"
  sl_list_of_json :: "str \<Rightarrow> str list option"
  sl_to_json :: "json \<Rightarrow> str"
  sl_of_json :: "str \<Rightarrow> json option"

definition sha256_hex :: "sub_lib \<Rightarrow> str \<Rightarrow> str" where
  "sha256_hex L s = hex_encode (sl_sha256 L (as_bytes s))"

datatype SubError = BadUrl UrlError | UnknownEventType str | SubIdTaken

definition subscribe :: "sub_lib \<Rightarrow> bool \<Rightarrow> str \<Rightarrow> str \<Rightarrow> sub_db \<Rightarrow> NewSubscription \<Rightarrow> (SubError + str) \<times> sub_db" where
  "subscribe L allow_loopback new_id now db req =
     (case validate_url_with (ns_url req) allow_loopback of
        Inl e \<Rightarrow> (Inl (BadUrl e), db)
      | Inr _ \<Rightarrow>
          (case (case ns_event_types req of Some evs \<Rightarrow> find (\<lambda>ev. ev \<notin> set WEBHOOK_EVENT_TYPES) evs | None \<Rightarrow> None) of
             Some ev \<Rightarrow> (Inl (UnknownEventType ev), db)
           | None \<Rightarrow>
               if list_ex (\<lambda>r. sr_id r = new_id) (sd_subscriptions db) then (Inl SubIdTaken, db)
               else
                 (Inr new_id,
                  db\<lparr>sd_subscriptions := sd_subscriptions db @
                      [\<lparr>sr_id = new_id, sr_url = ns_url req,
                        sr_events = (case ns_event_types req of Some evs \<Rightarrow> join CHR '','' evs | None \<Rightarrow> ns_events req),
                        sr_secret_hash = map_option (sha256_hex L) (ns_secret req),
                        sr_namespace_filter = ns_namespace_filter req, sr_agent_filter = ns_agent_filter req,
                        sr_created_by = ns_created_by req, sr_created_at = now, sr_last_dispatched_at = None,
                        sr_dispatch_count = 0, sr_failure_count = 0,
                        sr_event_types = map_option (sl_list_json L) (ns_event_types req)\<rparr>]\<rparr>)))"

definition unsubscribe :: "sub_db \<Rightarrow> str \<Rightarrow> bool \<times> sub_db" where
  "unsubscribe db i =
     (sql_count (\<lambda>r. sr_id r = i) (sd_subscriptions db) > 0,
      db\<lparr>sd_subscriptions := sql_delete (\<lambda>r. sr_id r = i) (sd_subscriptions db)\<rparr>)"

definition sub_of_row :: "sub_lib \<Rightarrow> SubscriptionRow \<Rightarrow> Subscription" where
  "sub_of_row L r =
     \<lparr>sb_id = sr_id r, sb_url = sr_url r, sb_events = sr_events r, sb_namespace_filter = sr_namespace_filter r,
      sb_agent_filter = sr_agent_filter r, sb_created_by = sr_created_by r, sb_created_at = sr_created_at r,
      sb_dispatch_count = sr_dispatch_count r, sb_failure_count = sr_failure_count r,
      sb_event_types = Option.bind (sr_event_types r) (sl_list_of_json L)\<rparr>"

definition newest_first :: "SubscriptionRow \<Rightarrow> SubscriptionRow \<Rightarrow> bool" where
  "newest_first a b = (sr_created_at b < sr_created_at a)"

definition list_subscriptions :: "sub_lib \<Rightarrow> sub_db \<Rightarrow> Subscription list" where
  "list_subscriptions L db = map (sub_of_row L) (order_by newest_first (sd_subscriptions db))"

definition list_by_event :: "sub_lib \<Rightarrow> sub_db \<Rightarrow> str \<Rightarrow> Subscription list" where
  "list_by_event L db event_type =
     filter (\<lambda>s. case sb_event_types s of None \<Rightarrow> True | Some evs \<Rightarrow> event_type \<in> set evs)
       (map (sub_of_row L)
         (order_by newest_first
           (filter (\<lambda>r. case sr_event_types r of None \<Rightarrow> True | Some t \<Rightarrow> sql_like_plain t (''%'' @ event_type @ ''%''))
             (sd_subscriptions db))))"

definition matches_filters ::
    "str \<Rightarrow> str list option \<Rightarrow> str option \<Rightarrow> str option \<Rightarrow> str \<Rightarrow> str \<Rightarrow> str option \<Rightarrow> bool" where
  "matches_filters sub_events sub_event_types sub_namespace sub_agent event namespace agent =
     ((case sub_event_types of
         Some evs \<Rightarrow> event \<in> set evs
       | None \<Rightarrow> sub_events = ''*'' \<or> list_ex (\<lambda>e. trim e = event \<or> trim e = ''*'') (split_on CHR '','' sub_events))
      \<and> (case sub_namespace of Some ns \<Rightarrow> ns = [] \<or> ns = namespace | None \<Rightarrow> True)
      \<and> (case sub_agent of Some fl \<Rightarrow> fl = [] \<or> agent = Some fl | None \<Rightarrow> True))"


subsection \<open>Signing\<close>

text \<open>\<open>u8::from_str_radix\<close> of two characters: a leading plus sign is allowed.\<close>

definition byte_of_hex :: "char \<Rightarrow> char \<Rightarrow> 8 word option" where
  "byte_of_hex a b =
     (if a = CHR ''+'' then map_option word_of_nat (digit_of 16 b)
      else case (digit_of 16 a, digit_of 16 b) of
        (Some x, Some y) \<Rightarrow> Some (word_of_nat (x * 16 + y))
      | _ \<Rightarrow> None)"

fun hex_decode_opt :: "str \<Rightarrow> 8 word list option" where
  "hex_decode_opt [] = Some []"
| "hex_decode_opt [a] = None"
| "hex_decode_opt (a # b # s) =
     (case (byte_of_hex a b, hex_decode_opt s) of (Some x, Some xs) \<Rightarrow> Some (x # xs) | _ \<Rightarrow> None)"

definition hmac_sha256_hex :: "sub_lib \<Rightarrow> str \<Rightarrow> str \<Rightarrow> str" where
  "hmac_sha256_hex L key_hex body =
     (let raw = (case hex_decode_opt key_hex of Some k \<Rightarrow> k | None \<Rightarrow> as_bytes key_hex);
          short = (if length raw > 64 then sl_sha256 L raw else raw);
          key = take 64 short @ replicate (64 - length short) 0;
          opad = map (\<lambda>k. xor 0x5c k) key;
          ipad = map (\<lambda>k. xor 0x36 k) key
      in hex_encode (sl_sha256 L (opad @ sl_sha256 L (ipad @ as_bytes body))))"

subsection \<open>One delivery\<close>

record HttpRequest =
  hr_url :: str
  hr_body :: str
  hr_timestamp :: str
  hr_correlation_id :: str
  hr_signature :: "str option"

text \<open>The answer to a POST: a network error, or a status with the text of the body, which may fail to be read.\<close>

datatype HttpOutcome = HttpFailed | HttpAnswer nat "str option"

text \<open>
  The surroundings of one delivery. Every attempt may find another resolver answer and another receiver answer, and
  reads the clock anew. The HTTP client is built without a redirect policy, so it follows redirects by itself: the requests
  it makes on the way are \<open>de_redirects\<close>, and \<open>de_post\<close> is the last answer.
\<close>

record delivery_env =
  de_correlation :: str
  de_delivered_at :: str
  de_recorded_at :: str
  de_dispatched_at :: str
  de_failed_at :: "nat \<Rightarrow> str"
  de_resolve :: "nat \<Rightarrow> str \<Rightarrow> IpAddr list option"
  de_client :: "nat \<Rightarrow> bool"
  de_post :: "nat \<Rightarrow> HttpRequest \<Rightarrow> HttpOutcome"
  de_redirects :: "nat \<Rightarrow> HttpRequest \<Rightarrow> HttpRequest list"

definition ack_field :: "json \<Rightarrow> str \<Rightarrow> str" where
  "ack_field ack k = (case json_get ack k of Some (JStr s) \<Rightarrow> s | _ \<Rightarrow> [])"

definition check_ack :: "sub_lib \<Rightarrow> str \<Rightarrow> HttpOutcome \<Rightarrow> SendError + unit" where
  "check_ack L correlation_id out =
     (case out of
        HttpFailed \<Rightarrow> Inl NetworkFailed
      | HttpAnswer status body \<Rightarrow>
          if \<not> (200 \<le> status \<and> status < 300) then Inl (HttpStatus status)
          else (case body of
            None \<Rightarrow> Inl AckRead
          | Some text \<Rightarrow>
              (case sl_of_json L text of
                 None \<Rightarrow> Inl AckDecode
               | Some ack \<Rightarrow>
                   if ack_field ack ''status'' \<noteq> ''ack'' then Inl (AckStatus (ack_field ack ''status''))
                   else if ack_field ack ''correlation_id'' \<noteq> correlation_id
                     then Inl (AckCorrMismatch (ack_field ack ''correlation_id''))
                   else Inr ())))"

text \<open>\<open>send\<close>: the result of an attempt and the requests it put on the wire.\<close>

definition send :: "sub_lib \<Rightarrow> bool \<Rightarrow> delivery_env \<Rightarrow> nat \<Rightarrow> HttpRequest \<Rightarrow> (SendError + unit) \<times> HttpRequest list" where
  "send L allow_loopback env attempt req =
     (case validate_url_with (hr_url req) allow_loopback of
        Inl e \<Rightarrow> (Inl (SsrfRejected e), [])
      | Inr _ \<Rightarrow>
          (case validate_url_dns_with (de_resolve env attempt) (hr_url req) allow_loopback of
             Inl e \<Rightarrow> (Inl (DnsRejected e), [])
           | Inr _ \<Rightarrow>
               if \<not> de_client env attempt then (Inl ClientBuild, [])
               else (check_ack L (hr_correlation_id req) (de_post env attempt req), req # de_redirects env attempt req)))"

definition RETRY_BACKOFFS :: "nat list" where
  "RETRY_BACKOFFS = [200, 1000, 5000]"

definition ACK_TIMEOUT :: nat where "ACK_TIMEOUT = 5000"

record DeliveryOutcome =
  do_success :: bool
  do_attempts :: nat
  do_last_error :: "SendError option"
  do_first_failed_at :: str
  do_last_failed_at :: str

text \<open>
  The loop over \<open>0..=RETRY_BACKOFFS.len()\<close> from attempt \<open>i\<close> with \<open>n\<close> attempts left. The outcome so far has the
  attempts that failed; the second component is the requests sent so far, the third the milliseconds slept.
\<close>

fun retry_from ::
    "sub_lib \<Rightarrow> bool \<Rightarrow> delivery_env \<Rightarrow> HttpRequest \<Rightarrow> nat \<Rightarrow> nat \<Rightarrow> DeliveryOutcome \<times> HttpRequest list \<times> nat
      \<Rightarrow> DeliveryOutcome \<times> HttpRequest list \<times> nat" where
  "retry_from L lo env req i 0 acc = acc"
| "retry_from L lo env req i (Suc n) (out, sent, slept) =
     (let slept' = slept + (if i > 0 then RETRY_BACKOFFS ! (i - 1) else 0);
          attempts = do_attempts out + 1
      in case send L lo env i req of
           (Inr _, reqs) \<Rightarrow>
             (out\<lparr>do_success := True, do_attempts := attempts, do_last_error := None\<rparr>, sent @ reqs, slept')
         | (Inl e, reqs) \<Rightarrow>
             retry_from L lo env req (Suc i) n
               (out\<lparr>do_attempts := attempts, do_last_error := Some e,
                    do_first_failed_at := (if do_first_failed_at out = [] then de_failed_at env i else do_first_failed_at out),
                    do_last_failed_at := de_failed_at env i\<rparr>, sent @ reqs, slept'))"

definition deliver_with_retry ::
    "sub_lib \<Rightarrow> bool \<Rightarrow> delivery_env \<Rightarrow> HttpRequest \<Rightarrow> DeliveryOutcome \<times> HttpRequest list \<times> nat" where
  "deliver_with_retry L allow_loopback env req =
     retry_from L allow_loopback env req 0 (length RETRY_BACKOFFS + 1)
       (\<lparr>do_success = False, do_attempts = 0, do_last_error = None, do_first_failed_at = [], do_last_failed_at = []\<rparr>, [], 0)"

subsection \<open>The event log and the dead-letter queue\<close>

definition record_subscription_event :: "str \<Rightarrow> str \<Rightarrow> str \<Rightarrow> str \<Rightarrow> str \<Rightarrow> sub_db \<Rightarrow> sub_db" where
  "record_subscription_event now sub_id correlation_id event_type payload db =
     db\<lparr>sd_events := sd_events db @
          [\<lparr>ev_id = sd_next_event db, ev_subscription_id = sub_id, ev_correlation_id = correlation_id,
            ev_event_type = event_type, ev_payload = payload, ev_delivered_at = now,
            ev_delivery_status = ''pending''\<rparr>],
        sd_next_event := sd_next_event db + 1\<rparr>"

definition load_secret_hash :: "sub_db \<Rightarrow> str \<Rightarrow> str option option" where
  "load_secret_hash db sub_id = map_option sr_secret_hash (sql_row (\<lambda>r. sr_id r = sub_id) (sd_subscriptions db))"

definition update_event_status :: "str \<Rightarrow> bool \<Rightarrow> sub_db \<Rightarrow> sub_db" where
  "update_event_status correlation_id ok db =
     db\<lparr>sd_events := sql_update (\<lambda>e. ev_correlation_id e = correlation_id)
          (\<lambda>e. e\<lparr>ev_delivery_status := (if ok then ''ack'' else ''failed'')\<rparr>) (sd_events db)\<rparr>"

definition record_dispatch :: "str \<Rightarrow> str \<Rightarrow> bool \<Rightarrow> sub_db \<Rightarrow> sub_db" where
  "record_dispatch now sub_id ok db =
     db\<lparr>sd_subscriptions := sql_update (\<lambda>r. sr_id r = sub_id)
          (\<lambda>r. r\<lparr>sr_dispatch_count := sr_dispatch_count r + 1,
                 sr_failure_count := (if ok then sr_failure_count r else sr_failure_count r + 1),
                 sr_last_dispatched_at := Some now\<rparr>) (sd_subscriptions db)\<rparr>"

definition record_dlq :: "str \<Rightarrow> str \<Rightarrow> str \<Rightarrow> str \<Rightarrow> DeliveryOutcome \<Rightarrow> sub_db \<Rightarrow> sub_db" where
  "record_dlq sub_id correlation_id event_type payload out db =
     db\<lparr>sd_dlq := sd_dlq db @
          [\<lparr>dq_id = sd_next_dlq db, dq_subscription_id = sub_id, dq_correlation_id = correlation_id,
            dq_event_type = event_type, dq_payload = payload, dq_retry_count = do_attempts out,
            dq_last_error = do_last_error out, dq_first_failed_at = do_first_failed_at out,
            dq_last_failed_at = do_last_failed_at out\<rparr>],
        sd_next_dlq := sd_next_dlq db + 1\<rparr>"

definition list_dlq :: "sub_db \<Rightarrow> str option \<Rightarrow> DlqEntry list" where
  "list_dlq db subscription_id =
     order_by (\<lambda>a b. dq_id a < dq_id b)
       (filter (\<lambda>d. case subscription_id of Some s \<Rightarrow> dq_subscription_id d = s | None \<Rightarrow> True) (sd_dlq db))"

definition event_before :: "SubscriptionEvent \<Rightarrow> SubscriptionEvent \<Rightarrow> bool" where
  "event_before a b =
     (ev_delivered_at a < ev_delivered_at b \<or> ev_delivered_at a = ev_delivered_at b \<and> ev_id a < ev_id b)"

definition replay_subscription_events :: "sub_db \<Rightarrow> str \<Rightarrow> str \<Rightarrow> SubscriptionEvent list" where
  "replay_subscription_events db subscription_id since =
     order_by event_before
       (filter (\<lambda>e. ev_subscription_id e = subscription_id \<and> since \<le> ev_delivered_at e) (sd_events db))"


subsection \<open>Dispatch\<close>

text \<open>The payload in field order: the envelope, then the details, which are flattened into it.\<close>

definition dispatch_payload :: "str \<Rightarrow> str \<Rightarrow> str \<Rightarrow> str option \<Rightarrow> str \<Rightarrow> str \<Rightarrow> (str \<times> json) list option \<Rightarrow> (str \<times> json) list" where
  "dispatch_payload event memory_id namespace agent_id delivered_at correlation_id details =
     [(''event'', JStr event), (''memory_id'', JStr memory_id), (''namespace'', JStr namespace),
      (''agent_id'', case agent_id of Some a \<Rightarrow> JStr a | None \<Rightarrow> JNull), (''delivered_at'', JStr delivered_at),
      (''correlation_id'', JStr correlation_id)]
     @ (case details of Some d \<Rightarrow> d | None \<Rightarrow> [])"

record job =
  jb_sub_id :: str
  jb_url :: str
  jb_event :: str
  jb_body :: str
  jb_timestamp :: str
  jb_env :: delivery_env

text \<open>The loop of \<open>dispatch_event_with_details\<close>: one worker for each matching subscription, in the order of the list.\<close>

definition dispatch_jobs ::
    "sub_lib \<Rightarrow> (nat \<Rightarrow> delivery_env) \<Rightarrow> str \<Rightarrow> sub_db \<Rightarrow> str \<Rightarrow> str \<Rightarrow> str \<Rightarrow> str option \<Rightarrow> (str \<times> json) list option \<Rightarrow> job list" where
  "dispatch_jobs L envs timestamp db event memory_id namespace agent_id details =
     (let matching = filter (\<lambda>s. matches_filters (sb_events s) (sb_event_types s) (sb_namespace_filter s)
            (sb_agent_filter s) event namespace agent_id) (list_subscriptions L db)
      in map (\<lambda>(n, s).
           \<lparr>jb_sub_id = sb_id s, jb_url = sb_url s, jb_event = event,
            jb_body = sl_to_json L (JObj (dispatch_payload event memory_id namespace agent_id
              (de_delivered_at (envs n)) (de_correlation (envs n)) details)),
            jb_timestamp = timestamp, jb_env = envs n\<rparr>)
         (zip [0..<length matching] matching))"

definition signature_of :: "sub_lib \<Rightarrow> str option \<Rightarrow> str option \<Rightarrow> str \<Rightarrow> str option" where
  "signature_of L server_secret secret_hash message =
     (case secret_hash of
        Some h \<Rightarrow> Some (hmac_sha256_hex L h message)
      | None \<Rightarrow> map_option (\<lambda>plain. hmac_sha256_hex L (sha256_hex L plain) message) server_secret)"

definition job_request :: "sub_lib \<Rightarrow> str option \<Rightarrow> job \<Rightarrow> str option \<Rightarrow> HttpRequest" where
  "job_request L server_secret j secret_hash =
     \<lparr>hr_url = jb_url j, hr_body = jb_body j, hr_timestamp = jb_timestamp j,
      hr_correlation_id = de_correlation (jb_env j),
      hr_signature = signature_of L server_secret secret_hash (jb_timestamp j @ ''.'' @ jb_body j)\<rparr>"

text \<open>What the thread of a delivery does: its effect on the tables and the requests it sends.\<close>

definition run_job :: "sub_lib \<Rightarrow> bool \<Rightarrow> str option \<Rightarrow> job \<Rightarrow> sub_db \<Rightarrow> sub_db \<times> HttpRequest list" where
  "run_job L allow_loopback server_secret j db =
     (let env = jb_env j; corr = de_correlation env;
          db1 = record_subscription_event (de_recorded_at env) (jb_sub_id j) corr (jb_event j) (jb_body j) db
      in case load_secret_hash db1 (jb_sub_id j) of
           None \<Rightarrow> (db1, [])
         | Some secret_hash \<Rightarrow>
             (case deliver_with_retry L allow_loopback env (job_request L server_secret j secret_hash) of
                (out, sent, _) \<Rightarrow>
                  let db2 = record_dispatch (de_dispatched_at env) (jb_sub_id j) (do_success out) db1;
                      db3 = update_event_status corr (do_success out) db2
                  in (if do_success out then db3
                      else record_dlq (jb_sub_id j) corr (jb_event j) (jb_body j) out db3, sent)))"

definition approval_details :: "PendingAction \<Rightarrow> (str \<times> json) list" where
  "approval_details pa =
     [(''action_type'', JStr (pa_action_type pa)), (''requested_at'', JStr (pa_requested_at pa))]
     @ (case pa_memory_id pa of Some m \<Rightarrow> [(''memory_id'', JStr m)] | None \<Rightarrow> [])
     @ [(''status'', JStr (pa_status pa))]"

definition dispatch_approval_requested ::
    "sub_lib \<Rightarrow> (nat \<Rightarrow> delivery_env) \<Rightarrow> str \<Rightarrow> Db \<Rightarrow> sub_db \<Rightarrow> str \<Rightarrow> job list" where
  "dispatch_approval_requested L envs timestamp store db pending_id =
     (case get_pending_action store pending_id of
        None \<Rightarrow> []
      | Some pa \<Rightarrow>
          dispatch_jobs L envs timestamp db ''approval_requested'' (pa_id pa) (pa_namespace pa)
            (Some (pa_requested_by pa)) (Some (approval_details pa)))"

section \<open>The guard\<close>

text \<open>The addresses that must not be contacted.\<close>

definition internal :: "bool \<Rightarrow> IpAddr \<Rightarrow> bool" where
  "internal allow_loopback ip = (if is_loopback ip then \<not> allow_loopback else is_private ip)"

lemma check_addrs_ok: "check_addrs allow_loopback addrs = Inr () \<longleftrightarrow> list_all (\<lambda>ip. \<not> internal allow_loopback ip) addrs"
  by (induction addrs) (auto simp: internal_def)

lemma validate_url_ok:
  assumes "validate_url_with url allow_loopback = Inr ()"
  obtains scheme rest host where "split_once_at ''://'' (to_ascii_lowercase url) = Some (scheme, rest)"
    "scheme = ''https'' \<or> scheme = ''http''" "url_host (host_port_of rest) = Some host"
    "case parse_ip host of Some ip \<Rightarrow> \<not> internal allow_loopback ip | None \<Rightarrow> scheme = ''https'' \<or> allow_loopback"
    "allow_loopback \<or> host \<notin> {''localhost'', ''localhost.localdomain'', []}"
proof -
  note run = assms [unfolded validate_url_with_def]
  obtain scheme rest where s: "split_once_at ''://'' (to_ascii_lowercase url) = Some (scheme, rest)"
    using run by (cases "split_once_at ''://'' (to_ascii_lowercase url)") auto
  have "scheme = ''https'' \<or> scheme = ''http''" using run s by (simp split: if_splits)
  moreover obtain host where h: "url_host (host_port_of rest) = Some host"
    using run s by (cases "url_host (host_port_of rest)") (auto split: if_splits)
  moreover have "case parse_ip host of Some ip \<Rightarrow> \<not> internal allow_loopback ip | None \<Rightarrow> scheme = ''https'' \<or> allow_loopback"
    using run s h by (cases "parse_ip host") (auto simp: Let_def internal_def split: if_splits)
  moreover have "allow_loopback \<or> host \<notin> {''localhost'', ''localhost.localdomain'', []}"
    using run s h by (auto simp: Let_def split: if_splits)
  ultimately show thesis using that s by blast
qed

lemma send_request:
  assumes "send L allow_loopback env attempt req = (res, reqs)" "reqs \<noteq> []"
  shows "reqs = req # de_redirects env attempt req \<and> validate_url_with (hr_url req) allow_loopback = Inr ()
    \<and> validate_url_dns_with (de_resolve env attempt) (hr_url req) allow_loopback = Inr ()"
  using assms unfolding send_def
  by (cases "validate_url_with (hr_url req) allow_loopback"; cases "validate_url_dns_with (de_resolve env attempt) (hr_url req) allow_loopback")
    (auto split: if_splits)


section \<open>Delivery\<close>

definition acked :: "sub_lib \<Rightarrow> bool \<Rightarrow> delivery_env \<Rightarrow> HttpRequest \<Rightarrow> bool" where
  "acked L allow_loopback env req = list_ex (\<lambda>i. fst (send L allow_loopback env i req) = Inr ()) [0..<4]"

definition sent_at :: "sub_lib \<Rightarrow> bool \<Rightarrow> delivery_env \<Rightarrow> HttpRequest \<Rightarrow> nat \<Rightarrow> HttpRequest list" where
  "sent_at L allow_loopback env req i = snd (send L allow_loopback env i req)"

text \<open>
  The ladder from attempt \<open>i\<close> on: it stops at the first attempt that is acknowledged. \<open>k\<close> is the number of attempts it makes.
\<close>

lemma retry_from_spec:
  assumes "retry_from L lo env req i n (out, sent, slept) = (out', sent', slept')" "\<not> do_success out"
  shows "\<exists>k \<le> n. do_attempts out' = do_attempts out + k
     \<and> sent' = sent @ concat (map (sent_at L lo env req) [i..<i + k])
     \<and> slept' = slept + sum_list (map (\<lambda>a. if a > 0 then RETRY_BACKOFFS ! (a - 1) else 0) [i..<i + k])
     \<and> (if do_success out' then k > 0 \<and> fst (send L lo env (i + k - 1) req) = Inr ()
        else k = n \<and> (\<forall>a \<in> {i..<i + n}. fst (send L lo env a req) \<noteq> Inr ()))"
  using assms
proof (induction n arbitrary: i out sent slept)
  case 0
  then show ?case by (intro exI [of _ 0]) auto
next
  case (Suc n)
  obtain res reqs where s: "send L lo env i req = (res, reqs)" by fastforce
  show ?case
  proof (cases res)
    case (Inr u)
    with Suc.prems(1) s show ?thesis
      by (intro exI [of _ 1]) (auto simp: Let_def sent_at_def)
  next
    case (Inl e)
    define out1 where "out1 = out\<lparr>do_attempts := do_attempts out + 1, do_last_error := Some e,
      do_first_failed_at := (if do_first_failed_at out = [] then de_failed_at env i else do_first_failed_at out),
      do_last_failed_at := de_failed_at env i\<rparr>"
    define sent1 where "sent1 = sent @ sent_at L lo env req i"
    define slept1 where "slept1 = slept + (if i > 0 then RETRY_BACKOFFS ! (i - 1) else 0)"
    have st: "retry_from L lo env req (Suc i) n (out1, sent1, slept1) = (out', sent', slept')"
        "do_attempts out1 = do_attempts out + 1" "\<not> do_success out1"
      using Suc.prems s Inl by (simp_all add: Let_def sent_at_def out1_def sent1_def slept1_def)
    obtain k where k: "k \<le> n" "do_attempts out' = do_attempts out1 + k"
        "sent' = sent1 @ concat (map (sent_at L lo env req) [Suc i..<Suc i + k])"
        "slept' = slept1 + sum_list (map (\<lambda>a. if a > 0 then RETRY_BACKOFFS ! (a - 1) else 0) [Suc i..<Suc i + k])"
        "if do_success out' then k > 0 \<and> fst (send L lo env (Suc i + k - 1) req) = Inr ()
         else k = n \<and> (\<forall>a \<in> {Suc i..<Suc i + n}. fst (send L lo env a req) \<noteq> Inr ())"
      using Suc.IH [OF st(1,3)] by blast
    have up: "[i..<i + Suc k] = i # [Suc i..<Suc i + k]" by (simp add: upt_conv_Cons)
    have none: "fst (send L lo env i req) \<noteq> Inr ()" using s Inl by simp
    have "fst (send L lo env a req) \<noteq> Inr ()" if "\<not> do_success out'" "a \<in> {i..<i + Suc n}" for a
      using that k(5) none by (cases "a = i") auto
    with k st(2) sent1_def slept1_def up show ?thesis by (intro exI [of _ "Suc k"]) auto
  qed
qed

lemma small_upts:
  "[0..<1] = [0 :: nat]" "[0..<2] = [0, 1 :: nat]" "[0..<3] = [0, 1, 2 :: nat]" "[0..<4] = [0, 1, 2, 3 :: nat]"
  by (simp_all add: upt_conv_Cons)

lemma deliver_spec:
  assumes "deliver_with_retry L lo env req = (out, sent, slept)"
  shows "do_success out = acked L lo env req" "1 \<le> do_attempts out" "do_attempts out \<le> 4"
    "\<not> do_success out \<Longrightarrow> do_attempts out = 4" "slept \<le> 6200"
    "sent = concat (map (sent_at L lo env req) [0..<do_attempts out])"
proof -
  have len: "length RETRY_BACKOFFS + 1 = 4" by (simp add: RETRY_BACKOFFS_def)
  obtain k where k: "k \<le> 4" "do_attempts out = k" "sent = concat (map (sent_at L lo env req) [0..<k])"
      "slept = sum_list (map (\<lambda>a. if a > 0 then RETRY_BACKOFFS ! (a - 1) else 0) [0..<k])"
      "if do_success out then k > 0 \<and> fst (send L lo env (k - 1) req) = Inr ()
       else k = 4 \<and> (\<forall>a \<in> {0..<4}. fst (send L lo env a req) \<noteq> Inr ())"
    using retry_from_spec [OF assms [unfolded deliver_with_retry_def len]] unfolding add_0 by auto
  have bounds: "do_success out \<longrightarrow> k > 0" "\<not> do_success out \<longrightarrow> k = 4"
    using k(5) by (cases "do_success out"; simp)+
  show "do_success out = acked L lo env req"
  proof (cases "do_success out")
    case True
    with k(1,5) have "k - 1 \<in> set [0..<4]" "fst (send L lo env (k - 1) req) = Inr ()" by auto
    with True show ?thesis unfolding acked_def list_ex_iff by blast
  next
    case False
    with k(5) show ?thesis unfolding acked_def list_ex_iff by (metis atLeastLessThan_upt)
  qed
  show "1 \<le> do_attempts out" "do_attempts out \<le> 4" "\<not> do_success out \<Longrightarrow> do_attempts out = 4"
    using k(1,2) bounds by linarith+
  show "sent = concat (map (sent_at L lo env req) [0..<do_attempts out])" using k(2,3) by simp
  have "k \<in> {0, 1, 2, 3, 4}" using k(1) by auto
  then show "slept \<le> 6200" using k(4) by (elim insertE) (simp_all add: small_upts RETRY_BACKOFFS_def)
qed

text \<open>
  A target that may be contacted: the URL has an http scheme, its host is no loopback name and no internal address, and no
  internal address is among those the resolver returns for it at the given attempt.
\<close>

definition target_guarded :: "bool \<Rightarrow> delivery_env \<Rightarrow> HttpRequest \<Rightarrow> nat \<Rightarrow> bool" where
  "target_guarded allow_loopback env req attempt =
     (\<exists>scheme rest host. split_once_at ''://'' (to_ascii_lowercase (hr_url req)) = Some (scheme, rest)
        \<and> (scheme = ''https'' \<or> scheme = ''http'') \<and> url_host (host_port_of rest) = Some host
        \<and> (allow_loopback \<or> host \<notin> {''localhost'', ''localhost.localdomain'', []})
        \<and> (\<forall>ip. parse_ip host = Some ip \<longrightarrow> \<not> internal allow_loopback ip)
        \<and> (\<forall>addrs. de_resolve env attempt (resolv_target (host_port_of rest)) = Some addrs \<longrightarrow>
              list_all (\<lambda>ip. \<not> internal allow_loopback ip) addrs))"

lemma sent_at_guarded:
  assumes "sent_at L allow_loopback env req attempt \<noteq> []"
  shows "sent_at L allow_loopback env req attempt = req # de_redirects env attempt req \<and> target_guarded allow_loopback env req attempt"
proof -
  have v: "validate_url_with (hr_url req) allow_loopback = Inr ()"
      "validate_url_dns_with (de_resolve env attempt) (hr_url req) allow_loopback = Inr ()"
      "sent_at L allow_loopback env req attempt = req # de_redirects env attempt req"
    using assms send_request [of L allow_loopback env attempt req] by (auto simp: sent_at_def prod_eq_iff)
  obtain scheme rest host where u: "split_once_at ''://'' (to_ascii_lowercase (hr_url req)) = Some (scheme, rest)"
      "scheme = ''https'' \<or> scheme = ''http''" "url_host (host_port_of rest) = Some host"
      "case parse_ip host of Some ip \<Rightarrow> \<not> internal allow_loopback ip | None \<Rightarrow> scheme = ''https'' \<or> allow_loopback"
      "allow_loopback \<or> host \<notin> {''localhost'', ''localhost.localdomain'', []}"
    by (rule validate_url_ok [OF v(1)])
  have "list_all (\<lambda>ip. \<not> internal allow_loopback ip) addrs"
    if "de_resolve env attempt (resolv_target (host_port_of rest)) = Some addrs" for addrs
    using v(2) u(1) that by (simp add: validate_url_dns_with_def check_addrs_ok)
  with u v(3) show ?thesis unfolding target_guarded_def
    by (intro conjI exI [of _ scheme] exI [of _ rest] exI [of _ host]) auto
qed

text \<open>The client follows at most ten redirects.\<close>

definition redirects_limited :: "delivery_env \<Rightarrow> bool" where
  "redirects_limited env = (\<forall>attempt req. length (de_redirects env attempt req) \<le> 10)"

lemma sent_length: "redirects_limited env \<Longrightarrow> length (sent_at L lo env req attempt) \<le> 11"
  using sent_at_guarded [of L lo env req attempt]
  by (cases "sent_at L lo env req attempt") (auto simp: redirects_limited_def)

lemma concat_length_le: "(\<And>x. length (f x) \<le> n) \<Longrightarrow> length (concat (map f xs)) \<le> length xs * n"
  by (induction xs) (simp_all add: add_mono)

text \<open>C19: Deliveries start only at guarded targets. A delivery makes at most four attempts and waits at most 6.2 seconds in
  between. In every attempt it sends nothing, or first a request to the URL of the subscription while that target is guarded:
  the URL has an http scheme, its host is no loopback name and no internal address, and no internal address is among those the
  resolver returned in that attempt. Whatever else is sent are the redirects the client follows from there, which no guard
  sees. With a client that follows at most ten redirects a delivery sends at most 44 requests.\<close>

theorem webhook_requests_guarded:
  assumes "deliver_with_retry L allow_loopback env req = (out, sent, slept)"
  shows "do_attempts out \<le> 4 \<and> slept \<le> 6200
    \<and> sent = concat (map (sent_at L allow_loopback env req) [0..<do_attempts out])
    \<and> list_all (\<lambda>attempt. sent_at L allow_loopback env req attempt = []
        \<or> sent_at L allow_loopback env req attempt = req # de_redirects env attempt req
          \<and> target_guarded allow_loopback env req attempt)
        [0..<do_attempts out]
    \<and> (redirects_limited env \<longrightarrow> length sent \<le> 44)"
proof -
  note spec = deliver_spec [OF assms]
  have "length sent \<le> 44" if "redirects_limited env"
  proof -
    have "length sent \<le> do_attempts out * 11"
      unfolding spec(6) using concat_length_le [of "sent_at L allow_loopback env req" 11 "[0..<do_attempts out]"] sent_length [OF that] by simp
    with spec(3) show ?thesis by simp
  qed
  with spec sent_at_guarded show ?thesis by (auto simp: list_all_iff)
qed

section \<open>Accounting for deliveries\<close>

definition run_jobs :: "sub_lib \<Rightarrow> bool \<Rightarrow> str option \<Rightarrow> job list \<Rightarrow> sub_db \<Rightarrow> sub_db" where
  "run_jobs L allow_loopback server_secret js db = fold (\<lambda>j db. fst (run_job L allow_loopback server_secret j db)) js db"

definition job_acked :: "sub_lib \<Rightarrow> bool \<Rightarrow> str option \<Rightarrow> sub_db \<Rightarrow> job \<Rightarrow> bool" where
  "job_acked L allow_loopback server_secret db j =
     (case load_secret_hash db (jb_sub_id j) of
        None \<Rightarrow> False
      | Some secret_hash \<Rightarrow> acked L allow_loopback (jb_env j) (job_request L server_secret j secret_hash))"

definition job_corr :: "job \<Rightarrow> str" where "job_corr j = de_correlation (jb_env j)"

definition job_event :: "sub_db \<Rightarrow> job \<Rightarrow> bool \<Rightarrow> SubscriptionEvent" where
  "job_event db j ok =
     \<lparr>ev_id = sd_next_event db, ev_subscription_id = jb_sub_id j, ev_correlation_id = job_corr j, ev_event_type = jb_event j,
      ev_payload = jb_body j, ev_delivered_at = de_recorded_at (jb_env j),
      ev_delivery_status = (if ok then ''ack'' else ''failed'')\<rparr>"

text \<open>What an entry of the queue says of the delivery.\<close>

definition dlq_for :: "job \<Rightarrow> DlqEntry \<Rightarrow> bool" where
  "dlq_for j d =
     (dq_subscription_id d = jb_sub_id j \<and> dq_correlation_id d = job_corr j \<and> dq_event_type d = jb_event j
      \<and> dq_payload d = jb_body j)"

lemma sql_row_update_keep:
  assumes "\<And>r. P (f r) = P r" "\<And>r. g (f r) = g r"
  shows "map_option g (sql_row P (sql_update Q f rows)) = map_option g (sql_row P rows)"
  using assms by (induction rows) (auto simp: sql_row_def sql_update_def)

lemma secret_hash_same:
  "load_secret_hash (record_subscription_event now s c ev p db) i = load_secret_hash db i"
  "load_secret_hash (record_dispatch now s ok db) i = load_secret_hash db i"
  "load_secret_hash (update_event_status c ok db) i = load_secret_hash db i"
  "load_secret_hash (record_dlq s c ev p out db) i = load_secret_hash db i"
  by (simp_all add: load_secret_hash_def record_subscription_event_def update_event_status_def record_dlq_def
      record_dispatch_def sql_row_update_keep)

lemma run_job_effect:
  assumes "load_secret_hash db (jb_sub_id j) \<noteq> None" "\<forall>e \<in> set (sd_events db). ev_correlation_id e \<noteq> job_corr j"
  shows "sd_events (fst (run_job L lo sec j db)) = sd_events db @ [job_event db j (job_acked L lo sec db j)]"
    and "\<exists>ds. sd_dlq (fst (run_job L lo sec j db)) = sd_dlq db @ ds \<and>
      (if job_acked L lo sec db j then ds = [] else \<exists>d. ds = [d] \<and> dlq_for j d)"
    and "load_secret_hash (fst (run_job L lo sec j db)) i = load_secret_hash db i"
proof -
  let ?env = "jb_env j"
  let ?db1 = "record_subscription_event (de_recorded_at ?env) (jb_sub_id j) (de_correlation ?env) (jb_event j) (jb_body j) db"
  obtain sh where sh: "load_secret_hash db (jb_sub_id j) = Some sh" using assms(1) by blast
  obtain out sent slept where d: "deliver_with_retry L lo ?env (job_request L sec j sh) = (out, sent, slept)"
    using prod_cases3 by blast
  note spec = deliver_spec [OF d]
  have ok: "job_acked L lo sec db j = do_success out" using sh spec(1) by (simp add: job_acked_def)
  define db3 where "db3 = update_event_status (job_corr j) (do_success out)
    (record_dispatch (de_dispatched_at ?env) (jb_sub_id j) (do_success out) ?db1)"
  have run: "fst (run_job L lo sec j db) =
      (if do_success out then db3 else record_dlq (jb_sub_id j) (job_corr j) (jb_event j) (jb_body j) out db3)"
    unfolding run_job_def using sh d by (simp add: Let_def secret_hash_same job_corr_def db3_def)
  have ev: "sd_events db3 = sd_events db @ [job_event db j (do_success out)]"
    using assms(2) by (simp add: db3_def update_event_status_def record_dispatch_def record_subscription_event_def sql_update_def
        job_event_def job_corr_def map_idI)
  have dl: "sd_dlq db3 = sd_dlq db" by (simp add: db3_def update_event_status_def record_dispatch_def record_subscription_event_def)
  show "sd_events (fst (run_job L lo sec j db)) = sd_events db @ [job_event db j (job_acked L lo sec db j)]"
    unfolding run ok using ev by (simp add: record_dlq_def)
  show "load_secret_hash (fst (run_job L lo sec j db)) i = load_secret_hash db i"
    unfolding run by (simp add: secret_hash_same db3_def)
  show "\<exists>ds. sd_dlq (fst (run_job L lo sec j db)) = sd_dlq db @ ds \<and>
      (if job_acked L lo sec db j then ds = [] else \<exists>d. ds = [d] \<and> dlq_for j d)"
    unfolding run ok using dl spec(4) by (cases "do_success out") (auto simp: record_dlq_def dlq_for_def)
qed


definition corr_events :: "str \<Rightarrow> sub_db \<Rightarrow> SubscriptionEvent list" where
  "corr_events c db = filter (\<lambda>e. ev_correlation_id e = c) (sd_events db)"

definition corr_dlq :: "str \<Rightarrow> sub_db \<Rightarrow> DlqEntry list" where
  "corr_dlq c db = filter (\<lambda>d. dq_correlation_id d = c) (sd_dlq db)"

lemma run_job_corr:
  assumes "load_secret_hash db (jb_sub_id j) \<noteq> None" "corr_events (job_corr j) db = []"
  shows "corr_events c (fst (run_job L lo sec j db)) =
      corr_events c db @ (if c = job_corr j then [job_event db j (job_acked L lo sec db j)] else [])"
    and "\<exists>ds. corr_dlq c (fst (run_job L lo sec j db)) = corr_dlq c db @ (if c = job_corr j then ds else []) \<and>
      (if job_acked L lo sec db j then ds = [] else \<exists>d. ds = [d] \<and> dlq_for j d)"
proof -
  have fresh: "\<forall>e \<in> set (sd_events db). ev_correlation_id e \<noteq> job_corr j"
    using assms(2) by (simp add: corr_events_def filter_empty_conv)
  note eff = run_job_effect [OF assms(1) fresh, of L lo sec]
  show "corr_events c (fst (run_job L lo sec j db)) =
      corr_events c db @ (if c = job_corr j then [job_event db j (job_acked L lo sec db j)] else [])"
    unfolding corr_events_def eff(1) by (simp add: job_event_def)
  obtain ds where ds: "sd_dlq (fst (run_job L lo sec j db)) = sd_dlq db @ ds"
      "if job_acked L lo sec db j then ds = [] else \<exists>d. ds = [d] \<and> dlq_for j d" using eff(2) by blast
  have "filter (\<lambda>d. dq_correlation_id d = c) ds = (if c = job_corr j then ds else [])"
    using ds(2) by (auto simp: dlq_for_def split: if_splits)
  with ds show "\<exists>ds. corr_dlq c (fst (run_job L lo sec j db)) = corr_dlq c db @ (if c = job_corr j then ds else []) \<and>
      (if job_acked L lo sec db j then ds = [] else \<exists>d. ds = [d] \<and> dlq_for j d)"
    unfolding corr_dlq_def by (intro exI [of _ ds]) simp
qed

text \<open>The record of one delivery: one event with its final status and, when it failed, one entry of the queue.\<close>

definition accounted :: "sub_lib \<Rightarrow> bool \<Rightarrow> str option \<Rightarrow> sub_db \<Rightarrow> sub_db \<Rightarrow> job \<Rightarrow> bool" where
  "accounted L lo sec db final j =
     ((\<exists>n. corr_events (job_corr j) final =
          [job_event (db\<lparr>sd_next_event := n\<rparr>) j (job_acked L lo sec db j)])
      \<and> (if job_acked L lo sec db j then corr_dlq (job_corr j) final = []
         else \<exists>d. corr_dlq (job_corr j) final = [d] \<and> dlq_for j d))"

lemma job_event_next: "\<exists>n. job_event db j ok = job_event (db0\<lparr>sd_next_event := n\<rparr>) j ok"
  by (intro exI [of _ "sd_next_event db"]) (simp add: job_event_def)

lemma run_jobs_accounted:
  assumes "distinct (map job_corr js)" "\<forall>j \<in> set js. load_secret_hash db (jb_sub_id j) \<noteq> None"
    and "\<forall>j \<in> set js. corr_events (job_corr j) db = [] \<and> corr_dlq (job_corr j) db = []"
  shows "(\<forall>j \<in> set js. accounted L lo sec db (run_jobs L lo sec js db) j)
    \<and> (\<forall>c. c \<notin> job_corr ` set js \<longrightarrow>
         corr_events c (run_jobs L lo sec js db) = corr_events c db \<and> corr_dlq c (run_jobs L lo sec js db) = corr_dlq c db)"
  using assms
proof (induction js arbitrary: db)
  case (Cons j js)
  let ?db1 = "fst (run_job L lo sec j db)"
  have j: "load_secret_hash db (jb_sub_id j) \<noteq> None" "corr_events (job_corr j) db = []" "corr_dlq (job_corr j) db = []"
    using Cons.prems by auto
  then have fresh: "\<forall>e \<in> set (sd_events db). ev_correlation_id e \<noteq> job_corr j"
    by (simp add: corr_events_def filter_empty_conv)
  have hash: "load_secret_hash ?db1 i = load_secret_hash db i" for i by (rule run_job_effect(3) [OF j(1) fresh])
  have same: "job_acked L lo sec ?db1 j' = job_acked L lo sec db j'" for j' by (simp add: job_acked_def hash)
  have other: "corr_events c ?db1 = corr_events c db \<and> corr_dlq c ?db1 = corr_dlq c db" if "c \<noteq> job_corr j" for c
    using run_job_corr [OF j(1,2), of c L lo sec] that by auto
  have IH: "(\<forall>j' \<in> set js. accounted L lo sec ?db1 (run_jobs L lo sec js ?db1) j')
    \<and> (\<forall>c. c \<notin> job_corr ` set js \<longrightarrow>
         corr_events c (run_jobs L lo sec js ?db1) = corr_events c ?db1 \<and> corr_dlq c (run_jobs L lo sec js ?db1) = corr_dlq c ?db1)"
    by (rule Cons.IH) (use Cons.prems hash other in \<open>auto simp: image_iff\<close>)
  have run: "run_jobs L lo sec (j # js) db = run_jobs L lo sec js ?db1" by (simp add: run_jobs_def)
  have last: "corr_events (job_corr j) (run_jobs L lo sec js ?db1) = corr_events (job_corr j) ?db1"
      "corr_dlq (job_corr j) (run_jobs L lo sec js ?db1) = corr_dlq (job_corr j) ?db1"
    using IH Cons.prems(1) by (auto simp: image_iff)
  have "accounted L lo sec db (run_jobs L lo sec (j # js) db) j"
    unfolding accounted_def run last
    using run_job_corr [OF j(1,2), of "job_corr j" L lo sec] j(2,3) job_event_next [of db j _ db] by (auto split: if_splits)
  moreover have "accounted L lo sec db (run_jobs L lo sec (j # js) db) j'" if "j' \<in> set js" for j'
  proof -
    have acc: "accounted L lo sec ?db1 (run_jobs L lo sec js ?db1) j'" using IH that by blast
    have "job_event (?db1\<lparr>sd_next_event := n\<rparr>) j' ok = job_event (db\<lparr>sd_next_event := n\<rparr>) j' ok" for n ok
      by (simp add: job_event_def)
    with acc show ?thesis unfolding accounted_def run same by simp
  qed
  moreover have "corr_events c (run_jobs L lo sec (j # js) db) = corr_events c db
      \<and> corr_dlq c (run_jobs L lo sec (j # js) db) = corr_dlq c db" if "c \<notin> job_corr ` set (j # js)" for c
    unfolding run using IH other [of c] that by auto
  ultimately show ?case by simp
qed (simp add: run_jobs_def)


lemma load_listed:
  assumes "s \<in> set (list_subscriptions L db)"
  shows "load_secret_hash db (sb_id s) \<noteq> None"
proof -
  obtain r where "r \<in> set (sd_subscriptions db)" "sr_id r = sb_id s"
    using assms by (auto simp: list_subscriptions_def sub_of_row_def)
  then show ?thesis by (auto simp: load_secret_hash_def sql_row_None)
qed

lemma map_numbered:
  "(\<And>n x. g (F n x) = h x) \<Longrightarrow> map g (map (\<lambda>(n, x). F n x) (zip [0..<length xs] xs)) = map h xs"
  "(\<And>n x. g' (F n x) = h' n) \<Longrightarrow> map g' (map (\<lambda>(n, x). F n x) (zip [0..<length xs] xs)) = map h' [0..<length xs]"
  by (auto intro!: nth_equalityI)

lemma dispatch_jobs_facts:
  fixes L envs ts db event mid ns agent details
  defines "jobs \<equiv> dispatch_jobs L envs ts db event mid ns agent details"
  shows "map jb_sub_id jobs = map sb_id (filter (\<lambda>s. matches_filters (sb_events s) (sb_event_types s)
      (sb_namespace_filter s) (sb_agent_filter s) event ns agent) (list_subscriptions L db))"
    and "map jb_env jobs = map envs [0..<length jobs]"
    and "\<And>j. j \<in> set jobs \<Longrightarrow> load_secret_hash db (jb_sub_id j) \<noteq> None"
proof -
  let ?ms = "filter (\<lambda>s. matches_filters (sb_events s) (sb_event_types s)
      (sb_namespace_filter s) (sb_agent_filter s) event ns agent) (list_subscriptions L db)"
  show ids: "map jb_sub_id jobs = map sb_id ?ms"
    unfolding jobs_def dispatch_jobs_def Let_def
    by (rule map_numbered(1)) simp
  have len: "length jobs = length ?ms" using arg_cong [OF ids, of length] by simp
  show "map jb_env jobs = map envs [0..<length jobs]"
    unfolding len unfolding jobs_def dispatch_jobs_def Let_def
    by (rule map_numbered(2)) simp
  show "load_secret_hash db (jb_sub_id j) \<noteq> None" if "j \<in> set jobs" for j
  proof -
    have "jb_sub_id j \<in> set (map sb_id ?ms)" unfolding ids [symmetric] using that by simp
    then show ?thesis using load_listed by auto
  qed
qed

text \<open>C20: every delivery is accounted for. With distinct and unused correlation ids, in whatever order the threads of a
  dispatch run, there is one delivery for each subscription whose filters match; it leaves exactly one event with its
  payload, whose status says whether one of its four attempts was acknowledged, and exactly when none was, one entry of
  the dead-letter queue.\<close>

theorem webhook_delivery_accounted:
  assumes "mset js = mset (dispatch_jobs L envs ts db event mid ns agent details)"
    and "inj de_correlation_of" "\<And>n. de_correlation (envs n) = de_correlation_of n"
    and "list_all (\<lambda>e. ev_correlation_id e \<notin> range de_correlation_of) (sd_events db)"
    and "list_all (\<lambda>d. dq_correlation_id d \<notin> range de_correlation_of) (sd_dlq db)"
  shows "mset (map jb_sub_id js) = mset (map sb_id (filter (\<lambda>s. matches_filters (sb_events s) (sb_event_types s)
        (sb_namespace_filter s) (sb_agent_filter s) event ns agent) (list_subscriptions L db)))
    \<and> list_all (accounted L lo sec db (run_jobs L lo sec js db)) js"
proof
  let ?jobs = "dispatch_jobs L envs ts db event mid ns agent details"
  note facts = dispatch_jobs_facts [where L = L and envs = envs and ts = ts and db = db and event = event and mid = mid and
      ns = ns and agent = agent and details = details]
  have set: "set js = set ?jobs" using assms(1) by (metis set_mset_mset)
  show "mset (map jb_sub_id js) = mset (map sb_id (filter (\<lambda>s. matches_filters (sb_events s) (sb_event_types s)
        (sb_namespace_filter s) (sb_agent_filter s) event ns agent) (list_subscriptions L db)))"
    unfolding facts(1) [symmetric] mset_map assms(1) ..
  have corr: "map job_corr ?jobs = map de_correlation_of [0..<length ?jobs]"
    using arg_cong [OF facts(2), of "map de_correlation"] by (simp add: o_def job_corr_def [abs_def] assms(3))
  have "distinct (map job_corr ?jobs)" unfolding corr using assms(2) by (simp add: distinct_map inj_on_def)
  moreover have "mset (map job_corr js) = mset (map job_corr ?jobs)" using assms(1) by simp
  ultimately have dist: "distinct (map job_corr js)" using mset_eq_imp_distinct_iff by blast
  have range: "job_corr j \<in> range de_correlation_of" if "j \<in> set js" for j
  proof -
    have "job_corr j \<in> set (map job_corr ?jobs)" using that set by simp
    then show ?thesis unfolding corr by auto
  qed
  have fresh: "corr_events (job_corr j) db = [] \<and> corr_dlq (job_corr j) db = []" if "j \<in> set js" for j
    using range [OF that] assms(4,5) by (auto simp: corr_events_def corr_dlq_def filter_empty_conv list_all_iff)
  show "list_all (accounted L lo sec db (run_jobs L lo sec js db)) js"
    using run_jobs_accounted [OF dist, of db L lo sec] fresh facts(3) set by (simp add: list_all_iff)
qed

subsection \<open>What the guard misses\<close>

text \<open>
  The guard cuts the host at the last colon and knows nothing of credentials: with credentials in the URL it looks at the
  wrong text, and resolution of that text fails, which counts as a passing check. An HTTP client connects to the address
  after the at sign. It also takes an IPv4 address in IPv6 notation for neither loopback nor private.
\<close>

lemma read_numeral:
  "read_octets i (numeral k) s =
     (case read_separator CHR ''.'' i (read_number 10 3 False 255) s of
        None \<Rightarrow> None
      | Some (v, r) \<Rightarrow>
          (case read_octets (Suc i) (pred_numeral k) r of None \<Rightarrow> None | Some (vs, r') \<Rightarrow> Some (word_of_nat v # vs, r')))"
  "read_groups i (numeral k) s =
     (case (if pred_numeral k > 0 then read_separator CHR '':'' i read_ipv4_addr s else None) of
        Some (ip, r) \<Rightarrow> (v4_groups ip, True, r)
      | None \<Rightarrow>
          (case read_separator CHR '':'' i (read_number 16 4 True 65535) s of
             None \<Rightarrow> ([], False, s)
           | Some (v, r) \<Rightarrow>
               (case read_groups (Suc i) (pred_numeral k) r of (gs, v4, r') \<Rightarrow> (word_of_nat v # gs, v4, r'))))"
  "replicate (numeral k) x = x # replicate (pred_numeral k) x"
  by (simp_all add: numeral_eq_Suc)

lemmas url_eval = validate_url_with_def validate_url_dns_with_def host_port_of_def url_host_def rsplit_once_def
  resolv_target_def parse_ip_def read_ipv4_addr_def read_ipv6_addr_def read_separator_def read_given_char_def
  read_number_def digit_of_def digit_values_def v4_groups_def starts_with_def Let_def read_numeral

lemma lower_case_urls:
  "to_ascii_lowercase ''https://x@127.0.0.1/hook'' = ''https://x@127.0.0.1/hook''"
  "to_ascii_lowercase ''https://[::ffff:127.0.0.1]/hook'' = ''https://[::ffff:127.0.0.1]/hook''"
  "to_ascii_lowercase ''https://127.0.0.1:5432/'' = ''https://127.0.0.1:5432/''"
  "to_ascii_lowercase ''https://[::1]/'' = ''https://[::1]/''"
  "to_ascii_lowercase ''https://8.8.8.8/'' = ''https://8.8.8.8/''"
  by code_simp+

lemma guard_misses_credentials:
  "validate_url_with ''https://x@127.0.0.1/hook'' False = Inr ()"
  "validate_url_dns_with (\<lambda>t. if CHR ''@'' \<in> set t then None else Some []) ''https://x@127.0.0.1/hook'' False = Inr ()"
  by (simp_all add: url_eval lower_case_urls)

lemma guard_misses_mapped_loopback:
  "parse_ip ''::ffff:127.0.0.1'' = Some (V6 [0, 0, 0, 0, 0, 0xffff, 0x7f00, 1])"
  "validate_url_with ''https://[::ffff:127.0.0.1]/hook'' False = Inr ()"
  "check_addrs False [V6 [0, 0, 0, 0, 0, 0xffff, 0x7f00, 1]] = Inr ()"
  by (simp_all add: url_eval lower_case_urls)

lemma guard_catches_loopback:
  "validate_url_with ''https://127.0.0.1:5432/'' False = Inl LoopbackTarget"
  "validate_url_with ''https://[::1]/'' False = Inl LoopbackTarget"
  by (simp_all add: url_eval lower_case_urls)

text \<open>The details of an approval request repeat a key of the envelope.\<close>

lemma approval_payload_duplicate_key:
  "pa_memory_id pa = Some m \<Longrightarrow>
     filter (\<lambda>(k, v). k = ''memory_id'') (dispatch_payload ev (pa_id pa) ns agent at_time c (Some (approval_details pa)))
       = [(''memory_id'', JStr (pa_id pa)), (''memory_id'', JStr m)]"
  by (simp add: dispatch_payload_def approval_details_def)


text \<open>The schema says that the retry count of a dead letter leaves out the first delivery; it counts all four attempts.\<close>

lemma dead_letter_counts_attempts:
  assumes "load_secret_hash db (jb_sub_id j) \<noteq> None" "\<not> job_acked L lo sec db j"
  shows "\<exists>d. sd_dlq (fst (run_job L lo sec j db)) = sd_dlq db @ [d] \<and> dq_retry_count d = 4"
proof -
  obtain sh where sh: "load_secret_hash db (jb_sub_id j) = Some sh" using assms(1) by blast
  obtain out sent slept where d: "deliver_with_retry L lo (jb_env j) (job_request L sec j sh) = (out, sent, slept)"
    using prod_cases3 by blast
  have "\<not> do_success out" "do_attempts out = 4" using deliver_spec [OF d] assms(2) sh by (auto simp: job_acked_def)
  then have "sd_dlq (fst (run_job L lo sec j db)) = sd_dlq (record_dlq (jb_sub_id j) (job_corr j) (jb_event j) (jb_body j) out db)"
    by (simp add: run_job_def Let_def secret_hash_same sh d job_corr_def)
      (simp add: record_dlq_def record_subscription_event_def record_dispatch_def update_event_status_def)
  with \<open>do_attempts out = 4\<close> show ?thesis by (simp add: record_dlq_def)
qed

subsection \<open>Sample deliveries\<close>

definition sample_sub_lib :: sub_lib where
  "sample_sub_lib = \<lparr>sl_sha256 = (\<lambda>bs. bs), sl_list_json = join CHR '','', sl_list_of_json = (\<lambda>s. Some (split_on CHR '','' s)),
     sl_to_json = (\<lambda>v. ''body''), sl_of_json = (\<lambda>s. Some (JObj [(''status'', JStr ''ack''), (''correlation_id'', JStr s)]))\<rparr>"

text \<open>A receiver that fails twice and then acknowledges.\<close>

definition sample_delivery :: "nat \<Rightarrow> delivery_env" where
  "sample_delivery n = \<lparr>de_correlation = replicate n CHR ''c'', de_delivered_at = ''t'', de_recorded_at = ''t'', de_dispatched_at = ''t'',
     de_failed_at = (\<lambda>_. ''f''), de_resolve = (\<lambda>_ _. Some [V4 8 8 8 8]), de_client = (\<lambda>_. True),
     de_post = (\<lambda>attempt req. if attempt < 2 then HttpFailed else HttpAnswer 200 (Some (hr_correlation_id req))),
     de_redirects = (\<lambda>_ _. [])\<rparr>"

definition sample_sub_request :: HttpRequest where
  "sample_sub_request = \<lparr>hr_url = ''https://8.8.8.8/'', hr_body = ''b'', hr_timestamp = ''1'', hr_correlation_id = ''c'', hr_signature = None\<rparr>"

lemma sample_url: "validate_url_with ''https://8.8.8.8/'' False = Inr ()"
  "validate_url_dns_with (\<lambda>_. Some [V4 8 8 8 8]) ''https://8.8.8.8/'' False = Inr ()"
  by (simp_all add: url_eval lower_case_urls)

lemma sample_send: "send sample_sub_lib False (sample_delivery 1) i sample_sub_request =
    (if i < 2 then Inl NetworkFailed else Inr (), [sample_sub_request])"
  by (simp add: send_def sample_sub_request_def sample_delivery_def sample_url check_ack_def ack_field_def
      sample_sub_lib_def json_get_def)

theorem webhook_requests_guarded_witness:
  "\<exists>out. deliver_with_retry sample_sub_lib False (sample_delivery 1) sample_sub_request =
       (out, replicate 3 sample_sub_request, 1200) \<and> do_success out
     \<and> (\<exists>attempt. target_guarded False (sample_delivery 1) sample_sub_request attempt)"
proof -
  let ?d = "deliver_with_retry sample_sub_lib False (sample_delivery 1) sample_sub_request"
  have run: "snd ?d = (replicate 3 sample_sub_request, 1200)" "do_success (fst ?d)"
    by (simp_all add: deliver_with_retry_def RETRY_BACKOFFS_def numeral_eq_Suc sample_send Let_def del: One_nat_def)
  then obtain out where d: "?d = (out, replicate 3 sample_sub_request, 1200)" "do_success out" by (metis fst_conv prod.collapse snd_conv)
  note facts = webhook_requests_guarded [OF d(1)]
  have three: "replicate 3 sample_sub_request \<noteq> []" by simp
  have "concat (map (sent_at sample_sub_lib False (sample_delivery 1) sample_sub_request) [0..<do_attempts out]) \<noteq> []"
    using three unfolding conjunct1 [OF conjunct2 [OF conjunct2 [OF facts]]] .
  then obtain attempt where "attempt \<in> set [0..<do_attempts out]"
      "sent_at sample_sub_lib False (sample_delivery 1) sample_sub_request attempt \<noteq> []" by auto
  with facts have "target_guarded False (sample_delivery 1) sample_sub_request attempt"
    unfolding list_all_iff by blast
  with d show ?thesis by blast
qed

text \<open>A receiver that passes the guard redirects the delivery to a loopback service.\<close>

lemma redirect_unguarded:
  fixes hop :: HttpRequest and env :: delivery_env
  defines "hop \<equiv> sample_sub_request\<lparr>hr_url := ''https://127.0.0.1:5432/''\<rparr>"
    and "env \<equiv> (sample_delivery 1)\<lparr>de_redirects := \<lambda>_ _. [sample_sub_request\<lparr>hr_url := ''https://127.0.0.1:5432/''\<rparr>]\<rparr>"
  shows "hop \<in> set (sent_at sample_sub_lib False env sample_sub_request 0)" "validate_url_with (hr_url hop) False = Inl LoopbackTarget"
  using guard_catches_loopback(1)
  by (simp_all add: hop_def env_def sent_at_def send_def sample_sub_request_def sample_delivery_def sample_url)

text \<open>Two subscriptions, one of them for another namespace.\<close>

definition sample_sub_db :: sub_db where
  "sample_sub_db =
     (let db0 = \<lparr>sd_subscriptions = [], sd_events = [], sd_next_event = 1, sd_dlq = [], sd_next_dlq = 1\<rparr>;
          req = \<lparr>ns_url = ''https://8.8.8.8/'', ns_events = ''*'', ns_secret = None, ns_namespace_filter = None,
                 ns_agent_filter = None, ns_created_by = None, ns_event_types = None\<rparr>
      in snd (subscribe sample_sub_lib False ''b'' ''2'' (snd (subscribe sample_sub_lib False ''a'' ''1'' db0 req))
           (req\<lparr>ns_namespace_filter := Some ''other''\<rparr>)))"

lemma sample_sub_db_eq: "sd_events sample_sub_db = [] \<and> sd_dlq sample_sub_db = []"
  by (simp add: sample_sub_db_def subscribe_def sample_url Let_def)

theorem webhook_delivery_accounted_witness:
  "let js = rev (dispatch_jobs sample_sub_lib sample_delivery ''1'' sample_sub_db ''memory_store'' ''m'' ''ns'' None None)
   in map jb_sub_id js = [''a'']
      \<and> list_all (accounted sample_sub_lib False None sample_sub_db (run_jobs sample_sub_lib False None js sample_sub_db)) js"
proof -
  let ?js = "dispatch_jobs sample_sub_lib sample_delivery ''1'' sample_sub_db ''memory_store'' ''m'' ''ns'' None None"
  have "map jb_sub_id ?js = [''a'']"
    unfolding dispatch_jobs_facts(1)
    by (simp add: sample_sub_db_def subscribe_def sample_url Let_def list_subscriptions_def sub_of_row_def order_by_def
        newest_first_def matches_filters_def)
  moreover have "inj (\<lambda>n. de_correlation (sample_delivery n))"
    by (rule injI) (metis length_replicate sample_delivery_def delivery_env.select_convs(1))
  ultimately show ?thesis
    using webhook_delivery_accounted [of "rev ?js" sample_sub_lib sample_delivery "''1''" sample_sub_db "''memory_store''"
        "''m''" "''ns''" None None "\<lambda>n. de_correlation (sample_delivery n)" False None] sample_sub_db_eq
    by (simp add: Let_def rev_map [symmetric])
qed

end
