(* ===== verification/Transcripts.thy ===== *)
theory Transcripts
  imports Permissions Search
begin

text \<open>
  Raw conversation transcripts (\<open>src/transcripts.rs\<close>), their lifecycle configuration (\<open>src/config.rs\<close>) and the
  tool that replays them (\<open>handle_replay\<close> in \<open>src/mcp.rs\<close>). The zstd library and the formatting and parsing of
  timestamps are parameters; instants are seconds. Foreign keys are on: a link needs its memory and its transcript, and
  deleting either deletes the link.
\<close>

subsection \<open>Lifecycle configuration\<close>

definition DEFAULT_TRANSCRIPT_TTL_SECS :: int where "DEFAULT_TRANSCRIPT_TTL_SECS = 2592000"
definition DEFAULT_TRANSCRIPT_ARCHIVE_GRACE_SECS :: int where "DEFAULT_TRANSCRIPT_ARCHIVE_GRACE_SECS = 604800"
definition MAX_TRANSCRIPT_LIFECYCLE_SECS :: int where "MAX_TRANSCRIPT_LIFECYCLE_SECS = 315360000"

record TranscriptNamespaceConfig =
  tn_default_ttl_secs :: "int option"
  tn_archive_grace_secs :: "int option"
  tn_auto_extract :: "bool option"

text \<open>The table of overrides is the hash map in some iteration order.\<close>

record TranscriptsConfig =
  tc_default_ttl_secs :: "int option"
  tc_archive_grace_secs :: "int option"
  tc_namespaces :: "(str \<times> TranscriptNamespaceConfig) list option"

record ResolvedTranscriptLifecycle =
  rl_default_ttl_secs :: int
  rl_archive_grace_secs :: int

definition strip_suffix :: "str \<Rightarrow> str \<Rightarrow> str option" where
  "strip_suffix s suf = (if suffix suf s then Some (take (length s - length suf) s) else None)"

definition prefix_hits :: "(str \<times> TranscriptNamespaceConfig) list \<Rightarrow> str \<Rightarrow> (str \<times> TranscriptNamespaceConfig) list" where
  "prefix_hits table namespace =
     sort_key (\<lambda>(p, _). - int (length p))
       (List.map_filter (\<lambda>(k, v).
          case strip_suffix k ''/*'' of
            None \<Rightarrow> None
          | Some p \<Rightarrow> if namespace = p \<or> starts_with namespace (p @ ''/'') then Some (p, v) else None) table)"

text \<open>The three layers of overrides, in the order they are consulted.\<close>

definition ns_layers :: "(str \<times> TranscriptNamespaceConfig) list \<Rightarrow> str \<Rightarrow> TranscriptNamespaceConfig list" where
  "ns_layers table namespace =
     (case map_of table namespace of Some c \<Rightarrow> [c] | None \<Rightarrow> [])
     @ map snd (prefix_hits table namespace)
     @ (case map_of table ''*'' of Some c \<Rightarrow> [c] | None \<Rightarrow> [])"

definition pick_ns :: "TranscriptsConfig \<Rightarrow> str \<Rightarrow> (TranscriptNamespaceConfig \<Rightarrow> 'a option) \<Rightarrow> 'a option" where
  "pick_ns cfg namespace field =
     (case tc_namespaces cfg of
        None \<Rightarrow> None
      | Some table \<Rightarrow> Option.bind (find (\<lambda>c. field c \<noteq> None) (ns_layers table namespace)) field)"

definition clamp_lifecycle :: "int \<Rightarrow> int \<Rightarrow> int" where
  "clamp_lifecycle v fallback = (if v \<le> 0 then fallback else min v MAX_TRANSCRIPT_LIFECYCLE_SECS)"

definition resolve_lifecycle :: "TranscriptsConfig \<Rightarrow> str \<Rightarrow> ResolvedTranscriptLifecycle" where
  "resolve_lifecycle cfg namespace =
     (let layer = (\<lambda>picked dflt compiled.
        case (case picked of Some v \<Rightarrow> Some v | None \<Rightarrow> dflt) of
          None \<Rightarrow> compiled
        | Some v \<Rightarrow> clamp_lifecycle v compiled)
      in \<lparr>rl_default_ttl_secs =
            layer (pick_ns cfg namespace tn_default_ttl_secs) (tc_default_ttl_secs cfg) DEFAULT_TRANSCRIPT_TTL_SECS,
          rl_archive_grace_secs =
            layer (pick_ns cfg namespace tn_archive_grace_secs) (tc_archive_grace_secs cfg)
              DEFAULT_TRANSCRIPT_ARCHIVE_GRACE_SECS\<rparr>)"

definition auto_extract_for :: "TranscriptsConfig \<Rightarrow> str \<Rightarrow> bool" where
  "auto_extract_for cfg namespace = (case pick_ns cfg namespace tn_auto_extract of Some b \<Rightarrow> b | None \<Rightarrow> False)"

subsection \<open>Compression\<close>

definition MAX_DECOMPRESSED_BYTES :: nat where "MAX_DECOMPRESSED_BYTES = 16 * 1024 * 1024"

text \<open>
  The compressor, which fails on an I/O error, and the streaming decoder: the chunks its reads return until the one of
  length zero, or an error after some chunks.
\<close>

record zstd_lib =
  zs_compress :: "str \<Rightarrow> str option"
  zs_chunks :: "str \<Rightarrow> str list \<times> bool"
  zs_valid_utf8 :: "str \<Rightarrow> bool"

datatype TranscriptError = CompressFailed | DecodeFailed | TooLarge | NotUtf8 | ForeignKey | UniqueId | BadTimestamp str

fun read_chunks :: "str list \<Rightarrow> bool \<Rightarrow> str \<Rightarrow> TranscriptError + str" where
  "read_chunks [] ok out = (if ok then Inr out else Inl DecodeFailed)"
| "read_chunks (c # cs) ok out =
     (if c = [] then Inr out
      else if length out + length c > MAX_DECOMPRESSED_BYTES then Inl TooLarge
      else read_chunks cs ok (out @ c))"

definition zstd_decompress :: "zstd_lib \<Rightarrow> str \<Rightarrow> TranscriptError + str" where
  "zstd_decompress Z input = (case zs_chunks Z input of (cs, ok) \<Rightarrow> read_chunks cs ok [])"

subsection \<open>Transcripts and their links\<close>

record Transcript =
  ts_id :: str
  ts_namespace :: str
  ts_created_at :: str
  ts_expires_at :: "str option"
  ts_compressed_size :: nat
  ts_original_size :: nat

record TranscriptRow = Transcript +
  ts_archived_at :: "str option"
  ts_content_blob :: str

record TranscriptLink =
  tl_memory_id :: str
  tl_transcript_id :: str
  tl_span_start :: "int option"
  tl_span_end :: "int option"

text \<open>The memories are those of the store; the two tables of transcripts stand beside it.\<close>

record transcript_db =
  td_transcripts :: "TranscriptRow list"
  td_links :: "TranscriptLink list"

definition transcript_of :: "TranscriptRow \<Rightarrow> Transcript" where
  "transcript_of r = \<lparr>ts_id = ts_id r, ts_namespace = ts_namespace r, ts_created_at = ts_created_at r,
     ts_expires_at = ts_expires_at r, ts_compressed_size = ts_compressed_size r, ts_original_size = ts_original_size r\<rparr>"

definition transcript_store ::
    "zstd_lib \<Rightarrow> (int \<Rightarrow> str) \<Rightarrow> str \<Rightarrow> int \<Rightarrow> transcript_db \<Rightarrow> str \<Rightarrow> str \<Rightarrow> int option \<Rightarrow> (TranscriptError + Transcript) \<times> transcript_db" where
  "transcript_store Z render new_id now td namespace content ttl =
     (case zs_compress Z content of
        None \<Rightarrow> (Inl CompressFailed, td)
      | Some blob \<Rightarrow>
          if list_ex (\<lambda>r. ts_id r = new_id) (td_transcripts td) then (Inl UniqueId, td)
          else
            let row = \<lparr>ts_id = new_id, ts_namespace = namespace, ts_created_at = render now,
                       ts_expires_at = map_option (\<lambda>d. render (now + d)) ttl, ts_compressed_size = length blob,
                       ts_original_size = length content, ts_archived_at = None, ts_content_blob = blob\<rparr>
            in (Inr (transcript_of row), td\<lparr>td_transcripts := td_transcripts td @ [row]\<rparr>))"

definition transcript_fetch :: "zstd_lib \<Rightarrow> transcript_db \<Rightarrow> str \<Rightarrow> TranscriptError + str option" where
  "transcript_fetch Z td i =
     (case sql_row (\<lambda>r. ts_id r = i) (td_transcripts td) of
        None \<Rightarrow> Inr None
      | Some r \<Rightarrow>
          (case zstd_decompress Z (ts_content_blob r) of
             Inl e \<Rightarrow> Inl e
           | Inr text \<Rightarrow> if zs_valid_utf8 Z text then Inr (Some text) else Inl NotUtf8))"

definition fetch_metadata :: "transcript_db \<Rightarrow> str \<Rightarrow> Transcript option" where
  "fetch_metadata td i = map_option transcript_of (sql_row (\<lambda>r. ts_id r = i) (td_transcripts td))"

text \<open>Deleting transcripts, with the cascade to the links.\<close>

definition delete_transcripts :: "(TranscriptRow \<Rightarrow> bool) \<Rightarrow> transcript_db \<Rightarrow> transcript_db" where
  "delete_transcripts P td =
     (let gone = map ts_id (filter P (td_transcripts td)) in
      td\<lparr>td_transcripts := sql_delete P (td_transcripts td),
         td_links := sql_delete (\<lambda>l. tl_transcript_id l \<in> set gone) (td_links td)\<rparr>)"

definition purge_expired :: "(int \<Rightarrow> str) \<Rightarrow> int \<Rightarrow> transcript_db \<Rightarrow> nat \<times> transcript_db" where
  "purge_expired render now td =
     (let P = (\<lambda>r. case ts_expires_at r of Some e \<Rightarrow> e \<le> render now | None \<Rightarrow> False) in
      (sql_count P (td_transcripts td), delete_transcripts P td))"

definition tl_key :: "TranscriptLink \<Rightarrow> str \<times> str" where
  "tl_key l = (tl_memory_id l, tl_transcript_id l)"

definition link_transcript ::
    "Db \<Rightarrow> transcript_db \<Rightarrow> str \<Rightarrow> str \<Rightarrow> int option \<Rightarrow> int option \<Rightarrow> (TranscriptError + unit) \<times> transcript_db" where
  "link_transcript db td memory_id transcript_id span_start span_end =
     (if \<not> list_ex (\<lambda>m. m_id m = memory_id) (db_memories db) \<or> \<not> list_ex (\<lambda>r. ts_id r = transcript_id) (td_transcripts td)
      then (Inl ForeignKey, td)
      else
        (Inr (),
         td\<lparr>td_links := sql_delete (\<lambda>l. tl_key l = (memory_id, transcript_id)) (td_links td)
              @ [\<lparr>tl_memory_id = memory_id, tl_transcript_id = transcript_id, tl_span_start = span_start,
                  tl_span_end = span_end\<rparr>]\<rparr>))"

definition transcripts_for_memory :: "transcript_db \<Rightarrow> str \<Rightarrow> TranscriptLink list" where
  "transcripts_for_memory td memory_id =
     order_by (\<lambda>a b. tl_transcript_id a < tl_transcript_id b) (filter (\<lambda>l. tl_memory_id l = memory_id) (td_links td))"

definition memories_for_transcript :: "transcript_db \<Rightarrow> str \<Rightarrow> TranscriptLink list" where
  "memories_for_transcript td transcript_id =
     order_by (\<lambda>a b. tl_memory_id a < tl_memory_id b) (filter (\<lambda>l. tl_transcript_id l = transcript_id) (td_links td))"

subsection \<open>The sweep\<close>

record SweepReport =
  sw_archived :: nat
  sw_pruned :: nat
  sw_errors :: nat

text \<open>\<open>parse\<close> is \<open>DateTime::parse_from_rfc3339\<close>, \<open>render\<close> is \<open>to_rfc3339\<close>.\<close>

definition alive_links :: "str \<Rightarrow> Db \<Rightarrow> transcript_db \<Rightarrow> str \<Rightarrow> nat" where
  "alive_links now_str db td i =
     length (filter (\<lambda>(l, m). m_id m = tl_memory_id l \<and> tl_transcript_id l = i
         \<and> (case m_expires_at m of None \<Rightarrow> True | Some e \<Rightarrow> now_str < e))
       (List.product (td_links td) (db_memories db)))"

definition should_archive ::
    "(str \<Rightarrow> int option) \<Rightarrow> (int \<Rightarrow> str) \<Rightarrow> Db \<Rightarrow> transcript_db \<Rightarrow> str \<Rightarrow> str \<Rightarrow> int \<Rightarrow> ResolvedTranscriptLifecycle \<Rightarrow> TranscriptError + bool" where
  "should_archive parse render db td i created_at now resolved =
     (case parse created_at of
        None \<Rightarrow> Inl (BadTimestamp i)
      | Some created \<Rightarrow>
          if created + rl_default_ttl_secs resolved \<ge> now then Inr False
          else Inr (alive_links (render now) db td i = 0))"

definition archive_one ::
    "(str \<Rightarrow> int option) \<Rightarrow> (int \<Rightarrow> str) \<Rightarrow> TranscriptsConfig \<Rightarrow> int \<Rightarrow> Db \<Rightarrow> TranscriptRow \<Rightarrow> transcript_db \<times> SweepReport \<Rightarrow> transcript_db \<times> SweepReport" where
  "archive_one parse render cfg now db r acc =
     (case acc of (td, report) \<Rightarrow>
        case should_archive parse render db td (ts_id r) (ts_created_at r) now (resolve_lifecycle cfg (ts_namespace r)) of
          Inl _ \<Rightarrow> (td, report\<lparr>sw_errors := sw_errors report + 1\<rparr>)
        | Inr False \<Rightarrow> (td, report)
        | Inr True \<Rightarrow>
            (td\<lparr>td_transcripts := sql_update (\<lambda>x. ts_id x = ts_id r \<and> ts_archived_at x = None)
                (\<lambda>x. x\<lparr>ts_archived_at := Some (render now)\<rparr>) (td_transcripts td)\<rparr>,
             report\<lparr>sw_archived := sw_archived report + 1\<rparr>))"

definition archive_phase ::
    "(str \<Rightarrow> int option) \<Rightarrow> (int \<Rightarrow> str) \<Rightarrow> TranscriptsConfig \<Rightarrow> int \<Rightarrow> Db \<Rightarrow> transcript_db \<times> SweepReport \<Rightarrow> transcript_db \<times> SweepReport" where
  "archive_phase parse render cfg now db acc =
     fold (archive_one parse render cfg now db) (filter (\<lambda>r. ts_archived_at r = None) (td_transcripts (fst acc))) acc"

definition prune_one ::
    "(str \<Rightarrow> int option) \<Rightarrow> TranscriptsConfig \<Rightarrow> int \<Rightarrow> TranscriptRow \<Rightarrow> transcript_db \<times> SweepReport \<Rightarrow> transcript_db \<times> SweepReport" where
  "prune_one parse cfg now r acc =
     (case acc of (td, report) \<Rightarrow>
        case Option.bind (ts_archived_at r) parse of
          None \<Rightarrow> (td, report\<lparr>sw_errors := sw_errors report + 1\<rparr>)
        | Some archived_at \<Rightarrow>
            if archived_at + rl_archive_grace_secs (resolve_lifecycle cfg (ts_namespace r)) \<ge> now then (td, report)
            else (delete_transcripts (\<lambda>x. ts_id x = ts_id r) td,
                  report\<lparr>sw_pruned := sw_pruned report + sql_count (\<lambda>x. ts_id x = ts_id r) (td_transcripts td)\<rparr>))"

definition prune_phase ::
    "(str \<Rightarrow> int option) \<Rightarrow> TranscriptsConfig \<Rightarrow> int \<Rightarrow> transcript_db \<times> SweepReport \<Rightarrow> transcript_db \<times> SweepReport" where
  "prune_phase parse cfg now acc =
     fold (prune_one parse cfg now) (filter (\<lambda>r. ts_archived_at r \<noteq> None) (td_transcripts (fst acc))) acc"

definition sweep_transcript_lifecycle ::
    "(str \<Rightarrow> int option) \<Rightarrow> (int \<Rightarrow> str) \<Rightarrow> TranscriptsConfig \<Rightarrow> int \<Rightarrow> Db \<Rightarrow> transcript_db \<Rightarrow> transcript_db \<times> SweepReport" where
  "sweep_transcript_lifecycle parse render cfg now db td =
     prune_phase parse cfg now
       (archive_phase parse render cfg now db (td, \<lparr>sw_archived = 0, sw_pruned = 0, sw_errors = 0\<rparr>))"

subsection \<open>Replay\<close>

definition REPLAY_VERBOSE_THRESHOLD_BYTES :: nat where "REPLAY_VERBOSE_THRESHOLD_BYTES = 100 * 1024"

datatype ReplayError = MemoryIdRequired | BadMemoryId ValidationError | BadAgent ValidationError | ReplayDenied Reason
  | FetchFailed TranscriptError | Disappeared str

text \<open>An entry of the answer: the metadata, the span and the text, which is left out when it is truncated.\<close>

record ReplayEntry =
  re_meta :: Transcript
  re_span_start :: "int option"
  re_span_end :: "int option"
  re_content :: "str option"

datatype ReplayAnswer = ReplayAsk Reason | Replayed "ReplayEntry list"

fun authorise_replay ::
    "(PermissionContext \<Rightarrow> PermDecision) \<Rightarrow> str \<Rightarrow> str \<Rightarrow> (TranscriptLink \<times> Transcript) list \<Rightarrow> (ReplayError + Reason) option" where
  "authorise_replay evaluate_ctx memory_id agent_id [] = None"
| "authorise_replay evaluate_ctx memory_id agent_id ((l, meta) # es) =
     (case evaluate_ctx \<lparr>pc_op = MemoryReplay, pc_namespace = ts_namespace meta, pc_agent_id = agent_id,
             pc_payload = JObj [(''memory_id'', JStr memory_id), (''transcript_id'', JStr (ts_id meta))]\<rparr> of
        PDeny reason \<Rightarrow> Some (Inl (ReplayDenied reason))
      | PAsk prompt \<Rightarrow> Some (Inr prompt)
      | _ \<Rightarrow> authorise_replay evaluate_ctx memory_id agent_id es)"

fun replay_contents ::
    "zstd_lib \<Rightarrow> bool \<Rightarrow> transcript_db \<Rightarrow> (TranscriptLink \<times> Transcript) list \<Rightarrow> ReplayError + ReplayEntry list" where
  "replay_contents Z verbose td [] = Inr []"
| "replay_contents Z verbose td ((l, meta) # es) =
     (let entry = (\<lambda>content. \<lparr>re_meta = meta, re_span_start = tl_span_start l, re_span_end = tl_span_end l, re_content = content\<rparr>);
          rest = (\<lambda>e. case replay_contents Z verbose td es of Inl err \<Rightarrow> Inl err | Inr out \<Rightarrow> Inr (e # out))
      in if \<not> verbose \<and> ts_original_size meta > REPLAY_VERBOSE_THRESHOLD_BYTES then rest (entry None)
         else (case transcript_fetch Z td (ts_id meta) of
                 Inl e \<Rightarrow> Inl (FetchFailed e)
               | Inr None \<Rightarrow> Inl (Disappeared (ts_id meta))
               | Inr (Some content) \<Rightarrow> rest (entry (Some content))))"

definition replay_before :: "TranscriptLink \<times> Transcript \<Rightarrow> TranscriptLink \<times> Transcript \<Rightarrow> bool" where
  "replay_before a b =
     (ts_created_at (snd a) < ts_created_at (snd b)
      \<or> ts_created_at (snd a) = ts_created_at (snd b) \<and> ts_id (snd a) < ts_id (snd b))"

definition replay_entries :: "transcript_db \<Rightarrow> str \<Rightarrow> (TranscriptLink \<times> Transcript) list" where
  "replay_entries td memory_id =
     List.map_filter (\<lambda>l. map_option (\<lambda>meta. (l, meta)) (fetch_metadata td (tl_transcript_id l)))
       (transcripts_for_memory td memory_id)"

definition handle_replay ::
    "zstd_lib \<Rightarrow> process_env \<Rightarrow> (PermissionContext \<Rightarrow> PermDecision) \<Rightarrow> transcript_db \<Rightarrow> str option \<Rightarrow> bool \<Rightarrow> str option \<Rightarrow> str option
      \<Rightarrow> ReplayError + ReplayAnswer" where
  "handle_replay Z penv evaluate_ctx td memory_id verbose agent_param mcp_client =
     (case memory_id of
        None \<Rightarrow> Inl MemoryIdRequired
      | Some i \<Rightarrow>
          (case validate_id i of
             Inl e \<Rightarrow> Inl (BadMemoryId e)
           | Inr _ \<Rightarrow>
               let es = replay_entries td i in
               (case resolve_agent_id penv agent_param mcp_client of
                  Inl e \<Rightarrow> Inl (BadAgent e)
                | Inr agent_id \<Rightarrow>
                    (case authorise_replay evaluate_ctx i agent_id es of
                       Some (Inl err) \<Rightarrow> Inl err
                     | Some (Inr prompt) \<Rightarrow> Inr (ReplayAsk prompt)
                     | None \<Rightarrow>
                         (case replay_contents Z verbose td (order_by replay_before es) of
                            Inl err \<Rightarrow> Inl err
                          | Inr out \<Rightarrow> Inr (Replayed out))))))"


section \<open>Resolution of the lifecycle\<close>

lemma clamp_bounds: "0 < fallback \<Longrightarrow> fallback \<le> MAX_TRANSCRIPT_LIFECYCLE_SECS \<Longrightarrow>
    0 < clamp_lifecycle v fallback \<and> clamp_lifecycle v fallback \<le> MAX_TRANSCRIPT_LIFECYCLE_SECS"
  by (auto simp: clamp_lifecycle_def MAX_TRANSCRIPT_LIFECYCLE_SECS_def)

lemma resolve_lifecycle_bounds:
  "0 < rl_default_ttl_secs (resolve_lifecycle cfg ns) \<and> rl_default_ttl_secs (resolve_lifecycle cfg ns) \<le> MAX_TRANSCRIPT_LIFECYCLE_SECS"
  "0 < rl_archive_grace_secs (resolve_lifecycle cfg ns) \<and> rl_archive_grace_secs (resolve_lifecycle cfg ns) \<le> MAX_TRANSCRIPT_LIFECYCLE_SECS"
  using clamp_bounds [of DEFAULT_TRANSCRIPT_TTL_SECS] clamp_bounds [of DEFAULT_TRANSCRIPT_ARCHIVE_GRACE_SECS]
  by (auto simp: resolve_lifecycle_def Let_def DEFAULT_TRANSCRIPT_TTL_SECS_def DEFAULT_TRANSCRIPT_ARCHIVE_GRACE_SECS_def
      MAX_TRANSCRIPT_LIFECYCLE_SECS_def split: option.split)

text \<open>A non-positive override does not fall through to the global setting but to the compiled default.\<close>

lemma nonpositive_override_skips_global:
  "rl_default_ttl_secs (resolve_lifecycle
     \<lparr>tc_default_ttl_secs = Some 100, tc_archive_grace_secs = None,
      tc_namespaces = Some [(''a'', \<lparr>tn_default_ttl_secs = Some 0, tn_archive_grace_secs = None, tn_auto_extract = None\<rparr>)]\<rparr> ''a'')
   = DEFAULT_TRANSCRIPT_TTL_SECS"
  by (simp add: resolve_lifecycle_def pick_ns_def ns_layers_def clamp_lifecycle_def)

section \<open>Compression round trip\<close>

text \<open>What zstd promises: decoding what it encoded ends without an error, in chunks that are not empty and add up.\<close>

definition zstd_ok :: "zstd_lib \<Rightarrow> bool" where
  "zstd_ok Z = (\<forall>x b. zs_compress Z x = Some b \<longrightarrow>
     (\<exists>cs. zs_chunks Z b = (cs, True) \<and> concat cs = x \<and> [] \<notin> set cs))"

lemma read_chunks_all:
  "[] \<notin> set cs \<Longrightarrow> length out \<le> MAX_DECOMPRESSED_BYTES \<Longrightarrow>
     read_chunks cs True out =
       (if length out + length (concat cs) \<le> MAX_DECOMPRESSED_BYTES then Inr (out @ concat cs) else Inl TooLarge)"
  by (induction cs arbitrary: out) auto

text \<open>a stored transcript comes back as it was, byte for byte, exactly when it has at most 16 MiB. A longer one is
  stored without complaint and every attempt to read it fails.\<close>

theorem transcript_roundtrip:
  assumes "zstd_ok Z" "zs_valid_utf8 Z content"
    and "transcript_store Z render new_id now td ns content ttl = (Inr meta, td')"
  shows "transcript_fetch Z td' (ts_id meta) =
      (if length content \<le> MAX_DECOMPRESSED_BYTES then Inr (Some content) else Inl TooLarge)
    \<and> fetch_metadata td' (ts_id meta) = Some meta \<and> ts_original_size meta = length content
    \<and> (\<forall>i. i \<noteq> ts_id meta \<longrightarrow> transcript_fetch Z td' i = transcript_fetch Z td i)"
proof -
  obtain blob where b: "zs_compress Z content = Some blob" "\<not> list_ex (\<lambda>r. ts_id r = new_id) (td_transcripts td)"
    using assms(3) by (auto simp: transcript_store_def split: option.splits if_splits)
  then obtain row where r: "td' = td\<lparr>td_transcripts := td_transcripts td @ [row]\<rparr>" "ts_id row = new_id"
      "ts_content_blob row = blob" "meta = transcript_of row" "ts_original_size row = length content"
    using assms(3) by (auto simp: transcript_store_def Let_def)
  have found: "sql_row (\<lambda>x. ts_id x = new_id) (td_transcripts td') = Some row"
  proof -
    have "sql_row (\<lambda>x. ts_id x = new_id) (td_transcripts td) = None" using b(2) by (simp add: sql_row_None list_ex_iff)
    then show ?thesis using r(1,2) by (simp add: sql_row_snoc)
  qed
  have other: "sql_row (\<lambda>x. ts_id x = i) (td_transcripts td') = sql_row (\<lambda>x. ts_id x = i) (td_transcripts td)"
    if "i \<noteq> new_id" for i using r(1,2) that by (simp add: sql_row_snoc split: option.split)
  obtain cs where cs: "zs_chunks Z blob = (cs, True)" "concat cs = content" "[] \<notin> set cs"
    using assms(1) b(1) unfolding zstd_ok_def by blast
  have "zstd_decompress Z blob = (if length content \<le> MAX_DECOMPRESSED_BYTES then Inr content else Inl TooLarge)"
    using read_chunks_all [OF cs(3), of "[]"] cs(1,2) by (simp add: zstd_decompress_def)
  with found r assms(2) other show ?thesis
    by (auto simp: transcript_fetch_def fetch_metadata_def transcript_of_def)
qed


section \<open>The sweep, row by row\<close>

definition archivable :: "(str \<Rightarrow> int option) \<Rightarrow> (int \<Rightarrow> str) \<Rightarrow> TranscriptsConfig \<Rightarrow> int \<Rightarrow> Db \<Rightarrow> transcript_db \<Rightarrow> TranscriptRow \<Rightarrow> bool" where
  "archivable parse render cfg now db td r =
     (ts_archived_at r = None
      \<and> (case parse (ts_created_at r) of
           None \<Rightarrow> False
         | Some created \<Rightarrow> created + rl_default_ttl_secs (resolve_lifecycle cfg (ts_namespace r)) < now)
      \<and> alive_links (render now) db td (ts_id r) = 0)"

definition prunable :: "(str \<Rightarrow> int option) \<Rightarrow> TranscriptsConfig \<Rightarrow> int \<Rightarrow> TranscriptRow \<Rightarrow> bool" where
  "prunable parse cfg now r =
     (case Option.bind (ts_archived_at r) parse of
        None \<Rightarrow> False
      | Some t \<Rightarrow> t + rl_archive_grace_secs (resolve_lifecycle cfg (ts_namespace r)) < now)"

definition unreadable :: "(str \<Rightarrow> int option) \<Rightarrow> TranscriptRow \<Rightarrow> bool" where
  "unreadable parse r =
     (case ts_archived_at r of None \<Rightarrow> parse (ts_created_at r) = None | Some a \<Rightarrow> parse a = None)"

definition archived_row :: "(int \<Rightarrow> str) \<Rightarrow> int \<Rightarrow> TranscriptRow \<Rightarrow> TranscriptRow" where
  "archived_row render now r = r\<lparr>ts_archived_at := Some (render now)\<rparr>"

definition td_ok :: "transcript_db \<Rightarrow> bool" where
  "td_ok td = (unique_key ts_id (td_transcripts td) \<and> unique_key tl_key (td_links td)
     \<and> list_all (\<lambda>l. tl_transcript_id l \<in> ts_id ` set (td_transcripts td)) (td_links td))"

lemma archive_one_eq:
  "ts_archived_at r = None \<Longrightarrow> archive_one parse render cfg now db r (td, report) =
     (if archivable parse render cfg now db td r
      then (td\<lparr>td_transcripts := sql_update (\<lambda>x. ts_id x = ts_id r \<and> ts_archived_at x = None)
                (archived_row render now) (td_transcripts td)\<rparr>, report\<lparr>sw_archived := sw_archived report + 1\<rparr>)
      else (td, if unreadable parse r then report\<lparr>sw_errors := sw_errors report + 1\<rparr> else report))"
  by (auto simp: archive_one_def should_archive_def archivable_def unreadable_def archived_row_def [abs_def] split: option.split)

lemma alive_links_same [simp]: "alive_links n db (td\<lparr>td_transcripts := rows\<rparr>) i = alive_links n db td i"
  by (simp add: alive_links_def)

lemma archivable_same [simp]:
  "archivable parse render cfg now db (td\<lparr>td_transcripts := rows\<rparr>) = archivable parse render cfg now db td"
  by (simp add: fun_eq_iff archivable_def)

text \<open>The loop of the first phase over a list of rows with distinct ids, on any table that holds them unchanged.\<close>

lemma archive_fold:
  assumes "distinct (map ts_id rs)" "list_all (\<lambda>r. ts_archived_at r = None) rs"
  shows "fold (archive_one parse render cfg now db) rs (td, report) =
     (td\<lparr>td_transcripts := map (\<lambda>x. if ts_archived_at x = None
            \<and> list_ex (\<lambda>r. ts_id r = ts_id x \<and> archivable parse render cfg now db td r) rs
          then archived_row render now x else x) (td_transcripts td)\<rparr>,
      report\<lparr>sw_archived := sw_archived report + length (filter (archivable parse render cfg now db td) rs),
             sw_errors := sw_errors report + length (filter (unreadable parse) rs)\<rparr>)"
  using assms
proof (induction rs arbitrary: td report)
  case (Cons r rs)
  let ?A = "archivable parse render cfg now db td r"
  have unr: "unreadable parse r \<Longrightarrow> \<not> ?A" using Cons.prems(2) by (auto simp: archivable_def unreadable_def)
  show ?case
  proof (cases ?A)
    case True
    have step: "archive_one parse render cfg now db r (td, report) =
        (td\<lparr>td_transcripts := sql_update (\<lambda>x. ts_id x = ts_id r \<and> ts_archived_at x = None) (archived_row render now) (td_transcripts td)\<rparr>,
         report\<lparr>sw_archived := sw_archived report + 1\<rparr>)"
      using archive_one_eq [of r parse render cfg now db td report] True Cons.prems(2) by simp
    have "\<not> unreadable parse r" using unr True by blast
    with True show ?thesis
      using Cons.IH Cons.prems by (simp add: step) (auto simp: sql_update_def archived_row_def)
  next
    case False
    have step: "archive_one parse render cfg now db r (td, report) =
        (td, if unreadable parse r then report\<lparr>sw_errors := sw_errors report + 1\<rparr> else report)"
      using archive_one_eq [of r parse render cfg now db td report] False Cons.prems(2) by simp
    show ?thesis using Cons.IH Cons.prems False by (simp add: step)
  qed
qed simp

lemma prune_fold:
  assumes "distinct (map ts_id rs)" "list_all (\<lambda>r. ts_archived_at r \<noteq> None) rs"
    and "unique_key ts_id (td_transcripts td)" "set rs \<subseteq> set (td_transcripts td)"
  shows "fold (prune_one parse cfg now) rs (td, report) =
     (td\<lparr>td_transcripts := filter (\<lambda>x. \<not> (x \<in> set rs \<and> prunable parse cfg now x)) (td_transcripts td),
         td_links := filter (\<lambda>l. \<not> list_ex (\<lambda>r. ts_id r = tl_transcript_id l \<and> prunable parse cfg now r) rs) (td_links td)\<rparr>,
      report\<lparr>sw_pruned := sw_pruned report + length (filter (prunable parse cfg now) rs),
             sw_errors := sw_errors report + length (filter (unreadable parse) rs)\<rparr>)"
  using assms
proof (induction rs arbitrary: td report)
  case (Cons r rs)
  have r: "r \<in> set (td_transcripts td)" "ts_archived_at r \<noteq> None" using Cons.prems by auto
  have only: "ts_id x = ts_id r \<longleftrightarrow> x = r" if "x \<in> set (td_transcripts td)" for x
    using unique_key_inj [OF Cons.prems(3) that r(1)] by auto
  show ?case
  proof (cases "prunable parse cfg now r")
    case True
    then have readable: "\<not> unreadable parse r" using r(2) by (auto simp: prunable_def unreadable_def split: option.splits)
    have one: "sql_count (\<lambda>x. ts_id x = ts_id r) (td_transcripts td) = 1"
      using filter_unique [OF Cons.prems(3) r(1)] by (simp add: sql_count_def)
    let ?td = "delete_transcripts (\<lambda>x. ts_id x = ts_id r) td"
    have tr: "td_transcripts ?td = filter (\<lambda>x. x \<noteq> r) (td_transcripts td)"
      unfolding delete_transcripts_def Let_def sql_delete_def using only by (auto intro: filter_cong)
    have gone: "set (map ts_id (filter (\<lambda>x. ts_id x = ts_id r) (td_transcripts td))) = {ts_id r}"
      using r(1) by auto
    have ln: "td_links ?td = filter (\<lambda>l. tl_transcript_id l \<noteq> ts_id r) (td_links td)"
      unfolding delete_transcripts_def Let_def sql_delete_def gone by simp
    have step: "prune_one parse cfg now r (td, report) = (?td, report\<lparr>sw_pruned := sw_pruned report + 1\<rparr>)"
      using True one by (auto simp: prune_one_def prunable_def split: option.splits)
    have notin: "r \<notin> set rs" using Cons.prems(1) by auto
    have IH: "fold (prune_one parse cfg now) rs (?td, report\<lparr>sw_pruned := sw_pruned report + 1\<rparr>) =
     (?td\<lparr>td_transcripts := filter (\<lambda>x. \<not> (x \<in> set rs \<and> prunable parse cfg now x)) (td_transcripts ?td),
         td_links := filter (\<lambda>l. \<not> list_ex (\<lambda>r. ts_id r = tl_transcript_id l \<and> prunable parse cfg now r) rs) (td_links ?td)\<rparr>,
      report\<lparr>sw_pruned := sw_pruned report + 1 + length (filter (prunable parse cfg now) rs),
             sw_errors := sw_errors report + length (filter (unreadable parse) rs)\<rparr>)"
      using Cons.IH [of ?td "report\<lparr>sw_pruned := sw_pruned report + 1\<rparr>"] Cons.prems notin tr
      by (auto simp: unique_key_def distinct_map_filter)
    have keep: "filter (\<lambda>x. \<not> (x \<in> set rs \<and> prunable parse cfg now x)) (filter (\<lambda>x. x \<noteq> r) (td_transcripts td))
        = filter (\<lambda>x. \<not> (x \<in> set (r # rs) \<and> prunable parse cfg now x)) (td_transcripts td)"
      unfolding filter_filter using True by (auto intro!: filter_cong)
    have links: "filter (\<lambda>l. \<not> list_ex (\<lambda>r. ts_id r = tl_transcript_id l \<and> prunable parse cfg now r) rs)
          (filter (\<lambda>l. tl_transcript_id l \<noteq> ts_id r) (td_links td))
        = filter (\<lambda>l. \<not> list_ex (\<lambda>r. ts_id r = tl_transcript_id l \<and> prunable parse cfg now r) (r # rs)) (td_links td)"
      unfolding filter_filter using True by (auto intro!: filter_cong)
    have rec: "?td\<lparr>td_transcripts := xs, td_links := ys\<rparr> = td\<lparr>td_transcripts := xs, td_links := ys\<rparr>" for xs ys
      by (simp add: delete_transcripts_def Let_def)
    show ?thesis
      unfolding fold_simps(2) step IH tr ln rec keep links using True readable by simp
  next
    case False
    have step: "prune_one parse cfg now r (td, report) =
        (td, if unreadable parse r then report\<lparr>sw_errors := sw_errors report + 1\<rparr> else report)"
      using False r(2) by (auto simp: prune_one_def prunable_def unreadable_def split: option.splits)
    have keep: "filter (\<lambda>x. \<not> (x \<in> set (r # rs) \<and> prunable parse cfg now x)) (td_transcripts td)
        = filter (\<lambda>x. \<not> (x \<in> set rs \<and> prunable parse cfg now x)) (td_transcripts td)"
      using False by (auto intro: filter_cong)
    show ?thesis using Cons.IH Cons.prems False unfolding keep by (simp add: step)
  qed
qed simp


definition swept_row :: "(str \<Rightarrow> int option) \<Rightarrow> (int \<Rightarrow> str) \<Rightarrow> TranscriptsConfig \<Rightarrow> int \<Rightarrow> Db \<Rightarrow> transcript_db \<Rightarrow> TranscriptRow \<Rightarrow> TranscriptRow" where
  "swept_row parse render cfg now db td r = (if archivable parse render cfg now db td r then archived_row render now r else r)"

lemma ts_id_swept [simp]: "ts_id (swept_row parse render cfg now db td r) = ts_id r"
  by (simp add: swept_row_def archived_row_def)

lemma prunable_archived: "prunable parse cfg now r \<Longrightarrow> ts_archived_at r \<noteq> None"
  by (cases "ts_archived_at r") (auto simp: prunable_def)

lemma fresh_not_prunable:
  "parse (render now) = Some now \<Longrightarrow> \<not> prunable parse cfg now (archived_row render now r) \<and> \<not> unreadable parse (archived_row render now r)"
  using resolve_lifecycle_bounds(2) [of cfg "ts_namespace r"] by (auto simp: prunable_def unreadable_def archived_row_def)

lemma prunable_swept:
  "parse (render now) = Some now \<Longrightarrow> prunable parse cfg now (swept_row parse render cfg now db td r) = prunable parse cfg now r"
  using fresh_not_prunable [of parse render now cfg r] prunable_archived [of parse cfg now r]
  by (auto simp: swept_row_def archivable_def)

lemma archive_phase_eq:
  assumes "unique_key ts_id (td_transcripts td)"
  shows "archive_phase parse render cfg now db (td, report) =
     (td\<lparr>td_transcripts := map (swept_row parse render cfg now db td) (td_transcripts td)\<rparr>,
      report\<lparr>sw_archived := sw_archived report + length (filter (archivable parse render cfg now db td) (td_transcripts td)),
             sw_errors := sw_errors report + length (filter (\<lambda>r. ts_archived_at r = None \<and> unreadable parse r) (td_transcripts td))\<rparr>)"
proof -
  let ?A = "archivable parse render cfg now db td"
  let ?rs = "filter (\<lambda>r. ts_archived_at r = None) (td_transcripts td)"
  have dist: "distinct (map ts_id ?rs)" using assms by (simp add: unique_key_def distinct_map_filter)
  have row: "(if ts_archived_at x = None \<and> list_ex (\<lambda>r. ts_id r = ts_id x \<and> ?A r) ?rs then archived_row render now x else x)
      = swept_row parse render cfg now db td x" if "x \<in> set (td_transcripts td)" for x
  proof -
    have "r = x" if "r \<in> set (td_transcripts td)" "ts_id r = ts_id x" for r
      using unique_key_inj [OF assms that(1) \<open>x \<in> set (td_transcripts td)\<close>] that(2) by simp
    then show ?thesis using that by (auto simp: swept_row_def list_ex_iff archivable_def)
  qed
  have "filter ?A ?rs = filter ?A (td_transcripts td)"
    by (auto simp: archivable_def intro!: filter_cong)
  moreover have "filter (unreadable parse) ?rs = filter (\<lambda>r. ts_archived_at r = None \<and> unreadable parse r) (td_transcripts td)"
    by (auto intro!: filter_cong)
  ultimately show ?thesis
    unfolding archive_phase_def fst_conv
    using archive_fold [OF dist, of parse render cfg now db td report] row by (simp add: list_all_iff cong: map_cong)
qed

lemma prune_phase_eq:
  assumes "unique_key ts_id (td_transcripts td)"
  shows "prune_phase parse cfg now (td, report) =
     (td\<lparr>td_transcripts := filter (\<lambda>x. \<not> prunable parse cfg now x) (td_transcripts td),
         td_links := filter (\<lambda>l. \<not> list_ex (\<lambda>r. ts_id r = tl_transcript_id l \<and> prunable parse cfg now r) (td_transcripts td)) (td_links td)\<rparr>,
      report\<lparr>sw_pruned := sw_pruned report + length (filter (prunable parse cfg now) (td_transcripts td)),
             sw_errors := sw_errors report + length (filter (\<lambda>r. ts_archived_at r \<noteq> None \<and> unreadable parse r) (td_transcripts td))\<rparr>)"
proof -
  let ?rs = "filter (\<lambda>r. ts_archived_at r \<noteq> None) (td_transcripts td)"
  have dist: "distinct (map ts_id ?rs)" using assms by (simp add: unique_key_def distinct_map_filter)
  have keep: "filter (\<lambda>x. \<not> (x \<in> set ?rs \<and> prunable parse cfg now x)) (td_transcripts td)
      = filter (\<lambda>x. \<not> prunable parse cfg now x) (td_transcripts td)"
    by (auto intro!: filter_cong dest: prunable_archived)
  have links: "list_ex (\<lambda>r. ts_id r = i \<and> prunable parse cfg now r) ?rs
      = list_ex (\<lambda>r. ts_id r = i \<and> prunable parse cfg now r) (td_transcripts td)" for i
    by (auto simp: list_ex_iff dest: prunable_archived)
  have pr: "filter (prunable parse cfg now) ?rs = filter (prunable parse cfg now) (td_transcripts td)"
    by (auto intro!: filter_cong dest: prunable_archived)
  have un: "filter (unreadable parse) ?rs = filter (\<lambda>r. ts_archived_at r \<noteq> None \<and> unreadable parse r) (td_transcripts td)"
    by (auto intro!: filter_cong)
  have "list_all (\<lambda>r. ts_archived_at r \<noteq> None) ?rs" "set ?rs \<subseteq> set (td_transcripts td)" by (auto simp: list_all_iff)
  from prune_fold [OF dist this(1) assms this(2), of parse cfg now report] show ?thesis
    unfolding prune_phase_def fst_conv keep links pr un .
qed

text \<open>The sweep does exactly what its two windows say. It archives the transcripts that are older than the time to live of
  their namespace and have no linked memory that is still alive, and no others; it deletes those, and their links, that were
  archived longer ago than the grace period, and no others, so a transcript is never deleted by the sweep that archives it;
  the report counts each kind, and rows with unreadable timestamps are counted as errors and left alone.\<close>

theorem sweep_lifecycle_exact:
  assumes "td_ok td" "parse (render now) = Some now"
  shows "sweep_transcript_lifecycle parse render cfg now db td =
     (\<lparr>td_transcripts = map (swept_row parse render cfg now db td)
          (filter (\<lambda>r. \<not> prunable parse cfg now r) (td_transcripts td)),
       td_links = filter (\<lambda>l. \<not> list_ex (\<lambda>r. ts_id r = tl_transcript_id l \<and> prunable parse cfg now r) (td_transcripts td)) (td_links td)\<rparr>,
      \<lparr>sw_archived = length (filter (archivable parse render cfg now db td) (td_transcripts td)),
       sw_pruned = length (filter (prunable parse cfg now) (td_transcripts td)),
       sw_errors = length (filter (unreadable parse) (td_transcripts td))\<rparr>)
    \<and> td_ok (fst (sweep_transcript_lifecycle parse render cfg now db td))"
proof -
  let ?T = "td_transcripts td"
  let ?f = "swept_row parse render cfg now db td"
  have u: "unique_key ts_id ?T" using assms(1) by (simp add: td_ok_def)
  then have u': "unique_key ts_id (map ?f ?T)" by (simp add: unique_key_def o_def)
  have pf: "prunable parse cfg now (?f r) = prunable parse cfg now r" for r by (rule prunable_swept) (rule assms(2))
  have errs: "ts_archived_at (?f r) \<noteq> None \<and> unreadable parse (?f r) \<longleftrightarrow> ts_archived_at r \<noteq> None \<and> unreadable parse r" for r
    using fresh_not_prunable [of parse render now cfg r] assms(2) by (auto simp: swept_row_def archivable_def)
  have split: "length (filter (\<lambda>r. ts_archived_at r = None \<and> unreadable parse r) rs)
      + length (filter (\<lambda>r. ts_archived_at r \<noteq> None \<and> unreadable parse r) rs) = length (filter (unreadable parse) rs)" for rs
    by (induction rs) auto
  have ex: "list_ex (\<lambda>r. ts_id r = i \<and> prunable parse cfg now r) (map ?f ?T) = list_ex (\<lambda>r. ts_id r = i \<and> prunable parse cfg now r) ?T" for i
    by (simp add: list_ex_iff pf)
  have main: "sweep_transcript_lifecycle parse render cfg now db td =
     (\<lparr>td_transcripts = map ?f (filter (\<lambda>r. \<not> prunable parse cfg now r) ?T),
       td_links = filter (\<lambda>l. \<not> list_ex (\<lambda>r. ts_id r = tl_transcript_id l \<and> prunable parse cfg now r) ?T) (td_links td)\<rparr>,
      \<lparr>sw_archived = length (filter (archivable parse render cfg now db td) ?T),
       sw_pruned = length (filter (prunable parse cfg now) ?T),
       sw_errors = length (filter (unreadable parse) ?T)\<rparr>)"
    unfolding sweep_transcript_lifecycle_def archive_phase_eq [OF u]
    using prune_phase_eq [of "td\<lparr>td_transcripts := map ?f ?T\<rparr>" parse cfg now] u' split [of ?T]
    by (simp add: ex filter_map o_def pf errs del: not_None_eq)
  moreover have "td_ok \<lparr>td_transcripts = map ?f (filter (\<lambda>r. \<not> prunable parse cfg now r) ?T),
       td_links = filter (\<lambda>l. \<not> list_ex (\<lambda>r. ts_id r = tl_transcript_id l \<and> prunable parse cfg now r) ?T) (td_links td)\<rparr>"
  proof -
    have "unique_key tl_key (filter P (td_links td))" for P
      using assms(1) by (simp add: td_ok_def unique_key_def distinct_map_filter)
    moreover have "unique_key ts_id (map ?f (filter P ?T))" for P
      using u by (simp add: unique_key_def o_def distinct_map_filter)
    moreover have "tl_transcript_id l \<in> ts_id ` set (map ?f (filter (\<lambda>r. \<not> prunable parse cfg now r) ?T))"
      if "l \<in> set (td_links td)" "\<not> list_ex (\<lambda>r. ts_id r = tl_transcript_id l \<and> prunable parse cfg now r) ?T" for l
    proof -
      have "tl_transcript_id l \<in> ts_id ` set ?T" using assms(1) that(1) by (simp add: td_ok_def list_all_iff)
      then obtain r where "r \<in> set ?T" "ts_id r = tl_transcript_id l" by (elim imageE) simp
      with that(2) have "?f r \<in> set (map ?f (filter (\<lambda>r. \<not> prunable parse cfg now r) ?T))" "ts_id (?f r) = tl_transcript_id l"
        by (auto simp: list_ex_iff)
      then show ?thesis by (metis imageI)
    qed
    ultimately show ?thesis by (simp add: td_ok_def list_all_iff)
  qed
  ultimately show ?thesis by simp
qed


section \<open>Replay\<close>

definition replay_ctx :: "str \<Rightarrow> str \<Rightarrow> Transcript \<Rightarrow> PermissionContext" where
  "replay_ctx memory_id agent_id meta =
     \<lparr>pc_op = MemoryReplay, pc_namespace = ts_namespace meta, pc_agent_id = agent_id,
      pc_payload = JObj [(''memory_id'', JStr memory_id), (''transcript_id'', JStr (ts_id meta))]\<rparr>"

lemma authorise_all:
  assumes "authorise_replay ev i agent es = None" "(l, meta) \<in> set es"
  shows "\<not> is_denial (ev (replay_ctx i agent meta)) \<and> (\<forall>t. ev (replay_ctx i agent meta) \<noteq> PAsk t)"
  using assms
proof (induction es)
  case (Cons e es)
  obtain l0 m0 where e: "e = (l0, m0)" by fastforce
  with Cons.prems(1) have "\<not> is_denial (ev (replay_ctx i agent m0)) \<and> (\<forall>t. ev (replay_ctx i agent m0) \<noteq> PAsk t)"
      "authorise_replay ev i agent es = None"
    by (auto simp: replay_ctx_def is_denial_def split: PermDecision.splits)
  with Cons e show ?case by auto
qed simp

lemma replay_contents_spec:
  "replay_contents Z verbose td es = Inr out \<Longrightarrow>
     map re_meta out = map snd es \<and> map re_span_start out = map (tl_span_start \<circ> fst) es
     \<and> list_all (\<lambda>e. if \<not> verbose \<and> ts_original_size (re_meta e) > REPLAY_VERBOSE_THRESHOLD_BYTES then re_content e = None
         else \<exists>txt. re_content e = Some txt \<and> transcript_fetch Z td (ts_id (re_meta e)) = Inr (Some txt)) out"
proof (induction es arbitrary: out)
  case (Cons e es)
  obtain l meta where e: "e = (l, meta)" by fastforce
  obtain e0 rest where out: "out = e0 # rest" "replay_contents Z verbose td es = Inr rest" "re_meta e0 = meta"
      "re_span_start e0 = tl_span_start l"
      "if \<not> verbose \<and> ts_original_size meta > REPLAY_VERBOSE_THRESHOLD_BYTES then re_content e0 = None
       else \<exists>txt. re_content e0 = Some txt \<and> transcript_fetch Z td (ts_id meta) = Inr (Some txt)"
    using Cons.prems e by (auto simp: Let_def split: if_splits sum.splits option.splits)
  with Cons.IH [OF out(2)] e show ?case by (auto split: option.splits)
qed simp

text \<open>C21: When replay answers with transcripts, the agent's identity was resolved and they are the transcripts linked to the
  memory, oldest first. Each comes with its stored text, except that a text longer than the threshold is left out, and only
  it, when the caller did not ask for long texts. Unless permissions are off, in which case rules are not consulted, no rule
  denies the agent the replay in the namespace of any of them.\<close>

theorem replay_authorised:
  assumes "handle_replay Z penv (\<lambda>ctx. evaluate synth active mode ctx []) td (Some i) verbose agent_param client
      = Inr (Replayed out)"
  shows "\<exists>agent. resolve_agent_id penv agent_param client = Inr agent
    \<and> map re_meta out = map snd (order_by replay_before (replay_entries td i))
    \<and> list_all (\<lambda>e. if \<not> verbose \<and> ts_original_size (re_meta e) > REPLAY_VERBOSE_THRESHOLD_BYTES then re_content e = None
        else \<exists>txt. re_content e = Some txt \<and> transcript_fetch Z td (ts_id (re_meta e)) = Inr (Some txt)) out
    \<and> (mode \<noteq> Off \<longrightarrow> list_all (\<lambda>e.
        \<not> denied_at (replay_ctx i agent (re_meta e)) (synthetic_rules_as_permission_rules synth @ active)) out)"
proof -
  let ?ev = "\<lambda>ctx. evaluate synth active mode ctx []"
  obtain agent where a: "resolve_agent_id penv agent_param client = Inr agent"
      "authorise_replay ?ev i agent (replay_entries td i) = None"
      "replay_contents Z verbose td (order_by replay_before (replay_entries td i)) = Inr out"
    using assms(1) by (auto simp: handle_replay_def Let_def split: sum.splits option.splits)
  note spec = replay_contents_spec [OF a(3)]
  have "\<not> denied_at (replay_ctx i agent (re_meta e)) (synthetic_rules_as_permission_rules synth @ active)"
    if "mode \<noteq> Off" "e \<in> set out" for e
  proof -
    have "re_meta e \<in> set (map snd (order_by replay_before (replay_entries td i)))" using spec that(2) by (metis imageI list.set_map)
    then obtain l where "(l, re_meta e) \<in> set (replay_entries td i)" by auto
    with authorise_all [OF a(2)] have "\<not> is_denial (?ev (replay_ctx i agent (re_meta e)))" by blast
    with evaluate_denied_rule [OF that(1)] show ?thesis unfolding evaluate_def by blast
  qed
  with a(1) spec show ?thesis by (auto simp: list_all_iff)
qed


subsection \<open>Sample transcripts\<close>

text \<open>A compressor that stores, and timestamps in unary.\<close>

definition plain_zstd :: zstd_lib where
  "plain_zstd = \<lparr>zs_compress = Some, zs_chunks = (\<lambda>b. (if b = [] then [] else [b], True)), zs_valid_utf8 = (\<lambda>_. True)\<rparr>"

definition tick :: "int \<Rightarrow> str" where "tick n = replicate (nat n) CHR ''x''"

definition untick :: "str \<Rightarrow> int option" where "untick s = (if list_all (\<lambda>c. c = CHR ''x'') s then Some (int (length s)) else None)"

lemma plain_zstd_ok: "zstd_ok plain_zstd"
  by (simp add: zstd_ok_def plain_zstd_def)

definition sample_td :: transcript_db where
  "sample_td = snd (transcript_store plain_zstd tick ''t2'' 8
     (snd (transcript_store plain_zstd tick ''t1'' 2 \<lparr>td_transcripts = [], td_links = []\<rparr> ''team/a'' ''hello'' None))
     ''team/b'' ''world'' None)"

definition sample_lifecycle :: TranscriptsConfig where
  "sample_lifecycle = \<lparr>tc_default_ttl_secs = Some 4, tc_archive_grace_secs = Some 3, tc_namespaces = None\<rparr>"

theorem transcript_roundtrip_witness:
  "\<exists>meta td'. transcript_store plain_zstd tick ''t1'' 2 \<lparr>td_transcripts = [], td_links = []\<rparr> ''team/a'' ''hello'' None = (Inr meta, td')
     \<and> transcript_fetch plain_zstd td' (ts_id meta) = Inr (Some ''hello'')"
proof -
  let ?s = "transcript_store plain_zstd tick ''t1'' 2 \<lparr>td_transcripts = [], td_links = []\<rparr> ''team/a'' ''hello'' None"
  obtain meta td' where s: "?s = (Inr meta, td')" by (simp add: transcript_store_def plain_zstd_def Let_def)
  have "zs_valid_utf8 plain_zstd ''hello''" by (simp add: plain_zstd_def)
  from transcript_roundtrip [OF plain_zstd_ok this s] s show ?thesis by (simp add: MAX_DECOMPRESSED_BYTES_def)
qed

lemma sample_td_rows:
  "sample_td = \<lparr>td_transcripts =
      [\<lparr>ts_id = ''t1'', ts_namespace = ''team/a'', ts_created_at = tick 2, ts_expires_at = None, ts_compressed_size = 5,
        ts_original_size = 5, ts_archived_at = None, ts_content_blob = ''hello''\<rparr>,
       \<lparr>ts_id = ''t2'', ts_namespace = ''team/b'', ts_created_at = tick 8, ts_expires_at = None, ts_compressed_size = 5,
        ts_original_size = 5, ts_archived_at = None, ts_content_blob = ''world''\<rparr>], td_links = []\<rparr>"
  by (simp add: sample_td_def transcript_store_def plain_zstd_def Let_def)

theorem sweep_lifecycle_exact_witness:
  "td_ok sample_td \<and> untick (tick 9) = Some 9
   \<and> map ts_archived_at (td_transcripts (fst (sweep_transcript_lifecycle untick tick sample_lifecycle 9 empty_db sample_td)))
       = [Some (tick 9), None]"
proof -
  have ok: "td_ok sample_td" by (simp add: sample_td_rows td_ok_def unique_key_def)
  have t: "untick (tick 9) = Some 9" by (simp add: untick_def tick_def list_all_iff)
  have "map ts_archived_at (td_transcripts (fst (sweep_transcript_lifecycle untick tick sample_lifecycle 9 empty_db sample_td)))
       = [Some (tick 9), None]"
    unfolding conjunct1 [OF sweep_lifecycle_exact [of sample_td untick tick 9, OF ok t]]
    by (simp add: sample_td_rows swept_row_def archivable_def prunable_def archived_row_def alive_links_def untick_def
        tick_def list_all_iff resolve_lifecycle_def Let_def pick_ns_def sample_lifecycle_def clamp_lifecycle_def
        MAX_TRANSCRIPT_LIFECYCLE_SECS_def)
  with ok t show ?thesis by blast
qed

definition sample_linked :: transcript_db where
  "sample_linked = sample_td\<lparr>td_links := [\<lparr>tl_memory_id = ''m'', tl_transcript_id = ''t1'', tl_span_start = Some 1, tl_span_end = None\<rparr>]\<rparr>"

definition replay_rules :: "PermissionRule list" where
  "replay_rules = [\<lparr>pr_namespace_pattern = ''secrets/**'', pr_op = ''memory_replay'', pr_agent_pattern = ''*'', pr_decision = RDeny, pr_reason = None\<rparr>]"


lemma replay_rules_allow: "pc_namespace ctx = ''team/a'' \<Longrightarrow> evaluate [] replay_rules Enforce ctx [] = PAllow"
proof -
  assume ns: "pc_namespace ctx = ''team/a''"
  have "\<not> glob_matches ''secrets/**'' ''team/a''" by code_simp
  with ns have "matched_rules ctx replay_rules = []"
    by (simp add: matched_rules_def rule_matches_def replay_rules_def)
  then show ?thesis
    by (simp add: evaluate_def evaluate_with.simps [of _ "[]"] synthetic_rules_as_permission_rules_def allow_or_ask_def mode_default_for_def)
qed

definition sample_env :: process_env where
  "sample_env = \<lparr>en_agent_id = None, en_anonymize = None, en_hostname = ''h'', en_pid = 1, en_uuid = ''u''\<rparr>"

theorem replay_authorised_witness:
  "\<exists>out. handle_replay plain_zstd sample_env (\<lambda>ctx. evaluate [] replay_rules Enforce ctx []) sample_linked (Some ''m'') False
         (Some ''ai:x'') None = Inr (Replayed out)
     \<and> map re_content out = [Some ''hello'']
     \<and> list_all (\<lambda>e. \<not> denied_at (replay_ctx ''m'' ''ai:x'' (re_meta e)) (synthetic_rules_as_permission_rules [] @ replay_rules)) out"
proof -
  let ?h = "handle_replay plain_zstd sample_env (\<lambda>ctx. evaluate [] replay_rules Enforce ctx []) sample_linked (Some ''m'') False (Some ''ai:x'') None"
  have id: "validate_id ''m'' = Inr ()" "resolve_agent_id sample_env (Some ''ai:x'') None = Inr ''ai:x''" by code_simp+
  have es: "replay_entries sample_linked ''m'' =
      [(\<lparr>tl_memory_id = ''m'', tl_transcript_id = ''t1'', tl_span_start = Some 1, tl_span_end = None\<rparr>, transcript_of (td_transcripts sample_td ! 0))]"
    by (simp add: replay_entries_def transcripts_for_memory_def sample_linked_def sample_td_rows order_by_def fetch_metadata_def
        sql_row_def map_filter_simps)
  have stored: "transcript_fetch plain_zstd sample_linked ''t1'' = Inr (Some ''hello'')"
    by (simp add: transcript_fetch_def sample_linked_def sample_td_rows sql_row_def zstd_decompress_def plain_zstd_def
        MAX_DECOMPRESSED_BYTES_def)
  obtain out where run: "?h = Inr (Replayed out)" "map re_content out = [Some ''hello'']"
    by (simp add: handle_replay_def id Let_def es stored replay_rules_allow sample_td_rows transcript_of_def order_by_def
        REPLAY_VERBOSE_THRESHOLD_BYTES_def)
  from replay_authorised [OF run(1)] id(2) run show ?thesis by (auto simp: list_all_iff)
qed

end
