(* ===== verification/Vector_Index.thy ===== *)
theory Vector_Index
  imports Search
begin

text \<open>
  The in-memory vector index (\<open>src/hnsw.rs\<close>). A built HNSW graph is the list of entries it was built from; searching it
  is the parameter \<open>knn\<close>, which stands for the \<open>instant-distance\<close> library, and the distance of two embeddings, whose 32-bit
  arithmetic is not modelled, is the parameter \<open>df\<close>. A panic is the result None.
\<close>

definition REBUILD_THRESHOLD :: nat where "REBUILD_THRESHOLD = 200"
definition MAX_ENTRIES :: nat where "MAX_ENTRIES = 100000"

type_synonym 'v entry = "str \<times> 'v"

record 'v IndexState =
  ix_hnsw :: "'v entry list option"
  ix_overflow :: "'v entry list"
  ix_all_entries :: "'v entry list"
  ix_evictions_total :: nat
  ix_last_eviction_at :: nat

record VectorHit =
  vh_id :: str
  vh_distance :: f64

definition build_hnsw :: "'v entry list \<Rightarrow> 'v entry list option" where
  "build_hnsw xs = (if xs = [] then None else Some xs)"

definition index_build :: "'v entry list \<Rightarrow> nat \<Rightarrow> nat \<Rightarrow> 'v IndexState" where
  "index_build xs evicted last_at =
     \<lparr>ix_hnsw = build_hnsw xs, ix_overflow = [], ix_all_entries = xs, ix_evictions_total = evicted, ix_last_eviction_at = last_at\<rparr>"

definition index_empty :: "nat \<Rightarrow> nat \<Rightarrow> 'v IndexState" where
  "index_empty evicted last_at =
     \<lparr>ix_hnsw = None, ix_overflow = [], ix_all_entries = [], ix_evictions_total = evicted, ix_last_eviction_at = last_at\<rparr>"

definition index_insert :: "nat \<Rightarrow> str \<Rightarrow> 'v \<Rightarrow> 'v IndexState \<Rightarrow> 'v IndexState" where
  "index_insert now_nanos i v st =
     (let st1 = st\<lparr>ix_all_entries := ix_all_entries st @ [(i, v)], ix_overflow := ix_overflow st @ [(i, v)]\<rparr>;
          st2 = (if length (ix_overflow st1) \<ge> REBUILD_THRESHOLD
                 then st1\<lparr>ix_hnsw := build_hnsw (ix_all_entries st1), ix_overflow := []\<rparr> else st1)
      in if length (ix_all_entries st2) > MAX_ENTRIES then
           let excess = length (ix_all_entries st2) - MAX_ENTRIES;
               kept = drop excess (ix_all_entries st2)
           in st2\<lparr>ix_evictions_total := (ix_evictions_total st2 + excess) mod 2 ^ 64, ix_all_entries := kept,
                  ix_hnsw := build_hnsw kept, ix_overflow := [], ix_last_eviction_at := min now_nanos (2 ^ 64 - 1)\<rparr>
         else st2)"

definition index_remove :: "str \<Rightarrow> 'v IndexState \<Rightarrow> 'v IndexState" where
  "index_remove i st =
     st\<lparr>ix_all_entries := filter (\<lambda>e. fst e \<noteq> i) (ix_all_entries st), ix_overflow := filter (\<lambda>e. fst e \<noteq> i) (ix_overflow st)\<rparr>"

definition index_rebuild :: "'v IndexState \<Rightarrow> 'v IndexState" where
  "index_rebuild st = st\<lparr>ix_hnsw := build_hnsw (ix_all_entries st), ix_overflow := []\<rparr>"

definition index_len :: "'v IndexState \<Rightarrow> nat" where
  "index_len st = length (ix_all_entries st)"

definition evicted_recently :: "nat \<Rightarrow> nat \<Rightarrow> 'v IndexState \<Rightarrow> bool" where
  "evicted_recently now_nanos window_secs st =
     (ix_last_eviction_at st \<noteq> 0
      \<and> min (2 ^ 64 - 1) (now_nanos - ix_last_eviction_at st) < min (2 ^ 128 - 1) (window_secs * 1000000000))"

text \<open>
  \<open>sort_by\<close> with \<open>partial_cmp(..).unwrap()\<close>: sorting two or more elements compares each of them at least once, and a
  comparison with NaN panics.
\<close>

definition sort_hits :: "VectorHit list \<Rightarrow> VectorHit list option" where
  "sort_hits hits =
     (if length hits \<ge> 2 \<and> list_ex (\<lambda>h. vh_distance h = NaN) hits then None
      else Some (order_by (\<lambda>a b. f64_lt (vh_distance a) (vh_distance b)) hits))"

text \<open>The loop over the graph's answers: entries that were removed are skipped, and it stops at twice \<open>k\<close> hits.\<close>

fun take_valid :: "str list \<Rightarrow> nat \<Rightarrow> VectorHit list \<Rightarrow> VectorHit list \<Rightarrow> VectorHit list" where
  "take_valid valid n [] out = out"
| "take_valid valid n (h # hs) out =
     (if vh_id h \<notin> set valid then take_valid valid n hs out
      else if length (out @ [h]) \<ge> n then out @ [h]
      else take_valid valid n hs (out @ [h]))"

fun dedup :: "str list \<Rightarrow> VectorHit list \<Rightarrow> VectorHit list" where
  "dedup seen [] = []"
| "dedup seen (h # hs) = (if vh_id h \<in> set seen then dedup seen hs else h # dedup (vh_id h # seen) hs)"

definition hit :: "('v \<Rightarrow> 'v \<Rightarrow> f64) \<Rightarrow> 'v \<Rightarrow> 'v entry \<Rightarrow> VectorHit" where
  "hit df query e = \<lparr>vh_id = fst e, vh_distance = df query (snd e)\<rparr>"

definition index_search ::
    "('v \<Rightarrow> 'v \<Rightarrow> f64) \<Rightarrow> ('v entry list \<Rightarrow> 'v \<Rightarrow> VectorHit list) \<Rightarrow> 'v \<Rightarrow> nat \<Rightarrow> 'v IndexState \<Rightarrow> VectorHit list option" where
  "index_search df knn query k st =
     (let valid = map fst (ix_all_entries st);
          graph_hits = (case ix_hnsw st of None \<Rightarrow> [] | Some g \<Rightarrow> take_valid valid (k * 2) (knn g query) [])
      in case sort_hits (map (hit df query) (ix_overflow st)) of
           None \<Rightarrow> None
         | Some overflow_hits \<Rightarrow>
             map_option (take k) (sort_hits (dedup [] (graph_hits @ overflow_hits))))"


section \<open>The state of the index\<close>

text \<open>
  What every operation keeps: entries waiting for the next rebuild are entries, every entry is in the graph or waits for it,
  and fewer entries wait than the threshold.
\<close>

definition graph_of :: "'v IndexState \<Rightarrow> 'v entry list" where
  "graph_of st = (case ix_hnsw st of None \<Rightarrow> [] | Some g \<Rightarrow> g)"

definition index_inv :: "'v IndexState \<Rightarrow> bool" where
  "index_inv st =
     (set (ix_overflow st) \<subseteq> set (ix_all_entries st)
      \<and> set (ix_all_entries st) \<subseteq> set (graph_of st) \<union> set (ix_overflow st)
      \<and> length (ix_overflow st) < REBUILD_THRESHOLD)"

lemma graph_of_build [simp]: "ix_hnsw st = build_hnsw xs \<Longrightarrow> graph_of st = xs"
  by (simp add: graph_of_def build_hnsw_def split: if_splits)

lemma inv_rebuilt: "ix_hnsw st = build_hnsw (ix_all_entries st) \<Longrightarrow> ix_overflow st = [] \<Longrightarrow> index_inv st"
  by (simp add: index_inv_def REBUILD_THRESHOLD_def)

lemma index_insert_inv:
  assumes "index_inv st"
  shows "index_inv (index_insert now i v st)"
proof -
  let ?st1 = "st\<lparr>ix_all_entries := ix_all_entries st @ [(i, v)], ix_overflow := ix_overflow st @ [(i, v)]\<rparr>"
  have "index_inv ?st1" if "length (ix_overflow ?st1) < REBUILD_THRESHOLD"
    using assms that by (auto simp: index_inv_def graph_of_def)
  then show ?thesis unfolding index_insert_def Let_def
    by (auto intro: inv_rebuilt)
qed

lemma index_remove_inv: "index_inv st \<Longrightarrow> index_inv (index_remove i st)"
  by (auto simp: index_inv_def index_remove_def graph_of_def intro: le_less_trans [OF length_filter_le])

inductive index_step :: "'v IndexState \<Rightarrow> 'v IndexState \<Rightarrow> bool" where
  ix_insert: "index_step st (index_insert now i v st)"
| ix_remove: "index_step st (index_remove i st)"
| ix_rebuild: "index_step st (index_rebuild st)"

inductive_cases index_stepE: "index_step st st'"

lemma index_step_inv: "index_step st st' \<Longrightarrow> index_inv st \<Longrightarrow> index_inv st'"
  by (erule index_step.cases) (auto simp: index_insert_inv index_remove_inv index_rebuild_def intro!: inv_rebuilt)

lemma index_insert_len: "length (ix_all_entries (index_insert now i v st)) =
    min MAX_ENTRIES (length (ix_all_entries st) + 1)"
  by (simp add: index_insert_def Let_def)

lemma index_step_len: "index_step st st' \<Longrightarrow> length (ix_all_entries st') \<le> max MAX_ENTRIES (length (ix_all_entries st))"
  by (erule index_step.cases)
    (auto simp: index_insert_len index_remove_def index_rebuild_def intro: order_trans [OF length_filter_le])

text \<open>The index loses nothing and stays bounded. After any sequence of insertions, removals and rebuilds of an index, every
  entry is in the graph or in the list that is scanned linearly, the linear scan never has 200 entries or more, and the
  number of entries never exceeds the larger of the capacity and the number of entries the index was built with.\<close>

theorem index_reachable_invariant:
  assumes "index_step\<^sup>*\<^sup>* (index_build xs evicted last_at) st"
  shows "set (ix_all_entries st) \<subseteq> set (graph_of st) \<union> set (ix_overflow st)
    \<and> set (ix_overflow st) \<subseteq> set (ix_all_entries st)
    \<and> length (ix_overflow st) < 200 \<and> index_len st \<le> max MAX_ENTRIES (length xs)"
proof -
  have "index_inv st \<and> length (ix_all_entries st) \<le> max MAX_ENTRIES (length xs)"
    using assms
  proof (induction rule: rtranclp_induct)
    case base
    then show ?case by (auto simp: index_build_def intro: inv_rebuilt)
  next
    case (step y z)
    then show ?case using index_step_inv [OF step.hyps(2)] index_step_len [OF step.hyps(2)] by linarith
  qed
  then show ?thesis by (simp add: index_inv_def index_len_def REBUILD_THRESHOLD_def)
qed

section \<open>Search\<close>

definition f64_before :: "f64 \<Rightarrow> f64 \<Rightarrow> bool" where
  "f64_before x y = (if x = NaN then False else if y = NaN then True else f64_lt x y)"

definition nearer :: "VectorHit \<Rightarrow> VectorHit \<Rightarrow> bool" where
  "nearer a b = f64_before (vh_distance a) (vh_distance b)"

interpretation hit_order: ordering_key nearer
proof
  show "nearer a b \<Longrightarrow> \<not> nearer b a" for a b
    by (cases "vh_distance a"; cases "vh_distance b") (auto simp: nearer_def f64_before_def)
  show "\<not> nearer a b \<Longrightarrow> \<not> nearer b c \<Longrightarrow> \<not> nearer a c" for a b c
    by (cases "vh_distance a"; cases "vh_distance b"; cases "vh_distance c") (auto simp: nearer_def f64_before_def split: if_splits)
qed

lemma insort_by_cong: "(\<And>y. y \<in> set ys \<Longrightarrow> f y x = g y x) \<Longrightarrow> insort_by f x ys = insort_by g x ys"
  by (induction ys) auto

lemma order_by_cong: "(\<And>a b. a \<in> set xs \<Longrightarrow> b \<in> set xs \<Longrightarrow> f a b = g a b) \<Longrightarrow> order_by f xs = order_by g xs"
proof (induction xs)
  case (Cons x xs)
  then have "order_by f xs = order_by g xs" by simp
  moreover have "insort_by f x (order_by g xs) = insort_by g x (order_by g xs)"
    by (rule insort_by_cong) (use Cons.prems in auto)
  ultimately show ?case by (simp add: order_by_def)
qed (simp add: order_by_def)

lemma sort_hits_ok:
  assumes "list_all (\<lambda>h. vh_distance h \<noteq> NaN) hits"
  shows "sort_hits hits = Some (order_by nearer hits)"
proof -
  have "order_by (\<lambda>a b. f64_lt (vh_distance a) (vh_distance b)) hits = order_by nearer hits"
    by (rule order_by_cong) (use assms in \<open>auto simp: list_all_iff nearer_def f64_before_def\<close>)
  with assms show ?thesis by (auto simp: sort_hits_def list_all_iff list_ex_iff)
qed

lemma dedup_facts:
  "set (dedup seen hs) \<subseteq> set hs" "distinct (map vh_id (dedup seen hs))"
  "vh_id ` set (dedup seen hs) = vh_id ` set hs - set seen"
proof -
  have *: "set (dedup seen hs) \<subseteq> set hs \<and> distinct (map vh_id (dedup seen hs)) \<and> vh_id ` set (dedup seen hs) = vh_id ` set hs - set seen"
  proof (induction seen hs rule: dedup.induct)
    case (2 seen h hs)
    then show ?case by (cases "vh_id h \<in> set seen") auto
  qed simp
  from * show "set (dedup seen hs) \<subseteq> set hs" "distinct (map vh_id (dedup seen hs))"
    "vh_id ` set (dedup seen hs) = vh_id ` set hs - set seen" by blast+
qed

lemma take_valid_eq:
  "take_valid valid n hs out = out @ take (max 1 (n - length out)) (filter (\<lambda>h. vh_id h \<in> set valid) hs)"
proof (induction valid n hs out rule: take_valid.induct)
  case (2 valid n h hs out)
  then show ?case by (cases "vh_id h \<in> set valid"; cases "length (out @ [h]) \<ge> n") (auto simp: max_def take_Cons' split: if_splits)
qed simp


text \<open>
  What the library promises of a search: its answers are points of the graph, each at most once, with their distances and
  nearest first. Being approximate, it may miss points.
\<close>

definition knn_sound :: "('v \<Rightarrow> 'v \<Rightarrow> f64) \<Rightarrow> ('v entry list \<Rightarrow> 'v \<Rightarrow> VectorHit list) \<Rightarrow> bool" where
  "knn_sound df knn = (\<forall>g q. mset (knn g q) \<subseteq># mset (map (hit df q) g) \<and> sorted_wrt (\<lambda>a b. \<not> nearer b a) (knn g q))"

text \<open>Every id has one embedding: no id occurs twice, and the graph holds no other embedding of a present id.\<close>

definition ids_unique :: "'v IndexState \<Rightarrow> bool" where
  "ids_unique st = (distinct (map fst (ix_all_entries st)) \<and> distinct (map fst (graph_of st))
     \<and> list_all (\<lambda>e. fst e \<in> fst ` set (ix_all_entries st) \<longrightarrow> e \<in> set (ix_all_entries st)) (graph_of st))"

lemma vh_id_hit [simp]: "vh_id (hit df q e) = fst e"
  by (simp add: hit_def)

text \<open>The first elements of a sorted list: what is left out is not nearer, and what is strictly nearer comes first.\<close>

lemma sorted_take_best:
  assumes "sorted_wrt (\<lambda>a b. \<not> nearer b a) xs" "h \<in> set (take k xs)" "x \<in> set xs" "x \<notin> set (take k xs)"
  shows "\<not> nearer x h"
proof -
  have "xs = take k xs @ drop k xs" by simp
  then have "x \<in> set (drop k xs)" using assms(3,4) by (metis Un_iff set_append)
  with assms(1,2) show ?thesis by (metis append_take_drop_id sorted_wrt_append)
qed

lemma nearer_before:
  assumes "sorted_wrt (\<lambda>a b. \<not> nearer b a) xs" "h \<in> set (take k xs)" "distinct gs" "set gs \<subseteq> set xs"
    and "\<And>g. g \<in> set gs \<Longrightarrow> nearer g h"
  shows "length gs < k"
proof -
  obtain j where j: "j < k" "j < length xs" "xs ! j = h" using assms(2) by (auto simp: in_set_conv_nth)
  have "set gs \<subseteq> set (take j xs)"
  proof
    fix g assume g: "g \<in> set gs"
    then have "g \<in> set xs" using assms(4) by blast
    then obtain m where m: "m < length xs" "xs ! m = g" by (auto simp: in_set_conv_nth)
    have "\<not> j \<le> m"
      using assms(1,5) g j m hit_order.asym by (metis le_eq_less_or_eq sorted_wrt_iff_nth_less)
    with m show "g \<in> set (take j xs)" by (auto simp: in_set_conv_nth intro!: exI [of _ m])
  qed
  then have "card (set gs) \<le> card (set (take j xs))" by (intro card_mono) auto
  also have "\<dots> \<le> j" using card_length [of "take j xs"] by simp
  finally show ?thesis using j(1) distinct_card [OF assms(3)] by simp
qed

text \<open>
  Cutting the graph's answers at twice \<open>k\<close> loses nothing: whatever is cut off has at least \<open>k\<close> answers that are not farther away.
\<close>

lemma cut_still_best:
  assumes "sorted_wrt (\<lambda>a b. \<not> nearer b a) kl" "distinct kl" "x \<in> set kl" "x \<notin> set (take (max 1 (k * 2)) kl)"
    and "sorted_wrt (\<lambda>a b. \<not> nearer b a) S" "set (take (max 1 (k * 2)) kl) \<subseteq> set S"
  shows "length (take k S) = k \<and> (\<forall>h \<in> set (take k S). \<not> nearer x h)"
proof -
  define G where "G = take (max 1 (k * 2)) kl"
  have len: "length G = max 1 (k * 2)" using assms(3,4) unfolding G_def by (metis length_take min_def nle_le take_all)
  have dG: "distinct G" using assms(2) by (simp add: G_def)
  have GS: "set G \<subseteq> set S" using assms(6) by (simp add: G_def)
  have far: "\<not> nearer x h" if "h \<in> set G" for h
    by (rule sorted_take_best [OF assms(1) that [unfolded G_def] assms(3,4)])
  have "card (set G) \<le> card (set S)" using GS by (intro card_mono) auto
  then have "k \<le> length S" using len distinct_card [OF dG] card_length [of S] by linarith
  moreover have "\<not> nearer x h" if h: "h \<in> set (take k S)" for h
  proof
    assume near: "nearer x h"
    have "nearer g h" if "g \<in> set G" for g using near far [OF that] hit_order.neg_trans by blast
    with nearer_before [OF assms(5) h dG GS] len show False by auto
  qed
  ultimately show ?thesis by simp
qed

lemma knn_members: "knn_sound df knn \<Longrightarrow> set (knn g query) \<subseteq> hit df query ` set g"
  unfolding knn_sound_def by (metis list.set_map set_mset_mono set_mset_mset)

lemma distinct_submset: "mset xs \<subseteq># mset ys \<Longrightarrow> distinct ys \<Longrightarrow> distinct xs"
  by (metis (no_types, opaque_lifting) distinct_append mset_append mset_eq_imp_distinct_iff subset_mset.add_diff_inverse ex_mset)

lemma graph_hits_present:
  assumes "ids_unique st" "knn_sound df knn"
  shows "{h \<in> set (knn (graph_of st) query). vh_id h \<in> fst ` set (ix_all_entries st)} \<subseteq> hit df query ` set (ix_all_entries st)"
proof
  fix h assume h: "h \<in> {h \<in> set (knn (graph_of st) query). vh_id h \<in> fst ` set (ix_all_entries st)}"
  then have "h \<in> hit df query ` set (graph_of st)" using knn_members [OF assms(2)] by blast
  then obtain e where e: "e \<in> set (graph_of st)" "h = hit df query e" by (elim imageE) simp
  with h assms(1) have "e \<in> set (ix_all_entries st)" unfolding ids_unique_def list_all_iff by simp
  with e(2) show "h \<in> hit df query ` set (ix_all_entries st)" by blast
qed

lemma index_search_eq:
  assumes "\<And>e. df query (snd e) \<noteq> NaN" "knn_sound df knn"
  shows "index_search df knn query k st =
     Some (take k (order_by nearer (dedup []
       (take (max 1 (k * 2)) (filter (\<lambda>h. vh_id h \<in> fst ` set (ix_all_entries st)) (knn (graph_of st) query))
        @ order_by nearer (map (hit df query) (ix_overflow st))))))"
proof -
  let ?valid = "map fst (ix_all_entries st)"
  have members: "set (knn g query) \<subseteq> hit df query ` set g" for g
    using assms(2) by (rule knn_members)
  have empty: "knn [] query = []" using members [of "[]"] by simp
  have graph: "(case ix_hnsw st of None \<Rightarrow> [] | Some g \<Rightarrow> take_valid ?valid (k * 2) (knn g query) [])
      = take (max 1 (k * 2)) (filter (\<lambda>h. vh_id h \<in> fst ` set (ix_all_entries st)) (knn (graph_of st) query))"
    using empty by (simp add: take_valid_eq graph_of_def split: option.split)
  have fin: "vh_distance h \<noteq> NaN" if "h \<in> hit df query ` A" for h A using that assms(1) by (auto simp: hit_def)
  have s1: "sort_hits (map (hit df query) (ix_overflow st)) = Some (order_by nearer (map (hit df query) (ix_overflow st)))"
    by (rule sort_hits_ok) (use fin in \<open>auto simp: list_all_iff\<close>)
  let ?D = "dedup [] (take (max 1 (k * 2)) (filter (\<lambda>h. vh_id h \<in> fst ` set (ix_all_entries st)) (knn (graph_of st) query))
        @ order_by nearer (map (hit df query) (ix_overflow st)))"
  have cut: "set (take n (filter P (knn (graph_of st) query))) \<subseteq> hit df query ` set (graph_of st)" for n P
    using set_take_subset [of n "filter P (knn (graph_of st) query)"] members [of "graph_of st"] by auto
  have "set ?D \<subseteq> hit df query ` set (graph_of st) \<union> hit df query ` set (ix_overflow st)"
    by (rule order_trans [OF dedup_facts(1)]) (use cut in auto)
  then have s2: "sort_hits ?D = Some (order_by nearer ?D)"
    by (intro sort_hits_ok) (use fin in \<open>auto simp: list_all_iff\<close>)
  show ?thesis unfolding index_search_def Let_def graph using s1 s2 by simp
qed


lemma index_search_unique:
  assumes "index_inv st" "ids_unique st" "\<And>e. df query (snd e) \<noteq> NaN" "knn_sound df knn"
  shows "\<exists>out. index_search df knn query k st = Some out
    \<and> set out \<subseteq> hit df query ` set (ix_all_entries st) \<and> distinct (map vh_id out) \<and> length out \<le> k
    \<and> sorted_wrt (\<lambda>a b. \<not> nearer b a) out
    \<and> list_all (\<lambda>e. e \<in> set (ix_overflow st) \<or> hit df query e \<in> set (knn (graph_of st) query) \<longrightarrow> hit df query e \<in> set out \<or> length out = k \<and> list_all (\<lambda>h. \<not> nearer (hit df query e) h) out) (ix_all_entries st)"
proof -
  let ?all = "ix_all_entries st" and ?g = "graph_of st"
  define kl where "kl = filter (\<lambda>h. vh_id h \<in> fst ` set ?all) (knn ?g query)"
  define G where "G = take (max 1 (k * 2)) kl"
  define ov where "ov = order_by nearer (map (hit df query) (ix_overflow st))"
  define D where "D = dedup [] (G @ ov)"
  define S where "S = order_by nearer D"
  have knn: "mset (knn ?g query) \<subseteq># mset (map (hit df query) ?g)" "sorted_wrt (\<lambda>a b. \<not> nearer b a) (knn ?g query)"
    using assms(4) by (auto simp: knn_sound_def)
  have run: "index_search df knn query k st = Some (take k S)" unfolding S_def D_def G_def kl_def ov_def by (rule index_search_eq) (use assms in auto)
  have ks: "set kl \<subseteq> hit df query ` set ?all" using graph_hits_present [OF assms(2,4)] by (simp add: kl_def)
  have Gset: "set G \<subseteq> hit df query ` set ?all" unfolding G_def by (rule order_trans [OF set_take_subset ks])
  have Oset: "set ov \<subseteq> hit df query ` set ?all" using assms(1) by (auto simp: index_inv_def ov_def)
  have Dset: "set D \<subseteq> hit df query ` set ?all"
    unfolding D_def by (rule order_trans [OF dedup_facts(1)]) (use Gset Oset in auto)
  have inj: "h = hit df query e" if "h \<in> hit df query ` set ?all" "vh_id h = fst e" "e \<in> set ?all" for h e
    using that assms(2) by (auto simp: ids_unique_def distinct_map inj_on_def)
  have in_D: "hit df query e \<in> set D" if "e \<in> set ?all" "hit df query e \<in> set G \<union> set ov" for e
  proof -
    have "fst e \<in> vh_id ` set D" using imageI [OF that(2), of vh_id] dedup_facts(3) [of "[]" "G @ ov"] by (simp add: D_def image_Un)
    then obtain h where h: "h \<in> set D" "vh_id h = fst e" by (elim imageE) simp
    have "h = hit df query e" by (rule inj [OF subsetD [OF Dset h(1)] h(2) that(1)])
    with h(1) show ?thesis by simp
  qed
  have dS: "distinct (map vh_id S)"
    using dedup_facts(2) [of "[]" "G @ ov"] unfolding S_def D_def by (metis mset_eq_imp_distinct_iff mset_map mset_order_by)
  have sS: "sorted_wrt (\<lambda>a b. \<not> nearer b a) S" unfolding S_def by (rule hit_order.sorted_order_by)
  have missing: "length (take k S) = k \<and> (\<forall>h \<in> set (take k S). \<not> nearer (hit df query e) h)"
    if e: "e \<in> set ?all" "hit df query e \<notin> set (take k S)" "e \<in> set (ix_overflow st) \<or> hit df query e \<in> set (knn ?g query)" for e
  proof (cases "hit df query e \<in> set D")
    case True
    then have "hit df query e \<in> set S" by (simp add: S_def)
    with e(2) sorted_take_best [OF sS] show ?thesis by (metis length_take min_def nle_le take_all)
  next
    case False
    then have no: "hit df query e \<notin> set G" "hit df query e \<notin> set ov" using in_D [OF e(1)] by blast+
    have mem: "hit df query e \<in> set kl" using e(1,3) no(2) by (auto simp: kl_def ov_def)
    have "mset (map vh_id (knn ?g query)) \<subseteq># mset (map fst ?g)"
      using image_mset_subseteq_mono [OF knn(1), of vh_id] by (simp add: multiset.map_comp o_def)
    then have "distinct (map vh_id (knn ?g query))" by (rule distinct_submset) (use assms(2) in \<open>simp add: ids_unique_def\<close>)
    then have "distinct (map vh_id kl)" unfolding kl_def by (rule distinct_map_filter)
    then have "distinct kl" by (simp add: distinct_map)
    moreover have "set G \<subseteq> set S"
      using Gset in_D by (auto simp: S_def)
    moreover have "sorted_wrt (\<lambda>a b. \<not> nearer b a) kl"
      using knn(2) by (simp add: kl_def sorted_wrt_filter)
    ultimately show ?thesis
      using cut_still_best [OF _ _ mem no(1) [unfolded G_def] sS] by (simp add: G_def)
  qed
  have sub: "set (take k S) \<subseteq> hit df query ` set ?all" using Dset set_take_subset [of k S] by (auto simp: S_def)
  show ?thesis
    unfolding run using sub dS sS missing
    by (auto simp: list_all_iff take_map [symmetric] intro: sorted_wrt_take)
qed

text \<open>Without unique ids: what is returned may be an embedding of the id that the graph still holds from before.\<close>

lemma index_search_any:
  assumes "index_inv st" "\<And>e. df query (snd e) \<noteq> NaN" "knn_sound df knn"
  shows "\<exists>out. index_search df knn query k st = Some out \<and> distinct (map vh_id out) \<and> length out \<le> k
    \<and> sorted_wrt (\<lambda>a b. \<not> nearer b a) out
    \<and> set out \<subseteq> {h \<in> hit df query ` (set (graph_of st) \<union> set (ix_overflow st)). vh_id h \<in> fst ` set (ix_all_entries st)}"
proof -
  define G where "G = take (max 1 (k * 2)) (filter (\<lambda>h. vh_id h \<in> fst ` set (ix_all_entries st)) (knn (graph_of st) query))"
  define ov where "ov = order_by nearer (map (hit df query) (ix_overflow st))"
  define S where "S = order_by nearer (dedup [] (G @ ov))"
  let ?known = "{h \<in> hit df query ` (set (graph_of st) \<union> set (ix_overflow st)). vh_id h \<in> fst ` set (ix_all_entries st)}"
  have run: "index_search df knn query k st = Some (take k S)"
    unfolding S_def G_def ov_def by (rule index_search_eq) (use assms in auto)
  have "h \<in> ?known" if "h \<in> set G" for h
    using that knn_members [OF assms(3), of "graph_of st" query] unfolding G_def by (auto simp: image_Un dest!: in_set_takeD)
  then have "set G \<subseteq> ?known" by blast
  moreover have "set ov \<subseteq> ?known"
    using assms(1) unfolding ov_def index_inv_def by (force simp: subset_iff)
  ultimately have "set (dedup [] (G @ ov)) \<subseteq> ?known" using dedup_facts(1) [of "[]" "G @ ov"] by auto
  then have "set (take k S) \<subseteq> ?known" using set_take_subset [of k S] by (auto simp: S_def)
  moreover have "distinct (map vh_id S)"
    using dedup_facts(2) [of "[]" "G @ ov"] unfolding S_def by (metis mset_eq_imp_distinct_iff mset_map mset_order_by)
  moreover have "sorted_wrt (\<lambda>a b. \<not> nearer b a) S" unfolding S_def by (rule hit_order.sorted_order_by)
  ultimately show ?thesis unfolding run by (auto simp: take_map [symmetric] intro: sorted_wrt_take)
qed

text \<open>C22: Search of the index. When no distance is NaN, the answer has at most \<open>k\<close> hits, nearest first, each id once and only
  ids that are present. In a state where every id has one embedding, the hits are the present entries with their distances, and an
  entry that waits for the next rebuild or that the graph's search finds is missing only because \<open>k\<close> entries were returned and
  none of them is farther away. An update breaks that condition until the next rebuild, which restores it: in between a hit may be
  ranked by an embedding its id had when the graph was built.\<close>

theorem index_search_exact:
  assumes "index_inv st" "\<And>e. df query (snd e) \<noteq> NaN" "knn_sound df knn"
  shows "\<exists>out. index_search df knn query k st = Some out \<and> distinct (map vh_id out) \<and> length out \<le> k
    \<and> sorted_wrt (\<lambda>a b. \<not> nearer b a) out
    \<and> set out \<subseteq> {h \<in> hit df query ` (set (graph_of st) \<union> set (ix_overflow st)). vh_id h \<in> fst ` set (ix_all_entries st)}
    \<and> (ids_unique st \<longrightarrow> set out \<subseteq> hit df query ` set (ix_all_entries st)
        \<and> list_all (\<lambda>e. e \<in> set (ix_overflow st) \<or> hit df query e \<in> set (knn (graph_of st) query)
              \<longrightarrow> hit df query e \<in> set out \<or> length out = k \<and> list_all (\<lambda>h. \<not> nearer (hit df query e) h) out) (ix_all_entries st))
    \<and> (distinct (map fst (ix_all_entries st)) \<longrightarrow> ids_unique (index_rebuild st))"
proof -
  obtain out where out: "index_search df knn query k st = Some out" "distinct (map vh_id out)" "length out \<le> k"
    "sorted_wrt (\<lambda>a b. \<not> nearer b a) out"
    "set out \<subseteq> {h \<in> hit df query ` (set (graph_of st) \<union> set (ix_overflow st)). vh_id h \<in> fst ` set (ix_all_entries st)}"
    using index_search_any [of st df query knn k, OF assms] by blast
  have "ids_unique (index_rebuild st)" if "distinct (map fst (ix_all_entries st))"
    using that by (simp add: ids_unique_def index_rebuild_def list_all_iff)
  moreover have "set out \<subseteq> hit df query ` set (ix_all_entries st)
        \<and> list_all (\<lambda>e. e \<in> set (ix_overflow st) \<or> hit df query e \<in> set (knn (graph_of st) query)
              \<longrightarrow> hit df query e \<in> set out \<or> length out = k \<and> list_all (\<lambda>h. \<not> nearer (hit df query e) h) out) (ix_all_entries st)"
    if "ids_unique st"
    using index_search_unique [of st df query knn k, OF assms(1) that assms(2,3)] unfolding out(1) option.inject by blast
  ultimately show ?thesis using out by blast
qed

subsection \<open>An index of rational points\<close>

definition point_dist :: "rat \<Rightarrow> rat \<Rightarrow> f64" where
  "point_dist q v = Fin (abs (q - v))"

definition scan_graph :: "rat entry list \<Rightarrow> rat \<Rightarrow> VectorHit list" where
  "scan_graph g q = order_by nearer (map (hit point_dist q) g)"

definition two_points :: "rat IndexState" where
  "two_points = index_insert 7 ''b'' 5 (index_build [(''a'', 1)] 0 0)"

lemma scan_graph_sound: "knn_sound point_dist scan_graph"
  by (simp add: knn_sound_def scan_graph_def hit_order.sorted_order_by)

lemma two_points_eq:
  "two_points = \<lparr>ix_hnsw = Some [(''a'', 1)], ix_overflow = [(''b'', 5)], ix_all_entries = [(''a'', 1), (''b'', 5)],
     ix_evictions_total = 0, ix_last_eviction_at = 0\<rparr>"
  by (simp add: two_points_def index_insert_def index_build_def build_hnsw_def REBUILD_THRESHOLD_def MAX_ENTRIES_def)

theorem index_reachable_invariant_witness:
  "index_len two_points \<le> MAX_ENTRIES"
proof -
  have "index_step\<^sup>*\<^sup>* (index_build [(''a'', 1)] 0 0) two_points"
    unfolding two_points_def by (rule r_into_rtranclp) (rule ix_insert)
  from index_reachable_invariant [OF this] show ?thesis by (simp add: MAX_ENTRIES_def)
qed

theorem index_search_exact_witness:
  "\<exists>out. index_search point_dist scan_graph 4 2 two_points = Some out \<and> hit point_dist 4 (''b'', 5) \<in> set out
     \<and> set out \<subseteq> hit point_dist 4 ` set (ix_all_entries two_points)"
proof -
  have "index_inv two_points" by (simp add: two_points_eq index_inv_def graph_of_def REBUILD_THRESHOLD_def)
  moreover have unique: "ids_unique two_points" by (simp add: two_points_eq ids_unique_def graph_of_def)
  moreover have "point_dist 4 (snd e) \<noteq> NaN" for e :: "rat entry" by (simp add: point_dist_def)
  ultimately obtain out where out: "index_search point_dist scan_graph 4 2 two_points = Some out"
      "set out \<subseteq> hit point_dist 4 ` set (ix_all_entries two_points)"
    using index_search_exact [OF _ _ scan_graph_sound, of two_points 4 2] by blast
  have "hit point_dist 4 (''b'', 5) \<in> set out"
    using out(1) by (auto simp: index_search_def two_points_eq scan_graph_def order_by_def sort_hits_def hit_def point_dist_def
        split: if_splits)
  with out show ?thesis by blast
qed

text \<open>An id that is inserted again keeps the distance of its old embedding until the next rebuild, although the new one is nearer.\<close>

lemma reinserted_id_keeps_old_distance:
  "index_search point_dist scan_graph 4 2 (index_insert 7 ''a'' 4 (index_build [(''a'', 1)] 0 0))
     = Some [\<lparr>vh_id = ''a'', vh_distance = Fin 3\<rparr>]"
  by (simp add: index_search_def index_insert_def index_build_def build_hnsw_def REBUILD_THRESHOLD_def MAX_ENTRIES_def
      scan_graph_def order_by_def sort_hits_def hit_def point_dist_def)

text \<open>A distance that is not a number makes the search panic as soon as there is a second hit.\<close>

lemma nan_distance_panics:
  assumes "vh_distance h = NaN" "h \<in> set hits" "length hits \<ge> 2"
  shows "sort_hits hits = None"
  using assms by (auto simp: sort_hits_def list_ex_iff)

end
