(* ===== verification/Hybrid.thy ===== *)
theory Hybrid
  imports Embeddings Vector_Index
begin

text \<open>
  Hybrid recall (\<open>recall_hybrid_with_telemetry\<close> of \<open>src/db.rs\<close>): candidates of the full-text search and of the embeddings,
  the latter from the vector index or from a scan of the table, are fused into one score that decays with age, cut at the
  limit, boosted by proximity and cut at the token budget; what is returned is touched. Scores are computed exactly where the
  code rounds. Parameters are FTS5, the age functions, the cosine and the distance of two embeddings, the graph search, the
  power of two and the order in which a hash map yields its values.
\<close>

type_synonym vec = "32 word list"

record hybrid_lib =
  hy_fts :: "str \<Rightarrow> MemRow \<Rightarrow> bool"
  hy_rank :: "str \<Rightarrow> MemRow \<Rightarrow> rat"
  hy_age :: "str \<Rightarrow> str \<Rightarrow> rat"
  hy_render :: "json \<Rightarrow> str"
  hy_tokens :: "str \<Rightarrow> nat"
  hy_add_secs :: "str \<Rightarrow> int \<Rightarrow> str"
  hy_cosine :: "vec \<Rightarrow> vec \<Rightarrow> f64"
  hy_distance :: "vec \<Rightarrow> vec \<Rightarrow> f64"
  hy_knn :: "vec entry list \<Rightarrow> vec \<Rightarrow> VectorHit list"
  hy_seconds_old :: "str \<Rightarrow> int option"
  hy_exp2_neg :: "rat \<Rightarrow> rat"

section \<open>Scoring\<close>

fun f64_add :: "f64 \<Rightarrow> f64 \<Rightarrow> f64" where
  "f64_add NaN y = NaN"
| "f64_add x NaN = NaN"
| "f64_add (Fin a) (Fin b) = Fin (a + b)"
| "f64_add (Infinite p) (Fin b) = Infinite p"
| "f64_add (Fin a) (Infinite q) = Infinite q"
| "f64_add (Infinite p) (Infinite q) = (if p = q then Infinite p else NaN)"

fun f64_neg :: "f64 \<Rightarrow> f64" where
  "f64_neg NaN = NaN"
| "f64_neg (Fin a) = Fin (- a)"
| "f64_neg (Infinite p) = Infinite (\<not> p)"

text \<open>Multiplication by a finite number and division.\<close>

fun f64_times :: "rat \<Rightarrow> f64 \<Rightarrow> f64" where
  "f64_times w NaN = NaN"
| "f64_times w (Fin a) = Fin (w * a)"
| "f64_times w (Infinite p) = (if w = 0 then NaN else Infinite (p = (w > 0)))"

fun f64_div :: "f64 \<Rightarrow> f64 \<Rightarrow> f64" where
  "f64_div NaN y = NaN"
| "f64_div x NaN = NaN"
| "f64_div (Fin a) (Fin b) = (if b = 0 then (if a = 0 then NaN else Infinite (a > 0)) else Fin (a / b))"
| "f64_div (Fin a) (Infinite q) = Fin 0"
| "f64_div (Infinite p) (Fin b) = Infinite (p = (b \<ge> 0))"
| "f64_div (Infinite p) (Infinite q) = NaN"

record RecallScoringConfig =
  sc_half_life_days_short :: "rat option"
  sc_half_life_days_mid :: "rat option"
  sc_half_life_days_long :: "rat option"
  sc_legacy_scoring :: bool

record ResolvedScoring =
  rs_half_life_days_short :: rat
  rs_half_life_days_mid :: rat
  rs_half_life_days_long :: rat
  rs_legacy_scoring :: bool

definition MIN_HALF_LIFE :: rat where "MIN_HALF_LIFE = 1 / 10"
definition MAX_HALF_LIFE :: rat where "MAX_HALF_LIFE = 36500"

definition scoring_default :: ResolvedScoring where
  "scoring_default = \<lparr>rs_half_life_days_short = 7, rs_half_life_days_mid = 30, rs_half_life_days_long = 365,
     rs_legacy_scoring = False\<rparr>"

definition scoring_from_config :: "RecallScoringConfig option \<Rightarrow> ResolvedScoring" where
  "scoring_from_config cfg =
     (case cfg of
        None \<Rightarrow> scoring_default
      | Some c \<Rightarrow>
          let pick = (\<lambda>x fallback. case x of None \<Rightarrow> fallback | Some v \<Rightarrow> max MIN_HALF_LIFE (min v MAX_HALF_LIFE))
          in \<lparr>rs_half_life_days_short = pick (sc_half_life_days_short c) (rs_half_life_days_short scoring_default),
              rs_half_life_days_mid = pick (sc_half_life_days_mid c) (rs_half_life_days_mid scoring_default),
              rs_half_life_days_long = pick (sc_half_life_days_long c) (rs_half_life_days_long scoring_default),
              rs_legacy_scoring = sc_legacy_scoring c\<rparr>)"

fun half_life_for_tier :: "ResolvedScoring \<Rightarrow> Tier \<Rightarrow> rat" where
  "half_life_for_tier s Short = rs_half_life_days_short s"
| "half_life_for_tier s Mid = rs_half_life_days_mid s"
| "half_life_for_tier s Long = rs_half_life_days_long s"

text \<open>\<open>exp(-ln 2 * x)\<close> is the parameter \<open>hy_exp2_neg\<close> at \<open>x\<close>.\<close>

definition decay_multiplier :: "hybrid_lib \<Rightarrow> ResolvedScoring \<Rightarrow> Tier \<Rightarrow> rat \<Rightarrow> rat" where
  "decay_multiplier L s tier age_days =
     (if rs_legacy_scoring s \<or> age_days \<le> 0 then 1 else hy_exp2_neg L (age_days / half_life_for_tier s tier))"

definition semantic_weight :: "nat \<Rightarrow> rat" where
  "semantic_weight content_len =
     (if content_len \<le> 500 then 1 / 2
      else if content_len \<ge> 5000 then 15 / 100
      else 1 / 2 - 35 / 100 * ((of_nat content_len - 500) / 4500))"

record candidate =
  ca_mem :: Memory
  ca_fts :: f64
  ca_cosine :: f64

definition ca_id :: "candidate \<Rightarrow> str" where "ca_id c = m_id (ca_mem c)"

definition max_fts_score :: "candidate list \<Rightarrow> f64" where
  "max_fts_score cs = fold (\<lambda>c highest. if f64_lt highest (ca_fts c) then ca_fts c else highest) cs (Fin 1)"

definition norm_fts :: "f64 \<Rightarrow> f64 \<Rightarrow> f64" where
  "norm_fts highest s = (if f64_lt (Fin 0) highest then f64_div s highest else Fin 0)"

definition hybrid_score :: "hybrid_lib \<Rightarrow> ResolvedScoring \<Rightarrow> f64 \<Rightarrow> candidate \<Rightarrow> f64" where
  "hybrid_score L s highest c =
     (let w = semantic_weight (length (m_content (ca_mem c)));
          blended = f64_add (f64_times w (ca_cosine c)) (f64_times (1 - w) (norm_fts highest (ca_fts c)));
          age_days = (case hy_seconds_old L (m_created_at (ca_mem c)) of None \<Rightarrow> 0 | Some secs \<Rightarrow> of_int secs / 86400)
      in f64_times (decay_multiplier L s (m_tier (ca_mem c)) age_days) blended)"

section \<open>Candidates\<close>

datatype HybridError = BadBlob EmbeddingFormatError | HybridPanic

text \<open>\<open>HashMap::insert\<close> of a candidate under its id.\<close>

definition put_candidate :: "candidate \<Rightarrow> candidate list \<Rightarrow> candidate list" where
  "put_candidate c cs = filter (\<lambda>x. ca_id x \<noteq> ca_id c) cs @ [c]"

definition fts_rows :: "hybrid_lib \<Rightarrow> str \<Rightarrow> Db \<Rightarrow> str \<Rightarrow> recall_query \<Rightarrow> (MemRow \<times> f64) list" where
  "fts_rows L now db context q =
     (let fts_query = sanitize_fts_query context True;
          score = recall_score (hy_rank L) (hy_age L) now fts_query
      in map (\<lambda>r. (r, score r))
           (take (max (rq_limit q * 3) 30) (order_by (\<lambda>a b. f64_lt (score b) (score a))
             (filter (\<lambda>r. hy_fts L fts_query r \<and> recall_where (hy_render L) now q r) (db_memories db)))))"

fun fts_stage :: "hybrid_lib \<Rightarrow> Db \<Rightarrow> vec \<Rightarrow> (MemRow \<times> f64) list \<Rightarrow> candidate list \<Rightarrow> HybridError + candidate list" where
  "fts_stage L db qe [] cs = Inr cs"
| "fts_stage L db qe ((r, s) # rows) cs =
     (case get_embedding db (m_id r) of
        Inl e \<Rightarrow> Inl (BadBlob e)
      | Inr emb \<Rightarrow>
          fts_stage L db qe rows (put_candidate
            \<lparr>ca_mem = row_to_memory r, ca_fts = s, ca_cosine = (case emb of None \<Rightarrow> Fin 0 | Some v \<Rightarrow> hy_cosine L qe v)\<rparr> cs))"

definition admitted :: "f64 \<Rightarrow> bool" where "admitted cosine = f64_lt (Fin (1 / 5)) cosine"

text \<open>The filters the code applies to a hit of the index.\<close>

definition hit_passes :: "str \<Rightarrow> recall_query \<Rightarrow> Memory \<Rightarrow> bool" where
  "hit_passes now q mem =
     ((case rq_namespace q of
         None \<Rightarrow> True
       | Some ns \<Rightarrow> (case hierarchy_in_clause (rq_namespace q) of
                      Some ancestors \<Rightarrow> m_namespace mem \<in> set (namespace_ancestors ns)
                    | None \<Rightarrow> m_namespace mem = ns))
      \<and> (case m_expires_at mem of None \<Rightarrow> True | Some e \<Rightarrow> \<not> e \<le> now)
      \<and> (case rq_tags q of None \<Rightarrow> True | Some t \<Rightarrow> t \<in> set (m_tags mem))
      \<and> (case rq_since q of None \<Rightarrow> True | Some s \<Rightarrow> \<not> m_created_at mem < s)
      \<and> (case rq_until q of None \<Rightarrow> True | Some u \<Rightarrow> \<not> m_created_at mem > u)
      \<and> is_visible mem (compute_visibility_prefixes (rq_as_agent q)))"

definition index_hit :: "str \<Rightarrow> Db \<Rightarrow> recall_query \<Rightarrow> VectorHit \<Rightarrow> candidate list \<times> nat \<Rightarrow> candidate list \<times> nat" where
  "index_hit now db q h acc =
     (let cosine = f64_add (Fin 1) (f64_neg (vh_distance h)) in
      if list_ex (\<lambda>c. ca_id c = vh_id h) (fst acc) \<or> \<not> admitted cosine then acc
      else case get db (vh_id h) of
             None \<Rightarrow> acc
           | Some mem \<Rightarrow>
               if hit_passes now q mem
               then (put_candidate \<lparr>ca_mem = mem, ca_fts = Fin 0, ca_cosine = cosine\<rparr> (fst acc), snd acc + 1) else acc)"

definition scan_row :: "hybrid_lib \<Rightarrow> vec \<Rightarrow> MemRow \<Rightarrow> candidate list \<times> nat \<Rightarrow> candidate list \<times> nat" where
  "scan_row L qe r acc =
     (if list_ex (\<lambda>c. ca_id c = m_id r) (fst acc) then acc
      else case r_embedding r of
             None \<Rightarrow> acc
           | Some bytes \<Rightarrow>
               if bytes = [] then acc
               else (case decode_embedding_blob bytes of
                       Inl _ \<Rightarrow> acc
                     | Inr emb \<Rightarrow>
                         let cosine = hy_cosine L qe emb in
                         if admitted cosine
                         then (put_candidate \<lparr>ca_mem = row_to_memory r, ca_fts = Fin 0, ca_cosine = cosine\<rparr> (fst acc), snd acc + 1)
                         else acc))"

definition semantic_stage ::
    "hybrid_lib \<Rightarrow> str \<Rightarrow> Db \<Rightarrow> vec \<Rightarrow> recall_query \<Rightarrow> vec IndexState option \<Rightarrow> candidate list \<Rightarrow> HybridError + candidate list \<times> nat" where
  "semantic_stage L now db qe q index cs =
     (case index of
        Some ix \<Rightarrow>
          (case index_search (hy_distance L) (hy_knn L) qe (max (rq_limit q * 5) 50) ix of
             None \<Rightarrow> Inl HybridPanic
           | Some hits \<Rightarrow> Inr (fold (index_hit now db q) hits (cs, 0)))
      | None \<Rightarrow>
          Inr (fold (scan_row L qe)
            (filter (\<lambda>r. r_embedding r \<noteq> None \<and> recall_where (hy_render L) now q r) (db_memories db)) (cs, 0)))"

section \<open>Recall\<close>

record RecallTelemetry =
  te_fts_candidates :: nat
  te_hnsw_candidates :: nat
  te_blend_weight_avg :: rat

definition blend_weight_avg :: "candidate list \<Rightarrow> rat" where
  "blend_weight_avg cs =
     (if cs = [] then 0
      else sum_list (map (\<lambda>c. semantic_weight (length (m_content (ca_mem c)))) cs) / of_nat (length cs))"

definition fuse_scores ::
    "hybrid_lib \<Rightarrow> ResolvedScoring \<Rightarrow> (candidate list \<Rightarrow> candidate list) \<Rightarrow> recall_query \<Rightarrow> f64 \<Rightarrow> candidate list \<Rightarrow> (Memory \<times> f64) list" where
  "fuse_scores L s hash_order q highest cs =
     (let results = take (rq_limit q) (order_by (\<lambda>a b. f64_lt (snd b) (snd a))
            (map (\<lambda>c. (ca_mem c, hybrid_score L s highest c)) (hash_order cs)))
      in case (hierarchy_in_clause (rq_namespace q), rq_namespace q) of
           (Some _, Some anchor) \<Rightarrow> apply_proximity_boost results anchor
         | _ \<Rightarrow> results)"

definition recall_hybrid_with_telemetry ::
    "hybrid_lib \<Rightarrow> ResolvedScoring \<Rightarrow> (candidate list \<Rightarrow> candidate list) \<Rightarrow> str \<Rightarrow> Db \<Rightarrow> str \<Rightarrow> vec \<Rightarrow> recall_query
      \<Rightarrow> vec IndexState option \<Rightarrow> (HybridError + (Memory \<times> f64) list \<times> BudgetOutcome \<times> RecallTelemetry) \<times> Db" where
  "recall_hybrid_with_telemetry L s hash_order now db context qe q index =
     (case fts_stage L db qe (fts_rows L now db context q) [] of
        Inl e \<Rightarrow> (Inl e, db)
      | Inr fts_cands \<Rightarrow>
          (case semantic_stage L now db qe q index fts_cands of
             Inl e \<Rightarrow> (Inl e, db)
           | Inr (cands, hnsw_count) \<Rightarrow>
               if list_ex (\<lambda>c. length (m_content (ca_mem c)) \<ge> 2 ^ 31) cands then (Inl HybridPanic, db)
               else
                 let fused = fuse_scores L s hash_order q (max_fts_score fts_cands) cands;
                     (budgeted, outcome) = apply_token_budget (hy_tokens L) fused (rq_budget q);
                     db' = fold (\<lambda>(mem, _) d. touch (hy_add_secs L) now d (m_id mem) (rq_short_extend q) (rq_mid_extend q)) budgeted db
                 in (Inr (budgeted, outcome,
                       \<lparr>te_fts_candidates = length (fts_rows L now db context q), te_hnsw_candidates = hnsw_count,
                        te_blend_weight_avg = blend_weight_avg cands\<rparr>), db')))"

definition recall_hybrid ::
    "hybrid_lib \<Rightarrow> ResolvedScoring \<Rightarrow> (candidate list \<Rightarrow> candidate list) \<Rightarrow> str \<Rightarrow> Db \<Rightarrow> str \<Rightarrow> vec \<Rightarrow> recall_query
      \<Rightarrow> vec IndexState option \<Rightarrow> (HybridError + (Memory \<times> f64) list \<times> BudgetOutcome) \<times> Db" where
  "recall_hybrid L s hash_order now db context qe q index =
     (case recall_hybrid_with_telemetry L s hash_order now db context qe q index of
        (Inl e, db') \<Rightarrow> (Inl e, db')
      | (Inr (out, outcome, telemetry), db') \<Rightarrow> (Inr (out, outcome), db'))"

section \<open>Correctness\<close>

text \<open>What every recalled memory satisfies.\<close>

definition in_scope :: "recall_query \<Rightarrow> Memory \<Rightarrow> bool" where
  "in_scope q m =
     ((case rq_namespace q of None \<Rightarrow> True
       | Some ns \<Rightarrow> m_namespace m = ns \<or> (CHR ''/'' \<in> set ns \<and> m_namespace m \<in> set (namespace_ancestors ns)))
      \<and> (case rq_tags q of None \<Rightarrow> True | Some t \<Rightarrow> t \<in> set (m_tags m))
      \<and> (case rq_since q of None \<Rightarrow> True | Some s \<Rightarrow> s \<le> m_created_at m)
      \<and> (case rq_until q of None \<Rightarrow> True | Some u \<Rightarrow> m_created_at m \<le> u))"

text \<open>The filters of the code a candidate may have come through: the SQL fragment, or the Rust check for a hit of the index. What
  they mean by the documented rule of scopes is \<open>documented_visibility\<close> in \<open>Visibility\<close>.\<close>

definition may_see :: "hybrid_lib \<Rightarrow> recall_query \<Rightarrow> bool \<Rightarrow> Memory \<Rightarrow> bool" where
  "may_see L q indexed m =
     (visibility_clause (hy_render L) (compute_visibility_prefixes (rq_as_agent q)) m
      \<or> indexed \<and> is_visible m (compute_visibility_prefixes (rq_as_agent q)))"

definition cand_ok :: "hybrid_lib \<Rightarrow> str \<Rightarrow> Db \<Rightarrow> recall_query \<Rightarrow> bool \<Rightarrow> candidate \<Rightarrow> bool" where
  "cand_ok L now db q indexed c =
     (get db (ca_id c) = Some (ca_mem c) \<and> not_expired now (ca_mem c) \<and> in_scope q (ca_mem c) \<and> may_see L q indexed (ca_mem c))"

definition cands_ok :: "hybrid_lib \<Rightarrow> str \<Rightarrow> Db \<Rightarrow> recall_query \<Rightarrow> bool \<Rightarrow> candidate list \<Rightarrow> bool" where
  "cands_ok L now db q indexed cs = (distinct (map ca_id cs) \<and> list_all (cand_ok L now db q indexed) cs)"

lemma cands_ok_put: "cands_ok L now db q ix cs \<Longrightarrow> cand_ok L now db q ix c \<Longrightarrow> cands_ok L now db q ix (put_candidate c cs)"
  by (auto simp: cands_ok_def put_candidate_def list_all_iff distinct_map inj_on_def)

lemma in_scope_where:
  assumes "recall_where render now q r"
  shows "in_scope q (row_to_memory r)"
  using assms recall_where_memory [OF assms] unfolding in_scope_def recall_where_def opt_ok_def
  by (auto split: option.splits)

lemma row_cand_ok:
  assumes "memories_ok (db_memories db)" "r \<in> set (db_memories db)" "recall_where (hy_render L) now q r"
  shows "cand_ok L now db q ix \<lparr>ca_mem = row_to_memory r, ca_fts = s, ca_cosine = c\<rparr>"
  using get_unique [OF assms(1,2)] recall_where_memory [OF assms(3)] in_scope_where [OF assms(3)]
  by (simp add: cand_ok_def ca_id_def may_see_def)

lemma fts_rows_where: "(r, s) \<in> set (fts_rows L now db context q) \<Longrightarrow> r \<in> set (db_memories db) \<and> recall_where (hy_render L) now q r"
  by (auto simp: fts_rows_def Let_def dest!: in_set_takeD)

lemma fts_stage_ok:
  assumes "fts_stage L db qe rows cs = Inr cs'" "cands_ok L now db q ix cs" "memories_ok (db_memories db)"
    and "\<And>r s. (r, s) \<in> set rows \<Longrightarrow> r \<in> set (db_memories db) \<and> recall_where (hy_render L) now q r"
  shows "cands_ok L now db q ix cs'"
  using assms
proof (induction L db qe rows cs rule: fts_stage.induct)
  case (2 L db qe r s rows cs)
  have "cand_ok L now db q ix \<lparr>ca_mem = row_to_memory r, ca_fts = s, ca_cosine = c\<rparr>" for c
    using row_cand_ok "2.prems"(3,4) by (metis list.set_intros(1))
  with "2.prems" "2.IH" cands_ok_put show ?case by (auto split: sum.splits)
qed simp

lemma hit_passes_ok:
  assumes "hit_passes now q m"
  shows "not_expired now m" "in_scope q m" "is_visible m (compute_visibility_prefixes (rq_as_agent q))"
proof -
  show "not_expired now m" using assms unfolding hit_passes_def
    by (cases "m_expires_at m") (simp_all add: not_expired_def opt_ok_def not_le)
  show "is_visible m (compute_visibility_prefixes (rq_as_agent q))" using assms by (simp add: hit_passes_def)
  have "case rq_namespace q of None \<Rightarrow> True
       | Some ns \<Rightarrow> m_namespace m = ns \<or> (CHR ''/'' \<in> set ns \<and> m_namespace m \<in> set (namespace_ancestors ns))"
    using assms by (auto simp: hit_passes_def hierarchy_in_clause_def Let_def split: option.splits if_splits)
  then show "in_scope q m" using assms unfolding in_scope_def hit_passes_def by (auto simp: not_less split: option.splits)
qed

lemma index_hit_ok: "cands_ok L now db q True (fst acc) \<Longrightarrow> cands_ok L now db q True (fst (index_hit now db q h acc))"
  unfolding index_hit_def Let_def
  by (auto split: option.split intro!: cands_ok_put simp: cand_ok_def ca_id_def get_id hit_passes_ok may_see_def)

lemma scan_row_ok:
  assumes "memories_ok (db_memories db)" "r \<in> set (db_memories db)" "recall_where (hy_render L) now q r"
    and "cands_ok L now db q ix (fst acc)"
  shows "cands_ok L now db q ix (fst (scan_row L qe r acc))"
  using assms row_cand_ok [OF assms(1-3)] unfolding scan_row_def Let_def
  by (auto split: option.split sum.split intro!: cands_ok_put)

lemma scan_rows_ok:
  assumes "memories_ok (db_memories db)" "\<And>r. r \<in> set rs \<Longrightarrow> r \<in> set (db_memories db) \<and> recall_where (hy_render L) now q r"
    and "cands_ok L now db q ix (fst acc)"
  shows "cands_ok L now db q ix (fst (fold (scan_row L qe) rs acc))"
  using assms(2,3)
proof (induction rs arbitrary: acc)
  case (Cons r rs)
  from Cons.prems have "cands_ok L now db q ix (fst (scan_row L qe r acc))" by (intro scan_row_ok [OF assms(1)]) auto
  with Cons show ?case by simp
qed simp

lemma index_hits_ok: "cands_ok L now db q True (fst acc) \<Longrightarrow> cands_ok L now db q True (fst (fold (index_hit now db q) hits acc))"
  by (induction hits arbitrary: acc) (simp_all add: index_hit_ok)

lemma semantic_stage_ok:
  assumes "semantic_stage L now db qe q index cs = Inr (cs', n)" "memories_ok (db_memories db)"
    and "cands_ok L now db q (index \<noteq> None) cs"
  shows "cands_ok L now db q (index \<noteq> None) cs'"
proof (cases index)
  case None
  define rows where "rows = filter (\<lambda>r. r_embedding r \<noteq> None \<and> recall_where (hy_render L) now q r) (db_memories db)"
  have "cands_ok L now db q (index \<noteq> None) (fst (fold (scan_row L qe) rows (cs, 0)))"
    by (rule scan_rows_ok [OF assms(2)]) (use assms(3) in \<open>auto simp: rows_def\<close>)
  moreover have "fold (scan_row L qe) rows (cs, 0) = (cs', n)"
    using assms(1) None by (simp add: semantic_stage_def rows_def)
  ultimately show ?thesis by simp
next
  case (Some ix)
  then obtain hits where "fold (index_hit now db q) hits (cs, 0) = (cs', n)"
    using assms(1) by (auto simp: semantic_stage_def split: option.splits)
  with index_hits_ok [of L now db q "(cs, 0)" hits] assms(3) Some show ?thesis by simp
qed

lemma fuse_scores_mems:
  assumes "mset (hash_order cs) = mset cs"
  shows "length (fuse_scores L s hash_order q highest cs) \<le> rq_limit q"
    and "distinct (map ca_id cs) \<Longrightarrow> distinct (map (m_id \<circ> fst) (fuse_scores L s hash_order q highest cs))"
    and "fst ` set (fuse_scores L s hash_order q highest cs) \<subseteq> ca_mem ` set cs"
proof -
  define scored where "scored = map (\<lambda>c. (ca_mem c, hybrid_score L s highest c)) (hash_order cs)"
  define ordered where "ordered = order_by (\<lambda>a b. f64_lt (snd b) (snd a)) scored"
  let ?fused = "fuse_scores L s hash_order q highest cs"
  have ms: "mset (map fst ?fused) = mset (map fst (take (rq_limit q) ordered))"
    by (auto simp: fuse_scores_def ordered_def scored_def Let_def boost_ids simp del: mset_map split: option.split)
  then have "length ?fused = length (take (rq_limit q) ordered)" by (metis length_map size_mset)
  then show "length ?fused \<le> rq_limit q" by simp
  have sc: "map fst scored = map ca_mem (hash_order cs)" by (simp add: scored_def)
  have mo: "mset (map fst ordered) = mset (map ca_mem cs)"
    using assms sc by (metis mset_map mset_order_by ordered_def)
  have "set (map fst ?fused) = set (map fst (take (rq_limit q) ordered))" using ms by (rule mset_eq_setD)
  also have "\<dots> \<subseteq> set (map fst ordered)" by (auto dest: in_set_takeD)
  also have "\<dots> = set (map ca_mem cs)" using mo by (rule mset_eq_setD)
  finally show "fst ` set ?fused \<subseteq> ca_mem ` set cs" by simp
  assume d: "distinct (map ca_id cs)"
  have "mset (map m_id (map fst ordered)) = mset (map m_id (map ca_mem cs))" using mo by (simp only: mset_map)
  moreover have "map m_id (map ca_mem cs) = map ca_id cs" by (simp add: ca_id_def)
  ultimately have "distinct (map m_id (map fst ordered))" using d by (metis mset_eq_imp_distinct_iff)
  then have "distinct (map m_id (map fst (take (rq_limit q) ordered)))" by (simp add: take_map [symmetric])
  moreover have "mset (map m_id (map fst ?fused)) = mset (map m_id (map fst (take (rq_limit q) ordered)))"
    using ms by (simp only: mset_map)
  ultimately show "distinct (map (m_id \<circ> fst) ?fused)" by (metis list.map_comp mset_eq_imp_distinct_iff)
qed

text \<open>A successful run, taken apart.\<close>

lemma hybrid_run:
  assumes "recall_hybrid_with_telemetry L s hash_order now db context qe q index = (Inr (out, oc, tel), db')"
  obtains fts_cands cands n where
    "fts_stage L db qe (fts_rows L now db context q) [] = Inr fts_cands"
    "semantic_stage L now db qe q index fts_cands = Inr (cands, n)"
    "apply_token_budget (hy_tokens L) (fuse_scores L s hash_order q (max_fts_score fts_cands) cands) (rq_budget q) = (out, oc)"
    "db' = fold (\<lambda>(mem, _) d. touch (hy_add_secs L) now d (m_id mem) (rq_short_extend q) (rq_mid_extend q)) out db"
  using assms that unfolding recall_hybrid_with_telemetry_def
  by (auto simp: Let_def split: sum.splits prod.splits if_splits)

lemma hybrid_candidates:
  assumes "fts_stage L db qe (fts_rows L now db context q) [] = Inr fts_cands"
    and "semantic_stage L now db qe q index fts_cands = Inr (cands, n)" and "memories_ok (db_memories db)"
  shows "cands_ok L now db q (index \<noteq> None) cands"
proof -
  have "cands_ok L now db q (index \<noteq> None) fts_cands"
    by (rule fts_stage_ok [OF assms(1) _ assms(3)]) (auto simp: cands_ok_def dest: fts_rows_where)
  then show ?thesis by (rule semantic_stage_ok [OF assms(2,3)])
qed

text \<open>Every memory a hybrid recall returns, whether it came from the text search, the vector index or the scan of the
  stored embeddings, is the stored one, unexpired, inside the requested namespace, tag and time range, and passes the
  visibility filter for the caller; there are no duplicates and no more than the limit. Exactly the returned memories are
  touched and the store stays well-formed.\<close>

theorem hybrid_recall_sound:
  assumes ok: "db_ok db" and perm: "\<And>cs. mset (hash_order cs) = mset cs"
    and res: "recall_hybrid_with_telemetry L s hash_order now db context qe q index = (Inr (out, oc, tel), db')"
  shows "db_ok db' \<and> length out \<le> rq_limit q \<and> distinct (map (m_id \<circ> fst) out)
    \<and> (\<forall>m \<in> fst ` set out. get db (m_id m) = Some m \<and> not_expired now m \<and> in_scope q m \<and> may_see L q (index \<noteq> None) m)
    \<and> (\<forall>j. sql_row (\<lambda>r. m_id r = j) (db_memories db') =
        map_option (\<lambda>r. if j \<in> set (map (m_id \<circ> fst) out)
                         then touched now (hy_add_secs L now (rq_short_extend q)) (hy_add_secs L now (rq_mid_extend q)) r else r)
          (sql_row (\<lambda>r. m_id r = j) (db_memories db)))"
proof -
  have mo: "memories_ok (db_memories db)" using ok by (simp add: db_ok_def)
  obtain fts_cands cands n where run:
    "fts_stage L db qe (fts_rows L now db context q) [] = Inr fts_cands"
    "semantic_stage L now db qe q index fts_cands = Inr (cands, n)"
    and b: "apply_token_budget (hy_tokens L) (fuse_scores L s hash_order q (max_fts_score fts_cands) cands) (rq_budget q) = (out, oc)"
    and db': "db' = fold (\<lambda>(mem, _) d. touch (hy_add_secs L) now d (m_id mem) (rq_short_extend q) (rq_mid_extend q)) out db"
    by (rule hybrid_run [OF res])
  define fused where "fused = fuse_scores L s hash_order q (max_fts_score fts_cands) cands"
  note fs = fuse_scores_mems [where cs = cands and hash_order = hash_order and L = L and s = s and q = q and highest = "max_fts_score fts_cands", OF perm, folded fused_def]
  have cs: "cands_ok L now db q (index \<noteq> None) cands" by (rule hybrid_candidates [OF run mo])
  have pre: "prefix out fused" using apply_budget_prefix [of "hy_tokens L" fused "rq_budget q"] b by (simp add: fused_def)
  have len: "length out \<le> rq_limit q" using prefix_length_le [OF pre] fs(1) by simp
  have dist: "distinct (map (m_id \<circ> fst) out)"
    by (rule prefix_distinct [OF pre fs(2)]) (use cs in \<open>simp add: cands_ok_def\<close>)
  have each: "get db (m_id m) = Some m \<and> not_expired now m \<and> in_scope q m \<and> may_see L q (index \<noteq> None) m"
    if "m \<in> fst ` set out" for m
  proof -
    have "m \<in> ca_mem ` set cands" using that prefix_set [OF pre] fs(3) by blast
    then obtain c where "c \<in> set cands" "m = ca_mem c" by (rule imageE)
    with cs show ?thesis by (simp add: cands_ok_def list_all_iff cand_ok_def ca_id_def)
  qed
  have ok': "db_ok db'" unfolding db' by (rule touch_all_ok [OF ok])
  note rows = touch_all_row [OF dist, of _ "hy_add_secs L" now "rq_short_extend q" "rq_mid_extend q" db, folded db']
  show ?thesis by (intro conjI allI ballI ok' len dist rows each)
qed

text \<open>When the recall returns: every stored embedding of a row decodes, no content reaches 2 GiB and the search of the index
  does not panic.\<close>

definition embeddings_decode :: "Db \<Rightarrow> bool" where
  "embeddings_decode db = list_all (\<lambda>r. case r_embedding r of None \<Rightarrow> True | Some b \<Rightarrow> b = [] \<or> is_ok (decode_embedding_blob b)) (db_memories db)"

lemma get_embedding_returns: "embeddings_decode db \<Longrightarrow> is_ok (get_embedding db i)"
  by (fastforce simp: embeddings_decode_def get_embedding_def list_all_iff is_ok_def split: option.splits sum.splits dest: sql_row_SomeD)

lemma fts_stage_returns: "embeddings_decode db \<Longrightarrow> \<exists>cs'. fts_stage L db qe rows cs = Inr cs'"
proof (induction L db qe rows cs rule: fts_stage.induct)
  case (2 L db qe r s rows cs)
  with get_embedding_returns [of db "m_id r"] show ?case by (auto simp: is_ok_def split: sum.splits)
qed simp

lemma hybrid_recall_returns:
  assumes "db_ok db" "embeddings_decode db" "list_all (\<lambda>r. length (m_content r) < 2 ^ 31) (db_memories db)"
    and "case index of None \<Rightarrow> True | Some ix \<Rightarrow> index_search (hy_distance L) (hy_knn L) qe (max (rq_limit q * 5) 50) ix \<noteq> None"
  obtains out oc tel db' where
    "recall_hybrid_with_telemetry L s hash_order now db context qe q index = (Inr (out, oc, tel), db')"
proof -
  from fts_stage_returns [OF assms(2)] obtain fts_cands where
    f: "fts_stage L db qe (fts_rows L now db context q) [] = Inr fts_cands" by blast
  from assms(4) have "is_ok (semantic_stage L now db qe q index fts_cands)"
    by (auto simp: semantic_stage_def split: option.splits)
  then obtain res where "semantic_stage L now db qe q index fts_cands = Inr res" by (auto simp: is_ok_def split: sum.splits)
  then obtain cands n where m: "semantic_stage L now db qe q index fts_cands = Inr (cands, n)" by (cases res) simp
  have "cands_ok L now db q (index \<noteq> None) cands"
    by (rule hybrid_candidates [OF f m]) (use assms(1) in \<open>simp add: db_ok_def\<close>)
  then have "\<not> list_ex (\<lambda>c. length (m_content (ca_mem c)) \<ge> 2 ^ 31) cands"
    using assms(3) by (fastforce simp: cands_ok_def cand_ok_def list_all_iff list_ex_iff dest!: get_SomeD)
  moreover obtain out oc where
    "apply_token_budget (hy_tokens L) (fuse_scores L s hash_order q (max_fts_score fts_cands) cands) (rq_budget q) = (out, oc)"
    by (rule prod.exhaust)
  ultimately show thesis using f m by (intro that) (simp add: recall_hybrid_with_telemetry_def Let_def)
qed

definition ex_hybrid :: hybrid_lib where
  "ex_hybrid = \<lparr>hy_fts = (\<lambda>q r. True), hy_rank = (\<lambda>q r. 0), hy_age = (\<lambda>n t. 0), hy_render = (\<lambda>v. []), hy_tokens = length,
     hy_add_secs = (\<lambda>t s. t), hy_cosine = (\<lambda>a b. Fin 1), hy_distance = (\<lambda>a b. Fin 0), hy_knn = (\<lambda>e v. []),
     hy_seconds_old = (\<lambda>t. Some 0), hy_exp2_neg = (\<lambda>x. 1)\<rparr>"

definition ex_query :: recall_query where
  "ex_query = \<lparr>rq_namespace = Some ''g'', rq_limit = 2, rq_tags = None, rq_since = None, rq_until = None,
     rq_short_extend = 1, rq_mid_extend = 1, rq_as_agent = None, rq_budget = None\<rparr>"

theorem hybrid_recall_sound_witness:
  "case recall_hybrid_with_telemetry ex_hybrid scoring_default (\<lambda>cs. cs) ''2026-01-05'' ex_db ''x'' [] ex_query None of
     (Inr (out, oc, tel), db') \<Rightarrow> length out \<le> 2 \<and> (\<forall>m \<in> fst ` set out. get ex_db (m_id m) = Some m) \<and> db_ok db'
   | _ \<Rightarrow> False"
proof -
  have "list_all (\<lambda>r. length (m_content r) \<le> 2) (db_memories ex_db)" by code_simp
  then have short: "list_all (\<lambda>r. length (m_content r) < 2 ^ 31) (db_memories ex_db)" by (rule list.pred_mono_strong) simp
  have "embeddings_decode ex_db" by code_simp
  then obtain out oc tel db' where
    r: "recall_hybrid_with_telemetry ex_hybrid scoring_default (\<lambda>cs. cs) ''2026-01-05'' ex_db ''x'' [] ex_query None
        = (Inr (out, oc, tel), db')"
    by (rule hybrid_recall_returns [OF ex_db_ok, where index = None and L = ex_hybrid and q = ex_query and qe = "[]"])
      (use short in simp_all)
  show ?thesis using hybrid_recall_sound [OF ex_db_ok refl r] unfolding r by (simp add: ex_query_def)
qed

text \<open>A row that the text search finds and whose embedding does not decode makes the whole recall fail, where the scan
  skips such a row.\<close>

definition ex_corrupt :: Db where
  "ex_corrupt = ex_db\<lparr>db_memories := map (\<lambda>r. r\<lparr>r_embedding := Some [0, 0]\<rparr>) (db_memories ex_db)\<rparr>"

lemma corrupt_embedding_fails_recall:
  "fst (recall_hybrid_with_telemetry ex_hybrid scoring_default (\<lambda>cs. cs) ''2026-01-05'' ex_corrupt ''x'' [] ex_query None)
     = Inl (BadBlob (MalformedLength 2))"
proof -
  have "fts_stage ex_hybrid ex_corrupt [] (fts_rows ex_hybrid ''2026-01-05'' ex_corrupt ''x'' ex_query) []
      = Inl (BadBlob (MalformedLength 2))" by code_simp
  then show ?thesis by (simp add: recall_hybrid_with_telemetry_def)
qed

lemma corrupt_embedding_skipped_by_scan:
  "semantic_stage ex_hybrid ''2026-01-05'' ex_corrupt [] ex_query None [] = Inr ([], 0)"
  by code_simp

text \<open>The reported blend weight is a mean over all candidates, so it moves with candidates the limit drops.\<close>

lemma blend_weight_counts_dropped:
  fixes c :: "str \<Rightarrow> rat \<Rightarrow> candidate" and cs :: "candidate list"
  defines "c \<equiv> \<lambda>body score. \<lparr>ca_mem = (ex_note ''m1'' ''a'' Long ''bob'')\<lparr>m_content := body\<rparr>, ca_fts = Fin score, ca_cosine = Fin 0\<rparr>"
    and "cs \<equiv> [c ''hi'' 1, c (replicate 5000 CHR ''x'') 0]"
  shows "map (m_content \<circ> fst) (fuse_scores ex_hybrid scoring_default (\<lambda>cs. cs) (ex_query\<lparr>rq_limit := 1\<rparr>) (Fin 1) cs) = [''hi'']"
    and "blend_weight_avg cs = 65 / 200 \<and> semantic_weight (length ''hi'') = 1 / 2"
  unfolding c_def cs_def
  by (simp_all add: fuse_scores_def Let_def hybrid_score_def order_by_def ex_note_def ex_query_def semantic_weight_def
      norm_fts_def hierarchy_in_clause_def blend_weight_avg_def ex_hybrid_def scoring_default_def decay_multiplier_def)

end
