(* ===== verification/Tools.thy ===== *)
theory Tools
  imports System Subscriptions Permissions Vector_Index
begin

text \<open>
  The tools a client calls (\<open>src/mcp.rs\<close>): storing, deleting, promoting, updating, linking, consolidating, forgetting,
  namespace standards, messages, approvals, the archive and collection. Each is one function on the state of the server: the
  database, the quota ledger, the vector index, the remembered approvals and the log of what is handed to webhooks, to the
  audit trail and to the approval stream. The environment of a call holds the configuration, the readings of the clock, fresh
  ids, the embedder, the language model and the serializers.
\<close>

section \<open>Time to live\<close>

definition MAX_TTL_SECS :: int where "MAX_TTL_SECS = 315360000"

record TtlConfig =
  tt_short_ttl_secs :: "int option"
  tt_mid_ttl_secs :: "int option"
  tt_long_ttl_secs :: "int option"
  tt_short_extend_secs :: "int option"
  tt_mid_extend_secs :: "int option"

record ResolvedTtl =
  rt_short_ttl_secs :: "int option"
  rt_mid_ttl_secs :: "int option"
  rt_long_ttl_secs :: "int option"
  rt_short_extend_secs :: int
  rt_mid_extend_secs :: int

definition resolved_ttl_default :: ResolvedTtl where
  "resolved_ttl_default =
     \<lparr>rt_short_ttl_secs = default_ttl_secs Short, rt_mid_ttl_secs = default_ttl_secs Mid,
      rt_long_ttl_secs = default_ttl_secs Long, rt_short_extend_secs = SHORT_TTL_EXTEND_SECS,
      rt_mid_extend_secs = MID_TTL_EXTEND_SECS\<rparr>"

definition clamp_ttl :: "int \<Rightarrow> int option" where
  "clamp_ttl v = (if v \<le> 0 then None else Some (min v MAX_TTL_SECS))"

definition ttl_from_config :: "TtlConfig option \<Rightarrow> ResolvedTtl" where
  "ttl_from_config cfg =
     (case cfg of
        None \<Rightarrow> resolved_ttl_default
      | Some c \<Rightarrow>
          let d = resolved_ttl_default;
              pick = (\<lambda>x fallback. case x of None \<Rightarrow> fallback | Some v \<Rightarrow> clamp_ttl v)
          in \<lparr>rt_short_ttl_secs = pick (tt_short_ttl_secs c) (rt_short_ttl_secs d),
              rt_mid_ttl_secs = pick (tt_mid_ttl_secs c) (rt_mid_ttl_secs d),
              rt_long_ttl_secs = pick (tt_long_ttl_secs c) (rt_long_ttl_secs d),
              rt_short_extend_secs = max (unwrap_or (rt_short_extend_secs d) (tt_short_extend_secs c)) 0,
              rt_mid_extend_secs = max (unwrap_or (rt_mid_extend_secs d) (tt_mid_extend_secs c)) 0\<rparr>)"

fun ttl_for_tier :: "ResolvedTtl \<Rightarrow> Tier \<Rightarrow> int option" where
  "ttl_for_tier t Short = rt_short_ttl_secs t"
| "ttl_for_tier t Mid = rt_mid_ttl_secs t"
| "ttl_for_tier t Long = rt_long_ttl_secs t"

fun extend_for_tier :: "ResolvedTtl \<Rightarrow> Tier \<Rightarrow> int option" where
  "extend_for_tier t Short = Some (rt_short_extend_secs t)"
| "extend_for_tier t Mid = Some (rt_mid_extend_secs t)"
| "extend_for_tier t Long = None"

section \<open>The state of the server\<close>

type_synonym embedding = "32 word list"

datatype ToolEvent =
    Dispatched str str str "str option" "(str \<times> json) list option"
  | ApprovalDispatched str
  | Audited EventBuilder
  | Published ApprovalEvent

record tool_state =
  tl_db :: Db
  tl_quotas :: quota_table
  tl_index :: "embedding IndexState option"
  tl_remembered :: "SyntheticPermissionRule list"
  tl_events :: "ToolEvent list"

record llm_client =
  lm_auto_tag :: "str \<Rightarrow> str \<Rightarrow> str list option"
  lm_detect_contradiction :: "str \<Rightarrow> str \<Rightarrow> bool option"
  lm_summarize :: "(str \<times> str) list \<Rightarrow> str option"

record tool_env =
  tv_process :: process_env
  tv_client :: "str option"
  tv_rules :: "PermissionRule list"
  tv_mode :: PermissionsMode
  tv_policy :: "json \<Rightarrow> str + GovernancePolicy"
  tv_policy_json :: "GovernancePolicy \<Rightarrow> json"
  tv_ser :: "json \<Rightarrow> str"
  tv_mem_json :: "Memory \<Rightarrow> json"
  tv_mem_of :: "json \<Rightarrow> str + Memory"
  tv_rfc3339 :: rfc3339
  tv_ttl :: ResolvedTtl
  tv_now :: str
  tv_later :: "int \<Rightarrow> str"
  tv_db_now :: str
  tv_quota_now :: str
  tv_refund_now :: str
  tv_nanos :: nat
  tv_uuid :: str
  tv_pending_id :: str
  tv_minus_days :: "str \<Rightarrow> int \<Rightarrow> str"
  tv_fts :: "str \<Rightarrow> MemRow \<Rightarrow> bool"
  tv_rank :: "str \<Rightarrow> MemRow \<Rightarrow> rat"
  tv_embedder :: "(str \<Rightarrow> embedding option) option"
  tv_llm :: "llm_client option"
  tv_autonomous :: bool
  tv_archive :: bool
  tv_crypto :: crypto
  tv_keypair :: "AgentKeypair option"

datatype ToolError =
    Required str
  | InvalidTier str
  | InvalidOnConflict str
  | Invalid ValidationError
  | Conflict str
  | PermissionDenied Reason
  | GovernanceDenied str
  | QuotaRefused QuotaCheckError
  | DbFailed DbError
  | MissingMemory
  | MustBeString nat
  | SummaryRequired
  | SummaryFailed
  | InvalidGovernance str
  | ApproveRejected str
  | NotPending
  | NotArchived
  | Panicked

datatype ToolReply =
    Ask Reason
  | PendingApproval str
  | Stored str Tier str str str "str list" "str list" "str list" "str option"
  | Merged str Tier str str "str option"
  | Deleted
  | PromotedTo str str str
  | PromotedTier str
  | WouldForget nat
  | Forgotten nat bool
  | Updated "Memory option"
  | Linked str str str AttestLevel
  | Consolidated str nat "str option" "str list"
  | StandardSet str str "str option"
  | StandardCleared bool str
  | AgentRegistered str
  | Notified str str str str
  | ApprovedAs "str option"
  | VotesMissing nat nat
  | PendingRejected
  | Restored str
  | Purged nat
  | Collected nat bool

type_synonym tool_result = "(ToolError + ToolReply) \<times> tool_state"

definition emit_event :: "ToolEvent \<Rightarrow> tool_state \<Rightarrow> tool_state" where
  "emit_event e st = st\<lparr>tl_events := tl_events st @ [e]\<rparr>"

section \<open>Parameters\<close>

fun bindE :: "'e + 'a \<Rightarrow> ('a \<Rightarrow> 'e + 'b) \<Rightarrow> 'e + 'b" where
  "bindE (Inl e) f = Inl e"
| "bindE (Inr x) f = f x"

definition checked :: "ValidationError + 'a \<Rightarrow> ToolError + 'a" where
  "checked r = (case r of Inl e \<Rightarrow> Inl (Invalid e) | Inr x \<Rightarrow> Inr x)"

definition db_err :: "DbError + 'a \<Rightarrow> ToolError + 'a" where
  "db_err r = (case r of Inl e \<Rightarrow> Inl (DbFailed e) | Inr x \<Rightarrow> Inr x)"

definition param_str :: "json \<Rightarrow> str \<Rightarrow> str option" where
  "param_str params k = Option.bind (json_get params k) json_str"

definition param_i64 :: "json \<Rightarrow> str \<Rightarrow> int option" where
  "param_i64 params k =
     (case json_get params k of Some (JInt i) \<Rightarrow> if in_i64 i then Some i else None | _ \<Rightarrow> None)"

definition param_f64 :: "json \<Rightarrow> str \<Rightarrow> f64 option" where
  "param_f64 params k =
     (case json_get params k of Some (JInt i) \<Rightarrow> Some (Fin (of_int i)) | Some (JFloat r) \<Rightarrow> Some (Fin r) | _ \<Rightarrow> None)"

definition param_bool :: "json \<Rightarrow> str \<Rightarrow> bool option" where
  "param_bool params k = (case json_get params k of Some (JBool b) \<Rightarrow> Some b | _ \<Rightarrow> None)"

definition param_strs :: "json \<Rightarrow> str \<Rightarrow> str list option" where
  "param_strs params k = (case json_get params k of Some (JArr vs) \<Rightarrow> Some (List.map_filter json_str vs) | _ \<Rightarrow> None)"

definition require :: "json \<Rightarrow> str \<Rightarrow> ToolError + str" where
  "require params k = (case param_str params k of None \<Rightarrow> Inl (Required k) | Some s \<Rightarrow> Inr s)"

definition to_i32 :: "int \<Rightarrow> ToolError + int" where
  "to_i32 i = (if - (2 ^ 31) \<le> i \<and> i < 2 ^ 31 then Inr i else Inl Panicked)"

definition owner_of :: "Memory \<Rightarrow> str option" where
  "owner_of mem = param_str (m_metadata mem) ''agent_id''"

definition caller :: "tool_env \<Rightarrow> json \<Rightarrow> str option \<Rightarrow> ToolError + str" where
  "caller env params client = checked (resolve_agent_id (tv_process env) (param_str params ''agent_id'') client)"

section \<open>Gates\<close>

text \<open>The permission pipeline in front of a tool: it passes, refuses or asks.\<close>

definition permission_gate :: "tool_env \<Rightarrow> tool_state \<Rightarrow> Op \<Rightarrow> str \<Rightarrow> str \<Rightarrow> json \<Rightarrow> ToolError + ToolReply option" where
  "permission_gate env st oper namespace agent_id payload =
     (case evaluate (tl_remembered st) (tv_rules env) (tv_mode env)
         \<lparr>pc_op = oper, pc_namespace = namespace, pc_agent_id = agent_id, pc_payload = payload\<rparr> [] of
        PAllow \<Rightarrow> Inr None
      | PModify _ \<Rightarrow> Inr None
      | PDeny reason \<Rightarrow> Inl (PermissionDenied reason)
      | PAsk prompt \<Rightarrow> Inr (Some (Ask prompt)))"

text \<open>The governance gate, which may queue the action; a queued action is announced to the approvers.\<close>

definition governance_gate ::
    "tool_env \<Rightarrow> GovernedAction \<Rightarrow> str \<Rightarrow> str \<Rightarrow> str option \<Rightarrow> str option \<Rightarrow> json \<Rightarrow> tool_state
      \<Rightarrow> (ToolError + ToolReply option) \<times> tool_state" where
  "governance_gate env action namespace agent_id memory_id memory_owner payload st =
     (case enforce_governance (tv_mode env) (tv_policy env) (tv_pending_id env) (tv_db_now env) (tl_db st) action namespace
         agent_id memory_id memory_owner payload of
        (Inl e, db) \<Rightarrow> (Inl (DbFailed e), st\<lparr>tl_db := db\<rparr>)
      | (Inr Allow, db) \<Rightarrow> (Inr None, st\<lparr>tl_db := db\<rparr>)
      | (Inr (Deny reason), db) \<Rightarrow> (Inl (GovernanceDenied reason), st\<lparr>tl_db := db\<rparr>)
      | (Inr (Pending pending_id), db) \<Rightarrow>
          (Inr (Some (PendingApproval pending_id)), emit_event (ApprovalDispatched pending_id) (st\<lparr>tl_db := db\<rparr>)))"

text \<open>Runs the rest of a tool behind a gate.\<close>

definition past_gate :: "(ToolError + ToolReply option) \<times> tool_state \<Rightarrow> (tool_state \<Rightarrow> tool_result) \<Rightarrow> tool_result" where
  "past_gate g rest =
     (case g of
        (Inl e, st) \<Rightarrow> (Inl e, st)
      | (Inr (Some reply), st) \<Rightarrow> (Inr reply, st)
      | (Inr None, st) \<Rightarrow> rest st)"

text \<open>
  The embedding of a memory: it is written to the row, where a foreign dimension is refused and logged, and put in the index,
  with \<open>replace\<close> after removing the old entry.
\<close>

definition embed_memory :: "tool_env \<Rightarrow> bool \<Rightarrow> str \<Rightarrow> str \<Rightarrow> tool_state \<Rightarrow> tool_state" where
  "embed_memory env replace i body st =
     (case tv_embedder env of
        None \<Rightarrow> st
      | Some emb \<Rightarrow>
          (case emb body of
             None \<Rightarrow> st
           | Some v \<Rightarrow>
               st\<lparr>tl_db := snd (set_embedding (tl_db st) i v),
                  tl_index := map_option (\<lambda>ix. index_insert (tv_nanos env) i v (if replace then index_remove i ix else ix))
                    (tl_index st)\<rparr>))"

section \<open>memory\_store\<close>

datatype OnConflict = OnError | OnMerge | OnVersion

definition on_conflict_parse :: "str \<Rightarrow> ToolError + OnConflict" where
  "on_conflict_parse s =
     (if s = ''error'' then Inr OnError
      else if s = ''merge'' then Inr OnMerge
      else if s = ''version'' then Inr OnVersion
      else Inl (InvalidOnConflict s))"

definition default_on_conflict_for_client :: "str option \<Rightarrow> OnConflict" where
  "default_on_conflict_for_client mcp_client =
     (case mcp_client of
        None \<Rightarrow> OnMerge
      | Some client \<Rightarrow>
          let normalized = to_ascii_lowercase (hd (split_on CHR ''@'' client))
          in if list_ex (starts_with normalized) [''ai:claude-code'', ''ai:ai-memory-cli/v2''] then OnError else OnMerge)"

definition AUTONOMY_MIN_CONTENT_LEN :: nat where "AUTONOMY_MIN_CONTENT_LEN = 50"

definition find_contradictions :: "(str \<Rightarrow> MemRow \<Rightarrow> bool) \<Rightarrow> (str \<Rightarrow> MemRow \<Rightarrow> rat) \<Rightarrow> Db \<Rightarrow> str \<Rightarrow> str \<Rightarrow> Memory list" where
  "find_contradictions fts rnk db title namespace =
     (let fts_query = sanitize_fts_query title True
      in map row_to_memory (take 5 (order_by (\<lambda>a b. rnk fts_query a < rnk fts_query b)
           (filter (\<lambda>r. fts fts_query r \<and> m_namespace r = namespace) (db_memories db)))))"

record store_request =
  sq_title :: str
  sq_content :: str
  sq_tier :: Tier
  sq_namespace :: str
  sq_source :: str
  sq_on_conflict :: OnConflict
  sq_priority :: int
  sq_confidence :: f64
  sq_tags :: "str list"
  sq_metadata :: "(str \<times> json) list"
  sq_agent_id :: str
  sq_scope :: "str option"

text \<open>The author and the scope a store writes into the metadata of the memory.\<close>

definition store_metadata ::
    "tool_env \<Rightarrow> json \<Rightarrow> ToolError + (str \<times> json) list \<times> str \<times> str option" where
  "store_metadata env params =
     (let metadata = (case json_get params ''metadata'' of Some (JObj kvs) \<Rightarrow> kvs | _ \<Rightarrow> []);
          explicit = (case param_str params ''agent_id'' of None \<Rightarrow> param_str (JObj metadata) ''agent_id'' | s \<Rightarrow> s)
      in bindE (checked (resolve_agent_id (tv_process env) explicit (tv_client env))) (\<lambda>agent_id.
         let md1 = obj_insert ''agent_id'' (JStr agent_id) metadata;
             scope = (case param_str params ''scope'' of None \<Rightarrow> param_str (JObj md1) ''scope'' | s \<Rightarrow> s)
         in bindE (checked (check_opt validate_scope scope)) (\<lambda>_.
            let md2 = (case scope of None \<Rightarrow> md1 | Some s \<Rightarrow> obj_insert ''scope'' (JStr s) md1)
            in bindE (checked (validate_metadata (tv_ser env) (JObj md2))) (\<lambda>_. Inr (md2, agent_id, scope)))))"

definition parse_store :: "tool_env \<Rightarrow> json \<Rightarrow> ToolError + store_request" where
  "parse_store env params =
     bindE (require params ''title'') (\<lambda>title.
     bindE (require params ''content'') (\<lambda>content.
     let tier_str = unwrap_or ''mid'' (param_str params ''tier'') in
     bindE (case tier_from_str tier_str of None \<Rightarrow> Inl (InvalidTier tier_str) | Some t \<Rightarrow> Inr t) (\<lambda>tier.
     let namespace = unwrap_or ''global'' (param_str params ''namespace'');
         source = unwrap_or ''claude'' (param_str params ''source'') in
     bindE (case param_str params ''on_conflict'' of
              Some s \<Rightarrow> on_conflict_parse s
            | None \<Rightarrow> Inr (default_on_conflict_for_client (tv_client env))) (\<lambda>on_conflict.
     bindE (to_i32 (unwrap_or 5 (param_i64 params ''priority''))) (\<lambda>priority.
     let confidence = unwrap_or (Fin 1) (param_f64 params ''confidence'');
         tags = unwrap_or [] (param_strs params ''tags'') in
     bindE (checked (first_err [validate_title title, validate_content content, validate_namespace namespace,
              validate_source source, validate_tags tags, validate_priority priority, validate_confidence confidence])) (\<lambda>_.
     bindE (store_metadata env params) (\<lambda>(metadata, agent_id, scope).
       Inr \<lparr>sq_title = title, sq_content = content, sq_tier = tier, sq_namespace = namespace, sq_source = source,
            sq_on_conflict = on_conflict, sq_priority = priority, sq_confidence = confidence, sq_tags = tags,
            sq_metadata = metadata, sq_agent_id = agent_id, sq_scope = scope\<rparr>)))))))"

definition resolve_title :: "Db \<Rightarrow> store_request \<Rightarrow> ToolError + str" where
  "resolve_title db rq =
     (case sq_on_conflict rq of
        OnError \<Rightarrow>
          (case find_by_title_namespace db (sq_title rq) (sq_namespace rq) of
             Some existing_id \<Rightarrow> Inl (Conflict existing_id)
           | None \<Rightarrow> Inr (sq_title rq))
      | OnVersion \<Rightarrow> db_err (next_versioned_title db (sq_title rq) (sq_namespace rq))
      | OnMerge \<Rightarrow> Inr (sq_title rq))"

fun clamp_unit :: "f64 \<Rightarrow> f64" where
  "clamp_unit NaN = NaN"
| "clamp_unit (Infinite positive) = Fin (if positive then 1 else 0)"
| "clamp_unit (Fin r) = Fin (max 0 (min r 1))"

definition store_memory :: "tool_env \<Rightarrow> store_request \<Rightarrow> str \<Rightarrow> Memory" where
  "store_memory env rq title =
     \<lparr>m_id = tv_uuid env, m_tier = sq_tier rq, m_namespace = sq_namespace rq, m_title = title,
      m_content = sq_content rq, m_tags = sq_tags rq, m_priority = max 1 (min (sq_priority rq) 10),
      m_confidence = clamp_unit (sq_confidence rq), m_source = sq_source rq, m_access_count = 0,
      m_created_at = tv_now env, m_updated_at = tv_now env, m_last_accessed_at = None,
      m_expires_at = map_option (tv_later env) (ttl_for_tier (tv_ttl env) (sq_tier rq)),
      m_metadata = JObj (sq_metadata rq)\<rparr>"

definition no_update :: UpdateMemory where
  "no_update = \<lparr>u_title = None, u_content = None, u_tier = None, u_namespace = None, u_tags = None, u_priority = None,
     u_confidence = None, u_expires_at = None, u_metadata = None\<rparr>"

text \<open>A memory with the same title is updated in place and keeps its author.\<close>

definition merge_existing :: "tool_env \<Rightarrow> Memory \<Rightarrow> Memory \<Rightarrow> tool_state \<Rightarrow> tool_result" where
  "merge_existing env mem dup st =
     (let preserved = preserve_agent_id (m_metadata dup) (m_metadata mem) in
      case update (tv_db_now env) (tl_db st) (m_id dup)
          (no_update\<lparr>u_content := Some (m_content mem), u_tier := Some (m_tier mem), u_tags := Some (m_tags mem),
             u_priority := Some (m_priority mem), u_confidence := Some (m_confidence mem), u_metadata := Some preserved\<rparr>) of
        (Inl e, db) \<Rightarrow> (Inl (DbFailed e), st\<lparr>tl_db := db\<rparr>)
      | (Inr (found, content_changed), db) \<Rightarrow>
          let st1 = st\<lparr>tl_db := db\<rparr>;
              st2 = (if content_changed then embed_memory env True (m_id dup) (m_title mem @ '' '' @ m_content mem) st1 else st1)
          in (Inr (Merged (m_id dup) (m_tier mem) (m_title mem) (m_namespace mem) (param_str preserved ''agent_id'')), st2))"

definition payload_bytes :: "tool_env \<Rightarrow> Memory \<Rightarrow> int" where
  "payload_bytes env mem =
     min (int (length (m_title mem) + length (m_content mem) + length (tv_ser env (m_metadata mem)))) (2 ^ 63 - 1)"

definition audit_store :: "tool_env \<Rightarrow> store_request \<Rightarrow> str \<Rightarrow> Memory \<Rightarrow> EventBuilder" where
  "audit_store env rq actual_id mem =
     builder_new AStore
       (audit_actor (sq_agent_id rq) (if tv_client env = None then ''host_fallback'' else ''mcp_client_info'') (sq_scope rq))
       (target_memory actual_id (m_namespace mem) (Some (m_title mem)) (Some (tier_as_str (m_tier mem))) (sq_scope rq))"

definition hooks_skipped_reason :: "tool_env \<Rightarrow> Memory \<Rightarrow> str option" where
  "hooks_skipped_reason env mem =
     (if \<not> tv_autonomous env then Some ''disabled''
      else if tv_llm env = None then Some ''no_llm''
      else if length (m_content mem) < AUTONOMY_MIN_CONTENT_LEN then Some ''content_too_short''
      else if starts_with (m_namespace mem) ''_'' then Some ''internal_namespace''
      else None)"

definition persist_hook_results :: "tool_env \<Rightarrow> str \<Rightarrow> Memory \<Rightarrow> str list \<Rightarrow> str list \<Rightarrow> Db \<Rightarrow> Db" where
  "persist_hook_results env actual_id mem auto_tags confirmed db =
     (if auto_tags = [] \<and> confirmed = [] then db
      else let strs = (\<lambda>xs. JArr (map JStr xs));
               add = (\<lambda>k xs md. if xs = [] then md
                       else (case md of JObj kvs \<Rightarrow> JObj (obj_insert k (strs xs) kvs) | v \<Rightarrow> v));
               md = add ''confirmed_contradictions'' confirmed (add ''auto_tags'' auto_tags (m_metadata mem))
           in snd (update (tv_db_now env) db actual_id (no_update\<lparr>u_metadata := Some md\<rparr>)))"

text \<open>The hooks after a store: the tags and the contradictions the language model reports are written to the metadata.\<close>

definition autonomy_hooks ::
    "tool_env \<Rightarrow> str \<Rightarrow> Memory \<Rightarrow> Memory list \<Rightarrow> tool_state \<Rightarrow> (str list \<times> str list) \<times> tool_state" where
  "autonomy_hooks env actual_id mem existing st =
     (case (hooks_skipped_reason env mem, tv_llm env) of
        (None, Some llm) \<Rightarrow>
          let auto_tags = (case lm_auto_tag llm (m_title mem) (m_content mem) of None \<Rightarrow> [] | Some tags \<Rightarrow> take 8 tags);
              confirmed = map m_id (filter (\<lambda>c. m_id c \<noteq> actual_id \<and> m_id c \<noteq> m_id mem
                            \<and> lm_detect_contradiction llm (m_content mem) (m_content c) = Some True) existing)
          in ((auto_tags, confirmed),
              st\<lparr>tl_db := persist_hook_results env actual_id mem auto_tags confirmed (tl_db st)\<rparr>)
      | _ \<Rightarrow> (([], []), st))"

definition after_store :: "tool_env \<Rightarrow> store_request \<Rightarrow> Memory \<Rightarrow> Memory list \<Rightarrow> str \<Rightarrow> tool_state \<Rightarrow> tool_result" where
  "after_store env rq mem existing actual_id st =
     (let st1 = emit_event (Audited (audit_store env rq actual_id mem)) st;
          contradictions = map m_id (filter (\<lambda>c. m_id c \<noteq> m_id mem \<and> m_id c \<noteq> actual_id) existing);
          st2 = embed_memory env False actual_id (m_title mem @ '' '' @ m_content mem) st1
      in case autonomy_hooks env actual_id mem existing st2 of
           ((auto_tags, confirmed), st3) \<Rightarrow>
             (Inr (Stored actual_id (m_tier mem) (m_title mem) (m_namespace mem) (sq_agent_id rq) contradictions auto_tags
                 confirmed (if tv_autonomous env then hooks_skipped_reason env mem else None)),
              emit_event (Dispatched ''memory_store'' actual_id (m_namespace mem) (Some (sq_agent_id rq)) None) st3))"

text \<open>Storing a new row: the quota is charged first and given back when the insertion fails.\<close>

definition store_new :: "tool_env \<Rightarrow> store_request \<Rightarrow> Memory \<Rightarrow> Memory list \<Rightarrow> tool_state \<Rightarrow> tool_result" where
  "store_new env rq mem existing st =
     (let oper = MemoryOp (payload_bytes env mem) in
      case check_and_record (tv_quota_now env) (tl_quotas st) (sq_agent_id rq) oper of
        (Inl e, quotas) \<Rightarrow> (Inl (QuotaRefused e), st\<lparr>tl_quotas := quotas\<rparr>)
      | (Inr _, quotas) \<Rightarrow>
          (case insert_mem (tl_db st) mem of
             (Inl e, db) \<Rightarrow>
               (Inl (DbFailed e),
                st\<lparr>tl_db := db, tl_quotas := refund_op (tv_refund_now env) quotas (sq_agent_id rq) oper\<rparr>)
           | (Inr actual_id, db) \<Rightarrow> after_store env rq mem existing actual_id (st\<lparr>tl_db := db, tl_quotas := quotas\<rparr>)))"

definition store_checked :: "tool_env \<Rightarrow> store_request \<Rightarrow> Memory \<Rightarrow> tool_state \<Rightarrow> tool_result" where
  "store_checked env rq mem st =
     (let existing = find_contradictions (tv_fts env) (tv_rank env) (tl_db st) (m_title mem) (m_namespace mem);
          exact_dup = (if sq_on_conflict rq = OnMerge
                       then find (\<lambda>c. m_title c = m_title mem \<and> m_namespace c = m_namespace mem) existing else None)
      in case exact_dup of
           Some dup \<Rightarrow> merge_existing env mem dup st
         | None \<Rightarrow> store_new env rq mem existing st)"

definition handle_store :: "tool_env \<Rightarrow> json \<Rightarrow> tool_state \<Rightarrow> tool_result" where
  "handle_store env params st =
     (case bindE (parse_store env params) (\<lambda>rq. bindE (resolve_title (tl_db st) rq) (\<lambda>title. Inr (rq, title))) of
        Inl e \<Rightarrow> (Inl e, st)
      | Inr (rq, title) \<Rightarrow>
          let mem = store_memory env rq title; payload = tv_mem_json env mem
          in past_gate (permission_gate env st MemoryStore (m_namespace mem) (sq_agent_id rq) payload, st) (\<lambda>st1.
             past_gate (governance_gate env Store (m_namespace mem) (sq_agent_id rq) None None payload st1)
               (store_checked env rq mem)))"

section \<open>Deleting, promoting, forgetting, updating\<close>

definition find_target :: "Db \<Rightarrow> str \<Rightarrow> ToolError + Memory" where
  "find_target db i =
     (case get db i of
        Some mem \<Rightarrow> Inr mem
      | None \<Rightarrow> bindE (db_err (get_by_prefix db i)) (\<lambda>found. case found of None \<Rightarrow> Inl MissingMemory | Some mem \<Rightarrow> Inr mem))"

definition require_id :: "json \<Rightarrow> str \<Rightarrow> ToolError + str" where
  "require_id params k = bindE (require params k) (\<lambda>i. bindE (checked (validate_id i)) (\<lambda>_. Inr i))"

definition audit_delete :: "tool_env \<Rightarrow> Memory \<Rightarrow> EventBuilder" where
  "audit_delete env target =
     builder_new ADelete
       (audit_actor (unwrap_or ''unknown'' (owner_of target))
         (if tv_client env = None then ''host_fallback'' else ''mcp_client_info'') None)
       (target_memory (m_id target) (m_namespace target) (Some (m_title target)) (Some (tier_as_str (m_tier target))) None)"

definition delete_checked :: "tool_env \<Rightarrow> Memory \<Rightarrow> tool_state \<Rightarrow> tool_result" where
  "delete_checked env target st =
     (case delete (tl_db st) (m_id target) of
        (deleted, db) \<Rightarrow>
          if deleted then
            (Inr Deleted,
             emit_event (Dispatched ''memory_delete'' (m_id target) (m_namespace target) (owner_of target)
                 (Some [(''title'', JStr (m_title target)), (''tier'', JStr (tier_as_str (m_tier target)))]))
               (emit_event (Audited (audit_delete env target))
                 (st\<lparr>tl_db := db, tl_index := map_option (index_remove (m_id target)) (tl_index st)\<rparr>)))
          else (Inl MissingMemory, st\<lparr>tl_db := db\<rparr>))"

definition handle_delete :: "tool_env \<Rightarrow> json \<Rightarrow> tool_state \<Rightarrow> tool_result" where
  "handle_delete env params st =
     (case bindE (require_id params ''id'') (find_target (tl_db st)) of
        Inl e \<Rightarrow> (Inl e, st)
      | Inr target \<Rightarrow>
          (case caller env params (tv_client env) of
             Inl e \<Rightarrow> (Inl e, st)
           | Inr agent_id \<Rightarrow>
               let payload = JObj [(''id'', JStr (m_id target)), (''title'', JStr (m_title target))]
               in past_gate (permission_gate env st MemoryDelete (m_namespace target) agent_id payload, st) (\<lambda>st1.
                  past_gate (governance_gate env Delete (m_namespace target) agent_id (Some (m_id target)) (owner_of target)
                      payload st1)
                    (delete_checked env target))))"

definition promote_dispatch :: "Memory \<Rightarrow> (str \<times> json) list \<Rightarrow> tool_state \<Rightarrow> tool_state" where
  "promote_dispatch target details =
     emit_event (Dispatched ''memory_promote'' (m_id target) (m_namespace target) (owner_of target) (Some details))"

definition promote_checked :: "tool_env \<Rightarrow> json \<Rightarrow> Memory \<Rightarrow> tool_state \<Rightarrow> tool_result" where
  "promote_checked env params target st =
     (case param_str params ''to_namespace'' of
        Some to_ns \<Rightarrow>
          (case validate_namespace to_ns of
             Inl e \<Rightarrow> (Inl (Invalid e), st)
           | Inr _ \<Rightarrow>
               (case promote_to_namespace (tv_uuid env) (tv_db_now env) (tl_db st) (m_id target) to_ns of
                  (Inl e, db) \<Rightarrow> (Inl (DbFailed e), st\<lparr>tl_db := db\<rparr>)
                | (Inr clone_id, db) \<Rightarrow>
                    (Inr (PromotedTo (m_id target) clone_id to_ns),
                     promote_dispatch target
                       [(''mode'', JStr ''vertical''), (''to_namespace'', JStr to_ns), (''clone_id'', JStr clone_id)]
                       (st\<lparr>tl_db := db\<rparr>))))
      | None \<Rightarrow>
          (case update (tv_db_now env) (tl_db st) (m_id target)
              (no_update\<lparr>u_tier := Some Long, u_expires_at := Some []\<rparr>) of
             (Inl e, db) \<Rightarrow> (Inl (DbFailed e), st\<lparr>tl_db := db\<rparr>)
           | (Inr (found, changed), db) \<Rightarrow>
               if \<not> found then (Inl MissingMemory, st\<lparr>tl_db := db\<rparr>)
               else (Inr (PromotedTier (m_id target)),
                     promote_dispatch target [(''mode'', JStr ''tier''), (''tier'', JStr ''long'')] (st\<lparr>tl_db := db\<rparr>))))"

definition handle_promote :: "tool_env \<Rightarrow> json \<Rightarrow> tool_state \<Rightarrow> tool_result" where
  "handle_promote env params st =
     (case bindE (require_id params ''id'') (find_target (tl_db st)) of
        Inl e \<Rightarrow> (Inl e, st)
      | Inr target \<Rightarrow>
          (case caller env params (tv_client env) of
             Inl e \<Rightarrow> (Inl e, st)
           | Inr agent_id \<Rightarrow>
               let payload = JObj [(''id'', JStr (m_id target)),
                     (''to_namespace'', case param_str params ''to_namespace'' of None \<Rightarrow> JNull | Some s \<Rightarrow> JStr s)]
               in past_gate (governance_gate env Promote (m_namespace target) agent_id (Some (m_id target)) (owner_of target)
                      payload st)
                    (promote_checked env params target)))"

definition handle_forget :: "tool_env \<Rightarrow> json \<Rightarrow> tool_state \<Rightarrow> tool_result" where
  "handle_forget env params st =
     (let namespace = param_str params ''namespace'';
          pattern = param_str params ''pattern'';
          tier = Option.bind (param_str params ''tier'') tier_from_str
      in if unwrap_or False (param_bool params ''dry_run'') then
           (case db_err (forget_count (tv_fts env) (tl_db st) namespace pattern tier) of
              Inl e \<Rightarrow> (Inl e, st)
            | Inr n \<Rightarrow> (Inr (WouldForget n), st))
         else
           (case forget (tv_fts env) (tv_db_now env) (tl_db st) namespace pattern tier (tv_archive env) of
              (Inl e, db) \<Rightarrow> (Inl (DbFailed e), st\<lparr>tl_db := db\<rparr>)
            | (Inr n, db) \<Rightarrow> (Inr (Forgotten n (tv_archive env)), st\<lparr>tl_db := db\<rparr>)))"

text \<open>The requested changes of an update, checked, with the author of the memory kept.\<close>

definition parse_update :: "tool_env \<Rightarrow> json \<Rightarrow> Db \<Rightarrow> str \<Rightarrow> ToolError + UpdateMemory" where
  "parse_update env params db i =
     bindE (case param_i64 params ''priority'' of None \<Rightarrow> Inr None | Some p \<Rightarrow> bindE (to_i32 p) (\<lambda>p. Inr (Some p))) (\<lambda>priority.
     let title = param_str params ''title'';
         content = param_str params ''content'';
         namespace = param_str params ''namespace'';
         tags = param_strs params ''tags'';
         confidence = param_f64 params ''confidence'';
         expires_at = param_str params ''expires_at'' in
     bindE (checked (first_err [check_opt validate_title title, check_opt validate_content content,
              check_opt validate_namespace namespace, check_opt validate_tags tags, check_opt validate_priority priority,
              check_opt validate_confidence confidence, check_opt (validate_expires_at_format (tv_rfc3339 env)) expires_at])) (\<lambda>_.
     bindE (case json_get params ''metadata'' of
              Some (JObj kvs) \<Rightarrow>
                bindE (checked (validate_metadata (tv_ser env) (JObj kvs))) (\<lambda>_.
                  Inr (Some (preserve_agent_id (case get db i of None \<Rightarrow> JObj [] | Some mem \<Rightarrow> m_metadata mem) (JObj kvs))))
            | _ \<Rightarrow> Inr None) (\<lambda>metadata.
       Inr \<lparr>u_title = title, u_content = content, u_tier = Option.bind (param_str params ''tier'') tier_from_str,
            u_namespace = namespace, u_tags = tags, u_priority = priority, u_confidence = confidence,
            u_expires_at = expires_at, u_metadata = metadata\<rparr>)))"

definition handle_update :: "tool_env \<Rightarrow> json \<Rightarrow> tool_state \<Rightarrow> tool_result" where
  "handle_update env params st =
     (case bindE (require_id params ''id'') (find_target (tl_db st)) of
        Inl e \<Rightarrow> (Inl e, st)
      | Inr target \<Rightarrow>
          (case parse_update env params (tl_db st) (m_id target) of
             Inl e \<Rightarrow> (Inl e, st)
           | Inr u \<Rightarrow>
               (case update (tv_db_now env) (tl_db st) (m_id target) u of
                  (Inl e, db) \<Rightarrow> (Inl (DbFailed e), st\<lparr>tl_db := db\<rparr>)
                | (Inr (found, content_changed), db) \<Rightarrow>
                    if \<not> found then (Inl MissingMemory, st\<lparr>tl_db := db\<rparr>)
                    else let st1 = st\<lparr>tl_db := db\<rparr>;
                             st2 = (case (content_changed, get db (m_id target)) of
                                      (True, Some mem) \<Rightarrow> embed_memory env True (m_id target) (m_title mem @ '' '' @ m_content mem) st1
                                    | _ \<Rightarrow> st1)
                         in (Inr (Updated (get (tl_db st2) (m_id target))), st2))))"

section \<open>Links and consolidation\<close>

definition link_charged :: "tool_env \<Rightarrow> str option \<Rightarrow> quota_table \<Rightarrow> QuotaCheckError check \<times> quota_table" where
  "link_charged env payer quotas =
     (case payer of None \<Rightarrow> (Inr (), quotas) | Some a \<Rightarrow> check_and_record (tv_quota_now env) quotas a LinkOp)"

definition link_refunded :: "tool_env \<Rightarrow> str option \<Rightarrow> quota_table \<Rightarrow> quota_table" where
  "link_refunded env payer quotas =
     (case payer of None \<Rightarrow> quotas | Some a \<Rightarrow> refund_op (tv_refund_now env) quotas a LinkOp)"

definition link_namespace :: "Db \<Rightarrow> str \<Rightarrow> str" where
  "link_namespace db source_id = (case get db source_id of Some mem \<Rightarrow> m_namespace mem | None \<Rightarrow> ''global'')"

text \<open>A link is charged to the owner of its source; the charge is given back when the link cannot be written.\<close>

definition link_checked :: "tool_env \<Rightarrow> str \<Rightarrow> str \<Rightarrow> str \<Rightarrow> tool_state \<Rightarrow> tool_result" where
  "link_checked env source_id target_id relation st =
     (let payer = Option.bind (get (tl_db st) source_id) owner_of in
      case link_charged env payer (tl_quotas st) of
        (Inl e, quotas) \<Rightarrow> (Inl (QuotaRefused e), st\<lparr>tl_quotas := quotas\<rparr>)
      | (Inr _, quotas) \<Rightarrow>
          (case create_link_signed (tv_crypto env) (tv_db_now env) (tl_db st) source_id target_id relation (tv_keypair env) of
             (Inl e, db) \<Rightarrow> (Inl (DbFailed e), st\<lparr>tl_db := db, tl_quotas := link_refunded env payer quotas\<rparr>)
           | (Inr attest_level, db) \<Rightarrow>
               (Inr (Linked source_id target_id relation attest_level),
                emit_event (Dispatched ''memory_link_created'' source_id
                    (link_namespace db source_id)
                    (Option.bind (get db source_id) owner_of)
                    (Some [(''target_id'', JStr target_id), (''relation'', JStr relation)]))
                  (st\<lparr>tl_db := db, tl_quotas := quotas\<rparr>))))"

definition parse_link :: "tool_env \<Rightarrow> json \<Rightarrow> ToolError + str \<times> str \<times> str \<times> str" where
  "parse_link env params =
     bindE (require params ''source_id'') (\<lambda>source_id. bindE (require params ''target_id'') (\<lambda>target_id.
     let relation = unwrap_or ''related_to'' (param_str params ''relation'') in
     bindE (checked (validate_link source_id target_id relation)) (\<lambda>_.
     bindE (caller env params None) (\<lambda>agent_id. Inr (source_id, target_id, relation, agent_id)))))"

definition handle_link :: "tool_env \<Rightarrow> json \<Rightarrow> tool_state \<Rightarrow> tool_result" where
  "handle_link env params st =
     (case parse_link env params of
        Inl e \<Rightarrow> (Inl e, st)
      | Inr (source_id, target_id, relation, agent_id) \<Rightarrow>
          past_gate (permission_gate env st MemoryLink (link_namespace (tl_db st) source_id) agent_id
              (JObj [(''source_id'', JStr source_id), (''target_id'', JStr target_id), (''relation'', JStr relation)]), st)
            (link_checked env source_id target_id relation))"

fun parse_ids :: "nat \<Rightarrow> json list \<Rightarrow> ToolError + str list" where
  "parse_ids i [] = Inr []"
| "parse_ids i (v # vs) =
     (case json_str v of
        None \<Rightarrow> Inl (MustBeString i)
      | Some s \<Rightarrow> bindE (checked (validate_id s)) (\<lambda>_. bindE (parse_ids (Suc i) vs) (\<lambda>ids. Inr (s # ids))))"

fun memory_pairs :: "Db \<Rightarrow> str list \<Rightarrow> ToolError + (str \<times> str) list" where
  "memory_pairs db [] = Inr []"
| "memory_pairs db (i # ids) =
     (case get db i of
        None \<Rightarrow> Inl MissingMemory
      | Some mem \<Rightarrow> bindE (memory_pairs db ids) (\<lambda>ps. Inr ((m_title mem, m_content mem) # ps)))"

definition summary_for :: "tool_env \<Rightarrow> json \<Rightarrow> Db \<Rightarrow> str list \<Rightarrow> ToolError + str" where
  "summary_for env params db ids =
     (case (param_str params ''summary'', tv_llm env) of
        (Some s, _) \<Rightarrow> Inr s
      | (None, Some llm) \<Rightarrow>
          bindE (memory_pairs db ids) (\<lambda>pairs. case lm_summarize llm pairs of None \<Rightarrow> Inl SummaryFailed | Some s \<Rightarrow> Inr s)
      | (None, None) \<Rightarrow> Inl SummaryRequired)"

definition parse_consolidate :: "tool_env \<Rightarrow> json \<Rightarrow> Db \<Rightarrow> ToolError + str list \<times> str \<times> str \<times> str \<times> str" where
  "parse_consolidate env params db =
     bindE (case json_get params ''ids'' of Some (JArr vs) \<Rightarrow> parse_ids 0 vs | _ \<Rightarrow> Inl (Required ''ids'')) (\<lambda>ids.
     bindE (require params ''title'') (\<lambda>title.
     let namespace = unwrap_or ''global'' (param_str params ''namespace'') in
     bindE (summary_for env params db ids) (\<lambda>summary.
     bindE (checked (validate_consolidate ids title summary namespace)) (\<lambda>_.
     bindE (caller env params (tv_client env)) (\<lambda>agent_id. Inr (ids, title, summary, namespace, agent_id))))))"

definition remove_all :: "str list \<Rightarrow> embedding IndexState option \<Rightarrow> embedding IndexState option" where
  "remove_all ids = map_option (fold index_remove ids)"

text \<open>The sources leave the index before the consolidation and once more when the new memory enters it.\<close>

definition consolidate_checked ::
    "tool_env \<Rightarrow> json \<Rightarrow> str list \<Rightarrow> str \<Rightarrow> str \<Rightarrow> str \<Rightarrow> str \<Rightarrow> tool_state \<Rightarrow> tool_result" where
  "consolidate_checked env params ids title summary namespace agent_id st =
     (let st1 = st\<lparr>tl_index := remove_all ids (tl_index st)\<rparr> in
      case consolidate (tv_ser env) (tv_uuid env) (tv_db_now env) (tl_db st1) ids title summary namespace Long
          ''consolidation'' agent_id of
        (Inl e, db) \<Rightarrow> (Inl (DbFailed e), st1\<lparr>tl_db := db\<rparr>)
      | (Inr new_id, db) \<Rightarrow>
          let st2 = st1\<lparr>tl_db := db\<rparr>;
              body = title @ '' '' @ summary;
              st3 = (case Option.bind (tv_embedder env) (\<lambda>emb. emb body) of
                       None \<Rightarrow> st2
                     | Some _ \<Rightarrow> embed_memory env False new_id body (st2\<lparr>tl_index := remove_all ids (tl_index st2)\<rparr>));
              standard_ids = filter (is_namespace_standard (tl_db st3)) ids
          in (Inr (Consolidated new_id (length ids) (if param_str params ''summary'' = None then Some (concat (take 200 (char_slices summary))) else None) standard_ids),
              emit_event (Dispatched ''memory_consolidated'' new_id namespace (Some agent_id)
                (Some [(''source_ids'', JArr (map JStr ids)), (''source_count'', JInt (int (length ids)))])) st3))"

definition handle_consolidate :: "tool_env \<Rightarrow> json \<Rightarrow> tool_state \<Rightarrow> tool_result" where
  "handle_consolidate env params st =
     (case parse_consolidate env params (tl_db st) of
        Inl e \<Rightarrow> (Inl e, st)
      | Inr (ids, title, summary, namespace, agent_id) \<Rightarrow>
          past_gate (permission_gate env st MemoryConsolidate namespace agent_id
              (JObj [(''title'', JStr title), (''summary_chars'', JInt (int (length summary))),
                     (''source_ids'', JArr (map JStr ids))]), st)
            (consolidate_checked env params ids title summary namespace agent_id))"

section \<open>Namespace standards, agents, messages\<close>

text \<open>Writing a policy into the metadata of the memory that is to be the standard.\<close>

definition merge_governance :: "tool_env \<Rightarrow> json \<Rightarrow> str \<Rightarrow> tool_state \<Rightarrow> ToolError check \<times> tool_state" where
  "merge_governance env g i st =
     (case tv_policy env g of
        Inl e \<Rightarrow> (Inl (InvalidGovernance e), st)
      | Inr policy \<Rightarrow>
          (case validate_governance_policy policy of
             Inl e \<Rightarrow> (Inl (Invalid e), st)
           | Inr _ \<Rightarrow>
               (case get (tl_db st) i of
                  None \<Rightarrow> (Inl MissingMemory, st)
                | Some mem \<Rightarrow>
                    let metadata = JObj (obj_insert ''governance'' (tv_policy_json env policy)
                          (case m_metadata mem of JObj kvs \<Rightarrow> kvs | _ \<Rightarrow> []))
                    in case update (tv_db_now env) (tl_db st) (m_id mem) (no_update\<lparr>u_metadata := Some metadata\<rparr>) of
                         (Inl e, db) \<Rightarrow> (Inl (DbFailed e), st\<lparr>tl_db := db\<rparr>)
                       | (Inr (found, changed), db) \<Rightarrow>
                           (if found then Inr () else Inl MissingMemory, st\<lparr>tl_db := db\<rparr>))))"

definition handle_namespace_set_standard :: "tool_env \<Rightarrow> json \<Rightarrow> tool_state \<Rightarrow> tool_result" where
  "handle_namespace_set_standard env params st =
     (case bindE (require params ''namespace'') (\<lambda>namespace. bindE (checked (validate_namespace namespace)) (\<lambda>_.
         bindE (require_id params ''id'') (\<lambda>i.
         let parent = param_str params ''parent'' in
         bindE (checked (check_opt validate_namespace parent)) (\<lambda>_. Inr (namespace, i, parent))))) of
        Inl e \<Rightarrow> (Inl e, st)
      | Inr (namespace, i, parent) \<Rightarrow>
          (case (case json_get params ''governance'' of
                   None \<Rightarrow> (Inr (), st) | Some JNull \<Rightarrow> (Inr (), st) | Some g \<Rightarrow> merge_governance env g i st) of
             (Inl e, st1) \<Rightarrow> (Inl e, st1)
           | (Inr _, st1) \<Rightarrow>
               (case set_namespace_standard (tv_db_now env) (tl_db st1) namespace i parent of
                  (Inl e, db) \<Rightarrow> (Inl (DbFailed e), st1\<lparr>tl_db := db\<rparr>)
                | (Inr _, db) \<Rightarrow> (Inr (StandardSet namespace i parent), st1\<lparr>tl_db := db\<rparr>))))"

definition handle_namespace_clear_standard :: "tool_env \<Rightarrow> json \<Rightarrow> tool_state \<Rightarrow> tool_result" where
  "handle_namespace_clear_standard env params st =
     (case bindE (require params ''namespace'') (\<lambda>namespace. bindE (checked (validate_namespace namespace)) (\<lambda>_. Inr namespace)) of
        Inl e \<Rightarrow> (Inl e, st)
      | Inr namespace \<Rightarrow>
          (case clear_namespace_standard (tl_db st) namespace of
             (cleared, db) \<Rightarrow> (Inr (StandardCleared cleared namespace), st\<lparr>tl_db := db\<rparr>)))"

definition handle_agent_register :: "tool_env \<Rightarrow> json \<Rightarrow> tool_state \<Rightarrow> tool_result" where
  "handle_agent_register env params st =
     (case bindE (require params ''agent_id'') (\<lambda>agent_id. bindE (require params ''agent_type'') (\<lambda>agent_type.
         let capabilities = unwrap_or [] (param_strs params ''capabilities'') in
         bindE (checked (first_err [validate_agent_id agent_id, validate_agent_type agent_type,
                  validate_capabilities capabilities])) (\<lambda>_. Inr (agent_id, agent_type, capabilities)))) of
        Inl e \<Rightarrow> (Inl e, st)
      | Inr (agent_id, agent_type, capabilities) \<Rightarrow>
          (case register_agent (tv_ser env) (tv_uuid env) (tv_db_now env) (tl_db st) agent_id agent_type capabilities of
             (Inl e, db) \<Rightarrow> (Inl (DbFailed e), st\<lparr>tl_db := db\<rparr>)
           | (Inr i, db) \<Rightarrow> (Inr (AgentRegistered i), st\<lparr>tl_db := db\<rparr>)))"

definition messages_namespace_for :: "str \<Rightarrow> str" where
  "messages_namespace_for agent_id = ''_messages/'' @ agent_id"

definition notify_memory :: "tool_env \<Rightarrow> str \<Rightarrow> str \<Rightarrow> str \<Rightarrow> int \<Rightarrow> Tier \<Rightarrow> str \<Rightarrow> Memory" where
  "notify_memory env target title payload priority tier sender =
     \<lparr>m_id = tv_uuid env, m_tier = tier, m_namespace = messages_namespace_for target, m_title = title, m_content = payload,
      m_tags = [''_message''], m_priority = max 1 (min priority 10), m_confidence = Fin 1, m_source = ''notify'',
      m_access_count = 0, m_created_at = tv_now env, m_updated_at = tv_now env, m_last_accessed_at = None,
      m_expires_at = map_option (tv_later env) (ttl_for_tier (tv_ttl env) tier),
      m_metadata = JObj [(''agent_id'', JStr sender), (''recipient_agent_id'', JStr target), (''message_kind'', JStr ''notify'')]\<rparr>"

definition handle_notify :: "tool_env \<Rightarrow> json \<Rightarrow> tool_state \<Rightarrow> tool_result" where
  "handle_notify env params st =
     (case bindE (require params ''target_agent_id'') (\<lambda>target. bindE (require params ''title'') (\<lambda>title.
         bindE (require params ''payload'') (\<lambda>payload.
         bindE (to_i32 (unwrap_or 5 (param_i64 params ''priority''))) (\<lambda>priority.
         let tier_str = unwrap_or ''mid'' (param_str params ''tier'') in
         bindE (case tier_from_str tier_str of None \<Rightarrow> Inl (InvalidTier tier_str) | Some t \<Rightarrow> Inr t) (\<lambda>tier.
         bindE (checked (first_err [validate_agent_id target, validate_title title, validate_content payload])) (\<lambda>_.
         bindE (checked (resolve_agent_id (tv_process env) None (tv_client env))) (\<lambda>sender.
           Inr (target, sender, notify_memory env target title payload priority tier sender)))))))) of
        Inl e \<Rightarrow> (Inl e, st)
      | Inr (target, sender, mem) \<Rightarrow>
          (case insert_mem (tl_db st) mem of
             (Inl e, db) \<Rightarrow> (Inl (DbFailed e), st\<lparr>tl_db := db\<rparr>)
           | (Inr i, db) \<Rightarrow> (Inr (Notified i sender target (m_namespace mem)), st\<lparr>tl_db := db\<rparr>)))"

definition handle_inbox :: "tool_env \<Rightarrow> json \<Rightarrow> Db \<Rightarrow> ToolError + str \<times> Memory list" where
  "handle_inbox env params db =
     bindE (caller env params (tv_client env)) (\<lambda>owner.
     let unread_only = unwrap_or False (param_bool params ''unread_only'');
         limit = min (case json_get params ''limit'' of
                        Some (JInt n) \<Rightarrow> if 0 \<le> n \<and> n < 2 ^ 64 then nat n else 50 | _ \<Rightarrow> 50) 500;
         items = list_memories (tv_ser env) (tv_db_now env) db
           \<lparr>lf_namespace = Some (messages_namespace_for owner), lf_tier = None, lf_min_priority = None, lf_since = None,
            lf_until = None, lf_tags = None, lf_agent_id = None\<rparr> limit 0
     in Inr (owner, filter (\<lambda>m. \<not> unread_only \<or> m_access_count m = 0) items))"

section \<open>Approvals, archive and collection\<close>

datatype Remember = Once | Session | Forever

definition parse_remember_param :: "json \<Rightarrow> Remember" where
  "parse_remember_param params =
     (case param_str params ''remember'' of
        None \<Rightarrow> Once
      | Some s \<Rightarrow> if s = ''session'' then Session else if s = ''forever'' then Forever else Once)"

fun remember_label :: "Remember \<Rightarrow> str" where
  "remember_label Once = ''once''"
| "remember_label Session = ''session''"
| "remember_label Forever = ''forever''"

definition record_mcp_decision :: "tool_env \<Rightarrow> str \<Rightarrow> str \<Rightarrow> str \<Rightarrow> Remember \<Rightarrow> tool_state \<Rightarrow> tool_state" where
  "record_mcp_decision env pending_id decided_by decision_label remember st =
     (let pa = get_pending_action (tl_db st) pending_id;
          st1 = emit_event (Published (ApprovalDecided pending_id decision_label decided_by (remember_label remember)
                  (case pa of None \<Rightarrow> [] | Some p \<Rightarrow> pa_namespace p) (case pa of None \<Rightarrow> [] | Some p \<Rightarrow> pa_requested_by p))) st
      in case (remember, pa) of
           (Once, _) \<Rightarrow> st1
         | (_, None) \<Rightarrow> st1
         | (_, Some p) \<Rightarrow>
             st1\<lparr>tl_remembered := record_synthetic_rule
               \<lparr>sr_action_type = pa_action_type p, sr_namespace = pa_namespace p, sr_agent_id = Some (pa_requested_by p),
                sr_decision = decision_label, sr_recorded_at = tv_now env\<rparr> (tl_remembered st1)\<rparr>)"

definition handle_pending_approve :: "tool_env \<Rightarrow> json \<Rightarrow> tool_state \<Rightarrow> tool_result" where
  "handle_pending_approve env params st =
     (case bindE (require_id params ''id'') (\<lambda>i. bindE (caller env params (tv_client env)) (\<lambda>agent_id. Inr (i, agent_id))) of
        Inl e \<Rightarrow> (Inl e, st)
      | Inr (i, agent_id) \<Rightarrow>
          (case approve_with_approver_type (tv_policy env) (tv_db_now env) (tl_db st) i agent_id of
             (Rejected reason, db) \<Rightarrow> (Inl (ApproveRejected reason), st\<lparr>tl_db := db\<rparr>)
           | (StillPending votes quorum, db) \<Rightarrow> (Inr (VotesMissing votes quorum), st\<lparr>tl_db := db\<rparr>)
           | (Approved, db) \<Rightarrow>
               (case execute_pending_action (tv_mem_of env) (tv_uuid env) (tv_db_now env) db i of
                  (Inl e, db2) \<Rightarrow> (Inl (DbFailed e), st\<lparr>tl_db := db2\<rparr>)
                | (Inr executed, db2) \<Rightarrow>
                    (Inr (ApprovedAs executed),
                     record_mcp_decision env i agent_id ''approve'' (parse_remember_param params) (st\<lparr>tl_db := db2\<rparr>)))))"

definition handle_pending_reject :: "tool_env \<Rightarrow> json \<Rightarrow> tool_state \<Rightarrow> tool_result" where
  "handle_pending_reject env params st =
     (case bindE (require_id params ''id'') (\<lambda>i. bindE (caller env params (tv_client env)) (\<lambda>agent_id. Inr (i, agent_id))) of
        Inl e \<Rightarrow> (Inl e, st)
      | Inr (i, agent_id) \<Rightarrow>
          (case decide_pending_action (tv_db_now env) (tl_db st) i False agent_id of
             (transitioned, db) \<Rightarrow>
               if \<not> transitioned then (Inl NotPending, st\<lparr>tl_db := db\<rparr>)
               else (Inr PendingRejected,
                     record_mcp_decision env i agent_id ''deny'' (parse_remember_param params) (st\<lparr>tl_db := db\<rparr>))))"

definition handle_archive_restore :: "tool_env \<Rightarrow> json \<Rightarrow> tool_state \<Rightarrow> tool_result" where
  "handle_archive_restore env params st =
     (case require_id params ''id'' of
        Inl e \<Rightarrow> (Inl e, st)
      | Inr i \<Rightarrow>
          (case restore_archived (tv_ser env) (tv_db_now env) (tl_db st) i of
             (Inl e, db) \<Rightarrow> (Inl (DbFailed e), st\<lparr>tl_db := db\<rparr>)
           | (Inr restored, db) \<Rightarrow> (if restored then Inr (Restored i) else Inl NotArchived, st\<lparr>tl_db := db\<rparr>)))"

definition handle_archive_purge :: "tool_env \<Rightarrow> json \<Rightarrow> tool_state \<Rightarrow> tool_result" where
  "handle_archive_purge env params st =
     (let days = param_i64 params ''older_than_days'' in
      case caller env params None of
        Inl e \<Rightarrow> (Inl e, st)
      | Inr agent_id \<Rightarrow>
          past_gate (permission_gate env st MemoryArchive ''global'' agent_id
              (JObj [(''older_than_days'', case days of None \<Rightarrow> JNull | Some d \<Rightarrow> JInt d)]), st) (\<lambda>st1.
            (case purge_archive (tv_minus_days env) (tv_db_now env) (tl_db st1) days of
               (Inl e, db) \<Rightarrow> (Inl (DbFailed e), st1\<lparr>tl_db := db\<rparr>)
             | (Inr n, db) \<Rightarrow> (Inr (Purged n), st1\<lparr>tl_db := db\<rparr>))))"

definition handle_gc :: "tool_env \<Rightarrow> json \<Rightarrow> tool_state \<Rightarrow> tool_result" where
  "handle_gc env params st =
     (if unwrap_or False (param_bool params ''dry_run'')
      then (Inr (Collected (sql_count (expired (tv_now env)) (db_memories (tl_db st))) True), st)
      else case gc (tv_db_now env) (tl_db st) (tv_archive env) of
             (n, db) \<Rightarrow> (Inr (Collected n False), st\<lparr>tl_db := db\<rparr>))"

section \<open>The tools as steps\<close>

text \<open>One call of one of the tools of this theory that write, with any parameters in any environment. The tools that write and
  are modelled elsewhere are not among these steps: \<open>memory_recall\<close> (\<open>Recall_Tool\<close>), entity registration and link invalidation
  (\<open>Catalog\<close>, \<open>Graph\<close>) and subscriptions (\<open>Subscriptions\<close>).\<close>

inductive tool_step :: "tool_state \<Rightarrow> tool_state \<Rightarrow> bool" where
  call_store: "tool_step st (snd (handle_store env params st))"
| call_delete: "tool_step st (snd (handle_delete env params st))"
| call_promote: "tool_step st (snd (handle_promote env params st))"
| call_forget: "tool_step st (snd (handle_forget env params st))"
| call_update: "tool_step st (snd (handle_update env params st))"
| call_link: "tool_step st (snd (handle_link env params st))"
| call_consolidate: "tool_step st (snd (handle_consolidate env params st))"
| call_set_standard: "tool_step st (snd (handle_namespace_set_standard env params st))"
| call_clear_standard: "tool_step st (snd (handle_namespace_clear_standard env params st))"
| call_agent_register: "tool_step st (snd (handle_agent_register env params st))"
| call_notify: "tool_step st (snd (handle_notify env params st))"
| call_approve: "tool_step st (snd (handle_pending_approve env params st))"
| call_reject: "tool_step st (snd (handle_pending_reject env params st))"
| call_restore: "tool_step st (snd (handle_archive_restore env params st))"
| call_purge: "tool_step st (snd (handle_archive_purge env params st))"
| call_gc: "tool_step st (snd (handle_gc env params st))"

inductive_cases tool_stepE: "tool_step st st'"

end
