(* ===== verification/Http.thy ===== *)
theory Http
  imports Tools
begin

text \<open>
  The HTTP API of the daemon (\<open>src/handlers.rs\<close>): the key check in front of every route, the signature check of the
  approval endpoint and the handlers that write. A handler works on the state of the server like a tool and then hands its
  result to the peers; its answer is a status code with a body. The environment of a request holds what the tools need, the
  headers, fresh ids and, for the k-th broadcast of the request, how the peers answer and when.
\<close>

unbundle bit_operations_syntax

section \<open>The API key\<close>

definition constant_time_eq :: "8 word list \<Rightarrow> 8 word list \<Rightarrow> bool" where
  "constant_time_eq a b =
     (if length a \<noteq> length b then False
      else fold (\<lambda>(x, y) diff. diff OR (x XOR y)) (zip a b) 0 = 0)"

text \<open>\<open>String::from_utf8_lossy\<close>: the length of the character at the start and whether it is complete.\<close>

definition in_range :: "nat \<Rightarrow> nat \<Rightarrow> nat \<Rightarrow> bool" where
  "in_range lo hi b = (lo \<le> b \<and> b \<le> hi)"

definition utf8_char_width :: "nat \<Rightarrow> nat" where
  "utf8_char_width b =
     (if b < 0x80 then 1 else if in_range 0xC2 0xDF b then 2 else if in_range 0xE0 0xEF b then 3
      else if in_range 0xF0 0xF4 b then 4 else 0)"

definition second_byte_ok :: "nat \<Rightarrow> nat \<Rightarrow> bool" where
  "second_byte_ok a b =
     (if a = 0xE0 then in_range 0xA0 0xBF b else if a = 0xED then in_range 0x80 0x9F b
      else if a = 0xF0 then in_range 0x90 0xBF b else if a = 0xF4 then in_range 0x80 0x8F b
      else in_range 0x80 0xBF b)"

definition safe_get :: "str \<Rightarrow> nat \<Rightarrow> nat" where
  "safe_get s i = (if i < length s then byte_of (s ! i) else 0)"

definition next_char :: "str \<Rightarrow> nat \<times> bool" where
  "next_char s =
     (let a = safe_get s 0; w = utf8_char_width a; continues = (\<lambda>i. in_range 0x80 0xBF (safe_get s i)) in
      if w = 0 then (1, False)
      else if w = 1 then (1, True)
      else if \<not> second_byte_ok a (safe_get s 1) then (1, False)
      else if w = 2 then (2, True)
      else if \<not> continues 2 then (2, False)
      else if w = 3 then (3, True)
      else if \<not> continues 3 then (3, False)
      else (4, True))"

definition REPLACEMENT :: str where "REPLACEMENT = map char_of [0xEF, 0xBF, 0xBD :: nat]"

function from_utf8_lossy :: "str \<Rightarrow> str" where
  "from_utf8_lossy s =
     (if s = [] then []
      else let (n, valid) = next_char s
           in (if valid then take n s else REPLACEMENT) @ from_utf8_lossy (drop n s))"
  by pat_completeness auto

termination
proof (relation "measure length")
  fix s :: str and x n valid
  assume "s \<noteq> []" "x = next_char s" "(n, valid) = x"
  then have "0 < n" by (auto simp: next_char_def Let_def split: if_splits)
  then show "(drop n s, s) \<in> measure length" using \<open>s \<noteq> []\<close> by simp
qed simp

declare from_utf8_lossy.simps [simp del]

fun percent_decode :: "str \<Rightarrow> str" where
  "percent_decode [] = []"
| "percent_decode [a] = [a]"
| "percent_decode [a, b] = [a, b]"
| "percent_decode (a # b # c # s) =
     (case (if a = CHR ''%'' then (digit_of 16 b, digit_of 16 c) else (None, None)) of
        (Some h, Some l) \<Rightarrow> char_of (h * 16 + l) # percent_decode s
      | _ \<Rightarrow> a # percent_decode (b # c # s))"

definition percent_decode_lossy :: "str \<Rightarrow> str" where
  "percent_decode_lossy input = from_utf8_lossy (percent_decode input)"

record http_request =
  rq_path :: str
  rq_api_key :: "str option"
  rq_query :: "str option"

definition api_key_auth :: "str option \<Rightarrow> http_request \<Rightarrow> bool" where
  "api_key_auth key req =
     (case key of
        None \<Rightarrow> True
      | Some expected \<Rightarrow>
          if rq_path req = ''/api/v1/health'' then True
          else if (case rq_api_key req of None \<Rightarrow> False | Some v \<Rightarrow> constant_time_eq (as_bytes v) (as_bytes expected)) then True
          else (case rq_query req of
                  None \<Rightarrow> False
                | Some query \<Rightarrow>
                    list_ex (\<lambda>pair. starts_with pair ''api_key=''
                        \<and> constant_time_eq (as_bytes (percent_decode_lossy (drop 8 pair))) (as_bytes expected))
                      (split_on CHR ''&'' query)))"

section \<open>Requests and answers\<close>

text \<open>How one broadcast runs: the peers' answers, its start, the schedule of the answers and the time of the final count.\<close>

record fed_run =
  fr_http :: "Federation.http"
  fr_start :: instant
  fr_sched :: "loop_poll list"
  fr_final :: instant

record http_env =
  hv_tool :: tool_env
  hv_header :: "str option"
  hv_anon :: str
  hv_unix_now :: int
  hv_uuids :: "nat \<Rightarrow> str"
  hv_fed :: "FederationConfig option"
  hv_run :: "nat \<Rightarrow> fed_run"
  hv_joins :: "nat list"
  hv_catchup :: "(str \<times> http_result) option list"

datatype BulkError = InvalidItem str ValidationError | InsertFailed DbError | QuorumMissed str QuorumError | CatchupFailed str str

datatype HttpError =
    BadInput ValidationError
  | BadAgent ValidationError
  | BadConflictMode str
  | AlreadyExists str
  | VersionFailed
  | GovernanceForbids str
  | GovernanceFailed
  | InternalError
  | NotFoundError
  | Ambiguous DbError
  | TitleTaken DbError
  | TooManyItems
  | ForgetFailed DbError
  | ApproveRefused str
  | ExecutionFailed
  | NotPendingError
  | NotInArchive
  | PayloadRequired
  | NamespaceRequired
  | ToolRefused ToolError
  | Unsigned
  | BadBody

datatype HttpBody =
    ErrorBody HttpError
  | QuorumBody QuorumNotMetPayload
  | PendingBody str GovernedAction str
  | CreatedBody str Tier str str "str option" "str list" "nat option"
  | RegisteredBody str
  | ApprovedBody str str "str option"
  | VotesBody str nat nat
  | RejectedBody str str
  | MemoryBody "Memory option"
  | DeletedBody
  | PromotedBody str
  | ForgottenBody nat
  | LinkedBody AttestLevel
  | UnlinkedBody bool
  | CollectedBody nat
  | ImportedBody nat "(str \<times> (ValidationError + DbError)) list"
  | ConsolidatedBody str nat
  | BulkBody nat "BulkError list"
  | RestoredBody str
  | PurgedBody nat
  | ArchivedBody "str list" "str list" str
  | ToolBody ToolReply

record HttpResponse =
  hp_status :: nat
  hp_body :: HttpBody

type_synonym handler_result = "HttpResponse \<times> tool_state"

definition respond :: "nat \<Rightarrow> HttpBody \<Rightarrow> tool_state \<Rightarrow> handler_result" where
  "respond status body st = (\<lparr>hp_status = status, hp_body = body\<rparr>, st)"

definition fail_with :: "nat \<Rightarrow> HttpError \<Rightarrow> tool_state \<Rightarrow> handler_result" where
  "fail_with status e = respond status (ErrorBody e)"

definition http_agent :: "http_env \<Rightarrow> str option \<Rightarrow> ValidationError + str" where
  "http_agent env body_agent = resolve_http_agent_id (hv_anon env) body_agent (hv_header env)"

text \<open>The k-th broadcast of a request and what the handler answers when the quorum is missed.\<close>

type_synonym broadcast = "FederationConfig \<Rightarrow> Federation.http \<Rightarrow> instant \<Rightarrow> loop_poll list \<Rightarrow> AckTracker"

definition broadcast_run :: "http_env \<Rightarrow> nat \<Rightarrow> FederationConfig \<Rightarrow> broadcast \<Rightarrow> QuorumError + nat" where
  "broadcast_run env k fed b =
     (let r = hv_run env k in finalise_quorum (b fed (fr_http r) (fr_start r) (fr_sched r)) (fr_final r))"

definition with_quorum ::
    "http_env \<Rightarrow> nat \<Rightarrow> broadcast \<Rightarrow> tool_state \<Rightarrow> (nat option \<Rightarrow> handler_result) \<Rightarrow> handler_result" where
  "with_quorum env k b st ok =
     (case hv_fed env of
        None \<Rightarrow> ok None
      | Some fed \<Rightarrow>
          (case broadcast_run env k fed b of
             Inl e \<Rightarrow> respond 503 (QuorumBody (payload_from_err e)) st
           | Inr acks \<Rightarrow> ok (Some acks)))"

definition store_broadcast :: "Memory \<Rightarrow> broadcast" where
  "store_broadcast mem fed post start sched = broadcast_store_quorum fed post start sched mem"

definition fanout_or_503 :: "http_env \<Rightarrow> nat \<Rightarrow> Memory option \<Rightarrow> tool_state \<Rightarrow> handler_result \<Rightarrow> handler_result" where
  "fanout_or_503 env k mem st ok =
     (case mem of None \<Rightarrow> ok | Some m \<Rightarrow> with_quorum env k (store_broadcast m) st (\<lambda>_. ok))"

text \<open>The governance gate of a handler: a queued action is announced and sent to the peers.\<close>

definition http_governed ::
    "http_env \<Rightarrow> GovernedAction \<Rightarrow> str \<Rightarrow> str \<Rightarrow> str option \<Rightarrow> str option \<Rightarrow> json \<Rightarrow> str \<Rightarrow> tool_state
      \<Rightarrow> (tool_state \<Rightarrow> handler_result) \<Rightarrow> handler_result" where
  "http_governed env action namespace agent_id memory_id memory_owner payload label st rest =
     (let tv = hv_tool env in
      case enforce_governance (tv_mode tv) (tv_policy tv) (tv_pending_id tv) (tv_db_now tv) (tl_db st) action namespace
          agent_id memory_id memory_owner payload of
        (Inl e, db) \<Rightarrow> fail_with 500 GovernanceFailed (st\<lparr>tl_db := db\<rparr>)
      | (Inr Allow, db) \<Rightarrow> rest (st\<lparr>tl_db := db\<rparr>)
      | (Inr (Deny reason), db) \<Rightarrow> fail_with 403 (GovernanceForbids reason) (st\<lparr>tl_db := db\<rparr>)
      | (Inr (Pending pending_id), db) \<Rightarrow>
          let st1 = emit_event (ApprovalDispatched pending_id) (st\<lparr>tl_db := db\<rparr>);
              accepted = respond 202 (PendingBody pending_id action label) st1
          in case get_pending_action db pending_id of
               None \<Rightarrow> accepted
             | Some pa \<Rightarrow> with_quorum env 0 (\<lambda>fed post start sched. broadcast_pending_quorum fed post start sched pa) st1 (\<lambda>_. accepted))"

section \<open>Creating memories\<close>

definition with_key :: "str \<Rightarrow> json \<Rightarrow> json \<Rightarrow> json" where
  "with_key k v metadata = (case metadata of JObj kvs \<Rightarrow> JObj (obj_insert k v kvs) | _ \<Rightarrow> metadata)"

definition http_expires_at :: "http_env \<Rightarrow> CreateMemory \<Rightarrow> str option" where
  "http_expires_at env body =
     (case c_expires_at body of
        Some e \<Rightarrow> Some e
      | None \<Rightarrow>
          map_option (tv_later (hv_tool env))
            (case c_ttl_secs body of Some s \<Rightarrow> Some s | None \<Rightarrow> ttl_for_tier (tv_ttl (hv_tool env)) (c_tier body)))"

definition http_memory :: "http_env \<Rightarrow> CreateMemory \<Rightarrow> str \<Rightarrow> str \<Rightarrow> json \<Rightarrow> Memory" where
  "http_memory env body i title metadata =
     \<lparr>m_id = i, m_tier = c_tier body, m_namespace = c_namespace body, m_title = title, m_content = c_content body,
      m_tags = c_tags body, m_priority = max 1 (min (c_priority body) 10), m_confidence = clamp_unit (c_confidence body),
      m_source = c_source body, m_access_count = 0, m_created_at = tv_now (hv_tool env), m_updated_at = tv_now (hv_tool env),
      m_last_accessed_at = None, m_expires_at = http_expires_at env body, m_metadata = metadata\<rparr>"

definition http_metadata :: "CreateMemory \<Rightarrow> str \<Rightarrow> json" where
  "http_metadata body agent_id =
     (let md = with_key ''agent_id'' (JStr agent_id) (c_metadata body)
      in case c_scope body of None \<Rightarrow> md | Some s \<Rightarrow> with_key ''scope'' (JStr s) md)"

definition http_title :: "Db \<Rightarrow> CreateMemory \<Rightarrow> (nat \<times> HttpError) + str" where
  "http_title db body =
     (let mode = unwrap_or ''error'' (c_on_conflict body) in
      if mode = ''error'' then
        (case find_by_title_namespace db (c_title body) (c_namespace body) of
           Some existing_id \<Rightarrow> Inl (409, AlreadyExists existing_id)
         | None \<Rightarrow> Inr (c_title body))
      else if mode = ''version'' then
        (case next_versioned_title db (c_title body) (c_namespace body) of
           Inl _ \<Rightarrow> Inl (500, VersionFailed)
         | Inr t \<Rightarrow> Inr t)
      else Inr (c_title body))"

definition http_audit_store :: "str \<Rightarrow> Memory \<Rightarrow> EventBuilder" where
  "http_audit_store actual_id mem =
     builder_new AStore
       (audit_actor (unwrap_or [] (owner_of mem)) ''http_body'' (param_str (m_metadata mem) ''scope''))
       (target_memory actual_id (m_namespace mem) (Some (m_title mem)) (Some (tier_as_str (m_tier mem)))
          (param_str (m_metadata mem) ''scope''))"

definition http_insert :: "http_env \<Rightarrow> CreateMemory \<Rightarrow> Memory \<Rightarrow> tool_state \<Rightarrow> handler_result" where
  "http_insert env body mem st =
     (let contradictions = map m_id (filter (\<lambda>c. m_id c \<noteq> m_id mem)
            (find_contradictions (tv_fts (hv_tool env)) (tv_rank (hv_tool env)) (tl_db st) (m_title mem) (m_namespace mem)))
      in case insert_mem (tl_db st) mem of
           (Inl e, db) \<Rightarrow> fail_with 500 InternalError (st\<lparr>tl_db := db\<rparr>)
         | (Inr actual_id, db) \<Rightarrow>
             let st1 = embed_memory (hv_tool env) False actual_id (c_title body @ '' '' @ c_content body) (st\<lparr>tl_db := db\<rparr>);
                 st2 = emit_event (Audited (http_audit_store actual_id mem)) st1
             in with_quorum env 0 (store_broadcast (mem\<lparr>m_id := actual_id\<rparr>)) st2 (\<lambda>acks.
                  respond 201 (CreatedBody actual_id (m_tier mem) (m_namespace mem) (m_title mem) (owner_of mem) contradictions acks) st2))"

definition http_create_memory :: "http_env \<Rightarrow> CreateMemory \<Rightarrow> tool_state \<Rightarrow> handler_result" where
  "http_create_memory env body st =
     (case validate_create (tv_rfc3339 (hv_tool env)) (tv_ser (hv_tool env)) (hv_unix_now env) body of
        Inl e \<Rightarrow> fail_with 400 (BadInput e) st
      | Inr _ \<Rightarrow>
          (case http_agent env (c_agent_id body) of
             Inl e \<Rightarrow> fail_with 400 (BadAgent e) st
           | Inr agent_id \<Rightarrow>
               (case check_opt validate_scope (c_scope body) of
                  Inl e \<Rightarrow> fail_with 400 (BadInput e) st
                | Inr _ \<Rightarrow>
                    let mode = unwrap_or ''error'' (c_on_conflict body) in
                    if mode \<notin> {''error'', ''merge'', ''version''} then fail_with 400 (BadConflictMode mode) st
                    else
                      (case http_title (tl_db st) body of
                         Inl (status, e) \<Rightarrow> fail_with status e st
                       | Inr title \<Rightarrow>
                           let mem = http_memory env body (tv_uuid (hv_tool env)) title (http_metadata body agent_id)
                           in http_governed env Store (m_namespace mem) (unwrap_or [] (owner_of mem)) None None
                                (tv_mem_json (hv_tool env) mem) (m_namespace mem) st (http_insert env body mem)))))"

section \<open>Agents and pending actions\<close>

definition http_register_agent :: "http_env \<Rightarrow> str \<Rightarrow> str \<Rightarrow> str list option \<Rightarrow> tool_state \<Rightarrow> handler_result" where
  "http_register_agent env agent_id agent_type capabilities st =
     (let caps = unwrap_or [] capabilities in
      case first_err [validate_agent_id agent_id, validate_agent_type agent_type, validate_capabilities caps] of
        Inl e \<Rightarrow> fail_with 400 (BadInput e) st
      | Inr _ \<Rightarrow>
          (case register_agent (tv_ser (hv_tool env)) (tv_uuid (hv_tool env)) (tv_db_now (hv_tool env)) (tl_db st)
              agent_id agent_type caps of
             (Inl e, db) \<Rightarrow> fail_with 500 InternalError (st\<lparr>tl_db := db\<rparr>)
           | (Inr i, db) \<Rightarrow>
               let st1 = st\<lparr>tl_db := db\<rparr>
               in fanout_or_503 env 0 (get db i) st1 (respond 201 (RegisteredBody i) st1)))"

definition decision_broadcast :: "str \<Rightarrow> bool \<Rightarrow> str \<Rightarrow> broadcast" where
  "decision_broadcast i approved decider fed post start sched =
     broadcast_pending_decision_quorum fed post start sched \<lparr>pd_id = i, pd_approved = approved, pd_decider = decider\<rparr>"

definition http_approve_pending :: "http_env \<Rightarrow> str \<Rightarrow> tool_state \<Rightarrow> handler_result" where
  "http_approve_pending env i st =
     (let tv = hv_tool env in
      case validate_id i of
        Inl e \<Rightarrow> fail_with 400 (BadInput e) st
      | Inr _ \<Rightarrow>
          (case http_agent env None of
             Inl e \<Rightarrow> fail_with 400 (BadAgent e) st
           | Inr agent_id \<Rightarrow>
               (case approve_with_approver_type (tv_policy tv) (tv_db_now tv) (tl_db st) i agent_id of
                  (Rejected reason, db) \<Rightarrow> fail_with 403 (ApproveRefused reason) (st\<lparr>tl_db := db\<rparr>)
                | (StillPending votes quorum, db) \<Rightarrow> respond 202 (VotesBody i votes quorum) (st\<lparr>tl_db := db\<rparr>)
                | (Approved, db) \<Rightarrow>
                    (case execute_pending_action (tv_mem_of tv) (tv_uuid tv) (tv_db_now tv) db i of
                       (Inl e, db2) \<Rightarrow> fail_with 500 ExecutionFailed (st\<lparr>tl_db := db2\<rparr>)
                     | (Inr memory_id, db2) \<Rightarrow>
                         let st1 = st\<lparr>tl_db := db2\<rparr>
                         in with_quorum env 0 (decision_broadcast i True agent_id) st1 (\<lambda>_.
                            fanout_or_503 env 1 (Option.bind memory_id (get db2)) st1
                              (respond 200 (ApprovedBody i agent_id memory_id) st1))))))"

definition http_reject_pending :: "http_env \<Rightarrow> str \<Rightarrow> tool_state \<Rightarrow> handler_result" where
  "http_reject_pending env i st =
     (case validate_id i of
        Inl e \<Rightarrow> fail_with 400 (BadInput e) st
      | Inr _ \<Rightarrow>
          (case http_agent env None of
             Inl e \<Rightarrow> fail_with 400 (BadAgent e) st
           | Inr agent_id \<Rightarrow>
               (case decide_pending_action (tv_db_now (hv_tool env)) (tl_db st) i False agent_id of
                  (transitioned, db) \<Rightarrow>
                    let st1 = st\<lparr>tl_db := db\<rparr>
                    in if transitioned
                       then with_quorum env 0 (decision_broadcast i False agent_id) st1 (\<lambda>_.
                              respond 200 (RejectedBody i agent_id) st1)
                       else fail_with 404 NotPendingError st1)))"

section \<open>Updating, deleting, promoting\<close>

text \<open>The memory an id or a unique prefix of one names.\<close>

definition http_target :: "str \<Rightarrow> tool_state \<Rightarrow> (Memory \<Rightarrow> handler_result) \<Rightarrow> handler_result" where
  "http_target i st rest =
     (case resolve_id (tl_db st) i of
        Inr (Some m) \<Rightarrow> rest m
      | Inr None \<Rightarrow> fail_with 404 NotFoundError st
      | Inl (AmbiguousPrefix p ids) \<Rightarrow> fail_with 400 (Ambiguous (AmbiguousPrefix p ids)) st
      | Inl _ \<Rightarrow> fail_with 500 InternalError st)"

definition http_update_failed :: "DbError \<Rightarrow> tool_state \<Rightarrow> handler_result" where
  "http_update_failed e st =
     (case e of TitleExists _ _ _ \<Rightarrow> fail_with 409 (TitleTaken e) st | _ \<Rightarrow> fail_with 500 InternalError st)"

definition http_updated :: "http_env \<Rightarrow> UpdateMemory \<Rightarrow> str \<Rightarrow> tool_state \<Rightarrow> handler_result" where
  "http_updated env body resolved_id st =
     (let mem = get (tl_db st) resolved_id;
          st1 = (if u_title body \<noteq> None \<or> u_content body \<noteq> None
                 then (case mem of None \<Rightarrow> st
                       | Some m \<Rightarrow> embed_memory (hv_tool env) True resolved_id (m_title m @ '' '' @ m_content m) st)
                 else st)
      in fanout_or_503 env 0 mem st1 (respond 200 (MemoryBody mem) st1))"

definition http_update_memory :: "http_env \<Rightarrow> str \<Rightarrow> UpdateMemory \<Rightarrow> tool_state \<Rightarrow> handler_result" where
  "http_update_memory env i body st =
     (let tv = hv_tool env in
      case first_err [validate_id i, validate_update (tv_rfc3339 tv) (tv_ser tv) body] of
        Inl e \<Rightarrow> fail_with 400 (BadInput e) st
      | Inr _ \<Rightarrow> http_target i st (\<lambda>target.
          let resolved_id = m_id target;
              preserved = map_option (preserve_agent_id
                    (case get (tl_db st) resolved_id of None \<Rightarrow> JObj [] | Some m \<Rightarrow> m_metadata m)) (u_metadata body)
          in case update (tv_db_now tv) (tl_db st) resolved_id (body\<lparr>u_metadata := preserved\<rparr>) of
               (Inl e, db) \<Rightarrow> http_update_failed e (st\<lparr>tl_db := db\<rparr>)
             | (Inr (found, _), db) \<Rightarrow>
                 if \<not> found then fail_with 404 NotFoundError (st\<lparr>tl_db := db\<rparr>)
                 else http_updated env body resolved_id (st\<lparr>tl_db := db\<rparr>)))"

definition http_audit_delete :: "http_env \<Rightarrow> Memory \<Rightarrow> EventBuilder" where
  "http_audit_delete env target =
     builder_new ADelete
       (audit_actor (unwrap_or (unwrap_or ''anonymous'' (hv_header env)) (owner_of target)) ''http_header'' None)
       (target_memory (m_id target) (m_namespace target) (Some (m_title target)) (Some (tier_as_str (m_tier target))) None)"

definition http_delete_checked :: "http_env \<Rightarrow> Memory \<Rightarrow> tool_state \<Rightarrow> handler_result" where
  "http_delete_checked env target st =
     (case delete (tl_db st) (m_id target) of
        (deleted, db) \<Rightarrow>
          let st1 = st\<lparr>tl_db := db\<rparr> in
          if \<not> deleted then fail_with 404 NotFoundError st1
          else
            let st2 = emit_event (Audited (http_audit_delete env target))
                  (emit_event (Dispatched ''memory_delete'' (m_id target) (m_namespace target) (owner_of target)
                    (Some [(''title'', JStr (m_title target)), (''tier'', JStr (tier_as_str (m_tier target)))])) st1)
            in with_quorum env 0 (\<lambda>fed post start sched. broadcast_delete_quorum fed post start sched (m_id target)) st2
                 (\<lambda>_. respond 200 DeletedBody st2))"

definition http_delete_memory :: "http_env \<Rightarrow> str \<Rightarrow> tool_state \<Rightarrow> handler_result" where
  "http_delete_memory env i st =
     (case validate_id i of
        Inl e \<Rightarrow> fail_with 400 (BadInput e) st
      | Inr _ \<Rightarrow> http_target i st (\<lambda>target.
          case http_agent env None of
            Inl e \<Rightarrow> fail_with 400 (BadAgent e) st
          | Inr agent_id \<Rightarrow>
              http_governed env Delete (m_namespace target) agent_id (Some (m_id target)) (owner_of target)
                (JObj [(''id'', JStr (m_id target)), (''title'', JStr (m_title target))]) (m_id target) st
                (http_delete_checked env target)))"

definition http_promote_checked :: "http_env \<Rightarrow> Memory \<Rightarrow> tool_state \<Rightarrow> handler_result" where
  "http_promote_checked env target st =
     (case update (tv_db_now (hv_tool env)) (tl_db st) (m_id target) (no_update\<lparr>u_tier := Some Long\<rparr>) of
        (Inl e, db) \<Rightarrow> fail_with 500 InternalError (st\<lparr>tl_db := db\<rparr>)
      | (Inr (found, _), db) \<Rightarrow>
          if \<not> found then fail_with 404 NotFoundError (st\<lparr>tl_db := db\<rparr>)
          else
            let db' = clear_expiry db (m_id target);
                st1 = promote_dispatch target [(''mode'', JStr ''tier''), (''tier'', JStr ''long'')] (st\<lparr>tl_db := db'\<rparr>)
            in fanout_or_503 env 0 (get db' (m_id target)) st1 (respond 200 (PromotedBody (m_id target)) st1))"

definition http_promote_memory :: "http_env \<Rightarrow> str \<Rightarrow> tool_state \<Rightarrow> handler_result" where
  "http_promote_memory env i st =
     (case validate_id i of
        Inl e \<Rightarrow> fail_with 400 (BadInput e) st
      | Inr _ \<Rightarrow> http_target i st (\<lambda>target.
          case http_agent env None of
            Inl e \<Rightarrow> fail_with 400 (BadAgent e) st
          | Inr agent_id \<Rightarrow>
              http_governed env Promote (m_namespace target) agent_id (Some (m_id target)) (owner_of target)
                (JObj [(''id'', JStr (m_id target))]) (m_id target) st (http_promote_checked env target)))"

definition http_forget_memories :: "http_env \<Rightarrow> str option \<Rightarrow> str option \<Rightarrow> Tier option \<Rightarrow> tool_state \<Rightarrow> handler_result" where
  "http_forget_memories env namespace pattern tier st =
     (case forget (tv_fts (hv_tool env)) (tv_db_now (hv_tool env)) (tl_db st) namespace pattern tier (tv_archive (hv_tool env)) of
        (Inl e, db) \<Rightarrow> fail_with 400 (ForgetFailed e) (st\<lparr>tl_db := db\<rparr>)
      | (Inr n, db) \<Rightarrow> respond 200 (ForgottenBody n) (st\<lparr>tl_db := db\<rparr>))"

definition http_run_gc :: "http_env \<Rightarrow> tool_state \<Rightarrow> handler_result" where
  "http_run_gc env st =
     (case gc (tv_db_now (hv_tool env)) (tl_db st) (tv_archive (hv_tool env)) of
        (n, db) \<Rightarrow> respond 200 (CollectedBody n) (st\<lparr>tl_db := db\<rparr>))"

section \<open>Links, import, consolidation\<close>

definition http_create_link :: "http_env \<Rightarrow> str \<Rightarrow> str \<Rightarrow> str \<Rightarrow> tool_state \<Rightarrow> handler_result" where
  "http_create_link env source_id target_id relation st =
     (let tv = hv_tool env in
      case validate_link source_id target_id relation of
        Inl e \<Rightarrow> fail_with 400 (BadInput e) st
      | Inr _ \<Rightarrow>
          (case create_link_signed (tv_crypto tv) (tv_db_now tv) (tl_db st) source_id target_id relation (tv_keypair tv) of
             (Inl e, db) \<Rightarrow> fail_with 500 InternalError (st\<lparr>tl_db := db\<rparr>)
           | (Inr attest_level, db) \<Rightarrow>
               let st1 = emit_event (Dispatched ''memory_link_created'' source_id (link_namespace db source_id)
                     (Option.bind (get db source_id) owner_of)
                     (Some [(''target_id'', JStr target_id), (''relation'', JStr relation)])) (st\<lparr>tl_db := db\<rparr>);
                   link = \<lparr>l_source_id = source_id, l_target_id = target_id, l_relation = relation,
                           l_created_at = tv_now tv, l_signature = None, l_observed_by = None,
                           l_valid_from = None, l_valid_until = None\<rparr>
               in with_quorum env 0 (\<lambda>fed post start sched. broadcast_link_quorum fed post start sched link) st1
                    (\<lambda>_. respond 201 (LinkedBody attest_level) st1)))"

definition http_delete_link :: "str \<Rightarrow> str \<Rightarrow> str \<Rightarrow> tool_state \<Rightarrow> handler_result" where
  "http_delete_link source_id target_id relation st =
     (case validate_link source_id target_id relation of
        Inl e \<Rightarrow> fail_with 400 (BadInput e) st
      | Inr _ \<Rightarrow>
          (case delete_link (tl_db st) source_id target_id of
             (removed, db) \<Rightarrow> respond 200 (UnlinkedBody removed) (st\<lparr>tl_db := db\<rparr>)))"

fun import_memory ::
    "http_env \<Rightarrow> Memory \<Rightarrow> nat \<times> (str \<times> (ValidationError + DbError)) list \<times> Db \<Rightarrow> nat \<times> (str \<times> (ValidationError + DbError)) list \<times> Db" where
  "import_memory env mem (n, errors, db) =
     (case validate_memory (tv_rfc3339 (hv_tool env)) (tv_ser (hv_tool env)) mem of
        Inl e \<Rightarrow> (n, errors @ [(m_id mem, Inl e)], db)
      | Inr _ \<Rightarrow>
          (case insert_mem db mem of
             (Inl e, db') \<Rightarrow> (n, errors @ [(m_id mem, Inr e)], db')
           | (Inr _, db') \<Rightarrow> (n + 1, errors, db')))"

definition import_link :: "http_env \<Rightarrow> MemoryLink \<Rightarrow> Db \<Rightarrow> Db" where
  "import_link env l db =
     (if is_ok (validate_link (l_source_id l) (l_target_id l) (l_relation l))
      then snd (create_link (tv_db_now (hv_tool env)) db (l_source_id l) (l_target_id l) (l_relation l)) else db)"

definition http_import_memories :: "http_env \<Rightarrow> Memory list \<Rightarrow> MemoryLink list option \<Rightarrow> tool_state \<Rightarrow> handler_result" where
  "http_import_memories env memories links st =
     (if length memories > MAX_BULK_SIZE then fail_with 400 TooManyItems st
      else
        (case fold (import_memory env) memories (0, [], tl_db st) of
           (imported, errors, db) \<Rightarrow>
             respond 200 (ImportedBody imported errors) (st\<lparr>tl_db := fold (import_link env) (unwrap_or [] links) db\<rparr>)))"

definition http_consolidate_memories ::
    "http_env \<Rightarrow> str list \<Rightarrow> str \<Rightarrow> str \<Rightarrow> str \<Rightarrow> Tier option \<Rightarrow> str option \<Rightarrow> tool_state \<Rightarrow> handler_result" where
  "http_consolidate_memories env ids title summary namespace tier agent st =
     (let tv = hv_tool env in
      case validate_consolidate ids title summary namespace of
        Inl e \<Rightarrow> fail_with 400 (BadInput e) st
      | Inr _ \<Rightarrow>
          (case http_agent env agent of
             Inl e \<Rightarrow> fail_with 400 (BadAgent e) st
           | Inr agent_id \<Rightarrow>
               (case consolidate (tv_ser tv) (tv_uuid tv) (tv_db_now tv) (tl_db st) ids title summary namespace
                   (unwrap_or Long tier) ''consolidation'' agent_id of
                  (Inl e, db) \<Rightarrow> fail_with 500 InternalError (st\<lparr>tl_db := db\<rparr>)
                | (Inr new_id, db) \<Rightarrow>
                    let st1 = emit_event (Dispatched ''memory_consolidated'' new_id namespace (Some agent_id)
                          (Some [(''source_ids'', JArr (map JStr ids)), (''source_count'', JInt (int (length ids)))]))
                          (st\<lparr>tl_db := db\<rparr>);
                        created = respond 201 (ConsolidatedBody new_id (length ids)) st1
                    in case get db new_id of
                         None \<Rightarrow> created
                       | Some mem \<Rightarrow>
                           with_quorum env 0 (\<lambda>fed post start sched. broadcast_consolidate_quorum fed post start sched mem ids) st1
                             (\<lambda>_. created))))"

section \<open>Bulk creation and the archive\<close>

fun bulk_item :: "http_env \<Rightarrow> nat \<times> CreateMemory \<Rightarrow> Memory list \<times> BulkError list \<times> Db \<Rightarrow> Memory list \<times> BulkError list \<times> Db" where
  "bulk_item env (k, body) (created, errors, db) =
     (case validate_create (tv_rfc3339 (hv_tool env)) (tv_ser (hv_tool env)) (hv_unix_now env) body of
        Inl e \<Rightarrow> (created, errors @ [InvalidItem (c_title body) e], db)
      | Inr _ \<Rightarrow>
          let mem = http_memory env body (hv_uuids env k) (c_title body) (c_metadata body)
          in case insert_mem db mem of
               (Inl e, db') \<Rightarrow> (created, errors @ [InsertFailed e], db')
             | (Inr _, db') \<Rightarrow> (created @ [mem], errors, db'))"

text \<open>The broadcasts of the rows run concurrently; \<open>hv_joins\<close> is the order in which they are joined, less the tasks that
  could not be joined.\<close>

definition bulk_fanout :: "http_env \<Rightarrow> FederationConfig \<Rightarrow> Memory list \<Rightarrow> BulkError list" where
  "bulk_fanout env fed created =
     List.map_filter (\<lambda>k.
       if k < length created
       then (case broadcast_run env k fed (store_broadcast (created ! k)) of
               Inl e \<Rightarrow> Some (QuorumMissed (m_id (created ! k)) e)
             | Inr _ \<Rightarrow> None)
       else None) (hv_joins env)
     @ (if created = [] then [] else map (\<lambda>(peer, e). CatchupFailed peer e) (bulk_catchup_push fed created (hv_catchup env)))"

definition http_bulk_create :: "http_env \<Rightarrow> CreateMemory list \<Rightarrow> tool_state \<Rightarrow> handler_result" where
  "http_bulk_create env bodies st =
     (if length bodies > MAX_BULK_SIZE then fail_with 400 TooManyItems st
      else
        (case fold (bulk_item env) (enumerate 0 bodies) ([], [], tl_db st) of
           (created, errors, db) \<Rightarrow>
             respond 200 (BulkBody (length created)
               (errors @ (case hv_fed env of None \<Rightarrow> [] | Some fed \<Rightarrow> bulk_fanout env fed created))) (st\<lparr>tl_db := db\<rparr>)))"

definition http_restore_archive :: "http_env \<Rightarrow> str \<Rightarrow> tool_state \<Rightarrow> handler_result" where
  "http_restore_archive env i st =
     (case validate_id i of
        Inl e \<Rightarrow> fail_with 400 (BadInput e) st
      | Inr _ \<Rightarrow>
          (case restore_archived (tv_ser (hv_tool env)) (tv_db_now (hv_tool env)) (tl_db st) i of
             (Inl e, db) \<Rightarrow> fail_with 500 InternalError (st\<lparr>tl_db := db\<rparr>)
           | (Inr restored, db) \<Rightarrow>
               let st1 = st\<lparr>tl_db := db\<rparr>
               in if \<not> restored then fail_with 404 NotInArchive st1
                  else with_quorum env 0 (\<lambda>fed post start sched. broadcast_restore_quorum fed post start sched i) st1
                         (\<lambda>_. respond 200 (RestoredBody i) st1)))"

definition http_purge_archive :: "http_env \<Rightarrow> int option \<Rightarrow> tool_state \<Rightarrow> handler_result" where
  "http_purge_archive env older_than_days st =
     (case purge_archive (tv_minus_days (hv_tool env)) (tv_db_now (hv_tool env)) (tl_db st) older_than_days of
        (Inl e, db) \<Rightarrow> fail_with 500 InternalError (st\<lparr>tl_db := db\<rparr>)
      | (Inr n, db) \<Rightarrow> respond 200 (PurgedBody n) (st\<lparr>tl_db := db\<rparr>))"

fun archive_each :: "http_env \<Rightarrow> nat \<Rightarrow> str \<Rightarrow> str list \<Rightarrow> str list \<Rightarrow> str list \<Rightarrow> tool_state \<Rightarrow> handler_result" where
  "archive_each env k reason archived missing [] st = respond 200 (ArchivedBody archived missing reason) st"
| "archive_each env k reason archived missing (i # ids) st =
     (case archive_memory (tv_db_now (hv_tool env)) (tl_db st) i (Some reason) of
        (moved, db) \<Rightarrow>
          let st1 = st\<lparr>tl_db := db\<rparr>
          in if \<not> moved then archive_each env k reason archived (missing @ [i]) ids st1
             else with_quorum env k (\<lambda>fed post start sched. broadcast_archive_quorum fed post start sched i) st1 (\<lambda>_.
                    archive_each env (Suc k) reason (archived @ [i]) missing ids st1))"

definition http_archive_by_ids :: "http_env \<Rightarrow> str list \<Rightarrow> str option \<Rightarrow> tool_state \<Rightarrow> handler_result" where
  "http_archive_by_ids env ids reason st =
     (if length ids > MAX_BULK_SIZE then fail_with 400 TooManyItems st
      else case first_err (map validate_id ids) of
             Inl e \<Rightarrow> fail_with 400 (BadInput e) st
           | Inr _ \<Rightarrow> archive_each env 0 (unwrap_or ''archive'' reason) [] [] ids st)"

section \<open>Messages and namespace standards\<close>

definition resolve_caller_agent_id :: "http_env \<Rightarrow> str option \<Rightarrow> str option \<Rightarrow> ValidationError + str" where
  "resolve_caller_agent_id env body query =
     (case nonempty body of
        Some i \<Rightarrow> claimed i
      | None \<Rightarrow>
          (case nonempty query of
             Some i \<Rightarrow> claimed i
           | None \<Rightarrow> http_agent env None))"

record NotifyBody =
  nb_target_agent_id :: str
  nb_title :: str
  nb_payload :: "str option"
  nb_content :: "str option"
  nb_priority :: "int option"
  nb_tier :: "str option"
  nb_agent_id :: "str option"

definition notify_params :: "NotifyBody \<Rightarrow> str \<Rightarrow> json" where
  "notify_params body payload =
     JObj ([(''target_agent_id'', JStr (nb_target_agent_id body)), (''title'', JStr (nb_title body)), (''payload'', JStr payload)]
       @ (case nb_priority body of None \<Rightarrow> [] | Some p \<Rightarrow> [(''priority'', JInt p)])
       @ (case nb_tier body of None \<Rightarrow> [] | Some t \<Rightarrow> [(''tier'', JStr t)]))"

definition http_notify :: "http_env \<Rightarrow> NotifyBody \<Rightarrow> tool_state \<Rightarrow> handler_result" where
  "http_notify env body st =
     (case (case nb_payload body of None \<Rightarrow> nb_content body | p \<Rightarrow> p) of
        None \<Rightarrow> fail_with 400 PayloadRequired st
      | Some payload \<Rightarrow>
          (case resolve_caller_agent_id env (nb_agent_id body) None of
             Inl e \<Rightarrow> fail_with 400 (BadAgent e) st
           | Inr sender \<Rightarrow>
               (case handle_notify ((hv_tool env)\<lparr>tv_client := Some sender\<rparr>) (notify_params body payload) st of
                  (Inl e, st1) \<Rightarrow> fail_with 400 (ToolRefused e) st1
                | (Inr reply, st1) \<Rightarrow>
                    fanout_or_503 env 0 (case reply of Notified i _ _ _ \<Rightarrow> get (tl_db st1) i | _ \<Rightarrow> None) st1
                      (respond 201 (ToolBody reply) st1))))"

datatype NamespaceStandardBody = StandardBody (sb_id: "str option") (sb_parent: "str option") (sb_governance: "json option")
  (sb_namespace: "str option") (sb_standard: "NamespaceStandardBody option")

definition option_or :: "'a option \<Rightarrow> 'a option \<Rightarrow> 'a option" where
  "option_or x y = (case x of None \<Rightarrow> y | Some _ \<Rightarrow> x)"

definition flatten_standard_body :: "NamespaceStandardBody \<Rightarrow> NamespaceStandardBody" where
  "flatten_standard_body body =
     (case sb_standard body of
        None \<Rightarrow> body
      | Some inner \<Rightarrow>
          StandardBody (option_or (sb_id inner) (sb_id body)) (option_or (sb_parent inner) (sb_parent body))
            (option_or (sb_governance inner) (sb_governance body)) (option_or (sb_namespace inner) (sb_namespace body))
            (sb_standard inner))"

definition namespace_standard_params :: "str \<Rightarrow> NamespaceStandardBody \<Rightarrow> str \<Rightarrow> json" where
  "namespace_standard_params ns body i =
     JObj ([(''namespace'', JStr ns), (''id'', JStr i)]
       @ (case sb_parent body of None \<Rightarrow> [] | Some p \<Rightarrow> [(''parent'', JStr p)])
       @ (case sb_governance body of None \<Rightarrow> [] | Some g \<Rightarrow> [(''governance'', g)]))"

definition placeholder_standard :: "http_env \<Rightarrow> str \<Rightarrow> Memory" where
  "placeholder_standard env ns =
     \<lparr>m_id = tv_uuid (hv_tool env), m_tier = Long, m_namespace = ns, m_title = ''_standard:'' @ ns,
      m_content = ''namespace standard for '' @ ns, m_tags = [''_namespace_standard''], m_priority = 5, m_confidence = Fin 1,
      m_source = ''api'', m_access_count = 0, m_created_at = tv_now (hv_tool env), m_updated_at = tv_now (hv_tool env),
      m_last_accessed_at = None, m_expires_at = None, m_metadata = JObj [(''agent_id'', JStr ''system'')]\<rparr>"

text \<open>The memory that carries the standard: the given one, an existing placeholder or a new one.\<close>

definition standard_memory :: "http_env \<Rightarrow> str \<Rightarrow> str option \<Rightarrow> Db \<Rightarrow> (DbError + str) \<times> Db" where
  "standard_memory env ns given db =
     (case given of
        Some i \<Rightarrow> (Inr i, db)
      | None \<Rightarrow>
          (case list_memories (tv_ser (hv_tool env)) (tv_db_now (hv_tool env)) db
              \<lparr>lf_namespace = Some ns, lf_tier = None, lf_min_priority = None, lf_since = None, lf_until = None,
               lf_tags = Some ''_namespace_standard'', lf_agent_id = None\<rparr> 1 0 of
             m # _ \<Rightarrow> (Inr (m_id m), db)
           | [] \<Rightarrow> insert_mem db (placeholder_standard env ns)))"

definition set_namespace_standard_inner :: "http_env \<Rightarrow> str \<Rightarrow> NamespaceStandardBody \<Rightarrow> tool_state \<Rightarrow> handler_result" where
  "set_namespace_standard_inner env ns raw st =
     (let body = flatten_standard_body raw in
      case standard_memory env ns (sb_id body) (tl_db st) of
        (Inl e, db) \<Rightarrow> fail_with 500 InternalError (st\<lparr>tl_db := db\<rparr>)
      | (Inr i, db) \<Rightarrow>
          (case handle_namespace_set_standard (hv_tool env) (namespace_standard_params ns body i) (st\<lparr>tl_db := db\<rparr>) of
             (Inl e, st1) \<Rightarrow> fail_with 400 (ToolRefused e) st1
           | (Inr reply, st1) \<Rightarrow>
               let created = respond 201 (ToolBody reply) st1
               in fanout_or_503 env 0 (get (tl_db st1) i) st1
                    (case get_namespace_meta_entry (tl_db st1) ns of
                       None \<Rightarrow> created
                     | Some entry \<Rightarrow>
                         with_quorum env 1 (\<lambda>fed post start sched. broadcast_namespace_meta_quorum fed post start sched entry) st1
                           (\<lambda>_. created))))"

definition set_namespace_standard_qs :: "http_env \<Rightarrow> NamespaceStandardBody \<Rightarrow> tool_state \<Rightarrow> handler_result" where
  "set_namespace_standard_qs env body st =
     (case (case sb_namespace body of None \<Rightarrow> Option.bind (sb_standard body) sb_namespace | n \<Rightarrow> n) of
        None \<Rightarrow> fail_with 400 NamespaceRequired st
      | Some ns \<Rightarrow> set_namespace_standard_inner env ns body st)"

definition clear_namespace_standard_inner :: "http_env \<Rightarrow> str \<Rightarrow> tool_state \<Rightarrow> handler_result" where
  "clear_namespace_standard_inner env ns st =
     (case handle_namespace_clear_standard (hv_tool env) (JObj [(''namespace'', JStr ns)]) st of
        (Inl e, st1) \<Rightarrow> fail_with 400 (ToolRefused e) st1
      | (Inr reply, st1) \<Rightarrow>
          with_quorum env 0 (\<lambda>fed post start sched. broadcast_namespace_meta_clear_quorum fed post start sched [ns]) st1
            (\<lambda>_. respond 200 (ToolBody reply) st1))"

definition clear_namespace_standard_qs :: "http_env \<Rightarrow> str option \<Rightarrow> tool_state \<Rightarrow> handler_result" where
  "clear_namespace_standard_qs env namespace st =
     (case namespace of
        None \<Rightarrow> fail_with 400 NamespaceRequired st
      | Some ns \<Rightarrow> clear_namespace_standard_inner env ns st)"

section \<open>The signed approval endpoint\<close>

text \<open>\<open>str::parse::<i64>\<close>.\<close>

definition parse_i64 :: "str \<Rightarrow> int option" where
  "parse_i64 s =
     (let (negative, ds) = (case s of [] \<Rightarrow> (False, []) | c # r \<Rightarrow>
            if c = CHR ''-'' then (True, r) else if c = CHR ''+'' then (False, r) else (False, s));
          v = int (foldl (\<lambda>acc c. acc * 10 + the (digit_of 10 c)) 0 ds);
          w = (if negative then - v else v)
      in if ds = [] \<or> list_ex (\<lambda>c. digit_of 10 c = None) ds \<or> \<not> in_i64 w then None else Some w)"

function utf8_valid :: "str \<Rightarrow> bool" where
  "utf8_valid s =
     (if s = [] then True
      else let (n, valid) = next_char s in valid \<and> utf8_valid (drop n s))"
  by pat_completeness auto

termination
proof (relation "measure length")
  fix s :: str and x n valid
  assume "s \<noteq> []" "x = next_char s" "(n, valid) = x"
  then have "0 < n" by (auto simp: next_char_def Let_def split: if_splits)
  then show "(drop n s, s) \<in> measure length" using \<open>s \<noteq> []\<close> by simp
qed simp

declare utf8_valid.simps [simp del]

datatype ApprovalChoice = Approve | DenyIt

record approval_env =
  av_lib :: sub_lib
  av_secret :: "str option"
  av_signature :: "str option"
  av_timestamp :: "str option"
  av_now :: int
  av_parse :: "str \<Rightarrow> (ApprovalChoice \<times> Remember) option"

definition APPROVAL_HMAC_MAX_AGE_SECS :: int where "APPROVAL_HMAC_MAX_AGE_SECS = 300"
definition APPROVAL_HMAC_MAX_SKEW_SECS :: int where "APPROVAL_HMAC_MAX_SKEW_SECS = 60"

definition verify_approval_hmac :: "approval_env \<Rightarrow> str \<Rightarrow> bool" where
  "verify_approval_hmac av body =
     (case (av_secret av, av_signature av, av_timestamp av) of
        (Some secret, Some sig_header, Some timestamp) \<Rightarrow>
          starts_with sig_header ''sha256=''
          \<and> (case parse_i64 timestamp of
               None \<Rightarrow> False
             | Some ts_secs \<Rightarrow>
                 let delta = wrap64 (av_now av - ts_secs)
                 in \<not> delta > APPROVAL_HMAC_MAX_AGE_SECS \<and> \<not> delta < - APPROVAL_HMAC_MAX_SKEW_SECS
                    \<and> utf8_valid body
                    \<and> constant_time_eq
                        (as_bytes (hmac_sha256_hex (av_lib av) (sha256_hex (av_lib av) secret) (timestamp @ ''.'' @ body)))
                        (as_bytes (drop 7 sig_header)))
      | _ \<Rightarrow> False)"

fun choice_label :: "ApprovalChoice \<Rightarrow> str" where
  "choice_label Approve = ''approve''"
| "choice_label DenyIt = ''deny''"

text \<open>Publishing a decision and, unless it is for once only, remembering it as a rule.\<close>

definition publish_decision ::
    "http_env \<Rightarrow> str \<Rightarrow> str \<Rightarrow> ApprovalChoice \<Rightarrow> Remember \<Rightarrow> PendingAction option \<Rightarrow> tool_state \<Rightarrow> tool_state" where
  "publish_decision env i agent_id choice remember snapshot st =
     (let st1 = emit_event (Published (ApprovalDecided i (choice_label choice) agent_id (remember_label remember)
            (case snapshot of None \<Rightarrow> [] | Some p \<Rightarrow> pa_namespace p) (case snapshot of None \<Rightarrow> [] | Some p \<Rightarrow> pa_requested_by p))) st
      in case (remember, snapshot) of
           (Once, _) \<Rightarrow> st1
         | (_, None) \<Rightarrow> st1
         | (_, Some p) \<Rightarrow>
             st1\<lparr>tl_remembered := record_synthetic_rule
               \<lparr>sr_action_type = pa_action_type p, sr_namespace = pa_namespace p, sr_agent_id = Some (pa_requested_by p),
                sr_decision = choice_label choice, sr_recorded_at = tv_now (hv_tool env)\<rparr> (tl_remembered st1)\<rparr>)"

definition approval_decide :: "http_env \<Rightarrow> approval_env \<Rightarrow> str \<Rightarrow> str \<Rightarrow> tool_state \<Rightarrow> handler_result" where
  "approval_decide env av i body st =
     (let tv = hv_tool env in
      if \<not> verify_approval_hmac av body then fail_with 401 Unsigned st
      else case av_parse av body of
             None \<Rightarrow> fail_with 400 BadBody st
           | Some (choice, remember) \<Rightarrow>
               (case validate_id i of
                  Inl e \<Rightarrow> fail_with 400 (BadInput e) st
                | Inr _ \<Rightarrow>
                    (case http_agent env None of
                       Inl e \<Rightarrow> fail_with 400 (BadAgent e) st
                     | Inr agent_id \<Rightarrow>
                         let snapshot = get_pending_action (tl_db st) i;
                             decided = (\<lambda>reply db. respond 200 reply
                               (publish_decision env i agent_id choice remember snapshot (st\<lparr>tl_db := db\<rparr>)))
                         in case choice of
                              Approve \<Rightarrow>
                                (case approve_with_approver_type (tv_policy tv) (tv_db_now tv) (tl_db st) i agent_id of
                                   (Rejected reason, db) \<Rightarrow> fail_with 403 (ApproveRefused reason) (st\<lparr>tl_db := db\<rparr>)
                                 | (StillPending votes quorum, db) \<Rightarrow> decided (VotesBody i votes quorum) db
                                 | (Approved, db) \<Rightarrow>
                                     (case execute_pending_action (tv_mem_of tv) (tv_uuid tv) (tv_db_now tv) db i of
                                        (Inl e, db2) \<Rightarrow> fail_with 500 ExecutionFailed (st\<lparr>tl_db := db2\<rparr>)
                                      | (Inr memory_id, db2) \<Rightarrow> decided (ApprovedBody i agent_id memory_id) db2))
                            | DenyIt \<Rightarrow>
                                (case decide_pending_action (tv_db_now tv) (tl_db st) i False agent_id of
                                   (transitioned, db) \<Rightarrow>
                                     if transitioned then decided (RejectedBody i agent_id) db
                                     else fail_with 404 NotPendingError (st\<lparr>tl_db := db\<rparr>)))))"

end
