(* ===== verification/Curator.thy ===== *)
theory Curator
  imports Http
begin

text \<open>
  The curator (\<open>src/curator.rs\<close>) and its autonomy passes (\<open>src/autonomy.rs\<close>): a periodic cycle that tags memories, records
  contradictions, merges near-duplicates, forgets superseded memories and adjusts priorities, with a log from which every action
  can be reversed. The language model, Unicode tables, serializers, the order of a hash map, fresh ids and clocks are the
  environment; ids and times are indexed by the pass and the item they belong to. Similarities are exact fractions.
\<close>

section \<open>Configuration, reports and the rollback log\<close>

definition CONSOLIDATE_JACCARD_THRESHOLD :: rat where "CONSOLIDATE_JACCARD_THRESHOLD = 55 / 100"
definition CONSOLIDATE_MAX_CLUSTER_SIZE :: nat where "CONSOLIDATE_MAX_CLUSTER_SIZE = 8"
definition CURATOR_NAMESPACE :: str where "CURATOR_NAMESPACE = ''_curator''"
definition MIN_CONTENT_LEN :: nat where "MIN_CONTENT_LEN = 50"

record CuratorConfig =
  cc_max_ops_per_cycle :: nat
  cc_dry_run :: bool
  cc_include_namespaces :: "str list"
  cc_exclude_namespaces :: "str list"

datatype RollbackEntry =
    Consolidate "Memory list" str
  | Forget Memory
  | PriorityAdjust str int int

fun action_tag :: "RollbackEntry \<Rightarrow> str" where
  "action_tag (Consolidate _ _) = ''consolidate''"
| "action_tag (Forget _) = ''forget''"
| "action_tag (PriorityAdjust _ _ _) = ''priority_adjust''"

datatype CuratorError =
    LlmFailed
  | StoreFailed DbError
  | RollbackWriteFailed DbError
  | NoLlm
  | TagFailed str CuratorError
  | ContradictionFailed str CuratorError
  | Truncated nat
  | Collision str

record AutonomyPassReport =
  ar_clusters_formed :: nat
  ar_memories_consolidated :: nat
  ar_memories_forgotten :: nat
  ar_priority_adjustments :: nat
  ar_rollback_entries_written :: nat
  ar_errors :: "CuratorError list"

record CuratorReport =
  cr_started_at :: str
  cr_completed_at :: str
  cr_cycle_duration_ms :: nat
  cr_memories_scanned :: nat
  cr_memories_eligible :: nat
  cr_auto_tagged :: nat
  cr_contradictions_found :: nat
  cr_operations_attempted :: nat
  cr_operations_skipped_cap :: nat
  cr_autonomy :: AutonomyPassReport
  cr_errors :: "CuratorError list"
  cr_dry_run :: bool

record AutonomyLlm =
  ll_auto_tag :: "str \<Rightarrow> str \<Rightarrow> str list option"
  ll_detect_contradiction :: "str \<Rightarrow> str \<Rightarrow> bool option"
  ll_summarize_memories :: "(str \<times> str) list \<Rightarrow> str option"

record curator_env =
  cv_alphanumeric :: "nat \<Rightarrow> bool"
  cv_lowercase :: "nat list \<Rightarrow> nat list"
  cv_order :: "str list \<Rightarrow> str list"
  cv_days_since :: "str \<Rightarrow> int option"
  cv_ser :: "json \<Rightarrow> str"
  cv_entry_json :: "RollbackEntry \<Rightarrow> str"
  cv_report_json :: "str \<Rightarrow> CuratorReport \<Rightarrow> str"
  cv_uuid :: "nat \<Rightarrow> nat \<Rightarrow> str"
  cv_now :: "nat \<Rightarrow> nat \<Rightarrow> str"
  cv_started_at :: str
  cv_completed_at :: str
  cv_duration_ms :: nat

definition no_report :: AutonomyPassReport where
  "no_report = \<lparr>ar_clusters_formed = 0, ar_memories_consolidated = 0, ar_memories_forgotten = 0, ar_priority_adjustments = 0,
     ar_rollback_entries_written = 0, ar_errors = []\<rparr>"

definition no_filter :: list_filter where
  "no_filter = \<lparr>lf_namespace = None, lf_tier = None, lf_min_priority = None, lf_since = None, lf_until = None, lf_tags = None,
     lf_agent_id = None\<rparr>"

section \<open>Near-duplicates\<close>

text \<open>The words of a text: maximal runs of alphanumeric characters of at least three bytes, in lower case.\<close>

definition len_utf8 :: "nat \<Rightarrow> nat" where
  "len_utf8 c = (if c < 0x80 then 1 else if c < 0x800 then 2 else if c < 0x10000 then 3 else 4)"

fun split_chars :: "(nat \<Rightarrow> bool) \<Rightarrow> nat list \<Rightarrow> nat list list" where
  "split_chars sep [] = [[]]"
| "split_chars sep (c # s) =
     (if sep c then [] # split_chars sep s
      else (case split_chars sep s of w # ws \<Rightarrow> (c # w) # ws | [] \<Rightarrow> [[c]]))"

definition similarity_tokens :: "curator_env \<Rightarrow> str \<Rightarrow> nat list list" where
  "similarity_tokens env s =
     remdups (map (cv_lowercase env)
       (filter (\<lambda>t. sum_list (map len_utf8 t) \<ge> 3) (split_chars (\<lambda>c. \<not> cv_alphanumeric env c) (chars s))))"

definition jaccard_similarity :: "curator_env \<Rightarrow> str \<Rightarrow> str \<Rightarrow> rat" where
  "jaccard_similarity env a b =
     (let ta = similarity_tokens env a; tb = similarity_tokens env b in
      if ta = [] \<and> tb = [] then 0
      else
        let inter = length (filter (\<lambda>t. t \<in> set tb) ta);
            union = length ta + length (filter (\<lambda>t. t \<notin> set ta) tb)
        in if union = 0 then 0 else of_nat inter / of_nat union)"

definition near_duplicate :: "curator_env \<Rightarrow> Memory \<Rightarrow> Memory \<Rightarrow> bool" where
  "near_duplicate env a b = (jaccard_similarity env (m_content a) (m_content b) \<ge> CONSOLIDATE_JACCARD_THRESHOLD)"

text \<open>One round of the inner loop: what joins the cluster of size n and what stays unused.\<close>

fun join_cluster :: "curator_env \<Rightarrow> Memory \<Rightarrow> nat \<Rightarrow> Memory list \<Rightarrow> Memory list \<times> Memory list" where
  "join_cluster env first n [] = ([], [])"
| "join_cluster env first n (m # ms) =
     (if n \<ge> CONSOLIDATE_MAX_CLUSTER_SIZE then ([], m # ms)
      else if near_duplicate env first m
      then (case join_cluster env first (Suc n) ms of (taken, unused) \<Rightarrow> (m # taken, unused))
      else (case join_cluster env first n ms of (taken, unused) \<Rightarrow> (taken, m # unused)))"

lemma join_cluster_shrinks: "join_cluster env first n ms = (taken, unused) \<Longrightarrow> length unused \<le> length ms"
  by (induction ms arbitrary: n taken unused) (auto split: if_splits prod.splits intro: le_SucI)

function cluster_group :: "curator_env \<Rightarrow> Memory list \<Rightarrow> Memory list list" where
  "cluster_group env [] = []"
| "cluster_group env (m # ms) =
     (case join_cluster env m 1 ms of
        (taken, unused) \<Rightarrow> (if taken \<noteq> [] then [m # taken] else []) @ cluster_group env unused)"
  by pat_completeness auto

termination
  by (relation "measure (length \<circ> snd)") (auto dest: join_cluster_shrinks [OF sym] simp: less_Suc_eq_le)

definition reserved :: "str \<Rightarrow> bool" where
  "reserved namespace = starts_with namespace ''_''"

definition find_consolidation_clusters :: "curator_env \<Rightarrow> Memory list \<Rightarrow> Memory list list" where
  "find_consolidation_clusters env mems =
     (let open_ones = filter (\<lambda>m. \<not> reserved (m_namespace m)) mems;
          namespaces = cv_order env (remdups (map m_namespace open_ones))
      in concat (map (\<lambda>ns. cluster_group env (filter (\<lambda>m. m_namespace m = ns) open_ones)) namespaces))"

section \<open>The autonomy passes\<close>

type_synonym 'a curator_result = "(CuratorError + 'a) \<times> Db"

definition highest_tier :: "Memory list \<Rightarrow> Tier" where
  "highest_tier ms = (case map m_tier ms of [] \<Rightarrow> Mid | t # ts \<Rightarrow> foldl (\<lambda>a b. if tier_rank a \<le> tier_rank b then b else a) t ts)"

definition consolidate_cluster ::
    "curator_env \<Rightarrow> AutonomyLlm \<Rightarrow> nat \<Rightarrow> Memory list \<Rightarrow> bool \<Rightarrow> Db \<Rightarrow> RollbackEntry option curator_result" where
  "consolidate_cluster env llm k cluster dry_run db =
     (if length cluster < 2 then (Inr None, db)
      else if list_ex (\<lambda>m. reserved (m_namespace m)) cluster then (Inr None, db)
      else case ll_summarize_memories llm (map (\<lambda>m. (m_title m, m_content m)) cluster) of
             None \<Rightarrow> (Inl LlmFailed, db)
           | Some summary \<Rightarrow>
               if dry_run then (Inr (Some (Consolidate cluster ''dry-run'')), db)
               else (case consolidate (cv_ser env) (cv_uuid env 0 k) (cv_now env 0 k) db (map m_id cluster)
                        (''[consolidated] '' @ m_title (hd cluster)) summary (m_namespace (hd cluster)) (highest_tier cluster)
                        ''ai-memory curator (autonomy)'' ''ai:curator'' of
                       (Inl e, db') \<Rightarrow> (Inl (StoreFailed e), db')
                     | (Inr result_id, db') \<Rightarrow> (Inr (Some (Consolidate cluster result_id)), db')))"

definition contradictions_of :: "Memory \<Rightarrow> json list" where
  "contradictions_of mem = (case json_get (m_metadata mem) ''confirmed_contradictions'' of Some (JArr vs) \<Rightarrow> vs | _ \<Rightarrow> [])"

definition supersedes :: "Memory \<Rightarrow> Memory \<Rightarrow> bool" where
  "supersedes other mem = (m_updated_at other > m_updated_at mem \<and> m_confidence other \<noteq> NaN
     \<and> f64_le (m_confidence mem) (m_confidence other))"

definition forget_if_superseded :: "Memory \<Rightarrow> Memory list \<Rightarrow> bool \<Rightarrow> Db \<Rightarrow> RollbackEntry option curator_result" where
  "forget_if_superseded mem all_mems dry_run db =
     (let by_id = map_of (rev (map (\<lambda>m. (m_id m, m)) all_mems)) in
      if list_ex (\<lambda>v. case v of
                      JStr other_id \<Rightarrow> (case by_id other_id of Some other \<Rightarrow> supersedes other mem | None \<Rightarrow> False)
                    | _ \<Rightarrow> False) (contradictions_of mem)
      then (Inr (Some (Forget mem)), if dry_run then db else snd (delete db (m_id mem)))
      else (Inr None, db))"

definition feedback_priority :: "curator_env \<Rightarrow> Memory \<Rightarrow> int" where
  "feedback_priority env mem =
     (let recent = (case Option.bind (m_last_accessed_at mem) (cv_days_since env) of Some d \<Rightarrow> d \<le> 7 | None \<Rightarrow> False);
          cold_enough = (case cv_days_since env (m_created_at mem) of Some d \<Rightarrow> d \<ge> 30 | None \<Rightarrow> False);
          before = m_priority mem
      in if m_access_count mem \<ge> 10 \<and> recent \<and> before < 10 then min (before + 1) 10
         else if m_access_count mem = 0 \<and> cold_enough \<and> before > 1 then max (before - 1) 1
         else before)"

definition apply_priority_feedback ::
    "curator_env \<Rightarrow> nat \<Rightarrow> Memory \<Rightarrow> bool \<Rightarrow> Db \<Rightarrow> RollbackEntry option curator_result" where
  "apply_priority_feedback env k mem dry_run db =
     (let before = m_priority mem; after = feedback_priority env mem in
      if after = before then (Inr None, db)
      else if dry_run then (Inr (Some (PriorityAdjust (m_id mem) before after)), db)
      else (case update (cv_now env 2 k) db (m_id mem) (no_update\<lparr>u_priority := Some after\<rparr>) of
              (Inl e, db') \<Rightarrow> (Inl (StoreFailed e), db')
            | (Inr _, db') \<Rightarrow> (Inr (Some (PriorityAdjust (m_id mem) before after)), db')))"

definition rollback_memory :: "curator_env \<Rightarrow> nat \<Rightarrow> nat \<Rightarrow> RollbackEntry \<Rightarrow> Memory" where
  "rollback_memory env p k entry =
     (let ts = cv_now env p k in
      \<lparr>m_id = cv_uuid env p k, m_tier = Long, m_namespace = CURATOR_NAMESPACE @ ''/rollback'',
       m_title = ''curator '' @ action_tag entry @ '' @ '' @ ts, m_content = cv_entry_json env entry,
       m_tags = [''_curator'', ''_rollback'', action_tag entry], m_priority = 3, m_confidence = Fin 1,
       m_source = ''ai-memory curator (autonomy)'', m_access_count = 0, m_created_at = ts, m_updated_at = ts,
       m_last_accessed_at = None, m_expires_at = None,
       m_metadata = JObj [(''agent_id'', JStr ''ai:curator''), (''action'', JStr (action_tag entry))]\<rparr>)"

definition persist_rollback_entry :: "curator_env \<Rightarrow> nat \<Rightarrow> nat \<Rightarrow> RollbackEntry \<Rightarrow> Db \<Rightarrow> str db_result" where
  "persist_rollback_entry env p k entry db = insert_mem db (rollback_memory env p k entry)"

text \<open>What every pass does with the outcome of an item: log it for rollback unless this is a dry run, and count it.\<close>

definition record_outcome ::
    "curator_env \<Rightarrow> bool \<Rightarrow> nat \<Rightarrow> nat \<Rightarrow> (RollbackEntry \<Rightarrow> AutonomyPassReport \<Rightarrow> AutonomyPassReport)
      \<Rightarrow> RollbackEntry option curator_result \<Rightarrow> AutonomyPassReport \<Rightarrow> AutonomyPassReport \<times> Db" where
  "record_outcome env dry_run p k tally res report =
     (case res of
        (Inl e, db) \<Rightarrow> (report\<lparr>ar_errors := ar_errors report @ [e]\<rparr>, db)
      | (Inr None, db) \<Rightarrow> (report, db)
      | (Inr (Some entry), db) \<Rightarrow>
          let written = report\<lparr>ar_rollback_entries_written := ar_rollback_entries_written report + 1\<rparr> in
          if dry_run then (tally entry written, db)
          else (case persist_rollback_entry env p k entry db of
                  (Inl e, db') \<Rightarrow> (tally entry (report\<lparr>ar_errors := ar_errors report @ [RollbackWriteFailed e]\<rparr>), db')
                | (Inr _, db') \<Rightarrow> (tally entry written, db')))"

fun count_consolidated :: "RollbackEntry \<Rightarrow> AutonomyPassReport \<Rightarrow> AutonomyPassReport" where
  "count_consolidated (Consolidate originals _) r = r\<lparr>ar_memories_consolidated := ar_memories_consolidated r + length originals\<rparr>"
| "count_consolidated _ r = r"

definition count_forgotten :: "RollbackEntry \<Rightarrow> AutonomyPassReport \<Rightarrow> AutonomyPassReport" where
  "count_forgotten _ r = r\<lparr>ar_memories_forgotten := ar_memories_forgotten r + 1\<rparr>"

definition count_adjusted :: "RollbackEntry \<Rightarrow> AutonomyPassReport \<Rightarrow> AutonomyPassReport" where
  "count_adjusted _ r = r\<lparr>ar_priority_adjustments := ar_priority_adjustments r + 1\<rparr>"

fun run_pass ::
    "(nat \<Rightarrow> 'a \<Rightarrow> Db \<Rightarrow> RollbackEntry option curator_result)
      \<Rightarrow> (nat \<Rightarrow> RollbackEntry option curator_result \<Rightarrow> AutonomyPassReport \<Rightarrow> AutonomyPassReport \<times> Db)
      \<Rightarrow> nat \<Rightarrow> 'a list \<Rightarrow> AutonomyPassReport \<Rightarrow> Db \<Rightarrow> AutonomyPassReport \<times> Db" where
  "run_pass act note_it k [] report db = (report, db)"
| "run_pass act note_it k (x # xs) report db =
     (case note_it k (act k x db) report of (report', db') \<Rightarrow> run_pass act note_it (Suc k) xs report' db')"

definition run_autonomy_passes ::
    "curator_env \<Rightarrow> AutonomyLlm \<Rightarrow> Memory list \<Rightarrow> bool \<Rightarrow> Db \<Rightarrow> AutonomyPassReport \<times> Db" where
  "run_autonomy_passes env llm mems dry_run db =
     (let clusters = find_consolidation_clusters env mems in
      case run_pass (\<lambda>k cluster. consolidate_cluster env llm k cluster dry_run)
             (\<lambda>k. record_outcome env dry_run 1 k count_consolidated) 0 clusters
             (no_report\<lparr>ar_clusters_formed := length clusters\<rparr>) db of
        (r1, db1) \<Rightarrow>
          (case run_pass (\<lambda>k mem. forget_if_superseded mem mems dry_run)
                  (\<lambda>k. record_outcome env dry_run 3 k count_forgotten) 0 mems r1 db1 of
             (r2, db2) \<Rightarrow>
               run_pass (\<lambda>k mem. apply_priority_feedback env k mem dry_run)
                 (\<lambda>k. record_outcome env dry_run 4 k count_adjusted) 0 mems r2 db2))"

section \<open>Reversing an action\<close>

definition check_no_collision :: "curator_env \<Rightarrow> str \<Rightarrow> Db \<Rightarrow> Memory \<Rightarrow> CuratorError + unit" where
  "check_no_collision env now db m =
     (case List.find (\<lambda>row. m_namespace row = m_namespace m \<and> m_title row = m_title m \<and> m_id row \<noteq> m_id m)
             (list_memories (cv_ser env) now db (no_filter\<lparr>lf_namespace := Some (m_namespace m)\<rparr>) 50 0) of
        Some row \<Rightarrow> Inl (Collision (m_id row))
      | None \<Rightarrow> Inr ())"

fun insert_all :: "Memory list \<Rightarrow> Db \<Rightarrow> unit curator_result" where
  "insert_all [] db = (Inr (), db)"
| "insert_all (m # ms) db =
     (case insert_mem db m of
        (Inl e, db') \<Rightarrow> (Inl (StoreFailed e), db')
      | (Inr _, db') \<Rightarrow> insert_all ms db')"

fun reverse_rollback_entry :: "curator_env \<Rightarrow> str \<Rightarrow> RollbackEntry \<Rightarrow> Db \<Rightarrow> bool curator_result" where
  "reverse_rollback_entry env now (Consolidate originals result_id) db =
     (case first_err (map (check_no_collision env now db) originals) of
        Inl e \<Rightarrow> (Inl e, db)
      | Inr _ \<Rightarrow>
          (case delete db result_id of
             (existed, db1) \<Rightarrow>
               (case insert_all originals db1 of
                  (Inl e, db2) \<Rightarrow> (Inl e, db2)
                | (Inr _, db2) \<Rightarrow> (Inr existed, db2))))"
| "reverse_rollback_entry env now (Forget snapshot) db =
     (case check_no_collision env now db snapshot of
        Inl e \<Rightarrow> (Inl e, db)
      | Inr _ \<Rightarrow>
          (case insert_mem db snapshot of
             (Inl e, db') \<Rightarrow> (Inl (StoreFailed e), db')
           | (Inr _, db') \<Rightarrow> (Inr True, db')))"
| "reverse_rollback_entry env now (PriorityAdjust memory_id before after) db =
     (case update now db memory_id (no_update\<lparr>u_priority := Some before\<rparr>) of
        (Inl e, db') \<Rightarrow> (Inl (StoreFailed e), db')
      | (Inr _, db') \<Rightarrow> (Inr True, db'))"

section \<open>A curator cycle\<close>

definition collect_candidates :: "curator_env \<Rightarrow> CuratorConfig \<Rightarrow> Db \<Rightarrow> Memory list \<times> bool" where
  "collect_candidates env cfg db =
     (let cap = min (cc_max_ops_per_cycle cfg * 4) (2 ^ 64 - 1);
          batch = (\<lambda>tier. list_memories (cv_ser env) (cv_started_at env) db (no_filter\<lparr>lf_tier := Some tier\<rparr>) cap 0)
      in (batch Mid @ batch Long, length (batch Mid) \<ge> cap \<or> length (batch Long) \<ge> cap))"

definition needs_curation :: "CuratorConfig \<Rightarrow> Memory \<Rightarrow> bool" where
  "needs_curation cfg mem =
     (\<not> reserved (m_namespace mem)
      \<and> (cc_include_namespaces cfg = [] \<or> m_namespace mem \<in> set (cc_include_namespaces cfg))
      \<and> m_namespace mem \<notin> set (cc_exclude_namespaces cfg)
      \<and> \<not> length (m_content mem) < MIN_CONTENT_LEN
      \<and> \<not> (case json_get (m_metadata mem) ''auto_tags'' of Some (JArr vs) \<Rightarrow> vs \<noteq> [] | _ \<Rightarrow> False))"

definition persist_auto_tags :: "curator_env \<Rightarrow> nat \<Rightarrow> Memory \<Rightarrow> str list \<Rightarrow> Db \<Rightarrow> (bool \<times> bool) db_result" where
  "persist_auto_tags env k mem tags db =
     (let updated = with_key ''curated_at'' (JStr (cv_now env 5 k))
            (with_key ''auto_tags'' (JArr (map JStr tags)) (m_metadata mem))
      in update (cv_now env 5 k) db (m_id mem) (no_update\<lparr>u_metadata := Some updated\<rparr>))"

definition persist_contradiction :: "curator_env \<Rightarrow> nat \<Rightarrow> Memory \<Rightarrow> str \<Rightarrow> Db \<Rightarrow> (bool \<times> bool) db_result" where
  "persist_contradiction env k mem against_id db =
     (let ids = List.map_filter (\<lambda>v. case v of JStr s \<Rightarrow> Some s | _ \<Rightarrow> None) (contradictions_of mem);
          ids' = (if against_id \<in> set ids then ids else ids @ [against_id]);
          updated = with_key ''confirmed_contradictions'' (JArr (map JStr ids')) (m_metadata mem)
      in update (cv_now env 6 k) db (m_id mem) (no_update\<lparr>u_metadata := Some updated\<rparr>))"

definition adjacent_memory :: "curator_env \<Rightarrow> nat \<Rightarrow> Memory \<Rightarrow> Db \<Rightarrow> Memory option" where
  "adjacent_memory env k mem db =
     List.find (\<lambda>m. m_id m \<noteq> m_id mem \<and> length (m_content m) \<ge> MIN_CONTENT_LEN)
       (list_memories (cv_ser env) (cv_now env 6 k) db (no_filter\<lparr>lf_namespace := Some (m_namespace mem)\<rparr>) 8 0)"

definition failed :: "CuratorError \<Rightarrow> CuratorReport \<Rightarrow> CuratorReport" where
  "failed e r = r\<lparr>cr_errors := cr_errors r @ [e]\<rparr>"

text \<open>The second half of an item: the contradiction with one neighbour.\<close>

definition curate_contradiction ::
    "curator_env \<Rightarrow> AutonomyLlm \<Rightarrow> CuratorConfig \<Rightarrow> nat \<Rightarrow> Memory \<Rightarrow> CuratorReport \<Rightarrow> Db \<Rightarrow> CuratorReport \<times> Db" where
  "curate_contradiction env llm cfg k mem report db =
     (case adjacent_memory env k mem db of
        None \<Rightarrow> (report, db)
      | Some sibling \<Rightarrow>
          (case ll_detect_contradiction llm (m_content mem) (m_content sibling) of
             None \<Rightarrow> (failed (ContradictionFailed (m_id mem) LlmFailed) report, db)
           | Some False \<Rightarrow> (report, db)
           | Some True \<Rightarrow>
               let found = report\<lparr>cr_contradictions_found := cr_contradictions_found report + 1\<rparr> in
               if cc_dry_run cfg then (found, db)
               else (case persist_contradiction env k mem (m_id sibling) db of
                       (Inl e, db') \<Rightarrow> (failed (ContradictionFailed (m_id mem) (StoreFailed e)) report, db')
                     | (Inr _, db') \<Rightarrow> (found, db'))))"

definition curate_item ::
    "curator_env \<Rightarrow> AutonomyLlm \<Rightarrow> CuratorConfig \<Rightarrow> nat \<times> Memory \<Rightarrow> CuratorReport \<times> Db \<Rightarrow> CuratorReport \<times> Db" where
  "curate_item env llm cfg km st =
     (case (km, st) of ((k, mem), (report, db)) \<Rightarrow>
        if cr_operations_attempted report \<ge> cc_max_ops_per_cycle cfg
        then (report\<lparr>cr_operations_skipped_cap := cr_operations_skipped_cap report + 1\<rparr>, db)
        else
          let report1 = report\<lparr>cr_operations_attempted := cr_operations_attempted report + 1\<rparr> in
          (case ll_auto_tag llm (m_title mem) (m_content mem) of
             None \<Rightarrow> curate_contradiction env llm cfg k mem (failed (TagFailed (m_id mem) LlmFailed) report1) db
           | Some tags \<Rightarrow>
               if tags = [] then curate_contradiction env llm cfg k mem report1 db
               else
                 let tagged = report1\<lparr>cr_auto_tagged := cr_auto_tagged report1 + 1\<rparr> in
                 if cc_dry_run cfg then curate_contradiction env llm cfg k mem tagged db
                 else (case persist_auto_tags env k mem (take 8 tags) db of
                         (Inl e, db') \<Rightarrow> (failed (TagFailed (m_id mem) (StoreFailed e)) report1, db')
                       | (Inr _, db') \<Rightarrow> curate_contradiction env llm cfg k mem tagged db')))"

definition report_memory :: "curator_env \<Rightarrow> CuratorReport \<Rightarrow> Memory" where
  "report_memory env report =
     (let ts = cv_now env 7 0 in
      \<lparr>m_id = cv_uuid env 7 0, m_tier = Mid, m_namespace = CURATOR_NAMESPACE @ ''/reports'',
       m_title = ''curator cycle @ '' @ ts, m_content = cv_report_json env ts report,
       m_tags = [''_curator'', ''_report''], m_priority = 2, m_confidence = Fin 1,
       m_source = ''ai-memory curator (autonomy)'', m_access_count = 0, m_created_at = ts, m_updated_at = ts,
       m_last_accessed_at = None, m_expires_at = None, m_metadata = JObj [(''agent_id'', JStr ''ai:curator'')]\<rparr>)"

definition persist_self_report :: "curator_env \<Rightarrow> CuratorReport \<Rightarrow> Db \<Rightarrow> str db_result" where
  "persist_self_report env report db = insert_mem db (report_memory env report)"

definition report_new :: "curator_env \<Rightarrow> CuratorConfig \<Rightarrow> CuratorReport" where
  "report_new env cfg =
     \<lparr>cr_started_at = cv_started_at env, cr_completed_at = cv_started_at env, cr_cycle_duration_ms = 0, cr_memories_scanned = 0,
      cr_memories_eligible = 0, cr_auto_tagged = 0, cr_contradictions_found = 0, cr_operations_attempted = 0,
      cr_operations_skipped_cap = 0, cr_autonomy = no_report, cr_errors = [], cr_dry_run = cc_dry_run cfg\<rparr>"

definition record_truncation :: "CuratorReport \<Rightarrow> bool \<Rightarrow> CuratorConfig \<Rightarrow> CuratorReport" where
  "record_truncation report truncated cfg =
     (if truncated then failed (Truncated (min (cc_max_ops_per_cycle cfg * 4) (2 ^ 64 - 1))) report else report)"

definition completed :: "curator_env \<Rightarrow> CuratorReport \<Rightarrow> CuratorReport" where
  "completed env report = report\<lparr>cr_completed_at := cv_completed_at env, cr_cycle_duration_ms := cv_duration_ms env\<rparr>"

definition run_once :: "curator_env \<Rightarrow> AutonomyLlm option \<Rightarrow> CuratorConfig \<Rightarrow> Db \<Rightarrow> CuratorReport \<times> Db" where
  "run_once env llm cfg db =
     (case collect_candidates env cfg db of (mems, truncated) \<Rightarrow>
        let eligible = filter (needs_curation cfg) mems;
            report = (record_truncation ((report_new env cfg)\<lparr>cr_memories_scanned := length mems\<rparr>) truncated cfg)
              \<lparr>cr_memories_eligible := length eligible\<rparr>
        in case llm of
             None \<Rightarrow> (completed env (failed NoLlm report), db)
           | Some client \<Rightarrow>
               (case fold (curate_item env client cfg) (enumerate 0 eligible) (report, db) of
                  (report1, db1) \<Rightarrow>
                    (case run_autonomy_passes env client eligible (cc_dry_run cfg) db1 of
                       (passes, db2) \<Rightarrow>
                         let report2 = completed env (report1\<lparr>cr_errors := cr_errors report1 @ ar_errors passes, cr_autonomy := passes\<rparr>)
                         in (report2, if cc_dry_run cfg then db2 else snd (persist_self_report env report2 db2)))))"

end
