(* ===== verification/Reranker.thy ===== *)
theory Reranker
  imports Hybrid Curator
begin

text \<open>
  The second ranking of recall results (\<open>src/reranker.rs\<close>): the lexical score, the cross-encoder with its batched variant, and
  the coalescer that collects concurrent requests into one batch. Parameters are the Unicode tables, the logarithm and the
  neural model, which scores a pair of query and document or a whole batch of pairs and may fail. Scores are computed exactly
  where the code rounds. A result of \<open>None\<close> is a panic of the thread.
\<close>

section \<open>Lexical scores\<close>

record lexical_lib =
  lx_alphanumeric :: "nat \<Rightarrow> bool"
  lx_lowercase :: "nat list \<Rightarrow> nat list"
  lx_ln :: "rat \<Rightarrow> rat"

type_synonym token = "nat list"

definition tokenize :: "lexical_lib \<Rightarrow> str \<Rightarrow> token list" where
  "tokenize X s = filter (\<lambda>w. w \<noteq> []) (split_chars (\<lambda>c. \<not> lx_alphanumeric X c \<and> c \<noteq> 39) (chars s))"

definition clamp01 :: "rat \<Rightarrow> rat" where
  "clamp01 x = (if x < 0 then 0 else if x > 1 then 1 else x)"

text \<open>\<open>*entry(tok).or_insert(0) += 1\<close>.\<close>

fun bump :: "token \<Rightarrow> (token \<times> nat) list \<Rightarrow> (token \<times> nat) list" where
  "bump t [] = [(t, 1)]"
| "bump t ((k, n) # m) = (if k = t then (k, n + 1) # m else (k, n) # bump t m)"

definition tfidf_score :: "lexical_lib \<Rightarrow> token list \<Rightarrow> token list \<Rightarrow> rat" where
  "tfidf_score X query_terms doc_tokens =
     (if doc_tokens = [] \<or> query_terms = [] then 0
      else
        let tf_map = fold bump doc_tokens [];
            total = of_nat (length doc_tokens);
            unique = of_nat (length tf_map);
            query_lower = map (lx_lowercase X) query_terms;
            add = (\<lambda>qt score_sum.
              let hits = filter (\<lambda>(k, _). lx_lowercase X k = qt) tf_map;
                  tf = of_nat (sum_list (map snd hits)) in
              if tf = 0 then score_sum
              else score_sum + tf / total * (lx_ln X (unique / (1 + of_nat (length hits))) + 1))
        in clamp01 (fold add query_lower 0 / of_nat (length query_lower)))"

definition bigrams :: "token list \<Rightarrow> (token \<times> token) list" where
  "bigrams tokens = zip tokens (tl tokens)"

definition lexical_score :: "lexical_lib \<Rightarrow> str \<Rightarrow> str \<Rightarrow> str \<Rightarrow> rat" where
  "lexical_score X query title content =
     (let query_terms = tokenize X query in
      if query_terms = [] then 0
      else
        let title_terms = tokenize X title;
            content_terms = tokenize X content;
            doc_all = title_terms @ content_terms;
            query_set = remdups query_terms;
            intersection = length (filter (\<lambda>t. t \<in> set doc_all) query_set);
            union = length (remdups (query_terms @ doc_all));
            jaccard = (if union > 0 then of_nat intersection / of_nat union else 0);
            tf_idf = tfidf_score X query_terms doc_all;
            query_bigrams = bigrams query_terms;
            doc_bigrams = bigrams doc_all;
            bigram_overlap =
              (if query_bigrams = [] then 0
               else of_nat (length (filter (\<lambda>b. b \<in> set doc_bigrams) query_bigrams)) / of_nat (length query_bigrams));
            title_hits = length (filter (\<lambda>t. t \<in> set title_terms) query_set);
            title_bonus = (if query_set = [] then 0 else of_nat title_hits / of_nat (length query_set))
        in clamp01 (3 / 10 * jaccard + 3 / 10 * tf_idf + 2 / 10 * bigram_overlap + 2 / 10 * title_bonus))"

section \<open>The cross-encoder\<close>

type_synonym scored = "(Memory \<times> f64) list"

text \<open>The neural model: whether its lock is poisoned, the score of one pair and of a batch.\<close>

record bert =
  bt_poisoned :: bool
  bt_pair :: "str \<times> str \<Rightarrow> f64 option"
  bt_batch :: "(str \<times> str) list \<Rightarrow> f64 list option"

datatype CrossEncoder = Lexical | Neural bert

definition ORIGINAL_WEIGHT :: rat where "ORIGINAL_WEIGHT = 6 / 10"
definition CROSS_ENCODER_WEIGHT :: rat where "CROSS_ENCODER_WEIGHT = 4 / 10"

definition document_of :: "str \<Rightarrow> str \<Rightarrow> str" where
  "document_of title content = title @ '' '' @ content"

definition neural_score :: "bert \<Rightarrow> str \<Rightarrow> str \<Rightarrow> str \<Rightarrow> f64 option" where
  "neural_score B query title content = bt_pair B (query, document_of title content)"

fun encoder_score :: "lexical_lib \<Rightarrow> CrossEncoder \<Rightarrow> str \<Rightarrow> str \<Rightarrow> str \<Rightarrow> f64" where
  "encoder_score X Lexical query title content = Fin (lexical_score X query title content)"
| "encoder_score X (Neural B) query title content =
     (if bt_poisoned B then Fin (lexical_score X query title content)
      else case neural_score B query title content of
             Some s \<Rightarrow> s
           | None \<Rightarrow> Fin (lexical_score X query title content))"

definition is_neural :: "CrossEncoder \<Rightarrow> bool" where
  "is_neural enc = (case enc of Neural _ \<Rightarrow> True | Lexical \<Rightarrow> False)"

definition blend :: "f64 \<Rightarrow> f64 \<Rightarrow> f64" where
  "blend original ce = f64_add (f64_times ORIGINAL_WEIGHT original) (f64_times CROSS_ENCODER_WEIGHT ce)"

definition by_score :: "Memory \<times> f64 \<Rightarrow> Memory \<times> f64 \<Rightarrow> bool" where
  "by_score a b = f64_lt (snd b) (snd a)"

definition rerank :: "lexical_lib \<Rightarrow> CrossEncoder \<Rightarrow> str \<Rightarrow> scored \<Rightarrow> scored" where
  "rerank X enc query cands =
     order_by by_score
       (map (\<lambda>(mem, original). (mem, blend original (encoder_score X enc query (m_title mem) (m_content mem)))) cands)"

definition batch_pairs :: "(str \<times> scored) list \<Rightarrow> (str \<times> str) list" where
  "batch_pairs queries =
     concat (map (\<lambda>(q, cands). map (\<lambda>(mem, _). (q, document_of (m_title mem) (m_content mem))) cands) queries)"

definition neural_rerank_batch :: "bert \<Rightarrow> (str \<times> scored) list \<Rightarrow> f64 list option" where
  "neural_rerank_batch B queries =
     (let pairs = batch_pairs queries in if pairs = [] then Some [] else bt_batch B pairs)"

text \<open>The loop over the queries with its cursor into the flat scores; an index past their end panics.\<close>

fun blend_rows :: "f64 list \<Rightarrow> nat \<Rightarrow> (str \<times> scored) list \<Rightarrow> scored list option" where
  "blend_rows scores cursor [] = Some []"
| "blend_rows scores cursor ((query, cands) # rest) =
     (let n = length cands in
      if n > 0 \<and> length scores < cursor + n then None
      else
        map_option ((#) (order_by by_score
            (map (\<lambda>(i, mem, original). (mem, blend original (scores ! (cursor + i)))) (enumerate 0 cands))))
          (blend_rows scores (cursor + n) rest))"

definition rerank_batch :: "lexical_lib \<Rightarrow> CrossEncoder \<Rightarrow> (str \<times> scored) list \<Rightarrow> scored list option" where
  "rerank_batch X enc queries =
     (case queries of
        [(q, cands)] \<Rightarrow> Some [rerank X enc q cands]
      | _ \<Rightarrow>
          (case enc of
             Lexical \<Rightarrow> Some (map (\<lambda>(q, cands). rerank X enc q cands) queries)
           | Neural B \<Rightarrow>
               if bt_poisoned B then Some (map (\<lambda>(q, cands). rerank X Lexical q cands) queries)
               else
                 (case neural_rerank_batch B queries of
                    Some scores \<Rightarrow> blend_rows scores 0 queries
                  | None \<Rightarrow> Some (map (\<lambda>(q, cands). rerank X Lexical q cands) queries))))"

section \<open>The coalescer\<close>

definition DEFAULT_MAX_BATCH :: nat where "DEFAULT_MAX_BATCH = 32"

text \<open>A reply channel is a number.\<close>

record RerankJob =
  rj_query :: str
  rj_candidates :: scored
  rj_reply :: nat

definition process_batch :: "lexical_lib \<Rightarrow> CrossEncoder \<Rightarrow> RerankJob list \<Rightarrow> (nat \<times> scored) list option" where
  "process_batch X enc batch =
     (case batch of
        [] \<Rightarrow> Some []
      | [job] \<Rightarrow> Some [(rj_reply job, rerank X enc (rj_query job) (rj_candidates job))]
      | _ \<Rightarrow>
          map_option (\<lambda>outputs. zip (map rj_reply batch) outputs)
            (rerank_batch X enc (map (\<lambda>job. (rj_query job, rj_candidates job)) batch)))"

text \<open>The worker thread: whether it runs, the jobs sent to it and the replies it sent.\<close>

record coalescer =
  co_alive :: bool
  co_queue :: "RerankJob list"
  co_replies :: "(nat \<times> scored) list"

definition with_params :: coalescer where
  "with_params = \<lparr>co_alive = True, co_queue = [], co_replies = []\<rparr>"

text \<open>
  The runs of a coalescer that was sent the given jobs. How many of the waiting jobs join a batch depends on when they arrive,
  but the first always does and the cap bounds the rest. A panic drops the receiver and with it every waiting job.
\<close>

inductive coalesces :: "lexical_lib \<Rightarrow> CrossEncoder \<Rightarrow> nat \<Rightarrow> RerankJob list \<Rightarrow> coalescer \<Rightarrow> bool"
  for X :: lexical_lib and enc :: CrossEncoder and max_batch :: nat where
  start: "coalesces X enc max_batch [] with_params"
| submit: "coalesces X enc max_batch jobs st \<Longrightarrow> co_alive st
    \<Longrightarrow> coalesces X enc max_batch (jobs @ [job]) (st\<lparr>co_queue := co_queue st @ [job]\<rparr>)"
| flush: "coalesces X enc max_batch jobs st \<Longrightarrow> co_alive st \<Longrightarrow> 0 < n \<Longrightarrow> n \<le> max 1 max_batch \<Longrightarrow> n \<le> length (co_queue st)
    \<Longrightarrow> process_batch X enc (take n (co_queue st)) = Some replies
    \<Longrightarrow> coalesces X enc max_batch jobs (st\<lparr>co_queue := drop n (co_queue st), co_replies := co_replies st @ replies\<rparr>)"
| panic: "coalesces X enc max_batch jobs st
    \<Longrightarrow> coalesces X enc max_batch jobs (st\<lparr>co_alive := False, co_queue := []\<rparr>)"

text \<open>What the caller of \<open>BatchedReranker::rerank\<close> sees: no sender, a refused job, a job dropped unanswered, or a reply.\<close>

datatype delivery = NoSender | SendFailed | NoReply | Replied scored

fun batched_rerank :: "lexical_lib \<Rightarrow> CrossEncoder \<Rightarrow> delivery \<Rightarrow> str \<Rightarrow> scored \<Rightarrow> scored" where
  "batched_rerank X enc NoSender query cands = rerank X enc query cands"
| "batched_rerank X enc SendFailed query cands = rerank X enc query []"
| "batched_rerank X enc NoReply query cands = rerank X enc query []"
| "batched_rerank X enc (Replied out) query cands = out"

section \<open>Correctness\<close>

subsection \<open>Scores\<close>

lemma clamp01_bounds: "0 \<le> clamp01 x" "clamp01 x \<le> 1"
  by (simp_all add: clamp01_def)

lemma lexical_score_bounds: "0 \<le> lexical_score X query title content" "lexical_score X query title content \<le> 1"
  by (simp_all add: lexical_score_def Let_def clamp01_bounds)

subsection \<open>Ranking\<close>

text \<open>Scores that compare, \<open>NaN\<close> last, are a strict weak order; without \<open>NaN\<close> it is the comparison of the code.\<close>

definition score_before :: "Memory \<times> f64 \<Rightarrow> Memory \<times> f64 \<Rightarrow> bool" where
  "score_before a b = (by_score a b \<or> snd a \<noteq> NaN \<and> snd b = NaN)"

interpretation score_order: ordering_key score_before
proof
  fix a b :: "Memory \<times> f64"
  show "score_before a b \<Longrightarrow> \<not> score_before b a"
    by (cases "snd a"; cases "snd b") (auto simp: score_before_def by_score_def)
next
  fix a b c :: "Memory \<times> f64"
  show "\<not> score_before a b \<Longrightarrow> \<not> score_before b c \<Longrightarrow> \<not> score_before a c"
    by (cases "snd a"; cases "snd b"; cases "snd c") (auto simp: score_before_def by_score_def)
qed

definition ranked :: "scored \<Rightarrow> bool" where
  "ranked out = (NaN \<in> snd ` set out \<or> sorted_wrt (\<lambda>a b. \<not> f64_lt (snd a) (snd b)) out)"

lemma ranked_order_by: "ranked (order_by by_score xs)"
proof (cases "NaN \<in> snd ` set xs")
  case False
  then have "order_by by_score xs = order_by score_before xs"
    by (intro order_by_cong) (auto simp: score_before_def image_iff)
  moreover have "sorted_wrt (\<lambda>a b. \<not> f64_lt (snd a) (snd b)) (order_by score_before xs)"
    by (rule sorted_wrt_mono_rel [OF _ score_order.sorted_order_by]) (simp add: score_before_def by_score_def)
  ultimately show ?thesis by (simp add: ranked_def)
qed (simp add: ranked_def)

text \<open>What a second ranking promises its client: the same memories, ranked.\<close>

locale ranking =
  fixes rnk :: "str \<Rightarrow> scored \<Rightarrow> scored"
  assumes same_memories: "mset (map fst (rnk query cands)) = mset (map fst cands)"
begin

lemma same_length: "length (rnk query cands) = length cands"
  using arg_cong [OF same_memories, of size] by (simp only: size_mset length_map)

lemma memory_set: "fst ` set (rnk query cands) = fst ` set cands"
  using mset_eq_setD [OF same_memories] by simp

lemma distinct_ids: "distinct (map (m_id \<circ> fst) (rnk query cands)) = distinct (map (m_id \<circ> fst) cands)"
proof -
  have "mset (map m_id (map fst (rnk query cands))) = mset (map m_id (map fst cands))"
    using same_memories by (simp only: mset_map)
  then have "distinct (map m_id (map fst (rnk query cands))) = distinct (map m_id (map fst cands))"
    by (rule mset_eq_imp_distinct_iff)
  then show ?thesis by simp
qed

end

lemma order_by_memories: "mset (map fst (order_by before xs)) = mset (map fst xs)"
  by (simp only: mset_map mset_order_by)

interpretation direct: ranking "rerank X enc" for X enc
proof
  fix query and cands :: scored
  have "map fst (map (\<lambda>(mem, original). (mem, blend original (encoder_score X enc query (m_title mem) (m_content mem)))) cands)
      = map fst cands" by (simp add: case_prod_unfold comp_def)
  then show "mset (map fst (rerank X enc query cands)) = mset (map fst cands)"
    unfolding rerank_def order_by_memories by (rule arg_cong)
qed

interpretation unranked: ranking "\<lambda>query cands. cands"
  by unfold_locales simp

lemma ranked_rerank: "ranked (rerank X enc query cands)"
  by (simp add: rerank_def ranked_order_by)

lemma rerank_empty [simp]: "rerank X enc query [] = []"
  by (simp add: rerank_def order_by_def)

subsection \<open>Batches\<close>

text \<open>
  What is relied on of the neural model: padding does not change a score, so a batch that is scored has the score of each of
  its pairs. It never fails when every batch of pairs that are scored alone is scored.
\<close>

definition encoder_sound :: "CrossEncoder \<Rightarrow> bool" where
  "encoder_sound enc =
     (case enc of Lexical \<Rightarrow> True
      | Neural B \<Rightarrow> (\<forall>ps scores. bt_batch B ps = Some scores \<longrightarrow> map (bt_pair B) ps = map Some scores))"

definition never_fails :: "CrossEncoder \<Rightarrow> bool" where
  "never_fails enc = (case enc of Lexical \<Rightarrow> True | Neural B \<Rightarrow> bt_poisoned B \<or> (\<forall>ps. bt_batch B ps \<noteq> None))"

lemma batch_pairs_simps [simp]:
  "batch_pairs [] = []"
  "batch_pairs ((q, cands) # rest) = map (\<lambda>(mem, _). (q, document_of (m_title mem) (m_content mem))) cands @ batch_pairs rest"
  by (simp_all add: batch_pairs_def)

lemma blend_row:
  assumes "map (bt_pair B) (map (\<lambda>(mem, _). (q, document_of (m_title mem) (m_content mem))) cands) = map Some s"
    and "\<not> bt_poisoned B"
  shows "map (\<lambda>(i, mem, original). (mem, blend original ((before @ s @ after) ! (length before + i)))) (enumerate 0 cands)
    = map (\<lambda>(mem, original). (mem, blend original (encoder_score X (Neural B) q (m_title mem) (m_content mem)))) cands"
proof (rule nth_equalityI)
  fix i
  assume "i < length (map (\<lambda>(i, mem, original). (mem, blend original ((before @ s @ after) ! (length before + i)))) (enumerate 0 cands))"
  then have i: "i < length cands" by simp
  have len: "length s = length cands" using arg_cong [OF assms(1), of length] by simp
  obtain mem original where c: "cands ! i = (mem, original)" by (cases "cands ! i")
  have "bt_pair B (q, document_of (m_title mem) (m_content mem)) = Some (s ! i)"
    using arg_cong [OF assms(1), of "\<lambda>xs. xs ! i"] i len c by simp
  with assms(2) i len c show "map (\<lambda>(i, mem, original). (mem, blend original ((before @ s @ after) ! (length before + i)))) (enumerate 0 cands) ! i
    = map (\<lambda>(mem, original). (mem, blend original (encoder_score X (Neural B) q (m_title mem) (m_content mem)))) cands ! i"
    by (simp add: nth_enumerate_eq nth_append neural_score_def)
qed simp

lemma blend_rows_exact:
  assumes "map (bt_pair B) (batch_pairs queries) = map Some s" "\<not> bt_poisoned B"
  shows "blend_rows (before @ s) (length before) queries = Some (map (\<lambda>(q, cands). rerank X (Neural B) q cands) queries)"
  using assms(1)
proof (induction queries arbitrary: before s)
  case (Cons query rest)
  obtain q cands where query: "query = (q, cands)" by (cases query)
  let ?n = "length cands"
  have len: "?n \<le> length s" using arg_cong [OF Cons.prems, of length] by (simp add: query)
  have row: "map (bt_pair B) (map (\<lambda>(mem, _). (q, document_of (m_title mem) (m_content mem))) cands) = map Some (take ?n s)"
    using arg_cong [OF Cons.prems, of "take ?n"] by (simp add: query take_map)
  have "map (bt_pair B) (batch_pairs rest) = map Some (drop ?n s)"
    using arg_cong [OF Cons.prems, of "drop ?n"] by (simp add: query drop_map)
  from Cons.IH [OF this, of "before @ take ?n s"]
  have "blend_rows (before @ s) (length before + ?n) rest = Some (map (\<lambda>(q, cands). rerank X (Neural B) q cands) rest)"
    using len by simp
  moreover have "map (\<lambda>(i, mem, original). (mem, blend original ((before @ s) ! (length before + i)))) (enumerate 0 cands)
    = map (\<lambda>(mem, original). (mem, blend original (encoder_score X (Neural B) q (m_title mem) (m_content mem)))) cands"
    using blend_row [OF row assms(2), of before "drop ?n s" X] by simp
  ultimately show ?case using len by (simp add: query rerank_def Let_def)
qed simp

text \<open>A batch answers every query as one call for it alone would, with the encoder or, when the model fails, lexically.\<close>

lemma poisoned_is_lexical: "bt_poisoned B \<Longrightarrow> rerank X (Neural B) q cands = rerank X Lexical q cands"
  by (simp add: rerank_def)

lemma rerank_batch_exact:
  assumes "encoder_sound enc"
  obtains enc' where "enc' = enc \<or> enc' = Lexical \<and> \<not> never_fails enc"
    "rerank_batch X enc queries = Some (map (\<lambda>(q, cands). rerank X enc' q cands) queries)"
proof (cases "\<exists>q cands. queries = [(q, cands)]")
  case True
  then show thesis by (intro that [of enc]) (auto simp: rerank_batch_def)
next
  case many: False
  show thesis
  proof (cases enc)
    case Lexical
    with many show thesis by (intro that [of enc]) (auto simp: rerank_batch_def split: list.split)
  next
    case (Neural B)
    have batch: "rerank_batch X (Neural B) queries =
        (if bt_poisoned B then Some (map (\<lambda>(q, cands). rerank X Lexical q cands) queries)
         else (case neural_rerank_batch B queries of
                 Some scores \<Rightarrow> blend_rows scores 0 queries
               | None \<Rightarrow> Some (map (\<lambda>(q, cands). rerank X Lexical q cands) queries)))"
      using many by (auto simp: rerank_batch_def split: list.split)
    consider (poisoned) "bt_poisoned B" | (failed) "\<not> bt_poisoned B" "neural_rerank_batch B queries = None"
      | (scored) scores where "\<not> bt_poisoned B" "neural_rerank_batch B queries = Some scores" by auto
    then show thesis
    proof cases
      case poisoned
      then show thesis by (intro that [of enc]) (simp_all add: batch Neural poisoned_is_lexical)
    next
      case failed
      then have "\<not> never_fails enc" by (auto simp: never_fails_def Neural neural_rerank_batch_def Let_def split: if_splits)
      with failed show thesis by (intro that [of Lexical]) (simp_all add: batch Neural)
    next
      case (scored scores)
      then have "map (bt_pair B) (batch_pairs queries) = map Some scores"
        using assms by (auto simp: encoder_sound_def Neural neural_rerank_batch_def Let_def split: if_splits)
      from blend_rows_exact [OF this scored(1), of "[]" X] scored show thesis
        by (intro that [of enc]) (simp_all add: batch Neural)
    qed
  qed
qed

subsection \<open>Coalescing\<close>

text \<open>The reply to a job: its own candidates, reranked for its own query.\<close>

definition answers :: "lexical_lib \<Rightarrow> CrossEncoder \<Rightarrow> RerankJob \<Rightarrow> nat \<times> scored \<Rightarrow> bool" where
  "answers X enc job reply =
     (fst reply = rj_reply job
      \<and> (snd reply = rerank X enc (rj_query job) (rj_candidates job)
         \<or> \<not> never_fails enc \<and> snd reply = rerank X Lexical (rj_query job) (rj_candidates job)))"

lemma process_batch_exact:
  assumes "encoder_sound enc"
  obtains replies where "process_batch X enc batch = Some replies" "list_all2 (answers X enc) batch replies"
proof -
  obtain enc' where enc': "enc' = enc \<or> enc' = Lexical \<and> \<not> never_fails enc"
    and run: "rerank_batch X enc (map (\<lambda>job. (rj_query job, rj_candidates job)) batch)
      = Some (map (\<lambda>(q, cands). rerank X enc' q cands) (map (\<lambda>job. (rj_query job, rj_candidates job)) batch))"
    by (rule rerank_batch_exact [OF assms])
  let ?one = "\<lambda>e job. (rj_reply job, rerank X e (rj_query job) (rj_candidates job))"
  have "process_batch X enc batch = Some (map (?one enc') batch) \<or> process_batch X enc batch = Some (map (?one enc) batch)"
  proof (cases "length batch \<le> 1")
    case True
    then show ?thesis by (cases batch) (auto simp: process_batch_def)
  next
    case False
    then have "process_batch X enc batch = map_option (\<lambda>outputs. zip (map rj_reply batch) outputs)
        (rerank_batch X enc (map (\<lambda>job. (rj_query job, rj_candidates job)) batch))"
      by (auto simp: process_batch_def split: list.split)
    then show ?thesis by (simp add: run zip_map_map zip_same_conv_map comp_def)
  qed
  moreover have "list_all2 (answers X enc) batch (map (?one enc') batch)" "list_all2 (answers X enc) batch (map (?one enc) batch)"
    using enc' by (auto simp: list_all2_map2 list.rel_refl_strong answers_def intro!: list_all2_refl)
  ultimately show thesis using that by blast
qed

text \<open>What every batch gives its jobs, every run gives the jobs it answered, which are the first ones.\<close>

lemma coalesces_replies:
  assumes "coalesces X enc max_batch jobs st"
    and "\<And>batch replies. process_batch X enc batch = Some replies \<Longrightarrow> list_all2 R batch replies"
  shows "\<exists>answered waiting. jobs = answered @ waiting \<and> (co_alive st \<longrightarrow> co_queue st = waiting) \<and> list_all2 R answered (co_replies st)"
  using assms(1)
proof (induction rule: coalesces.induct)
  case start
  then show ?case by (simp add: with_params_def)
next
  case (submit jobs st job)
  then obtain answered where "jobs = answered @ co_queue st" "list_all2 R answered (co_replies st)" by auto
  then show ?case by (intro exI [of _ answered] exI [of _ "co_queue st @ [job]"]) simp
next
  case (flush jobs st n replies)
  then obtain answered where a: "jobs = answered @ co_queue st" "list_all2 R answered (co_replies st)" by auto
  have "list_all2 R (answered @ take n (co_queue st)) (co_replies st @ replies)"
    by (rule list_all2_appendI [OF a(2) assms(2) [OF flush.hyps(6)]])
  with a(1) show ?case
    by (intro exI [of _ "answered @ take n (co_queue st)"] exI [of _ "drop n (co_queue st)"]) simp
next
  case (panic jobs st)
  then show ?case by auto
qed

lemma coalesces_answers:
  assumes "coalesces X enc max_batch jobs st" "encoder_sound enc"
  shows "\<exists>answered waiting. jobs = answered @ waiting \<and> (co_alive st \<longrightarrow> co_queue st = waiting)
    \<and> list_all2 (answers X enc) answered (co_replies st)"
proof (rule coalesces_replies [OF assms(1)])
  fix batch replies
  assume "process_batch X enc batch = Some replies"
  moreover obtain replies' where "process_batch X enc batch = Some replies'" "list_all2 (answers X enc) batch replies'"
    by (rule process_batch_exact [OF assms(2)])
  ultimately show "list_all2 (answers X enc) batch replies" by simp
qed

text \<open>Whatever the model answers, a reply holds the memories of its own job: no score can bring in or lose one.\<close>

definition own_memories :: "RerankJob \<Rightarrow> nat \<times> scored \<Rightarrow> bool" where
  "own_memories job reply = (fst reply = rj_reply job \<and> mset (map fst (snd reply)) = mset (map fst (rj_candidates job)))"

lemma blend_rows_memories:
  "blend_rows scores cursor queries = Some outs \<Longrightarrow> list_all2 (\<lambda>(q, cands) out. mset (map fst out) = mset (map fst cands)) queries outs"
proof (induction scores cursor queries arbitrary: outs rule: blend_rows.induct)
  case (2 scores cursor query cands rest)
  let ?row = "map (\<lambda>(i, mem, original). (mem, blend original (scores ! (cursor + i)))) (enumerate 0 cands)"
  obtain outs' where "outs = order_by by_score ?row # outs'" "blend_rows scores (cursor + length cands) rest = Some outs'"
    "\<not> (length cands > 0 \<and> length scores < cursor + length cands)"
    using "2.prems" by (auto simp: Let_def split: if_splits)
  moreover have "map fst ?row = map fst cands" by (rule nth_equalityI) (auto simp: nth_enumerate_eq case_prod_unfold)
  ultimately show ?case using "2.IH" by (simp add: order_by_memories del: mset_map)
qed simp

lemma rerank_batch_memories:
  assumes "rerank_batch X enc queries = Some outs"
  shows "list_all2 (\<lambda>(q, cands) out. mset (map fst out) = mset (map fst cands)) queries outs"
proof -
  have each: "list_all2 (\<lambda>(q, cands) out. mset (map fst out) = mset (map fst cands)) queries (map (\<lambda>(q, cands). rerank X e q cands) queries)" for e
    using direct.same_memories by (auto simp: list_all2_map2 list_all2_same simp del: mset_map)
  from assms show ?thesis unfolding rerank_batch_def
    using each [of enc] each [of Lexical]
    by (auto simp del: mset_map blend_rows.simps split: list.splits CrossEncoder.splits if_splits option.splits dest: blend_rows_memories)
qed

lemma process_batch_memories:
  assumes "process_batch X enc batch = Some replies"
  shows "list_all2 own_memories batch replies"
proof (cases "length batch \<le> 1")
  case True
  with assms show ?thesis using direct.same_memories
    by (cases batch) (auto simp: process_batch_def own_memories_def simp del: mset_map)
next
  case False
  then obtain outs where outs: "rerank_batch X enc (map (\<lambda>job. (rj_query job, rj_candidates job)) batch) = Some outs"
    "replies = zip (map rj_reply batch) outs"
    using assms by (auto simp: process_batch_def split: list.splits)
  then have "list_all2 (\<lambda>job out. mset (map fst out) = mset (map fst (rj_candidates job))) batch outs"
    using rerank_batch_memories [OF outs(1)] by (simp add: list_all2_map1 del: mset_map)
  then show ?thesis unfolding outs(2) own_memories_def by (auto simp: list_all2_conv_all_nth simp del: mset_map)
qed

text \<open>While the worker runs it can always go on, and after enough batches every job has its reply.\<close>

lemma coalesces_drains:
  assumes "coalesces X enc max_batch jobs st" "encoder_sound enc" "co_alive st"
  shows "\<exists>st'. coalesces X enc max_batch jobs st' \<and> co_alive st' \<and> co_queue st' = []"
  using assms(1,3)
proof (induction "length (co_queue st)" arbitrary: st rule: less_induct)
  case less
  show ?case
  proof (cases "co_queue st")
    case Nil
    with less.prems show ?thesis by blast
  next
    case (Cons job rest)
    obtain replies where "process_batch X enc (take 1 (co_queue st)) = Some replies"
      by (rule process_batch_exact [OF assms(2)])
    with less.prems Cons have "coalesces X enc max_batch jobs (st\<lparr>co_queue := drop 1 (co_queue st), co_replies := co_replies st @ replies\<rparr>)"
      by (intro coalesces.flush) auto
    from less.hyps [OF _ this] less.prems Cons show ?thesis by simp
  qed
qed

text \<open>What a caller is promised of the reply to its job.\<close>

definition reranked_for :: "lexical_lib \<Rightarrow> CrossEncoder \<Rightarrow> RerankJob \<Rightarrow> scored \<Rightarrow> bool" where
  "reranked_for X enc job out =
     ((out = rerank X enc (rj_query job) (rj_candidates job)
       \<or> \<not> never_fails enc \<and> out = rerank X Lexical (rj_query job) (rj_candidates job))
      \<and> mset (map fst out) = mset (map fst (rj_candidates job)) \<and> ranked out)"

lemma answers_reranked: "answers X enc job reply = (fst reply = rj_reply job \<and> reranked_for X enc job (snd reply))"
  using direct.same_memories ranked_rerank unfolding answers_def reranked_for_def by metis

lemma replies_reranked:
  "list_all2 (answers X enc) jobs replies
    = (map fst replies = map rj_reply jobs \<and> list_all2 (reranked_for X enc) jobs (map snd replies))"
proof (induction jobs arbitrary: replies)
  case (Cons job jobs)
  then show ?case by (cases replies) (auto simp: answers_reranked)
qed auto

text \<open>C32: Coalescing is transparent: however concurrent requests fall into batches, the replies come in the order of the
  requests, and each holds the candidates of its own request, reranked for its own query exactly as an unbatched call would,
  or lexically when the model failed on the batch. As long as the worker has not panicked no request is lost, and every request
  gets a reply once the queue is drained.\<close>

theorem coalescing_transparent:
  assumes "encoder_sound enc" "coalesces X enc max_batch jobs st"
  shows "(\<exists>answered waiting. jobs = answered @ waiting \<and> (co_alive st \<longrightarrow> co_queue st = waiting)
      \<and> map fst (co_replies st) = map rj_reply answered
      \<and> list_all2 (reranked_for X enc) answered (map snd (co_replies st)))
    \<and> (co_alive st \<longrightarrow> (\<exists>st'. coalesces X enc max_batch jobs st' \<and> map fst (co_replies st') = map rj_reply jobs))"
proof (intro conjI impI)
  show "\<exists>answered waiting. jobs = answered @ waiting \<and> (co_alive st \<longrightarrow> co_queue st = waiting)
      \<and> map fst (co_replies st) = map rj_reply answered \<and> list_all2 (reranked_for X enc) answered (map snd (co_replies st))"
    using coalesces_answers [OF assms(2,1)] unfolding replies_reranked .
  assume "co_alive st"
  from coalesces_drains [OF assms(2,1) this] obtain st' where
    st': "coalesces X enc max_batch jobs st'" "co_alive st'" "co_queue st' = []" by blast
  from coalesces_answers [OF st'(1) assms(1)] st' show "\<exists>st'. coalesces X enc max_batch jobs st' \<and> map fst (co_replies st') = map rj_reply jobs"
    unfolding replies_reranked by auto
qed

text \<open>A model that prefers longer documents, and two requests in one batch.\<close>

definition ex_bert :: bert where
  "ex_bert = \<lparr>bt_poisoned = False, bt_pair = (\<lambda>(q, d). Some (Fin (of_nat (length d)))),
     bt_batch = (\<lambda>ps. Some (map (\<lambda>(q, d). Fin (of_nat (length d))) ps))\<rparr>"

definition ex_lexical :: lexical_lib where
  "ex_lexical = \<lparr>lx_alphanumeric = is_ascii_alphanumeric, lx_lowercase = (\<lambda>t. t), lx_ln = (\<lambda>x. 0)\<rparr>"

definition ex_job :: "nat \<Rightarrow> str \<Rightarrow> RerankJob" where
  "ex_job ch query = \<lparr>rj_query = query, rj_candidates = [(ex_note ''m1'' ''a'' Long ''bob'', Fin 1), (ex_note ''m2'' ''long'' Long ''bob'', Fin 1)],
     rj_reply = ch\<rparr>"

theorem coalescing_transparent_witness:
  "\<exists>st. coalesces ex_lexical (Neural ex_bert) 32 [ex_job 0 ''x'', ex_job 1 ''y''] st \<and> map fst (co_replies st) = [0, 1]
     \<and> list_all2 (reranked_for ex_lexical (Neural ex_bert)) [ex_job 0 ''x'', ex_job 1 ''y''] (map snd (co_replies st))
     \<and> map (map (m_id \<circ> fst)) (map snd (co_replies st)) = [[''m2'', ''m1''], [''m2'', ''m1'']]"
proof -
  let ?e = "Neural ex_bert" and ?js = "[ex_job 0 ''x'', ex_job 1 ''y'']"
  have sound: "encoder_sound ?e" by (auto simp: encoder_sound_def ex_bert_def)
  obtain replies where batch: "process_batch ex_lexical ?e ?js = Some replies" by (rule process_batch_exact [OF sound])
  have "map_option (map (map (m_id \<circ> fst) \<circ> snd)) (process_batch ex_lexical ?e ?js) = Some [[''m2'', ''m1''], [''m2'', ''m1'']]"
    by code_simp
  then have order: "map (map (m_id \<circ> fst)) (map snd replies) = [[''m2'', ''m1''], [''m2'', ''m1'']]" unfolding batch by (simp add: comp_def)
  let ?st = "\<lparr>co_alive = True, co_queue = [], co_replies = replies\<rparr>"
  note one = coalesces.submit [OF coalesces.start [of ex_lexical ?e 32], of "ex_job 0 ''x''"]
  have "coalesces ex_lexical ?e 32 ?js \<lparr>co_alive = True, co_queue = ?js, co_replies = []\<rparr>"
    using coalesces.submit [OF one, of "ex_job 1 ''y''"]
    by (simp add: with_params_def)
  from coalesces.flush [OF this, of 2] batch have run: "coalesces ex_lexical ?e 32 ?js ?st" by simp
  have "map fst replies = [0, 1] \<and> list_all2 (reranked_for ex_lexical ?e) ?js (map snd replies)"
    using coalescing_transparent [OF sound run] by (auto simp: ex_job_def)
  with run order show ?thesis by (intro exI [of _ ?st]) simp
qed

text \<open>A caller whose worker is gone gets no results at all instead of those of the encoder.\<close>

lemma lost_worker_loses_results:
  "batched_rerank X enc SendFailed query cands = []" "batched_rerank X enc NoReply query cands = []"
  by simp_all

end
