(* ===== verification/Recall_Tool.thy ===== *)
theory Recall_Tool
  imports Reranker
begin

text \<open>
  The recall tool (\<open>handle_recall\<close>, which the server's dispatch calls, and its hooked variant of \<open>src/mcp.rs\<close>, \<open>apply_pre_recall_expand\<close> of
  \<open>src/hooks/recall.rs\<close>): in the variant, which a server with hooks can opt into, a hook chain may rewrite or refuse the request, expired memories are collected, the query is embedded
  and fused with recent conversation, candidates are recalled and reranked, and the standards of the namespace are put in
  front. The embedder, the mixing of two vector components, the reranker's channel and the parameters of hybrid recall are the
  environment.
\<close>

section \<open>Hooks before a recall\<close>

datatype PreRecallOutcome = RecallAllow | RecallModified str str nat | RecallDenied DenyReason int

definition recall_payload :: "str \<Rightarrow> str \<Rightarrow> nat \<Rightarrow> json" where
  "recall_payload query namespace k = JObj [(''query'', JStr query), (''namespace'', JStr namespace), (''k'', JInt (int k))]"

definition apply_pre_recall_expand :: "executor \<Rightarrow> HookConfig list \<Rightarrow> nat \<Rightarrow> str \<Rightarrow> str \<Rightarrow> nat \<Rightarrow> PreRecallOutcome" where
  "apply_pre_recall_expand executor hooks now query namespace k =
     (if hooks = [] then RecallAllow
      else case fst (chain_fire executor hooks PreRecallExpand (recall_payload query namespace k) now) of
             CAllow \<Rightarrow> RecallAllow
           | CModifiedAllow delta \<Rightarrow>
               RecallModified (unwrap_or query (md_content delta)) (unwrap_or namespace (md_namespace delta))
                 (case md_priority delta of Some p \<Rightarrow> if p > 0 then nat p else k | None \<Rightarrow> k)
           | CDeny reason code \<Rightarrow> RecallDenied reason code
           | CAskUser _ \<Rightarrow> RecallAllow)"

section \<open>Responses\<close>

record RecallMeta =
  me_recall_mode :: str
  me_reranker_used :: str
  me_fts :: nat
  me_hnsw :: nat
  me_blend_weight :: rat

record budget_meta =
  bm_budget_tokens :: nat
  bm_budget_tokens_used :: nat
  bm_budget_tokens_remaining :: nat
  bm_memories_dropped :: nat
  bm_budget_overflow :: bool

text \<open>A score that is not finite is \<open>null\<close> in the response. One standard is returned as such, several as a list.\<close>

record recall_response =
  re_memories :: "(Memory \<times> rat option) list"
  re_count :: nat
  re_mode :: str
  re_tokens_used :: nat
  re_budget :: "budget_meta option"
  re_meta :: RecallMeta
  re_standards :: "Memory list"

definition round_half_away :: "rat \<Rightarrow> int" where
  "round_half_away x = (if x \<ge> 0 then \<lfloor>x + 1 / 2\<rfloor> else - \<lfloor>- x + 1 / 2\<rfloor>)"

definition round3 :: "rat \<Rightarrow> rat" where
  "round3 x = of_int (round_half_away (x * 1000)) / 1000"

definition scored_memories :: "scored \<Rightarrow> (Memory \<times> rat option) list" where
  "scored_memories results =
     map (\<lambda>(mem, score). (mem, case score of Fin s \<Rightarrow> Some (round3 s) | _ \<Rightarrow> None)) results"

definition decorate_budget :: "nat option \<Rightarrow> BudgetOutcome \<Rightarrow> budget_meta option" where
  "decorate_budget budget_tokens outcome =
     map_option (\<lambda>b. \<lparr>bm_budget_tokens = b, bm_budget_tokens_used = bo_tokens_used outcome,
        bm_budget_tokens_remaining = unwrap_or 0 (bo_tokens_remaining outcome),
        bm_memories_dropped = bo_memories_dropped outcome, bm_budget_overflow = bo_budget_overflow outcome\<rparr>) budget_tokens"

section \<open>Namespace standards\<close>

definition lookup_namespace_standard :: "Db \<Rightarrow> str \<Rightarrow> Memory option" where
  "lookup_namespace_standard db namespace = Option.bind (get_namespace_standard db namespace) (get db)"

definition add_standard :: "Memory \<Rightarrow> Memory list \<Rightarrow> Memory list" where
  "add_standard std stds = (if m_id std \<in> set (map m_id stds) then stds else stds @ [std])"

definition standard_chain :: "Db \<Rightarrow> str option \<Rightarrow> str list" where
  "standard_chain db namespace = (case namespace of Some ns \<Rightarrow> build_namespace_chain db ns | None \<Rightarrow> [''*''])"

definition inject_namespace_standard :: "Db \<Rightarrow> str option \<Rightarrow> recall_response \<Rightarrow> recall_response" where
  "inject_namespace_standard db namespace resp =
     (let standards = fold add_standard (List.map_filter (lookup_namespace_standard db) (standard_chain db namespace)) [] in
      if standards = [] then resp
      else
        let memories = filter (\<lambda>(m, _). m_id m \<notin> set (map m_id standards)) (re_memories resp)
        in resp\<lparr>re_memories := memories, re_count := length memories, re_standards := standards\<rparr>)"

section \<open>Recall\<close>

definition embedder_fuse :: "(32 word \<Rightarrow> 32 word \<Rightarrow> 32 word) \<Rightarrow> vec \<Rightarrow> vec \<Rightarrow> vec" where
  "embedder_fuse mix primary secondary =
     (if length primary \<noteq> length secondary then primary else map (\<lambda>(p, s). mix p s) (zip primary secondary))"

text \<open>
  The environment of a call. \<open>rv_mix\<close> weighs a component of the query against one of the conversation; \<open>rv_reranker\<close> is
  the encoder with what its channel delivers.
\<close>

record recall_env =
  rv_lib :: hybrid_lib
  rv_scoring :: ResolvedScoring
  rv_hash_order :: "candidate list \<Rightarrow> candidate list"
  rv_embedder :: "(str \<Rightarrow> vec option) option"
  rv_mix :: "32 word \<Rightarrow> 32 word \<Rightarrow> 32 word"
  rv_lexical :: lexical_lib
  rv_reranker :: "(CrossEncoder \<times> (str \<Rightarrow> scored \<Rightarrow> delivery)) option"
  rv_archive :: bool
  rv_ttl :: ResolvedTtl
  rv_gc_now :: str
  rv_now :: str

datatype RecallError = ContextRequired | BadAgent ValidationError | RecallFailed HybridError

definition param_u64 :: "json \<Rightarrow> str \<Rightarrow> nat option" where
  "param_u64 params k =
     (case json_get params k of Some (JInt i) \<Rightarrow> if 0 \<le> i \<and> i < 2 ^ 64 then Some (nat i) else None | _ \<Rightarrow> None)"

definition recall_params :: "recall_env \<Rightarrow> json \<Rightarrow> recall_query" where
  "recall_params env params =
     \<lparr>rq_namespace = param_str params ''namespace'', rq_limit = min (unwrap_or 10 (param_u64 params ''limit'')) 50,
      rq_tags = param_str params ''tags'', rq_since = param_str params ''since'', rq_until = param_str params ''until'',
      rq_short_extend = rt_short_extend_secs (rv_ttl env), rq_mid_extend = rt_mid_extend_secs (rv_ttl env),
      rq_as_agent = param_str params ''as_agent'', rq_budget = param_u64 params ''budget_tokens''\<rparr>"

definition reranker_used :: "recall_env \<Rightarrow> str" where
  "reranker_used env =
     (case rv_reranker env of
        Some (enc, _) \<Rightarrow> if is_neural enc then ''neural'' else ''lexical''
      | None \<Rightarrow> ''none'')"

text \<open>The embedding of the query, fused with that of the conversation when there is one.\<close>

definition query_embedding :: "recall_env \<Rightarrow> str \<Rightarrow> str list \<Rightarrow> vec option" where
  "query_embedding env context context_tokens =
     (case rv_embedder env of
        None \<Rightarrow> None
      | Some emb \<Rightarrow>
          map_option (\<lambda>primary.
            if context_tokens = [] then primary
            else case emb (join CHR '' '' context_tokens) of
                   Some ctx \<Rightarrow> embedder_fuse (rv_mix env) primary ctx
                 | None \<Rightarrow> primary) (emb context))"

definition recall_respond ::
    "recall_env \<Rightarrow> Db \<Rightarrow> recall_query \<Rightarrow> str \<Rightarrow> str \<Rightarrow> scored \<Rightarrow> BudgetOutcome \<Rightarrow> RecallTelemetry \<Rightarrow> recall_response" where
  "recall_respond env db q mode recall_mode results outcome telemetry =
     inject_namespace_standard db (rq_namespace q)
       \<lparr>re_memories = scored_memories results, re_count = length results, re_mode = mode,
        re_tokens_used = bo_tokens_used outcome, re_budget = decorate_budget (rq_budget q) outcome,
        re_meta = \<lparr>me_recall_mode = recall_mode, me_reranker_used = reranker_used env,
          me_fts = te_fts_candidates telemetry, me_hnsw = te_hnsw_candidates telemetry,
          me_blend_weight = round3 (te_blend_weight_avg telemetry)\<rparr>,
        re_standards = []\<rparr>"

definition recall_with_telemetry ::
    "hybrid_lib \<Rightarrow> str \<Rightarrow> Db \<Rightarrow> str \<Rightarrow> recall_query \<Rightarrow> (scored \<times> BudgetOutcome \<times> RecallTelemetry) \<times> Db" where
  "recall_with_telemetry L now db context q =
     (case recall (hy_fts L) (hy_rank L) (hy_age L) (hy_render L) (hy_tokens L) (hy_add_secs L) now db context q of
        ((results, outcome), db') \<Rightarrow>
          ((results, outcome, \<lparr>te_fts_candidates = length results, te_hnsw_candidates = 0, te_blend_weight_avg = 0\<rparr>), db'))"

definition handle_recall ::
    "recall_env \<Rightarrow> vec IndexState option \<Rightarrow> json \<Rightarrow> Db \<Rightarrow> (RecallError + recall_response) \<times> Db" where
  "handle_recall env index params db0 =
     (let db = snd (gc_if_needed (rv_gc_now env) db0 (rv_archive env)); q = recall_params env params in
      case param_str params ''context'' of
        None \<Rightarrow> (Inl ContextRequired, db)
      | Some context \<Rightarrow>
          (case check_opt validate_namespace (rq_as_agent q) of
             Inl e \<Rightarrow> (Inl (BadAgent e), db)
           | Inr _ \<Rightarrow>
               (case query_embedding env context (unwrap_or [] (param_strs params ''context_tokens'')) of
                  Some query_emb \<Rightarrow>
                    (case recall_hybrid_with_telemetry (rv_lib env) (rv_scoring env) (rv_hash_order env) (rv_now env) db
                        context query_emb q index of
                       (Inl e, db') \<Rightarrow> (Inl (RecallFailed e), db')
                     | (Inr (results, outcome, telemetry), db') \<Rightarrow>
                         (case rv_reranker env of
                            Some (enc, channel) \<Rightarrow>
                              (Inr (recall_respond env db' q ''hybrid+rerank'' ''hybrid''
                                 (batched_rerank (rv_lexical env) enc (channel context results) context results) outcome telemetry), db')
                          | None \<Rightarrow> (Inr (recall_respond env db' q ''hybrid'' ''hybrid'' results outcome telemetry), db')))
                | None \<Rightarrow>
                    (case recall_with_telemetry (rv_lib env) (rv_now env) db context q of
                       ((results, outcome, telemetry), db') \<Rightarrow>
                         (Inr (recall_respond env db' q ''keyword'' ''keyword_only'' results outcome telemetry), db')))))"

datatype recall_reply = DeniedByHook DenyReason int | Recalled recall_response

definition with_param :: "str \<Rightarrow> json \<Rightarrow> json \<Rightarrow> json" where
  "with_param k v params = (case params of JObj kvs \<Rightarrow> JObj (obj_insert k v kvs) | _ \<Rightarrow> params)"

definition rewrite_params :: "PreRecallOutcome \<Rightarrow> json \<Rightarrow> json" where
  "rewrite_params outcome params =
     (case outcome of
        RecallModified q ns k \<Rightarrow>
          with_param ''limit'' (JInt (int k))
            ((if ns = [] then (\<lambda>p. p) else with_param ''namespace'' (JStr ns)) (with_param ''context'' (JStr q) params))
      | _ \<Rightarrow> params)"

definition pre_recall_outcome :: "executor \<Rightarrow> HookConfig list \<Rightarrow> nat \<Rightarrow> json \<Rightarrow> str \<Rightarrow> PreRecallOutcome" where
  "pre_recall_outcome executor hooks now params context =
     (let namespace = unwrap_or [] (param_str params ''namespace'');
          limit = unwrap_or 10 (param_u64 params ''limit'');
          k = (if limit < 2 ^ 32 then limit else 2 ^ 32 - 1)
      in apply_pre_recall_expand executor hooks now context namespace k)"

definition handle_recall_with_pre_recall_hook ::
    "recall_env \<Rightarrow> executor \<Rightarrow> HookConfig list \<Rightarrow> nat \<Rightarrow> vec IndexState option \<Rightarrow> json \<Rightarrow> Db \<Rightarrow> (RecallError + recall_reply) \<times> Db" where
  "handle_recall_with_pre_recall_hook env executor hooks now index params db =
     (case param_str params ''context'' of
        None \<Rightarrow> (Inl ContextRequired, db)
      | Some context \<Rightarrow>
          let outcome = pre_recall_outcome executor hooks now params context
          in case outcome of
               RecallDenied reason code \<Rightarrow> (Inr (DeniedByHook reason code), db)
             | _ \<Rightarrow>
                 (case handle_recall env index (rewrite_params outcome params) db of
                    (Inl e, db') \<Rightarrow> (Inl e, db')
                  | (Inr resp, db') \<Rightarrow> (Inr (Recalled resp), db')))"

section \<open>Correctness\<close>

text \<open>
  A channel to the coalescer: what it delivers as a reply was sent, in some run of the worker with one reply channel per
  request, to the channel of a request with that query and those candidates. Lost requests and a lost worker are possible.
\<close>

definition coalescer_channel :: "lexical_lib \<Rightarrow> CrossEncoder \<Rightarrow> (str \<Rightarrow> scored \<Rightarrow> delivery) \<Rightarrow> bool" where
  "coalescer_channel X enc channel =
     (\<forall>query cands out. channel query cands = Replied out \<longrightarrow>
        (\<exists>max_batch jobs st job. coalesces X enc max_batch jobs st \<and> distinct (map rj_reply jobs) \<and> job \<in> set jobs
           \<and> rj_query job = query \<and> rj_candidates job = cands \<and> (rj_reply job, out) \<in> set (co_replies st)))"

lemma channel_memories:
  assumes "coalescer_channel X enc channel" "channel query cands = Replied out"
  shows "mset (map fst out) = mset (map fst cands)"
proof -
  obtain max_batch jobs st job where run: "coalesces X enc max_batch jobs st" "distinct (map rj_reply jobs)" "job \<in> set jobs"
      "rj_candidates job = cands" "(rj_reply job, out) \<in> set (co_replies st)"
    using assms unfolding coalescer_channel_def by blast
  have "\<exists>answered waiting. jobs = answered @ waiting \<and> (co_alive st \<longrightarrow> co_queue st = waiting)
      \<and> list_all2 own_memories answered (co_replies st)"
    by (rule coalesces_replies [OF run(1)]) (rule process_batch_memories)
  then obtain answered waiting where a: "jobs = answered @ waiting" "list_all2 own_memories answered (co_replies st)" by (elim exE conjE)
  obtain job' where j: "job' \<in> set answered" "own_memories job' (rj_reply job, out)"
    using a(2) run(5) by (induction rule: list_all2_induct) auto
  then have "rj_reply job' = rj_reply job" by (simp add: own_memories_def)
  moreover have "inj_on rj_reply (set jobs)" using run(2) unfolding distinct_map by (rule conjunct2)
  moreover have "job' \<in> set jobs" using a(1) j(1) by simp
  ultimately have "job' = job" using run(3) by (meson inj_onD)
  with j(2) run(4) show ?thesis by (simp add: own_memories_def)
qed

lemma batched_rerank_memories:
  assumes "coalescer_channel X enc channel"
  shows "batched_rerank X enc (channel query cands) query cands = []
    \<or> mset (map fst (batched_rerank X enc (channel query cands) query cands)) = mset (map fst cands)"
proof (cases "channel query cands")
  case (Replied out)
  with channel_memories [OF assms Replied] show ?thesis by (simp del: mset_map)
qed (use direct.same_memories in auto)

text \<open>What a caller may see by the documented rule; on names that are not plain or a scope that is no string nothing is promised.\<close>

definition visible_to :: "str option \<Rightarrow> Memory \<Rightarrow> bool" where
  "visible_to agent m =
     (case agent of
        None \<Rightarrow> True
      | Some a \<Rightarrow>
          plain_path a \<and> plain_path (m_namespace m)
            \<and> (case json_get (m_metadata m) ''scope'' of None \<Rightarrow> True | Some (JStr _) \<Rightarrow> True | _ \<Rightarrow> False)
          \<longrightarrow> scope_admits (mem_scope (m_metadata m)) (split_on CHR ''/'' a) (split_on CHR ''/'' (m_namespace m)))"

lemma may_see_visible: "may_see L q indexed m \<Longrightarrow> visible_to (rq_as_agent q) m"
  using documented_visibility [of _ m "hy_render L"]
  by (auto simp: may_see_def visible_to_def split: option.splits json.splits)

text \<open>The results of a recall on the collected store \<open>db\<close>, with \<open>db'\<close> the store after it.\<close>

definition recalled_from :: "recall_env \<Rightarrow> recall_query \<Rightarrow> Db \<Rightarrow> Memory \<Rightarrow> bool" where
  "recalled_from env q db m =
     (get db (m_id m) = Some m \<and> not_expired (rv_now env) m \<and> in_scope q m \<and> visible_to (rq_as_agent q) m)"

definition touches :: "recall_env \<Rightarrow> recall_query \<Rightarrow> str set \<Rightarrow> Db \<Rightarrow> Db \<Rightarrow> bool" where
  "touches env q hot db db' =
     (\<forall>j. sql_row (\<lambda>r. m_id r = j) (db_memories db') =
        map_option (\<lambda>r. if j \<in> hot
            then touched (rv_now env) (hy_add_secs (rv_lib env) (rv_now env) (rq_short_extend q))
                   (hy_add_secs (rv_lib env) (rv_now env) (rq_mid_extend q)) r
            else r) (sql_row (\<lambda>r. m_id r = j) (db_memories db)))"

definition results_ok :: "recall_env \<Rightarrow> recall_query \<Rightarrow> Db \<Rightarrow> Db \<Rightarrow> scored \<Rightarrow> bool" where
  "results_ok env q db db' out =
     (db_ok db' \<and> length out \<le> rq_limit q \<and> distinct (map (m_id \<circ> fst) out)
      \<and> (\<forall>m \<in> fst ` set out. recalled_from env q db m)
      \<and> (\<exists>hot. m_id ` fst ` set out \<subseteq> hot \<and> touches env q hot db db'))"

lemma results_ok_fewer:
  assumes "results_ok env q db db' out" "out' = [] \<or> mset (map fst out') = mset (map fst out)"
  shows "results_ok env q db db' out'"
  using assms(2)
proof
  assume m: "mset (map fst out') = mset (map fst out)"
  have "mset (map m_id (map fst out')) = mset (map m_id (map fst out))" using m by (simp only: mset_map)
  then have "distinct (map m_id (map fst out')) = distinct (map m_id (map fst out))" by (rule mset_eq_imp_distinct_iff)
  moreover have "length out' = length out" using arg_cong [OF m, of size] by (simp only: size_mset length_map)
  moreover have "fst ` set out' = fst ` set out" using mset_eq_setD [OF m] by simp
  ultimately show ?thesis using assms(1) by (simp add: results_ok_def)
qed (use assms(1) in \<open>auto simp: results_ok_def\<close>)

lemma hybrid_results_ok:
  assumes "db_ok db" "\<And>cs. mset (rv_hash_order env cs) = mset cs"
    and "recall_hybrid_with_telemetry (rv_lib env) s (rv_hash_order env) (rv_now env) db context qe q index = (Inr (out, oc, tel), db')"
  shows "results_ok env q db db' out"
  using hybrid_recall_sound [OF assms] unfolding results_ok_def recalled_from_def touches_def
  by (intro conjI exI [of _ "set (map (m_id \<circ> fst) out)"]) (auto intro: may_see_visible)

lemma recall_selects:
  assumes "recall fts rank age render tokens add_secs now db context q = ((out, oc), db')"
  shows "fst ` set out \<subseteq> fst ` set (recall_select fts rank age render now db context q)"
proof -
  let ?sel = "recall_select fts rank age render now db context q"
  define boosted where "boosted = (case (hierarchy_in_clause (rq_namespace q), rq_namespace q) of
                       (Some _, Some anchor) \<Rightarrow> apply_proximity_boost ?sel anchor
                     | _ \<Rightarrow> ?sel)"
  have "apply_token_budget tokens boosted (rq_budget q) = (out, oc)"
    using assms by (auto simp: recall_def boosted_def Let_def split: prod.splits)
  then have "set out \<subseteq> set boosted" using prefix_set [OF apply_budget_prefix [of tokens boosted "rq_budget q"]] by simp
  moreover have "mset (map fst boosted) = mset (map fst ?sel)"
    by (auto simp: boosted_def boost_ids simp del: mset_map split: option.split)
  from mset_eq_setD [OF this] have "fst ` set boosted = fst ` set ?sel" by simp
  ultimately show ?thesis by blast
qed

lemma keyword_results_ok:
  assumes "db_ok db" "recall_with_telemetry (rv_lib env) (rv_now env) db context q = ((out, oc, tel), db')"
  shows "results_ok env q db db' out"
proof -
  let ?L = "rv_lib env"
  have run: "recall (hy_fts ?L) (hy_rank ?L) (hy_age ?L) (hy_render ?L) (hy_tokens ?L) (hy_add_secs ?L) (rv_now env) db context q = ((out, oc), db')"
    using assms(2) by (auto simp: recall_with_telemetry_def split: prod.splits)
  note sound = recall_sound [OF assms(1) run]
  have "in_scope q m" if "m \<in> fst ` set out" for m
  proof -
    from that recall_selects [OF run]
    have "m \<in> fst ` set (recall_select (hy_fts ?L) (hy_rank ?L) (hy_age ?L) (hy_render ?L) (rv_now env) db context q)" by (rule rev_subsetD)
    from recall_select_mem [OF this] obtain r where "m = row_to_memory r" "recall_where (hy_render ?L) (rv_now env) q r" by auto
    then show ?thesis by (simp add: in_scope_where)
  qed
  moreover have "visible_to (rq_as_agent q) m" if "m \<in> fst ` set out" for m
    by (rule may_see_visible [of ?L q False]) (use sound that in \<open>auto simp: may_see_def\<close>)
  ultimately show ?thesis using sound unfolding results_ok_def recalled_from_def touches_def
    by (intro conjI exI [of _ "set (map (m_id \<circ> fst) out)"]) auto
qed

subsection \<open>Standards\<close>

lemma add_standards:
  assumes "distinct (map m_id acc)"
  shows "distinct (map m_id (fold add_standard xs acc)) \<and> set (fold add_standard xs acc) \<subseteq> set acc \<union> set xs"
  using assms
proof (induction xs arbitrary: acc)
  case (Cons x xs)
  then have "distinct (map m_id (add_standard x acc))" by (auto simp: add_standard_def)
  from Cons.IH [OF this] show ?case by (auto simp: add_standard_def split: if_splits)
qed simp

text \<open>What the client is given.\<close>

definition response_ok :: "recall_env \<Rightarrow> recall_query \<Rightarrow> Db \<Rightarrow> Db \<Rightarrow> recall_response \<Rightarrow> bool" where
  "response_ok env q db db' resp =
     (db_ok db' \<and> re_count resp = length (re_memories resp) \<and> re_count resp \<le> rq_limit q
      \<and> distinct (map (m_id \<circ> fst) (re_memories resp))
      \<and> (\<forall>m \<in> fst ` set (re_memories resp). recalled_from env q db m \<and> m_id m \<notin> m_id ` set (re_standards resp))
      \<and> distinct (map m_id (re_standards resp))
      \<and> (\<forall>s \<in> set (re_standards resp). \<exists>ns \<in> set (standard_chain db' (rq_namespace q)). lookup_namespace_standard db' ns = Some s)
      \<and> (\<exists>hot. m_id ` fst ` set (re_memories resp) \<subseteq> hot \<and> touches env q hot db db'))"

lemma scored_memories_fst: "map fst (scored_memories out) = map fst out"
  by (simp add: scored_memories_def case_prod_unfold comp_def)

lemma respond_ok:
  assumes "results_ok env q db db' out"
  shows "response_ok env q db db' (recall_respond env db' q mode rmode out oc tel)"
proof -
  let ?sm = "scored_memories out"
  define stds where "stds = fold add_standard (List.map_filter (lookup_namespace_standard db') (standard_chain db' (rq_namespace q))) []"
  define ms where "ms = (if stds = [] then ?sm else filter (\<lambda>(m, _). m_id m \<notin> set (map m_id stds)) ?sm)"
  have stds: "distinct (map m_id stds)" "set stds \<subseteq> set (List.map_filter (lookup_namespace_standard db') (standard_chain db' (rq_namespace q)))"
    unfolding stds_def using add_standards [of "[]"] by auto
  have resp: "re_memories (recall_respond env db' q mode rmode out oc tel) = ms"
    "re_count (recall_respond env db' q mode rmode out oc tel) = length ms"
    "re_standards (recall_respond env db' q mode rmode out oc tel) = stds"
    using arg_cong [OF scored_memories_fst, of length out]
    by (simp_all add: recall_respond_def inject_namespace_standard_def Let_def stds_def [symmetric] ms_def)
  have fs: "fst ` set ?sm = fst ` set out" using arg_cong [OF scored_memories_fst, of set out] by simp
  have "map (m_id \<circ> fst) ?sm = map (m_id \<circ> fst) out" using arg_cong [OF scored_memories_fst, of "map m_id" out] by simp
  then have "distinct (map (m_id \<circ> fst) ?sm)" using assms by (simp add: results_ok_def)
  then have "distinct (map (m_id \<circ> fst) ms)" unfolding ms_def by (simp add: distinct_map_filter)
  moreover have "length ms \<le> length out" using arg_cong [OF scored_memories_fst, of length out] unfolding ms_def by (simp add: le_trans [OF length_filter_le])
  moreover have sub: "fst ` set ms \<subseteq> fst ` set out" unfolding fs [symmetric] ms_def by auto
  moreover have each: "\<forall>m \<in> fst ` set out. recalled_from env q db m" using assms by (simp add: results_ok_def)
  moreover have "recalled_from env q db m" if "m \<in> fst ` set ms" for m
    using each rev_subsetD [OF that sub] by (rule bspec)
  moreover have "m_id m \<notin> m_id ` set stds" if "m \<in> fst ` set ms" for m using that by (auto simp: ms_def split: if_splits)
  moreover have "\<exists>ns \<in> set (standard_chain db' (rq_namespace q)). lookup_namespace_standard db' ns = Some s" if "s \<in> set stds" for s
  proof -
    from that stds(2) have "s \<in> set (List.map_filter (lookup_namespace_standard db') (standard_chain db' (rq_namespace q)))" by (rule rev_subsetD)
    then show ?thesis by (auto simp: List.map_filter_def)
  qed
  moreover obtain hot where "m_id ` fst ` set out \<subseteq> hot" "touches env q hot db db'" using assms by (auto simp: results_ok_def)
  moreover from this(1) sub have "m_id ` fst ` set ms \<subseteq> hot" by blast
  ultimately show ?thesis using assms stds(1) unfolding response_ok_def resp results_ok_def
    by (intro conjI ballI exI [of _ hot]) auto
qed

lemma gc_if_needed_ok: "db_ok db \<Longrightarrow> db_ok (snd (gc_if_needed now db archive))"
  by (simp add: gc_if_needed_def gc_ok)

lemma handle_recall_ok:
  assumes ok: "db_ok db" and perm: "\<And>cs. mset (rv_hash_order env cs) = mset cs"
    and channel: "\<And>enc ch. rv_reranker env = Some (enc, ch) \<Longrightarrow> coalescer_channel (rv_lexical env) enc ch"
    and run: "handle_recall env index params db = (Inr resp, db')"
  shows "response_ok env (recall_params env params) (snd (gc_if_needed (rv_gc_now env) db (rv_archive env))) db' resp"
proof -
  let ?q = "recall_params env params"
  define db1 where "db1 = snd (gc_if_needed (rv_gc_now env) db (rv_archive env))"
  have ok1: "db_ok db1" unfolding db1_def by (rule gc_if_needed_ok [OF ok])
  obtain words where given: "param_str params ''context'' = Some words" "is_ok (check_opt validate_namespace (rq_as_agent ?q))"
    using run by (auto simp: handle_recall_def Let_def is_ok_def split: option.splits sum.splits)
  show ?thesis
  proof (cases "query_embedding env words (unwrap_or [] (param_strs params ''context_tokens''))")
    case None
    obtain out oc tel db2 where r: "recall_with_telemetry (rv_lib env) (rv_now env) db1 words ?q = ((out, oc, tel), db2)"
      by (metis prod.collapse)
    then show ?thesis using run given None keyword_results_ok [OF ok1 r]
      by (auto simp: handle_recall_def Let_def db1_def [symmetric] is_ok_def split: sum.splits intro: respond_ok)
  next
    case (Some qe)
    obtain out oc tel where r: "recall_hybrid_with_telemetry (rv_lib env) (rv_scoring env) (rv_hash_order env) (rv_now env) db1 words qe ?q index
        = (Inr (out, oc, tel), db')"
      using run given Some
      by (auto simp: handle_recall_def Let_def db1_def [symmetric] is_ok_def split: sum.splits prod.splits option.splits)
    note res = hybrid_results_ok [OF ok1 perm r]
    show ?thesis
    proof (cases "rv_reranker env")
      case None
      with run given Some r respond_ok [OF res] show ?thesis
        by (auto simp: handle_recall_def Let_def db1_def [symmetric] is_ok_def split: sum.splits)
    next
      case reranker: (Some rr)
      obtain enc ch where rr: "rr = (enc, ch)" by (cases rr)
      note faithful = batched_rerank_memories [OF channel, of enc ch words out]
      from respond_ok [OF results_ok_fewer [OF res faithful]] reranker rr run given Some r show ?thesis
        by (auto simp: handle_recall_def Let_def db1_def [symmetric] is_ok_def split: sum.splits)
    qed
  qed
qed


definition ex_channel :: "str \<Rightarrow> scored \<Rightarrow> delivery" where
  "ex_channel query cands = Replied (rerank ex_lexical Lexical query cands)"

definition ex_recall_env :: recall_env where
  "ex_recall_env = \<lparr>rv_lib = ex_hybrid, rv_scoring = scoring_default, rv_hash_order = (\<lambda>cs. cs), rv_embedder = Some (\<lambda>s. Some []),
     rv_mix = (\<lambda>a b. a), rv_lexical = ex_lexical, rv_reranker = Some (Lexical, ex_channel), rv_archive = False,
     rv_ttl = resolved_ttl_default, rv_gc_now = ''2026-01-05'', rv_now = ''2026-01-05''\<rparr>"

lemma ex_recall_env_sel [simp]:
  "rv_lib ex_recall_env = ex_hybrid" "rv_scoring ex_recall_env = scoring_default" "rv_hash_order ex_recall_env = (\<lambda>cs. cs)"
  "rv_embedder ex_recall_env = Some (\<lambda>s. Some [])" "rv_lexical ex_recall_env = ex_lexical"
  "rv_reranker ex_recall_env = Some (Lexical, ex_channel)" "rv_archive ex_recall_env = False"
  "rv_gc_now ex_recall_env = ''2026-01-05''" "rv_now ex_recall_env = ''2026-01-05''"
  by (simp_all add: ex_recall_env_def)

definition ex_recall :: json where
  "ex_recall = JObj [(''context'', JStr ''x''), (''namespace'', JStr ''g'')]"

lemma ex_channel_coalesces: "coalescer_channel ex_lexical Lexical ex_channel"
  unfolding coalescer_channel_def
proof (intro allI impI)
  fix query cands out
  assume "ex_channel query cands = Replied out"
  then have out: "out = rerank ex_lexical Lexical query cands" by (simp add: ex_channel_def)
  let ?job = "\<lparr>rj_query = query, rj_candidates = cands, rj_reply = 0\<rparr>"
  have "coalesces ex_lexical Lexical 1 [?job] \<lparr>co_alive = True, co_queue = [?job], co_replies = []\<rparr>"
    using coalesces.submit [OF coalesces.start [of ex_lexical Lexical 1], of ?job] by (simp add: with_params_def)
  from coalesces.flush [OF this, of 1]
  have "coalesces ex_lexical Lexical 1 [?job] \<lparr>co_alive = True, co_queue = [], co_replies = [(0, out)]\<rparr>"
    by (simp add: process_batch_def out)
  then show "\<exists>max_batch jobs st job. coalesces ex_lexical Lexical max_batch jobs st \<and> distinct (map rj_reply jobs) \<and> job \<in> set jobs
      \<and> rj_query job = query \<and> rj_candidates job = cands \<and> (rj_reply job, out) \<in> set (co_replies st)"
    by (intro exI [of _ 1] exI [of _ "[?job]"] exI [of _ "\<lparr>co_alive = True, co_queue = [], co_replies = [(0, out)]\<rparr>"] exI [of _ ?job]) simp
qed


section \<open>What the answer does not promise\<close>

text \<open>The standards of a namespace are given to every caller: one that the visibility rules hide from the agent, and with a
  token budget of zero.\<close>

definition ex_standard :: Db where
  "ex_standard = snd (set_namespace_standard ''t'' ex_db ''g'' ''m1'' None)"

lemma standards_ignore_visibility:
  "map m_id (re_standards (recall_respond ex_recall_env ex_standard
      ((recall_params ex_recall_env ex_recall)\<lparr>rq_as_agent := Some ''other'', rq_budget := Some 0\<rparr>) ''hybrid'' ''hybrid'' []
      \<lparr>bo_tokens_used = 0, bo_tokens_remaining = Some 0, bo_memories_dropped = 2, bo_budget_overflow = False\<rparr>
      \<lparr>te_fts_candidates = 2, te_hnsw_candidates = 0, te_blend_weight_avg = 0\<rparr>)) = [''m1'']"
  "map_option (\<lambda>m. is_visible m (compute_visibility_prefixes (Some ''other''))) (get ex_standard ''m1'') = Some False"
  by code_simp+

text \<open>A recall that was not reranked, for want of an embedding, reports the configured reranker.\<close>

lemma keyword_recall_reports_reranker:
  assumes "query_embedding env words (unwrap_or [] (param_strs params ''context_tokens'')) = None"
    and "param_str params ''context'' = Some words" "handle_recall env index params db = (Inr resp, db')"
  shows "re_mode resp = ''keyword'' \<and> me_reranker_used (re_meta resp) = reranker_used env"
  using assms by (auto simp: handle_recall_def Let_def recall_respond_def inject_namespace_standard_def split: sum.splits prod.splits)

text \<open>When the worker of the reranker is gone, every hybrid recall comes back without a single memory, although those it found
  are counted as accessed.\<close>

lemma lost_worker_empties_recall:
  assumes "rv_reranker env = Some (enc, \<lambda>query cands. SendFailed)" "param_str params ''context'' = Some words"
    and "query_embedding env words (unwrap_or [] (param_strs params ''context_tokens'')) \<noteq> None"
    and "handle_recall env index params db = (Inr resp, db')"
  shows "re_mode resp = ''hybrid+rerank'' \<and> re_memories resp = [] \<and> re_count resp = 0"
  using assms by (auto simp: handle_recall_def Let_def recall_respond_def inject_namespace_standard_def scored_memories_def
      split: sum.splits prod.splits option.splits)

text \<open>Expired memories are collected even when the request is refused for want of a query.\<close>

lemma refused_recall_collects:
  "param_str params ''context'' = None \<Longrightarrow>
   handle_recall env index params db = (Inl ContextRequired, snd (gc_if_needed (rv_gc_now env) db (rv_archive env)))"
  by (simp add: handle_recall_def)

end
