(* ===== verification/Tool_Safety.thy ===== *)
theory Tool_Safety
  imports Tools
begin

text \<open>
  What holds of the tools: every call is a sequence of store operations and of index operations, so the invariants of both
  carry over to every sequence of calls; nothing is written past a gate that did not pass; a store that fails leaves the quota
  as it was; and where the handlers fall short of that.
\<close>

section \<open>Calls as sequences of operations\<close>

definition tools_refine :: "tool_state \<Rightarrow> tool_state \<Rightarrow> bool" where
  "tools_refine st st' =
     (local_step\<^sup>*\<^sup>* (tl_db st) (tl_db st') \<and> rel_option index_step\<^sup>*\<^sup>* (tl_index st) (tl_index st'))"

lemma tools_refine_refl [simp, intro]: "tools_refine st st"
  by (cases "tl_index st") (simp_all add: tools_refine_def)

lemma tools_refine_trans [trans]: "tools_refine a b \<Longrightarrow> tools_refine b c \<Longrightarrow> tools_refine a c"
  unfolding tools_refine_def by (cases "tl_index a"; cases "tl_index b"; cases "tl_index c") auto

lemma tools_refine_other [simp]:
  "tools_refine st (st'\<lparr>tl_quotas := q\<rparr>) = tools_refine st st'"
  "tools_refine st (st'\<lparr>tl_remembered := rs\<rparr>) = tools_refine st st'"
  "tools_refine st (emit_event e st') = tools_refine st st'"
  by (simp_all add: tools_refine_def emit_event_def)

lemma tools_refine_db: "local_step\<^sup>*\<^sup>* (tl_db st) db \<Longrightarrow> tools_refine st (st\<lparr>tl_db := db\<rparr>)"
  by (cases "tl_index st") (simp_all add: tools_refine_def)

lemma tools_refine_eq: "r = (x, db) \<Longrightarrow> local_step (tl_db st) (snd r) \<Longrightarrow> tools_refine st (st\<lparr>tl_db := db\<rparr>)"
  by (rule tools_refine_db) auto

lemma tools_refine_index:
  "rel_option index_step\<^sup>*\<^sup>* (tl_index st) ix \<Longrightarrow> tools_refine st (st\<lparr>tl_index := ix\<rparr>)"
  by (simp add: tools_refine_def)

lemma index_steps_map:
  "(\<And>x. index_step\<^sup>*\<^sup>* x (f x)) \<Longrightarrow> rel_option index_step\<^sup>*\<^sup>* ix (map_option f ix)"
  by (cases ix) simp_all

lemma index_steps_remove: "index_step\<^sup>*\<^sup>* ix (fold index_remove ids ix)"
  by (induction ids arbitrary: ix) (auto intro: converse_rtranclp_into_rtranclp ix_remove)

lemma index_steps_insert: "index_step\<^sup>*\<^sup>* ix (index_insert n i v (if replace then index_remove i ix else ix))"
  by (auto intro: converse_rtranclp_into_rtranclp ix_remove ix_insert)

lemma embed_memory_refine: "tools_refine st (embed_memory env replace i body st)"
proof (cases "tv_embedder env")
  case (Some emb)
  show ?thesis
  proof (cases "emb body")
    case v: (Some v)
    have "tools_refine st (st\<lparr>tl_db := snd (set_embedding (tl_db st) i v)\<rparr>)"
      by (rule tools_refine_db) (blast intro: step_embed)
    then show ?thesis using Some v
      by (auto simp: embed_memory_def intro!: tools_refine_trans [OF _ tools_refine_index] index_steps_map index_steps_insert)
  qed (simp add: embed_memory_def Some)
qed (simp add: embed_memory_def)

lemma governance_gate_refine: "tools_refine st (snd (governance_gate env act ns who mid own payload st))"
  unfolding governance_gate_def
  by (auto split: prod.split sum.split GovernanceDecision.split intro: tools_refine_eq step_enforce)

lemma past_gate_refine:
  assumes "tools_refine st (snd g)" "\<And>st'. tools_refine st' (snd (rest st'))"
  shows "tools_refine st (snd (past_gate g rest))"
  using assms(1) tools_refine_trans [OF assms(1) assms(2)]
  by (auto simp: past_gate_def split: prod.split sum.split option.split)

lemma update_then: "update now (tl_db st) i u = (x, db) \<Longrightarrow> tools_refine st (st\<lparr>tl_db := db\<rparr>)"
  by (erule tools_refine_eq) (rule step_update)

lemma merge_existing_refine: "tools_refine st (snd (merge_existing env mem dup st))"
  unfolding merge_existing_def Let_def
  by (auto split: prod.split sum.split intro: update_then tools_refine_trans [OF update_then embed_memory_refine])

lemma autonomy_hooks_refine: "tools_refine st (snd (autonomy_hooks env i mem existing st))"
  unfolding autonomy_hooks_def persist_hook_results_def Let_def
  by (auto split: option.split prod.split intro!: tools_refine_db r_into_rtranclp step_update)

lemma after_store_refine: "tools_refine st (snd (after_store env rq mem existing i st))"
proof -
  define st1 where "st1 = emit_event (Audited (audit_store env rq i mem)) st"
  define st2 where "st2 = embed_memory env False i (m_title mem @ '' '' @ m_content mem) st1"
  have "tools_refine st st1" by (simp add: st1_def)
  also have "tools_refine st1 st2" unfolding st2_def by (rule embed_memory_refine)
  also have "tools_refine st2 (snd (autonomy_hooks env i mem existing st2))" by (rule autonomy_hooks_refine)
  finally show ?thesis unfolding after_store_def Let_def st1_def [symmetric] st2_def [symmetric]
    by (auto split: prod.split)
qed

lemma store_new_refine: "tools_refine st (snd (store_new env rq mem existing st))"
proof -
  have "tools_refine st (st\<lparr>tl_db := db, tl_quotas := q\<rparr>)" if "insert_mem (tl_db st) mem = (x, db)" for x db q
    using tools_refine_eq [OF that step_insert] by simp
  then show ?thesis unfolding store_new_def Let_def
    by (auto split: prod.split sum.split intro: tools_refine_trans [OF _ after_store_refine])
qed

lemma handle_store_refine: "tools_refine st (snd (handle_store env params st))"
  unfolding handle_store_def store_checked_def Let_def
  by (auto split: sum.split prod.split option.split
      intro!: past_gate_refine governance_gate_refine merge_existing_refine store_new_refine)

lemma delete_checked_refine: "tools_refine st (snd (delete_checked env target st))"
proof -
  define db where "db = snd (delete (tl_db st) (m_id target))"
  have step: "tools_refine st (st\<lparr>tl_db := db\<rparr>)" unfolding db_def by (rule tools_refine_db) (blast intro: step_delete)
  have "tools_refine (st\<lparr>tl_db := db\<rparr>)
      (st\<lparr>tl_db := db, tl_index := map_option (index_remove (m_id target)) (tl_index st)\<rparr>)"
    by (rule tools_refine_index) (auto intro!: index_steps_map ix_remove)
  from tools_refine_trans [OF step this] step show ?thesis unfolding delete_checked_def
    by (auto simp: db_def split: prod.split)
qed

lemma handle_delete_refine: "tools_refine st (snd (handle_delete env params st))"
  unfolding handle_delete_def Let_def
  by (auto split: sum.split intro!: past_gate_refine governance_gate_refine delete_checked_refine)

lemma promote_checked_refine: "tools_refine st (snd (promote_checked env params target st))"
  unfolding promote_checked_def promote_dispatch_def
  by (auto split: sum.split prod.split option.split intro: update_then tools_refine_eq step_promote)

lemma handle_promote_refine: "tools_refine st (snd (handle_promote env params st))"
  unfolding handle_promote_def Let_def
  by (auto split: sum.split intro!: past_gate_refine governance_gate_refine promote_checked_refine)

lemma handle_forget_refine: "tools_refine st (snd (handle_forget env params st))"
  unfolding handle_forget_def Let_def
  by (auto split: sum.split prod.split intro: tools_refine_eq step_forget)

lemma handle_update_refine: "tools_refine st (snd (handle_update env params st))"
  unfolding handle_update_def Let_def
  by (auto split: sum.split prod.split option.split bool.split
      intro: update_then tools_refine_trans [OF update_then embed_memory_refine])

lemma link_checked_refine: "tools_refine st (snd (link_checked env s t rel st))"
proof -
  have "tools_refine st (st\<lparr>tl_db := db, tl_quotas := q\<rparr>)"
    if "create_link_signed cr now (tl_db st) s t rel kp = (x, db)" for cr now kp x db q
    using tools_refine_eq [OF that step_link] by simp
  then show ?thesis unfolding link_checked_def Let_def by (auto split: prod.split sum.split)
qed

lemma handle_link_refine: "tools_refine st (snd (handle_link env params st))"
  unfolding handle_link_def by (auto split: sum.split prod.split intro!: past_gate_refine link_checked_refine)

lemma remove_all_refine: "tools_refine st (st\<lparr>tl_index := remove_all ids (tl_index st)\<rparr>)"
  by (rule tools_refine_index) (simp add: remove_all_def index_steps_map index_steps_remove)

lemma consolidate_checked_refine:
  "tools_refine st (snd (consolidate_checked env params ids title summary ns who st))"
proof -
  let ?st1 = "st\<lparr>tl_index := remove_all ids (tl_index st)\<rparr>"
  have *: "tools_refine st (?st1\<lparr>tl_db := db\<rparr>)"
    if "consolidate ser i now (tl_db st) ids title summary ns Long ''consolidation'' who = (x, db)" for ser i now x db
  proof -
    have "tools_refine ?st1 (?st1\<lparr>tl_db := db\<rparr>)" by (rule tools_refine_eq [OF that]) (simp add: step_consolidate)
    with remove_all_refine show ?thesis by (rule tools_refine_trans)
  qed
  have **: "tools_refine st (embed_memory env False i body (st\<lparr>tl_db := db, tl_index := remove_all ids (remove_all ids (tl_index st))\<rparr>))"
    if "consolidate ser j now (tl_db st) ids title summary ns Long ''consolidation'' who = (x, db)" for ser j now x db i body
    using tools_refine_trans [OF * [OF that] tools_refine_trans [OF remove_all_refine [of _ ids] embed_memory_refine]] by simp
  show ?thesis unfolding consolidate_checked_def Let_def
    by (auto split: sum.split prod.split option.split intro: * **)
qed

lemma handle_consolidate_refine: "tools_refine st (snd (handle_consolidate env params st))"
  unfolding handle_consolidate_def
  by (auto split: sum.split prod.split intro!: past_gate_refine consolidate_checked_refine)

lemma merge_governance_refine: "tools_refine st (snd (merge_governance env g i st))"
  unfolding merge_governance_def Let_def
  by (auto split: sum.split prod.split option.split intro: update_then)

lemma set_standard_refine: "tools_refine st (snd (handle_namespace_set_standard env params st))"
proof -
  have merged: "tools_refine st st1"
    if "(case json_get params ''governance'' of
           None \<Rightarrow> (Inr (), st) | Some JNull \<Rightarrow> (Inr (), st) | Some g \<Rightarrow> merge_governance env g i st) = (x, st1)" for i x st1
    using that merge_governance_refine [of st env _ i]
    by (auto split: option.splits json.splits dest: sym) (metis snd_conv)+
  have "tools_refine st (st1\<lparr>tl_db := db\<rparr>)"
    if "(case json_get params ''governance'' of
           None \<Rightarrow> (Inr (), st) | Some JNull \<Rightarrow> (Inr (), st) | Some g \<Rightarrow> merge_governance env g i st) = (x, st1)"
      "set_namespace_standard now (tl_db st1) ns i parent = (y, db)" for i x st1 now ns parent y db
    using tools_refine_trans [OF merged [OF that(1)] tools_refine_eq [OF that(2) step_standard]] .
  with merged show ?thesis unfolding handle_namespace_set_standard_def
    by (auto split: sum.split prod.split simp del: case_prod_conv)
qed

lemma clear_standard_refine: "tools_refine st (snd (handle_namespace_clear_standard env params st))"
  unfolding handle_namespace_clear_standard_def
  by (auto split: sum.split prod.split intro: tools_refine_eq step_clear)

lemma agent_register_refine: "tools_refine st (snd (handle_agent_register env params st))"
  unfolding handle_agent_register_def
  by (auto split: sum.split prod.split intro: tools_refine_eq step_agent)

lemma notify_refine: "tools_refine st (snd (handle_notify env params st))"
  unfolding handle_notify_def
  by (auto split: sum.split prod.split intro: tools_refine_eq step_insert)

lemma record_decision_refine [simp]:
  "tools_refine st (record_mcp_decision env i who label r st') = tools_refine st st'"
  by (auto simp: record_mcp_decision_def Let_def split: option.split Remember.split)

lemma approve_refine: "tools_refine st (snd (handle_pending_approve env params st))"
proof -
  have two: "tools_refine st (st\<lparr>tl_db := db2\<rparr>)"
    if "approve_with_approver_type fv now (tl_db st) i who = (x, db)"
      "execute_pending_action mv j now' db i = (y, db2)" for fv now i who x db mv j now' y db2
  proof (rule tools_refine_db)
    have "local_step (tl_db st) db" using step_approve [of "tl_db st" fv now i who] that(1) by simp
    moreover have "local_step db db2" using step_execute [of db mv j now' i] that(2) by simp
    ultimately show "local_step\<^sup>*\<^sup>* (tl_db st) db2" by auto
  qed
  show ?thesis unfolding handle_pending_approve_def
    by (auto split: sum.split prod.split ApproveOutcome.split intro: tools_refine_eq step_approve two)
qed

lemma reject_refine: "tools_refine st (snd (handle_pending_reject env params st))"
  unfolding handle_pending_reject_def
  by (auto split: sum.split prod.split intro: tools_refine_eq step_decide)

lemma restore_refine: "tools_refine st (snd (handle_archive_restore env params st))"
  unfolding handle_archive_restore_def
  by (auto split: sum.split prod.split intro: tools_refine_eq step_restore)

lemma purge_refine: "tools_refine st (snd (handle_archive_purge env params st))"
proof -
  have "tools_refine st1 (st1\<lparr>tl_db := db\<rparr>)"
    if "purge_archive minus now (tl_db st1) days = (x, db)" for minus now st1 days x db
    by (rule tools_refine_eq [OF that step_purge])
  then show ?thesis unfolding handle_archive_purge_def Let_def
    by (auto split: sum.split prod.split intro!: past_gate_refine)
qed

lemma gc_refine: "tools_refine st (snd (handle_gc env params st))"
  unfolding handle_gc_def by (auto split: prod.split intro: tools_refine_eq step_gc)

lemmas handler_refines = handle_store_refine handle_delete_refine handle_promote_refine handle_forget_refine
  handle_update_refine handle_link_refine handle_consolidate_refine set_standard_refine clear_standard_refine
  agent_register_refine notify_refine approve_refine reject_refine restore_refine purge_refine gc_refine

lemma tool_step_refine: "tool_step st st' \<Longrightarrow> tools_refine st st'"
  by (erule tool_step.cases) (simp_all add: handler_refines)

lemma tool_steps_refine: "tool_step\<^sup>*\<^sup>* st st' \<Longrightarrow> tools_refine st st'"
  by (induction rule: rtranclp_induct) (auto intro: tools_refine_trans tool_step_refine)

section \<open>Gates\<close>

lemma bindE_Inr [simp]: "(bindE r f = Inr y) = (\<exists>x. r = Inr x \<and> f x = Inr y)"
  by (cases r) simp_all

lemma governance_gate_passed: "governance_gate env act ns who mid own payload st = (Inr None, st1) \<Longrightarrow> st1 = st"
  by (auto simp: governance_gate_def enforce_governance_def Let_def queue_pending_action_def
      split: prod.splits sum.splits GovernanceDecision.splits option.splits if_splits)

lemma governance_gate_refused: "governance_gate env act ns who mid own payload st = (Inl e, st1) \<Longrightarrow> st1 = st"
  by (auto simp: governance_gate_def enforce_governance_def Let_def queue_pending_action_def
      split: prod.splits sum.splits GovernanceDecision.splits option.splits if_splits)

definition queued_row :: "tool_env \<Rightarrow> GovernedAction \<Rightarrow> str \<Rightarrow> str \<Rightarrow> str option \<Rightarrow> json \<Rightarrow> PendingRow" where
  "queued_row env act ns who mid payload =
     \<lparr>pa_id = tv_pending_id env, pa_action_type = action_as_str act, pa_memory_id = mid, pa_namespace = ns,
      pa_payload = payload, pa_requested_by = who, pa_requested_at = tv_db_now env, pa_status = ''pending'',
      pa_decided_by = None, pa_decided_at = None, pa_approvals = [], pr_default_timeout_seconds = None, pr_expired_at = None\<rparr>"

lemma governance_gate_queued:
  assumes "governance_gate env act ns who mid own payload st = (Inr (Some reply), st1)"
  shows "reply = PendingApproval (tv_pending_id env)
    \<and> st1 = emit_event (ApprovalDispatched (tv_pending_id env))
        (st\<lparr>tl_db := (tl_db st)\<lparr>db_pending := db_pending (tl_db st) @ [queued_row env act ns who mid payload]\<rparr>\<rparr>)"
  using assms
  by (auto simp: governance_gate_def enforce_governance_def Let_def queue_pending_action_def queued_row_def
      split: prod.splits sum.splits GovernanceDecision.splits option.splits if_splits)

text \<open>What a tool may leave behind without having passed its gates: a queued action.\<close>

definition only_queued :: "tool_state \<Rightarrow> tool_state \<Rightarrow> bool" where
  "only_queued st st' =
     ((tl_db st')\<lparr>db_pending := []\<rparr> = (tl_db st)\<lparr>db_pending := []\<rparr> \<and> tl_quotas st' = tl_quotas st
      \<and> tl_index st' = tl_index st \<and> tl_remembered st' = tl_remembered st)"

lemma only_queued_refl [simp]: "only_queued st st"
  by (simp add: only_queued_def)

lemma governance_gate_only_queued:
  "governance_gate env act ns who mid own payload st = (r, st1) \<Longrightarrow> only_queued st st1"
proof (cases r)
  case (Inl e)
  then show "governance_gate env act ns who mid own payload st = (r, st1) \<Longrightarrow> ?thesis"
    by (auto dest: governance_gate_refused)
next
  case (Inr x)
  then show "governance_gate env act ns who mid own payload st = (r, st1) \<Longrightarrow> ?thesis"
    by (cases x) (auto dest!: governance_gate_passed governance_gate_queued simp: only_queued_def emit_event_def)
qed

lemma past_gate_simps [simp]:
  "past_gate (Inl e, st) rest = (Inl e, st)" "past_gate (Inr None, st) rest = rest st"
  "past_gate (Inr (Some reply), st) rest = (Inr reply, st)"
  by (simp_all add: past_gate_def)

lemma gate_cases [case_names refused passed stopped]:
  fixes g :: "ToolError + ToolReply option"
  obtains e where "g = Inl e" | "g = Inr None" | reply where "g = Inr (Some reply)"
  by (metis option.exhaust sum.exhaust)

lemma past_gate_blocked:
  assumes "\<not> only_queued st (snd (past_gate g rest))" "only_queued st (snd g)"
  shows "fst g = Inr None \<and> \<not> only_queued st (snd (rest (snd g)))"
  using assms by (auto simp: past_gate_def split: prod.splits sum.splits option.splits)

text \<open>A permission check passes exactly when the evaluation allows or modifies.\<close>

definition permitted :: "tool_env \<Rightarrow> tool_state \<Rightarrow> Op \<Rightarrow> str \<Rightarrow> str \<Rightarrow> json \<Rightarrow> bool" where
  "permitted env st oper ns who payload =
     (case evaluate (tl_remembered st) (tv_rules env) (tv_mode env)
         \<lparr>pc_op = oper, pc_namespace = ns, pc_agent_id = who, pc_payload = payload\<rparr> [] of
        PAllow \<Rightarrow> True | PModify _ \<Rightarrow> True | PDeny _ \<Rightarrow> False | PAsk _ \<Rightarrow> False)"

lemma permission_gate_passed: "(permission_gate env st oper ns who payload = Inr None) = permitted env st oper ns who payload"
  by (simp add: permission_gate_def permitted_def split: PermDecision.split)

text \<open>A governance check passes exactly when the policy in force allows.\<close>

definition governed :: "tool_env \<Rightarrow> tool_state \<Rightarrow> GovernedAction \<Rightarrow> str \<Rightarrow> str \<Rightarrow> str option \<Rightarrow> str option \<Rightarrow> json \<Rightarrow> bool" where
  "governed env st act ns who mid own payload =
     (fst (enforce_governance (tv_mode env) (tv_policy env) (tv_pending_id env) (tv_db_now env) (tl_db st) act ns who mid own payload)
       = Inr Allow)"

lemma governance_gate_governed:
  "(fst (governance_gate env act ns who mid own payload st) = Inr None) = governed env st act ns who mid own payload"
  by (auto simp: governance_gate_def governed_def split: prod.split sum.split GovernanceDecision.split)

lemma gated_store:
  assumes "\<not> only_queued st (snd (handle_store env params st))"
  shows "\<exists>rq title. parse_store env params = Inr rq \<and> resolve_title (tl_db st) rq = Inr title
    \<and> permitted env st MemoryStore (sq_namespace rq) (sq_agent_id rq) (tv_mem_json env (store_memory env rq title))
    \<and> governed env st Store (sq_namespace rq) (sq_agent_id rq) None None (tv_mem_json env (store_memory env rq title))"
proof (cases "bindE (parse_store env params) (\<lambda>rq. bindE (resolve_title (tl_db st) rq) (\<lambda>title. Inr (rq, title)))")
  case (Inl e)
  with assms show ?thesis by (simp add: handle_store_def)
next
  case (Inr p)
  obtain rq title where p: "p = (rq, title)" by (cases p)
  have parsed: "parse_store env params = Inr rq" "resolve_title (tl_db st) rq = Inr title"
    using Inr unfolding p bindE_Inr by auto
  define mem where "mem = store_memory env rq title"
  have ns: "m_namespace mem = sq_namespace rq" by (simp add: mem_def store_memory_def)
  let ?perm = "permission_gate env st MemoryStore (sq_namespace rq) (sq_agent_id rq) (tv_mem_json env mem)"
  let ?gov = "governance_gate env Store (sq_namespace rq) (sq_agent_id rq) None None (tv_mem_json env mem)"
  have "\<not> only_queued st (snd (past_gate (?perm, st) (\<lambda>st1. past_gate (?gov st1) (store_checked env rq mem))))"
    using assms Inr by (simp add: handle_store_def p Let_def mem_def [symmetric] ns)
  from past_gate_blocked [OF this] have 1: "?perm = Inr None"
    and 2: "\<not> only_queued st (snd (past_gate (?gov st) (store_checked env rq mem)))" by simp_all
  have "only_queued st (snd (?gov st))" by (metis governance_gate_only_queued prod.collapse)
  from past_gate_blocked [OF 2 this] have "fst (?gov st) = Inr None" by simp
  with 1 parsed show ?thesis
    by (auto simp: permission_gate_passed governance_gate_governed mem_def)
qed

lemma permission_first:
  assumes "\<not> only_queued st (snd (past_gate (permission_gate env st oper ns who payload, st) rest))"
  shows "permitted env st oper ns who payload" and "\<not> only_queued st (snd (rest st))"
  using past_gate_blocked [OF assms] by (simp_all add: permission_gate_passed)

lemma governance_next:
  assumes "\<not> only_queued st (snd (past_gate (governance_gate env act ns who mid own payload st) rest))"
  shows "governed env st act ns who mid own payload"
proof -
  have "only_queued st (snd (governance_gate env act ns who mid own payload st))"
    by (metis governance_gate_only_queued prod.collapse)
  from past_gate_blocked [OF assms this] show ?thesis by (simp add: governance_gate_governed)
qed

lemma gated_delete:
  assumes "\<not> only_queued st (snd (handle_delete env params st))"
  shows "\<exists>i target who. require_id params ''id'' = Inr i \<and> find_target (tl_db st) i = Inr target
    \<and> caller env params (tv_client env) = Inr who
    \<and> permitted env st MemoryDelete (m_namespace target) who
        (JObj [(''id'', JStr (m_id target)), (''title'', JStr (m_title target))])
    \<and> governed env st Delete (m_namespace target) who (Some (m_id target)) (owner_of target)
        (JObj [(''id'', JStr (m_id target)), (''title'', JStr (m_title target))])"
proof -
  obtain target who where t: "bindE (require_id params ''id'') (find_target (tl_db st)) = Inr target"
    "caller env params (tv_client env) = Inr who"
    using assms by (auto simp: handle_delete_def simp del: bindE_Inr split: sum.splits)
  let ?payload = "JObj [(''id'', JStr (m_id target)), (''title'', JStr (m_title target))]"
  have "\<not> only_queued st (snd (past_gate (permission_gate env st MemoryDelete (m_namespace target) who ?payload, st)
      (\<lambda>st1. past_gate (governance_gate env Delete (m_namespace target) who (Some (m_id target)) (owner_of target) ?payload st1)
        (delete_checked env target))))"
    using assms unfolding handle_delete_def t sum.case Let_def .
  from permission_first [OF this] governance_next t show ?thesis by (simp add: governed_def) blast
qed

lemma gated_link:
  assumes "\<not> only_queued st (snd (handle_link env params st))"
  shows "\<exists>s t rel who. parse_link env params = Inr (s, t, rel, who)
    \<and> permitted env st MemoryLink (link_namespace (tl_db st) s) who
        (JObj [(''source_id'', JStr s), (''target_id'', JStr t), (''relation'', JStr rel)])"
  using assms unfolding handle_link_def
  by (auto split: sum.splits prod.splits dest!: permission_first(1))

lemma gated_consolidate:
  assumes "\<not> only_queued st (snd (handle_consolidate env params st))"
  shows "\<exists>ids title summary ns who. parse_consolidate env params (tl_db st) = Inr (ids, title, summary, ns, who)
    \<and> permitted env st MemoryConsolidate ns who
        (JObj [(''title'', JStr title), (''summary_chars'', JInt (int (length summary))), (''source_ids'', JArr (map JStr ids))])"
  using assms unfolding handle_consolidate_def
  by (auto split: sum.splits prod.splits dest!: permission_first(1))

lemma gated_purge:
  assumes "\<not> only_queued st (snd (handle_archive_purge env params st))"
  shows "\<exists>who. caller env params None = Inr who \<and> permitted env st MemoryArchive ''global'' who
        (JObj [(''older_than_days'', case param_i64 params ''older_than_days'' of None \<Rightarrow> JNull | Some d \<Rightarrow> JInt d)])"
  using assms unfolding handle_archive_purge_def Let_def
  by (auto split: sum.splits dest!: permission_first(1))

lemma gated_promote:
  assumes "\<not> only_queued st (snd (handle_promote env params st))"
  shows "\<exists>i target who payload. require_id params ''id'' = Inr i \<and> find_target (tl_db st) i = Inr target
    \<and> caller env params (tv_client env) = Inr who
    \<and> governed env st Promote (m_namespace target) who (Some (m_id target)) (owner_of target) payload"
  using assms unfolding handle_promote_def Let_def
  by (auto split: sum.splits dest!: governance_next)

section \<open>What a store leaves behind\<close>

definition text_of :: "Memory \<Rightarrow> str \<times> str \<times> str" where
  "text_of m = (m_title m, m_namespace m, m_content m)"

lemma row_to_memory_embedding [simp]: "row_to_memory (write_embedding b d r) = row_to_memory r"
  by (simp add: row_to_memory_def write_embedding_def)

lemma get_set_embedding [simp]: "get (snd (set_embedding db i v)) j = get db j"
proof -
  have "get (db\<lparr>db_memories := sql_update (\<lambda>r. m_id r = i) (write_embedding b d) (db_memories db)\<rparr>) j = get db j" for b d
  proof -
    have "key_preserving m_id (write_embedding b d)" by unfold_locales (simp add: write_embedding_def)
    from key_preserving.row_update_any [OF this, of j "\<lambda>r. m_id r = i" "db_memories db"] show ?thesis
      by (auto simp: get_def option.map_comp intro!: option.map_cong)
  qed
  then show ?thesis by (auto simp: set_embedding_def Let_def split: option.split)
qed

lemma embed_memory_keeps [simp]:
  "get (tl_db (embed_memory env replace i body st)) j = get (tl_db st) j"
  "tl_quotas (embed_memory env replace i body st) = tl_quotas st"
  "tl_remembered (embed_memory env replace i body st) = tl_remembered st"
  by (auto simp: embed_memory_def split: option.split)

lemma emit_event_keeps [simp]:
  "tl_db (emit_event e st) = tl_db st" "tl_quotas (emit_event e st) = tl_quotas st"
  "tl_index (emit_event e st) = tl_index st" "tl_remembered (emit_event e st) = tl_remembered st"
  by (simp_all add: emit_event_def)

lemma update_keeps_text:
  assumes "memories_ok (db_memories db)" "u_title u = None" "u_namespace u = None" "u_content u = None"
  shows "map_option text_of (get (snd (update now db i u)) j) = map_option text_of (get db j)"
proof (cases "get db i")
  case (Some m)
  then obtain r where r: "r \<in> set (db_memories db)" "m_id r = i" by (auto dest: get_SomeD)
  have *: "map_option text_of (get (db\<lparr>db_memories := sql_update (\<lambda>x. m_id x = i) (updated now u) (db_memories db)\<rparr>) j)
      = map_option text_of (get db j)"
    using updated_id.row_update_any [of j "\<lambda>x. m_id x = i" now u "db_memories db"] assms(2-4)
    by (cases "sql_row (\<lambda>x. m_id x = j) (db_memories db)") (auto simp: get_def text_of_def updated_def)
  from update_eq [OF assms(1) r, of now u] * show ?thesis by (cases "update_refused now u db r") auto
qed (simp add: update_def)

lemma autonomy_hooks_keeps:
  assumes "db_ok (tl_db st)"
  shows "map_option text_of (get (tl_db (snd (autonomy_hooks env i mem existing st))) j) = map_option text_of (get (tl_db st) j)"
    and "tl_quotas (snd (autonomy_hooks env i mem existing st)) = tl_quotas st"
  using assms
  by (auto simp: autonomy_hooks_def persist_hook_results_def Let_def db_ok_def no_update_def
      intro!: update_keeps_text split: option.split)

lemma insert_mem_text:
  assumes "db_ok db" "insert_mem db mem = (Inr i, db')"
  shows "map_option text_of (get db' i) = Some (text_of mem)"
proof -
  have "db_ok db'" using insert_mem_ok [OF assms(1), of mem] assms(2) by simp
  then have mo: "memories_ok (db_memories db')" by (simp add: db_ok_def)
  obtain r where r: "sql_row (\<lambda>r. title_key r = (m_title mem, m_namespace mem)) (db_memories db') = Some r" "m_id r = i"
    "r = row_of mem \<or> (\<exists>old. r = merge_insert old mem)"
    using insert_merge.upsert_finds [of db mem i] assms(2) by (auto simp: insert_mem_def)
  then have "r \<in> set (db_memories db')" "title_key r = (m_title mem, m_namespace mem)" by (auto dest: sql_row_SomeD)
  moreover from r(3) have "m_content r = m_content mem" by (auto simp: row_of_def merge_insert_def)
  ultimately show ?thesis using get_unique [OF mo, of r] r(2) by (simp add: text_of_def title_key_def)
qed

lemma after_store_effect:
  assumes "db_ok (tl_db st)" "after_store env rq mem existing i st = (r, st')"
  shows "\<exists>cs tags confirmed why. r = Inr (Stored i (m_tier mem) (m_title mem) (m_namespace mem) (sq_agent_id rq) cs tags confirmed why)"
    and "map_option text_of (get (tl_db st') j) = map_option text_of (get (tl_db st) j)" and "tl_quotas st' = tl_quotas st"
proof -
  define st1 where "st1 = embed_memory env False i (m_title mem @ '' '' @ m_content mem) (emit_event (Audited (audit_store env rq i mem)) st)"
  have ok: "db_ok (tl_db st1)" unfolding st1_def using assms(1)
    by (auto simp: embed_memory_def set_embedding_ok split: option.split)
  have run: "r = Inr (Stored i (m_tier mem) (m_title mem) (m_namespace mem) (sq_agent_id rq)
      (map m_id (filter (\<lambda>c. m_id c \<noteq> m_id mem \<and> m_id c \<noteq> i) existing))
      (fst (fst (autonomy_hooks env i mem existing st1))) (snd (fst (autonomy_hooks env i mem existing st1)))
      (if tv_autonomous env then hooks_skipped_reason env mem else None))"
    "st' = emit_event (Dispatched ''memory_store'' i (m_namespace mem) (Some (sq_agent_id rq)) None)
       (snd (autonomy_hooks env i mem existing st1))"
    using assms(2) unfolding after_store_def Let_def st1_def [symmetric] by (auto split: prod.splits)
  from run(1) show "\<exists>cs tags confirmed why. r = Inr (Stored i (m_tier mem) (m_title mem) (m_namespace mem) (sq_agent_id rq) cs tags confirmed why)"
    by blast
  from run(2) autonomy_hooks_keeps [OF ok, of env i mem existing] show
    "map_option text_of (get (tl_db st') j) = map_option text_of (get (tl_db st) j)" "tl_quotas st' = tl_quotas st"
    by (simp_all add: st1_def)
qed

lemma refund_op_row_other: "c \<noteq> a \<Longrightarrow> load_row (refund_op now t a op) c = load_row t c"
  unfolding refund_op_def load_row_def by (rule refund_key.row_update_other) auto

lemma mem_count_refund:
  assumes "quota_inv t" "fst (check_and_record now t a (MemoryOp b)) = Inr ()"
  shows "mem_count now (refund_op now2 (snd (check_and_record now t a (MemoryOp b))) a (MemoryOp b)) c = mem_count now t c"
proof (cases "c = a")
  case False
  then show ?thesis by (simp add: mem_count_def row_for_def refund_op_row_other check_and_record_row_other)
next
  case True
  let ?r = "row_for now t a" and ?op = "MemoryOp b"
  have v: "verdict now a ?op ?r = None" using assms(2) check_and_record_ok [of now t a ?op] by (simp add: is_ok_def)
  have "row_for now (refund_op now2 (snd (check_and_record now t a ?op)) a ?op) a = refund_row now2 ?op (charge now (rolled now ?r) ?op ?r)"
    by (rule row_for_Some) (simp add: refund_op_row check_and_record_row v)
  moreover have "0 \<le> memories_today now ?r" using mem_count_bounds [OF assms(1), of now a] by (simp add: mem_count_def)
  ultimately show ?thesis unfolding True mem_count_def
    by (simp add: refund_row_def charge_def memories_today_def rolled_def split: if_splits)
qed

lemma mem_count_admit:
  assumes "check_and_record now t a (MemoryOp b) = (r, t')"
  shows "mem_count now t' c = mem_count now t c + (if is_ok r \<and> c = a then 1 else 0)"
  using mem_count_charge [of now now t a "MemoryOp b" c] assms by (auto simp: is_memory_of_def)

text \<open>The outcomes of a store past the gates.\<close>

definition store_outcome :: "tool_env \<Rightarrow> store_request \<Rightarrow> str \<Rightarrow> tool_state \<Rightarrow> tool_result \<Rightarrow> bool" where
  "store_outcome env rq title st res =
     (case res of
        (Inr (Stored i tier t ns who cs tags confirmed why), st') \<Rightarrow>
          t = title \<and> ns = sq_namespace rq \<and> who = sq_agent_id rq
          \<and> map_option text_of (get (tl_db st') i) = Some (title, sq_namespace rq, sq_content rq)
          \<and> (\<forall>c. mem_count (tv_quota_now env) (tl_quotas st') c
                = mem_count (tv_quota_now env) (tl_quotas st) c + (if c = sq_agent_id rq then 1 else 0))
      | (Inr (Merged i tier t ns who), st') \<Rightarrow>
          sq_on_conflict rq = OnMerge
          \<and> map_option text_of (get (tl_db st) i) = Some (title, sq_namespace rq, m_content (the (get (tl_db st) i)))
          \<and> map_option text_of (get (tl_db st') i) = Some (title, sq_namespace rq, sq_content rq)
          \<and> tl_quotas st' = tl_quotas st
      | (Inr reply, st') \<Rightarrow> only_queued st st'
      | (Inl e, st') \<Rightarrow>
          tl_db st' = tl_db st \<and> tl_index st' = tl_index st
          \<and> (\<forall>c. mem_count (tv_quota_now env) (tl_quotas st') c = mem_count (tv_quota_now env) (tl_quotas st) c))"

lemma store_new_outcome:
  assumes "db_ok (tl_db st)" "quota_inv (tl_quotas st)"
  shows "store_outcome env rq title st (store_new env rq (store_memory env rq title) existing st)"
proof -
  define mem where "mem = store_memory env rq title"
  let ?op = "MemoryOp (payload_bytes env mem)"
  have body: "text_of mem = (title, sq_namespace rq, sq_content rq)" by (simp add: mem_def store_memory_def text_of_def)
  obtain res q where q: "check_and_record (tv_quota_now env) (tl_quotas st) (sq_agent_id rq) ?op = (res, q)" by fastforce
  obtain ins db where ins: "insert_mem (tl_db st) mem = (ins, db)" by fastforce
  show ?thesis unfolding mem_def [symmetric]
  proof (cases res)
    case (Inl e)
    then show "store_outcome env rq title st (store_new env rq mem existing st)"
      using mem_count_admit [OF q] by (simp add: store_new_def q store_outcome_def is_ok_def)
  next
    case res: (Inr u)
    show "store_outcome env rq title st (store_new env rq mem existing st)"
    proof (cases ins)
      case (Inl e)
      have "db = tl_db st" using insert_merge.upsert_error_unchanged [of "tl_db st" mem e] ins Inl by (simp add: insert_mem_def)
      moreover have "mem_count (tv_quota_now env) (refund_op (tv_refund_now env) q (sq_agent_id rq) ?op) c
          = mem_count (tv_quota_now env) (tl_quotas st) c" for c
        using mem_count_refund [OF assms(2), of "tv_quota_now env" "sq_agent_id rq" "payload_bytes env mem" "tv_refund_now env" c]
        by (simp add: q res)
      ultimately show ?thesis by (simp add: store_new_def q res ins Inl store_outcome_def Let_def)
    next
      case (Inr i)
      let ?st = "st\<lparr>tl_db := db, tl_quotas := q\<rparr>"
      have ok: "db_ok (tl_db ?st)" using insert_mem_ok [OF assms(1), of mem] ins by simp
      obtain r st' where r: "after_store env rq mem existing i ?st = (r, st')" by fastforce
      note eff = after_store_effect [OF ok r]
      have "map_option text_of (get (tl_db st') i) = Some (title, sq_namespace rq, sq_content rq)"
        using eff(2) [of i] insert_mem_text [OF assms(1) ins [unfolded Inr]] body by simp
      moreover have "mem_count (tv_quota_now env) (tl_quotas st') c = mem_count (tv_quota_now env) (tl_quotas st) c
          + (if c = sq_agent_id rq then 1 else 0)" for c
        using eff(3) mem_count_admit [OF q, of c] by (simp add: res is_ok_def)
      moreover have "store_new env rq mem existing st = (r, st')" by (simp add: store_new_def q res ins Inr r Let_def)
      moreover have "m_title mem = title" "m_namespace mem = sq_namespace rq" using body by (simp_all add: text_of_def)
      ultimately show ?thesis using eff(1) by (auto simp: store_outcome_def)
    qed
  qed
qed

lemma find_contradictions_member:
  assumes "memories_ok (db_memories db)" "m \<in> set (find_contradictions fts rnk db title ns)"
  shows "get db (m_id m) = Some m"
proof -
  obtain r where r: "r \<in> set (db_memories db)" "m = row_to_memory r"
    using assms(2) by (auto simp: find_contradictions_def Let_def dest!: in_set_takeD)
  then show ?thesis using get_unique [OF assms(1) r(1)] by simp
qed

lemma update_content:
  assumes "memories_ok (db_memories db)" "get db i = Some m" "u_title u = None" "u_namespace u = None" "u_content u = Some c"
    and "update now db i u = (Inr x, db')"
  shows "map_option text_of (get db' i) = Some (m_title m, m_namespace m, c)"
proof -
  obtain r where r: "r \<in> set (db_memories db)" "m_id r = i" "m = row_to_memory r" using assms(2) by (auto dest: get_SomeD)
  have row: "sql_row (\<lambda>x. m_id x = i) (db_memories db) = Some r"
    using assms(1) r(1,2) sql_row_unique [of m_id "db_memories db" r] by (simp add: memories_ok_def)
  have "db' = db\<lparr>db_memories := sql_update (\<lambda>x. m_id x = i) (updated now u) (db_memories db)\<rparr>"
    using update_eq [OF assms(1) r(1,2), of now u] assms(6) by (cases "update_refused now u db r") auto
  then show ?thesis using updated_id.row_update_key [of i now u "db_memories db"] assms(3-5) row r(3)
    by (simp add: get_def text_of_def updated_def)
qed

lemma update_error_same: "update now db i u = (Inl e, db') \<Longrightarrow> db' = db"
  by (auto simp: update_def Let_def split: option.splits if_splits)

lemma merge_existing_outcome:
  assumes "db_ok (tl_db st)" "get (tl_db st) (m_id dup) = Some dup" "m_title dup = title" "m_namespace dup = sq_namespace rq"
    and "sq_on_conflict rq = OnMerge"
  shows "store_outcome env rq title st (merge_existing env (store_memory env rq title) dup st)"
proof -
  define mem where "mem = store_memory env rq title"
  define u where "u = no_update\<lparr>u_content := Some (m_content mem), u_tier := Some (m_tier mem), u_tags := Some (m_tags mem),
     u_priority := Some (m_priority mem), u_confidence := Some (m_confidence mem),
     u_metadata := Some (preserve_agent_id (m_metadata dup) (m_metadata mem))\<rparr>"
  obtain res db where res: "update (tv_db_now env) (tl_db st) (m_id dup) u = (res, db)" by fastforce
  have mo: "memories_ok (db_memories (tl_db st))" using assms(1) by (simp add: db_ok_def)
  show ?thesis
  proof (cases res)
    case (Inl e)
    with res have "merge_existing env mem dup st = (Inl (DbFailed e), st\<lparr>tl_db := db\<rparr>)" "db = tl_db st"
      by (simp_all add: merge_existing_def Let_def u_def [symmetric] update_error_same)
    then show ?thesis by (simp add: mem_def [symmetric] store_outcome_def)
  next
    case (Inr x)
    obtain found changed where x: "x = (found, changed)" by (cases x)
    have c: "map_option text_of (get db (m_id dup)) = Some (title, sq_namespace rq, sq_content rq)"
      using update_content [OF mo assms(2) _ _ _ res [unfolded Inr], of "sq_content rq"] assms(3,4)
      by (simp add: u_def no_update_def mem_def store_memory_def)
    obtain who st' where run: "merge_existing env mem dup st = (Inr (Merged (m_id dup) (m_tier mem) (m_title mem) (m_namespace mem) who), st')"
      and st': "get (tl_db st') (m_id dup) = get db (m_id dup)" "tl_quotas st' = tl_quotas st"
      using res by (simp add: merge_existing_def Let_def u_def [symmetric] Inr x)
    then show ?thesis using c assms(2-5) by (simp add: mem_def [symmetric] store_outcome_def text_of_def)
  qed
qed

lemma store_checked_outcome:
  assumes "db_ok (tl_db st)" "quota_inv (tl_quotas st)"
  shows "store_outcome env rq title st (store_checked env rq (store_memory env rq title) st)"
proof -
  define mem where "mem = store_memory env rq title"
  define existing where "existing = find_contradictions (tv_fts env) (tv_rank env) (tl_db st) (m_title mem) (m_namespace mem)"
  define P where "P = (\<lambda>c :: Memory. m_title c = m_title mem \<and> m_namespace c = m_namespace mem)"
  have names: "m_title mem = title" "m_namespace mem = sq_namespace rq" by (simp_all add: mem_def store_memory_def)
  have run: "store_checked env rq mem st = (case (if sq_on_conflict rq = OnMerge then find P existing else None) of
      Some dup \<Rightarrow> merge_existing env mem dup st | None \<Rightarrow> store_new env rq mem existing st)"
    unfolding store_checked_def Let_def existing_def P_def ..
  show ?thesis
  proof (cases "if sq_on_conflict rq = OnMerge then find P existing else None")
    case None
    with store_new_outcome [OF assms, of env rq title existing] show ?thesis unfolding mem_def [symmetric] run by simp
  next
    case (Some dup)
    then have m: "sq_on_conflict rq = OnMerge" and f: "find P existing = Some dup" by (auto split: if_splits)
    have d: "dup \<in> set existing" "P dup" using find_Some_mem [OF f] by simp_all
    have "get (tl_db st) (m_id dup) = Some dup"
      using find_contradictions_member [of "tl_db st" dup] d(1) assms(1) by (auto simp: existing_def db_ok_def)
    then show ?thesis using merge_existing_outcome [OF assms(1) _ _ _ m, of dup title env] d(2) names
      unfolding mem_def [symmetric] run Some by (simp add: P_def)
  qed
qed

lemma only_queued_gates:
  assumes "store_outcome env rq title st (rest st)"
  shows "store_outcome env rq title st
    (past_gate (permission_gate env st MemoryStore ns who payload, st) (\<lambda>st1.
       past_gate (governance_gate env Store ns who None None payload st1) rest))"
proof -
  let ?gov = "governance_gate env Store ns who None None payload st"
  have "store_outcome env rq title st (past_gate ?gov rest)"
  proof (cases "?gov")
    case (Pair r st1)
    show ?thesis
    proof (cases r)
      case (Inl e)
      then show ?thesis using governance_gate_refused Pair by (fastforce simp: past_gate_def store_outcome_def)
    next
      case r: (Inr x)
      show ?thesis
      proof (cases x)
        case None
        then show ?thesis using governance_gate_passed [of env Store ns who None None payload st st1] Pair r assms
          by (simp add: past_gate_def)
      next
        case (Some reply)
        then have "reply = PendingApproval (tv_pending_id env)" "only_queued st st1"
          using governance_gate_queued governance_gate_only_queued Pair r by blast+
        with Pair r Some show ?thesis by (simp add: past_gate_def store_outcome_def)
      qed
    qed
  qed
  moreover have "\<exists>why. reply = Ask why" if "permission_gate env st MemoryStore ns who payload = Inr (Some reply)" for reply
    using that by (auto simp: permission_gate_def split: PermDecision.splits)
  ultimately show ?thesis
    by (cases "permission_gate env st MemoryStore ns who payload" rule: gate_cases) (auto simp: store_outcome_def)
qed

section \<open>Properties\<close>

text \<open>C4: A store does what its answer says. When it reports a stored memory, that id carries exactly the requested title,
  namespace and content and today's count of the author went up by one and nobody else's changed; when it reports a merge,
  the memory of that title has the new content and nothing was charged; when it asks or queues, at most the queue of pending
  actions grew; and when it fails, store and index are as they were and no count has changed.\<close>

theorem store_tool_contract:
  assumes "db_ok (tl_db st)" "quota_inv (tl_quotas st)" "parse_store env params = Inr rq" "resolve_title (tl_db st) rq = Inr title"
  shows "store_outcome env rq title st (handle_store env params st)"
proof -
  have "handle_store env params st =
      past_gate (permission_gate env st MemoryStore (sq_namespace rq) (sq_agent_id rq) (tv_mem_json env (store_memory env rq title)), st)
        (\<lambda>st1. past_gate (governance_gate env Store (sq_namespace rq) (sq_agent_id rq) None None
             (tv_mem_json env (store_memory env rq title)) st1)
           (store_checked env rq (store_memory env rq title)))"
    using assms(3,4) by (simp add: handle_store_def Let_def store_memory_def)
  moreover note store_checked_outcome [OF assms(1,2), of env rq title]
  ultimately show ?thesis by (simp add: only_queued_gates)
qed

text \<open>C5: Nothing is written past a gate that did not pass. When a store, a deletion, a link, a consolidation or a purge of the
  archive leaves more behind than a queued action, its permission check allowed exactly this operation, and for stores and
  deletions the governance policy in force allowed it too.\<close>

theorem tool_writes_authorised:
  "(\<not> only_queued st (snd (handle_store env params st)) \<longrightarrow>
      (\<exists>rq title. parse_store env params = Inr rq \<and> resolve_title (tl_db st) rq = Inr title
        \<and> permitted env st MemoryStore (sq_namespace rq) (sq_agent_id rq) (tv_mem_json env (store_memory env rq title))
        \<and> governed env st Store (sq_namespace rq) (sq_agent_id rq) None None (tv_mem_json env (store_memory env rq title))))
   \<and> (\<not> only_queued st (snd (handle_delete env params st)) \<longrightarrow>
      (\<exists>i target who. require_id params ''id'' = Inr i \<and> find_target (tl_db st) i = Inr target
        \<and> caller env params (tv_client env) = Inr who
        \<and> permitted env st MemoryDelete (m_namespace target) who
            (JObj [(''id'', JStr (m_id target)), (''title'', JStr (m_title target))])
        \<and> governed env st Delete (m_namespace target) who (Some (m_id target)) (owner_of target)
            (JObj [(''id'', JStr (m_id target)), (''title'', JStr (m_title target))])))
   \<and> (\<not> only_queued st (snd (handle_link env params st)) \<longrightarrow>
      (\<exists>s t rel who. parse_link env params = Inr (s, t, rel, who)
        \<and> permitted env st MemoryLink (link_namespace (tl_db st) s) who
            (JObj [(''source_id'', JStr s), (''target_id'', JStr t), (''relation'', JStr rel)])))
   \<and> (\<not> only_queued st (snd (handle_consolidate env params st)) \<longrightarrow>
      (\<exists>ids title summary ns who. parse_consolidate env params (tl_db st) = Inr (ids, title, summary, ns, who)
        \<and> permitted env st MemoryConsolidate ns who
            (JObj [(''title'', JStr title), (''summary_chars'', JInt (int (length summary))), (''source_ids'', JArr (map JStr ids))])))
   \<and> (\<not> only_queued st (snd (handle_archive_purge env params st)) \<longrightarrow>
      (\<exists>who. caller env params None = Inr who \<and> permitted env st MemoryArchive ''global'' who
        (JObj [(''older_than_days'', case param_i64 params ''older_than_days'' of None \<Rightarrow> JNull | Some d \<Rightarrow> JInt d)])))"
  using gated_store gated_delete gated_link gated_consolidate gated_purge by blast

text \<open>The tools refine the store and the index. Any sequence of calls acts on the database as a sequence of store operations
  and on the vector index as a sequence of index operations, so a reachable store stays reachable and well formed, decided
  actions stay decided, and the index keeps its invariant.\<close>

theorem tool_calls_refine_store:
  assumes "tool_step\<^sup>*\<^sup>* st st'"
  shows "local_step\<^sup>*\<^sup>* (tl_db st) (tl_db st') \<and> rel_option index_step\<^sup>*\<^sup>* (tl_index st) (tl_index st')
    \<and> (reachable (tl_db st) \<longrightarrow> reachable (tl_db st') \<and> db_ok (tl_db st') \<and> decided_kept (tl_db st) (tl_db st'))
    \<and> (\<forall>ix. tl_index st = Some ix \<and> index_inv ix \<longrightarrow> (\<exists>ix'. tl_index st' = Some ix' \<and> index_inv ix'))"
proof -
  have steps: "local_step\<^sup>*\<^sup>* (tl_db st) (tl_db st')" "rel_option index_step\<^sup>*\<^sup>* (tl_index st) (tl_index st')"
    using tool_steps_refine [OF assms] by (simp_all add: tools_refine_def)
  have "reachable (tl_db st')" if "reachable (tl_db st)"
    using steps(1) that by (induction rule: rtranclp_induct) (auto intro: reachable.local)
  moreover have "index_inv ix'" if "index_step\<^sup>*\<^sup>* ix ix'" "index_inv ix" for ix ix' :: "embedding IndexState"
    using that by (induction rule: rtranclp_induct) (auto intro: index_step_inv)
  ultimately show ?thesis
    using steps local_steps_kept [OF steps(1)] reachable_ok by (cases "tl_index st"; cases "tl_index st'") auto
qed

section \<open>A server\<close>

definition ex_tool_env :: "str \<Rightarrow> tool_env" where
  "ex_tool_env who =
     \<lparr>tv_process = \<lparr>en_agent_id = Some who, en_anonymize = None, en_hostname = ''h'', en_pid = 1, en_uuid = ''u''\<rparr>,
      tv_client = None, tv_rules = [], tv_mode = Off, tv_policy = (\<lambda>_. Inl ''no''), tv_policy_json = (\<lambda>_. JNull),
      tv_ser = (\<lambda>_. []), tv_mem_json = (\<lambda>_. JNull), tv_mem_of = (\<lambda>_. Inl ''no''), tv_rfc3339 = (\<lambda>_. None),
      tv_ttl = resolved_ttl_default, tv_now = ''2026-01-02'', tv_later = (\<lambda>_. ''2026-01-09''), tv_db_now = ''2026-01-02'',
      tv_quota_now = ''2026-01-02'', tv_refund_now = ''2026-01-02'', tv_nanos = 1, tv_uuid = ''n1'', tv_pending_id = ''p1'',
      tv_minus_days = (\<lambda>s _. s), tv_fts = (\<lambda>_ _. True), tv_rank = (\<lambda>_ _. 0), tv_embedder = None, tv_llm = None,
      tv_autonomous = False, tv_archive = True, tv_crypto = ex_crypto, tv_keypair = None\<rparr>"

definition ex_tools :: tool_state where
  "ex_tools = \<lparr>tl_db = ex_db, tl_quotas = [], tl_index = Some (index_empty 0 0), tl_remembered = [], tl_events = []\<rparr>"

definition ex_store_params :: json where
  "ex_store_params = JObj [(''title'', JStr ''c''), (''content'', JStr ''text''), (''namespace'', JStr ''g'')]"

definition ex_request :: store_request where
  "ex_request = \<lparr>sq_title = ''c'', sq_content = ''text'', sq_tier = Mid, sq_namespace = ''g'', sq_source = ''claude'',
     sq_on_conflict = OnMerge, sq_priority = 5, sq_confidence = Fin 1, sq_tags = [],
     sq_metadata = [(''agent_id'', JStr ''eve'')], sq_agent_id = ''eve'', sq_scope = None\<rparr>"

lemma ex_checks:
  "validate_title ''c'' = Inr ()" "validate_namespace ''g'' = Inr ()" "validate_source ''claude'' = Inr ()"
  "validate_tags [] = Inr ()" "resolve_agent_id (tv_process (ex_tool_env ''eve'')) None None = Inr ''eve''"
  "validate_id ''m1'' = Inr ()"
  by code_simp+

lemma ex_content: "validate_content ''text'' = Inr ()"
proof -
  have "trim ''text'' \<noteq> []" "is_clean_string ''text''" by code_simp+
  then show ?thesis by (simp add: validate_content_def MAX_CONTENT_SIZE_def)
qed

lemma ex_numbers: "validate_priority 5 = Inr ()" "validate_confidence (Fin 1) = Inr ()"
  by (simp_all add: validate_priority_def validate_confidence_def)

lemma ex_request_parsed: "parse_store (ex_tool_env ''eve'') ex_store_params = Inr ex_request"
  using ex_checks ex_content ex_numbers
  by (simp add: parse_store_def store_metadata_def require_def param_str_def param_i64_def param_f64_def param_strs_def
      ex_store_params_def json_get_def json_str_def unwrap_or_def tier_from_str_def to_i32_def checked_def check_opt_def
      default_on_conflict_for_client_def validate_metadata_def is_object_def MAX_METADATA_DEPTH_def ex_request_def
      ex_tool_env_def)

lemma ex_db_rows:
  "db_memories ex_db = [row_of (ex_note ''m1'' ''a'' Mid ''alice''), row_of (ex_note ''m2'' ''b'' Long ''bob'')]"
  "db_namespace_meta ex_db = []" "db_links ex_db = []"
  by (simp_all add: ex_db_def insert_mem_def sql_upsert_def empty_db_def ex_note_def sql_row_def row_of_def)

theorem store_tool_contract_witness:
  "store_outcome (ex_tool_env ''eve'') ex_request ''c'' ex_tools (handle_store (ex_tool_env ''eve'') ex_store_params ex_tools)"
proof (rule store_tool_contract [OF _ _ ex_request_parsed])
  show "db_ok (tl_db ex_tools)" by (simp add: ex_tools_def ex_db_ok)
  show "quota_inv (tl_quotas ex_tools)" by (simp add: ex_tools_def quota_inv_def unique_key_def)
  show "resolve_title (tl_db ex_tools) ex_request = Inr ''c''" by (simp add: resolve_title_def ex_request_def)
qed

theorem tool_writes_authorised_witness:
  "\<exists>i target who. require_id (JObj [(''id'', JStr ''m1'')]) ''id'' = Inr i \<and> find_target (tl_db ex_tools) i = Inr target
    \<and> caller (ex_tool_env ''eve'') (JObj [(''id'', JStr ''m1'')]) (tv_client (ex_tool_env ''eve'')) = Inr who
    \<and> permitted (ex_tool_env ''eve'') ex_tools MemoryDelete (m_namespace target) who
        (JObj [(''id'', JStr (m_id target)), (''title'', JStr (m_title target))])"
proof -
  let ?env = "ex_tool_env ''eve''" and ?params = "JObj [(''id'', JStr ''m1'')]"
  have found: "find_target ex_db ''m1'' = Inr (ex_note ''m1'' ''a'' Mid ''alice'')"
    by (simp add: find_target_def get_def ex_db_rows sql_row_def row_of_def row_to_memory_def ex_note_def)
  have perm: "permission_gate ?env ex_tools oper ns who payload = Inr None" for oper ns who payload
    by (simp add: permission_gate_def evaluate_def evaluate_with.simps ex_tool_env_def)
  have gov: "governance_gate ?env act ns who mid own payload ex_tools = (Inr None, ex_tools)" for act ns who mid own payload
    by (simp add: governance_gate_def enforce_governance_def ex_tool_env_def)
  have db: "tl_db ex_tools = ex_db" by (simp add: ex_tools_def)
  have id: "require_id ?params ''id'' = Inr ''m1''"
    using ex_checks(6) by (simp add: require_id_def require_def param_str_def json_get_def json_str_def checked_def)
  have who: "caller ?env ?params (tv_client ?env) = Inr ''eve''"
    using ex_checks(5) by (simp add: caller_def param_str_def json_get_def checked_def ex_tool_env_def)
  have run: "handle_delete ?env ?params ex_tools = delete_checked ?env (ex_note ''m1'' ''a'' Mid ''alice'') ex_tools"
    using found by (simp add: handle_delete_def id who Let_def perm gov db)
  have "db_memories (snd (delete ex_db ''m1'')) = [row_of (ex_note ''m2'' ''b'' Long ''bob'')]" "fst (delete ex_db ''m1'')"
    by (simp_all add: delete_def Let_def delete_memories_def ex_db_rows sql_delete_def sql_count_def row_of_def ex_note_def)
  then have "db_memories (tl_db (snd (handle_delete ?env ?params ex_tools))) = [row_of (ex_note ''m2'' ''b'' Long ''bob'')]"
    unfolding run delete_checked_def by (cases "delete ex_db ''m1''") (simp add: ex_tools_def ex_note_def)
  then have "db_memories ((tl_db (snd (handle_delete ?env ?params ex_tools)))\<lparr>db_pending := []\<rparr>)
      \<noteq> db_memories ((tl_db ex_tools)\<lparr>db_pending := []\<rparr>)"
    by (simp add: ex_tools_def ex_db_rows)
  then have "\<not> only_queued ex_tools (snd (handle_delete ?env ?params ex_tools))" unfolding only_queued_def by metis
  with tool_writes_authorised [of ex_tools ?env ?params] show ?thesis by blast
qed

theorem tool_calls_refine_store_witness:
  "reachable (tl_db (snd (handle_delete (ex_tool_env ''eve'') (JObj [(''id'', JStr ''m1'')]) ex_tools)))"
proof -
  have "tool_step\<^sup>*\<^sup>* ex_tools (snd (handle_delete (ex_tool_env ''eve'') (JObj [(''id'', JStr ''m1'')]) ex_tools))"
    by (rule r_into_rtranclp) (rule call_delete)
  from tool_calls_refine_store [OF this] show ?thesis using ex_db_reachable by (simp add: ex_tools_def)
qed

section \<open>Where the handlers fall short\<close>

text \<open>An unknown tier is dropped instead of refused, so that \<open>memory_forget\<close> deletes every tier of the namespace.\<close>

lemma forget_ignores_bad_tier:
  assumes "tier_from_str t = None"
  shows "handle_forget env (JObj [(''namespace'', JStr ns), (''tier'', JStr t)]) st
    = handle_forget env (JObj [(''namespace'', JStr ns)]) st"
  using assms by (simp add: handle_forget_def param_str_def param_bool_def json_get_def json_str_def)

text \<open>
  The sources of a consolidation leave the vector index before it is known whether the consolidation succeeds: when it fails,
  the memories stay and can no longer be found by their embeddings.
\<close>

lemma failed_consolidation_loses_index:
  assumes "consolidate (tv_ser env) (tv_uuid env) (tv_db_now env) (tl_db st) ids title summary ns Long ''consolidation'' who
    = (Inl e, db)"
  shows "consolidate_checked env params ids title summary ns who st
    = (Inl (DbFailed e), st\<lparr>tl_db := db, tl_index := remove_all ids (tl_index st)\<rparr>)"
  using assms by (simp add: consolidate_checked_def Let_def)

text \<open>
  The warning that a consolidated memory was a namespace standard is computed after the deletion, which has already cleared
  the standard: the list it names is always empty.
\<close>

lemma delete_standards:
  "nm \<in> set (db_namespace_meta (fold (\<lambda>i d. snd (delete d i)) ids db)) \<Longrightarrow>
     nm \<in> set (db_namespace_meta db) \<and> nm_standard_id nm \<notin> set ids"
proof (induction ids arbitrary: db)
  case (Cons i ids)
  from Cons.IH [of "snd (delete db i)"] Cons.prems show ?case
    by (auto simp: delete_def Let_def sql_delete_def)
qed simp

lemma consolidate_clears_standards:
  assumes "consolidate ser new_id now db ids title summary ns tier source who = (Inr i, db')"
  shows "nm \<in> set (db_namespace_meta db') \<Longrightarrow> nm_standard_id nm \<notin> set ids"
  using assms delete_standards by (fastforce simp: consolidate_def Let_def split: sum.splits if_splits)

lemma set_embedding_standards [simp]: "db_namespace_meta (snd (set_embedding db i v)) = db_namespace_meta db"
  by (auto simp: set_embedding_def Let_def split: option.split)

lemma embed_memory_standards [simp]:
  "db_namespace_meta (tl_db (embed_memory env replace i body st)) = db_namespace_meta (tl_db st)"
  by (auto simp: embed_memory_def split: option.split)

lemma standard_warning_never_shown:
  assumes "fst (consolidate_checked env params ids title summary ns who st) = Inr (Consolidated i n s standards)"
  shows "standards = []"
proof (cases "consolidate (tv_ser env) (tv_uuid env) (tv_db_now env) (tl_db st) ids title summary ns Long ''consolidation'' who")
  case (Pair r db)
  with assms obtain j where r: "r = Inr j" by (cases r) (auto simp: consolidate_checked_def Let_def)
  from consolidate_clears_standards [OF Pair [unfolded r]]
  have "\<not> is_namespace_standard d k" if "k \<in> set ids" "db_namespace_meta d = db_namespace_meta db" for d k
    using that by (auto simp: is_namespace_standard_def sql_count_def filter_empty_conv)
  then show ?thesis using assms unfolding consolidate_checked_def Let_def
    by (auto simp: Pair r filter_empty_conv split: option.splits)
qed

text \<open>
  Storing over a memory that has expired but is not yet collected updates it in place and keeps its expiry: the answer
  reports an updated memory, and the next collection deletes the new content.
\<close>

lemma merge_keeps_expiry:
  assumes "db_ok (tl_db st)" "get (tl_db st) (m_id dup) = Some dup" "merge_existing env mem dup st = (Inr reply, st')"
  shows "map_option m_expires_at (get (tl_db st') (m_id dup)) = Some (m_expires_at dup)"
proof -
  have mo: "memories_ok (db_memories (tl_db st))" using assms(1) by (simp add: db_ok_def)
  obtain r where r: "r \<in> set (db_memories (tl_db st))" "m_id r = m_id dup" "dup = row_to_memory r"
    using assms(2) by (auto dest: get_SomeD)
  have row: "sql_row (\<lambda>x. m_id x = m_id dup) (db_memories (tl_db st)) = Some r"
    using mo r(1,2) sql_row_unique [of m_id "db_memories (tl_db st)" r] by (simp add: memories_ok_def)
  have keeps: "map_option m_expires_at (get db' (m_id dup)) = Some (m_expires_at dup)"
    if "update now (tl_db st) (m_id dup) u = (Inr x, db')" "u_expires_at u = None" for now u x db'
  proof -
    have "db' = (tl_db st)\<lparr>db_memories := sql_update (\<lambda>x. m_id x = m_id dup) (updated now u) (db_memories (tl_db st))\<rparr>"
      using update_eq [OF mo r(1,2), of now u] that(1) by (cases "update_refused now u (tl_db st) r") auto
    then show ?thesis using updated_id.row_update_key [of "m_id dup" now u "db_memories (tl_db st)"] row r(3) that(2)
      by (simp add: get_def updated_def update_expires_def)
  qed
  show ?thesis using assms(3) keeps unfolding merge_existing_def Let_def
    by (auto simp: no_update_def split: prod.splits sum.splits if_splits)
qed

text \<open>
  A message is stored as a memory, and a memory of the same title is merged: a second message with the title of the first
  replaces its text and keeps the first sender.
\<close>

lemma notify_merges_messages:
  assumes "m_id old \<noteq> i" "m_confidence old \<noteq> NaN" "m_namespace old = messages_namespace_for target" "m_title old = title"
    and "sql_json_extract (m_metadata old) ''agent_id'' = Some (JStr first_sender)"
    and "db_memories db = [row_of old]"
  shows "\<exists>m. get (snd (insert_mem db (notify_memory env target title payload p tier sender))) (m_id old) = Some m
    \<and> m_content m = payload \<and> sql_json_extract (m_metadata m) ''agent_id'' = Some (JStr first_sender)"
proof -
  let ?new = "notify_memory env target title payload p tier sender"
  have row: "sql_row (\<lambda>r. m_title r = m_title ?new \<and> m_namespace r = m_namespace ?new) (db_memories db) = Some (row_of old)"
    using assms(3,4,6) by (simp add: sql_row_def notify_memory_def row_of_def)
  have "insert_mem db ?new = (Inr (m_id old), db\<lparr>db_memories := [merge_insert (row_of old) ?new]\<rparr>)"
    using row assms(3,4,6) by (simp add: insert_mem_def sql_upsert_def sql_update_def notify_memory_def row_of_def)
  moreover have "sql_json_extract (keep_agent_id (m_metadata old) (m_metadata ?new)) ''agent_id'' = Some (JStr first_sender)"
    by (rule keep_agent_id_extract [OF assms(5)]) (simp add: is_object_def notify_memory_def)
  ultimately show ?thesis by (simp add: get_def sql_row_def merge_insert_def row_of_def notify_memory_def)
qed

text \<open>An agent id that passes validation and has no acceptable inbox.\<close>

lemma agent_without_inbox:
  "validate_agent_id ''a//b'' = Inr () \<and> validate_namespace (messages_namespace_for ''a//b'') \<noteq> Inr ()"
  by code_simp

end
