(* ===== verification/Http_Safety.thy ===== *)
theory Http_Safety
  imports Http Tool_Safety
begin

text \<open>
  What the HTTP API guarantees: the key and the signature check, the contract of creating a memory, what a successful answer
  says about the peers, and that handlers act on the store and the index only through their operations. The last section
  shows where handlers do less than they are meant to.
\<close>

unbundle bit_operations_syntax

section \<open>The API key\<close>

lemma fold_diff: "fold (\<lambda>(x, y) diff. diff OR (x XOR y)) ps d = 0 \<longleftrightarrow> d = 0 \<and> (\<forall>(x, y) \<in> set ps. x = y)" for d :: "'a::len word"
proof (induction ps arbitrary: d)
  case (Cons p ps)
  obtain x y where p: "p = (x, y)" by (cases p)
  have "d OR (x XOR y) = 0 \<longleftrightarrow> d = 0 \<and> x = y"
    by (auto simp: bit_eq_iff bit_or_iff bit_xor_iff)
  with Cons p show ?case by auto
qed simp

lemma constant_time_eq_iff: "constant_time_eq a b = (a = b)"
proof -
  have "(\<forall>(x, y) \<in> set (zip a b). x = y) \<longleftrightarrow> a = b" if "length a = length b"
    using that by (auto simp: set_zip list_eq_iff_nth_eq)
  then show ?thesis by (auto simp: constant_time_eq_def fold_diff)
qed

text \<open>C10: With a key configured, exactly the requests to the health endpoint and those that present the key, in the header or
  percent-encoded as a query parameter, get past the check; without a key all do.\<close>

theorem api_key_auth_exact:
  "api_key_auth key req = (case key of
      None \<Rightarrow> True
    | Some k \<Rightarrow> rq_path req = ''/api/v1/health'' \<or> rq_api_key req = Some k
        \<or> (\<exists>query v. rq_query req = Some query \<and> ''api_key='' @ v \<in> set (split_on CHR ''&'' query) \<and> percent_decode_lossy v = k))"
proof (cases key)
  case (Some k)
  have "list_ex (\<lambda>pair. starts_with pair ''api_key='' \<and> percent_decode_lossy (drop 8 pair) = k) pairs
      \<longleftrightarrow> (\<exists>v. ''api_key='' @ v \<in> set pairs \<and> percent_decode_lossy v = k)" for pairs
  proof
    assume "list_ex (\<lambda>pair. starts_with pair ''api_key='' \<and> percent_decode_lossy (drop 8 pair) = k) pairs"
    then obtain pair where p: "pair \<in> set pairs" "starts_with pair ''api_key=''" "percent_decode_lossy (drop 8 pair) = k"
      by (auto simp: list_ex_iff)
    then have "pair = ''api_key='' @ drop 8 pair" by (auto simp: starts_with_def prefix_def)
    with p show "\<exists>v. ''api_key='' @ v \<in> set pairs \<and> percent_decode_lossy v = k" by metis
  next
    assume "\<exists>v. ''api_key='' @ v \<in> set pairs \<and> percent_decode_lossy v = k"
    then obtain v where "''api_key='' @ v \<in> set pairs" "percent_decode_lossy v = k" by blast
    then show "list_ex (\<lambda>pair. starts_with pair ''api_key='' \<and> percent_decode_lossy (drop 8 pair) = k) pairs"
      unfolding list_ex_iff by (intro bexI [of _ "''api_key='' @ v"]) (simp_all add: starts_with_def)
  qed
  then show ?thesis using Some
    by (auto simp: api_key_auth_def constant_time_eq_iff split: option.split)
qed (simp add: api_key_auth_def)

section \<open>Handlers as sequences of operations\<close>

lemma respond_refine [simp]: "tools_refine st (snd (respond status body st')) = tools_refine st st'"
  "tools_refine st (snd (fail_with status e st')) = tools_refine st st'"
  by (simp_all add: respond_def fail_with_def)

lemma with_quorum_refine:
  "tools_refine st st' \<Longrightarrow> (\<And>acks. tools_refine st (snd (ok acks))) \<Longrightarrow> tools_refine st (snd (with_quorum env k b st' ok))"
  by (simp add: with_quorum_def split: option.split sum.split)

lemma fanout_refine:
  "tools_refine st st' \<Longrightarrow> tools_refine st (snd ok) \<Longrightarrow> tools_refine st (snd (fanout_or_503 env k mem st' ok))"
  by (auto simp: fanout_or_503_def intro!: with_quorum_refine split: option.split)

lemma http_governed_refine:
  assumes "\<And>st'. tools_refine st' (snd (rest st'))"
  shows "tools_refine st (snd (http_governed env act ns who mid own payload label st rest))"
proof -
  have step: "tools_refine st (st\<lparr>tl_db := db\<rparr>)"
    if "enforce_governance mode fv i now (tl_db st) act ns who mid own payload = (r, db)" for mode fv i now r db
    by (rule tools_refine_eq [OF that step_enforce])
  show ?thesis unfolding http_governed_def Let_def
    by (auto split: prod.split sum.split GovernanceDecision.split option.split
        intro: step tools_refine_trans [OF step assms] intro!: with_quorum_refine)
qed

lemma http_insert_refine: "tools_refine st (snd (http_insert env body mem st))"
proof -
  have "tools_refine st (embed_memory tv False i words (st\<lparr>tl_db := db\<rparr>))" "tools_refine st (st\<lparr>tl_db := db\<rparr>)"
    if "insert_mem (tl_db st) mem = (r, db)" for r db tv i words
    using tools_refine_eq [OF that step_insert] by (auto intro: tools_refine_trans [OF _ embed_memory_refine])
  then show ?thesis unfolding http_insert_def Let_def
    by (auto split: prod.split sum.split intro!: with_quorum_refine)
qed

lemma http_create_refine: "tools_refine st (snd (http_create_memory env body st))"
  unfolding http_create_memory_def Let_def
  by (auto split: sum.split prod.split intro!: http_governed_refine http_insert_refine)

lemma http_register_refine: "tools_refine st (snd (http_register_agent env who ty caps st))"
  unfolding http_register_agent_def Let_def
  by (auto split: sum.split prod.split intro!: fanout_refine intro: tools_refine_eq [OF _ step_agent])

lemma approve_execute_refine:
  assumes "approve_with_approver_type fv now (tl_db st) i who = (x, db)" "execute_pending_action mv j now' db i = (y, db2)"
  shows "tools_refine st (st\<lparr>tl_db := db2\<rparr>)"
proof (rule tools_refine_db)
  have "local_step (tl_db st) db" using step_approve [of "tl_db st" fv now i who] assms(1) by simp
  moreover have "local_step db db2" using step_execute [of db mv j now' i] assms(2) by simp
  ultimately show "local_step\<^sup>*\<^sup>* (tl_db st) db2" by auto
qed

lemma http_approve_refine: "tools_refine st (snd (http_approve_pending env i st))"
  unfolding http_approve_pending_def Let_def
  by (auto split: sum.split prod.split ApproveOutcome.split intro!: with_quorum_refine fanout_refine
      intro: tools_refine_eq [OF _ step_approve] approve_execute_refine)

lemma http_reject_refine: "tools_refine st (snd (http_reject_pending env i st))"
  unfolding http_reject_pending_def Let_def
  by (auto split: sum.split prod.split intro!: with_quorum_refine intro: tools_refine_eq [OF _ step_decide])

lemma http_target_refine:
  "(\<And>m. tools_refine st (snd (rest m))) \<Longrightarrow> tools_refine st (snd (http_target i st rest))"
  by (auto simp: http_target_def split: sum.split option.split DbError.split)

lemma update_failed_refine [simp]: "tools_refine st (snd (http_update_failed e st')) = tools_refine st st'"
  by (simp add: http_update_failed_def split: DbError.split)

lemma http_updated_refine: "tools_refine st (snd (http_updated env body i st))"
  unfolding http_updated_def Let_def by (auto split: option.split intro!: fanout_refine embed_memory_refine)

lemma http_update_refine: "tools_refine st (snd (http_update_memory env i body st))"
  unfolding http_update_memory_def Let_def
  by (auto split: sum.split prod.split intro!: http_target_refine update_then tools_refine_trans [OF update_then http_updated_refine])

lemma http_delete_refine: "tools_refine st (snd (http_delete_memory env i st))"
proof -
  have "tools_refine st' (snd (http_delete_checked env target st'))" for st' target
    unfolding http_delete_checked_def Let_def
    by (auto split: prod.split intro!: with_quorum_refine intro: tools_refine_eq [OF _ step_delete])
  then show ?thesis unfolding http_delete_memory_def
    by (auto split: sum.split intro!: http_target_refine http_governed_refine)
qed

lemma http_promote_refine: "tools_refine st (snd (http_promote_memory env i st))"
proof -
  have clear: "tools_refine st' (st'\<lparr>tl_db := clear_expiry db j\<rparr>)"
    if "update now (tl_db st') j u = (r, db)" for st' now j u r db
  proof (rule tools_refine_db)
    have "local_step (tl_db st') db" using step_update [of "tl_db st'" now j u] that by simp
    then show "local_step\<^sup>*\<^sup>* (tl_db st') (clear_expiry db j)" using step_expiry [of db j] by auto
  qed
  have "tools_refine st' (snd (http_promote_checked env target st'))" for st' target
    unfolding http_promote_checked_def Let_def promote_dispatch_def
    by (auto split: prod.split sum.split intro!: fanout_refine intro: update_then clear)
  then show ?thesis unfolding http_promote_memory_def
    by (auto split: sum.split intro!: http_target_refine http_governed_refine)
qed

lemma http_forget_refine: "tools_refine st (snd (http_forget_memories env ns pattern tier st))"
  unfolding http_forget_memories_def by (auto split: prod.split sum.split intro: tools_refine_eq [OF _ step_forget])

lemma http_gc_refine: "tools_refine st (snd (http_run_gc env st))"
  unfolding http_run_gc_def by (auto split: prod.split intro: tools_refine_eq [OF _ step_gc])

lemma http_link_refine: "tools_refine st (snd (http_create_link env s t rel st))"
  unfolding http_create_link_def Let_def
  by (auto split: sum.split prod.split intro!: with_quorum_refine intro: tools_refine_eq [OF _ step_link])

lemma http_unlink_refine: "tools_refine st (snd (http_delete_link s t rel st))"
  unfolding http_delete_link_def by (auto split: sum.split prod.split intro: tools_refine_eq [OF _ step_unlink])

lemma http_consolidate_refine: "tools_refine st (snd (http_consolidate_memories env ids title summary ns tier who st))"
  unfolding http_consolidate_memories_def Let_def
  by (auto split: sum.split prod.split option.split intro!: with_quorum_refine intro: tools_refine_eq [OF _ step_consolidate])

text \<open>Handlers that work through a list, one store operation per item.\<close>

lemma fold_steps:
  assumes "\<And>x acc. local_step\<^sup>*\<^sup>* (g acc) (g (f x acc))"
  shows "local_step\<^sup>*\<^sup>* (g acc) (g (fold f xs acc))"
  by (induction xs arbitrary: acc) (auto intro: rtranclp_trans [OF assms])

lemma insert_steps: "insert_mem db mem = (r, db') \<Longrightarrow> local_step\<^sup>*\<^sup>* db db'"
  using step_insert [of db mem] by auto

lemma http_import_refine: "tools_refine st (snd (http_import_memories env memories links st))"
proof -
  have mems: "local_step\<^sup>*\<^sup>* (snd (snd acc)) (snd (snd (fold (import_memory env) memories acc)))" for acc
    by (rule fold_steps [where g = "snd \<circ> snd", simplified])
      (auto simp: import_memory.simps split: sum.split prod.split intro: insert_steps)
  have links: "local_step\<^sup>*\<^sup>* db (fold (import_link env) ls db)" for ls db
    using step_link [of _ no_crypto]
    by (intro fold_steps [where g = id, simplified]) (auto simp: import_link_def create_link_def split: prod.split sum.split intro: r_into_rtranclp)
  show ?thesis
  proof (cases "length memories > MAX_BULK_SIZE")
    case False
    obtain n errors db where run: "fold (import_memory env) memories (0, [], tl_db st) = (n, errors, db)" by (rule prod_cases3)
    with mems [of "(0, [], tl_db st)"] links have "local_step\<^sup>*\<^sup>* (tl_db st) (fold (import_link env) (unwrap_or [] links) db)"
      by (auto intro: rtranclp_trans)
    then show ?thesis using False run by (simp add: http_import_memories_def tools_refine_db)
  qed (simp add: http_import_memories_def)
qed

lemma http_bulk_refine: "tools_refine st (snd (http_bulk_create env bodies st))"
proof -
  have item: "local_step\<^sup>*\<^sup>* (snd (snd acc)) (snd (snd (bulk_item env x acc)))" for x acc
    by (cases x; cases acc) (auto simp: Let_def split: sum.split prod.split intro: insert_steps)
  have "local_step\<^sup>*\<^sup>* (snd (snd acc)) (snd (snd (fold (bulk_item env) items acc)))" for items acc
    by (rule fold_steps [where g = "snd \<circ> snd", simplified]) (metis item snd_conv)
  from this [of "([], [], tl_db st)" "enumerate 0 bodies"] show ?thesis
    by (auto simp: http_bulk_create_def split: prod.split intro!: tools_refine_db)
qed

lemma http_restore_refine: "tools_refine st (snd (http_restore_archive env i st))"
  unfolding http_restore_archive_def Let_def
  by (auto split: sum.split prod.split intro!: with_quorum_refine intro: tools_refine_eq [OF _ step_restore])

lemma http_purge_refine: "tools_refine st (snd (http_purge_archive env days st))"
  unfolding http_purge_archive_def by (auto split: prod.split sum.split intro: tools_refine_eq [OF _ step_purge])

lemma archive_each_refine: "tools_refine st (snd (archive_each env k reason archived missing ids st))"
proof (induction env k reason archived missing ids st rule: archive_each.induct)
  case (2 env k reason archived missing i ids st)
  obtain moved db where a: "archive_memory (tv_db_now (hv_tool env)) (tl_db st) i (Some reason) = (moved, db)" by (rule prod.exhaust)
  then have "tools_refine st (st\<lparr>tl_db := db\<rparr>)" by (rule tools_refine_eq [OF _ step_archive])
  then show ?case using 2 a by (auto simp: Let_def intro!: with_quorum_refine intro: tools_refine_trans)
qed simp

lemma http_archive_refine: "tools_refine st (snd (http_archive_by_ids env ids reason st))"
  unfolding http_archive_by_ids_def by (auto split: sum.split intro: archive_each_refine)

lemma http_notify_refine: "tools_refine st (snd (http_notify env body st))"
proof -
  have "tools_refine st st1" if "handle_notify tv params st = (r, st1)" for tv params r st1
    using notify_refine [of st tv params] that by simp
  then show ?thesis unfolding http_notify_def
    by (auto split: option.split sum.split prod.split intro!: fanout_refine)
qed

lemma set_standard_http_refine: "tools_refine st (snd (set_namespace_standard_inner env ns body st))"
proof -
  have mem: "tools_refine st (st\<lparr>tl_db := db\<rparr>)" if "standard_memory env ns i (tl_db st) = (r, db)" for i r db
    using that by (auto simp: standard_memory_def split: option.splits list.splits intro: tools_refine_eq [OF _ step_insert])
  have "tools_refine st st1"
    if "standard_memory env ns i (tl_db st) = (r, db)" "handle_namespace_set_standard tv params (st\<lparr>tl_db := db\<rparr>) = (x, st1)"
    for i r db tv params x st1
    using tools_refine_trans [OF mem [OF that(1)] set_standard_refine [of "st\<lparr>tl_db := db\<rparr>" tv params]] that(2) by simp
  with mem show ?thesis unfolding set_namespace_standard_inner_def Let_def
    by (auto split: sum.split prod.split option.split intro!: fanout_refine with_quorum_refine)
qed

lemma clear_standard_http_refine: "tools_refine st (snd (clear_namespace_standard_inner env ns st))"
proof -
  have "tools_refine st st1" if "handle_namespace_clear_standard tv params st = (r, st1)" for tv params r st1
    using clear_standard_refine [of st tv params] that by simp
  then show ?thesis unfolding clear_namespace_standard_inner_def
    by (auto split: sum.split prod.split intro!: with_quorum_refine)
qed

lemma publish_refine [simp]: "tools_refine st (publish_decision env i who choice r snap st') = tools_refine st st'"
  by (auto simp: publish_decision_def Let_def split: option.split Remember.split)

lemma approval_decide_refine: "tools_refine st (snd (approval_decide env av i body st))"
  unfolding approval_decide_def Let_def
  by (auto split: option.split sum.split prod.split ApprovalChoice.split ApproveOutcome.split
      intro: tools_refine_eq [OF _ step_approve] approve_execute_refine tools_refine_eq [OF _ step_decide])

lemmas http_refines = http_create_refine http_register_refine http_approve_refine http_reject_refine http_update_refine
  http_delete_refine http_promote_refine http_forget_refine http_gc_refine http_link_refine http_unlink_refine
  http_consolidate_refine http_import_refine http_bulk_refine http_restore_refine http_purge_refine http_archive_refine
  http_notify_refine set_standard_http_refine clear_standard_http_refine approval_decide_refine

text \<open>One request to one of the handlers of \<open>Http\<close>, with any body, in any environment. Requests that reach the store in another
  way are not among these steps: entity registration, link invalidation, pushes of peers and recall, which are steps of the
  store itself in \<open>System\<close>, and webhook subscriptions, which have a table of their own in \<open>Subscriptions\<close>.\<close>

inductive http_step :: "tool_state \<Rightarrow> tool_state \<Rightarrow> bool" where
  post_memory: "http_step st (snd (http_create_memory env body st))"
| post_bulk: "http_step st (snd (http_bulk_create env bodies st))"
| put_memory: "http_step st (snd (http_update_memory env i u st))"
| delete_memory: "http_step st (snd (http_delete_memory env i st))"
| post_promote: "http_step st (snd (http_promote_memory env i st))"
| post_forget: "http_step st (snd (http_forget_memories env ns pattern tier st))"
| post_link: "http_step st (snd (http_create_link env s t rel st))"
| delete_link_route: "http_step st (snd (http_delete_link s t rel st))"
| post_consolidate: "http_step st (snd (http_consolidate_memories env ids title summary ns tier who st))"
| post_import: "http_step st (snd (http_import_memories env memories links st))"
| post_gc: "http_step st (snd (http_run_gc env st))"
| post_archive: "http_step st (snd (http_archive_by_ids env ids reason st))"
| post_restore: "http_step st (snd (http_restore_archive env i st))"
| delete_archive: "http_step st (snd (http_purge_archive env days st))"
| post_agent: "http_step st (snd (http_register_agent env who agent_type caps st))"
| post_approve: "http_step st (snd (http_approve_pending env i st))"
| post_reject: "http_step st (snd (http_reject_pending env i st))"
| post_decision: "http_step st (snd (approval_decide env av i payload st))"
| post_notify: "http_step st (snd (http_notify env message st))"
| put_standard: "http_step st (snd (set_namespace_standard_inner env ns standard st))"
| put_standard_qs: "http_step st (snd (set_namespace_standard_qs env standard st))"
| delete_standard: "http_step st (snd (clear_namespace_standard_inner env ns st))"
| delete_standard_qs: "http_step st (snd (clear_namespace_standard_qs env query st))"

inductive_cases http_stepE: "http_step st st'"

lemma http_step_refine: "http_step st st' \<Longrightarrow> tools_refine st st'"
  by (erule http_stepE)
    (auto simp: http_refines set_namespace_standard_qs_def clear_namespace_standard_qs_def split: option.split)

text \<open>A daemon serves these tools and requests in any order.\<close>

definition server_step :: "tool_state \<Rightarrow> tool_state \<Rightarrow> bool" where
  "server_step st st' = (tool_step st st' \<or> http_step st st')"

lemma server_steps_refine: "server_step\<^sup>*\<^sup>* st st' \<Longrightarrow> tools_refine st st'"
  by (induction rule: rtranclp_induct) (auto simp: server_step_def intro: tools_refine_trans tool_step_refine http_step_refine)

text \<open>However these tool calls and requests are interleaved, with whatever bodies, clocks and answers of the peers, the
  database only goes through store operations and the vector index through index operations, so that the invariants of
  both carry over to the handlers.\<close>

theorem server_refines_store:
  assumes "server_step\<^sup>*\<^sup>* st st'"
  shows "local_step\<^sup>*\<^sup>* (tl_db st) (tl_db st') \<and> rel_option index_step\<^sup>*\<^sup>* (tl_index st) (tl_index st')
    \<and> (reachable (tl_db st) \<longrightarrow> reachable (tl_db st') \<and> db_ok (tl_db st') \<and> decided_kept (tl_db st) (tl_db st'))
    \<and> (\<forall>ix. tl_index st = Some ix \<and> index_inv ix \<longrightarrow> (\<exists>ix'. tl_index st' = Some ix' \<and> index_inv ix'))"
proof -
  have steps: "local_step\<^sup>*\<^sup>* (tl_db st) (tl_db st')" "rel_option index_step\<^sup>*\<^sup>* (tl_index st) (tl_index st')"
    using server_steps_refine [OF assms] by (simp_all add: tools_refine_def)
  have "reachable (tl_db st')" if "reachable (tl_db st)"
    using steps(1) that by (induction rule: rtranclp_induct) (auto intro: reachable.local)
  moreover have "index_inv ix'" if "index_step\<^sup>*\<^sup>* ix ix'" "index_inv ix" for ix ix' :: "embedding IndexState"
    using that by (induction rule: rtranclp_induct) (auto intro: index_step_inv)
  ultimately show ?thesis
    using steps local_steps_kept [OF steps(1)] reachable_ok by (cases "tl_index st"; cases "tl_index st'") auto
qed

definition ex_http :: "FederationConfig option \<Rightarrow> http_env" where
  "ex_http fed = \<lparr>hv_tool = ex_tool_env ''eve'', hv_header = Some ''eve'', hv_anon = ''0123456789abcdef'', hv_unix_now = 0,
     hv_uuids = (\<lambda>k. ''n'' @ show_nat k), hv_fed = fed,
     hv_run = (\<lambda>k. \<lparr>fr_http = ex_send, fr_start = 0, fr_sched = ex_sched, fr_final = 5\<rparr>), hv_joins = [], hv_catchup = []\<rparr>"

theorem server_refines_store_witness:
  "reachable (tl_db (snd (http_delete_memory (ex_http None) ''m1'' ex_tools)))"
proof -
  have "server_step\<^sup>*\<^sup>* ex_tools (snd (http_delete_memory (ex_http None) ''m1'' ex_tools))"
    by (rule r_into_rtranclp) (simp add: server_step_def delete_memory)
  from server_refines_store [OF this] show ?thesis using ex_db_reachable by (simp add: ex_tools_def)
qed

section \<open>Gates and broadcasts\<close>

lemma http_governed_cases:
  assumes "http_governed env act ns who mid own payload label st rest = (resp, st')"
  obtains (passed) "governed (hv_tool env) st act ns who mid own payload" "rest st = (resp, st')"
    | (refused) e where "hp_body resp = ErrorBody e" "hp_status resp \<in> {403, 500}" "st' = st"
    | (queued) i where "hp_body resp = PendingBody i act label" "hp_status resp = 202" "only_queued st st'"
    | (missed) p where "hp_body resp = QuorumBody p" "hp_status resp = 503" "hv_fed env \<noteq> None" "only_queued st st'"
proof -
  let ?tv = "hv_tool env"
  obtain r db where e: "enforce_governance (tv_mode ?tv) (tv_policy ?tv) (tv_pending_id ?tv) (tv_db_now ?tv) (tl_db st) act ns
      who mid own payload = (r, db)" by (rule prod.exhaust)
  have gate: "governance_gate ?tv act ns who mid own payload st =
      (case r of Inl e \<Rightarrow> (Inl (DbFailed e), st\<lparr>tl_db := db\<rparr>)
       | Inr Allow \<Rightarrow> (Inr None, st\<lparr>tl_db := db\<rparr>)
       | Inr (Deny reason) \<Rightarrow> (Inl (GovernanceDenied reason), st\<lparr>tl_db := db\<rparr>)
       | Inr (Pending i) \<Rightarrow> (Inr (Some (PendingApproval i)), emit_event (ApprovalDispatched i) (st\<lparr>tl_db := db\<rparr>)))"
    by (simp add: governance_gate_def e split: sum.split GovernanceDecision.split)
  consider err where "r = Inl err" | "r = Inr Allow" | reason where "r = Inr (Deny reason)" | i where "r = Inr (Pending i)"
    by (metis GovernanceDecision.exhaust sum.exhaust)
  then show thesis
  proof cases
    case 1
    then have "st\<lparr>tl_db := db\<rparr> = st" using governance_gate_refused [of ?tv act ns who mid own payload st] gate by simp
    with 1 e assms show ?thesis by (intro refused) (auto simp: http_governed_def fail_with_def respond_def)
  next
    case 2
    then have "st\<lparr>tl_db := db\<rparr> = st" using governance_gate_passed [of ?tv act ns who mid own payload st] gate by simp
    with 2 e assms show ?thesis by (intro passed) (auto simp: http_governed_def governed_def)
  next
    case 3
    then have "st\<lparr>tl_db := db\<rparr> = st" using governance_gate_refused [of ?tv act ns who mid own payload st] gate by simp
    with 3 e assms show ?thesis by (intro refused) (auto simp: http_governed_def fail_with_def respond_def)
  next
    case (4 i)
    then have q: "only_queued st (emit_event (ApprovalDispatched i) (st\<lparr>tl_db := db\<rparr>))"
      using governance_gate_only_queued [of ?tv act ns who mid own payload st] gate by simp
    from assms 4 e consider "hp_body resp = PendingBody i act label" "hp_status resp = 202" "st' = emit_event (ApprovalDispatched i) (st\<lparr>tl_db := db\<rparr>)"
      | p where "hp_body resp = QuorumBody p" "hp_status resp = 503" "hv_fed env \<noteq> None" "st' = emit_event (ApprovalDispatched i) (st\<lparr>tl_db := db\<rparr>)"
      by (auto simp: http_governed_def Let_def respond_def with_quorum_def split: option.splits sum.splits)
    then show ?thesis using q by cases (auto intro: queued missed)
  qed
qed

text \<open>What a completed broadcast means: W - 1 configured peers acknowledged this very push.\<close>

definition acked :: "http_env \<Rightarrow> nat \<Rightarrow> FederationConfig \<Rightarrow> push_body \<Rightarrow> str \<Rightarrow> nat \<Rightarrow> bool" where
  "acked env k fed body target acks =
     (qp_w (fc_policy fed) \<le> acks
      \<and> (\<exists>P. P \<subseteq> pe_id ` set (fc_peers fed) \<and> card P + 1 = acks
          \<and> (\<forall>i \<in> P. \<exists>p \<in> set (fc_peers fed). pe_id p = i
               \<and> post_and_classify (fr_http (hv_run env k)) (pe_sync_push_url p) body target (Some target) = Ack)))"

lemma broadcast_acked:
  assumes "broadcast_run env k fed b = Inr acks"
    and "\<And>post start sched. b fed post start sched = broadcast_quorum fed post start sched body target"
  shows "acked env k fed body target acks"
proof -
  let ?out = "peer_outcome fed (fr_http (hv_run env k)) body target"
  obtain P where P: "card P = acks - 1" "1 \<le> acks" "\<forall>i \<in> P. ?out i = Ack" and w: "qp_w (fc_policy fed) \<le> acks"
    using broadcast_quorum_sound [of fed "fr_http (hv_run env k)" "fr_start (hv_run env k)" "fr_sched (hv_run env k)" body target
        "fr_final (hv_run env k)" acks] assms
    by (auto simp: broadcast_run_def Let_def finalise_quorum_def)
  have "\<forall>i \<in> P. \<exists>p \<in> set (fc_peers fed). pe_id p = i
      \<and> post_and_classify (fr_http (hv_run env k)) (pe_sync_push_url p) body target (Some target) = Ack"
    using P(3) by (force simp: peer_outcome_def dest: find_Some_mem split: option.splits)
  moreover from this have "P \<subseteq> pe_id ` set (fc_peers fed)" by (metis image_iff subsetI)
  ultimately show ?thesis unfolding acked_def using P(1,2) w by (intro conjI exI [of _ P]) auto
qed

lemma store_acked:
  "broadcast_run env k fed (store_broadcast m) = Inr acks \<Longrightarrow> acked env k fed ((empty_push fed)\<lparr>pb_memories := [m]\<rparr>) (m_id m) acks"
  by (erule broadcast_acked) (simp add: store_broadcast_def broadcast_store_quorum_def)

section \<open>Creating a memory\<close>

lemma param_with_key [simp]:
  "is_object md \<Longrightarrow> param_str (with_key k v md) j = (if j = k then json_str v else param_str md j)"
  "is_object md \<Longrightarrow> is_object (with_key k v md)"
  by (auto simp: with_key_def param_str_def json_get_def map_of_obj_insert is_object_def split: json.split)

lemma created_metadata:
  assumes "validate_create parse ser now body = Inr ()"
  shows "param_str (http_metadata body who) ''agent_id'' = Some who"
proof -
  have "is_object (c_metadata body)" using assms by (simp add: validate_create_def validate_metadata_def)
  then show ?thesis by (simp add: http_metadata_def Let_def json_str_def split: option.split)
qed

text \<open>The title a request asks for under its conflict mode: its own and free, its own, or a free version of it.\<close>

definition title_chosen :: "Db \<Rightarrow> CreateMemory \<Rightarrow> str \<Rightarrow> bool" where
  "title_chosen db body title =
     (let mode = unwrap_or ''error'' (c_on_conflict body);
          free = (find_by_title_namespace db title (c_namespace body) = None) in
      mode = ''error'' \<and> title = c_title body \<and> free
      \<or> mode = ''merge'' \<and> title = c_title body
      \<or> mode = ''version'' \<and> free
         \<and> (title = c_title body \<or> (\<exists>n. 2 \<le> n \<and> n \<le> MAX_VERSION_SUFFIX \<and> title = version_candidate (c_title body) n)))"

definition title_conflict :: "Db \<Rightarrow> CreateMemory \<Rightarrow> bool" where
  "title_conflict db body =
     (unwrap_or ''error'' (c_on_conflict body) = ''error'' \<and> find_by_title_namespace db (c_title body) (c_namespace body) \<noteq> None)"

lemma http_title_chosen:
  assumes "http_title db body = Inr title" "unwrap_or ''error'' (c_on_conflict body) \<in> {''error'', ''merge'', ''version''}"
  shows "title_chosen db body title \<and> \<not> title_conflict db body"
  using assms next_versioned_title_exact [of db "c_title body" "c_namespace body"]
  by (auto simp: http_title_def title_chosen_def title_conflict_def Let_def split: option.splits sum.splits if_splits)

lemma http_title_refused:
  assumes "http_title db body = Inl (status, e)"
  shows "status \<in> {409, 500}" "status = 409 \<longrightarrow> title_conflict db body" "title_conflict db body \<longrightarrow> status = 409"
  using assms by (auto simp: http_title_def title_conflict_def Let_def split: option.splits sum.splits if_splits)

definition create_outcome :: "http_env \<Rightarrow> CreateMemory \<Rightarrow> tool_state \<Rightarrow> handler_result \<Rightarrow> bool" where
  "create_outcome env body st res =
     (case res of (resp, st') \<Rightarrow>
        (case hp_body resp of
           CreatedBody i tier ns title who cs acks \<Rightarrow>
             hp_status resp = 201 \<and> title_chosen (tl_db st) body title
             \<and> map_option text_of (get (tl_db st') i) = Some (title, c_namespace body, c_content body)
             \<and> (\<exists>agent mem. http_agent env (c_agent_id body) = Inr agent \<and> who = Some agent
                 \<and> mem = http_memory env body i title (http_metadata body agent)
                 \<and> (find_by_title_namespace (tl_db st) title (c_namespace body) = None \<longrightarrow> get (tl_db st') i = Some mem)
                 \<and> (\<exists>payload. governed (hv_tool env) st Store (c_namespace body) agent None None payload)
                 \<and> (case hv_fed env of
                      None \<Rightarrow> acks = None
                    | Some fed \<Rightarrow> (\<exists>a. acks = Some a \<and> acked env 0 fed ((empty_push fed)\<lparr>pb_memories := [mem]\<rparr>) i a)))
         | PendingBody i act label \<Rightarrow> hp_status resp = 202 \<and> only_queued st st'
         | QuorumBody p \<Rightarrow>
             hp_status resp = 503 \<and> hv_fed env \<noteq> None
             \<and> (only_queued st st'
                \<or> (\<exists>i title. title_chosen (tl_db st) body title
                     \<and> map_option text_of (get (tl_db st') i) = Some (title, c_namespace body, c_content body)))
         | ErrorBody e \<Rightarrow>
             hp_status resp \<in> {400, 403, 409, 500} \<and> tl_db st' = tl_db st \<and> tl_index st' = tl_index st
             \<and> (hp_status resp = 409 \<longrightarrow> title_conflict (tl_db st) body)
         | _ \<Rightarrow> False)
        \<and> (title_conflict (tl_db st) body \<longrightarrow> hp_status resp \<in> {400, 409} \<and> st' = st))"

lemma insert_new_row:
  assumes ok: "db_ok db" and res: "insert_mem db mem = (Inr i, db')"
    and free: "find_by_title_namespace db (m_title mem) (m_namespace mem) = None"
  shows "i = m_id mem \<and> get db' i = Some mem"
proof -
  have up: "sql_upsert merge_insert db mem = (Inr i, db')" using res by (simp add: insert_mem_def)
  have mo': "memories_ok (db_memories db')" using insert_merge.upsert_ok [OF ok, of mem] by (simp add: up db_ok_def)
  obtain r where r: "r \<in> set (db_memories db')" "m_id r = i"
    and c: "r = row_of mem \<and> i = m_id mem \<or> (\<exists>old \<in> set (db_memories db).
        title_key old = (m_title mem, m_namespace mem) \<and> m_id old = i \<and> r = merge_insert old mem)"
    using insert_merge.upsert_finds [of db mem i] by (auto simp: up dest: sql_row_SomeD)
  have "r = row_of mem \<and> i = m_id mem" using c free by (force simp: find_by_title_None)
  then show ?thesis using get_unique [OF mo' r(1)] r(2) by simp
qed

lemma http_insert_outcome:
  assumes ok: "db_ok (tl_db st)" and res: "http_insert env body mem st = (resp, st')"
    and mem: "mem = http_memory env body j title (http_metadata body agent)" and who: "owner_of mem = Some agent"
    and agent: "http_agent env (c_agent_id body) = Inr agent"
    and gov: "governed (hv_tool env) st Store (c_namespace body) agent None None payload"
    and chosen: "title_chosen (tl_db st) body title" "\<not> title_conflict (tl_db st) body"
  shows "create_outcome env body st (resp, st')"
proof -
  obtain r db where ins: "insert_mem (tl_db st) mem = (r, db)" by (rule prod.exhaust)
  show ?thesis
  proof (cases r)
    case (Inl e)
    have "db = tl_db st" using insert_merge.upsert_error_unchanged [of "tl_db st" mem e] ins Inl by (simp add: insert_mem_def)
    then show ?thesis using res ins Inl chosen by (auto simp: http_insert_def Let_def create_outcome_def fail_with_def respond_def)
  next
    case (Inr i)
    let ?m = "http_memory env body i title (http_metadata body agent)"
    define st2 where "st2 = emit_event (Audited (http_audit_store i mem))
        (embed_memory (hv_tool env) False i (c_title body @ '' '' @ c_content body) (st\<lparr>tl_db := db\<rparr>))"
    have get2: "get (tl_db st2) k = get db k" for k by (simp add: st2_def)
    have body: "map_option text_of (get db i) = Some (title, c_namespace body, c_content body)"
      using insert_mem_text [OF ok ins [unfolded Inr]] by (simp add: mem http_memory_def text_of_def)
    have fresh: "get db i = Some ?m" if "find_by_title_namespace (tl_db st) title (c_namespace body) = None"
      using insert_new_row [OF ok ins [unfolded Inr]] that by (auto simp: mem http_memory_def)
    have m: "mem\<lparr>m_id := i\<rparr> = ?m" "m_title mem = title" "m_namespace mem = c_namespace body" by (simp_all add: mem http_memory_def)
    have run: "(resp, st') = with_quorum env 0 (store_broadcast ?m) st2 (\<lambda>acks. respond 201
        (CreatedBody i (m_tier mem) (c_namespace body) title (Some agent) (map m_id (filter (\<lambda>c. m_id c \<noteq> m_id mem)
            (find_contradictions (tv_fts (hv_tool env)) (tv_rank (hv_tool env)) (tl_db st) title (c_namespace body)))) acks) st2)"
      using res ins Inr m who by (simp add: http_insert_def Let_def st2_def)
    have mi: "m_id ?m = i" by (simp add: http_memory_def)
    show ?thesis
    proof (cases "hv_fed env")
      case None
      with run get2 body fresh gov agent chosen show ?thesis
        by (auto simp: with_quorum_def respond_def create_outcome_def)
    next
      case (Some fed)
      show ?thesis
      proof (cases "broadcast_run env 0 fed (store_broadcast ?m)")
        case (Inl e)
        with Some run get2 body chosen show ?thesis by (auto simp: with_quorum_def respond_def create_outcome_def)
      next
        case (Inr acks)
        from store_acked [OF this] have "acked env 0 fed ((empty_push fed)\<lparr>pb_memories := [?m]\<rparr>) i acks" by (simp add: mi)
        with Some Inr run get2 body fresh gov agent chosen show ?thesis
          by (auto simp: with_quorum_def respond_def create_outcome_def)
      qed
    qed
  qed
qed

lemma create_refused:
  assumes "\<nexists>agent title. validate_create (tv_rfc3339 (hv_tool env)) (tv_ser (hv_tool env)) (hv_unix_now env) body = Inr ()
      \<and> http_agent env (c_agent_id body) = Inr agent \<and> check_opt validate_scope (c_scope body) = Inr ()
      \<and> unwrap_or ''error'' (c_on_conflict body) \<in> {''error'', ''merge'', ''version''} \<and> http_title (tl_db st) body = Inr title"
  obtains status e where "status = 400 \<or> http_title (tl_db st) body = Inl (status, e)" "http_create_memory env body st = fail_with status e st"
proof -
  have "\<exists>status e. (status = 400 \<or> http_title (tl_db st) body = Inl (status, e)) \<and> http_create_memory env body st = fail_with status e st"
  proof (cases "validate_create (tv_rfc3339 (hv_tool env)) (tv_ser (hv_tool env)) (hv_unix_now env) body")
    case (Inl e)
    then show ?thesis by (auto simp: http_create_memory_def)
  next
    case valid: (Inr u)
    show ?thesis
    proof (cases "http_agent env (c_agent_id body)")
      case (Inl e)
      then show ?thesis using valid by (auto simp: http_create_memory_def Let_def)
    next
      case agent: (Inr agent)
      show ?thesis
      proof (cases "check_opt validate_scope (c_scope body)")
        case (Inl e)
        then show ?thesis unfolding http_create_memory_def valid agent Inl by auto
      next
        case scope: (Inr u)
        show ?thesis
        proof (cases "unwrap_or ''error'' (c_on_conflict body) \<in> {''error'', ''merge'', ''version''}")
          case True
          then obtain status e where "http_title (tl_db st) body = Inl (status, e)"
            using assms valid agent scope by (cases "http_title (tl_db st) body") auto
          then show ?thesis unfolding http_create_memory_def valid agent scope Let_def using True by auto
        next
          case False
          then show ?thesis unfolding http_create_memory_def valid agent scope Let_def by simp blast
        qed
      qed
    qed
  qed
  then show thesis using that by blast
qed


definition ex_body :: CreateMemory where
  "ex_body = \<lparr>c_tier = Mid, c_namespace = ''g'', c_title = ''c'', c_content = ''text'', c_tags = [], c_priority = 5,
     c_confidence = Fin 1, c_source = ''api'', c_expires_at = None, c_ttl_secs = None, c_metadata = JObj [], c_agent_id = None,
     c_scope = None, c_on_conflict = None\<rparr>"


section \<open>Success and the peers\<close>

lemma fanout_200:
  assumes "hv_fed env = Some fed" "fanout_or_503 env k (Some m) st (respond 200 body st) = (resp, st')" "hp_status resp = 200"
  shows "hp_body resp = body \<and> st' = st \<and> (\<exists>a. acked env k fed ((empty_push fed)\<lparr>pb_memories := [m]\<rparr>) (m_id m) a)"
  using assms store_acked [of env k fed m]
  by (auto simp: fanout_or_503_def with_quorum_def respond_def split: sum.splits)

lemma http_target_200:
  assumes "http_target i st rest = (resp, st')" "hp_status resp = 200"
  obtains target where "rest target = (resp, st')" "resolve_id (tl_db st) i = Inr (Some target)"
  using assms by (auto simp: http_target_def fail_with_def respond_def split: sum.splits option.splits DbError.splits)

lemma http_governed_200:
  assumes "http_governed env act ns who mid own payload label st rest = (resp, st')" "hp_status resp = 200"
  shows "rest st = (resp, st')"
  using assms(1) by (cases rule: http_governed_cases) (use assms(2) in auto)

lemma update_found:
  assumes "db_ok db" "update now db i u = (Inr (True, changed), db')"
  obtains m tier where "get db' i = Some m" "m_id m = i" "m_tier m = effective_tier (u_tier u) tier"
proof -
  have mo: "memories_ok (db_memories db)" using assms(1) by (simp add: db_ok_def)
  from assms(2) obtain old where "get db i = Some old" by (auto simp: update_def split: option.splits)
  then obtain r where r: "r \<in> set (db_memories db)" "m_id r = i" by (auto dest: get_SomeD)
  have row: "sql_row (\<lambda>r. m_id r = i) (db_memories db) = Some r"
    using mo r by (auto simp: memories_ok_def intro: sql_row_unique)
  from update_eq [OF mo r, of now u] assms(2)
  have "db' = db\<lparr>db_memories := sql_update (\<lambda>x. m_id x = i) (updated now u) (db_memories db)\<rparr>" by (auto split: if_splits)
  with row updated_id.row_update_any [of i "\<lambda>x. m_id x = i" now u "db_memories db"] r
  have "get db' i = Some (row_to_memory (updated now u r))" by (simp add: get_def)
  then show thesis using that [of "row_to_memory (updated now u r)" "m_tier r"] r by (simp add: updated_def)
qed

lemma update_200:
  assumes db: "db_ok (tl_db st)" and fed: "hv_fed env = Some fed"
    and run: "http_update_memory env i u st = (resp, st')" and ok: "hp_status resp = 200"
  shows "\<exists>m a. hp_body resp = MemoryBody (Some m) \<and> get (tl_db st') (m_id m) = Some m
    \<and> acked env 0 fed ((empty_push fed)\<lparr>pb_memories := [m]\<rparr>) (m_id m) a"
proof -
  let ?u = "\<lambda>target. u\<lparr>u_metadata := map_option (preserve_agent_id
        (case get (tl_db st) (m_id target) of None \<Rightarrow> JObj [] | Some m \<Rightarrow> m_metadata m)) (u_metadata u)\<rparr>"
  let ?rest = "\<lambda>target. case update (tv_db_now (hv_tool env)) (tl_db st) (m_id target) (?u target) of
      (Inl e, db) \<Rightarrow> http_update_failed e (st\<lparr>tl_db := db\<rparr>)
    | (Inr (found, _), db) \<Rightarrow> if \<not> found then fail_with 404 NotFoundError (st\<lparr>tl_db := db\<rparr>)
        else http_updated env u (m_id target) (st\<lparr>tl_db := db\<rparr>)"
  have "http_target i st ?rest = (resp, st')"
    using run ok unfolding http_update_memory_def Let_def by (auto simp: fail_with_def respond_def split: sum.splits)
  then obtain target where "?rest target = (resp, st')" and "resolve_id (tl_db st) i = Inr (Some target)"
    using ok by (rule http_target_200)
  with ok obtain changed db' where upd: "update (tv_db_now (hv_tool env)) (tl_db st) (m_id target) (?u target) = (Inr (True, changed), db')"
    and out: "http_updated env u (m_id target) (st\<lparr>tl_db := db'\<rparr>) = (resp, st')"
    by (auto simp: fail_with_def respond_def http_update_failed_def split: sum.splits prod.splits if_splits DbError.splits)
  from update_found [OF db upd] obtain m where m: "get db' (m_id target) = Some m" "m_id m = m_id target" by metis
  then obtain st2 where "fanout_or_503 env 0 (Some m) st2 (respond 200 (MemoryBody (Some m)) st2) = (resp, st')"
    "\<And>j. get (tl_db st2) j = get db' j" using out by (auto simp: http_updated_def Let_def split: if_splits)
  with fanout_200 [OF fed _ ok] m show ?thesis by metis
qed

lemma get_clear_expiry:
  "get (clear_expiry db i) j = map_option (\<lambda>m. if j = i then m\<lparr>m_expires_at := None\<rparr> else m) (get db j)"
proof -
  have "key_preserving m_id (\<lambda>r :: MemRow. r\<lparr>m_expires_at := None\<rparr>)" by unfold_locales simp
  from key_preserving.row_update_any [OF this, of j "\<lambda>r. m_id r = i" "db_memories db"] show ?thesis
    by (cases "sql_row (\<lambda>r. m_id r = j) (db_memories db)")
      (auto simp: get_def clear_expiry_def row_to_memory_def dest: sql_row_SomeD)
qed

text \<open>The part of a handler behind the target and the governance gate.\<close>

lemma gated_200:
  assumes "hp_status resp = 200"
    and "(case validate_id i of Inl e \<Rightarrow> fail_with 400 (BadInput e) st
      | Inr _ \<Rightarrow> http_target i st (\<lambda>target. case http_agent env None of
          Inl e \<Rightarrow> fail_with 400 (BadAgent e) st
        | Inr who \<Rightarrow> http_governed env act (m_namespace target) who (Some (m_id target)) (owner_of target) (payload target)
            (m_id target) st (rest target))) = (resp, st')"
  obtains target where "rest target st = (resp, st')" "resolve_id (tl_db st) i = Inr (Some target)"
proof -
  let ?inner = "\<lambda>target. case http_agent env None of
          Inl e \<Rightarrow> fail_with 400 (BadAgent e) st
        | Inr who \<Rightarrow> http_governed env act (m_namespace target) who (Some (m_id target)) (owner_of target) (payload target)
            (m_id target) st (rest target)"
  have "http_target i st ?inner = (resp, st')"
    using assms by (auto simp: fail_with_def respond_def split: sum.splits)
  then obtain target where t: "?inner target = (resp, st')" "resolve_id (tl_db st) i = Inr (Some target)"
    using assms(1) by (rule http_target_200)
  from t(1) obtain who where "http_governed env act (m_namespace target) who (Some (m_id target)) (owner_of target) (payload target)
      (m_id target) st (rest target) = (resp, st')"
    using assms(1) by (auto simp: fail_with_def respond_def split: sum.splits)
  then have "rest target st = (resp, st')" using assms(1) by (rule http_governed_200)
  then show thesis using t(2) by (rule that)
qed

lemma promote_200:
  assumes db: "db_ok (tl_db st)" and fed: "hv_fed env = Some fed"
    and run: "http_promote_memory env i st = (resp, st')" and ok: "hp_status resp = 200"
  shows "\<exists>m a. hp_body resp = PromotedBody (m_id m) \<and> get (tl_db st') (m_id m) = Some m \<and> m_tier m = Long \<and> m_expires_at m = None
    \<and> acked env 0 fed ((empty_push fed)\<lparr>pb_memories := [m]\<rparr>) (m_id m) a"
proof -
  obtain target where r: "http_promote_checked env target st = (resp, st')"
    by (rule gated_200 [OF ok run [unfolded http_promote_memory_def]])
  let ?i = "m_id target"
  from r ok obtain changed db' where upd: "update (tv_db_now (hv_tool env)) (tl_db st) ?i (no_update\<lparr>u_tier := Some Long\<rparr>) = (Inr (True, changed), db')"
    by (auto simp: http_promote_checked_def fail_with_def respond_def split: sum.splits prod.splits if_splits)
  from update_found [OF db upd] obtain m tier where m: "get db' ?i = Some m" "m_id m = ?i"
    "m_tier m = effective_tier (Some Long) tier" by (auto simp: no_update_def)
  define m' where "m' = m\<lparr>m_expires_at := None\<rparr>"
  have m': "get (clear_expiry db' ?i) ?i = Some m'" using m by (simp add: get_clear_expiry m'_def)
  define st1 where "st1 = promote_dispatch target [(''mode'', JStr ''tier''), (''tier'', JStr ''long'')] (st\<lparr>tl_db := clear_expiry db' ?i\<rparr>)"
  have st1: "tl_db st1 = clear_expiry db' ?i" by (simp add: st1_def promote_dispatch_def)
  have out: "fanout_or_503 env 0 (Some m') st1 (respond 200 (PromotedBody ?i) st1) = (resp, st')"
    using r upd m' by (simp add: http_promote_checked_def Let_def st1_def)
  have "m_tier m' = Long" using m(3) by (cases tier) (simp_all add: m'_def effective_tier_def)
  moreover have "m_id m' = ?i" "m_expires_at m' = None" by (simp_all add: m'_def m(2))
  ultimately show ?thesis using fanout_200 [OF fed out ok] m' st1 by metis
qed

lemma delete_200:
  assumes fed: "hv_fed env = Some fed" and run: "http_delete_memory env i st = (resp, st')" and ok: "hp_status resp = 200"
  shows "\<exists>j a. get (tl_db st) j \<noteq> None \<and> get (tl_db st') j = None
    \<and> acked env 0 fed ((empty_push fed)\<lparr>pb_deletions := [j]\<rparr>) j a"
proof -
  obtain target where r: "http_delete_checked env target st = (resp, st')" and "resolve_id (tl_db st) i = Inr (Some target)"
    by (rule gated_200 [OF ok run [unfolded http_delete_memory_def]])
  let ?j = "m_id target"
  obtain deleted db' where d: "delete (tl_db st) ?j = (deleted, db')" by (rule prod.exhaust)
  from r ok d have del: "deleted" and st': "tl_db st' = db'"
    and b: "\<exists>a. broadcast_run env 0 fed (\<lambda>fed post start sched. broadcast_delete_quorum fed post start sched ?j) = Inr a"
    by (auto simp: http_delete_checked_def fail_with_def respond_def Let_def with_quorum_def fed split: if_splits sum.splits)
  from b obtain a where "acked env 0 fed ((empty_push fed)\<lparr>pb_deletions := [?j]\<rparr>) ?j a"
    by (auto dest!: broadcast_acked simp: broadcast_delete_quorum_def)
  moreover have "get db' ?j = None"
    using delete_memories_set [of "tl_db st" ?j] d by (auto simp: get_mem_ids mem_ids_def)
  moreover have "\<exists>r \<in> set (db_memories (tl_db st)). m_id r = ?j" using d del
    by (auto simp: delete_def Let_def sql_count_def filter_empty_conv)
  then have "get (tl_db st) ?j \<noteq> None" unfolding get_mem_ids mem_ids_def by (metis imageI)
  ultimately show ?thesis using st' by blast
qed

text \<open>C8: With federation configured, a successful update, promotion or deletion has reached the quorum: the answered memory is
  the one now stored (for a promotion of tier long and without expiry), and W - 1 distinct peers acknowledged a push of exactly
  this memory, or of the deletion of the memory that was stored and is gone.\<close>

theorem http_success_replicated:
  assumes "db_ok (tl_db st)" "hv_fed env = Some fed"
  shows "(hp_status (fst (http_update_memory env i u st)) = 200 \<longrightarrow>
      (\<exists>m a. hp_body (fst (http_update_memory env i u st)) = MemoryBody (Some m)
        \<and> get (tl_db (snd (http_update_memory env i u st))) (m_id m) = Some m
        \<and> acked env 0 fed ((empty_push fed)\<lparr>pb_memories := [m]\<rparr>) (m_id m) a))
   \<and> (hp_status (fst (http_promote_memory env i st)) = 200 \<longrightarrow>
      (\<exists>m a. hp_body (fst (http_promote_memory env i st)) = PromotedBody (m_id m)
        \<and> get (tl_db (snd (http_promote_memory env i st))) (m_id m) = Some m \<and> m_tier m = Long \<and> m_expires_at m = None
        \<and> acked env 0 fed ((empty_push fed)\<lparr>pb_memories := [m]\<rparr>) (m_id m) a))
   \<and> (hp_status (fst (http_delete_memory env i st)) = 200 \<longrightarrow>
      (\<exists>j a. get (tl_db st) j \<noteq> None \<and> get (tl_db (snd (http_delete_memory env i st))) j = None
        \<and> acked env 0 fed ((empty_push fed)\<lparr>pb_deletions := [j]\<rparr>) j a))"
  using update_200 [OF assms, of i u] promote_200 [OF assms, of i] delete_200 [OF assms(2), of i st] by (metis prod.collapse)

lemma ex_agent_valid: "validate_agent_id ''eve'' = Inr ()"
  by code_simp

theorem http_success_replicated_witness:
  "\<exists>j a. get ex_db j \<noteq> None \<and> get (tl_db (snd (http_delete_memory (ex_http (Some ex_config)) ''m1'' ex_tools))) j = None
     \<and> acked (ex_http (Some ex_config)) 0 ex_config ((empty_push ex_config)\<lparr>pb_deletions := [j]\<rparr>) j a"
proof -
  let ?env = "ex_http (Some ex_config)"
  have b: "broadcast_run ?env 0 ex_config (\<lambda>fed post start sched. broadcast_delete_quorum fed post start sched ''m1'') = Inr 2"
    by code_simp
  have found: "resolve_id ex_db ''m1'' = Inr (Some (ex_note ''m1'' ''a'' Mid ''alice''))"
    by (simp add: resolve_id_def get_def ex_db_rows sql_row_def row_of_def row_to_memory_def ex_note_def)
  have del: "fst (delete ex_db ''m1'')"
    by (simp add: delete_def Let_def ex_db_rows sql_count_def row_of_def ex_note_def)
  have who: "http_agent ?env None = Inr ''eve''"
    using ex_agent_valid by (simp add: http_agent_def resolve_http_agent_id_def nonempty_def claimed_def ex_http_def)
  have gov: "http_governed ?env act ns a mid own payload label ex_tools rest = rest ex_tools" for act ns a mid own payload label rest
    by (simp add: http_governed_def enforce_governance_def ex_http_def ex_tool_env_def)
  have db: "tl_db ex_tools = ex_db" and fed: "hv_fed ?env = Some ex_config" by (simp_all add: ex_tools_def ex_http_def)
  have mid: "m_id (ex_note ''m1'' ''a'' Mid ''alice'') = ''m1''" by (simp add: ex_note_def)
  have "http_delete_memory ?env ''m1'' ex_tools = http_delete_checked ?env (ex_note ''m1'' ''a'' Mid ''alice'') ex_tools"
    using ex_checks(6) found by (simp add: http_delete_memory_def http_target_def db who gov)
  then have "hp_status (fst (http_delete_memory ?env ''m1'' ex_tools)) = 200"
    using del by (cases "delete ex_db ''m1''") (simp add: http_delete_checked_def db mid with_quorum_def fed b respond_def Let_def)
  moreover have "db_ok (tl_db ex_tools)" "hv_fed ?env = Some ex_config" by (simp_all add: ex_tools_def ex_db_ok ex_http_def)
  ultimately show ?thesis using db http_success_replicated [of ex_tools ?env ex_config "''m1''"] by metis
qed

section \<open>Signed approvals\<close>

lemma wrapped_window:
  assumes "0 \<le> now" "now < 2 ^ 62" "in_i64 t"
  shows "(\<not> wrap64 (now - t) > 300 \<and> \<not> wrap64 (now - t) < - 60) = (- 60 \<le> now - t \<and> now - t \<le> 300)"
proof (cases "in_i64 (now - t)")
  case False
  then have big: "now - t \<ge> 2 ^ 63" using assms by (auto simp: in_i64_def)
  have "(now - t + 2 ^ 63) mod 2 ^ 64 = (now - t + 2 ^ 63 - 2 ^ 64) mod 2 ^ 64" by (simp only: minus_mod_self2)
  also have "\<dots> = now - t + 2 ^ 63 - 2 ^ 64" using big assms by (intro mod_pos_pos_trivial) (auto simp: in_i64_def)
  finally have "(now - t + 2 ^ 63) mod 2 ^ 64 = now - t + 2 ^ 63 - 2 ^ 64" .
  then have "wrap64 (now - t) = now - t - 2 ^ 64" by (simp add: wrap64_def)
  then show ?thesis using big assms by (auto simp: in_i64_def)
qed (auto simp: not_less)

lemma parse_i64_range: "parse_i64 s = Some t \<Longrightarrow> in_i64 t"
  by (auto simp: parse_i64_def Let_def split: if_splits prod.splits)

text \<open>C9: The approval endpoint accepts exactly the bodies that carry the HMAC of the configured secret over the timestamp header
  and the body, with a timestamp between five minutes ago and one minute ahead, whatever the header holds (a timestamp so far off
  that the subtraction overflows is refused too); without a secret or a signature nothing is accepted, and a request that is
  not accepted has no effect.\<close>

theorem approval_decide_authenticated:
  assumes "0 \<le> av_now av" "av_now av < 2 ^ 62"
  shows "verify_approval_hmac av body =
      (\<exists>secret ts t. av_secret av = Some secret \<and> av_timestamp av = Some ts \<and> parse_i64 ts = Some t
        \<and> t - 60 \<le> av_now av \<and> av_now av \<le> t + 300 \<and> utf8_valid body
        \<and> av_signature av = Some (''sha256='' @ hmac_sha256_hex (av_lib av) (sha256_hex (av_lib av) secret) (ts @ ''.'' @ body)))
    \<and> (\<not> verify_approval_hmac av body \<longrightarrow> approval_decide env av i body st = fail_with 401 Unsigned st)"
proof -
  have tag: "starts_with s ''sha256='' \<and> mac = drop 7 s \<longleftrightarrow> s = ''sha256='' @ mac" for s mac
    by (auto simp: starts_with_def prefix_def)
  have "verify_approval_hmac av body =
      (\<exists>secret ts t. av_secret av = Some secret \<and> av_timestamp av = Some ts \<and> parse_i64 ts = Some t
        \<and> t - 60 \<le> av_now av \<and> av_now av \<le> t + 300 \<and> utf8_valid body
        \<and> av_signature av = Some (''sha256='' @ hmac_sha256_hex (av_lib av) (sha256_hex (av_lib av) secret) (ts @ ''.'' @ body)))"
  proof (cases "av_secret av")
    case sec: (Some secret)
    show ?thesis
    proof (cases "av_signature av")
      case sig: (Some s)
      show ?thesis
      proof (cases "av_timestamp av")
        case ts: (Some ts)
        show ?thesis
        proof (cases "parse_i64 ts")
          case (Some t)
          have w: "(\<not> wrap64 (av_now av - t) > 300 \<and> \<not> wrap64 (av_now av - t) < - 60) = (t - 60 \<le> av_now av \<and> av_now av \<le> t + 300)"
            unfolding wrapped_window [OF assms parse_i64_range [OF Some]] by linarith
          let ?mac = "hmac_sha256_hex (av_lib av) (sha256_hex (av_lib av) secret) (ts @ ''.'' @ body)"
          have "verify_approval_hmac av body = ((t - 60 \<le> av_now av \<and> av_now av \<le> t + 300) \<and> utf8_valid body
              \<and> (starts_with s ''sha256='' \<and> ?mac = drop 7 s))"
            unfolding verify_approval_hmac_def w [symmetric]
            by (auto simp: sec sig ts Some constant_time_eq_iff Let_def APPROVAL_HMAC_MAX_AGE_SECS_def APPROVAL_HMAC_MAX_SKEW_SECS_def)
          then show ?thesis unfolding tag by (auto simp: sec sig ts Some)
        qed (simp add: verify_approval_hmac_def sec sig ts)
      qed (simp add: verify_approval_hmac_def sec sig)
    qed (simp add: verify_approval_hmac_def sec)
  qed (simp add: verify_approval_hmac_def)
  then show ?thesis by (simp add: approval_decide_def)
qed

definition ex_approval :: "str option \<Rightarrow> approval_env" where
  "ex_approval sig = \<lparr>av_lib = \<lparr>sl_sha256 = (\<lambda>b. take 2 b), sl_list_json = (\<lambda>_. []), sl_list_of_json = (\<lambda>_. None), sl_to_json = (\<lambda>_. []),
       sl_of_json = (\<lambda>_. None)\<rparr>,
     av_secret = Some ''key'', av_signature = sig, av_timestamp = Some ''100'', av_now = 130, av_parse = (\<lambda>_. Some (Approve, Forever))\<rparr>"

theorem approval_decide_authenticated_witness:
  "verify_approval_hmac (ex_approval (Some ''sha256=3739'')) ''{}''
    \<and> approval_decide (ex_http None) (ex_approval None) ''p1'' ''{}'' ex_tools = fail_with 401 Unsigned ex_tools"
proof -
  let ?L = "av_lib (ex_approval None)"
  have mac: "hmac_sha256_hex ?L (sha256_hex ?L ''key'') (''100'' @ ''.'' @ ''{}'') = ''3739''" by code_simp
  have "parse_i64 ''100'' = Some 100" "utf8_valid ''{}''" by code_simp+
  then have "verify_approval_hmac (ex_approval (Some ''sha256=3739'')) ''{}''"
    using approval_decide_authenticated [of "ex_approval (Some ''sha256=3739'')" "''{}''"] mac by (simp add: ex_approval_def)
  moreover have "approval_decide (ex_http None) (ex_approval None) ''p1'' ''{}'' ex_tools = fail_with 401 Unsigned ex_tools"
    using approval_decide_authenticated [of "ex_approval None" "''{}''" "ex_http None" "''p1''" ex_tools] by (simp add: ex_approval_def)
  ultimately show ?thesis ..
qed


section \<open>Where handlers fall short\<close>

text \<open>A first vote of a consensus that needs two, sent with \<open>forever\<close>, is answered as pending, yet it is remembered as a
  rule that approves the action.\<close>

definition ex_vote_env :: http_env where
  "ex_vote_env = (ex_http None)\<lparr>hv_tool := (ex_tool_env ''eve'')\<lparr>tv_policy := ex_policy\<rparr>, hv_header := Some ''alice''\<rparr>"

definition ex_vote_tools :: tool_state where
  "ex_vote_tools = ex_tools\<lparr>tl_db := snd (enforce_governance Enforce ex_policy ''p1'' ''t'' (ex_gov ''approve'') Store ''o'' ''eve''
     None None JNull)\<rparr>"

lemma open_vote_remembered:
  "case approval_decide ex_vote_env (ex_approval (Some ''sha256=3739'')) ''p1'' ''{}'' ex_vote_tools of (resp, st) \<Rightarrow>
     hp_body resp = VotesBody ''p1'' 1 2 \<and> map_option pa_status (get_pending_action (tl_db st) ''p1'') = Some ''pending''
     \<and> map sr_decision (tl_remembered st) = [''approve'']"
proof -
  let ?run = "approve_with_approver_type ex_policy ''2026-01-02'' (tl_db ex_vote_tools) ''p1'' ''alice''"
  have signed: "verify_approval_hmac (ex_approval (Some ''sha256=3739'')) ''{}''" by code_simp
  have agent: "http_agent ex_vote_env None = Inr ''alice''" "validate_id ''p1'' = Inr ()" by code_simp+
  have vote: "fst ?run = StillPending 1 2" "map_option pa_status (get_pending_action (snd ?run) ''p1'') = Some ''pending''"
    "get_pending_action (tl_db ex_vote_tools) ''p1'' \<noteq> None"
    by code_simp+
  then obtain db p where r: "?run = (StillPending 1 2, db)" "map_option pa_status (get_pending_action db ''p1'') = Some ''pending''"
    and p: "get_pending_action (tl_db ex_vote_tools) ''p1'' = Some p"
    by (metis not_Some_eq prod.collapse snd_conv)
  have env: "tv_policy (hv_tool ex_vote_env) = ex_policy" "tv_db_now (hv_tool ex_vote_env) = ''2026-01-02''"
    "av_parse (ex_approval (Some ''sha256=3739'')) ''{}'' = Some (Approve, Forever)" "tl_remembered ex_vote_tools = []"
    by (simp_all add: ex_vote_env_def ex_tool_env_def ex_approval_def ex_vote_tools_def ex_tools_def)
  show ?thesis using r(2)
    by (simp add: approval_decide_def Let_def signed agent env p r(1) publish_decision_def respond_def record_synthetic_rule_def
        emit_event_def)
qed

text \<open>The signature covers the timestamp and the body, not the action it is for nor the agent: a request that was signed for one
  pending action is accepted for any other and from any agent while it is fresh.\<close>

lemma approval_signature_transferable:
  assumes "verify_approval_hmac av body"
  shows "hp_body (fst (approval_decide (env\<lparr>hv_header := h\<rparr>) av j body st)) \<noteq> ErrorBody Unsigned"
  using assms by (auto simp: approval_decide_def Let_def respond_def fail_with_def
      split: option.split sum.split prod.split ApproveOutcome.split ApprovalChoice.split)

text \<open>A decision through the signed endpoint is not sent to the peers: it is the same whatever federation is configured.\<close>

lemma signed_decision_not_broadcast:
  "approval_decide (env\<lparr>hv_fed := fed, hv_run := run\<rparr>) av i body st = approval_decide env av i body st"
proof -
  have "publish_decision (env\<lparr>hv_fed := fed, hv_run := run\<rparr>) = publish_decision env"
    by (intro ext) (auto simp: publish_decision_def Let_def split: Remember.split option.split)
  moreover have "http_agent (env\<lparr>hv_fed := fed, hv_run := run\<rparr>) = http_agent env"
    by (intro ext) (simp add: http_agent_def)
  moreover have "hv_tool (env\<lparr>hv_fed := fed, hv_run := run\<rparr>) = hv_tool env" by simp
  ultimately show ?thesis unfolding approval_decide_def by (simp only:)
qed

text \<open>Bulk creation asks no governance policy, and records as the author whatever the body claims.\<close>

lemma bulk_create_ungoverned:
  "http_bulk_create (env\<lparr>hv_tool := (hv_tool env)\<lparr>tv_mode := mode, tv_policy := policy\<rparr>\<rparr>) bodies st = http_bulk_create env bodies st"
proof -
  let ?e = "env\<lparr>hv_tool := (hv_tool env)\<lparr>tv_mode := mode, tv_policy := policy\<rparr>\<rparr>"
  have "http_memory ?e = http_memory env"
    by (intro ext) (simp add: http_memory_def http_expires_at_def cong: option.case_cong)
  then have "bulk_item ?e = bulk_item env"
    by (intro ext) (auto split: sum.split)
  moreover have run: "broadcast_run ?e = broadcast_run env" by (intro ext) (simp add: broadcast_run_def)
  have sel: "hv_joins ?e = hv_joins env" "hv_catchup ?e = hv_catchup env" by simp_all
  have "bulk_fanout ?e = bulk_fanout env" by (intro ext) (simp only: bulk_fanout_def run sel)
  moreover have "hv_fed ?e = hv_fed env" by simp
  ultimately show ?thesis unfolding http_bulk_create_def by (simp only:)
qed

lemma bulk_author_unchecked:
  assumes "bulk_item env (k, body) (created, errors, db) = (created @ [m], errors', db')"
  shows "m_metadata m = c_metadata body"
  using assms by (auto simp: http_memory_def Let_def split: sum.splits prod.splits)

text \<open>Creating over HTTP is not charged to the agent's quota.\<close>

lemma http_store_uncharged: "tl_quotas (snd (http_create_memory env body st)) = tl_quotas st"
proof -
  have embed: "tl_quotas (embed_memory tv r i b s) = tl_quotas s" for tv r i b s
    by (simp add: embed_memory_def split: option.split)
  have quorum: "tl_quotas (snd (with_quorum env k b s ok)) = q" if "tl_quotas s = q" "\<And>a. tl_quotas (snd (ok a)) = q" for k b s ok q
    using that by (simp add: with_quorum_def respond_def split: option.split sum.split)
  have ins: "tl_quotas (snd (http_insert env body mem s)) = tl_quotas s" for mem s
    by (auto simp: http_insert_def Let_def fail_with_def respond_def emit_event_def embed split: sum.split prod.split intro!: quorum)
  have gov: "tl_quotas (snd (http_governed env act ns who mid own payload label s rest)) = tl_quotas s"
    if "\<And>s. tl_quotas (snd (rest s)) = tl_quotas s" for act ns who mid own payload label s rest
    using that by (auto simp: http_governed_def Let_def fail_with_def respond_def emit_event_def
        split: sum.split prod.split GovernanceDecision.split option.split intro!: quorum)
  show ?thesis
    by (auto simp: http_create_memory_def Let_def fail_with_def respond_def intro!: gov ins split: sum.split)
qed

text \<open>A message over HTTP is stored under an id made from the sender's name, host and process, not under the sender's id.\<close>

lemma http_message_sender:
  "resolve_agent_id \<lparr>en_agent_id = None, en_anonymize = None, en_hostname = ''h'', en_pid = 1, en_uuid = ''u''\<rparr> None (Some ''alice'')
     = Inr ''ai:alice@h:pid-1''"
  by code_simp

end
