(* ===== verification/Curator_Safety.thy ===== *)
theory Curator_Safety
  imports Curator
begin

text \<open>
  What the curator guarantees: a cycle is a sequence of store operations that touches only the memories it was meant for, a dry
  run touches nothing, clusters are exactly groups of near-duplicates, and reversing a logged action gives back what was logged. The
  last section shows where the curator falls short.
\<close>

section \<open>Effects of a pass\<close>

text \<open>A relation between a store and a later one that composes: what holds of every item then holds of a pass.\<close>

locale effect =
  fixes R :: "Db \<Rightarrow> Db \<Rightarrow> bool"
  assumes R_refl: "R db db"
    and R_trans: "R db db' \<Longrightarrow> R db' db'' \<Longrightarrow> R db db''"
begin

lemma run_pass_effect:
  assumes "\<And>k x db. x \<in> set xs \<Longrightarrow> R db (snd (act k x db))" and "\<And>k res report. R (snd res) (snd (note_it k res report))"
  shows "R db (snd (run_pass act note_it k xs report db))"
  using assms(1)
proof (induction xs arbitrary: k report db)
  case (Cons x xs)
  obtain report' db' where n: "note_it k (act k x db) report = (report', db')" by (rule prod.exhaust)
  have "R db db'" using R_trans [OF Cons.prems [of x db k] assms(2) [of "act k x db" k report]] by (simp add: n)
  moreover have "R db' (snd (run_pass act note_it (Suc k) xs report' db'))" by (rule Cons.IH) (simp add: Cons.prems)
  ultimately show ?case by (simp add: n R_trans)
qed (simp add: R_refl)

lemma fold_effect:
  assumes "\<And>x st. x \<in> set xs \<Longrightarrow> R (snd st) (snd (f x st))"
  shows "R (snd st) (snd (fold f xs st))"
  using assms
proof (induction xs arbitrary: st)
  case (Cons x xs)
  show ?case unfolding fold_Cons o_apply
    by (rule R_trans [OF Cons.prems [of x st] Cons.IH]) (simp_all add: Cons.prems)
qed (simp add: R_refl)

end

text \<open>Memories outside E that are not the curator's own stay as they are, and the store moves by its operations.\<close>

definition curator_namespaces :: "str set" where
  "curator_namespaces = {CURATOR_NAMESPACE @ ''/rollback'', CURATOR_NAMESPACE @ ''/reports''}"

definition spares :: "str set \<Rightarrow> Db \<Rightarrow> Db \<Rightarrow> bool" where
  "spares E db db' = (local_step\<^sup>*\<^sup>* db db'
     \<and> (db_ok db \<longrightarrow> (\<forall>j m. j \<notin> E \<and> get db j = Some m \<and> m_namespace m \<notin> curator_namespaces \<longrightarrow> get db' j = Some m)))"

lemma spares_refl: "spares E db db"
  by (simp add: spares_def)

lemma spares_trans: "spares E db db' \<Longrightarrow> spares E db' db'' \<Longrightarrow> spares E db db''"
  using local_steps_kept [of db db'] by (auto simp: spares_def)

lemma spares_mono: "spares E db db' \<Longrightarrow> E \<subseteq> E' \<Longrightarrow> spares E' db db'"
  by (auto simp: spares_def)

interpretation sparing: effect "spares E" for E
  by unfold_locales (rule spares_refl, rule spares_trans)

interpretation idle: effect "(=)"
  by unfold_locales simp_all

section \<open>Single operations\<close>

lemma get_cong:
  assumes "db_ok db" "db_ok db'" "row_to_memory ` {r \<in> set (db_memories db). m_id r = j} = row_to_memory ` {r \<in> set (db_memories db'). m_id r = j}"
  shows "get db j = get db' j"
proof -
  have *: "get d j = Some m \<longleftrightarrow> m \<in> row_to_memory ` {r \<in> set (db_memories d). m_id r = j}" if "db_ok d" for d m
    using that get_unique [of d] by (auto simp: db_ok_def dest: get_SomeD)
  have "get db j = Some m \<longleftrightarrow> get db' j = Some m" for m by (simp add: * [OF assms(1)] * [OF assms(2)] assms(3))
  then show ?thesis by (metis not_None_eq)
qed

lemma update_get_other: "j \<noteq> i \<Longrightarrow> get (snd (update now db i u)) j = get db j"
proof -
  assume "j \<noteq> i"
  have "List.find (\<lambda>r. m_id r = j) (map (\<lambda>r. if m_id r = i then f r else r) t) = List.find (\<lambda>r. m_id r = j) t"
    if "\<And>r. m_id (f r) = m_id r" for f :: "MemRow \<Rightarrow> MemRow" and t
    using that \<open>j \<noteq> i\<close> by (induction t) auto
  then show ?thesis
    by (auto simp: update_def Let_def get_def sql_row_def sql_update_def split: option.split)
qed

lemma delete_get: "db_ok db \<Longrightarrow> get (snd (delete db i)) j = (if j = i then None else get db j)"
proof -
  assume ok: "db_ok db"
  show ?thesis
  proof (cases "j = i")
    case True
    then show ?thesis by (auto simp: get_mem_ids mem_ids_def delete_memories_set)
  next
    case False
    then have "{r \<in> set (db_memories (snd (delete db i))). m_id r = j} = {r \<in> set (db_memories db). m_id r = j}"
      by (auto simp: delete_memories_set)
    then show ?thesis using get_cong [OF delete_ok [OF ok] ok, of i j] False by simp
  qed
qed

lemma consolidate_get_other:
  assumes ok: "db_ok db" and "j \<notin> set ids" "get db j = Some m"
  shows "get (snd (consolidate ser new_id now db ids title summary ns tier source who)) j = Some m"
proof -
  obtain r db' where e: "consolidate ser new_id now db ids title summary ns tier source who = (r, db')" by fastforce
  have ok': "db_ok db'" using consolidate_ok [OF ok, of ser new_id now ids title summary ns tier source who] by (simp add: e)
  from e show ?thesis
  proof (cases rule: consolidate_cases)
    case err
    with e assms show ?thesis by simp
  next
    case (done' c mem)
    have "j \<noteq> new_id" using assms(3) done'(3) get_mem_ids [of db j] by auto
    moreover have "m_id (row_of mem) = new_id" using done'(5) by (simp add: row_of_def)
    ultimately have "{r \<in> set (db_memories db'). m_id r = j} = {r \<in> set (db_memories db). m_id r = j}"
      using assms(2) unfolding done'(14) delete_all_memories by auto
    then show ?thesis using get_cong [OF ok' ok, of j] assms(3) e by simp
  qed
qed

lemma spares_update: "i \<in> E \<Longrightarrow> spares E db (snd (update now db i u))"
  using step_update [of db now i u] by (auto simp: spares_def) (metis update_get_other)

lemma spares_delete: "i \<in> E \<Longrightarrow> spares E db (snd (delete db i))"
  using delete_get [of db i] step_delete [of db i] by (auto simp: spares_def)

lemma spares_consolidate:
  "set ids \<subseteq> E \<Longrightarrow> spares E db (snd (consolidate ser new_id now db ids title summary ns tier source who))"
  using consolidate_get_other [of db _ ids] step_consolidate by (fastforce simp: spares_def)

lemma insert_mem_hits:
  assumes "insert_mem db mem = (Inr i, db')"
  shows "i \<notin> mem_ids db \<or> (\<exists>old \<in> set (db_memories db). m_id old = i \<and> m_namespace old = m_namespace mem)"
  using assms by (auto simp: insert_mem_def sql_upsert_def mem_ids_def sql_row_None dest: sql_row_SomeD split: if_splits option.splits)

lemma spares_insert:
  assumes "m_namespace mem \<in> curator_namespaces"
  shows "spares E db (snd (insert_mem db mem))"
proof -
  have "get (snd (insert_mem db mem)) j = Some m"
    if "db_ok db" "get db j = Some m" "m_namespace m \<notin> curator_namespaces" for j m
  proof (cases "fst (insert_mem db mem)")
    case (Inl e)
    then show ?thesis using insert_merge.upsert_error_unchanged [of db mem e] that by (simp add: insert_mem_def)
  next
    case (Inr i)
    then have up: "insert_mem db mem = (Inr i, snd (insert_mem db mem))" by (metis prod.collapse)
    have "m_namespace r = m_namespace m" if "r \<in> set (db_memories db)" "m_id r = j" for r
      using get_unique [of db r] that \<open>db_ok db\<close> \<open>get db j = Some m\<close> by (auto simp: db_ok_def)
    then have "j \<noteq> i" using insert_mem_hits [OF up] that assms get_mem_ids [of db j] by auto
    then show ?thesis using insert_get_other [OF that(1) up] that by simp
  qed
  then show ?thesis using step_insert [of db mem] by (auto simp: spares_def)
qed

section \<open>Passes and cycles\<close>

lemma rollback_memory_namespace: "m_namespace (rollback_memory env p k entry) \<in> curator_namespaces"
  by (simp add: rollback_memory_def Let_def curator_namespaces_def)

lemma report_memory_namespace: "m_namespace (report_memory env report) \<in> curator_namespaces"
  by (simp add: report_memory_def Let_def curator_namespaces_def)

lemma record_outcome_spares: "spares E (snd res) (snd (record_outcome env dry_run p k tally res report))"
  using spares_insert [OF rollback_memory_namespace, of E "snd res" env p k]
  by (auto simp: record_outcome_def persist_rollback_entry_def spares_refl Let_def split: sum.split option.split prod.splits)
    (metis snd_conv)+

lemma record_outcome_idle: "snd res = snd (record_outcome env True p k tally res report)"
  by (auto simp: record_outcome_def Let_def split: sum.split option.split prod.splits)

lemma snd_outcome: "snd (case x of (Inl e, d) \<Rightarrow> (f e, d) | (Inr r, d) \<Rightarrow> (g r, d)) = snd x"
  by (simp split: prod.split sum.split)

lemma consolidate_cluster_spares: "m_id ` set cluster \<subseteq> E \<Longrightarrow> spares E db (snd (consolidate_cluster env llm k cluster dry_run db))"
  by (simp add: consolidate_cluster_def spares_refl snd_outcome spares_consolidate split: option.split)

lemma forget_spares: "m_id mem \<in> E \<Longrightarrow> spares E db (snd (forget_if_superseded mem mems dry_run db))"
  by (simp add: forget_if_superseded_def Let_def spares_refl spares_delete)

lemma feedback_spares: "m_id mem \<in> E \<Longrightarrow> spares E db (snd (apply_priority_feedback env k mem dry_run db))"
  using spares_update [of "m_id mem" E db]
  by (auto simp: apply_priority_feedback_def Let_def spares_refl split: sum.split prod.splits) (metis snd_conv)+

lemma autonomy_spares:
  assumes "\<And>cluster. cluster \<in> set (find_consolidation_clusters env mems) \<Longrightarrow> m_id ` set cluster \<subseteq> E" "m_id ` set mems \<subseteq> E"
  shows "spares E db (snd (run_autonomy_passes env llm mems dry_run db))"
proof -
  let ?c = "run_pass (\<lambda>k cluster. consolidate_cluster env llm k cluster dry_run) (\<lambda>k. record_outcome env dry_run 1 k count_consolidated)"
  let ?f = "run_pass (\<lambda>k mem. forget_if_superseded mem mems dry_run) (\<lambda>k. record_outcome env dry_run 3 k count_forgotten)"
  let ?p = "run_pass (\<lambda>k mem. apply_priority_feedback env k mem dry_run) (\<lambda>k. record_outcome env dry_run 4 k count_adjusted)"
  have c: "spares E d (snd (?c k (find_consolidation_clusters env mems) r d))" for k r d
    by (rule sparing.run_pass_effect) (simp_all add: record_outcome_spares consolidate_cluster_spares assms(1))
  have f: "spares E d (snd (?f k mems r d))" for k r d
    by (rule sparing.run_pass_effect) (use assms(2) in \<open>auto intro: record_outcome_spares forget_spares\<close>)
  have p: "spares E d (snd (?p k mems r d))" for k r d
    by (rule sparing.run_pass_effect) (use assms(2) in \<open>auto intro: record_outcome_spares feedback_spares\<close>)
  show ?thesis
    unfolding run_autonomy_passes_def Let_def split_def by (intro spares_trans [OF spares_trans [OF c f] p])
qed

lemma autonomy_idle: "db = snd (run_autonomy_passes env llm mems True db)"
proof -
  have c: "d = snd (run_pass (\<lambda>k cluster. consolidate_cluster env llm k cluster True) (\<lambda>k. record_outcome env True 1 k count_consolidated) k cs r d)" for k cs r d
    by (rule idle.run_pass_effect) (auto simp: consolidate_cluster_def split: option.split intro: record_outcome_idle)
  have f: "d = snd (run_pass (\<lambda>k mem. forget_if_superseded mem mems True) (\<lambda>k. record_outcome env True 3 k count_forgotten) k ms r d)" for k ms r d
    by (rule idle.run_pass_effect) (auto simp: forget_if_superseded_def Let_def intro: record_outcome_idle)
  have p: "d = snd (run_pass (\<lambda>k mem. apply_priority_feedback env k mem True) (\<lambda>k. record_outcome env True 4 k count_adjusted) k ms r d)" for k ms r d
    by (rule idle.run_pass_effect) (auto simp: apply_priority_feedback_def Let_def intro: record_outcome_idle)
  show ?thesis
    unfolding run_autonomy_passes_def Let_def split_def by (intro trans [OF trans [OF c f] p])
qed

lemma contradiction_spares: "m_id mem \<in> E \<Longrightarrow> spares E db (snd (curate_contradiction env llm cfg k mem report db))"
  using spares_update [of "m_id mem" E db]
  by (auto simp: curate_contradiction_def persist_contradiction_def Let_def spares_refl split: option.split bool.split sum.split prod.splits)
    (metis snd_conv)+

lemma curate_item_spares:
  assumes "m_id (snd km) \<in> E"
  shows "spares E (snd st) (snd (curate_item env llm cfg km st))"
proof -
  have tags: "spares E db db'" if "persist_auto_tags env k mem tags db = (r, db')" "m_id mem \<in> E" for k mem tags db r db'
    using spares_update [OF that(2)] that(1) by (auto simp: persist_auto_tags_def Let_def) (metis snd_conv)
  note con = contradiction_spares [of "snd km" E, OF assms]
  show ?thesis
    using assms con
    by (auto simp: curate_item_def Let_def spares_refl split: prod.split option.split sum.split intro: tags)
      (blast intro: spares_trans tags)+
qed

lemma curate_item_idle: "cc_dry_run cfg \<Longrightarrow> snd st = snd (curate_item env llm cfg km st)"
  by (auto simp: curate_item_def curate_contradiction_def Let_def split: prod.split option.split bool.split)

section \<open>Clusters\<close>

lemma join_cluster_parts:
  "join_cluster env first n ms = (taken, unused) \<Longrightarrow> mset ms = mset taken + mset unused
     \<and> (\<forall>m \<in> set taken. near_duplicate env first m) \<and> (n \<le> CONSOLIDATE_MAX_CLUSTER_SIZE \<longrightarrow> n + length taken \<le> CONSOLIDATE_MAX_CLUSTER_SIZE)"
proof (induction ms arbitrary: n taken unused)
  case (Cons m ms)
  show ?case
  proof (cases "n \<ge> CONSOLIDATE_MAX_CLUSTER_SIZE")
    case False
    obtain t u where j: "join_cluster env first (if near_duplicate env first m then Suc n else n) ms = (t, u)" by (rule prod.exhaust)
    show ?thesis using Cons.IH [OF j] Cons.prems False j by (auto split: if_splits)
  qed (use Cons.prems in auto)
qed simp

lemma join_cluster_alone:
  "join_cluster env first n ms = ([], unused) \<Longrightarrow> n < CONSOLIDATE_MAX_CLUSTER_SIZE
     \<Longrightarrow> unused = ms \<and> (\<forall>m \<in> set ms. \<not> near_duplicate env first m)"
  by (induction ms arbitrary: unused) (auto split: if_splits prod.splits)

lemma join_cluster_unused:
  "join_cluster env first n ms = (taken, unused) \<Longrightarrow> distinct ms \<Longrightarrow> unused = filter (\<lambda>m. m \<notin> set taken) ms"
proof (induction ms arbitrary: n taken unused)
  case (Cons m ms)
  show ?case
  proof (cases "n \<ge> CONSOLIDATE_MAX_CLUSTER_SIZE")
    case False
    obtain t u where j: "join_cluster env first (if near_duplicate env first m then Suc n else n) ms = (t, u)" by (rule prod.exhaust)
    have "set t \<subseteq> set ms" using join_cluster_parts [OF j] by (metis set_mset_mset set_mset_union sup_ge1)
    moreover have "u = filter (\<lambda>m. m \<notin> set t) ms" using Cons.IH [OF j] Cons.prems by simp
    ultimately show ?thesis using Cons.prems False j by (auto split: if_splits intro!: filter_cong)
  qed (use Cons.prems in auto)
qed simp

definition cluster_ok :: "curator_env \<Rightarrow> Memory list \<Rightarrow> bool" where
  "cluster_ok env c = (2 \<le> length c \<and> length c \<le> CONSOLIDATE_MAX_CLUSTER_SIZE \<and> (\<forall>m \<in> set (tl c). near_duplicate env (hd c) m))"

lemma cluster_group_parts:
  "mset (concat (cluster_group env ms)) \<subseteq># mset ms \<and> (\<forall>c \<in> set (cluster_group env ms). cluster_ok env c)"
proof (induction env ms rule: cluster_group.induct)
  case (2 env m ms)
  obtain t u where j: "join_cluster env m 1 ms = (t, u)" by (rule prod.exhaust)
  note IH = "2.IH" [OF j [symmetric]]
  note parts = join_cluster_parts [OF j]
  have "mset (concat (cluster_group env (m # ms))) \<subseteq># mset (m # t) + mset (concat (cluster_group env u))"
    using j by (simp add: subset_mset.add_increasing)
  also have "\<dots> \<subseteq># mset (m # t) + mset u" using IH by simp
  finally show ?case using IH parts j by (auto simp: cluster_ok_def CONSOLIDATE_MAX_CLUSTER_SIZE_def Suc_le_eq)
qed simp

text \<open>Of what remains outside the clusters, no memory is a near-duplicate of an earlier one.\<close>

lemma cluster_group_maximal:
  "distinct ms \<Longrightarrow> sorted_wrt (\<lambda>a b. \<not> near_duplicate env a b) (filter (\<lambda>m. m \<notin> set (concat (cluster_group env ms))) ms)"
proof (induction env ms rule: cluster_group.induct)
  case (2 env m ms)
  obtain t u where j: "join_cluster env m 1 ms = (t, u)" by (rule prod.exhaust)
  have ms: "mset ms = mset t + mset u" using join_cluster_parts [OF j] by simp
  show ?case
  proof (cases "t = []")
    case True
    then have u: "u = ms" "\<forall>x \<in> set ms. \<not> near_duplicate env m x"
      using join_cluster_alone [of env m 1 ms u] j by (simp_all add: CONSOLIDATE_MAX_CLUSTER_SIZE_def)
    then show ?thesis using "2.IH" [OF j [symmetric]] "2.prems" j True by auto
  next
    case False
    have "distinct u" using "2.prems" ms by (metis distinct.simps(2) distinct_append mset_append mset_eq_imp_distinct_iff)
    moreover have "filter (\<lambda>x. x \<notin> set (concat (cluster_group env (m # ms)))) (m # ms)
        = filter (\<lambda>x. x \<notin> set (concat (cluster_group env u))) u"
      using False j join_cluster_unused [OF j] "2.prems" by (auto intro!: filter_cong)
    ultimately show ?thesis using "2.IH" [OF j [symmetric]] by simp
  qed
qed simp

lemma sum_filter_namespaces:
  "distinct nss \<Longrightarrow> sum_list (map (\<lambda>ns. mset (filter (\<lambda>m. f m = ns) xs)) nss) = mset (filter (\<lambda>m. f m \<in> set nss) xs)"
proof (induction nss)
  case (Cons ns nss)
  have "filter_mset (\<lambda>m. f m = ns) M + filter_mset (\<lambda>m. f m \<in> set nss) M = filter_mset (\<lambda>m. f m = ns \<or> f m \<in> set nss) M"
    if "ns \<notin> set nss" for M using that by (induction M) auto
  then show ?case using Cons by simp
qed simp

lemma sorted_wrt_groups:
  "(\<And>ns. sorted_wrt R (filter (\<lambda>m. f m = ns) xs)) \<Longrightarrow> sorted_wrt (\<lambda>a b. f a = f b \<longrightarrow> R a b) xs"
proof (induction xs)
  case (Cons x xs)
  have "sorted_wrt R (filter (\<lambda>m. f m = ns) xs)" for ns using Cons.prems [of ns] by (auto split: if_splits)
  moreover have "R x b" if "b \<in> set xs" "f x = f b" for b using Cons.prems [of "f x"] that by auto
  ultimately show ?case using Cons.IH by auto
qed simp

definition open_ones :: "Memory list \<Rightarrow> Memory list" where
  "open_ones mems = filter (\<lambda>m. \<not> reserved (m_namespace m)) mems"

definition group_of :: "Memory list \<Rightarrow> str \<Rightarrow> Memory list" where
  "group_of mems ns = filter (\<lambda>m. m_namespace m = ns) (open_ones mems)"

lemma find_clusters_eq:
  "find_consolidation_clusters env mems
     = concat (map (\<lambda>ns. cluster_group env (group_of mems ns)) (cv_order env (remdups (map m_namespace (open_ones mems)))))"
  by (simp add: find_consolidation_clusters_def Let_def group_of_def open_ones_def)

lemma clusters_subset: "mset (concat (find_consolidation_clusters env mems)) \<subseteq># mset mems"
  if order: "\<And>xs. mset (cv_order env xs) = mset xs"
proof -
  let ?nss = "cv_order env (remdups (map m_namespace (open_ones mems)))"
  have dist: "distinct ?nss" using order by (metis distinct_remdups mset_eq_imp_distinct_iff)
  have "mset (concat (concat (map (\<lambda>ns. cluster_group env (group_of mems ns)) nss)))
      \<subseteq># sum_list (map (\<lambda>ns. mset (group_of mems ns)) nss)" for nss
    using cluster_group_parts by (induction nss) (auto intro: subset_mset.add_mono)
  also have "sum_list (map (\<lambda>ns. mset (group_of mems ns)) ?nss) \<subseteq># mset (open_ones mems)"
    unfolding group_of_def sum_filter_namespaces [OF dist] by simp
  also have "mset (open_ones mems) \<subseteq># mset mems" by (simp add: open_ones_def)
  finally show ?thesis unfolding find_clusters_eq .
qed

text \<open>C30: Consolidation clusters are exact: no memory is in two of them, each has two to eight members of one namespace that is
  not reserved, all near-duplicates of the first, and of the memories left over no one is a near-duplicate of an earlier one in
  its namespace.\<close>

theorem clusters_exact:
  assumes order: "\<And>xs. mset (cv_order env xs) = mset xs" and dist: "distinct mems"
  shows "mset (concat (find_consolidation_clusters env mems)) \<subseteq># mset mems
    \<and> (\<forall>c \<in> set (find_consolidation_clusters env mems). 2 \<le> length c \<and> length c \<le> 8
         \<and> (\<forall>m \<in> set c. m_namespace m = m_namespace (hd c) \<and> \<not> reserved (m_namespace m))
         \<and> (\<forall>m \<in> set (tl c). near_duplicate env (hd c) m))
    \<and> sorted_wrt (\<lambda>a b. m_namespace a = m_namespace b \<longrightarrow> \<not> near_duplicate env a b)
        (filter (\<lambda>m. \<not> reserved (m_namespace m) \<and> m \<notin> set (concat (find_consolidation_clusters env mems))) mems)"
proof (intro conjI ballI)
  let ?cs = "find_consolidation_clusters env mems" and ?nss = "cv_order env (remdups (map m_namespace (open_ones mems)))"
  show "mset (concat ?cs) \<subseteq># mset mems" by (rule clusters_subset [OF order])
  have group: "set (concat (cluster_group env (group_of mems ns))) \<subseteq> set (group_of mems ns)" for ns
    using cluster_group_parts [of env "group_of mems ns"] by (metis set_mset_mono set_mset_mset)
  fix c assume "c \<in> set ?cs"
  then obtain ns where c: "c \<in> set (cluster_group env (group_of mems ns))" by (auto simp: find_clusters_eq)
  then have ok: "cluster_ok env c" using cluster_group_parts by blast
  then show "2 \<le> length c" "length c \<le> 8" by (simp_all add: cluster_ok_def CONSOLIDATE_MAX_CLUSTER_SIZE_def)
  show "near_duplicate env (hd c) m" if "m \<in> set (tl c)" for m using ok that by (simp add: cluster_ok_def)
  have in_group: "m_namespace m = ns \<and> \<not> reserved (m_namespace m)" if "m \<in> set c" for m
    using group [of ns] c that by (auto simp: group_of_def open_ones_def)
  show "m_namespace m = m_namespace (hd c)" "\<not> reserved (m_namespace m)" if "m \<in> set c" for m
    using in_group [OF that] in_group [of "hd c"] that by (cases c; simp)+
next
  let ?cs = "find_consolidation_clusters env mems"
  let ?left = "filter (\<lambda>m. \<not> reserved (m_namespace m) \<and> m \<notin> set (concat ?cs)) mems"
  have nss: "set (cv_order env xs) = set xs" for xs using order by (metis set_mset_mset)
  show "sorted_wrt (\<lambda>a b. m_namespace a = m_namespace b \<longrightarrow> \<not> near_duplicate env a b) ?left"
  proof (rule sorted_wrt_groups)
    fix ns
    have group: "set (concat (cluster_group env (group_of mems ns'))) \<subseteq> set (group_of mems ns')" for ns'
      using cluster_group_parts [of env "group_of mems ns'"] by (metis set_mset_mono set_mset_mset)
    have "m \<in> set (concat ?cs) \<longleftrightarrow> m \<in> set (concat (cluster_group env (group_of mems ns)))" if "m \<in> set (group_of mems ns)" for m
    proof -
      have "ns \<in> set (cv_order env (remdups (map m_namespace (open_ones mems))))"
        using that by (auto simp: nss group_of_def)
      moreover have "ns' = ns" if "m \<in> set (concat (cluster_group env (group_of mems ns')))" for ns'
        using group [of ns'] that \<open>m \<in> set (group_of mems ns)\<close> by (auto simp: group_of_def)
      ultimately show ?thesis unfolding find_clusters_eq by auto
    qed
    then have "filter (\<lambda>m. m_namespace m = ns) ?left
        = filter (\<lambda>m. m \<notin> set (concat (cluster_group env (group_of mems ns)))) (group_of mems ns)"
      by (auto simp: group_of_def open_ones_def intro!: filter_cong)
    moreover have "distinct (group_of mems ns)" using dist by (simp add: group_of_def open_ones_def)
    ultimately show "sorted_wrt (\<lambda>a b. \<not> near_duplicate env a b) (filter (\<lambda>m. m_namespace m = ns) ?left)"
      using cluster_group_maximal by metis
  qed
qed

section \<open>The cycle\<close>

lemma listed_row: "m \<in> set (list_memories ser now db q limit offset) \<Longrightarrow> \<exists>r \<in> set (db_memories db). m = row_to_memory r \<and> list_where ser now q r"
  by (auto simp: list_memories_def dest!: in_set_takeD in_set_dropD)

lemma candidate_stored:
  assumes "db_ok db" "m \<in> set (fst (collect_candidates env cfg db))"
  shows "get db (m_id m) = Some m \<and> m_tier m \<noteq> Short"
proof -
  obtain tier r where "r \<in> set (db_memories db)" "m = row_to_memory r" "m_tier r = tier" "tier \<noteq> Short"
    using assms(2) by (auto simp: collect_candidates_def Let_def no_filter_def list_where_def opt_ok_def dest!: listed_row)
  then show ?thesis using get_unique [of db r] assms(1) by (simp add: db_ok_def)
qed

text \<open>An item is attempted while the cap is not reached and skipped afterwards.\<close>

lemma curate_item_counts:
  fixes st :: "CuratorReport \<times> Db"
  defines "n \<equiv> cr_operations_attempted (fst st)"
  shows "cr_operations_attempted (fst (curate_item env llm cfg km st)) = (if n < cc_max_ops_per_cycle cfg then Suc n else n)"
    and "cr_operations_skipped_cap (fst (curate_item env llm cfg km st))
      = cr_operations_skipped_cap (fst st) + (if n < cc_max_ops_per_cycle cfg then 0 else 1)"
    and "\<not> n < cc_max_ops_per_cycle cfg \<Longrightarrow> snd (curate_item env llm cfg km st) = snd st"
proof -
  have c: "cr_operations_attempted (fst (curate_contradiction env llm cfg k mem r db)) = cr_operations_attempted r"
    "cr_operations_skipped_cap (fst (curate_contradiction env llm cfg k mem r db)) = cr_operations_skipped_cap r" for k mem r db
    by (auto simp: curate_contradiction_def Let_def failed_def split: option.split bool.split sum.split prod.split)
  show "cr_operations_attempted (fst (curate_item env llm cfg km st)) = (if n < cc_max_ops_per_cycle cfg then Suc n else n)"
    by (auto simp: n_def curate_item_def Let_def failed_def c split: prod.split option.split sum.split)
  show "cr_operations_skipped_cap (fst (curate_item env llm cfg km st))
      = cr_operations_skipped_cap (fst st) + (if n < cc_max_ops_per_cycle cfg then 0 else 1)"
    by (auto simp: n_def curate_item_def Let_def failed_def c split: prod.split option.split sum.split)
  show "\<not> n < cc_max_ops_per_cycle cfg \<Longrightarrow> snd (curate_item env llm cfg km st) = snd st"
    by (auto simp: n_def curate_item_def split: prod.split)
qed

lemma curate_items_counts:
  fixes kms :: "(nat \<times> Memory) list" and cfg :: CuratorConfig
  defines "room st \<equiv> cc_max_ops_per_cycle cfg - cr_operations_attempted (fst st)"
  shows "cr_operations_attempted (fst (fold (curate_item env llm cfg) kms st)) = cr_operations_attempted (fst st) + min (length kms) (room st)
    \<and> cr_operations_skipped_cap (fst (fold (curate_item env llm cfg) kms st)) = cr_operations_skipped_cap (fst st) + (length kms - room st)
    \<and> spares (m_id ` snd ` set (take (room st) kms)) (snd st) (snd (fold (curate_item env llm cfg) kms st))"
proof (induction kms arbitrary: st)
  case (Cons km kms)
  let ?st = "curate_item env llm cfg km st"
  note item = curate_item_counts [where env = env and llm = llm and cfg = cfg and km = km and st = st]
  show ?case
  proof (cases "cr_operations_attempted (fst st) < cc_max_ops_per_cycle cfg")
    case True
    then have r: "room st = Suc (room ?st)" by (simp add: room_def item)
    have "spares (m_id ` snd ` set (take (room st) (km # kms))) (snd st) (snd ?st)" by (rule curate_item_spares) (simp add: r)
    moreover have "spares (m_id ` snd ` set (take (room st) (km # kms))) (snd ?st) (snd (fold (curate_item env llm cfg) kms ?st))"
      unfolding r by (rule spares_mono [OF Cons.IH [of ?st, THEN conjunct2, THEN conjunct2]]) auto
    ultimately have "spares (m_id ` snd ` set (take (room st) (km # kms))) (snd st) (snd (fold (curate_item env llm cfg) kms ?st))"
      by (rule spares_trans)
    then show ?thesis using True Cons.IH [of ?st] by (simp add: r item)
  next
    case False
    then have r: "room st = 0" "room ?st = 0" by (simp_all add: room_def item)
    show ?thesis using Cons.IH [of ?st] False by (simp add: r item)
  qed
qed (simp add: spares_refl)

lemma run_once_effect:
  assumes "run_once env llm cfg db = (report, db')" "\<And>xs. mset (cv_order env xs) = mset xs"
  defines "eligible \<equiv> filter (needs_curation cfg) (fst (collect_candidates env cfg db))"
  shows "spares (m_id ` set eligible) db db' \<and> (cc_dry_run cfg \<or> llm = None \<longrightarrow> db' = db)
    \<and> (\<forall>client. llm = Some client \<longrightarrow> cr_operations_attempted report = min (length eligible) (cc_max_ops_per_cycle cfg)
         \<and> cr_operations_skipped_cap report = length eligible - cc_max_ops_per_cycle cfg
         \<and> (\<exists>db1. spares (m_id ` set (take (cc_max_ops_per_cycle cfg) eligible)) db db1
              \<and> spares {} (snd (run_autonomy_passes env client eligible (cc_dry_run cfg) db1)) db'))"
proof (cases llm)
  case None
  with assms show ?thesis
    by (auto simp: run_once_def Let_def completed_def failed_def record_truncation_def report_new_def spares_refl split: prod.splits)
next
  case (Some client)
  let ?E = "m_id ` set eligible"
  obtain mems truncated where c: "collect_candidates env cfg db = (mems, truncated)" by (rule prod.exhaust)
  have el: "eligible = filter (needs_curation cfg) mems" by (simp add: eligible_def c)
  define report0 where "report0 = (record_truncation ((report_new env cfg)\<lparr>cr_memories_scanned := length mems\<rparr>) truncated cfg)
              \<lparr>cr_memories_eligible := length eligible\<rparr>"
  obtain report1 db1 where f: "fold (curate_item env client cfg) (enumerate 0 eligible) (report0, db) = (report1, db1)" by (rule prod.exhaust)
  obtain passes db2 where p: "run_autonomy_passes env client eligible (cc_dry_run cfg) db1 = (passes, db2)" by (rule prod.exhaust)
  define report2 where "report2 = completed env (report1\<lparr>cr_errors := cr_errors report1 @ ar_errors passes, cr_autonomy := passes\<rparr>)"
  have run: "report = report2" "db' = (if cc_dry_run cfg then db2 else snd (persist_self_report env report2 db2))"
    using assms(1) Some c f p by (auto simp: run_once_def Let_def el report0_def report2_def)
  have "spares ?E (snd (report0, db)) (snd (fold (curate_item env client cfg) (enumerate 0 eligible) (report0, db)))"
    by (rule sparing.fold_effect) (auto intro!: curate_item_spares simp: in_set_enumerate_eq)
  then have s1: "spares ?E db db1" by (simp add: f)
  have "m_id ` set cl \<subseteq> ?E" if "cl \<in> set (find_consolidation_clusters env eligible)" for cl
  proof -
    have "set cl \<subseteq> set (concat (find_consolidation_clusters env eligible))" using that by auto
    also have "\<dots> \<subseteq> set eligible" using clusters_subset [OF assms(2), of eligible] by (metis set_mset_mono set_mset_mset)
    finally show ?thesis by blast
  qed
  then have "spares ?E db1 (snd (run_autonomy_passes env client eligible (cc_dry_run cfg) db1))" by (rule autonomy_spares) (assumption, rule subset_refl)
  then have s2: "spares ?E db1 db2" by (simp add: p)
  have s3: "spares ?E db2 db'"
    by (simp add: run(2) persist_self_report_def spares_refl spares_insert [OF report_memory_namespace])
  have "snd (report0, db) = snd (fold (curate_item env client cfg) (enumerate 0 eligible) (report0, db))" if "cc_dry_run cfg"
    by (rule idle.fold_effect) (rule curate_item_idle [OF that])
  then have dry: "db' = db" if "cc_dry_run cfg" using that f p autonomy_idle [of db1 env client eligible] by (simp add: run(2))
  have "cr_operations_attempted report0 = 0" "cr_operations_skipped_cap report0 = 0"
    by (simp_all add: report0_def record_truncation_def failed_def report_new_def)
  moreover have "snd ` set (take n (enumerate 0 eligible)) = set (take n eligible)" for n
    by (metis list.set_map map_snd_enumerate take_map)
  ultimately have loop: "cr_operations_attempted report1 = min (length eligible) (cc_max_ops_per_cycle cfg)"
    "cr_operations_skipped_cap report1 = length eligible - cc_max_ops_per_cycle cfg"
    "spares (m_id ` set (take (cc_max_ops_per_cycle cfg) eligible)) db db1"
    using curate_items_counts [of env client cfg "enumerate 0 eligible" "(report0, db)"] by (simp_all add: f)
  have "spares {} db2 db'" by (simp add: run(2) persist_self_report_def spares_refl spares_insert [OF report_memory_namespace])
  then have rest: "spares {} (snd (run_autonomy_passes env client eligible (cc_dry_run cfg) db1)) db'" by (simp add: p)
  have "spares ?E db db'" by (rule spares_trans [OF spares_trans [OF s1 s2] s3])
  then show ?thesis using dry Some loop(1,2) conjI [OF loop(3) rest] by (auto simp: run(1) report2_def completed_def)
qed

text \<open>C28: A curator cycle is a sequence of store operations, so a reachable store stays reachable. It changes only memories that
  were eligible: one whose namespace is reserved or not configured, whose text is short, that was tagged before or is of the short
  tier stays as it was, unless it is one of the curator's own logs. A dry run, or one without a language model, changes nothing.
  The first eligible memories, up to the cap, are attempted and the others counted as skipped: until the autonomy passes start,
  nothing but the attempted memories has changed. The cap limits neither those passes nor the number of calls of the model.\<close>

theorem curator_cycle_contract:
  assumes ok: "db_ok db" and run: "run_once env llm cfg db = (report, db')" and order: "\<And>xs. mset (cv_order env xs) = mset xs"
  defines "eligible \<equiv> filter (needs_curation cfg) (fst (collect_candidates env cfg db))"
  shows "local_step\<^sup>*\<^sup>* db db' \<and> db_ok db' \<and> (cc_dry_run cfg \<or> llm = None \<longrightarrow> db' = db)
    \<and> (\<forall>j m. get db j = Some m \<and> (\<not> needs_curation cfg m \<or> m_tier m = Short) \<and> m_namespace m \<notin> curator_namespaces
         \<longrightarrow> get db' j = Some m)
    \<and> (\<forall>client. llm = Some client \<longrightarrow> cr_operations_attempted report = min (length eligible) (cc_max_ops_per_cycle cfg)
         \<and> cr_operations_skipped_cap report = length eligible - cc_max_ops_per_cycle cfg
         \<and> (\<exists>db1. spares (m_id ` set (take (cc_max_ops_per_cycle cfg) eligible)) db db1
              \<and> spares {} (snd (run_autonomy_passes env client eligible (cc_dry_run cfg) db1)) db'))"
proof -
  note eff = run_once_effect [OF run order, folded eligible_def]
  have "j \<notin> m_id ` set eligible" if "get db j = Some m" "\<not> needs_curation cfg m \<or> m_tier m = Short" for j m
    using that candidate_stored [OF ok] unfolding eligible_def by fastforce
  then have "\<forall>j m. get db j = Some m \<and> (\<not> needs_curation cfg m \<or> m_tier m = Short) \<and> m_namespace m \<notin> curator_namespaces
      \<longrightarrow> get db' j = Some m"
    using eff ok by (auto simp: spares_def)
  then show ?thesis using eff local_steps_kept [of db db'] ok unfolding spares_def [of "m_id ` set eligible"] by blast
qed

section \<open>Reversal\<close>

lemma no_collision:
  assumes "(m_title m, m_namespace m) \<notin> title_key ` set (db_memories db)"
  shows "check_no_collision env now db m = Inr ()"
proof -
  have "List.find (\<lambda>row. m_namespace row = m_namespace m \<and> m_title row = m_title m \<and> m_id row \<noteq> m_id m)
      (list_memories ser now db q limit offset) = None" for ser q limit offset
    unfolding find_None_iff using assms by (force simp: title_key_def dest!: listed_row)
  then show ?thesis by (simp add: check_no_collision_def)
qed

lemma insert_new:
  assumes "(m_title m, m_namespace m) \<notin> title_key ` set (db_memories db)" "m_id m \<notin> mem_ids db" "m_confidence m \<noteq> NaN"
  shows "insert_mem db m = (Inr (m_id m), db\<lparr>db_memories := db_memories db @ [row_of m]\<rparr>)"
proof -
  have "sql_row (\<lambda>r. m_title r = m_title m \<and> m_namespace r = m_namespace m) (db_memories db) = None"
    using assms(1) by (auto simp: sql_row_None title_key_def image_iff)
  moreover have "sql_row (\<lambda>r. m_id r = m_id m) (db_memories db) = None" using assms(2) by (auto simp: sql_row_None mem_ids_def image_iff)
  ultimately show ?thesis using assms(3) by (simp add: insert_mem_def sql_upsert_def)
qed

definition memory_key :: "Memory \<Rightarrow> str \<times> str" where
  "memory_key m = (m_title m, m_namespace m)"

lemma title_key_row_of [simp]: "title_key (row_of m) = memory_key m" "m_id (row_of m) = m_id m"
  by (simp_all add: title_key_def row_of_def memory_key_def)

lemma insert_all_new:
  assumes "db_ok db" "distinct (map m_id ms)" "distinct (map memory_key ms)"
    and "\<And>m. m \<in> set ms \<Longrightarrow> m_id m \<notin> mem_ids db \<and> memory_key m \<notin> title_key ` set (db_memories db) \<and> m_confidence m \<noteq> NaN"
  shows "\<exists>db'. insert_all ms db = (Inr (), db') \<and> db_ok db' \<and> db_memories db' = db_memories db @ map row_of ms"
  using assms
proof (induction ms arbitrary: db)
  case (Cons m ms)
  let ?db1 = "db\<lparr>db_memories := db_memories db @ [row_of m]\<rparr>"
  have m: "(m_title m, m_namespace m) \<notin> title_key ` set (db_memories db)" "m_id m \<notin> mem_ids db" "m_confidence m \<noteq> NaN"
    using Cons.prems(4) [of m] by (simp_all add: memory_key_def)
  have "db_ok ?db1" using db_ok_append [OF Cons.prems(1)] m by simp
  moreover have "m_id x \<notin> mem_ids ?db1 \<and> memory_key x \<notin> title_key ` set (db_memories ?db1) \<and> m_confidence x \<noteq> NaN"
    if "x \<in> set ms" for x
    using Cons.prems(2,3) Cons.prems(4) [of x] that by (auto simp: mem_ids_def image_iff)
  ultimately show ?case using Cons.IH [of ?db1] Cons.prems(2,3) by (auto simp: insert_new [OF m])
qed simp

text \<open>
  The passes are handed copies of memories that were read earlier. A copy matches the store when a memory of its id, title and
  namespace is still there, whatever else of it has changed; its place is free when neither its id nor its title is taken.
\<close>

definition copy_matches :: "Db \<Rightarrow> Memory \<Rightarrow> bool" where
  "copy_matches db m = (\<exists>m'. get db (m_id m) = Some m' \<and> memory_key m' = memory_key m)"

definition place_free :: "Db \<Rightarrow> Memory \<Rightarrow> bool" where
  "place_free db m = (get db (m_id m) = None \<and> list_all (\<lambda>r. (m_title r, m_namespace r) \<noteq> (m_title m, m_namespace m)) (db_memories db))"

lemma place_free_iff: "place_free db m \<longleftrightarrow> m_id m \<notin> mem_ids db \<and> memory_key m \<notin> title_key ` set (db_memories db)"
  by (force simp: place_free_def get_mem_ids list_all_iff memory_key_def title_key_def image_iff)

lemma copy_row:
  assumes "copy_matches db m"
  obtains r where "r \<in> set (db_memories db)" "m_id r = m_id m" "title_key r = memory_key m"
  using assms by (auto simp: copy_matches_def memory_key_def title_key_def dest!: get_SomeD)

lemma copies_distinct:
  assumes ok: "db_ok db" and copies: "\<And>m. m \<in> set ms \<Longrightarrow> copy_matches db m" and dist: "distinct (map m_id ms)"
  shows "distinct (map memory_key ms)"
proof -
  have "inj_on memory_key (set ms)"
  proof (rule inj_onI)
    fix a b assume ab: "a \<in> set ms" "b \<in> set ms" "memory_key a = memory_key b"
    obtain ra rb where "ra \<in> set (db_memories db)" "m_id ra = m_id a" "title_key ra = memory_key a"
      "rb \<in> set (db_memories db)" "m_id rb = m_id b" "title_key rb = memory_key b"
      using copy_row [OF copies [OF ab(1)]] copy_row [OF copies [OF ab(2)]] by metis
    then have "m_id a = m_id b" using ok ab(3) by (metis db_ok_def memories_ok_def unique_key_inj)
    then show "a = b" using dist ab(1,2) by (simp add: distinct_map inj_on_def)
  qed
  then show ?thesis using dist by (simp add: distinct_map)
qed

text \<open>Deleting memories frees the places of their copies.\<close>

lemma place_freed:
  assumes ok: "db_ok db" and m: "copy_matches db m" "m_id m \<in> I"
    and rows: "set (db_memories db') \<subseteq> {r \<in> set (db_memories db). m_id r \<notin> I} \<union> new"
    and new: "\<And>r. r \<in> new \<Longrightarrow> m_id r \<notin> mem_ids db \<and> title_key r \<notin> title_key ` set (db_memories db)"
  shows "place_free db' m"
proof -
  obtain q where q: "q \<in> set (db_memories db)" "m_id q = m_id m" "title_key q = memory_key m" by (rule copy_row [OF m(1)])
  have "r = q" if "r \<in> set (db_memories db)" "title_key r = memory_key m" for r
    using ok q that by (auto simp: db_ok_def memories_ok_def dest: unique_key_inj [of title_key])
  then have old: "m_id r \<noteq> m_id m \<and> title_key r \<noteq> memory_key m" if "r \<in> set (db_memories db)" "m_id r \<notin> I" for r
    using that q(2) m(2) by metis
  have "m_id r \<noteq> m_id m \<and> title_key r \<noteq> memory_key m" if "r \<in> new" for r
    using new [OF that] q imageI [OF q(1), of m_id] imageI [OF q(1), of title_key] unfolding mem_ids_def by metis
  with old rows have "m_id r \<noteq> m_id m \<and> title_key r \<noteq> memory_key m" if "r \<in> set (db_memories db')" for r
    using that by blast
  then have "m_id m \<notin> mem_ids db'" "memory_key m \<notin> title_key ` set (db_memories db')" unfolding mem_ids_def by (metis imageE)+
  then show ?thesis by (simp add: place_free_iff)
qed

text \<open>Memories whose places are free come back by insertion, and nothing else changes.\<close>

lemma copies_inserted:
  assumes ok: "db_ok db" and free: "\<And>m. m \<in> set ms \<Longrightarrow> place_free db m \<and> m_confidence m \<noteq> NaN"
    and dist: "distinct (map m_id ms)" "distinct (map memory_key ms)"
  shows "\<exists>db2. insert_all ms db = (Inr (), db2) \<and> (\<forall>m \<in> set ms. get db2 (m_id m) = Some m)
    \<and> (\<forall>j. j \<notin> m_id ` set ms \<longrightarrow> get db2 j = get db j)"
proof -
  obtain db2 where db2: "insert_all ms db = (Inr (), db2)" "db_ok db2" "db_memories db2 = db_memories db @ map row_of ms"
    using insert_all_new [OF ok dist] free by (auto simp: place_free_iff)
  have "get db2 (m_id m) = Some m" if "m \<in> set ms" for m
    using get_unique [of db2 "row_of m"] db2(2,3) that by (simp add: db_ok_def)
  moreover have "get db2 j = get db j" if "j \<notin> m_id ` set ms" for j
  proof -
    have "{r \<in> set (db_memories db2). m_id r = j} = {r \<in> set (db_memories db). m_id r = j}" using that by (auto simp: db2(3))
    then show ?thesis by (simp add: get_cong [OF db2(2) ok])
  qed
  ultimately show ?thesis using db2(1) by blast
qed

lemma consolidate_reversed:
  assumes ok: "db_ok db" and free: "\<And>m. m \<in> set ms \<Longrightarrow> place_free db m \<and> m_confidence m \<noteq> NaN"
    and dist: "distinct (map m_id ms)" "distinct (map memory_key ms)" and rid: "rid \<notin> m_id ` set ms"
  shows "\<exists>db2. reverse_rollback_entry env now (Consolidate ms rid) db = (Inr (get db rid \<noteq> None), db2)
    \<and> (\<forall>m \<in> set ms. get db2 (m_id m) = Some m) \<and> get db2 rid = None
    \<and> (\<forall>j. j \<notin> insert rid (m_id ` set ms) \<longrightarrow> get db2 j = get db j)"
proof -
  let ?db1 = "snd (delete db rid)"
  have "check_no_collision env now db m = Inr ()" if "m \<in> set ms" for m
    using free [OF that] by (intro no_collision) (simp add: place_free_iff memory_key_def)
  then have checked: "first_err (map (check_no_collision env now db) ms) = Inr ()" by (induction ms) auto
  have "fst (delete db rid) = (get db rid \<noteq> None)"
    unfolding get_mem_ids delete_def Let_def fst_conv sql_count_def mem_ids_def by (auto simp: filter_empty_conv)
  then have gone: "delete db rid = (get db rid \<noteq> None, ?db1)" by (simp add: prod_eq_iff)
  have "place_free ?db1 m \<and> m_confidence m \<noteq> NaN" if "m \<in> set ms" for m
    using free [OF that] by (auto simp: place_free_iff mem_ids_def delete_memories_set)
  then obtain db2 where db2: "insert_all ms ?db1 = (Inr (), db2)" "\<forall>m \<in> set ms. get db2 (m_id m) = Some m"
      "\<forall>j. j \<notin> m_id ` set ms \<longrightarrow> get db2 j = get ?db1 j"
    using copies_inserted [OF delete_ok [OF ok] _ dist] by blast
  have "reverse_rollback_entry env now (Consolidate ms rid) db = (Inr (get db rid \<noteq> None), db2)"
    unfolding reverse_rollback_entry.simps checked sum.case by (subst gone) (simp add: db2(1))
  with db2(2,3) rid show ?thesis by (auto simp: delete_get [OF ok])
qed

lemma forget_undone:
  assumes ok: "db_ok db" and free: "place_free db m" "m_confidence m \<noteq> NaN"
  shows "\<exists>db2. reverse_rollback_entry env now (Forget m) db = (Inr True, db2) \<and> get db2 (m_id m) = Some m
    \<and> (\<forall>j. j \<noteq> m_id m \<longrightarrow> get db2 j = get db j)"
proof -
  have "check_no_collision env now db m = Inr ()" using free by (intro no_collision) (simp add: place_free_iff memory_key_def)
  moreover obtain db2 where "insert_all [m] db = (Inr (), db2)" "get db2 (m_id m) = Some m" "\<forall>j. j \<noteq> m_id m \<longrightarrow> get db2 j = get db j"
    using copies_inserted [OF ok, of "[m]"] free by auto
  ultimately show ?thesis by (auto split: prod.splits sum.splits)
qed

lemma consolidate_cluster_done:
  assumes "consolidate_cluster env llm k cluster False db = (Inr (Some entry), db1)"
  shows "\<exists>summary new_id. entry = Consolidate cluster new_id
    \<and> consolidate (cv_ser env) (cv_uuid env 0 k) (cv_now env 0 k) db (map m_id cluster) (''[consolidated] '' @ m_title (hd cluster))
       summary (m_namespace (hd cluster)) (highest_tier cluster) ''ai-memory curator (autonomy)'' ''ai:curator'' = (Inr new_id, db1)"
  using assms by (auto simp: consolidate_cluster_def split: if_splits option.splits prod.splits sum.splits)

lemma consolidation_frees:
  assumes ok: "db_ok db" and copies: "\<And>m. m \<in> set cluster \<Longrightarrow> copy_matches db m"
    and run: "consolidate_cluster env llm k cluster False db = (Inr (Some entry), db1)"
  shows "\<exists>rid. entry = Consolidate cluster rid \<and> rid \<notin> m_id ` set cluster \<and> get db rid = None \<and> get db1 rid \<noteq> None
    \<and> (\<forall>m \<in> set cluster. place_free db1 m)"
proof -
  obtain summary rid where entry: "entry = Consolidate cluster rid" and
    c: "consolidate (cv_ser env) (cv_uuid env 0 k) (cv_now env 0 k) db (map m_id cluster) (''[consolidated] '' @ m_title (hd cluster))
       summary (m_namespace (hd cluster)) (highest_tier cluster) ''ai-memory curator (autonomy)'' ''ai:curator'' = (Inr rid, db1)"
    using consolidate_cluster_done [OF run] by blast
  from c show ?thesis
  proof (cases rule: consolidate_cases)
    case (done' co mem)
    have new: "rid \<notin> mem_ids db" "m_id (row_of mem) = rid" using done'(1,3,5) by simp_all
    have fresh: "title_key (row_of mem) \<notin> title_key ` set (db_memories db)" using done'(4,7,8) by (simp add: memory_key_def)
    have "m_id m \<in> mem_ids db" if "m \<in> set cluster" for m using copies [OF that] get_mem_ids [of db "m_id m"] by (auto simp: copy_matches_def)
    then have rid: "rid \<notin> m_id ` set cluster" using new(1) by auto
    have rows: "set (db_memories db1) = {r \<in> set (db_memories db). m_id r \<notin> m_id ` set cluster} \<union> {row_of mem}"
      using new rid unfolding done'(14) delete_all_memories by auto
    have "place_free db1 m" if "m \<in> set cluster" for m
      by (rule place_freed [OF ok copies [OF that] imageI [OF that] equalityD1 [OF rows]]) (use new fresh in auto)
    moreover have "get db1 rid \<noteq> None" using new(2) unfolding get_mem_ids mem_ids_def rows by auto
    ultimately show ?thesis using entry rid new(1) by (auto simp: get_mem_ids)
  qed simp
qed

lemma priority_update:
  assumes ok: "db_ok db" and conf: "\<And>r. r \<in> set (db_memories db) \<Longrightarrow> m_confidence r \<noteq> NaN" and m: "get db i = Some m"
  shows "\<exists>c. update now db i (no_update\<lparr>u_priority := Some p\<rparr>) = (Inr (True, c), snd (update now db i (no_update\<lparr>u_priority := Some p\<rparr>)))"
    and "get (snd (update now db i (no_update\<lparr>u_priority := Some p\<rparr>))) i = Some (m\<lparr>m_priority := p, m_updated_at := now\<rparr>)"
    and "r \<in> set (db_memories (snd (update now db i (no_update\<lparr>u_priority := Some p\<rparr>)))) \<Longrightarrow> m_confidence r \<noteq> NaN"
proof -
  let ?u = "no_update\<lparr>u_priority := Some p\<rparr>"
  have mo: "memories_ok (db_memories db)" using ok by (simp add: db_ok_def)
  obtain r0 where r0: "r0 \<in> set (db_memories db)" "m_id r0 = i" "m = row_to_memory r0" using get_SomeD [OF m] by blast
  have row: "sql_row (\<lambda>r. m_id r = i) (db_memories db) = Some r0"
    using mo r0 by (auto simp: memories_ok_def intro: sql_row_unique)
  have "\<not> update_refused now ?u db r0"
    using conf [OF r0(1)] mo r0 by (auto simp: update_refused_def updated_def no_update_def effective_tier_def memories_ok_def title_key_def
        dest: unique_key_inj [of title_key])
  then obtain c where u: "update now db i ?u = (Inr (True, c),
      db\<lparr>db_memories := sql_update (\<lambda>x. m_id x = i) (updated now ?u) (db_memories db)\<rparr>)"
    using update_eq [OF mo r0(1,2), of now ?u] by blast
  then show "\<exists>c. update now db i ?u = (Inr (True, c), snd (update now db i ?u))" by simp
  have "get (snd (update now db i ?u)) i = Some (row_to_memory (updated now ?u r0))"
    using row updated_id.row_update_any [of i "\<lambda>x. m_id x = i" now ?u "db_memories db"] r0 by (simp add: u get_def)
  then show "get (snd (update now db i ?u)) i = Some (m\<lparr>m_priority := p, m_updated_at := now\<rparr>)"
    by (simp add: r0(3) updated_def no_update_def row_to_memory_def effective_tier_def update_expires_def)
  show "m_confidence r \<noteq> NaN" if "r \<in> set (db_memories (snd (update now db i ?u)))"
    using that conf unfolding u by (auto simp: sql_update_def updated_def no_update_def split: if_splits)
qed

lemma priority_reversed:
  assumes ok: "db_ok db" and conf: "\<And>r. r \<in> set (db_memories db) \<Longrightarrow> m_confidence r \<noteq> NaN" and m: "get db i = Some m"
  shows "\<exists>db2. reverse_rollback_entry env now (PriorityAdjust i before after) db = (Inr True, db2)
    \<and> get db2 i = Some (m\<lparr>m_priority := before, m_updated_at := now\<rparr>) \<and> (\<forall>j. j \<noteq> i \<longrightarrow> get db2 j = get db j)"
proof -
  let ?u = "no_update\<lparr>u_priority := Some before\<rparr>"
  obtain c where c: "update now db i ?u = (Inr (True, c), snd (update now db i ?u))" using priority_update(1) [OF ok conf m] by blast
  have "reverse_rollback_entry env now (PriorityAdjust i before after) db = (Inr True, snd (update now db i ?u))"
    unfolding reverse_rollback_entry.simps by (subst c) simp
  then show ?thesis using priority_update(2) [OF ok conf m] update_get_other [of _ i now db ?u] by blast
qed


section \<open>An example\<close>

definition ex_curator :: curator_env where
  "ex_curator = \<lparr>cv_alphanumeric = is_ascii_alphanumeric, cv_lowercase = (\<lambda>t. t), cv_order = (\<lambda>xs. xs), cv_days_since = (\<lambda>_. None),
     cv_ser = (\<lambda>_. []), cv_entry_json = action_tag, cv_report_json = (\<lambda>_ _. ''{}''),
     cv_uuid = (\<lambda>p k. ''c'' @ show_nat p @ ''-'' @ show_nat k), cv_now = (\<lambda>_ _. ''2026-02-01''),
     cv_started_at = ''2026-02-01'', cv_completed_at = ''2026-02-01'', cv_duration_ms = 1\<rparr>"

definition ex_llm :: AutonomyLlm where
  "ex_llm = \<lparr>ll_auto_tag = (\<lambda>_ _. Some [''note'']), ll_detect_contradiction = (\<lambda>_ _. Some True), ll_summarize_memories = (\<lambda>_. Some ''both'')\<rparr>"

definition ex_config_curator :: "bool \<Rightarrow> CuratorConfig" where
  "ex_config_curator dry = \<lparr>cc_max_ops_per_cycle = 10, cc_dry_run = dry, cc_include_namespaces = [], cc_exclude_namespaces = []\<rparr>"

definition ex_twins :: "Memory list" where
  "ex_twins = map (\<lambda>r. (row_to_memory r)\<lparr>m_content := ''same words''\<rparr>) (db_memories ex_db)"

theorem clusters_exact_witness:
  "map length (find_consolidation_clusters ex_curator ex_twins) = [2]
   \<and> mset (concat (find_consolidation_clusters ex_curator ex_twins)) \<subseteq># mset ex_twins
   \<and> list_all (\<lambda>c. length c \<le> 8 \<and> list_all (near_duplicate ex_curator (hd c)) (tl c)) (find_consolidation_clusters ex_curator ex_twins)"
proof -
  have "map length (find_consolidation_clusters ex_curator ex_twins) = [2]" by code_simp
  moreover have "distinct (map m_id ex_twins)" by code_simp
  then have "distinct ex_twins" unfolding distinct_map [of m_id] ..
  note clusters_exact [of ex_curator, OF _ this]
  ultimately show ?thesis by (simp add: ex_curator_def list_all_iff)
qed

theorem curator_cycle_contract_witness:
  "case run_once ex_curator (Some ex_llm) (ex_config_curator False) ex_db of (report, db') \<Rightarrow>
     db_ok db' \<and> cr_operations_attempted report \<le> 10 \<and> get db' ''m1'' = get ex_db ''m1'' \<and> get ex_db ''m1'' \<noteq> None"
proof -
  obtain report db' where run: "run_once ex_curator (Some ex_llm) (ex_config_curator False) ex_db = (report, db')" by (rule prod.exhaust)
  have "map_option (\<lambda>m. (needs_curation (ex_config_curator False) m, m_namespace m)) (get ex_db ''m1'') = Some (False, ''g'')" by code_simp
  then obtain m where m: "get ex_db ''m1'' = Some m" "\<not> needs_curation (ex_config_curator False) m" "m_namespace m = ''g''" by auto
  moreover have "m_namespace m \<notin> curator_namespaces" by (simp add: m(3) curator_namespaces_def CURATOR_NAMESPACE_def)
  moreover have order: "\<And>xs. mset (cv_order ex_curator xs) = mset xs" by (simp add: ex_curator_def)
  note contract = curator_cycle_contract [OF ex_db_ok run order]
  ultimately have "get db' ''m1'' = Some m" using contract by blast
  moreover have "cc_max_ops_per_cycle (ex_config_curator False) = 10" by (simp add: ex_config_curator_def)
  moreover have "cr_operations_attempted report \<le> cc_max_ops_per_cycle (ex_config_curator False)" "db_ok db'" using contract by auto
  ultimately show ?thesis unfolding run using m(1) by simp
qed

lemma ex_cluster_consolidated:
  "\<exists>db1. consolidate_cluster ex_curator ex_llm 0 (map row_to_memory (db_memories ex_db)) False ex_db
     = (Inr (Some (Consolidate (map row_to_memory (db_memories ex_db)) ''c0-0'')), db1)"
proof -
  let ?cl = "map row_to_memory (db_memories ex_db)"
  let ?c0 = "\<lparr>co_priority = 5, co_tags = [], co_access = 0, co_metadata = [], co_agents = []\<rparr>"
  define c where "c = \<lparr>co_priority = 5, co_tags = [], co_access = 0, co_metadata = [], co_agents = [''alice'', ''bob'']\<rparr>"
  have c: "collect_sources ex_db [''m1'', ''m2''] ?c0 = Inr c" unfolding c_def by code_simp
  have "json_depth (consolidated_metadata [''m1'', ''m2''] ''ai:curator'' c) \<le> 3"
    by (simp add: consolidated_metadata_def Let_def c_def)
  then have "validate_metadata (\<lambda>j. []) (consolidated_metadata [''m1'', ''m2''] ''ai:curator'' c) = Inr ()"
    by (simp add: validate_metadata_def is_object_def consolidated_metadata_def Let_def MAX_METADATA_SIZE_def MAX_METADATA_DEPTH_def)
  moreover have "\<not> mem_exists ex_db ''c0-0''"
    "sql_row (\<lambda>r. m_title r = ''[consolidated] a'' \<and> m_namespace r = ''g'') (db_memories ex_db) = None" by code_simp+
  ultimately have cons: "fst (consolidate (\<lambda>_. []) ''c0-0'' ''2026-02-01'' ex_db [''m1'', ''m2''] ''[consolidated] a'' sm ''g'' tier src ''ai:curator'')
      = Inr ''c0-0''" for sm tier src using c by (simp add: consolidate_def Let_def)
  have shape: "map m_id ?cl = [''m1'', ''m2'']" "m_title (hd ?cl) = ''a''" "m_namespace (hd ?cl) = ''g''" "length ?cl = 2"
    "\<not> list_ex (\<lambda>m. reserved (m_namespace m)) ?cl" "cv_uuid ex_curator 0 0 = ''c0-0''"
    by code_simp+
  have env: "cv_ser ex_curator = (\<lambda>_. [])" "cv_now ex_curator 0 0 = ''2026-02-01''" by (simp_all add: ex_curator_def)
  define cl where "cl = ?cl"
  note shape' = shape [folded cl_def]
  have "\<exists>db1. consolidate_cluster ex_curator ex_llm 0 cl False ex_db = (Inr (Some (Consolidate cl ''c0-0'')), db1)"
    using cons [of "''both''" "highest_tier cl" "''ai-memory curator (autonomy)''"]
    by (auto simp: consolidate_cluster_def shape' env ex_llm_def split: prod.split sum.split)
  then show ?thesis unfolding cl_def .
qed


section \<open>Where the curator falls short\<close>

text \<open>Recording a contradiction starts from the metadata the cycle read, so the tags it has just stored are lost.\<close>

lemma contradiction_drops_tags:
  "let mem = hd (map row_to_memory (db_memories ex_db));
       db1 = snd (persist_auto_tags ex_curator 0 mem [''note''] ex_db);
       db2 = snd (persist_contradiction ex_curator 0 mem ''m2'' db1)
   in map_option (\<lambda>m. json_get (m_metadata m) ''auto_tags'') (get db1 ''m1'') = Some (Some (JArr [JStr ''note'']))
    \<and> map_option (\<lambda>m. json_get (m_metadata m) ''auto_tags'') (get db2 ''m1'') = Some None"
  by code_simp

text \<open>A cycle tags a memory and then hands its older copy to the passes: reversing what they did gives back the copy, without the
  tags the memory had when it was removed.\<close>

lemma reversal_drops_tags:
  "let mem = hd (map row_to_memory (db_memories ex_db));
       db1 = snd (persist_auto_tags ex_curator 0 mem [''note''] ex_db);
       db2 = snd (delete db1 ''m1'');
       db3 = snd (reverse_rollback_entry ex_curator ''2026-02-02'' (Forget mem) db2)
   in map_option (\<lambda>m. json_get (m_metadata m) ''auto_tags'') (get db1 ''m1'') = Some (Some (JArr [JStr ''note'']))
    \<and> get db2 ''m1'' = None
    \<and> map_option (\<lambda>m. json_get (m_metadata m) ''auto_tags'') (get db3 ''m1'') = Some None"
  by code_simp

text \<open>A memory that was consolidated earlier in the cycle is still reported as forgotten: the outcome does not depend on the store.\<close>

lemma forget_ignores_store: "fst (forget_if_superseded mem mems dry_run db) = fst (forget_if_superseded mem mems dry_run db')"
  by (simp add: forget_if_superseded_def Let_def)

text \<open>The collision check sees only live memories: with an expired one in its place, a forgotten memory is merged into it and
  reported as restored.\<close>

lemma restored_into_expired:
  "let db = snd (update ''2026-01-01'' ex_db ''m1'' (no_update\<lparr>u_expires_at := Some ''2025-01-01''\<rparr>));
       run = reverse_rollback_entry ex_curator ''2026-02-01'' (Forget (ex_note ''m9'' ''a'' Mid ''eve'')) db
   in fst run = Inr True \<and> get (snd run) ''m9'' = None"
  by code_simp

text \<open>A dry run counts rollback entries as written.\<close>

lemma dry_run_counts_entries:
  "ar_rollback_entries_written (fst (record_outcome env True p k count_forgotten (Inr (Some entry), db) report))
     = ar_rollback_entries_written report + 1"
  by (simp add: record_outcome_def count_forgotten_def)

end
