(* ===== verification/Spec2Isabelle.thy ===== *)
theory Spec2Isabelle
  imports System Audit_Log Hooks Permissions Subscriptions Transcripts Vector_Index Recall_Tool Http_Safety Curator_Safety
begin

text \<open>
  A model of \<open>ai-memory\<close>, a memory server for AI agents (Rust sources under \<open>src/src/\<close>), with the theorems that make it correct.

  \<^bold>\<open>The program.\<close> Memories, links between them, namespace standards, pending actions and an archive live in one SQLite database
  (\<open>db.rs\<close>). Agents reach it through tools (\<open>mcp.rs\<close>) and over HTTP (\<open>handlers.rs\<close>); both validate their input
  (\<open>validate.rs\<close>), resolve the caller (\<open>identity/\<close>), ask governance policies (\<open>db.rs\<close>) and, for tools, permission rules
  (\<open>permissions.rs\<close>, \<open>approvals.rs\<close>) and quotas (\<open>quotas.rs\<close>), then work on the store and the in-memory vector index
  (\<open>hnsw.rs\<close>, \<open>embeddings.rs\<close>), notify subscribers (\<open>subscriptions.rs\<close>) and write an audit log (\<open>audit.rs\<close>). HTTP writes are
  sent to the peers and confirmed by a quorum (\<open>federation.rs\<close>, \<open>replication.rs\<close>); peers apply what they receive with
  newer-wins merges (\<open>handlers.rs\<close>, \<open>db.rs\<close>). Hooks (\<open>hooks/\<close>) and transcripts (\<open>transcripts.rs\<close>) complete it.

  \<^bold>\<open>Foundations.\<close>
  \<^item> \<open>Prelude\<close>, \<open>Rust_Str\<close>: results as sums, 64-bit arithmetic, JSON values, Rust's strings as byte lists.
  \<^item> \<open>Sql\<close>: tables as lists of rows in rowid order; select, update, upsert. The locale \<open>key_preserving\<close> says what an update that
    keeps the primary key promises; every row update of the store interprets it.
  \<^item> \<open>Models\<close>, \<open>Validate\<close>: \<open>models.rs\<close> and \<open>validate.rs\<close>; namespaces pass validation exactly when they are paths of proper segments.

  \<^bold>\<open>The store\<close> (\<open>db.rs\<close>). The record \<open>Db\<close> holds the tables; \<open>db_ok\<close> is its invariant (unique keys, no dangling link). An operation
  returns its result and the new database; a transaction is one transition, and a statement that fails leaves no effect.
  \<^item> \<open>Memory_Store\<close>: insert with merge, get, update, delete, touch, resolution of id prefixes, versioned titles; \<open>upsert_merge\<close> is
    the locale of the two upserts.
  \<^item> \<open>Visibility\<close>, \<open>Search\<close>, \<open>Hybrid\<close>: who sees what, listing, search and recall, and the fusion of text search with
    embeddings: results are stored, alive, visible, within the limit, and touched exactly once. \<open>ordering_key\<close> is the locale of sorted results.
  \<^item> \<open>Archive\<close>, \<open>Links\<close>, \<open>Graph\<close>, \<open>Catalog\<close>: archiving and restoring, forgetting and collection, links and consolidation, the
    temporal graph with path search, entities, agents, taxonomy and duplicate detection.
  \<^item> \<open>Governance\<close>: namespace standards, inherited policies, pending actions and their approval, in all three modes of the gate.
  \<^item> \<open>Embeddings\<close>, \<open>Vector_Index\<close>: the stored vectors and the index over them.
  \<^item> \<open>Sync\<close>, \<open>Replica\<close>: newer-wins merges, vector clocks, and what a node does with the push of a peer; the locale
    \<open>push_invariant\<close> lifts an invariant of single items to whole pushes.
  \<^item> \<open>System\<close>: the store as a state machine over all these operations: every reachable store is well formed, local operations
    leave decisions final, and the approval operation demands the quorum of a consensus (decisions that peers push bypass it).

  \<^bold>\<open>Around the store.\<close>
  \<^item> \<open>Quotas\<close>: counters stay between zero and their limits; no day admits more than its limit.
  \<^item> \<open>Identity\<close>: resolution of agent ids, canonical CBOR, signatures over links.
  \<^item> \<open>Replication\<close>, \<open>Federation\<close>: a committed broadcast was acknowledged by W - 1 peers (which is less than stored by them: a
    peer that skips the memory acknowledges too), and enough timely answers make it commit.
  \<^item> \<open>Permissions\<close>, \<open>Hooks\<close>: rules, remembered approvals and the chain of hooks: a denial wins, a chain ends in time.
  \<^item> \<open>Subscriptions\<close>: filters, the guard against internal targets, signed delivery with retries and its records; the redirects that the
    HTTP client follows on its own are a parameter, since no guard sees them.
  \<^item> \<open>Transcripts\<close>: compressed storage, the archive-and-prune sweep, replay behind the permission check.
  \<^item> \<open>Audit_Log\<close>: the hash chain; two logs with one final hash record the same events, or a collision is exhibited.
  \<^item> \<open>Curator\<close>, \<open>Curator_Safety\<close>: the curator's cycle (\<open>curator.rs\<close>, \<open>autonomy.rs\<close>): it changes only eligible memories and tags
    no more than its cap, clusters are exact, and reversing a logged action gives back the copy that was logged. The locale \<open>effect\<close> lifts what holds of one item to a pass.

  \<^bold>\<open>The interfaces.\<close>
  \<^item> \<open>Tools\<close>, \<open>Tool_Safety\<close>: the tools of \<open>mcp.rs\<close> that write (except entities, link invalidation and subscriptions, whose
    operations are in \<open>Catalog\<close>, \<open>Graph\<close> and \<open>Subscriptions\<close>), as a function on the server's state (\<open>tool_state\<close>: database, quotas,
    index, remembered rules, emitted events). What a store answers is true and charged once; nothing is written past a gate.
  \<^item> \<open>Http\<close>, \<open>Http_Safety\<close>: the key check, the signed approval endpoint and the writing handlers of \<open>handlers.rs\<close>, each with its
    gate and its broadcasts. However these tool calls and requests are interleaved, the store and the index go only through their
    operations; an answer is true on every branch; success means that the quorum acknowledged exactly this write.
  \<^item> \<open>Reranker\<close>, \<open>Recall_Tool\<close>: the second ranking (\<open>reranker.rs\<close>) with its coalescing worker as a step relation, and the recall
    tool of \<open>mcp.rs\<close> behind its hooks. Batches change no answer; the results are stored, live, in scope, visible by the
    documented rule and unique, while namespace standards are added to them unchecked. \<open>ranking\<close> is the locale of what a reordering keeps.

  \<^bold>\<open>Conventions.\<close> Clocks, fresh ids, hashes, signatures, full-text matching, embedding and language models, serializers, name
  resolution and the network are parameters, so the theorems hold whatever they return; what a theorem needs of them is a named
  hypothesis with a witness. Floats are \<open>Fin\<close> of a rational or not finite. The database sits behind one mutex, so handlers are
  transitions; the broadcasts of a request run after them, on the schedules the environment gives. Loops end by measures given
  with their definitions; nothing needs fuel. Chain depth, path depth, retries, list sizes and time windows are the program's
  own constants. Lemmas at the ends of the theories show where the code does less than it means to; the findings name them.

  \<^bold>\<open>Not modelled.\<close> Reading handlers, routing, request extractors and event streams (glue over modelled queries); tool schemas and
  dispatch; the command line (\<open>cli/\<close>) and its formatting (\<open>toon.rs\<close>, \<open>color.rs\<close>); the language-model client, the neural models and TLS
  set-up (external services); the PostgreSQL and SQLite adapters of \<open>store/\<close>, migrations, mining and benchmarks; the daemon's
  supervision loops; logging and metrics; configuration files beyond the lifetimes, scoring and transcript sections; storage
  failures of SQLite itself, of which only those the code distinguishes are values of \<open>DbError\<close>.
\<close>

end
